(* ===== verification/Prelude.thy ===== *)
theory Prelude
  imports Complex_Main "HOL-Library.Sublist"
begin

text \<open>
  What every component of the development shares: the Python exceptions the modelled code raises
  or catches, the JSON values it stores, the texts a state store holds, Python dictionaries with
  their insertion order, and a few string helpers.

  Python floats are modelled as exact real numbers; where the code itself distinguishes NaN or an
  infinity the component that does so says how. Clocks are explicit real arguments (seconds).
\<close>

section \<open>Proof collections\<close>

named_theorems dict_simps \<open>lookup after an update of a Python dictionary\<close>
named_theorems store_simps \<open>reading a state store after one of its operations\<close>
named_theorems step_defs \<open>unfolding of the operations a step is made of\<close>

section \<open>Exceptions\<close>

datatype py_error =
    ValueError
  | TypeError
  | AttributeError
  | OverflowError
  | OSError
  | KeineSchreibberechtigung
  | StateLockNotAcquired
  | ValidationError
  | BrokerError string

section \<open>JSON values\<close>

text \<open>The values \<open>json.loads\<close> returns. An object is its list of fields, keys in order.\<close>

datatype jval =
    JNull
  | JBool bool
  | JNum real
  | JStr string
  | JList "jval list"
  | JObj "(string \<times> jval) list"

text \<open>Python's truth value of such an object (\<open>if x\<close>, \<open>x or y\<close>).\<close>

fun jtruthy :: "jval \<Rightarrow> bool" where
  "jtruthy JNull = False"
| "jtruthy (JBool b) = b"
| "jtruthy (JNum r) = (r \<noteq> 0)"
| "jtruthy (JStr s) = (s \<noteq> [])"
| "jtruthy (JList xs) = (xs \<noteq> [])"
| "jtruthy (JObj fs) = (fs \<noteq> [])"

text \<open>\<open>d.get(k)\<close> on an object: \<open>JNull\<close> stands for Python's \<open>None\<close>.\<close>

definition jget :: "(string \<times> jval) list \<Rightarrow> string \<Rightarrow> jval" where
  "jget fs k = (case map_of fs k of None \<Rightarrow> JNull | Some v \<Rightarrow> v)"

section \<open>Texts in a state store\<close>

text \<open>
  A store holds texts. A text is modelled by what its readers make of it: \<open>Json j\<close> is the text
  \<open>json.dumps(j)\<close>, \<open>Zahl r\<close> is the text \<open>repr(r)\<close> of a float, and \<open>Text s\<close> is any other
  text \<open>s\<close>, which neither \<open>json.loads\<close> nor \<open>float\<close> accepts.
\<close>

datatype wert = Text string | Zahl real | Json jval

fun json_loads :: "wert \<Rightarrow> jval option" where
  "json_loads (Json j) = Some j"
| "json_loads (Zahl r) = Some (JNum r)"
| "json_loads (Text _) = None"

fun wert_truthy :: "wert \<Rightarrow> bool" where
  "wert_truthy (Text s) = (s \<noteq> [])"
| "wert_truthy (Zahl _) = True"
| "wert_truthy (Json _) = True"

text \<open>\<open>float(text)\<close>: \<open>None\<close> is the \<open>ValueError\<close>.\<close>

fun wert_float :: "wert \<Rightarrow> real option" where
  "wert_float (Zahl r) = Some r"
| "wert_float (Json (JNum r)) = Some r"
| "wert_float _ = None"

text \<open>An attribute read with \<open>getattr\<close>: missing (or \<open>None\<close>), or a number or a text.\<close>

datatype attribut = Fehlt | Wert wert

section \<open>Floats where NaN matters\<close>

text \<open>
  Most components take a float as a real number. The components whose comparisons decide about a
  NaN or an infinity use \<open>pyfloat\<close>: \<open>Inf True\<close> is minus infinity. Rounding and overflow are left out.
\<close>

datatype pyfloat = Fin real | Inf bool | NaN

fun fl_add :: "pyfloat \<Rightarrow> pyfloat \<Rightarrow> pyfloat" where
  "fl_add (Fin a) (Fin b) = Fin (a + b)"
| "fl_add (Inf s) (Fin _) = Inf s"
| "fl_add (Fin _) (Inf s) = Inf s"
| "fl_add (Inf s) (Inf t) = (if s = t then Inf s else NaN)"
| "fl_add NaN _ = NaN"
| "fl_add _ NaN = NaN"

fun fl_mult :: "pyfloat \<Rightarrow> pyfloat \<Rightarrow> pyfloat" where
  "fl_mult (Fin a) (Fin b) = Fin (a * b)"
| "fl_mult (Inf s) (Fin b) = (if b = 0 then NaN else Inf (s \<noteq> (b < 0)))"
| "fl_mult (Fin a) (Inf s) = (if a = 0 then NaN else Inf (s \<noteq> (a < 0)))"
| "fl_mult (Inf s) (Inf t) = Inf (s \<noteq> t)"
| "fl_mult NaN _ = NaN"
| "fl_mult _ NaN = NaN"

fun fl_abs :: "pyfloat \<Rightarrow> pyfloat" where
  "fl_abs (Fin a) = Fin \<bar>a\<bar>"
| "fl_abs (Inf _) = Inf False"
| "fl_abs NaN = NaN"

text \<open>Every comparison with NaN is false.\<close>

fun fl_less :: "pyfloat \<Rightarrow> pyfloat \<Rightarrow> bool" where
  "fl_less (Fin a) (Fin b) = (a < b)"
| "fl_less (Inf s) (Fin _) = s"
| "fl_less (Fin _) (Inf s) = (\<not> s)"
| "fl_less (Inf s) (Inf t) = (s \<and> \<not> t)"
| "fl_less NaN _ = False"
| "fl_less _ NaN = False"

definition fl_le :: "pyfloat \<Rightarrow> pyfloat \<Rightarrow> bool" where
  "fl_le x y = (fl_less x y \<or> (x = y \<and> x \<noteq> NaN))"

lemma fl_le_simps [simp]: "fl_le (Fin a) (Fin b) = (a \<le> b)" "fl_le NaN x = False" "fl_le x NaN = False"
  by (auto simp: fl_le_def) (cases x; simp)+

section \<open>Python dictionaries\<close>

text \<open>
  A dictionary keeps the order in which its keys were first inserted: assigning to a present key
  replaces the value in place, assigning to an absent one appends.
\<close>

type_synonym ('k, 'v) pydict = "('k \<times> 'v) list"

fun dict_set :: "'k \<Rightarrow> 'v \<Rightarrow> ('k, 'v) pydict \<Rightarrow> ('k, 'v) pydict" where
  "dict_set k v [] = [(k, v)]"
| "dict_set k v (e # d) = (if fst e = k then (k, v) # d else e # dict_set k v d)"

definition dict_del :: "'k \<Rightarrow> ('k, 'v) pydict \<Rightarrow> ('k, 'v) pydict" where
  "dict_del k d = filter (\<lambda>e. fst e \<noteq> k) d"

definition dict_keys :: "('k, 'v) pydict \<Rightarrow> 'k list" where
  "dict_keys d = map fst d"

abbreviation dict_ok :: "('k, 'v) pydict \<Rightarrow> bool" where
  "dict_ok d \<equiv> distinct (map fst d)"

lemma dict_set_lookup [simp, dict_simps]: "map_of (dict_set k v d) = (map_of d)(k \<mapsto> v)"
  by (induction d) auto

lemma dict_del_lookup [simp, dict_simps]: "map_of (dict_del k d) = (map_of d)(k := None)"
  by (induction d) (auto simp: dict_del_def)

lemma dict_set_keys [simp, dict_simps]: "fst ` set (dict_set k v d) = insert k (fst ` set d)"
  by (induction d) auto

lemma dict_del_keys [simp, dict_simps]: "fst ` set (dict_del k d) = fst ` set d - {k}"
  by (auto simp: dict_del_def)

lemma dict_ok_set [simp, intro]: "dict_ok d \<Longrightarrow> dict_ok (dict_set k v d)"
proof (induction d)
  case (Cons e d)
  have "fst ` set (dict_set k v d) = insert k (fst ` set d)" by simp
  with Cons show ?case by auto
qed simp

lemma dict_ok_del [simp, intro]: "dict_ok d \<Longrightarrow> dict_ok (dict_del k d)"
  by (induction d) (auto simp: dict_del_def)

lemma set_dict_del: "set (dict_del k d) = {e \<in> set d. fst e \<noteq> k}"
  by (simp add: dict_del_def)

lemma set_dict_set: "e \<in> set (dict_set k v d) \<Longrightarrow> e = (k, v) \<or> e \<in> set d"
  by (induction d) (auto split: if_splits)

lemma dict_set_all: "\<forall>e \<in> set d. P e \<Longrightarrow> P (k, v) \<Longrightarrow> \<forall>e \<in> set (dict_set k v d). P e"
  by (induction d) auto

lemma dict_del_all: "\<forall>e \<in> set d. P e \<Longrightarrow> \<forall>e \<in> set (dict_del k d). P e"
  by (simp add: dict_del_def)

lemma dict_set_new: "k \<notin> fst ` set d \<Longrightarrow> dict_set k v d = d @ [(k, v)]"
  by (induction d) auto

section \<open>Strings\<close>

definition startswith :: "string \<Rightarrow> string \<Rightarrow> bool" where
  "startswith s p = (take (length p) s = p)"

lemma startswith_append [simp]: "startswith (p @ s) p"
  by (simp add: startswith_def)

lemma startswithE: "startswith s p \<Longrightarrow> \<exists>r. s = p @ r"
  unfolding startswith_def by (metis append_take_drop_id)

text \<open>Two texts with prefixes that differ at a position both have are different.\<close>

lemma append_prefix_neq:
  "i < length p \<Longrightarrow> i < length q \<Longrightarrow> p ! i \<noteq> q ! i \<Longrightarrow> p @ x \<noteq> q @ y"
  by (metis nth_append)

text \<open>Latin-1 texts: white space, letters, \<open>lower\<close> and \<open>upper\<close>. The capitals of two letters are no
  Latin-1 and stay what they are: letters.\<close>

definition py_space :: "char \<Rightarrow> bool" where
  "py_space c = (let n = (of_char c :: nat) in 9 \<le> n \<and> n \<le> 13 \<or> 28 \<le> n \<and> n \<le> 32 \<or> n = 133 \<or> n = 160)"

definition py_strip :: "string \<Rightarrow> string" where
  "py_strip s = rev (dropWhile py_space (rev (dropWhile py_space s)))"

definition is_upper :: "char \<Rightarrow> bool" where
  "is_upper c = (let n = (of_char c :: nat) in 65 \<le> n \<and> n \<le> 90 \<or> 192 \<le> n \<and> n \<le> 222 \<and> n \<noteq> 215)"

definition has_capital :: "char \<Rightarrow> bool" where
  "has_capital c = (let n = (of_char c :: nat) in 97 \<le> n \<and> n \<le> 122 \<or> 224 \<le> n \<and> n \<le> 254 \<and> n \<noteq> 247)"

definition is_alpha :: "char \<Rightarrow> bool" where
  "is_alpha c = (is_upper c \<or> has_capital c \<or> (of_char c :: nat) \<in> {170, 181, 186, 223, 255})"

definition py_lower :: "string \<Rightarrow> string" where
  "py_lower s = map (\<lambda>c. if is_upper c then char_of ((of_char c :: nat) + 32) else c) s"

definition py_upper :: "string \<Rightarrow> string" where
  "py_upper s =
     concat (map (\<lambda>c. if has_capital c then [char_of ((of_char c :: nat) - 32)]
                      else if (of_char c :: nat) = 223 then ''SS'' else [c]) s)"

lemma code_of_char [simp]: "n < 256 \<Longrightarrow> of_char (char_of (n :: nat)) = n"
  by simp

lemma has_capital_of_capital: "has_capital c \<Longrightarrow> \<not> has_capital (char_of (of_char c - 32 :: nat))
    \<and> of_char (char_of (of_char c - 32 :: nat)) \<noteq> (223 :: nat)"
  by (auto simp: has_capital_def Let_def)

lemma py_upper_capital:
  "c \<in> set (py_upper s) \<Longrightarrow> \<not> has_capital c \<and> (of_char c :: nat) \<noteq> 223"
  using has_capital_of_capital
  by (auto simp: py_upper_def split: if_splits; fastforce simp: has_capital_def Let_def)

lemma py_upper_fixed: "\<forall>c \<in> set s. \<not> has_capital c \<and> (of_char c :: nat) \<noteq> 223 \<Longrightarrow> py_upper s = s"
  by (induction s) (auto simp: py_upper_def)

lemma set_py_strip: "set (py_strip s) \<subseteq> set s"
  unfolding py_strip_def by (auto dest!: set_dropWhileD)

lemma py_upper_strip_upper: "py_upper (py_strip (py_upper s)) = py_strip (py_upper s)"
  by (rule py_upper_fixed) (use py_upper_capital set_py_strip in blast)

text \<open>Decimal numerals: \<open>str(n)\<close> and \<open>int(text)\<close> of a natural number.\<close>

definition ziffer :: "nat \<Rightarrow> char" where
  "ziffer n = char_of (48 + n)"

definition ist_ziffer :: "char \<Rightarrow> bool" where
  "ist_ziffer c = (48 \<le> (of_char c :: nat) \<and> (of_char c :: nat) \<le> 57)"

fun dez :: "nat \<Rightarrow> string" where
  "dez n = (if n < 10 then [ziffer n] else dez (n div 10) @ [ziffer (n mod 10)])"

declare dez.simps [simp del]

definition lies_dez :: "string \<Rightarrow> nat" where
  "lies_dez s = foldl (\<lambda>a c. 10 * a + (of_char c - 48)) 0 s"

lemma of_char_ziffer [simp]: "n < 10 \<Longrightarrow> of_char (ziffer n) = 48 + n"
  by (simp add: ziffer_def)

lemma ist_ziffer_ziffer [simp]: "n < 10 \<Longrightarrow> ist_ziffer (ziffer n)"
  by (simp add: ist_ziffer_def)

lemma dez_nonempty [simp]: "dez n \<noteq> []"
  by (subst dez.simps) simp

lemma dez_ziffern: "\<forall>c \<in> set (dez n). ist_ziffer c"
proof (induction n rule: dez.induct)
  case (1 n)
  then show ?case by (subst dez.simps) auto
qed

lemma lies_dez_dez [simp]: "lies_dez (dez n) = n"
proof (induction n rule: dez.induct)
  case (1 n)
  then show ?case by (subst dez.simps) (simp add: lies_dez_def)
qed

lemma dez_inj: "dez m = dez n \<longleftrightarrow> m = n"
  by (metis lies_dez_dez)

lemma length_dez: "n < 10 ^ k \<Longrightarrow> 0 < k \<Longrightarrow> length (dez n) \<le> k"
proof (induction n arbitrary: k rule: dez.induct)
  case (1 n)
  show ?case
  proof (cases "n < 10")
    case True
    with 1 show ?thesis by (subst dez.simps) simp
  next
    case False
    with 1(2) obtain j where k: "k = Suc j" "0 < j" by (cases k; cases "k - 1") auto
    with 1(2) have "n div 10 < 10 ^ j" by (simp add: less_mult_imp_div_less mult.commute)
    with 1(1) [OF False] k False show ?thesis by (subst dez.simps) simp
  qed
qed

lemma dez_length_mono: "m \<le> n \<Longrightarrow> length (dez m) \<le> length (dez n)"
proof (induction n arbitrary: m rule: dez.induct)
  case (1 n)
  show ?case
  proof (cases "m < 10")
    case True
    then have "length (dez m) = 1" by (subst dez.simps) simp
    then show ?thesis by (simp add: Suc_leI)
  next
    case False
    with 1(2) have "\<not> n < 10" "m div 10 \<le> n div 10" by (auto intro: div_le_mono)
    with 1(1) have "length (dez (m div 10)) \<le> length (dez (n div 10))" by blast
    then show ?thesis
      using False \<open>\<not> n < 10\<close> by (subst (1 2) dez.simps) simp
  qed
qed

section \<open>Rounding\<close>

text \<open>Python's \<open>round(x, n)\<close>: to the nearest multiple of \<open>10^-n\<close>, a tie to the even neighbour.\<close>

definition round_half_even :: "real \<Rightarrow> int" where
  "round_half_even y =
     (let f = \<lfloor>y\<rfloor>; d = y - of_int f
      in if d < 1 / 2 then f else if 1 / 2 < d then f + 1 else if even f then f else f + 1)"

definition py_round :: "nat \<Rightarrow> real \<Rightarrow> real" where
  "py_round n x = of_int (round_half_even (x * 10 ^ n)) / 10 ^ n"

lemma round_half_even_of_int [simp]: "round_half_even (of_int n) = n"
  by (simp add: round_half_even_def)

lemma round_half_even_near: "\<bar>of_int (round_half_even y) - y\<bar> \<le> 1 / 2"
proof -
  have "of_int \<lfloor>y\<rfloor> \<le> y" "y < of_int \<lfloor>y\<rfloor> + 1" by linarith+
  then show ?thesis by (auto simp: round_half_even_def Let_def)
qed

lemma round_half_even_less: "y < of_int n + 1 / 2 \<Longrightarrow> round_half_even y \<le> n"
proof -
  assume "y < of_int n + 1 / 2"
  with round_half_even_near [of y] have "of_int (round_half_even y) < of_int n + (1::real)" by linarith
  then show ?thesis by linarith
qed

lemma round_half_even_le_int: "y \<le> of_int n \<Longrightarrow> round_half_even y \<le> n"
  by (rule round_half_even_less) simp

lemma round_half_even_ge_int: "of_int n \<le> y \<Longrightarrow> n \<le> round_half_even y"
proof -
  assume "of_int n \<le> y"
  with round_half_even_near [of y] have "of_int n - 1 < (of_int (round_half_even y) :: real)" by linarith
  then show ?thesis by linarith
qed

lemma py_round_nonneg: "0 \<le> x \<Longrightarrow> 0 \<le> py_round n x"
  using round_half_even_ge_int [of 0 "x * 10 ^ n"] by (simp add: py_round_def)

lemma py_round_near: "\<bar>py_round n x - x\<bar> \<le> 1 / (2 * 10 ^ n)"
proof -
  have "py_round n x - x = (of_int (round_half_even (x * 10 ^ n)) - x * 10 ^ n) / 10 ^ n"
    by (simp add: py_round_def diff_divide_distrib)
  then have "\<bar>py_round n x - x\<bar> = \<bar>of_int (round_half_even (x * 10 ^ n)) - x * 10 ^ n\<bar> / 10 ^ n"
    by (simp add: abs_divide)
  also have "\<dots> \<le> (1 / 2) / 10 ^ n"
    by (rule divide_right_mono [OF round_half_even_near]) simp
  finally show ?thesis by simp
qed

text \<open>The multiples of \<open>10^-n\<close>: rounding lands on them and keeps them.\<close>

definition on_grid :: "nat \<Rightarrow> real \<Rightarrow> bool" where
  "on_grid n x = (x * 10 ^ n \<in> \<int>)"

lemma on_gridE: "on_grid n x \<Longrightarrow> (\<And>k. x = of_int k / 10 ^ n \<Longrightarrow> P) \<Longrightarrow> P"
  by (auto simp: on_grid_def field_simps elim!: Ints_cases)

lemma on_grid_of_int [simp]: "on_grid n (of_int k / 10 ^ n)"
  by (simp add: on_grid_def)

lemma on_grid_py_round [simp]: "on_grid n (py_round n x)"
  by (simp add: py_round_def)

lemma py_round_on_grid: "on_grid n x \<Longrightarrow> py_round n x = x"
  by (elim on_gridE) (simp add: py_round_def)

lemma on_grid_diff: "on_grid n x \<Longrightarrow> on_grid n y \<Longrightarrow> on_grid n (x - y)"
  by (simp add: on_grid_def left_diff_distrib)

lemma on_grid_add: "on_grid n x \<Longrightarrow> on_grid n y \<Longrightarrow> on_grid n (x + y)"
  by (simp add: on_grid_def distrib_right)

lemma on_grid_zero [simp]: "on_grid n 0"
  by (simp add: on_grid_def)

lemma py_round_le_grid: "on_grid n g \<Longrightarrow> x \<le> g \<Longrightarrow> py_round n x \<le> g"
proof -
  assume g: "on_grid n g" and x: "x \<le> g"
  from g obtain k where k: "g = of_int k / 10 ^ n" by (rule on_gridE)
  with x have "x * 10 ^ n \<le> of_int k" by (simp add: field_simps)
  then have "round_half_even (x * 10 ^ n) \<le> k" by (rule round_half_even_le_int)
  then show ?thesis by (simp add: py_round_def k divide_right_mono)
qed

section \<open>Sums over a dictionary\<close>

lemma sum_dict_set:
  "dict_ok d \<Longrightarrow> sum_list (map g (dict_set k v d)) =
     sum_list (map g d) - (case map_of d k of None \<Rightarrow> 0 | Some u \<Rightarrow> g (k, u)) + (g (k, v) :: real)"
proof (induction d)
  case (Cons e d)
  have "map_of d k = None" if "fst e = k"
    using Cons.prems that by (auto simp: map_of_eq_None_iff)
  with Cons show ?case by (cases e) (auto simp: algebra_simps)
qed simp

lemma dict_del_absent: "k \<notin> fst ` set d \<Longrightarrow> dict_del k d = d"
  by (induction d) (auto simp: dict_del_def)

lemma sum_dict_del:
  "dict_ok d \<Longrightarrow> sum_list (map g (dict_del k d)) =
     sum_list (map g d) - (case map_of d k of None \<Rightarrow> 0 | Some u \<Rightarrow> (g (k, u) :: real))"
proof (induction d)
  case (Cons e d)
  show ?case
  proof (cases "fst e = k")
    case True
    with Cons.prems have "k \<notin> fst ` set d" by auto
    with True show ?thesis by (cases e) (simp add: dict_del_def dict_del_absent [unfolded dict_del_def])
  next
    case False
    with Cons show ?thesis by (cases e) (auto simp: dict_del_def)
  qed
qed (simp add: dict_del_def)

section \<open>Results\<close>

text \<open>\<open>Inl\<close> is a raised exception. Sequencing stops at the first one.\<close>

fun result_bind :: "'e + 'a \<Rightarrow> ('a \<Rightarrow> 'e + 'b) \<Rightarrow> 'e + 'b" where
  "result_bind (Inl e) f = Inl e"
| "result_bind (Inr x) f = f x"

lemma result_bind_Inr: "result_bind m f = Inr y \<longleftrightarrow> (\<exists>x. m = Inr x \<and> f x = Inr y)"
  by (cases m) auto

lemma result_bind_Inl: "result_bind m f = Inl e \<longleftrightarrow> m = Inl e \<or> (\<exists>x. m = Inr x \<and> f x = Inl e)"
  by (cases m) auto

text \<open>A comprehension whose body can raise.\<close>

fun result_each :: "('a \<Rightarrow> 'e + 'b) \<Rightarrow> 'a list \<Rightarrow> 'e + 'b list" where
  "result_each f [] = Inr []"
| "result_each f (x # xs) = result_bind (f x) (\<lambda>y. result_bind (result_each f xs) (\<lambda>ys. Inr (y # ys)))"

lemma result_each_Inr: "result_each f xs = Inr ys \<longleftrightarrow> list_all2 (\<lambda>x y. f x = Inr y) xs ys"
  by (induction xs arbitrary: ys) (auto simp: result_bind_Inr list_all2_Cons1)

lemma result_each_Inl: "result_each f xs = Inl e \<Longrightarrow> \<exists>x \<in> set xs. f x = Inl e"
  by (induction xs) (auto simp: result_bind_Inl)

lemma result_each_all: "(\<And>x. x \<in> set xs \<Longrightarrow> f x = Inr (g x)) \<Longrightarrow> result_each f xs = Inr (map g xs)"
  by (induction xs) simp_all

lemma option_eq_None_iff_notin: "m k = None \<longleftrightarrow> k \<notin> dom m"
  by auto

end
