(* ===== verification/State_Store.thy ===== *)
theory State_Store
  imports Prelude
begin

text \<open>
  The operating state of the engine: the SQLite implementation of the \<open>StatePort\<close>
  (\<open>core/state/sqlite_adapter.py\<close>), the synchronous access to the same table
  (\<open>core/state/synchron.py\<close>), and the contracts of the port (\<open>core/state/port.py\<close>) as
  the locales \<open>state_port\<close>, \<open>state_queue\<close> and \<open>state_lock\<close>, interpreted on the SQLite model.

  The two tables are a map from keys to a value with an optional expiry time, and the queue rows
  in the order of their AUTOINCREMENT number. Each operation runs inside one transaction under the
  adapter's write lock, so it is one function from store to store. \<open>now\<close> is \<open>time.time()\<close> at the
  call. Opening the file and SQLite's own errors are not modelled.
\<close>

section \<open>The tables\<close>

record store =
  st_rows :: "string \<Rightarrow> (wert \<times> real option) option"
  st_queue :: "(nat \<times> string \<times> wert) list"
  st_seq :: nat

definition empty_store :: store where
  "empty_store = \<lparr>st_rows = (\<lambda>_. None), st_queue = [], st_seq = 1\<rparr>"

definition abgelaufen :: "real \<Rightarrow> real option \<Rightarrow> bool" where
  "abgelaufen now f = (case f of None \<Rightarrow> False | Some t \<Rightarrow> t \<le> now)"

section \<open>Keys and values: SqliteStateAdapter\<close>

definition sq_get :: "store \<Rightarrow> real \<Rightarrow> string \<Rightarrow> wert option" where
  "sq_get s now k =
     (case st_rows s k of
        None \<Rightarrow> None
      | Some (w, frist) \<Rightarrow> if abgelaufen now frist then None else Some w)"

definition sq_set :: "store \<Rightarrow> real \<Rightarrow> string \<Rightarrow> wert \<Rightarrow> real option \<Rightarrow> store" where
  "sq_set s now k v ttl = s\<lparr>st_rows := (st_rows s)(k \<mapsto> (v, map_option ((+) now) ttl))\<rparr>"

definition sq_delete :: "store \<Rightarrow> string \<Rightarrow> store \<times> bool" where
  "sq_delete s k = (s\<lparr>st_rows := (st_rows s)(k := None)\<rparr>, st_rows s k \<noteq> None)"

text \<open>A live value that is no number is refused: the counter would lose its state.\<close>

definition sq_increment ::
  "store \<Rightarrow> real \<Rightarrow> string \<Rightarrow> real \<Rightarrow> real option \<Rightarrow> py_error + store \<times> real" where
  "sq_increment s now k amount ttl =
     (let stand =
        (case st_rows s k of
           None \<Rightarrow> Inr 0
         | Some (w, frist) \<Rightarrow>
             if abgelaufen now frist then Inr 0
             else (case wert_float w of None \<Rightarrow> Inl ValueError | Some r \<Rightarrow> Inr r))
      in case stand of
           Inl e \<Rightarrow> Inl e
         | Inr r \<Rightarrow> Inr (sq_set s now k (Zahl (r + amount)) ttl, r + amount))"

section \<open>The queue: SqliteStateAdapter\<close>

definition rows_of :: "string \<Rightarrow> (nat \<times> string \<times> wert) list \<Rightarrow> (nat \<times> string \<times> wert) list" where
  "rows_of k q = filter (\<lambda>r. fst (snd r) = k) q"

definition sq_read :: "store \<Rightarrow> string \<Rightarrow> wert list" where
  "sq_read s k = map (\<lambda>r. snd (snd r)) (rows_of k (st_queue s))"

text \<open>
  \<open>LIMIT n\<close> keeps the \<open>n\<close> newest rows of the key; a negative limit is no limit in SQLite.
\<close>

definition neueste :: "int \<Rightarrow> nat list \<Rightarrow> nat list" where
  "neueste n seqs = (if n < 0 then seqs else take (nat n) (rev seqs))"

definition sq_append ::
  "store \<Rightarrow> string \<Rightarrow> wert \<Rightarrow> int option \<Rightarrow> store \<times> nat" where
  "sq_append s k v max_length =
     (let q = st_queue s @ [(st_seq s, k, v)];
          q' = (case max_length of
                  None \<Rightarrow> q
                | Some n \<Rightarrow>
                    (let behalten = neueste n (map fst (rows_of k q))
                     in filter (\<lambda>r. \<not> (fst (snd r) = k \<and> fst r \<notin> set behalten)) q))
      in (s\<lparr>st_queue := q', st_seq := Suc (st_seq s)\<rparr>, length (rows_of k q')))"

definition sq_pop :: "store \<Rightarrow> string \<Rightarrow> store \<times> wert option" where
  "sq_pop s k =
     (case rows_of k (st_queue s) of
        [] \<Rightarrow> (s, None)
      | (n, _, w) # _ \<Rightarrow> (s\<lparr>st_queue := filter (\<lambda>r. fst r \<noteq> n) (st_queue s)\<rparr>, Some w))"

section \<open>The lock: _SqliteLock\<close>

record sq_lock =
  lk_name :: string
  lk_ttl :: real
  lk_token :: string

definition lock_prefix :: string where
  "lock_prefix = ''__lock__:''"

definition lk_key :: "sq_lock \<Rightarrow> string" where
  "lk_key l = lock_prefix @ lk_name l"

text \<open>The row a lock writes, with its expiry.\<close>

definition lk_row :: "sq_lock \<Rightarrow> real \<Rightarrow> wert \<times> real option" where
  "lk_row l now = (Text (lk_token l), Some (now + lk_ttl l))"

definition sq_acquire :: "store \<Rightarrow> real \<Rightarrow> sq_lock \<Rightarrow> store \<times> bool" where
  "sq_acquire s now l =
     (case st_rows s (lk_key l) of
        None \<Rightarrow> (s\<lparr>st_rows := (st_rows s)(lk_key l \<mapsto> lk_row l now)\<rparr>, True)
      | Some (w, frist) \<Rightarrow>
          if abgelaufen now frist
          then (s\<lparr>st_rows := (st_rows s)(lk_key l \<mapsto> lk_row l now)\<rparr>, True)
          else (s, False))"

text \<open>\<open>value = token AND expires_at IS NOT NULL AND expires_at > now\<close>.\<close>

definition sq_held :: "store \<Rightarrow> real \<Rightarrow> sq_lock \<Rightarrow> bool" where
  "sq_held s now l =
     (case st_rows s (lk_key l) of
        Some (w, Some t) \<Rightarrow> w = Text (lk_token l) \<and> now < t
      | _ \<Rightarrow> False)"

definition sq_renew :: "store \<Rightarrow> real \<Rightarrow> sq_lock \<Rightarrow> store \<times> bool" where
  "sq_renew s now l =
     (case st_rows s (lk_key l) of
        Some (w, Some t) \<Rightarrow>
          if w = Text (lk_token l) \<and> now < t
          then (s\<lparr>st_rows := (st_rows s)(lk_key l \<mapsto> (w, Some (now + lk_ttl l)))\<rparr>, True)
          else (s, False)
      | _ \<Rightarrow> (s, False))"

text \<open>\<open>DELETE ... WHERE key = ? AND value = ?\<close>, shared by \<open>release\<close> and \<open>brechen\<close>.\<close>

definition loesche_zeile :: "store \<Rightarrow> string \<Rightarrow> string \<Rightarrow> store \<times> bool" where
  "loesche_zeile s k token =
     (case st_rows s k of
        Some (w, _) \<Rightarrow>
          if w = Text token then (s\<lparr>st_rows := (st_rows s)(k := None)\<rparr>, True) else (s, False)
      | None \<Rightarrow> (s, False))"

definition sq_release :: "store \<Rightarrow> sq_lock \<Rightarrow> store \<times> bool" where
  "sq_release s l = loesche_zeile s (lk_key l) (lk_token l)"

definition sq_brechen :: "store \<Rightarrow> sq_lock \<Rightarrow> string \<Rightarrow> store \<times> bool" where
  "sq_brechen s l fremdes_token =
     (if fremdes_token = [] \<or> fremdes_token = lk_token l then (s, False)
      else loesche_zeile s (lk_key l) fremdes_token)"

section \<open>The synchronous access: SqliteSyncAblage\<close>

definition sync_set :: "store \<Rightarrow> real \<Rightarrow> string \<Rightarrow> wert \<Rightarrow> real option \<Rightarrow> store" where
  "sync_set s now k v ex = sq_set s now k v ex"

fun sync_delete :: "store \<Rightarrow> string list \<Rightarrow> store \<times> nat" where
  "sync_delete s [] = (s, 0)"
| "sync_delete s (k # ks) =
     (let (s1, da) = sq_delete s k; (s2, n) = sync_delete s1 ks
      in (s2, (if da then 1 else 0) + n))"

text \<open>Unlike \<open>increment\<close>, the running expiry of a live counter is kept.\<close>

definition sync_incrbyfloat ::
  "store \<Rightarrow> real \<Rightarrow> string \<Rightarrow> real \<Rightarrow> py_error + store \<times> real" where
  "sync_incrbyfloat s now k amount =
     (let stand =
        (case st_rows s k of
           None \<Rightarrow> Inr (0, None)
         | Some (w, frist) \<Rightarrow>
             if abgelaufen now frist then Inr (0, None)
             else (case wert_float w of None \<Rightarrow> Inl ValueError | Some r \<Rightarrow> Inr (r, frist)))
      in case stand of
           Inl e \<Rightarrow> Inl e
         | Inr (r, frist) \<Rightarrow>
             Inr (s\<lparr>st_rows := (st_rows s)(k \<mapsto> (Zahl (r + amount), frist))\<rparr>, r + amount))"

definition sync_expire :: "store \<Rightarrow> real \<Rightarrow> string \<Rightarrow> real \<Rightarrow> store \<times> bool" where
  "sync_expire s now k sekunden =
     (case st_rows s k of
        None \<Rightarrow> (s, False)
      | Some (w, _) \<Rightarrow> (s\<lparr>st_rows := (st_rows s)(k \<mapsto> (w, Some (now + sekunden)))\<rparr>, True))"


section \<open>The port as an object\<close>

text \<open>
  The clients of the port (\<open>Outbox\<close>, \<open>EngineLease\<close>) receive it as an object and call its
  methods. The object is a record of its methods over a state type; \<open>sqlite_port\<close> is the
  desktop's.
\<close>

record 's port =
  po_get :: "'s \<Rightarrow> real \<Rightarrow> string \<Rightarrow> wert option"
  po_set :: "'s \<Rightarrow> real \<Rightarrow> string \<Rightarrow> wert \<Rightarrow> real option \<Rightarrow> 's"
  po_delete :: "'s \<Rightarrow> string \<Rightarrow> 's \<times> bool"
  po_append :: "'s \<Rightarrow> string \<Rightarrow> wert \<Rightarrow> int option \<Rightarrow> 's \<times> nat"
  po_read :: "'s \<Rightarrow> string \<Rightarrow> wert list"
  po_pop :: "'s \<Rightarrow> string \<Rightarrow> 's \<times> wert option"
  po_acquire :: "'s \<Rightarrow> real \<Rightarrow> sq_lock \<Rightarrow> 's \<times> bool"
  po_renew :: "'s \<Rightarrow> real \<Rightarrow> sq_lock \<Rightarrow> 's \<times> bool"
  po_release :: "'s \<Rightarrow> sq_lock \<Rightarrow> 's \<times> bool"
  po_held :: "'s \<Rightarrow> real \<Rightarrow> sq_lock \<Rightarrow> bool"
  po_brechen :: "'s \<Rightarrow> sq_lock \<Rightarrow> string \<Rightarrow> 's \<times> bool"

definition sqlite_port :: "store port" where
  "sqlite_port =
     \<lparr>po_get = sq_get, po_set = sq_set, po_delete = sq_delete,
      po_append = sq_append, po_read = sq_read, po_pop = sq_pop,
      po_acquire = sq_acquire, po_renew = sq_renew, po_release = sq_release,
      po_held = sq_held, po_brechen = sq_brechen\<rparr>"

lemma sqlite_port_sel [simp]:
  "po_get sqlite_port = sq_get" "po_set sqlite_port = sq_set"
  "po_delete sqlite_port = sq_delete" "po_append sqlite_port = sq_append"
  "po_read sqlite_port = sq_read" "po_pop sqlite_port = sq_pop"
  "po_acquire sqlite_port = sq_acquire" "po_renew sqlite_port = sq_renew"
  "po_release sqlite_port = sq_release" "po_held sqlite_port = sq_held"
  "po_brechen sqlite_port = sq_brechen"
  by (simp_all add: sqlite_port_def)

text \<open>Keys of data, as opposed to the rows of locks.\<close>

definition daten_key :: "string \<Rightarrow> bool" where
  "daten_key k = (\<not> startswith k lock_prefix)"

section \<open>The contracts of the port\<close>

locale state_port =
  fixes p :: "'s port" and inv :: "'s \<Rightarrow> bool"
  assumes get_set: "po_get p (po_set p s now k v None) t k' =
      (if k' = k then Some v else po_get p s t k')"
    and get_set_ttl: "po_get p (po_set p s now k v (Some d)) t k' =
      (if k' = k then (if now + d \<le> t then None else Some v) else po_get p s t k')"
    and get_delete: "po_get p (fst (po_delete p s k)) t k' =
      (if k' = k then None else po_get p s t k')"
    and inv_set: "inv s \<Longrightarrow> inv (po_set p s now k v ttl)"
    and inv_delete: "inv s \<Longrightarrow> inv (fst (po_delete p s k))"
begin

text \<open>Overwriting without an expiry removes the old expiry: a fresh halt inherits none.\<close>

lemma set_drops_ttl:
  "po_get p (po_set p (po_set p s now k v (Some d)) now' k w None) t k = Some w"
  by (simp add: get_set)

lemma delete_set: "po_get p (fst (po_delete p (po_set p s now k v ttl) k)) t k = None"
  by (simp add: get_delete)

end

locale state_queue =
  fixes p :: "'s port" and inv :: "'s \<Rightarrow> bool"
  assumes read_append: "inv s \<Longrightarrow> po_read p (fst (po_append p s k v None)) k' =
      (if k' = k then po_read p s k @ [v] else po_read p s k')"
    and read_append_max: "inv s \<Longrightarrow> 0 \<le> n \<Longrightarrow> po_read p (fst (po_append p s k v (Some n))) k' =
      (if k' = k then drop (Suc (length (po_read p s k)) - nat n) (po_read p s k @ [v])
       else po_read p s k')"
    and append_length: "snd (po_append p s k v m) = length (po_read p (fst (po_append p s k v m)) k)"
    and pop_None: "po_read p s k = [] \<Longrightarrow> po_pop p s k = (s, None)"
    and pop_Some: "inv s \<Longrightarrow> po_read p s k = w # ws \<Longrightarrow>
      snd (po_pop p s k) = Some w \<and>
      po_read p (fst (po_pop p s k)) k' = (if k' = k then ws else po_read p s k')"
    and inv_append: "inv s \<Longrightarrow> inv (fst (po_append p s k v m))"
    and inv_pop: "inv s \<Longrightarrow> inv (fst (po_pop p s k))"
begin

text \<open>First in, first out, and the bound holds after every append.\<close>

lemma append_pop:
  "inv s \<Longrightarrow> po_read p s k = [] \<Longrightarrow>
     snd (po_pop p (fst (po_append p s k v None)) k) = Some v"
  using pop_Some [OF inv_append, of s k v None k v "[]"] read_append [of s k v k] by simp

lemma append_bounded:
  "inv s \<Longrightarrow> 0 \<le> n \<Longrightarrow> length (po_read p (fst (po_append p s k v (Some n))) k) \<le> nat n"
  by (simp add: read_append_max)

end

locale state_lock =
  fixes p :: "'s port"
  assumes acquire_held: "0 < lk_ttl l \<Longrightarrow> po_acquire p s now l = (s', True) \<Longrightarrow>
      t < now + lk_ttl l \<Longrightarrow> po_held p s' t l"
    and acquire_blocked: "po_held p s now m \<Longrightarrow> lk_name m = lk_name l \<Longrightarrow>
      po_acquire p s now l = (s, False)"
    and acquire_False: "po_acquire p s now l = (s', False) \<Longrightarrow> s' = s"
    and held_unique: "po_held p s now l \<Longrightarrow> po_held p s now m \<Longrightarrow> lk_name l = lk_name m \<Longrightarrow>
      lk_token l = lk_token m"
    and renew_True: "po_renew p s now l = (s', True) \<Longrightarrow>
      po_held p s now l \<and> (\<forall>t < now + lk_ttl l. po_held p s' t l)"
    and renew_others: "po_held p s t m \<Longrightarrow> lk_name m \<noteq> lk_name l \<Longrightarrow>
      po_held p (fst (po_renew p s now l)) t m"
    and renew_not_held: "\<not> po_held p s now l \<Longrightarrow> po_renew p s now l = (s, False)"
    and release_frees: "\<not> po_held p (fst (po_release p s l)) t l"
    and release_others: "po_held p s t m \<Longrightarrow> lk_name m \<noteq> lk_name l \<or> lk_token m \<noteq> lk_token l \<Longrightarrow>
      po_held p (fst (po_release p s l)) t m"
    and brechen_others: "po_held p s t m \<Longrightarrow> lk_name m \<noteq> lk_name l \<or> lk_token m \<noteq> tok \<Longrightarrow>
      po_held p (fst (po_brechen p s l tok)) t m"
    and acquire_others: "po_held p s now m \<Longrightarrow> now \<le> t \<Longrightarrow> po_held p s t m \<Longrightarrow>
      po_held p (fst (po_acquire p s now l)) t m"
    and held_until: "po_held p s t m \<Longrightarrow> t' \<le> t \<Longrightarrow> po_held p s t' m"
begin

text \<open>At most one owner per lock at any time, whatever was done to the store before.\<close>

lemma mutual_exclusion:
  "po_held p s now l \<Longrightarrow> lk_name l = lk_name m \<Longrightarrow> lk_token l \<noteq> lk_token m \<Longrightarrow> \<not> po_held p s now m"
  using held_unique by metis

lemma acquire_excludes:
  "po_acquire p s now l = (s', True) \<Longrightarrow> lk_name m = lk_name l \<Longrightarrow> \<not> po_held p s now m"
  using acquire_blocked by fastforce

end

text \<open>All of it, and that data, queues and locks do not interfere.\<close>

locale engine_state = state_port p inv + state_queue p inv + state_lock p
  for p :: "'s port" and inv :: "'s \<Rightarrow> bool" +
  assumes get_append: "po_get p (fst (po_append p s k v m)) t k' = po_get p s t k'"
    and get_pop: "po_get p (fst (po_pop p s k)) t k' = po_get p s t k'"
    and read_set: "po_read p (po_set p s now k v ttl) k' = po_read p s k'"
    and read_delete: "po_read p (fst (po_delete p s k)) k' = po_read p s k'"
    and get_acquire: "daten_key k \<Longrightarrow> po_get p (fst (po_acquire p s now l)) t k = po_get p s t k"
    and get_release: "daten_key k \<Longrightarrow> po_get p (fst (po_release p s l)) t k = po_get p s t k"
    and read_acquire: "po_read p (fst (po_acquire p s now l)) k = po_read p s k"
    and read_release: "po_read p (fst (po_release p s l)) k = po_read p s k"
    and held_set: "daten_key k \<Longrightarrow> po_held p (po_set p s now k v ttl) t l = po_held p s t l"
    and inv_acquire: "inv s \<Longrightarrow> inv (fst (po_acquire p s now l))"
    and inv_release: "inv s \<Longrightarrow> inv (fst (po_release p s l))"
begin

lemmas frames = get_append get_pop read_set read_delete get_acquire get_release
  read_acquire read_release

lemmas invs = inv_set inv_delete inv_append inv_pop inv_acquire inv_release

end


section \<open>The SQLite model fulfils the contracts\<close>

text \<open>The queue numbers grow along the table and stay below the next AUTOINCREMENT number.\<close>

definition store_inv :: "store \<Rightarrow> bool" where
  "store_inv s \<longleftrightarrow>
     sorted_wrt (<) (map fst (st_queue s)) \<and> (\<forall>r \<in> set (st_queue s). fst r < st_seq s)"

lemma store_inv_empty: "store_inv empty_store"
  by (simp add: store_inv_def empty_store_def)

lemma store_inv_rows [simp]: "store_inv (s\<lparr>st_rows := r\<rparr>) = store_inv s"
  by (simp add: store_inv_def)

lemma abgelaufen_simps [simp, store_simps]:
  "abgelaufen now None = False" "abgelaufen now (Some t) = (t \<le> now)"
  by (simp_all add: abgelaufen_def)

lemma rows_of_Nil [simp]: "rows_of k [] = []"
  by (simp add: rows_of_def)

lemma rows_of_append [simp]: "rows_of k (q @ q') = rows_of k q @ rows_of k q'"
  by (simp add: rows_of_def)

lemma rows_of_single [simp]: "rows_of k [(n, k', v)] = (if k' = k then [(n, k', v)] else [])"
  by (simp add: rows_of_def)

lemma rows_of_filter: "rows_of k (filter P q) = filter P (rows_of k q)"
  by (simp add: rows_of_def conj_commute)

lemma sorted_wrt_filter_map: "sorted_wrt (<) (map fst q) \<Longrightarrow> sorted_wrt (<) (map fst (filter P q))"
  by (induction q) auto

lemma sorted_seq_distinct: "sorted_wrt (<) (xs :: nat list) \<Longrightarrow> distinct xs"
  by (induction xs) auto

lemma store_inv_distinct: "store_inv s \<Longrightarrow> distinct (map fst (rows_of k (st_queue s)))"
  unfolding store_inv_def rows_of_def by (blast intro: sorted_seq_distinct sorted_wrt_filter_map)

text \<open>Keeping the \<open>n\<close> newest of distinct numbers is dropping the oldest from the front.\<close>

lemma filter_neueste:
  assumes "distinct (map f xs)" "0 \<le> n"
  shows "filter (\<lambda>x. f x \<in> set (neueste n (map f xs))) xs = drop (length xs - nat n) xs"
proof -
  let ?m = "length xs - nat n"
  have "set (neueste n (map f xs)) = f ` set (drop ?m xs)"
    using assms(2) by (simp add: neueste_def take_rev drop_map)
  moreover have "filter (\<lambda>x. f x \<in> f ` set (drop ?m xs)) (take ?m xs @ drop ?m xs) = drop ?m xs"
  proof -
    have "distinct (map f (take ?m xs @ drop ?m xs))" using assms(1) by simp
    then have "\<forall>x \<in> set (take ?m xs). f x \<notin> f ` set (drop ?m xs)"
      by (auto simp del: append_take_drop_id)
    then show ?thesis by (simp del: append_take_drop_id)
  qed
  ultimately show ?thesis by simp
qed

lemma sq_read_append:
  "sq_read (fst (sq_append s k v None)) k' =
     (if k' = k then sq_read s k @ [v] else sq_read s k')"
  by (simp add: sq_read_def sq_append_def)

text \<open>The rows of the key after the \<open>DELETE\<close> of a bounded append, for any queue.\<close>

lemma rows_of_bounded:
  assumes "distinct (map fst (rows_of k q))" "0 \<le> n"
  shows "rows_of k (filter (\<lambda>r. \<not> (fst (snd r) = k \<and>
           fst r \<notin> set (neueste n (map fst (rows_of k q))))) q)
       = drop (length (rows_of k q) - nat n) (rows_of k q)"
proof -
  have "rows_of k (filter (\<lambda>r. \<not> (fst (snd r) = k \<and> fst r \<notin> B)) q)
      = filter (\<lambda>r. fst r \<in> B) (rows_of k q)" for B
    by (induction q) (auto simp: rows_of_def)
  then show ?thesis using filter_neueste [OF assms] by simp
qed

lemma rows_of_bounded_other:
  "k' \<noteq> k \<Longrightarrow> rows_of k' (filter (\<lambda>r. fst (snd r) = k \<longrightarrow> P r) q) = rows_of k' q"
  by (induction q) (auto simp: rows_of_def)

lemma sq_read_append_max:
  assumes "store_inv s" "0 \<le> n"
  shows "sq_read (fst (sq_append s k v (Some n))) k' =
     (if k' = k then drop (Suc (length (sq_read s k)) - nat n) (sq_read s k @ [v])
      else sq_read s k')"
proof -
  define q where "q = st_queue s @ [(st_seq s, k, v)]"
  have dist: "distinct (map fst (rows_of k q))"
    using store_inv_distinct [OF assms(1), of k] assms(1)
    by (auto simp: store_inv_def rows_of_def q_def)
  have q: "st_queue (fst (sq_append s k v (Some n))) =
      filter (\<lambda>r. \<not> (fst (snd r) = k \<and> fst r \<notin> set (neueste n (map fst (rows_of k q))))) q"
    by (simp add: sq_append_def Let_def q_def)
  have "map (\<lambda>r. snd (snd r)) (rows_of k q) = sq_read s k @ [v]"
    and "k' \<noteq> k \<Longrightarrow> rows_of k' q = rows_of k' (st_queue s)"
    and "length (rows_of k q) = Suc (length (sq_read s k))"
    by (simp_all add: q_def sq_read_def)
  with rows_of_bounded [OF dist assms(2)] show ?thesis
    unfolding sq_read_def q by (simp add: rows_of_bounded_other drop_map [symmetric])
qed

lemma sq_pop_None: "sq_read s k = [] \<Longrightarrow> sq_pop s k = (s, None)"
  by (simp add: sq_read_def sq_pop_def)

lemma sq_pop_Some:
  assumes "store_inv s" "sq_read s k = w # ws"
  shows "snd (sq_pop s k) = Some w \<and>
    sq_read (fst (sq_pop s k)) k' = (if k' = k then ws else sq_read s k')"
proof -
  from assms(2) obtain n rs where rows: "rows_of k (st_queue s) = (n, k, w) # rs"
      and ws: "ws = map (\<lambda>r. snd (snd r)) rs"
    by (fastforce simp: sq_read_def rows_of_def filter_eq_Cons_iff)
  have dist: "distinct (map fst (st_queue s))"
    using assms(1) by (simp add: store_inv_def sorted_seq_distinct)
  have in_q: "(n, k, w) \<in> set (st_queue s)"
    using rows by (metis filter_is_subset list.set_intros(1) rows_of_def subsetD)
  have rest: "filter (\<lambda>r. fst r \<noteq> n) rs = rs"
    using store_inv_distinct [OF assms(1), of k] rows by (force simp: filter_id_conv)
  have other: "filter (\<lambda>r. fst r \<noteq> n) (rows_of k' (st_queue s)) = rows_of k' (st_queue s)"
    if "k' \<noteq> k"
  proof -
    have "fst r \<noteq> n" if "r \<in> set (rows_of k' (st_queue s))" for r
    proof
      assume "fst r = n"
      moreover have "r \<in> set (st_queue s)" using that by (auto simp: rows_of_def)
      ultimately have "r = (n, k, w)"
        using in_q dist eq_key_imp_eq_value [of "st_queue s" n "(k, w)" "snd r"] by (cases r) auto
      with that \<open>k' \<noteq> k\<close> show False by (auto simp: rows_of_def)
    qed
    then show ?thesis by (simp add: filter_id_conv)
  qed
  show ?thesis
    using rows ws rest other by (auto simp: sq_pop_def sq_read_def rows_of_filter)
qed

lemma sq_pop_rows: "st_rows (fst (sq_pop s k)) = st_rows s"
  by (auto simp: sq_pop_def split: list.splits)

lemma store_inv_append: "store_inv s \<Longrightarrow> store_inv (fst (sq_append s k v m))"
  by (auto simp: store_inv_def sq_append_def Let_def sorted_wrt_append less_SucI
      sorted_wrt_filter_map split: option.split)

lemma store_inv_pop: "store_inv s \<Longrightarrow> store_inv (fst (sq_pop s k))"
  by (auto simp: store_inv_def sq_pop_def sorted_wrt_filter_map split: list.split)


lemma lk_key_eq [simp]: "lk_key l = lk_key m \<longleftrightarrow> lk_name l = lk_name m"
  by (simp add: lk_key_def)

lemma lk_key_no_data [simp]: "daten_key k \<Longrightarrow> lk_key l \<noteq> k" "daten_key k \<Longrightarrow> k \<noteq> lk_key l"
  by (auto simp: daten_key_def lk_key_def)

lemma daten_key_prefix [simp]:
  "daten_key k \<Longrightarrow> lock_prefix @ x \<noteq> k" "daten_key k \<Longrightarrow> k \<noteq> lock_prefix @ x"
  by (auto simp: daten_key_def)

lemmas lock_defs = sq_acquire_def sq_held_def sq_renew_def sq_release_def sq_brechen_def
  loesche_zeile_def lk_row_def

interpretation sqlite: engine_state sqlite_port store_inv
proof unfold_locales
  fix s :: store and now t :: real and k k' :: string and v :: wert and d :: real
  show "po_get sqlite_port (po_set sqlite_port s now k v None) t k' =
      (if k' = k then Some v else po_get sqlite_port s t k')"
    by (simp add: sq_get_def sq_set_def)
  show "po_get sqlite_port (po_set sqlite_port s now k v (Some d)) t k' =
      (if k' = k then (if now + d \<le> t then None else Some v) else po_get sqlite_port s t k')"
    by (simp add: sq_get_def sq_set_def)
  show "po_get sqlite_port (fst (po_delete sqlite_port s k)) t k' =
      (if k' = k then None else po_get sqlite_port s t k')"
    by (simp add: sq_get_def sq_delete_def)
next
  fix s and now and k and v and ttl
  assume "store_inv s"
  then show "store_inv (po_set sqlite_port s now k v ttl)"
    by (simp add: sq_set_def)
next
  fix s and k
  assume "store_inv s"
  then show "store_inv (fst (po_delete sqlite_port s k))"
    by (simp add: sq_delete_def)
next
  fix s :: store and k k' v
  assume "store_inv s"
  show "po_read sqlite_port (fst (po_append sqlite_port s k v None)) k' =
      (if k' = k then po_read sqlite_port s k @ [v] else po_read sqlite_port s k')"
    by (simp add: sq_read_append)
next
  fix s :: store and n k k' v
  assume "store_inv s" "0 \<le> (n :: int)"
  then show "po_read sqlite_port (fst (po_append sqlite_port s k v (Some n))) k' =
      (if k' = k then drop (Suc (length (po_read sqlite_port s k)) - nat n)
         (po_read sqlite_port s k @ [v])
       else po_read sqlite_port s k')"
    by (simp add: sq_read_append_max)
next
  fix s :: store and k v m
  show "snd (po_append sqlite_port s k v m) =
      length (po_read sqlite_port (fst (po_append sqlite_port s k v m)) k)"
    by (simp add: sq_append_def sq_read_def Let_def)
next
  fix s :: store and k
  assume "po_read sqlite_port s k = []"
  then show "po_pop sqlite_port s k = (s, None)"
    by (simp add: sq_pop_None)
next
  fix s :: store and k k' w ws
  assume "store_inv s" "po_read sqlite_port s k = w # ws"
  then show "snd (po_pop sqlite_port s k) = Some w \<and>
      po_read sqlite_port (fst (po_pop sqlite_port s k)) k' =
        (if k' = k then ws else po_read sqlite_port s k')"
    using sq_pop_Some by simp
next
  fix s :: store and k k' v m and t :: real
  show "po_get sqlite_port (fst (po_append sqlite_port s k v m)) t k' = po_get sqlite_port s t k'"
    by (simp add: sq_get_def sq_append_def Let_def)
  show "po_get sqlite_port (fst (po_pop sqlite_port s k)) t k' = po_get sqlite_port s t k'"
    by (simp add: sq_get_def sq_pop_rows)
qed (auto simp: lock_defs lk_key_def sq_get_def sq_set_def sq_delete_def sq_read_def store_inv_append
    store_inv_pop split: option.splits if_splits)

end
