(* ===== verification/Engine_Lease.thy ===== *)
theory Engine_Lease
  imports State_Store
begin

text \<open>
  The write permission of an engine instance for an account (\<open>core/lease.py\<close>): the class
  \<open>EngineLease\<close> over the lock of the \<open>StatePort\<close>, and the registry of the process with the
  check before every order.

  The operations are parametric in the port (\<open>State_Store.port\<close>). Their environment is a
  record: the clock, this host and process, whether a process is alive (\<open>psutil\<close>, a third-party
  package, so a field that holds its answer, \<open>None\<close> when the call raised), and whether the store
  can be reached: when it cannot, the first access raises. An operation is taken at one instant.
\<close>

section \<open>EngineLease\<close>

record umgebung =
  um_now :: real
  um_host :: string
  um_pid :: int
  um_pid_exists :: "int \<Rightarrow> bool option"
  um_erreichbar :: bool

record lease =
  le_konto :: string
  le_instanz :: string
  le_frist :: real
  le_token :: string

definition frist_sekunden :: real where
  "frist_sekunden = 60"

text \<open>The account key carries the user and the trading mode.\<close>

definition konto_schluessel :: "string option \<Rightarrow> bool \<Rightarrow> string" where
  "konto_schluessel user_id paper =
     (case user_id of None \<Rightarrow> ''global'' | Some u \<Rightarrow> if u = [] then ''global'' else u)
     @ '':'' @ (if paper then ''paper'' else ''live'')"

definition le_sperre :: "lease \<Rightarrow> sq_lock" where
  "le_sperre l = \<lparr>lk_name = ''engine_lease:'' @ le_konto l, lk_ttl = le_frist l, lk_token = le_token l\<rparr>"

definition halter_schluessel :: "lease \<Rightarrow> string" where
  "halter_schluessel l = ''engine_lease_halter:'' @ le_konto l"

definition halter_vermerk :: "umgebung \<Rightarrow> lease \<Rightarrow> wert" where
  "halter_vermerk u l = Json (JObj
     [(''host'', JStr (um_host u)), (''pid'', JNum (real_of_int (um_pid u))),
      (''token'', JStr (le_token l)), (''instanz'', JStr (le_instanz l))])"

text \<open>Every exception of the write is caught: without a note a successor waits for the expiry.\<close>

definition halter_vermerken :: "'s port \<Rightarrow> umgebung \<Rightarrow> lease \<Rightarrow> 's \<Rightarrow> 's" where
  "halter_vermerken p u l s =
     (if um_erreichbar u
      then po_set p s (um_now u) (halter_schluessel l) (halter_vermerk u l) (Some (le_frist l))
      else s)"

text \<open>In doubt a process counts as alive.\<close>

definition prozess_lebt :: "umgebung \<Rightarrow> int \<Rightarrow> bool" where
  "prozess_lebt u pid = (case um_pid_exists u pid of None \<Rightarrow> True | Some b \<Rightarrow> b)"

text \<open>
  \<open>int(halter.get("pid") or 0)\<close>: a falsy value is 0, a number is truncated towards 0, and every
  other value is read as the \<open>ValueError\<close> or \<open>TypeError\<close> that the code catches (a numeral in
  quotes, which Python would accept, is never written).
\<close>

definition halter_pid :: "jval \<Rightarrow> int option" where
  "halter_pid v =
     (if \<not> jtruthy v then Some 0
      else case v of
             JNum r \<Rightarrow> Some (if r < 0 then \<lceil>r\<rceil> else \<lfloor>r\<rfloor>)
           | JBool b \<Rightarrow> Some (if b then 1 else 0)
           | _ \<Rightarrow> None)"

text \<open>\<open>str(halter.get("token") or "")\<close>; a token is a hex text, so no other JSON value prints as one.\<close>

definition halter_token :: "jval \<Rightarrow> string" where
  "halter_token v = (case v of JStr t \<Rightarrow> t | _ \<Rightarrow> [])"

definition uebernehmen_wenn_tot ::
  "'s port \<Rightarrow> umgebung \<Rightarrow> lease \<Rightarrow> 's \<Rightarrow> py_error + 's \<times> bool" where
  "uebernehmen_wenn_tot p u l s =
     (case po_get p s (um_now u) (halter_schluessel l) of
        None \<Rightarrow> Inr (s, False)
      | Some roh \<Rightarrow>
          if \<not> wert_truthy roh then Inr (s, False)
          else case json_loads roh of
                 None \<Rightarrow> Inr (s, False)
               | Some (JObj halter) \<Rightarrow>
                   (case halter_pid (jget halter ''pid'') of
                      None \<Rightarrow> Inr (s, False)
                    | Some pid \<Rightarrow>
                        if jget halter ''host'' \<noteq> JStr (um_host u) then Inr (s, False)
                        else if pid \<le> 0 \<or> pid = um_pid u \<or> prozess_lebt u pid then Inr (s, False)
                        else Inr (po_brechen p s (le_sperre l) (halter_token (jget halter ''token''))))
               | Some _ \<Rightarrow> Inl AttributeError)"

definition erwerben :: "'s port \<Rightarrow> umgebung \<Rightarrow> lease \<Rightarrow> 's \<Rightarrow> py_error + 's \<times> bool" where
  "erwerben p u l s =
     (if \<not> um_erreichbar u then Inl OSError
      else let (s1, erhalten) = po_acquire p s (um_now u) (le_sperre l)
           in if erhalten then Inr (halter_vermerken p u l s1, True)
              else case uebernehmen_wenn_tot p u l s1 of
                     Inl e \<Rightarrow> Inl e
                   | Inr (s2, False) \<Rightarrow> Inr (s2, False)
                   | Inr (s2, True) \<Rightarrow>
                       (let (s3, erhalten2) = po_acquire p s2 (um_now u) (le_sperre l)
                        in if erhalten2 then Inr (halter_vermerken p u l s3, True)
                           else Inr (s3, False)))"

text \<open>Renewal only when the caller reports progress (\<open>None\<close>: no progress callback).\<close>

definition erneuern ::
  "'s port \<Rightarrow> umgebung \<Rightarrow> bool option \<Rightarrow> lease \<Rightarrow> 's \<Rightarrow> py_error + 's \<times> bool" where
  "erneuern p u fortschritt l s =
     (if fortschritt = Some False then Inr (s, False)
      else if \<not> um_erreichbar u then Inl OSError
      else let (s1, erneuert) = po_renew p s (um_now u) (le_sperre l)
           in if erneuert then Inr (halter_vermerken p u l s1, True) else Inr (s1, False))"

definition freigeben :: "'s port \<Rightarrow> umgebung \<Rightarrow> lease \<Rightarrow> 's \<Rightarrow> py_error + 's \<times> bool" where
  "freigeben p u l s =
     (if \<not> um_erreichbar u then Inl OSError else Inr (po_release p s (le_sperre l)))"

definition haelt_noch :: "'s port \<Rightarrow> umgebung \<Rightarrow> lease \<Rightarrow> 's \<Rightarrow> py_error + bool" where
  "haelt_noch p u l s =
     (if \<not> um_erreichbar u then Inl OSError else Inr (po_held p s (um_now u) (le_sperre l)))"

section \<open>The registry of the process\<close>

text \<open>
  An entry holds its lease and the event loop (\<open>ring\<close>) it was acquired on. \<open>ri_hier\<close> is the
  running loop of the caller (\<open>None\<close>: none runs), \<open>ri_laeuft\<close> says which loops still run.
\<close>

record ringe =
  ri_hier :: "nat option"
  ri_laeuft :: "nat \<Rightarrow> bool"

record eintrag =
  ei_lease :: lease
  ei_ring :: nat

record prozess =
  pr_registratur :: "(string, eintrag) pydict"

definition rufe_moeglich :: "ringe \<Rightarrow> eintrag \<Rightarrow> bool" where
  "rufe_moeglich r e = (ri_hier r = Some (ei_ring e) \<or> ri_laeuft r (ei_ring e))"

text \<open>\<open>_Eintrag.rufe\<close>: on its own loop, or on that loop from another one, or not at all.\<close>

definition rufe :: "ringe \<Rightarrow> eintrag \<Rightarrow> (lease \<Rightarrow> py_error + 'a) \<Rightarrow> py_error + 'a" where
  "rufe r e op =
     (if rufe_moeglich r e then op (ei_lease e) else Inl KeineSchreibberechtigung)"

text \<open>
  \<open>_erwirb_auf_diesem_ring\<close>: \<open>neu\<close> is the lease built for this call, with its fresh token;
  \<open>get_running_loop\<close> raises when no loop runs (a \<open>RuntimeError\<close>, read as \<open>OSError\<close>). The
  process is returned beside the result: what was forgotten before an exception stays forgotten.
\<close>

definition erwirb_auf_diesem_ring ::
  "'s port \<Rightarrow> umgebung \<Rightarrow> ringe \<Rightarrow> lease \<Rightarrow> prozess \<Rightarrow> 's \<Rightarrow> prozess \<times> (py_error + 's \<times> bool)" where
  "erwirb_auf_diesem_ring p u r neu pr s =
     (case ri_hier r of
        None \<Rightarrow> (pr, Inl OSError)
      | Some ring \<Rightarrow>
          (case erwerben p u neu s of
             Inr (s', True) \<Rightarrow>
               (pr\<lparr>pr_registratur := dict_set (le_konto neu) \<lparr>ei_lease = neu, ei_ring = ring\<rparr>
                    (pr_registratur pr)\<rparr>, Inr (s', True))
           | res \<Rightarrow> (pr, res)))"

definition vergiss :: "string \<Rightarrow> prozess \<Rightarrow> prozess" where
  "vergiss konto pr = pr\<lparr>pr_registratur := dict_del konto (pr_registratur pr)\<rparr>"

definition sichere_berechtigung ::
  "'s port \<Rightarrow> umgebung \<Rightarrow> ringe \<Rightarrow> lease \<Rightarrow> prozess \<Rightarrow> 's \<Rightarrow> prozess \<times> (py_error + 's \<times> bool)" where
  "sichere_berechtigung p u r neu pr s =
     (case map_of (pr_registratur pr) (le_konto neu) of
        None \<Rightarrow> erwirb_auf_diesem_ring p u r neu pr s
      | Some e \<Rightarrow>
          (case rufe r e (\<lambda>l. haelt_noch p u l s) of
             Inr True \<Rightarrow> (pr, Inr (s, True))
           | Inr False \<Rightarrow> erwirb_auf_diesem_ring p u r neu (vergiss (le_konto neu) pr) s
           | Inl KeineSchreibberechtigung \<Rightarrow>
               erwirb_auf_diesem_ring p u r neu (vergiss (le_konto neu) pr) s
           | Inl err \<Rightarrow> (pr, Inl err)))"

text \<open>
  \<open>aktiv\<close>: an unreadable configuration counts as switched on; without a shared store there is no
  second instance. The texts of the two variables are stripped by the caller.
\<close>

definition aktiv :: "bool option \<Rightarrow> string \<Rightarrow> string \<Rightarrow> bool" where
  "aktiv lease_enabled user_data_dir redis_url =
     (lease_enabled \<noteq> Some False \<and> (user_data_dir \<noteq> [] \<or> redis_url \<noteq> []))"

text \<open>The check before every order: an error means the permission is not proved.\<close>

definition darf_schreiben ::
  "'s port \<Rightarrow> umgebung \<Rightarrow> ringe \<Rightarrow> bool \<Rightarrow> lease \<Rightarrow> prozess \<Rightarrow> 's \<Rightarrow> prozess \<times> 's \<times> bool" where
  "darf_schreiben p u r ist_aktiv neu pr s =
     (if \<not> ist_aktiv then (pr, s, True)
      else case sichere_berechtigung p u r neu pr s of
             (pr', Inl _) \<Rightarrow> (pr', s, False)
           | (pr', Inr (s', b)) \<Rightarrow> (pr', s', b))"

text \<open>
  The renewal loop of one event loop. Only entries of this loop; without progress none; an entry
  that lost its permission is forgotten; an error leaves the entry and goes on with the next.
\<close>

fun erneuere_liste ::
  "'s port \<Rightarrow> umgebung \<Rightarrow> ringe \<Rightarrow> (string \<times> eintrag) list \<Rightarrow> prozess \<Rightarrow> 's \<Rightarrow> prozess \<times> 's \<times> nat" where
  "erneuere_liste p u r [] pr s = (pr, s, 0)"
| "erneuere_liste p u r ((k, e) # es) pr s =
     (case rufe r e (\<lambda>l. erneuern p u None l s) of
        Inl _ \<Rightarrow> erneuere_liste p u r es pr s
      | Inr (s', True) \<Rightarrow> (let (pr2, s2, n) = erneuere_liste p u r es pr s' in (pr2, s2, Suc n))
      | Inr (s', False) \<Rightarrow> erneuere_liste p u r es (vergiss k pr) s')"

definition erneuere_auf_diesem_ring ::
  "'s port \<Rightarrow> umgebung \<Rightarrow> ringe \<Rightarrow> bool \<Rightarrow> prozess \<Rightarrow> 's \<Rightarrow> prozess \<times> 's \<times> nat" where
  "erneuere_auf_diesem_ring p u r fortschritt pr s =
     (let eigene = filter (\<lambda>(k, e). Some (ei_ring e) = ri_hier r) (pr_registratur pr)
      in if eigene = [] then (pr, s, 0)
         else if \<not> fortschritt then (pr, s, 0)
         else erneuere_liste p u r eigene pr s)"

fun beende_liste ::
  "'s port \<Rightarrow> umgebung \<Rightarrow> ringe \<Rightarrow> (string \<times> eintrag) list \<Rightarrow> prozess \<Rightarrow> 's \<Rightarrow> prozess \<times> 's" where
  "beende_liste p u r [] pr s = (pr, s)"
| "beende_liste p u r ((k, e) # es) pr s =
     (if Some (ei_ring e) \<noteq> ri_hier r then beende_liste p u r es pr s
      else case rufe r e (\<lambda>l. freigeben p u l s) of
             Inl _ \<Rightarrow> beende_liste p u r es (vergiss k pr) s
           | Inr (s', _) \<Rightarrow> beende_liste p u r es (vergiss k pr) s')"

definition beende_auf_diesem_ring ::
  "'s port \<Rightarrow> umgebung \<Rightarrow> ringe \<Rightarrow> prozess \<Rightarrow> 's \<Rightarrow> prozess \<times> 's" where
  "beende_auf_diesem_ring p u r pr s = beende_liste p u r (pr_registratur pr) pr s"


section \<open>What a lease promises\<close>

text \<open>
  Proved for every port that fulfils \<open>state_lock\<close> and \<open>engine_state\<close>: holding is exclusive,
  acquiring gives the lease, and the only ways another instance gets it are expiry, release, and
  the proved death of the holder on the same host.
\<close>

lemma le_sperre_sel [simp]:
  "lk_ttl (le_sperre l) = le_frist l" "lk_token (le_sperre l) = le_token l"
  "lk_name (le_sperre l) = ''engine_lease:'' @ le_konto l"
  by (simp_all add: le_sperre_def)

lemma halter_schluessel_daten [simp]: "daten_key (halter_schluessel l)"
  by (simp add: daten_key_def halter_schluessel_def lock_prefix_def startswith_def)

text \<open>The three ways \<open>erwerben\<close> returns: at once, refused, or after the takeover.\<close>

lemma erwerbenE:
  assumes "erwerben p u l s = Inr (s', b)"
  obtains (sofort) s1 where "po_acquire p s (um_now u) (le_sperre l) = (s1, True)"
      "s' = halter_vermerken p u l s1" "b"
  | (verweigert) s1 where "po_acquire p s (um_now u) (le_sperre l) = (s1, False)"
      "uebernehmen_wenn_tot p u l s1 = Inr (s', False)" "\<not> b"
  | (uebernommen) s1 s2 s3 where "po_acquire p s (um_now u) (le_sperre l) = (s1, False)"
      "uebernehmen_wenn_tot p u l s1 = Inr (s2, True)"
      "po_acquire p s2 (um_now u) (le_sperre l) = (s3, b)"
      "s' = (if b then halter_vermerken p u l s3 else s3)"
  using assms that
  by (auto simp: erwerben_def Let_def split: if_splits sum.splits prod.splits bool.splits)

context engine_state
begin

lemma halter_vermerken_held [simp]:
  "po_held p (halter_vermerken p u l s) t m = po_held p s t m"
  by (simp add: halter_vermerken_def held_set)

lemma uebernehmen_only_dead:
  assumes "uebernehmen_wenn_tot p u l s = Inr (s', b)" "s' \<noteq> s \<or> b"
  shows "\<exists>halter pid. po_get p s (um_now u) (halter_schluessel l) = Some (Json (JObj halter)) \<and>
    jget halter ''host'' = JStr (um_host u) \<and> halter_pid (jget halter ''pid'') = Some pid \<and>
    0 < pid \<and> pid \<noteq> um_pid u \<and> um_pid_exists u pid = Some False \<and>
    (s', b) = po_brechen p s (le_sperre l) (halter_token (jget halter ''token''))"
proof -
  from assms obtain roh where roh: "po_get p s (um_now u) (halter_schluessel l) = Some roh"
    by (auto simp: uebernehmen_wenn_tot_def split: option.splits)
  with assms obtain halter where halter: "json_loads roh = Some (JObj halter)"
    by (auto simp: uebernehmen_wenn_tot_def split: option.splits if_splits jval.splits)
  then have "roh = Json (JObj halter)" by (cases roh) auto
  with roh halter assms show ?thesis
    by (auto simp: uebernehmen_wenn_tot_def prozess_lebt_def
        split: option.splits if_splits)
qed

lemma acquire_lease_held:
  "po_acquire p s now (le_sperre l) = (s', True) \<Longrightarrow> 0 < le_frist l \<Longrightarrow> t < now + le_frist l \<Longrightarrow>
     po_held p s' t (le_sperre l)"
  using acquire_held [of "le_sperre l"] by simp

lemma erwerben_holds:
  assumes "erwerben p u l s = Inr (s', True)" "0 < le_frist l" "t < um_now u + le_frist l"
  shows "po_held p s' t (le_sperre l)"
  using assms
  by (auto simp: erwerben_def Let_def split: if_splits sum.splits prod.splits bool.splits
      dest: acquire_lease_held)

text \<open>While another instance holds, acquiring succeeds only over its dead body.\<close>

lemma erwerben_needs_death:
  assumes held: "po_held p s (um_now u) (le_sperre m)" and konto: "le_konto m = le_konto l"
    and erw: "erwerben p u l s = Inr (s', True)"
  shows "\<exists>halter pid. po_get p s (um_now u) (halter_schluessel l) = Some (Json (JObj halter)) \<and>
    jget halter ''host'' = JStr (um_host u) \<and> halter_pid (jget halter ''pid'') = Some pid \<and>
    um_pid_exists u pid = Some False"
proof -
  have "po_acquire p s (um_now u) (le_sperre l) = (s, False)"
    using held konto by (intro acquire_blocked) auto
  with erw obtain s2 where "uebernehmen_wenn_tot p u l s = Inr (s2, True)"
    by (auto simp: erwerben_def split: if_splits sum.splits bool.splits)
  from uebernehmen_only_dead [OF this] show ?thesis by blast
qed

lemma erneuern_extends:
  assumes "erneuern p u f l s = Inr (s', True)"
  shows "f \<noteq> Some False" "po_held p s (um_now u) (le_sperre l)"
    "t < um_now u + le_frist l \<Longrightarrow> po_held p s' t (le_sperre l)"
  using assms renew_True [of s "um_now u" "le_sperre l"]
  by (auto simp: erneuern_def split: if_splits prod.splits bool.splits)

text \<open>Renewing never revives a lease that is gone.\<close>

lemma erneuern_not_held:
  "\<not> po_held p s (um_now u) (le_sperre l) \<Longrightarrow> um_erreichbar u \<Longrightarrow> erneuern p u f l s = Inr (s, False)"
  by (simp add: erneuern_def renew_not_held)

lemma freigeben_others:
  assumes "freigeben p u l s = Inr (s', b)" "po_held p s t (le_sperre m)"
    "le_konto m \<noteq> le_konto l \<or> le_token m \<noteq> le_token l"
  shows "po_held p s' t (le_sperre m)"
proof -
  have "po_held p (fst (po_release p s (le_sperre l))) t (le_sperre m)"
    using assms(2,3) release_others [of s t "le_sperre m" "le_sperre l"] by auto
  moreover have "s' = fst (po_release p s (le_sperre l))"
    using assms(1) by (auto simp: freigeben_def split: if_splits)
  ultimately show ?thesis by simp
qed

end


section \<open>A fleet of instances on one store\<close>

text \<open>
  Instances on several hosts share one store; processes die; the clock moves forward. A step is
  labelled with what happened. \<open>um_pid_exists\<close> tells the truth about the instance's own host, and
  the store is reachable.
\<close>

record instanz =
  in_lease :: lease
  in_host :: string
  in_pid :: int

record flotte =
  fl_store :: store
  fl_now :: real
  fl_tot :: "(string \<times> int) set"

definition in_umgebung :: "flotte \<Rightarrow> instanz \<Rightarrow> umgebung" where
  "in_umgebung fl i =
     \<lparr>um_now = fl_now fl, um_host = in_host i, um_pid = in_pid i,
      um_pid_exists = (\<lambda>pid. Some ((in_host i, pid) \<notin> fl_tot fl)), um_erreichbar = True\<rparr>"

definition in_lebt :: "flotte \<Rightarrow> instanz \<Rightarrow> bool" where
  "in_lebt fl i = ((in_host i, in_pid i) \<notin> fl_tot fl)"

text \<open>Holding the lease at a time, in the store of the fleet.\<close>

definition in_haelt :: "flotte \<Rightarrow> real \<Rightarrow> instanz \<Rightarrow> bool" where
  "in_haelt fl t i = sq_held (fl_store fl) t (le_sperre (in_lease i))"

datatype ereignis = Zeit | Stirbt instanz | Erwirbt instanz | Erneuert instanz | GibtFrei instanz

inductive fl_schritt :: "instanz set \<Rightarrow> ereignis \<Rightarrow> flotte \<Rightarrow> flotte \<Rightarrow> bool"
  for I :: "instanz set" where
  zeit: "fl_now fl \<le> t \<Longrightarrow> fl_schritt I Zeit fl (fl\<lparr>fl_now := t\<rparr>)"
| stirbt: "i \<in> I \<Longrightarrow>
     fl_schritt I (Stirbt i) fl (fl\<lparr>fl_tot := insert (in_host i, in_pid i) (fl_tot fl)\<rparr>)"
| erwirbt: "i \<in> I \<Longrightarrow> in_lebt fl i \<Longrightarrow>
     erwerben sqlite_port (in_umgebung fl i) (in_lease i) (fl_store fl) = Inr (s', b) \<Longrightarrow>
     fl_schritt I (Erwirbt i) fl (fl\<lparr>fl_store := s'\<rparr>)"
| erneuert: "i \<in> I \<Longrightarrow> in_lebt fl i \<Longrightarrow>
     erneuern sqlite_port (in_umgebung fl i) fs (in_lease i) (fl_store fl) = Inr (s', b) \<Longrightarrow>
     fl_schritt I (Erneuert i) fl (fl\<lparr>fl_store := s'\<rparr>)"
| gibt_frei: "i \<in> I \<Longrightarrow> in_lebt fl i \<Longrightarrow>
     freigeben sqlite_port (in_umgebung fl i) (in_lease i) (fl_store fl) = Inr (s', b) \<Longrightarrow>
     fl_schritt I (GibtFrei i) fl (fl\<lparr>fl_store := s'\<rparr>)"

inductive fl_erreichbar :: "instanz set \<Rightarrow> flotte \<Rightarrow> bool" for I :: "instanz set" where
  start: "fl_store fl = empty_store \<Longrightarrow> fl_erreichbar I fl"
| weiter: "fl_erreichbar I fl \<Longrightarrow> fl_schritt I e fl fl' \<Longrightarrow> fl_erreichbar I fl'"

text \<open>Every note beside a lock names an instance, its host, its process and its own token.\<close>

definition vermerk_von :: "instanz \<Rightarrow> wert" where
  "vermerk_von i = Json (JObj
     [(''host'', JStr (in_host i)), (''pid'', JNum (real_of_int (in_pid i))),
      (''token'', JStr (le_token (in_lease i))), (''instanz'', JStr (le_instanz (in_lease i)))])"

definition vermerk_inv :: "instanz set \<Rightarrow> flotte \<Rightarrow> bool" where
  "vermerk_inv I fl \<longleftrightarrow>
     (\<forall>i \<in> I. \<forall>w f. st_rows (fl_store fl) (halter_schluessel (in_lease i)) = Some (w, f) \<longrightarrow>
        (\<exists>j \<in> I. w = vermerk_von j))"

lemma halter_vermerk_umgebung [simp]:
  "halter_vermerk (in_umgebung fl i) (in_lease i) = vermerk_von i"
  by (simp add: halter_vermerk_def vermerk_von_def in_umgebung_def)

lemma vermerk_von_fields [simp]:
  "json_loads (vermerk_von i) = Some (JObj halter) \<Longrightarrow> jget halter ''host'' = JStr (in_host i)"
  "json_loads (vermerk_von i) = Some (JObj halter) \<Longrightarrow>
     jget halter ''token'' = JStr (le_token (in_lease i))"
  "json_loads (vermerk_von i) = Some (JObj halter) \<Longrightarrow> halter_pid (jget halter ''pid'') = Some (in_pid i)"
  by (auto simp: vermerk_von_def jget_def halter_pid_def)

lemma halter_schluessel_lk [simp]: "halter_schluessel l \<noteq> lk_key m"
  by simp


lemma sq_lock_rows:
  assumes "daten_key k"
  shows "st_rows (fst (sq_acquire s now l)) k = st_rows s k"
    "st_rows (fst (sq_renew s now l)) k = st_rows s k"
    "st_rows (fst (sq_release s l)) k = st_rows s k"
    "st_rows (fst (sq_brechen s l tok)) k = st_rows s k"
  using assms by (auto simp: lock_defs split: option.splits if_splits)

lemma halter_vermerken_row:
  "st_rows (halter_vermerken sqlite_port u l s) k = Some (w, f) \<Longrightarrow>
     st_rows s k = Some (w, f) \<or> w = halter_vermerk u l"
  by (auto simp: halter_vermerken_def sq_set_def split: if_splits)

lemma uebernehmen_row:
  assumes "uebernehmen_wenn_tot sqlite_port u l s = Inr (s', b)" "daten_key k"
  shows "st_rows s' k = st_rows s k"
proof (cases "s' = s")
  case False
  with sqlite.uebernehmen_only_dead [OF assms(1)]
  obtain tok where "(s', b) = sq_brechen s (le_sperre l) tok" by auto
  then have "s' = fst (sq_brechen s (le_sperre l) tok)" by (metis fst_conv)
  with sq_lock_rows(4) [OF assms(2)] show ?thesis by simp
qed simp

lemma sq_lock_rows_eq:
  assumes "daten_key k"
  shows "sq_acquire s now l = (s', b) \<Longrightarrow> st_rows s' k = st_rows s k"
    "sq_renew s now l = (s', b) \<Longrightarrow> st_rows s' k = st_rows s k"
    "sq_release s l = (s', b) \<Longrightarrow> st_rows s' k = st_rows s k"
  using sq_lock_rows [OF assms] by (metis fst_conv)+

lemma erwerben_row:
  assumes "erwerben sqlite_port u l s = Inr (s', b)" "daten_key k" "st_rows s' k = Some (w, f)"
  shows "st_rows s k = Some (w, f) \<or> w = halter_vermerk u l"
  using assms(1)
proof (cases rule: erwerbenE)
  case (sofort s1)
  have "st_rows s1 k = st_rows s k"
    using sofort(1) sq_lock_rows_eq(1) [OF assms(2)] by simp
  with sofort(2) assms(3) show ?thesis by (auto dest: halter_vermerken_row)
next
  case (verweigert s1)
  have "st_rows s1 k = st_rows s k" "st_rows s' k = st_rows s1 k"
    using verweigert(1) sq_lock_rows_eq(1) [OF assms(2)] uebernehmen_row [OF verweigert(2) assms(2)]
    by simp_all
  with assms(3) show ?thesis by simp
next
  case (uebernommen s1 s2 s3)
  have "st_rows s1 k = st_rows s k" "st_rows s2 k = st_rows s1 k" "st_rows s3 k = st_rows s2 k"
    using uebernommen(1,3) sq_lock_rows_eq(1) [OF assms(2)]
      uebernehmen_row [OF uebernommen(2) assms(2)]
    by simp_all
  with uebernommen(4) assms(3) show ?thesis
    by (auto split: if_splits dest: halter_vermerken_row)
qed

lemma erneuern_row:
  assumes "erneuern sqlite_port u fs l s = Inr (s', b)" "daten_key k" "st_rows s' k = Some (w, f)"
  shows "st_rows s k = Some (w, f) \<or> w = halter_vermerk u l"
  using assms
  by (auto simp: erneuern_def Let_def split: if_splits prod.splits
      dest!: halter_vermerken_row dest: sq_lock_rows_eq(2) [OF assms(2)])

lemma freigeben_row:
  "freigeben sqlite_port u l s = Inr (s', b) \<Longrightarrow> daten_key k \<Longrightarrow> st_rows s' k = st_rows s k"
  by (auto simp: freigeben_def sq_lock_rows_eq split: if_splits)

text \<open>An operation that writes at most its own note keeps the invariant.\<close>

lemma vermerk_inv_update:
  assumes "vermerk_inv I fl" "i \<in> I"
    and "\<And>k w f. daten_key k \<Longrightarrow> st_rows s' k = Some (w, f) \<Longrightarrow>
           st_rows (fl_store fl) k = Some (w, f) \<or> w = vermerk_von i"
  shows "vermerk_inv I (fl\<lparr>fl_store := s'\<rparr>)"
  unfolding vermerk_inv_def
proof (intro ballI allI impI)
  fix j w f
  assume j: "j \<in> I" "st_rows (fl_store (fl\<lparr>fl_store := s'\<rparr>)) (halter_schluessel (in_lease j)) = Some (w, f)"
  then have "st_rows (fl_store fl) (halter_schluessel (in_lease j)) = Some (w, f) \<or> w = vermerk_von i"
    using assms(3) [OF halter_schluessel_daten] by simp
  then show "\<exists>j \<in> I. w = vermerk_von j"
    using assms(1,2) j(1) unfolding vermerk_inv_def by blast
qed

lemma vermerk_inv_step:
  assumes "fl_schritt I e fl fl'" "vermerk_inv I fl"
  shows "vermerk_inv I fl'"
  using assms
proof (induction rule: fl_schritt.induct)
  case (erwirbt i fl s' b)
  show ?case
    by (rule vermerk_inv_update [OF erwirbt.prems erwirbt.hyps(1)])
      (use erwerben_row [OF erwirbt.hyps(3)] in simp)
next
  case (erneuert i fl fs s' b)
  show ?case
    by (rule vermerk_inv_update [OF erneuert.prems erneuert.hyps(1)])
      (use erneuern_row [OF erneuert.hyps(3)] in simp)
next
  case (gibt_frei i fl s' b)
  show ?case
    by (rule vermerk_inv_update [OF gibt_frei.prems gibt_frei.hyps(1)])
      (use freigeben_row [OF gibt_frei.hyps(3)] in simp)
qed (auto simp: vermerk_inv_def)

lemma vermerk_inv_reachable: "fl_erreichbar I fl \<Longrightarrow> vermerk_inv I fl"
proof (induction rule: fl_erreichbar.induct)
  case (start fl)
  then show ?case by (simp add: vermerk_inv_def empty_store_def)
next
  case (weiter fl e fl')
  then show ?case by (blast intro: vermerk_inv_step)
qed

text \<open>Breaking a lock by the note of a dead process leaves the lease of a living one alone.\<close>

lemma uebernehmen_keeps_living:
  assumes inv: "vermerk_inv I fl" and i: "i \<in> I" and j: "j \<in> I" and lebt: "in_lebt fl j"
    and tokens: "\<And>a b. a \<in> I \<Longrightarrow> b \<in> I \<Longrightarrow> le_token (in_lease a) = le_token (in_lease b) \<Longrightarrow> a = b"
    and held: "sq_held (fl_store fl) t (le_sperre (in_lease j))"
    and ueb: "uebernehmen_wenn_tot sqlite_port (in_umgebung fl i) (in_lease i) (fl_store fl) = Inr (s', b)"
  shows "sq_held s' t (le_sperre (in_lease j))"
proof (cases "s' = fl_store fl")
  case True
  with held show ?thesis by simp
next
  case False
  from sqlite.uebernehmen_only_dead [OF ueb] False obtain halter pid where
    row: "sq_get (fl_store fl) (fl_now fl) (halter_schluessel (in_lease i)) = Some (Json (JObj halter))"
    and host: "jget halter ''host'' = JStr (in_host i)"
    and pid: "halter_pid (jget halter ''pid'') = Some pid"
    and tot: "um_pid_exists (in_umgebung fl i) pid = Some False"
    and br: "(s', b) = sq_brechen (fl_store fl) (le_sperre (in_lease i))
        (halter_token (jget halter ''token''))"
    by (auto simp: in_umgebung_def)
  from row inv i obtain m where m: "m \<in> I" "Json (JObj halter) = vermerk_von m"
    by (fastforce simp: sq_get_def vermerk_inv_def split: option.splits if_splits)
  then have "json_loads (vermerk_von m) = Some (JObj halter)" by (metis json_loads.simps(1))
  with host pid have "in_host m = in_host i" "in_pid m = pid"
      and tok: "halter_token (jget halter ''token'') = le_token (in_lease m)"
    by (simp_all add: halter_token_def)
  with tot have "\<not> in_lebt fl m" by (simp add: in_umgebung_def in_lebt_def)
  with lebt tokens m(1) j have "le_token (in_lease j) \<noteq> le_token (in_lease m)" by blast
  with held have "sq_held (fst (sq_brechen (fl_store fl) (le_sperre (in_lease i))
      (le_token (in_lease m)))) t (le_sperre (in_lease j))"
    using sqlite.brechen_others [of "fl_store fl" t "le_sperre (in_lease j)"
        "le_sperre (in_lease i)"] by simp
  with br tok show ?thesis by (metis fst_conv)
qed

text \<open>What a fleet relies on: tokens are unique (\<open>uuid4\<close>) and not empty, terms are positive.\<close>

definition instanzen_ok :: "instanz set \<Rightarrow> bool" where
  "instanzen_ok I \<longleftrightarrow> inj_on (\<lambda>i. le_token (in_lease i)) I \<and>
     (\<forall>i \<in> I. 0 < le_frist (in_lease i) \<and> le_token (in_lease i) \<noteq> [])"

lemma instanzen_ok_inj:
  "instanzen_ok I \<Longrightarrow> a \<in> I \<Longrightarrow> b \<in> I \<Longrightarrow> le_token (in_lease a) = le_token (in_lease b) \<Longrightarrow> a = b"
  by (auto simp: instanzen_ok_def inj_on_def)

inductive_cases fl_erwirbtE: "fl_schritt I (Erwirbt i) fl fl'"
inductive_cases fl_erneuertE: "fl_schritt I (Erneuert i) fl fl'"
inductive_cases fl_gibt_freiE: "fl_schritt I (GibtFrei i) fl fl'"

lemma sq_brechen_False: "sq_brechen s l tok = (s', False) \<Longrightarrow> s' = s"
  by (auto simp: lock_defs split: option.splits if_splits)

lemma uebernehmen_False_store:
  assumes "uebernehmen_wenn_tot sqlite_port u l s = Inr (s', False)"
  shows "s' = s"
proof (rule ccontr)
  assume "s' \<noteq> s"
  with sqlite.uebernehmen_only_dead [OF assms] obtain tok
    where "sq_brechen s (le_sperre l) tok = (s', False)" by auto
  with \<open>s' \<noteq> s\<close> show False using sq_brechen_False by blast
qed

lemma sq_acquire_keeps:
  "sq_acquire s now l = (s', b) \<Longrightarrow> sq_held s t m \<Longrightarrow> now \<le> t \<Longrightarrow> sq_held s' t m"
  using sqlite.acquire_others [of s now m t l] sqlite.held_until [of s t m now] by simp

lemma sq_acquire_False_store: "sq_acquire s now l = (s', False) \<Longrightarrow> s' = s"
  using sqlite.acquire_False by simp

lemma erwirbt_keeps_living:
  assumes inv: "vermerk_inv I fl" and ok: "instanzen_ok I" and i: "i \<in> I" and j: "j \<in> I"
    and lebt: "in_lebt fl j" and t: "fl_now fl \<le> t"
    and held: "sq_held (fl_store fl) t (le_sperre (in_lease j))"
    and erw: "erwerben sqlite_port (in_umgebung fl i) (in_lease i) (fl_store fl) = Inr (s', b)"
  shows "sq_held s' t (le_sperre (in_lease j))"
  using erw
proof (cases rule: erwerbenE)
  case (sofort s1)
  have "sq_held s1 t (le_sperre (in_lease j))"
    using sq_acquire_keeps [of "fl_store fl" "fl_now fl"] sofort(1) held t
    by (simp add: in_umgebung_def)
  then show ?thesis using sofort(2) by (simp add: sqlite.halter_vermerken_held [simplified])
next
  case (verweigert s1)
  then have "s1 = fl_store fl" "s' = s1"
    by (auto intro: sq_acquire_False_store uebernehmen_False_store)
  with held show ?thesis by simp
next
  case (uebernommen s1 s2 s3)
  then have "s1 = fl_store fl" by (auto intro: sq_acquire_False_store)
  with uebernommen(2) have "uebernehmen_wenn_tot sqlite_port (in_umgebung fl i) (in_lease i)
      (fl_store fl) = Inr (s2, True)" by simp
  from uebernehmen_keeps_living [OF inv i j lebt instanzen_ok_inj [OF ok] held this]
  have "sq_held s2 t (le_sperre (in_lease j))" by blast
  then have "sq_held s3 t (le_sperre (in_lease j))"
    using sq_acquire_keeps [of s2 "fl_now fl"] uebernommen(3) t by (simp add: in_umgebung_def)
  then show ?thesis using uebernommen(4) by (simp add: sqlite.halter_vermerken_held [simplified])
qed

lemma erneuern_others:
  assumes "sq_held s t (le_sperre m)" "le_konto m \<noteq> le_konto l \<or> \<not> sq_held s (um_now u) (le_sperre l)"
    "erneuern sqlite_port u f l s = Inr (s', b)"
  shows "sq_held s' t (le_sperre m)"
proof (cases "sq_held s (um_now u) (le_sperre l)")
  case True
  then have "sq_held (fst (sq_renew s (um_now u) (le_sperre l))) t (le_sperre m)"
    using assms(1,2) sqlite.renew_others [of s t "le_sperre m" "le_sperre l"] by simp
  then show ?thesis
    using assms(1,3) sqlite.halter_vermerken_held
    by (auto simp: erneuern_def split: if_splits prod.splits)
next
  case False
  then show ?thesis
    using assms(1,3) sqlite.erneuern_not_held [of s u l f]
    by (auto simp: erneuern_def split: if_splits)
qed

text \<open>One step leaves a living holder its lease, unless the holder itself gives it up.\<close>

lemma living_holder_step:
  assumes step: "fl_schritt I e fl fl'" and inv: "vermerk_inv I fl" and ok: "instanzen_ok I"
    and j: "j \<in> I" and lebt: "in_lebt fl j" and t: "fl_now fl \<le> t" and held: "in_haelt fl t j"
    and own: "e \<noteq> GibtFrei j" "e \<noteq> Erneuert j"
  shows "in_haelt fl' t j"
  using step inv lebt t held own unfolding in_haelt_def
proof (induction rule: fl_schritt.induct)
  case (erwirbt i fl s' b)
  from erwirbt_keeps_living [OF erwirbt.prems(1) ok erwirbt.hyps(1) j erwirbt.prems(2-4) erwirbt.hyps(3)]
  show ?case by simp
next
  case (erneuert i fl fs s' b)
  have "le_konto (in_lease j) \<noteq> le_konto (in_lease i) \<or>
      \<not> sq_held (fl_store fl) (fl_now fl) (le_sperre (in_lease i))"
  proof (rule ccontr)
    assume "\<not> ?thesis"
    moreover have "sq_held (fl_store fl) (fl_now fl) (le_sperre (in_lease j))"
      using erneuert.prems sqlite.held_until by simp
    ultimately have "le_token (in_lease j) = le_token (in_lease i)"
      using sqlite.held_unique [of "fl_store fl" "fl_now fl" "le_sperre (in_lease j)"
          "le_sperre (in_lease i)"] by simp
    with instanzen_ok_inj [OF ok j erneuert.hyps(1)] erneuert.prems show False by simp
  qed
  with erneuern_others [OF _ _ erneuert.hyps(3)] erneuert.prems show ?case
    by (simp add: in_umgebung_def)
next
  case (gibt_frei i fl s' b)
  then have "le_token (in_lease j) \<noteq> le_token (in_lease i)"
    using instanzen_ok_inj [OF ok j gibt_frei.hyps(1)] by auto
  with sqlite.freigeben_others [OF gibt_frei.hyps(3)] gibt_frei.prems show ?case by simp
qed simp_all

text \<open>A run of the fleet, with its labels.\<close>

inductive fl_lauf :: "instanz set \<Rightarrow> ereignis list \<Rightarrow> flotte \<Rightarrow> flotte \<Rightarrow> bool" for I :: "instanz set" where
  leer: "fl_lauf I [] fl fl"
| schritt: "fl_schritt I e fl fl1 \<Longrightarrow> fl_lauf I es fl1 fl2 \<Longrightarrow> fl_lauf I (e # es) fl fl2"

lemma fl_schritt_mono:
  "fl_schritt I e fl fl' \<Longrightarrow> fl_now fl \<le> fl_now fl' \<and> fl_tot fl \<subseteq> fl_tot fl'"
  by (induction rule: fl_schritt.induct) auto

lemma fl_lauf_mono:
  "fl_lauf I es fl fl' \<Longrightarrow> fl_now fl \<le> fl_now fl' \<and> fl_tot fl \<subseteq> fl_tot fl'"
  by (induction rule: fl_lauf.induct) (auto dest!: fl_schritt_mono)

lemma living_holder_run:
  assumes "fl_lauf I es fl fl'" "vermerk_inv I fl" "instanzen_ok I" "j \<in> I" "in_lebt fl' j"
    "fl_now fl' \<le> t" "in_haelt fl t j" "GibtFrei j \<notin> set es" "Erneuert j \<notin> set es"
  shows "in_haelt fl' t j"
  using assms
proof (induction rule: fl_lauf.induct)
  case (schritt e fl fl1 es fl2)
  have "fl_now fl1 \<le> fl_now fl2" "fl_tot fl1 \<subseteq> fl_tot fl2"
    using fl_lauf_mono [OF schritt.hyps(2)] by simp_all
  moreover have "fl_now fl \<le> fl_now fl1" "fl_tot fl \<subseteq> fl_tot fl1"
    using fl_schritt_mono [OF schritt.hyps(1)] by simp_all
  ultimately have "in_lebt fl j" "fl_now fl \<le> t"
    using schritt.prems(4,5) by (auto simp: in_lebt_def)
  with schritt have "in_haelt fl1 t j"
    using living_holder_step [OF schritt.hyps(1)] by auto
  with schritt vermerk_inv_step show ?case by simp
qed simp

section \<open>Properties\<close>

lemma sq_acquire_True_row:
  "sq_acquire s now l = (s', True) \<Longrightarrow> st_rows s' (lk_key l) = Some (lk_row l now)"
  by (auto simp: sq_acquire_def split: option.splits if_splits)

text \<open>What a store holds right after an acquisition: the lock row and the note of the owner.\<close>

lemma erwerben_rows:
  assumes "erwerben sqlite_port u l s = Inr (s', True)"
  shows "um_erreichbar u" "st_rows s' (lk_key (le_sperre l)) = Some (lk_row (le_sperre l) (um_now u))"
    "st_rows s' (halter_schluessel l) = Some (halter_vermerk u l, Some (um_now u + le_frist l))"
proof -
  from assms show erreichbar: "um_erreichbar u" by (auto simp: erwerben_def split: if_splits)
  from assms obtain s1 where "st_rows s1 (lk_key (le_sperre l)) = Some (lk_row (le_sperre l) (um_now u))"
      and "s' = halter_vermerken sqlite_port u l s1"
    by (cases rule: erwerbenE) (auto dest: sq_acquire_True_row)
  with erreichbar show "st_rows s' (lk_key (le_sperre l)) = Some (lk_row (le_sperre l) (um_now u))"
    "st_rows s' (halter_schluessel l) = Some (halter_vermerk u l, Some (um_now u + le_frist l))"
    by (simp_all add: halter_vermerken_def sq_set_def halter_schluessel_lk [symmetric] del: halter_schluessel_lk)
qed

text \<open>A free row: missing or expired.\<close>

lemma erwerben_frei:
  assumes "um_erreichbar u" "\<And>w f. st_rows s (lk_key (le_sperre l)) = Some (w, f) \<Longrightarrow> abgelaufen (um_now u) f"
  shows "\<exists>s'. erwerben sqlite_port u l s = Inr (s', True)"
proof -
  have "\<exists>s1. sq_acquire s (um_now u) (le_sperre l) = (s1, True)"
    using assms(2) by (auto simp: sq_acquire_def split: option.splits)
  with assms(1) show ?thesis by (auto simp: erwerben_def)
qed

lemma erwerben_belegt:
  assumes "um_erreichbar u" "st_rows s (lk_key (le_sperre l)) = Some (w, f)" "\<not> abgelaufen (um_now u) f"
  shows "erwerben sqlite_port u l s =
    (case uebernehmen_wenn_tot sqlite_port u l s of
       Inl e \<Rightarrow> Inl e
     | Inr (s2, False) \<Rightarrow> Inr (s2, False)
     | Inr (s2, True) \<Rightarrow>
         (let (s3, b) = sq_acquire s2 (um_now u) (le_sperre l)
          in Inr (if b then halter_vermerken sqlite_port u l s3 else s3, b)))"
  using assms
  by (auto simp: erwerben_def sq_acquire_def split: sum.splits prod.splits bool.splits)

text \<open>Before the term of a holder runs out, the note beside the lock decides.\<close>

lemma erwerben_before_expiry:
  assumes erw: "erwerben sqlite_port um m s0 = Inr (s1, True)"
    and konto: "le_konto l = le_konto m" and token: "le_token l \<noteq> le_token m" "le_token m \<noteq> []"
    and pid: "0 < um_pid um" "um_pid u \<noteq> um_pid um"
    and erreichbar: "um_erreichbar u" and frist: "um_now u < um_now um + le_frist m"
  shows "\<exists>s2. erwerben sqlite_port u l s1 = Inr (s2,
      um_host u = um_host um \<and> um_pid_exists u (um_pid um) = Some False)"
proof -
  have row: "st_rows s1 (lk_key (le_sperre l)) = Some (Text (le_token m), Some (um_now um + le_frist m))"
    using erwerben_rows(2) [OF erw] konto by (simp add: lk_key_def lk_row_def)
  have vermerk: "sq_get s1 (um_now u) (halter_schluessel l) = Some (halter_vermerk um m)"
    using erwerben_rows(3) [OF erw] konto frist by (simp add: halter_schluessel_def sq_get_def)
  show ?thesis
    using frist row vermerk token pid erreichbar
    by (auto simp: erwerben_belegt uebernehmen_wenn_tot_def halter_vermerk_def jget_def halter_pid_def
        halter_token_def prozess_lebt_def sq_brechen_def loesche_zeile_def sq_acquire_def
        split: option.splits)
qed

text \<open>
  After an instance acquired the lease and then stopped renewing, a second instance of the same
  account that calls \<open>erwerben\<close> later gets the lease exactly when the term has run out, or when it
  runs on the same host and the process of the holder is provably dead there. In every other case,
  also when the death cannot be determined, it is refused, and never by an exception.
\<close>

theorem erwerben_after_crash:
  assumes erw: "erwerben sqlite_port um m s0 = Inr (s1, True)"
    and konto: "le_konto l = le_konto m" and token: "le_token l \<noteq> le_token m" "le_token m \<noteq> []"
    and pid: "0 < um_pid um" "um_pid u \<noteq> um_pid um"
    and erreichbar: "um_erreichbar u"
  shows "\<exists>s2. erwerben sqlite_port u l s1 = Inr (s2,
      um_now um + le_frist m \<le> um_now u \<or>
      (um_host u = um_host um \<and> um_pid_exists u (um_pid um) = Some False))"
proof (cases "um_now um + le_frist m \<le> um_now u")
  case True
  with erwerben_rows(2) [OF erw] konto
  have "abgelaufen (um_now u) f" if "st_rows s1 (lk_key (le_sperre l)) = Some (w, f)" for w f
    using that by (auto simp: lk_key_def lk_row_def)
  with erwerben_frei [OF erreichbar, of s1 l] True show ?thesis by simp
next
  case False
  with erwerben_before_expiry [OF erw konto token pid erreichbar] show ?thesis by simp
qed

definition bsp_a :: instanz where
  "bsp_a = \<lparr>in_lease = \<lparr>le_konto = ''global:paper'', le_instanz = ''a'', le_frist = 60, le_token = ''t1''\<rparr>,
     in_host = ''h'', in_pid = 11\<rparr>"

definition bsp_b :: instanz where
  "bsp_b = \<lparr>in_lease = \<lparr>le_konto = ''global:paper'', le_instanz = ''b'', le_frist = 60, le_token = ''t2''\<rparr>,
     in_host = ''h'', in_pid = 12\<rparr>"

definition bsp_start :: flotte where
  "bsp_start = \<lparr>fl_store = empty_store, fl_now = 0, fl_tot = {}\<rparr>"

lemma bsp_a_erwirbt:
  "\<exists>s. erwerben sqlite_port (in_umgebung bsp_start bsp_a) (in_lease bsp_a) empty_store = Inr (s, True)"
  by (rule erwerben_frei) (simp_all add: in_umgebung_def empty_store_def)

lemma erwerben_after_crash_witness:
  "\<exists>s1 s2. erwerben sqlite_port (in_umgebung bsp_start bsp_a) (in_lease bsp_a) empty_store = Inr (s1, True) \<and>
     erwerben sqlite_port (in_umgebung (bsp_start\<lparr>fl_tot := {(''h'', 11)}\<rparr>) bsp_b) (in_lease bsp_b) s1
       = Inr (s2, True)"
proof -
  obtain s1 where s1: "erwerben sqlite_port (in_umgebung bsp_start bsp_a) (in_lease bsp_a) empty_store = Inr (s1, True)"
    using bsp_a_erwirbt by blast
  with erwerben_after_crash [OF s1, of "in_lease bsp_b" "in_umgebung (bsp_start\<lparr>fl_tot := {(''h'', 11)}\<rparr>) bsp_b"]
  show ?thesis by (auto simp: bsp_a_def bsp_b_def bsp_start_def in_umgebung_def)
qed

text \<open>
  C36: In every run of a fleet of instances, possibly on several hosts, with processes dying at any
  point, an instance that is alive, whose term has not run out and that did not release or renew
  keeps its lease, and no other instance holds the lease of the same account at that time.
\<close>

theorem living_holder_not_displaced:
  assumes "fl_erreichbar I fl" "instanzen_ok I" "fl_lauf I es fl fl'" "j \<in> I" "in_lebt fl' j"
    and "in_haelt fl (fl_now fl') j" "GibtFrei j \<notin> set es" "Erneuert j \<notin> set es"
  shows "in_haelt fl' (fl_now fl') j \<and>
    (\<forall>i \<in> I. le_konto (in_lease i) = le_konto (in_lease j) \<longrightarrow> i \<noteq> j \<longrightarrow> \<not> in_haelt fl' (fl_now fl') i)"
proof
  show held: "in_haelt fl' (fl_now fl') j"
    using living_holder_run [OF assms(3) vermerk_inv_reachable] assms by simp
  show "\<forall>i \<in> I. le_konto (in_lease i) = le_konto (in_lease j) \<longrightarrow> i \<noteq> j \<longrightarrow> \<not> in_haelt fl' (fl_now fl') i"
  proof (intro ballI impI notI)
    fix i
    assume i: "i \<in> I" "le_konto (in_lease i) = le_konto (in_lease j)" "i \<noteq> j" "in_haelt fl' (fl_now fl') i"
    with held have "le_token (in_lease i) = le_token (in_lease j)"
      using sqlite.held_unique [of "fl_store fl'" "fl_now fl'" "le_sperre (in_lease i)" "le_sperre (in_lease j)"]
      by (simp add: in_haelt_def)
    with instanzen_ok_inj [OF assms(2) i(1) assms(4)] i(3) show False by blast
  qed
qed

lemma living_holder_not_displaced_witness:
  "\<exists>fl fl'. fl_lauf {bsp_a, bsp_b} [Erwirbt bsp_b] fl fl' \<and> in_haelt fl' 0 bsp_a \<and> \<not> in_haelt fl' 0 bsp_b"
proof -
  let ?I = "{bsp_a, bsp_b}"
  obtain s1 where s1: "erwerben sqlite_port (in_umgebung bsp_start bsp_a) (in_lease bsp_a) empty_store = Inr (s1, True)"
    using bsp_a_erwirbt by blast
  define fl where "fl = bsp_start\<lparr>fl_store := s1\<rparr>"
  have ok: "instanzen_ok ?I" by (auto simp: instanzen_ok_def inj_on_def bsp_a_def bsp_b_def)
  have "fl_erreichbar ?I bsp_start" by (rule start) (simp add: bsp_start_def)
  moreover have "fl_schritt ?I (Erwirbt bsp_a) bsp_start fl"
    unfolding fl_def by (rule erwirbt [where b = True]) (use s1 in \<open>simp_all add: bsp_start_def in_lebt_def\<close>)
  ultimately have reach: "fl_erreichbar ?I fl" by (rule weiter)
  have "sq_held s1 0 (le_sperre (in_lease bsp_a))"
    using sqlite.erwerben_holds [OF s1, of 0] by (simp add: bsp_a_def in_umgebung_def bsp_start_def)
  then have held: "in_haelt fl 0 bsp_a" by (simp add: in_haelt_def fl_def)
  have "\<exists>s2. erwerben sqlite_port (in_umgebung fl bsp_b) (in_lease bsp_b) s1 = Inr (s2, False)"
    using erwerben_before_expiry [OF s1, of "in_lease bsp_b" "in_umgebung fl bsp_b"]
    by (simp add: in_umgebung_def fl_def bsp_start_def bsp_a_def bsp_b_def)
  then obtain s2 where s2: "erwerben sqlite_port (in_umgebung fl bsp_b) (in_lease bsp_b) s1 = Inr (s2, False)"
    by blast
  have "fl_schritt ?I (Erwirbt bsp_b) fl (fl\<lparr>fl_store := s2\<rparr>)"
    by (rule erwirbt [where b = False]) (use s2 in \<open>simp_all add: fl_def bsp_start_def in_lebt_def\<close>)
  then have lauf: "fl_lauf ?I [Erwirbt bsp_b] fl (fl\<lparr>fl_store := s2\<rparr>)"
    by (blast intro: fl_lauf.intros)
  have "bsp_a \<noteq> bsp_b" by (simp add: bsp_a_def bsp_b_def)
  moreover have "fl_now (fl\<lparr>fl_store := s2\<rparr>) = 0" by (simp add: fl_def bsp_start_def)
  ultimately show ?thesis
    using living_holder_not_displaced [OF reach ok lauf, of bsp_a] lauf held
    by (auto simp: in_lebt_def fl_def bsp_start_def bsp_a_def bsp_b_def)
qed

text \<open>Every lease of the registry stands under its own account and has a positive term.\<close>

definition registratur_ok :: "prozess \<Rightarrow> bool" where
  "registratur_ok pr \<longleftrightarrow> dict_ok (pr_registratur pr) \<and>
     (\<forall>(k, e) \<in> set (pr_registratur pr). le_konto (ei_lease e) = k \<and> 0 < le_frist (ei_lease e))"

lemma registratur_okD:
  "registratur_ok pr \<Longrightarrow> (k, e) \<in> set (pr_registratur pr) \<Longrightarrow> le_konto (ei_lease e) = k \<and> 0 < le_frist (ei_lease e)"
  by (auto simp: registratur_ok_def)

lemma vergiss_ok: "registratur_ok pr \<Longrightarrow> registratur_ok (vergiss k pr)"
  by (auto simp: registratur_ok_def vergiss_def set_dict_del)

lemma erwirb_ok:
  assumes "registratur_ok pr" "0 < le_frist neu" "erwirb_auf_diesem_ring p u r neu pr s = (pr', res)"
  shows "registratur_ok pr'"
  using assms
  by (auto simp: erwirb_auf_diesem_ring_def registratur_ok_def dest!: set_dict_set
      split: option.splits sum.splits prod.splits bool.splits)

context engine_state
begin

lemma rufe_Inr: "rufe r e op = Inr x \<longleftrightarrow> rufe_moeglich r e \<and> op (ei_lease e) = Inr x"
  by (simp add: rufe_def)

lemma erwirb_True:
  assumes "erwirb_auf_diesem_ring p u r neu pr s = (pr', Inr (s', True))" "0 < le_frist neu"
  shows "map_of (pr_registratur pr') (le_konto neu) \<noteq> None \<and>
    po_held p s' (um_now u) (le_sperre (ei_lease (the (map_of (pr_registratur pr') (le_konto neu)))))"
  using assms
  by (auto simp: erwirb_auf_diesem_ring_def erwerben_holds
      split: option.splits sum.splits prod.splits bool.splits)

lemma sichere_True:
  assumes "sichere_berechtigung p u r neu pr s = (pr', Inr (s', True))" "0 < le_frist neu"
  shows "map_of (pr_registratur pr') (le_konto neu) \<noteq> None \<and>
    po_held p s' (um_now u) (le_sperre (ei_lease (the (map_of (pr_registratur pr') (le_konto neu)))))"
proof (cases "map_of (pr_registratur pr) (le_konto neu)")
  case None
  with assms erwirb_True show ?thesis by (auto simp: sichere_berechtigung_def)
next
  case (Some e)
  with assms erwirb_True [OF _ assms(2), of u r "vergiss (le_konto neu) pr"] show ?thesis
    by (auto simp: sichere_berechtigung_def rufe_Inr haelt_noch_def
        split: sum.splits bool.splits py_error.splits if_splits)
qed

lemma darf_schreiben_True:
  assumes "darf_schreiben p u r True neu pr s = (pr', s', True)" "0 < le_frist neu"
  shows "\<exists>e. map_of (pr_registratur pr') (le_konto neu) = Some e \<and>
    po_held p s' (um_now u) (le_sperre (ei_lease e))"
  using assms sichere_True [of u r neu pr s pr' s']
  by (auto simp: darf_schreiben_def split: prod.splits sum.splits)

lemma darf_schreiben_unerreichbar:
  "\<not> um_erreichbar u \<Longrightarrow> \<exists>pr'. darf_schreiben p u r True neu pr s = (pr', s, False)"
  by (auto simp: darf_schreiben_def sichere_berechtigung_def erwirb_auf_diesem_ring_def erwerben_def
      haelt_noch_def rufe_def split: option.splits)

end

text \<open>
  The check before an order fails closed: with the lock switched on it answers \<open>True\<close> only
  when the registry of the process then holds an entry for the account whose lock is held in the
  store at this instant, and an unreachable store always gives \<open>False\<close>, never an exception.
\<close>

theorem darf_schreiben_fail_closed:
  assumes "0 < le_frist neu" "darf_schreiben sqlite_port u r True neu pr s = (pr', s', b)"
  shows "b \<longrightarrow> um_erreichbar u \<and> (\<exists>e. map_of (pr_registratur pr') (le_konto neu) = Some e \<and>
    sq_held s' (um_now u) (le_sperre (ei_lease e)))"
  using assms sqlite.darf_schreiben_True [of u r neu pr s pr' s']
    sqlite.darf_schreiben_unerreichbar [of u r neu pr s]
  by auto

definition bsp_ringe :: ringe where
  "bsp_ringe = \<lparr>ri_hier = Some 0, ri_laeuft = (\<lambda>_. True)\<rparr>"

lemma darf_schreiben_fail_closed_witness:
  "\<exists>pr s e. darf_schreiben sqlite_port (in_umgebung bsp_start bsp_a) bsp_ringe True (in_lease bsp_a)
      \<lparr>pr_registratur = []\<rparr> empty_store = (pr, s, True) \<and>
    map_of (pr_registratur pr) ''global:paper'' = Some e \<and> sq_held s 0 (le_sperre (ei_lease e))"
proof -
  obtain s1 where s1: "erwerben sqlite_port (in_umgebung bsp_start bsp_a) (in_lease bsp_a) empty_store = Inr (s1, True)"
    using bsp_a_erwirbt by blast
  then have "\<exists>pr. darf_schreiben sqlite_port (in_umgebung bsp_start bsp_a) bsp_ringe True (in_lease bsp_a)
      \<lparr>pr_registratur = []\<rparr> empty_store = (pr, s1, True)"
    by (simp add: darf_schreiben_def sichere_berechtigung_def erwirb_auf_diesem_ring_def bsp_ringe_def)
  then obtain pr where *: "darf_schreiben sqlite_port (in_umgebung bsp_start bsp_a) bsp_ringe True (in_lease bsp_a)
      \<lparr>pr_registratur = []\<rparr> empty_store = (pr, s1, True)" by blast
  with darf_schreiben_fail_closed [OF _ *] show ?thesis
    by (auto simp: bsp_a_def in_umgebung_def bsp_start_def)
qed

context engine_state
begin

lemma erneuern_other_konto:
  assumes "erneuern p u f l s = Inr (s', b)" "po_held p s t (le_sperre m)" "le_konto m \<noteq> le_konto l"
  shows "po_held p s' t (le_sperre m)"
  using assms renew_others [of s t "le_sperre m" "le_sperre l" "um_now u"]
  by (auto simp: erneuern_def split: if_splits prod.splits)

lemma erneuern_erreichbar:
  "um_erreichbar u \<Longrightarrow> \<exists>s' b. erneuern p u None l s = Inr (s', b)"
  by (auto simp: erneuern_def split: prod.splits)

text \<open>
  The renewal loop touches no other account, only forgets entries, and every entry it does not
  forget holds its lock until the end of the renewed term.
\<close>

lemma erneuere_liste_spec:
  assumes "erneuere_liste p u r es pr s = (pr', s', n)" "um_erreichbar u" "distinct (map fst es)"
    "\<forall>(k, e) \<in> set es. le_konto (ei_lease e) = k \<and> rufe_moeglich r e"
  shows "(\<forall>m t. le_konto m \<notin> fst ` set es \<longrightarrow> po_held p s t (le_sperre m) \<longrightarrow> po_held p s' t (le_sperre m)) \<and>
    set (pr_registratur pr') \<subseteq> set (pr_registratur pr) \<and>
    (\<forall>(k, e) \<in> set es. k \<in> fst ` set (pr_registratur pr') \<longrightarrow>
       (\<forall>t < um_now u + le_frist (ei_lease e). po_held p s' t (le_sperre (ei_lease e))))"
  using assms
proof (induction es arbitrary: pr s pr' s' n)
  case (Cons ke es)
  obtain k e where ke: "ke = (k, e)" by (cases ke)
  obtain s1 b where erneuern: "erneuern p u None (ei_lease e) s = Inr (s1, b)"
    using erneuern_erreichbar [OF Cons.prems(2)] by blast
  have call: "rufe r e (\<lambda>l. erneuern p u None l s) = Inr (s1, b)"
    using erneuern Cons.prems(4) by (simp add: ke rufe_Inr)
  define pr1 where "pr1 = (if b then pr else vergiss k pr)"
  obtain n1 where rest: "erneuere_liste p u r es pr1 s1 = (pr', s', n1)"
    using Cons.prems(1) call by (cases b) (auto simp: ke pr1_def split: prod.splits)
  from Cons.prems have konto: "le_konto (ei_lease e) = k" "k \<notin> fst ` set es" by (auto simp: ke)
  have ih: "\<And>m t. le_konto m \<notin> fst ` set es \<Longrightarrow> po_held p s1 t (le_sperre m) \<Longrightarrow> po_held p s' t (le_sperre m)"
    "set (pr_registratur pr') \<subseteq> set (pr_registratur pr1)"
    "\<forall>(k, e) \<in> set es. k \<in> fst ` set (pr_registratur pr') \<longrightarrow>
       (\<forall>t < um_now u + le_frist (ei_lease e). po_held p s' t (le_sperre (ei_lease e)))"
    using Cons.IH [OF rest Cons.prems(2)] Cons.prems(3,4) by simp_all
  have others: "po_held p s' t (le_sperre m)"
    if "le_konto m \<notin> fst ` set (ke # es)" "po_held p s t (le_sperre m)" for m t
    using that ih(1) erneuern_other_konto [OF erneuern that(2)] by (simp add: ke konto)
  have sub: "set (pr_registratur pr') \<subseteq> set (pr_registratur pr)"
    using ih(2) by (auto simp: pr1_def vergiss_def set_dict_del split: if_splits)
  have own: "po_held p s' t (le_sperre (ei_lease e))"
    if "k \<in> fst ` set (pr_registratur pr')" "t < um_now u + le_frist (ei_lease e)" for t
  proof -
    have b using that(1) ih(2) by (auto simp: pr1_def vergiss_def set_dict_del split: if_splits)
    then have "po_held p s1 t (le_sperre (ei_lease e))"
      using erneuern_extends(3) erneuern that(2) by simp
    then show ?thesis using ih(1) konto by simp
  qed
  show ?case using others sub own ih(3) by (auto simp: ke)
qed simp

end

text \<open>
  After a renewal tick with progress and a reachable store, every entry of this event loop that
  is still in the registry holds its lock until the end of a fresh term; entries that lost their
  permission are gone. Without progress nothing is renewed and nothing is written.
\<close>

theorem renewal_tick:
  assumes "registratur_ok pr" "um_erreichbar u"
    and "erneuere_auf_diesem_ring sqlite_port u r fortschritt pr s = (pr', s', n)"
  shows "if fortschritt
    then \<forall>(k, e) \<in> set (pr_registratur pr'). ri_hier r = Some (ei_ring e) \<longrightarrow>
           (\<forall>t < um_now u + le_frist (ei_lease e). sq_held s' t (le_sperre (ei_lease e)))
    else s' = s \<and> pr' = pr \<and> n = 0"
proof (cases fortschritt)
  case False
  with assms(3) show ?thesis by (auto simp: erneuere_auf_diesem_ring_def Let_def split: if_splits)
next
  case True
  let ?es = "filter (\<lambda>(k, e). Some (ei_ring e) = ri_hier r) (pr_registratur pr)"
  have dist: "distinct (map fst ?es)"
    using assms(1) by (simp add: registratur_ok_def distinct_map_filter)
  have ok: "\<forall>(k, e) \<in> set ?es. le_konto (ei_lease e) = k \<and> rufe_moeglich r e"
    using assms(1) by (auto simp: registratur_ok_def rufe_moeglich_def)
  have "\<exists>n. erneuere_liste sqlite_port u r ?es pr s = (pr', s', n)"
    using assms(3) True by (auto simp: erneuere_auf_diesem_ring_def Let_def split: if_splits)
  then obtain n1 where run: "erneuere_liste sqlite_port u r ?es pr s = (pr', s', n1)" by blast
  note spec = sqlite.erneuere_liste_spec [OF run assms(2) dist ok, unfolded sqlite_port_sel]
  from spec
  have "set (pr_registratur pr') \<subseteq> set (pr_registratur pr)"
    and "\<forall>(k, e) \<in> set ?es. k \<in> fst ` set (pr_registratur pr') \<longrightarrow>
       (\<forall>t < um_now u + le_frist (ei_lease e). sq_held s' t (le_sperre (ei_lease e)))" by blast+
  then have "\<forall>(k, e) \<in> set (pr_registratur pr'). ri_hier r = Some (ei_ring e) \<longrightarrow>
           (\<forall>t < um_now u + le_frist (ei_lease e). sq_held s' t (le_sperre (ei_lease e)))" by force
  with True show ?thesis by simp
qed

lemma renewal_tick_witness:
  "\<exists>s s'. sq_held s 0 (le_sperre (in_lease bsp_a)) \<and>
    erneuere_auf_diesem_ring sqlite_port (in_umgebung (bsp_start\<lparr>fl_now := 30\<rparr>) bsp_a) bsp_ringe True
      \<lparr>pr_registratur = [(''global:paper'', \<lparr>ei_lease = in_lease bsp_a, ei_ring = 0\<rparr>)]\<rparr> s =
      (\<lparr>pr_registratur = [(''global:paper'', \<lparr>ei_lease = in_lease bsp_a, ei_ring = 0\<rparr>)]\<rparr>, s', 1) \<and>
    sq_held s' 89 (le_sperre (in_lease bsp_a))"
proof -
  let ?pr = "\<lparr>pr_registratur = [(''global:paper'', \<lparr>ei_lease = in_lease bsp_a, ei_ring = 0\<rparr>)]\<rparr>"
  let ?u = "in_umgebung (bsp_start\<lparr>fl_now := 30\<rparr>) bsp_a"
  obtain s where s: "erwerben sqlite_port (in_umgebung bsp_start bsp_a) (in_lease bsp_a) empty_store = Inr (s, True)"
    using bsp_a_erwirbt by blast
  have held: "sq_held s 0 (le_sperre (in_lease bsp_a))" "sq_held s 30 (le_sperre (in_lease bsp_a))"
    using sqlite.erwerben_holds [OF s, of 0] sqlite.erwerben_holds [OF s, of 30]
    by (simp_all add: bsp_a_def in_umgebung_def bsp_start_def)
  then have "\<exists>s1. sq_renew s 30 (le_sperre (in_lease bsp_a)) = (s1, True)"
    by (auto simp: sq_renew_def sq_held_def split: option.splits)
  then have "\<exists>s'. erneuern sqlite_port ?u None (in_lease bsp_a) s = Inr (s', True)"
    by (auto simp: erneuern_def in_umgebung_def)
  then obtain s' where run: "erneuere_auf_diesem_ring sqlite_port ?u bsp_ringe True ?pr s = (?pr, s', 1)"
    by (auto simp: erneuere_auf_diesem_ring_def bsp_ringe_def rufe_def rufe_moeglich_def)
  have "registratur_ok ?pr" by (simp add: registratur_ok_def bsp_a_def)
  from renewal_tick [OF this _ run] held run show ?thesis
    by (auto simp: in_umgebung_def bsp_start_def bsp_ringe_def bsp_a_def)
qed

end
