(* ===== verification/Outbox.thy ===== *)
theory Outbox
  imports State_Store
begin

text \<open>
  The outbox of order intents (\<open>core/outbox.py\<close>): an intent is written durably before the broker
  sees it, its state only moves forward, a restart finds it and reconciles it with the broker
  without sending.

  The operations are parametric in the port. An \<open>umfeld\<close> says, for each of the attempts to enter a
  critical section, when it happens and what others did to the store before it; inside the section
  the operation is taken at one instant. The fields of an entry are JSON values, because
  \<open>aus_json\<close> accepts whatever the text holds. The broker lookup is a parameter.
\<close>

section \<open>Entries\<close>

record outbox_eintrag =
  oe_decision_id :: jval
  oe_leg :: jval
  oe_client_order_id :: jval
  oe_symbol :: jval
  oe_side :: jval
  oe_qty :: jval
  oe_user_id :: jval
  oe_zustand :: jval
  oe_broker_order_id :: jval
  oe_grund :: jval

text \<open>\<open>_RANG.get(zustand, 0)\<close> and \<open>zustand in _ERLEDIGT\<close>; a list or an object is not hashable.\<close>

definition rang :: "jval \<Rightarrow> nat" where
  "rang z = (if z = JStr ''abgesendet'' then 1
             else if z = JStr ''bestaetigt'' \<or> z = JStr ''verworfen'' then 2 else 0)"

definition erledigt :: "jval \<Rightarrow> bool" where
  "erledigt z = (z = JStr ''bestaetigt'' \<or> z = JStr ''verworfen'')"

fun hashbar :: "jval \<Rightarrow> bool" where
  "hashbar (JList _) = False"
| "hashbar (JObj _) = False"
| "hashbar _ = True"

definition als_json :: "outbox_eintrag \<Rightarrow> wert" where
  "als_json e = Json (JObj
     [(''broker_order_id'', oe_broker_order_id e), (''client_order_id'', oe_client_order_id e),
      (''decision_id'', oe_decision_id e), (''grund'', oe_grund e), (''leg'', oe_leg e),
      (''qty'', oe_qty e), (''side'', oe_side e), (''symbol'', oe_symbol e),
      (''user_id'', oe_user_id e), (''zustand'', oe_zustand e)])"

text \<open>A field with a default may be missing; every other text or value is unreadable.\<close>

definition aus_json :: "wert \<Rightarrow> outbox_eintrag option" where
  "aus_json roh =
     (case json_loads roh of
        Some (JObj daten) \<Rightarrow>
          (let feld = map_of daten; sonst = (\<lambda>f d. case feld f of None \<Rightarrow> JStr d | Some v \<Rightarrow> v)
           in case (feld ''decision_id'', feld ''leg'', feld ''client_order_id'', feld ''symbol'',
                    feld ''side'', feld ''qty'') of
                (Some d, Some l, Some c, Some sy, Some si, Some q) \<Rightarrow>
                  Some \<lparr>oe_decision_id = d, oe_leg = l, oe_client_order_id = c, oe_symbol = sy,
                        oe_side = si, oe_qty = q, oe_user_id = sonst ''user_id'' [],
                        oe_zustand = sonst ''zustand'' ''offen'',
                        oe_broker_order_id = sonst ''broker_order_id'' [],
                        oe_grund = sonst ''grund'' []\<rparr>
              | _ \<Rightarrow> None)
      | _ \<Rightarrow> None)"

section \<open>The critical section\<close>

record 's umfeld =
  uf_token :: string
  uf_zeit :: "nat \<Rightarrow> real"
  uf_andere :: "nat \<Rightarrow> 's \<Rightarrow> 's"

definition sperrversuche :: nat where
  "sperrversuche = 25"

definition ob_sperre :: "'s umfeld \<Rightarrow> string \<Rightarrow> sq_lock" where
  "ob_sperre uf name = \<lparr>lk_name = ''outbox:'' @ name, lk_ttl = 10, lk_token = uf_token uf\<rparr>"

text \<open>\<open>_Abschnitt.__aenter__\<close>: the attempts in order; the time of the one that got the lock.\<close>

fun aenter :: "'s port \<Rightarrow> 's umfeld \<Rightarrow> sq_lock \<Rightarrow> nat list \<Rightarrow> 's \<Rightarrow> 's \<times> real option" where
  "aenter p uf l [] s = (s, None)"
| "aenter p uf l (i # is) s =
     (let (s1, ok) = po_acquire p (uf_andere uf i s) (uf_zeit uf i) l
      in if ok then (s1, Some (uf_zeit uf i)) else aenter p uf l is s1)"

text \<open>
  \<open>async with _Abschnitt(...)\<close>: \<open>ohne\<close> is what the operation returns when the lock was not to be
  had. The lock is released on the way out, also when the body raised.
\<close>

definition abschnitt ::
  "'s port \<Rightarrow> 's umfeld \<Rightarrow> string \<Rightarrow> (real \<Rightarrow> 's \<Rightarrow> 's \<times> (py_error + 'a)) \<Rightarrow> 'a \<Rightarrow> 's
     \<Rightarrow> 's \<times> (py_error + 'a)" where
  "abschnitt p uf name rumpf ohne s =
     (case aenter p uf (ob_sperre uf name) [0..<sperrversuche] s of
        (s1, None) \<Rightarrow> (s1, Inr ohne)
      | (s1, Some now) \<Rightarrow>
          (let (s2, r) = rumpf now s1 in (fst (po_release p s2 (ob_sperre uf name)), r)))"

section \<open>Outbox\<close>

definition verzeichnis :: string where
  "verzeichnis = ''outbox:verzeichnis''"

definition ob_key :: "string \<Rightarrow> string" where
  "ob_key coid = ''outbox:intent:'' @ coid"

text \<open>
  The lines of the directory are keys, written by \<open>festschreiben\<close> alone. The name of the lock for a
  key that is no text does not matter: the body raises \<open>TypeError\<close> at \<open>_PRAEFIX + coid\<close>.
\<close>

fun zeile :: "wert \<Rightarrow> string" where
  "zeile (Text s) = s"
| "zeile _ = []"

fun sperrname :: "jval \<Rightarrow> string" where
  "sperrname (JStr s) = s"
| "sperrname _ = ''?''"

definition lese :: "'s port \<Rightarrow> real \<Rightarrow> string \<Rightarrow> 's \<Rightarrow> outbox_eintrag option" where
  "lese p now coid s =
     (case po_get p s now (ob_key coid) of None \<Rightarrow> None | Some roh \<Rightarrow> aus_json roh)"

fun unbestaetigte_aus ::
  "'s port \<Rightarrow> real \<Rightarrow> jval option \<Rightarrow> 's \<Rightarrow> wert list \<Rightarrow> py_error + outbox_eintrag list" where
  "unbestaetigte_aus p now symbol s [] = Inr []"
| "unbestaetigte_aus p now symbol s (w # ws) =
     (case lese p now (zeile w) s of
        None \<Rightarrow> unbestaetigte_aus p now symbol s ws
      | Some e \<Rightarrow>
          if \<not> hashbar (oe_zustand e) then Inl TypeError
          else if erledigt (oe_zustand e) \<or> (symbol \<noteq> None \<and> Some (oe_symbol e) \<noteq> symbol)
               then unbestaetigte_aus p now symbol s ws
               else result_bind (unbestaetigte_aus p now symbol s ws) (\<lambda>es. Inr (e # es)))"

definition unbestaetigte ::
  "'s port \<Rightarrow> real \<Rightarrow> jval option \<Rightarrow> 's \<Rightarrow> py_error + outbox_eintrag list" where
  "unbestaetigte p now symbol s = unbestaetigte_aus p now symbol s (po_read p s verzeichnis)"

text \<open>First the entry, then the line of the directory.\<close>

definition festschreiben_rumpf ::
  "'s port \<Rightarrow> outbox_eintrag \<Rightarrow> real \<Rightarrow> 's \<Rightarrow> 's \<times> (py_error + bool)" where
  "festschreiben_rumpf p e now s =
     (case oe_client_order_id e of
        JStr coid \<Rightarrow>
          if po_get p s now (ob_key coid) \<noteq> None then (s, Inr True)
          else (fst (po_append p
                  (po_set p s now (ob_key coid) (als_json (e\<lparr>oe_zustand := JStr ''offen''\<rparr>)) None)
                  verzeichnis (Text coid) None), Inr True)
      | _ \<Rightarrow> (s, Inl TypeError))"

definition festschreiben ::
  "'s port \<Rightarrow> 's umfeld \<Rightarrow> outbox_eintrag \<Rightarrow> 's \<Rightarrow> 's \<times> (py_error + bool)" where
  "festschreiben p uf e s =
     abschnitt p uf (sperrname (oe_client_order_id e)) (festschreiben_rumpf p e) False s"

text \<open>\<open>felder\<close> replaces further fields of the entry together with its state.\<close>

definition schreibe_fort_rumpf ::
  "'s port \<Rightarrow> jval \<Rightarrow> string \<Rightarrow> (outbox_eintrag \<Rightarrow> outbox_eintrag) \<Rightarrow> real \<Rightarrow> 's
     \<Rightarrow> 's \<times> (py_error + bool)" where
  "schreibe_fort_rumpf p coid ziel felder now s =
     (case coid of
        JStr c \<Rightarrow>
          (case lese p now c s of
             None \<Rightarrow> (s, Inr False)
           | Some e \<Rightarrow>
               if \<not> hashbar (oe_zustand e) then (s, Inl TypeError)
               else if rang (JStr ziel) \<le> rang (oe_zustand e) then (s, Inr (oe_zustand e = JStr ziel))
               else (po_set p s now (ob_key c) (als_json (felder (e\<lparr>oe_zustand := JStr ziel\<rparr>))) None,
                     Inr True))
      | _ \<Rightarrow> (s, Inl TypeError))"

definition schreibe_fort ::
  "'s port \<Rightarrow> 's umfeld \<Rightarrow> jval \<Rightarrow> string \<Rightarrow> (outbox_eintrag \<Rightarrow> outbox_eintrag) \<Rightarrow> 's
     \<Rightarrow> 's \<times> (py_error + bool)" where
  "schreibe_fort p uf coid ziel felder s =
     abschnitt p uf (sperrname coid) (schreibe_fort_rumpf p coid ziel felder) False s"

definition als_abgesendet :: "'s port \<Rightarrow> 's umfeld \<Rightarrow> jval \<Rightarrow> 's \<Rightarrow> 's \<times> (py_error + bool)" where
  "als_abgesendet p uf coid s = schreibe_fort p uf coid ''abgesendet'' (\<lambda>e. e) s"

definition als_bestaetigt ::
  "'s port \<Rightarrow> 's umfeld \<Rightarrow> jval \<Rightarrow> string \<Rightarrow> 's \<Rightarrow> 's \<times> (py_error + bool)" where
  "als_bestaetigt p uf coid broker_order_id s =
     schreibe_fort p uf coid ''bestaetigt'' (\<lambda>e. e\<lparr>oe_broker_order_id := JStr broker_order_id\<rparr>) s"

definition als_verworfen ::
  "'s port \<Rightarrow> 's umfeld \<Rightarrow> jval \<Rightarrow> string \<Rightarrow> 's \<Rightarrow> 's \<times> (py_error + bool)" where
  "als_verworfen p uf coid grund s =
     schreibe_fort p uf coid ''verworfen'' (\<lambda>e. e\<lparr>oe_grund := JStr grund\<rparr>) s"

text \<open>Cleaning up goes over the lines read at the start and stops at the first that is not done.\<close>

fun raeume :: "'s port \<Rightarrow> real \<Rightarrow> wert list \<Rightarrow> 's \<Rightarrow> nat \<Rightarrow> 's \<times> (py_error + nat)" where
  "raeume p now [] s n = (s, Inr n)"
| "raeume p now (w # ws) s n =
     (let weg = (\<lambda>s. fst (po_delete p (fst (po_pop p s verzeichnis)) (ob_key (zeile w))))
      in case po_get p s now (ob_key (zeile w)) of
           None \<Rightarrow> raeume p now ws (weg s) (Suc n)
         | Some roh \<Rightarrow>
             (case aus_json roh of
                None \<Rightarrow> (s, Inr n)
              | Some e \<Rightarrow>
                  if \<not> hashbar (oe_zustand e) then (s, Inl TypeError)
                  else if \<not> erledigt (oe_zustand e) then (s, Inr n)
                  else raeume p now ws (weg s) (Suc n)))"

definition aufraeumen :: "'s port \<Rightarrow> 's umfeld \<Rightarrow> 's \<Rightarrow> 's \<times> (py_error + nat)" where
  "aufraeumen p uf s =
     abschnitt p uf ''verzeichnis'' (\<lambda>now s. raeume p now (po_read p s verzeichnis) s 0) 0 s"

section \<open>Restart\<close>

definition alle_eintraege :: "'s port \<Rightarrow> real \<Rightarrow> 's \<Rightarrow> outbox_eintrag list" where
  "alle_eintraege p now s = List.map_filter (\<lambda>w. lese p now (zeile w) s) (po_read p s verzeichnis)"

text \<open>\<open>offener_intent\<close> over the store of the data directory: the youngest not discarded intent.\<close>

definition offener_intent :: "'s port \<Rightarrow> real \<Rightarrow> jval \<Rightarrow> 's \<Rightarrow> outbox_eintrag option" where
  "offener_intent p now symbol s =
     (let kandidaten = filter (\<lambda>e. oe_symbol e = symbol \<and> oe_zustand e \<noteq> JStr ''verworfen'')
                         (alle_eintraege p now s)
      in if kandidaten = [] then None else Some (last kandidaten))"

record abgleich_bericht =
  ab_bestaetigt :: nat
  ab_verworfen :: nat
  ab_ungeklaert :: nat
  ab_fremd :: nat

text \<open>
  What the broker says to a key: it knows the order, with its id; it answers 404; or the lookup
  fails otherwise.
\<close>

datatype auskunft = Bekannt string | Unbekannt | Fehler

text \<open>The reason of a discarded intent; the dash of the source is written with two hyphens.\<close>

definition nie_nachgesendet :: string where
  "nie_nachgesendet = ''nach Neustart nicht beim Broker -- nie nachgesendet (#3449)''"

definition ob_konto :: "outbox_eintrag \<Rightarrow> jval" where
  "ob_konto e = (if jtruthy (oe_user_id e) then oe_user_id e else JStr ''global'')"

definition ist_fremd :: "jval set option \<Rightarrow> outbox_eintrag \<Rightarrow> py_error + bool" where
  "ist_fremd konten e =
     (case konten of
        None \<Rightarrow> Inr False
      | Some ks \<Rightarrow> if hashbar (ob_konto e) then Inr (ob_konto e \<notin> ks) else Inl TypeError)"

text \<open>One intent of this account: the answer of the broker decides, and every other error leaves it.\<close>

definition gleiche_ab ::
  "'s port \<Rightarrow> 's umfeld \<Rightarrow> (jval \<Rightarrow> auskunft) \<Rightarrow> outbox_eintrag \<Rightarrow> 's \<Rightarrow> abgleich_bericht
     \<Rightarrow> 's \<times> (py_error + abgleich_bericht)" where
  "gleiche_ab p uf client e s b =
     (case client (oe_client_order_id e) of
        Unbekannt \<Rightarrow>
          (case als_verworfen p uf (oe_client_order_id e) nie_nachgesendet s of
             (s', Inl err) \<Rightarrow> (s', Inl err)
           | (s', Inr _) \<Rightarrow> (s', Inr (b\<lparr>ab_verworfen := Suc (ab_verworfen b)\<rparr>)))
      | Fehler \<Rightarrow> (s, Inr (b\<lparr>ab_ungeklaert := Suc (ab_ungeklaert b)\<rparr>))
      | Bekannt order_id \<Rightarrow>
          (case als_bestaetigt p uf (oe_client_order_id e) order_id s of
             (s', Inl err) \<Rightarrow> (s', Inl err)
           | (s', Inr _) \<Rightarrow> (s', Inr (b\<lparr>ab_bestaetigt := Suc (ab_bestaetigt b)\<rparr>))))"

fun abgleich_schleife ::
  "'s port \<Rightarrow> (nat \<Rightarrow> 's umfeld) \<Rightarrow> (jval \<Rightarrow> auskunft) \<Rightarrow> jval set option \<Rightarrow> outbox_eintrag list \<Rightarrow> nat
     \<Rightarrow> 's \<Rightarrow> abgleich_bericht \<Rightarrow> 's \<times> (py_error + abgleich_bericht)" where
  "abgleich_schleife p ufs client konten [] n s b = (s, Inr b)"
| "abgleich_schleife p ufs client konten (e # es) n s b =
     (case ist_fremd konten e of
        Inl err \<Rightarrow> (s, Inl err)
      | Inr True \<Rightarrow> abgleich_schleife p ufs client konten es (Suc n) s (b\<lparr>ab_fremd := Suc (ab_fremd b)\<rparr>)
      | Inr False \<Rightarrow>
          (case gleiche_ab p (ufs n) client e s b of
             (s', Inl err) \<Rightarrow> (s', Inl err)
           | (s', Inr b') \<Rightarrow> abgleich_schleife p ufs client konten es (Suc n) s' b'))"

definition abgleichen ::
  "'s port \<Rightarrow> real \<Rightarrow> (nat \<Rightarrow> 's umfeld) \<Rightarrow> (jval \<Rightarrow> auskunft) \<Rightarrow> jval set option \<Rightarrow> 's
     \<Rightarrow> 's \<times> (py_error + abgleich_bericht)" where
  "abgleichen p now ufs client konten s =
     (case unbestaetigte p now None s of
        Inl err \<Rightarrow> (s, Inl err)
      | Inr es \<Rightarrow> abgleich_schleife p ufs client konten es 0 s
                    \<lparr>ab_bestaetigt = 0, ab_verworfen = 0, ab_ungeklaert = 0, ab_fremd = 0\<rparr>)"


section \<open>Entries, round trip\<close>

text \<open>What is written is read back, field by field.\<close>

lemma aus_json_als_json [simp]: "aus_json (als_json e) = Some e"
  by (simp add: aus_json_def als_json_def Let_def)

lemma ob_key_inj [simp]: "ob_key c = ob_key c' \<longleftrightarrow> c = c'"
  by (simp add: ob_key_def)

lemma ob_daten [simp]: "daten_key (ob_key c)" "daten_key verzeichnis"
  by (simp_all add: daten_key_def ob_key_def verzeichnis_def lock_prefix_def startswith_def)

lemma rang_ziel: "z \<in> {''abgesendet'', ''bestaetigt'', ''verworfen''} \<Longrightarrow> 0 < rang (JStr z)"
  by (auto simp: rang_def)

lemma erledigt_rang: "erledigt z \<longleftrightarrow> rang z = 2"
  by (auto simp: erledigt_def rang_def)

lemma rang_le: "rang z \<le> 2"
  by (simp add: rang_def)

text \<open>The identity of an intent: everything but its state and what is reported with it.\<close>

definition kern :: "outbox_eintrag \<Rightarrow> jval list" where
  "kern e = [oe_decision_id e, oe_leg e, oe_client_order_id e, oe_symbol e, oe_side e, oe_qty e,
     oe_user_id e]"

lemma kern_update [simp]: "kern (e\<lparr>oe_zustand := z\<rparr>) = kern e"
  "kern (e\<lparr>oe_broker_order_id := z\<rparr>) = kern e" "kern (e\<lparr>oe_grund := z\<rparr>) = kern e"
  by (simp_all add: kern_def)

section \<open>Invariant and progress\<close>

text \<open>
  \<open>ob_inv\<close>: the port's own invariant, entries without an expiry, hashable states, and every entry
  that is not done is listed in the directory. A store in which nobody wrote yet has it.
\<close>

definition ob_inv :: "'s port \<Rightarrow> ('s \<Rightarrow> bool) \<Rightarrow> 's \<Rightarrow> bool" where
  "ob_inv p pinv s \<longleftrightarrow> pinv s \<and>
     (\<forall>c t t'. po_get p s t (ob_key c) = po_get p s t' (ob_key c)) \<and>
     (\<forall>c t w. po_get p s t (ob_key c) = Some w \<longrightarrow>
        (\<exists>e. aus_json w = Some e \<and> hashbar (oe_zustand e) \<and> oe_client_order_id e = JStr c \<and>
           (\<not> erledigt (oe_zustand e) \<longrightarrow> Text c \<in> set (po_read p s verzeichnis))))"

text \<open>\<open>vorwaerts\<close>: no intent changes its identity or goes backwards; only what is done may go.\<close>

definition vorwaerts :: "'s port \<Rightarrow> 's \<Rightarrow> 's \<Rightarrow> bool" where
  "vorwaerts p s s' \<longleftrightarrow>
     (\<forall>c e. lese p 0 c s = Some e \<longrightarrow>
        (case lese p 0 c s' of
           None \<Rightarrow> erledigt (oe_zustand e)
         | Some e' \<Rightarrow> kern e' = kern e \<and>
             (oe_zustand e' = oe_zustand e \<or> rang (oe_zustand e) < rang (oe_zustand e'))))"

text \<open>Nobody else writes while an operation waits for its lock.\<close>

definition ruhig :: "'s umfeld \<Rightarrow> bool" where
  "ruhig uf \<longleftrightarrow> (\<forall>i s. uf_andere uf i s = s)"

text \<open>The same data and queues; locks may differ.\<close>

definition daten_gleich :: "'s port \<Rightarrow> ('s \<Rightarrow> bool) \<Rightarrow> 's \<Rightarrow> 's \<Rightarrow> bool" where
  "daten_gleich p pinv s s' \<longleftrightarrow>
     (\<forall>t k. daten_key k \<longrightarrow> po_get p s' t k = po_get p s t k) \<and> (\<forall>k. po_read p s' k = po_read p s k) \<and>
     (pinv s \<longrightarrow> pinv s')"

lemma daten_gleich_refl [simp]: "daten_gleich p pinv s s"
  by (simp add: daten_gleich_def)

lemma daten_gleich_trans: "daten_gleich p pinv s s1 \<Longrightarrow> daten_gleich p pinv s1 s2 \<Longrightarrow> daten_gleich p pinv s s2"
  by (auto simp: daten_gleich_def)

lemma daten_gleich_inv: "daten_gleich p pinv s s' \<Longrightarrow> ob_inv p pinv s \<Longrightarrow> ob_inv p pinv s'"
  by (simp add: daten_gleich_def ob_inv_def)

lemma ob_inv_lese:
  assumes "ob_inv p pinv s" "lese p t c s = Some e"
  shows "hashbar (oe_zustand e) \<and> oe_client_order_id e = JStr c \<and>
    (\<not> erledigt (oe_zustand e) \<longrightarrow> Text c \<in> set (po_read p s verzeichnis))"
proof -
  from assms(2) obtain w where w: "po_get p s t (ob_key c) = Some w" "aus_json w = Some e"
    by (auto simp: lese_def split: option.splits)
  with assms(1) obtain e' where "aus_json w = Some e'" "hashbar (oe_zustand e')"
    "oe_client_order_id e' = JStr c" "\<not> erledigt (oe_zustand e') \<longrightarrow> Text c \<in> set (po_read p s verzeichnis)"
    unfolding ob_inv_def by blast
  with w(2) show ?thesis by simp
qed

lemma ob_inv_zeitlos: "ob_inv p pinv s \<Longrightarrow> lese p t c s = lese p t' c s"
  unfolding ob_inv_def lese_def by metis

lemma daten_gleich_lese: "daten_gleich p pinv s s' \<Longrightarrow> lese p t c s' = lese p t c s"
  by (simp add: daten_gleich_def lese_def)

lemma daten_gleich_vorwaerts:
  "daten_gleich p pinv s s1 \<Longrightarrow> vorwaerts p s1 s2 \<Longrightarrow> daten_gleich p pinv s2 s' \<Longrightarrow> vorwaerts p s s'"
  by (simp add: vorwaerts_def daten_gleich_lese)

lemma vorwaerts_refl [simp]: "vorwaerts p s s"
  by (simp add: vorwaerts_def)

context engine_state
begin

lemma acquire_gleich: "po_acquire p s now l = (s', b) \<Longrightarrow> daten_gleich p inv s s'"
  using get_acquire [of _ s now l] read_acquire [of s now l] inv_acquire [of s now l]
  by (simp add: daten_gleich_def)

lemma release_gleich: "daten_gleich p inv s (fst (po_release p s l))"
  using get_release [of _ s l] read_release [of s l] inv_release [of s l]
  by (simp add: daten_gleich_def)

lemma aenter_gleich: "ruhig uf \<Longrightarrow> aenter p uf l is s = (s', r) \<Longrightarrow> daten_gleich p inv s s'"
proof (induction "is" arbitrary: s)
  case (Cons i "is")
  obtain s1 ok where acq: "po_acquire p s (uf_zeit uf i) l = (s1, ok)" by fastforce
  with Cons.prems have "if ok then s' = s1 else aenter p uf l is s1 = (s', r)"
    by (auto simp: ruhig_def)
  with Cons.IH [of s1] Cons.prems(1) acquire_gleich [OF acq] daten_gleich_trans show ?case
    by (cases ok) auto
qed simp

text \<open>A section either does not happen, or is its body between two stores with the same data.\<close>

lemma abschnittE:
  assumes "abschnitt p uf name rumpf ohne s = (s', r)" "ruhig uf"
  obtains (nicht) "daten_gleich p inv s s'" "r = Inr ohne"
  | (drin) s1 s2 now where "daten_gleich p inv s s1" "rumpf now s1 = (s2, r)" "daten_gleich p inv s2 s'"
proof -
  obtain s1 a where en: "aenter p uf (ob_sperre uf name) [0..<sperrversuche] s = (s1, a)" by fastforce
  note gl = aenter_gleich [OF assms(2) en]
  show thesis
  proof (cases a)
    case None
    with assms(1) en gl nicht show thesis by (simp add: abschnitt_def)
  next
    case (Some now)
    obtain s2 r2 where "rumpf now s1 = (s2, r2)" by fastforce
    with Some assms(1) en gl release_gleich [of s2 "ob_sperre uf name"] show thesis
      by (intro drin [of s1 now s2]) (auto simp: abschnitt_def)
  qed
qed

text \<open>An operation whose body keeps the invariant and goes forward does so as a whole.\<close>

lemma abschnitt_keeps:
  assumes "ruhig uf" "ob_inv p inv s"
    and "\<And>now s1 s2 r. ob_inv p inv s1 \<Longrightarrow> rumpf now s1 = (s2, r) \<Longrightarrow> ob_inv p inv s2 \<and> vorwaerts p s1 s2"
  shows "ob_inv p inv (fst (abschnitt p uf name rumpf ohne s)) \<and>
    vorwaerts p s (fst (abschnitt p uf name rumpf ohne s))"
proof (rule abschnittE [of uf name rumpf ohne s "fst (abschnitt p uf name rumpf ohne s)"
      "snd (abschnitt p uf name rumpf ohne s)"])
  let ?s' = "fst (abschnitt p uf name rumpf ohne s)"
  show "abschnitt p uf name rumpf ohne s = (?s', snd (abschnitt p uf name rumpf ohne s))" by simp
  show "ruhig uf" by fact
next
  let ?s' = "fst (abschnitt p uf name rumpf ohne s)"
  assume nicht: "daten_gleich p inv s ?s'"
  from daten_gleich_inv [OF nicht assms(2)]
    daten_gleich_vorwaerts [OF nicht vorwaerts_refl daten_gleich_refl [of p inv]]
  show ?thesis by blast
next
  let ?s' = "fst (abschnitt p uf name rumpf ohne s)"
  fix s1 s2 now
  assume drin: "daten_gleich p inv s s1" "rumpf now s1 = (s2, snd (abschnitt p uf name rumpf ohne s))"
    "daten_gleich p inv s2 ?s'"
  from daten_gleich_inv [OF drin(1) assms(2)] assms(3) [OF _ drin(2)]
  have "ob_inv p inv s2" "vorwaerts p s1 s2" by blast+
  with daten_gleich_inv [OF drin(3)] daten_gleich_vorwaerts [OF drin(1) _ drin(3)]
  show ?thesis by blast
qed

text \<open>Writing one listed entry keeps the invariant.\<close>

lemma ob_inv_update:
  assumes old: "ob_inv p inv s" and "inv s'"
    and get: "\<And>t k. po_get p s' t k = (if k = ob_key c then Some (als_json e) else po_get p s t k)"
    and read: "set (po_read p s verzeichnis) \<subseteq> set (po_read p s' verzeichnis)"
    and e: "hashbar (oe_zustand e)" "oe_client_order_id e = JStr c" "Text c \<in> set (po_read p s' verzeichnis)"
  shows "ob_inv p inv s'"
  unfolding ob_inv_def
proof (intro conjI allI impI)
  show "inv s'" by fact
next
  fix c' t t'
  have "po_get p s t (ob_key c') = po_get p s t' (ob_key c')"
    using old unfolding ob_inv_def by blast
  then show "po_get p s' t (ob_key c') = po_get p s' t' (ob_key c')" by (simp add: get)
next
  fix c' t w
  assume "po_get p s' t (ob_key c') = Some w"
  then show "\<exists>e. aus_json w = Some e \<and> hashbar (oe_zustand e) \<and> oe_client_order_id e = JStr c' \<and>
      (\<not> erledigt (oe_zustand e) \<longrightarrow> Text c' \<in> set (po_read p s' verzeichnis))"
  proof (cases "c' = c")
    case True
    with \<open>po_get p s' t (ob_key c') = Some w\<close> e show ?thesis by (auto simp: get)
  next
    case False
    with \<open>po_get p s' t (ob_key c') = Some w\<close> have "po_get p s t (ob_key c') = Some w" by (simp add: get)
    with old read show ?thesis unfolding ob_inv_def by blast
  qed
qed

lemma festschreiben_rumpf_keeps:
  assumes "ob_inv p inv s" "festschreiben_rumpf p e now s = (s', r)"
  shows "ob_inv p inv s' \<and> vorwaerts p s s'"
proof (cases "s' = s")
  case False
  then obtain c where c: "oe_client_order_id e = JStr c" "po_get p s now (ob_key c) = None"
    using assms(2) by (auto simp: festschreiben_rumpf_def split: jval.splits if_splits)
  let ?w = "als_json (e\<lparr>oe_zustand := JStr ''offen''\<rparr>)"
  let ?s1 = "po_set p s now (ob_key c) ?w None"
  have s': "s' = fst (po_append p ?s1 verzeichnis (Text c) None)"
    using assms(2) c by (simp add: festschreiben_rumpf_def)
  have inv1: "inv ?s1" using assms(1) inv_set by (simp add: ob_inv_def)
  have get: "po_get p s' t k = (if k = ob_key c then Some ?w else po_get p s t k)" for t k
    by (simp add: s' get_append get_set)
  have read: "po_read p s' verzeichnis = po_read p s verzeichnis @ [Text c]"
    by (simp add: s' read_append [OF inv1] read_set)
  have inv': "inv s'" using inv_append [OF inv1] by (simp add: s')
  have "ob_inv p inv s'"
    by (rule ob_inv_update [OF assms(1) inv' get]) (auto simp: read c(1))
  moreover have "po_get p s 0 (ob_key c) = None" using assms(1) c(2) unfolding ob_inv_def by metis
  ultimately show ?thesis by (auto simp: vorwaerts_def lese_def get split: option.split)
qed (use assms in simp)

lemma schreibe_fort_rumpf_keeps:
  assumes "ob_inv p inv s" "schreibe_fort_rumpf p coid ziel felder now s = (s', r)"
    and felder: "\<And>e. kern (felder e) = kern e \<and> oe_zustand (felder e) = oe_zustand e"
    and ziel: "ziel \<in> {''abgesendet'', ''bestaetigt'', ''verworfen''}"
  shows "ob_inv p inv s' \<and> vorwaerts p s s'"
proof (cases "s' = s")
  case False
  then obtain c e where c: "coid = JStr c" and e: "lese p now c s = Some e"
      and r: "rang (oe_zustand e) < rang (JStr ziel)"
      and s': "s' = po_set p s now (ob_key c) (als_json (felder (e\<lparr>oe_zustand := JStr ziel\<rparr>))) None"
    using assms(2)
    by (auto simp: schreibe_fort_rumpf_def split: jval.splits option.splits if_splits)
  let ?e = "felder (e\<lparr>oe_zustand := JStr ziel\<rparr>)"
  have get: "po_get p s' t k = (if k = ob_key c then Some (als_json ?e) else po_get p s t k)" for t k
    by (simp add: s' get_set)
  have read: "po_read p s' verzeichnis = po_read p s verzeichnis" by (simp add: s' read_set)
  have e0: "lese p t c s = Some e" for t
    using e ob_inv_zeitlos [OF assms(1)] by metis
  have ne: "\<not> erledigt (oe_zustand e)" using r rang_le [of "JStr ziel"] by (simp add: erledigt_rang)
  with ob_inv_lese [OF assms(1) e] have id: "oe_client_order_id e = JStr c"
    and listed: "Text c \<in> set (po_read p s verzeichnis)" by blast+
  have "kern ?e = kern e" using felder by simp
  then have "oe_client_order_id ?e = JStr c" using id by (simp add: kern_def)
  moreover have "inv s'" using assms(1) inv_set by (simp add: s' ob_inv_def)
  ultimately have "ob_inv p inv s'"
    by (intro ob_inv_update [OF assms(1) _ get]) (simp_all add: read listed felder)
  moreover have "vorwaerts p s s'"
    using e0 [of 0] r felder \<open>kern ?e = kern e\<close> by (auto simp: vorwaerts_def lese_def get split: option.split)
  ultimately show ?thesis by blast
qed (use assms in simp)

text \<open>One step of the cleanup: the head of the directory and its entry go.\<close>

lemma raeume_weg:
  assumes inv: "ob_inv p inv s" and read: "po_read p s verzeichnis = w # ws"
    and fertig: "\<And>e. lese p 0 (zeile w) s = Some e \<Longrightarrow> erledigt (oe_zustand e)"
  defines "s' \<equiv> fst (po_delete p (fst (po_pop p s verzeichnis)) (ob_key (zeile w)))"
  shows "ob_inv p inv s' \<and> po_read p s' verzeichnis = ws \<and>
    (\<forall>t c. lese p t c s' = (if c = zeile w then None else lese p t c s))"
proof -
  have "inv s" using inv by (simp add: ob_inv_def)
  then have read': "po_read p s' verzeichnis = ws"
    using pop_Some [OF _ read, of verzeichnis] by (simp add: s'_def read_delete)
  have get: "po_get p s' t k = (if k = ob_key (zeile w) then None else po_get p s t k)" for t k
    by (simp add: s'_def get_delete get_pop)
  have "inv s'" using \<open>inv s\<close> inv_pop inv_delete by (simp add: s'_def)
  have "ob_inv p inv s'"
    unfolding ob_inv_def
  proof (intro conjI allI impI)
    show "inv s'" by fact
  next
    fix c t t'
    have "po_get p s t (ob_key c) = po_get p s t' (ob_key c)" using inv unfolding ob_inv_def by blast
    then show "po_get p s' t (ob_key c) = po_get p s' t' (ob_key c)" by (simp add: get)
  next
    fix c t v
    assume "po_get p s' t (ob_key c) = Some v"
    then have "po_get p s t (ob_key c) = Some v" "c \<noteq> zeile w" by (simp_all add: get split: if_splits)
    moreover from \<open>c \<noteq> zeile w\<close> have "Text c \<noteq> w" by auto
    ultimately show "\<exists>e. aus_json v = Some e \<and> hashbar (oe_zustand e) \<and> oe_client_order_id e = JStr c \<and>
        (\<not> erledigt (oe_zustand e) \<longrightarrow> Text c \<in> set (po_read p s' verzeichnis))"
      using inv read read' unfolding ob_inv_def by fastforce
  qed
  with read' get show ?thesis by (simp add: lese_def)
qed

lemma raeume_keeps:
  assumes "ob_inv p inv s" "po_read p s verzeichnis = ws" "raeume p now ws s n = (s', r)"
  shows "ob_inv p inv s' \<and> (\<forall>c. lese p 0 c s' = lese p 0 c s \<or>
    lese p 0 c s' = None \<and> (\<forall>e. lese p 0 c s = Some e \<longrightarrow> erledigt (oe_zustand e)))"
  using assms
proof (induction ws arbitrary: s n)
  case (Cons w ws)
  let ?s1 = "fst (po_delete p (fst (po_pop p s verzeichnis)) (ob_key (zeile w)))"
  have l0: "lese p 0 (zeile w) s = lese p now (zeile w) s" by (rule ob_inv_zeitlos [OF Cons.prems(1)])
  show ?case
  proof (cases "\<forall>e. lese p 0 (zeile w) s = Some e \<longrightarrow> erledigt (oe_zustand e)")
    case True
    note weg = raeume_weg [OF Cons.prems(1,2)]
    have "raeume p now ws ?s1 (Suc n) = (s', r)"
    proof (cases "po_get p s now (ob_key (zeile w))")
      case None
      with Cons.prems(3) show ?thesis by simp
    next
      case (Some roh)
      with Cons.prems(1) obtain e where "aus_json roh = Some e" "hashbar (oe_zustand e)"
        unfolding ob_inv_def by blast
      with Some True l0 Cons.prems(3) show ?thesis by (simp add: lese_def)
    qed
    with Cons.IH [of ?s1 "Suc n"] weg True show ?thesis by (metis (no_types, lifting) option.distinct(1))
  next
    case False
    with l0 obtain e where "lese p now (zeile w) s = Some e" "\<not> erledigt (oe_zustand e)" by auto
    with Cons.prems(3) have "s' = s" by (auto simp: lese_def split: option.splits if_splits)
    with Cons.prems(1) show ?thesis by simp
  qed
qed simp

end

text \<open>The operations of the outbox as steps.\<close>

datatype ob_op = Festschreiben outbox_eintrag | Abgesendet jval | Bestaetigt jval string
  | Verworfen jval string | Aufraeumen

fun ob_tut :: "'s port \<Rightarrow> 's umfeld \<Rightarrow> ob_op \<Rightarrow> 's \<Rightarrow> 's" where
  "ob_tut p uf (Festschreiben e) s = fst (festschreiben p uf e s)"
| "ob_tut p uf (Abgesendet c) s = fst (als_abgesendet p uf c s)"
| "ob_tut p uf (Bestaetigt c b) s = fst (als_bestaetigt p uf c b s)"
| "ob_tut p uf (Verworfen c g) s = fst (als_verworfen p uf c g s)"
| "ob_tut p uf Aufraeumen s = fst (aufraeumen p uf s)"

fun ob_lauf :: "'s port \<Rightarrow> ('s umfeld \<times> ob_op) list \<Rightarrow> 's \<Rightarrow> 's" where
  "ob_lauf p [] s = s"
| "ob_lauf p ((uf, a) # as) s = ob_lauf p as (ob_tut p uf a s)"

text \<open>The operations that end the intent of a key.\<close>

definition beendet :: "string \<Rightarrow> ob_op \<Rightarrow> bool" where
  "beendet c a = ((\<exists>b. a = Bestaetigt (JStr c) b) \<or> (\<exists>g. a = Verworfen (JStr c) g))"

context engine_state
begin

lemma schreibe_fort_keeps:
  assumes "ob_inv p inv s" "ruhig uf"
    "\<And>e. kern (felder e) = kern e \<and> oe_zustand (felder e) = oe_zustand e"
    "ziel \<in> {''abgesendet'', ''bestaetigt'', ''verworfen''}"
  shows "ob_inv p inv (fst (schreibe_fort p uf coid ziel felder s)) \<and>
    vorwaerts p s (fst (schreibe_fort p uf coid ziel felder s))"
  unfolding schreibe_fort_def
  by (rule abschnitt_keeps [OF assms(2,1)]) (rule schreibe_fort_rumpf_keeps [OF _ _ assms(3,4)])

lemma festschreiben_keeps:
  assumes "ob_inv p inv s" "ruhig uf"
  shows "ob_inv p inv (fst (festschreiben p uf e s)) \<and> vorwaerts p s (fst (festschreiben p uf e s))"
  unfolding festschreiben_def
  by (rule abschnitt_keeps [OF assms(2,1)]) (rule festschreiben_rumpf_keeps)

lemma aufraeumen_keeps:
  assumes "ob_inv p inv s" "ruhig uf"
  shows "ob_inv p inv (fst (aufraeumen p uf s)) \<and> vorwaerts p s (fst (aufraeumen p uf s))"
  unfolding aufraeumen_def
proof (rule abschnitt_keeps [OF assms(2,1)])
  fix now s1 s2 and r :: "py_error + nat"
  assume "ob_inv p inv s1" "raeume p now (po_read p s1 verzeichnis) s1 0 = (s2, r)"
  note keeps = raeume_keeps [OF this(1) refl this(2)]
  have "case lese p 0 c s2 of None \<Rightarrow> erledigt (oe_zustand e)
      | Some e' \<Rightarrow> kern e' = kern e \<and> (oe_zustand e' = oe_zustand e \<or> rang (oe_zustand e) < rang (oe_zustand e'))"
    if "lese p 0 c s1 = Some e" for c e
    using conjunct2 [OF keeps, rule_format, of c] that by auto
  with keeps show "ob_inv p inv s2 \<and> vorwaerts p s1 s2" unfolding vorwaerts_def by blast
qed

lemma ob_tut_keeps:
  assumes "ob_inv p inv s" "ruhig uf"
  shows "ob_inv p inv (ob_tut p uf a s) \<and> vorwaerts p s (ob_tut p uf a s)"
  by (cases a) (simp_all add: als_abgesendet_def als_bestaetigt_def als_verworfen_def
      schreibe_fort_keeps [OF assms] festschreiben_keeps [OF assms] aufraeumen_keeps [OF assms])

text \<open>A report about one intent leaves the entries of all others alone.\<close>

lemma schreibe_fort_others:
  assumes "ob_inv p inv s" "ruhig uf" "coid \<noteq> JStr c"
  shows "lese p t c (fst (schreibe_fort p uf coid ziel felder s)) = lese p t c s"
proof -
  obtain s' r where run: "schreibe_fort p uf coid ziel felder s = (s', r)" by fastforce
  from run [unfolded schreibe_fort_def] assms(2) show ?thesis
  proof (cases rule: abschnittE)
    case nicht
    with run daten_gleich_lese [OF nicht(1)] show ?thesis by simp
  next
    case (drin s1 s2 now)
    have "lese p t c s2 = lese p t c s1"
      using drin(2) assms(3)
      by (auto simp: schreibe_fort_rumpf_def lese_def get_set split: jval.splits option.splits if_splits)
    with run daten_gleich_lese [OF drin(1)] daten_gleich_lese [OF drin(3)] show ?thesis by simp
  qed
qed

text \<open>Reports do not touch the directory.\<close>

lemma schreibe_fort_read:
  assumes "ruhig uf"
  shows "po_read p (fst (schreibe_fort p uf coid ziel felder s)) k = po_read p s k"
proof -
  obtain s' r where run: "schreibe_fort p uf coid ziel felder s = (s', r)" by fastforce
  from run [unfolded schreibe_fort_def] assms show ?thesis
  proof (cases rule: abschnittE)
    case nicht
    with run show ?thesis by (simp add: daten_gleich_def)
  next
    case (drin s1 s2 now)
    have "po_read p s2 k = po_read p s1 k"
      using drin(2) by (auto simp: schreibe_fort_rumpf_def read_set split: jval.splits option.splits if_splits)
    with run drin(1,3) show ?thesis by (simp add: daten_gleich_def)
  qed
qed

text \<open>What a report does to its own intent.\<close>

lemma schreibe_fort_own:
  assumes "ob_inv p inv s" "ruhig uf" "lese p t c s = Some e"
  shows "lese p t c (fst (schreibe_fort p uf (JStr c) ziel felder s)) \<in>
    {Some e, if rang (oe_zustand e) < rang (JStr ziel) then Some (felder (e\<lparr>oe_zustand := JStr ziel\<rparr>)) else Some e}"
proof -
  obtain s' r where run: "schreibe_fort p uf (JStr c) ziel felder s = (s', r)" by fastforce
  from run [unfolded schreibe_fort_def] assms(2) show ?thesis
  proof (cases rule: abschnittE)
    case nicht
    with run assms(3) daten_gleich_lese [OF nicht(1)] show ?thesis by simp
  next
    case (drin s1 s2 now)
    have e: "lese p t' c s1 = Some e" for t'
      using assms(3) daten_gleich_lese [OF drin(1)] ob_inv_zeitlos [OF assms(1)] by metis
    with drin(2) have "lese p t c s2 \<in> {Some e,
        if rang (oe_zustand e) < rang (JStr ziel) then Some (felder (e\<lparr>oe_zustand := JStr ziel\<rparr>)) else Some e}"
      by (auto simp: schreibe_fort_rumpf_def split: if_splits) (simp add: lese_def get_set)
    with run daten_gleich_lese [OF drin(3)] show ?thesis by simp
  qed
qed

end

section \<open>What a restart finds\<close>

text \<open>Over a store with the invariant the reading of the directory raises nothing.\<close>

lemma unbestaetigte_aus_spec:
  assumes "ob_inv p pinv s"
  shows "\<exists>es. unbestaetigte_aus p now symbol s ws = Inr es \<and>
    set es = {e. \<exists>w \<in> set ws. lese p now (zeile w) s = Some e \<and> \<not> erledigt (oe_zustand e) \<and>
                 (symbol = None \<or> symbol = Some (oe_symbol e))}"
proof (induction ws)
  case (Cons w ws)
  then obtain es where es: "unbestaetigte_aus p now symbol s ws = Inr es"
    "set es = {e. \<exists>w \<in> set ws. lese p now (zeile w) s = Some e \<and> \<not> erledigt (oe_zustand e) \<and>
       (symbol = None \<or> symbol = Some (oe_symbol e))}" by blast
  show ?case
  proof (cases "lese p now (zeile w) s")
    case None
    with es show ?thesis by simp
  next
    case (Some e)
    with ob_inv_lese [OF assms] have "hashbar (oe_zustand e)" by blast
    with Some es show ?thesis by auto
  qed
qed simp

lemma unbestaetigte_finds:
  assumes "ob_inv p pinv s" "lese p now c s = Some e" "\<not> erledigt (oe_zustand e)"
  shows "\<exists>es. unbestaetigte p now None s = Inr es \<and> e \<in> set es"
proof -
  from ob_inv_lese [OF assms(1,2)] assms(3) have "Text c \<in> set (po_read p s verzeichnis)" by blast
  with unbestaetigte_aus_spec [OF assms(1), of now None "po_read p s verzeichnis"] assms(2,3)
  show ?thesis unfolding unbestaetigte_def by (metis (mono_tags, lifting) mem_Collect_eq zeile.simps(1))
qed

context engine_state
begin

text \<open>What a section does to one entry is what its body does to it.\<close>

lemma abschnitt_lese:
  assumes "ruhig uf" "ob_inv p inv s" "Q (lese p t c s) (lese p t c s)"
    and "\<And>now s1 s2 r. ob_inv p inv s1 \<Longrightarrow> rumpf now s1 = (s2, r) \<Longrightarrow> lese p t c s1 = lese p t c s \<Longrightarrow>
      Q (lese p t c s) (lese p t c s2)"
  shows "Q (lese p t c s) (lese p t c (fst (abschnitt p uf name rumpf ohne s)))"
proof -
  obtain s' r where run: "abschnitt p uf name rumpf ohne s = (s', r)" by fastforce
  from run assms(1) show ?thesis
  proof (cases rule: abschnittE)
    case nicht
    with run assms(3) daten_gleich_lese [OF nicht(1)] show ?thesis by simp
  next
    case (drin s1 s2 now)
    from assms(4) [OF daten_gleich_inv [OF drin(1) assms(2)] drin(2) daten_gleich_lese [OF drin(1)]]
    show ?thesis using run daten_gleich_lese [OF drin(3)] by simp
  qed
qed

lemma festschreiben_existing:
  assumes "ob_inv p inv s" "ruhig uf" "lese p t c s = Some e"
  shows "lese p t c (fst (festschreiben p uf e' s)) = Some e"
  unfolding festschreiben_def
proof (rule abschnitt_lese [OF assms(2,1), where Q = "\<lambda>_ x. x = Some e"])
  fix now s1 s2 r
  assume i: "ob_inv p inv s1" and run: "festschreiben_rumpf p e' now s1 = (s2, r)"
    and l: "lese p t c s1 = lese p t c s"
  from l assms(3) ob_inv_zeitlos [OF i, of now c t] have "po_get p s1 now (ob_key c) \<noteq> None"
    by (auto simp: lese_def split: option.splits)
  with run l assms(3) show "lese p t c s2 = Some e"
    by (auto simp: festschreiben_rumpf_def lese_def get_append get_set split: jval.splits if_splits)
qed (fact assms)

lemma aufraeumen_offen:
  assumes "ob_inv p inv s" "ruhig uf" "lese p 0 c s = Some e" "\<not> erledigt (oe_zustand e)"
  shows "lese p 0 c (fst (aufraeumen p uf s)) = Some e"
  unfolding aufraeumen_def
proof (rule abschnitt_lese [OF assms(2,1), where Q = "\<lambda>_ x. x = Some e"])
  fix now s1 s2 and r :: "py_error + nat"
  assume "ob_inv p inv s1" "raeume p now (po_read p s1 verzeichnis) s1 0 = (s2, r)"
    "lese p 0 c s1 = lese p 0 c s"
  with raeume_keeps [OF this(1) refl this(2)] assms(3,4) show "lese p 0 c s2 = Some e" by metis
qed (fact assms)

text \<open>Only its own end takes an open intent away.\<close>

lemma ob_tut_offen:
  assumes "ob_inv p inv s" "ruhig uf" "lese p 0 c s = Some e" "\<not> erledigt (oe_zustand e)" "\<not> beendet c a"
  shows "\<exists>e'. lese p 0 c (ob_tut p uf a s) = Some e' \<and> \<not> erledigt (oe_zustand e') \<and> kern e' = kern e"
proof (cases a)
  case (Festschreiben e')
  then show ?thesis using festschreiben_existing [OF assms(1-3)] assms(4) by simp
next
  case Aufraeumen
  then show ?thesis using aufraeumen_offen [OF assms(1-4)] assms(4) by simp
next
  case (Abgesendet c')
  show ?thesis
  proof (cases "c' = JStr c")
    case True
    have "\<not> erledigt (JStr ''abgesendet'')" by (simp add: erledigt_def)
    with schreibe_fort_own [OF assms(1-3), of "''abgesendet''" "\<lambda>e. e"] True Abgesendet assms(4)
    show ?thesis by (auto simp: als_abgesendet_def split: if_splits)
  next
    case False
    with Abgesendet schreibe_fort_others [OF assms(1,2) False] assms(3,4) show ?thesis
      by (simp add: als_abgesendet_def)
  qed
next
  case (Bestaetigt c' b)
  with assms(5) have "c' \<noteq> JStr c" by (auto simp: beendet_def)
  with Bestaetigt schreibe_fort_others [OF assms(1,2)] assms(3,4) show ?thesis
    by (simp add: als_bestaetigt_def)
next
  case (Verworfen c' g)
  with assms(5) have "c' \<noteq> JStr c" by (auto simp: beendet_def)
  with Verworfen schreibe_fort_others [OF assms(1,2)] assms(3,4) show ?thesis
    by (simp add: als_verworfen_def)
qed

lemma ob_lauf_offen:
  assumes "ob_inv p inv s" "lese p 0 c s = Some e" "\<not> erledigt (oe_zustand e)"
    "\<forall>(uf, a) \<in> set as. ruhig uf \<and> \<not> beendet c a"
  shows "ob_inv p inv (ob_lauf p as s) \<and>
    (\<exists>e'. lese p 0 c (ob_lauf p as s) = Some e' \<and> \<not> erledigt (oe_zustand e') \<and> kern e' = kern e)"
  using assms
proof (induction "as" arbitrary: s e)
  case (Cons x as)
  obtain uf a where x: "x = (uf, a)" by (cases x)
  with Cons.prems have ok: "ruhig uf" "\<not> beendet c a" by auto
  from ob_tut_offen [OF Cons.prems(1) ok(1) Cons.prems(2,3) ok(2)] obtain e1 where
    e1: "lese p 0 c (ob_tut p uf a s) = Some e1" "\<not> erledigt (oe_zustand e1)" "kern e1 = kern e" by blast
  have "ob_inv p inv (ob_tut p uf a s)" using ob_tut_keeps [OF Cons.prems(1) ok(1)] by blast
  from Cons.IH [OF this e1(1,2)] Cons.prems(4) e1(3) x show ?case by auto
qed auto

lemma festschreiben_writes:
  assumes "ob_inv p inv s" "ruhig uf" "festschreiben p uf e s = (s', Inr True)"
    "oe_client_order_id e = JStr c" "lese p 0 c s = None"
  shows "lese p 0 c s' = Some (e\<lparr>oe_zustand := JStr ''offen''\<rparr>)"
  using assms(3) [unfolded festschreiben_def] assms(2)
proof (cases rule: abschnittE)
  case (drin s1 s2 now)
  have i: "ob_inv p inv s1" by (rule daten_gleich_inv [OF drin(1) assms(1)])
  have "po_get p s1 now (ob_key c) = None"
  proof (rule ccontr)
    assume "po_get p s1 now (ob_key c) \<noteq> None"
    then obtain w where "po_get p s1 now (ob_key c) = Some w" by blast
    with i obtain e' where "lese p now c s1 = Some e'" unfolding ob_inv_def lese_def by fastforce
    with ob_inv_zeitlos [OF i, of now c 0] daten_gleich_lese [OF drin(1), of 0 c] assms(5) show False by simp
  qed
  with drin(2) assms(4) have "lese p 0 c s2 = Some (e\<lparr>oe_zustand := JStr ''offen''\<rparr>)"
    by (auto simp: festschreiben_rumpf_def lese_def get_append get_set)
  with daten_gleich_lese [OF drin(3)] show ?thesis by simp
qed simp

end

section \<open>What the reconciliation does\<close>

text \<open>The changes the broker's answer allows to an intent.\<close>

definition abgeglichen :: "(jval \<Rightarrow> auskunft) \<Rightarrow> string \<Rightarrow> outbox_eintrag \<Rightarrow> outbox_eintrag \<Rightarrow> bool" where
  "abgeglichen client c e e' \<longleftrightarrow> e' = e \<or>
     \<not> erledigt (oe_zustand e) \<and>
     (client (JStr c) = Unbekannt \<and>
        e' = e\<lparr>oe_zustand := JStr ''verworfen'', oe_grund := JStr nie_nachgesendet\<rparr> \<or>
      (\<exists>order_id. client (JStr c) = Bekannt order_id \<and>
        e' = e\<lparr>oe_zustand := JStr ''bestaetigt'', oe_broker_order_id := JStr order_id\<rparr>))"

lemma abgeglichen_erledigt: "abgeglichen client c e e1 \<Longrightarrow> erledigt (oe_zustand e) \<Longrightarrow> e1 = e"
  unfolding abgeglichen_def by blast

lemma abgeglichen_neq:
  assumes "abgeglichen client c e e1" "e1 \<noteq> e"
  shows "erledigt (oe_zustand e1)"
proof -
  from assms have "oe_zustand e1 = JStr ''verworfen'' \<or> oe_zustand e1 = JStr ''bestaetigt''"
    unfolding abgeglichen_def by (elim disjE conjE exE) simp_all
  then show ?thesis by (auto simp: erledigt_def)
qed

lemma abgeglichen_trans:
  "abgeglichen client c e e1 \<Longrightarrow> abgeglichen client c e1 e2 \<Longrightarrow> abgeglichen client c e e2"
  using abgeglichen_neq abgeglichen_erledigt by metis

lemma rang_erledigt: "rang z < rang (JStr ''verworfen'') \<longleftrightarrow> \<not> erledigt z"
  "rang z < rang (JStr ''bestaetigt'') \<longleftrightarrow> \<not> erledigt z"
  by (auto simp: rang_def erledigt_def)

context engine_state
begin

lemma gleiche_ab_entry:
  assumes "ob_inv p inv s" "ruhig uf" "lese p 0 c s = Some e" "gleiche_ab p uf client x s b = (s', r)"
  shows "ob_inv p inv s' \<and> (\<exists>e'. lese p 0 c s' = Some e' \<and> abgeglichen client c e e')"
proof (cases "client (oe_client_order_id x)")
  case Unbekannt
  then have s': "s' = fst (als_verworfen p uf (oe_client_order_id x) nie_nachgesendet s)"
    using assms(4) by (auto simp: gleiche_ab_def split: prod.splits sum.splits)
  have "ob_inv p inv s'"
    unfolding s' als_verworfen_def by (rule conjunct1 [OF schreibe_fort_keeps [OF assms(1,2)]]) simp_all
  moreover have "\<exists>e'. lese p 0 c s' = Some e' \<and> abgeglichen client c e e'"
  proof (cases "oe_client_order_id x = JStr c")
    case True
    note own = schreibe_fort_own [OF assms(1-3), of "''verworfen''" "\<lambda>e. e\<lparr>oe_grund := JStr nie_nachgesendet\<rparr>",
        unfolded rang_erledigt]
    from own True Unbekannt show ?thesis
      by (cases "erledigt (oe_zustand e)") (auto simp: s' als_verworfen_def abgeglichen_def)
  next
    case False
    with schreibe_fort_others [OF assms(1,2) False] assms(3) show ?thesis
      by (simp add: s' als_verworfen_def abgeglichen_def)
  qed
  ultimately show ?thesis by blast
next
  case Fehler
  with assms show ?thesis by (auto simp: gleiche_ab_def abgeglichen_def)
next
  case (Bekannt oid)
  then have s': "s' = fst (als_bestaetigt p uf (oe_client_order_id x) oid s)"
    using assms(4) by (auto simp: gleiche_ab_def split: prod.splits sum.splits)
  have "ob_inv p inv s'"
    unfolding s' als_bestaetigt_def by (rule conjunct1 [OF schreibe_fort_keeps [OF assms(1,2)]]) simp_all
  moreover have "\<exists>e'. lese p 0 c s' = Some e' \<and> abgeglichen client c e e'"
  proof (cases "oe_client_order_id x = JStr c")
    case True
    note own = schreibe_fort_own [OF assms(1-3), of "''bestaetigt''" "\<lambda>e. e\<lparr>oe_broker_order_id := JStr oid\<rparr>",
        unfolded rang_erledigt]
    from own True Bekannt show ?thesis
      by (cases "erledigt (oe_zustand e)") (auto simp: s' als_bestaetigt_def abgeglichen_def)
  next
    case False
    with schreibe_fort_others [OF assms(1,2) False] assms(3) show ?thesis
      by (simp add: s' als_bestaetigt_def abgeglichen_def)
  qed
  ultimately show ?thesis by blast
qed

lemma abgleich_schleife_entry:
  assumes "ob_inv p inv s" "\<forall>i. ruhig (ufs i)" "lese p 0 c s = Some e"
    "abgleich_schleife p ufs client konten es n s b = (s', r)"
  shows "\<exists>e'. lese p 0 c s' = Some e' \<and> abgeglichen client c e e'"
  using assms
proof (induction es arbitrary: n s b e)
  case Nil
  then show ?case by (simp add: abgeglichen_def)
next
  case (Cons x es)
  show ?case
  proof (cases "ist_fremd konten x")
    case (Inl err)
    with Cons.prems show ?thesis by (simp add: abgeglichen_def)
  next
    case fremd: (Inr f)
    show ?thesis
    proof (cases f)
      case True
      with Cons.prems(4) fremd have "abgleich_schleife p ufs client konten es (Suc n) s
          (b\<lparr>ab_fremd := Suc (ab_fremd b)\<rparr>) = (s', r)" by simp
      from Cons.IH [OF Cons.prems(1,2,3) this] show ?thesis .
    next
      case False
      obtain s1 r1 where one: "gleiche_ab p (ufs n) client x s b = (s1, r1)" by fastforce
      from gleiche_ab_entry [OF Cons.prems(1) _ Cons.prems(3) one] Cons.prems(2) obtain e1 where
        e1: "ob_inv p inv s1" "lese p 0 c s1 = Some e1" "abgeglichen client c e e1" by blast
      show ?thesis
      proof (cases r1)
        case (Inl err)
        with Cons.prems(4) fremd False one e1 show ?thesis by simp
      next
        case (Inr b1)
        with Cons.prems(4) fremd False one
        have "abgleich_schleife p ufs client konten es (Suc n) s1 b1 = (s', r)" by simp
        from Cons.IH [OF e1(1) Cons.prems(2) e1(2) this] e1(3) abgeglichen_trans show ?thesis by blast
      qed
    qed
  qed
qed

end

section \<open>Properties\<close>

lemma ob_inv_empty: "ob_inv sqlite_port store_inv empty_store"
  using store_inv_empty by (simp add: ob_inv_def) (simp add: sq_get_def empty_store_def)

text \<open>
  C2: In a store that only the outbox wrote (each entry that is not done has its line in the directory), and while
  nobody else writes between its steps: an intent whose \<open>festschreiben\<close> answered \<open>True\<close> for a key without an
  earlier entry is found again by every later restart. After any sequence of outbox operations, among them the
  cleanup and reports about other orders, \<open>unbestaetigte\<close> lists an intent with the same decision, key, symbol, side
  and quantity, as long as the intent itself was neither confirmed nor discarded. The entry a crash leaves
  between the two writes breaks the first condition; see \<open>crashed_intent_stays_hidden\<close>.
\<close>

theorem written_intent_is_found:
  assumes "ob_inv sqlite_port store_inv s" "ruhig uf"
    and "festschreiben sqlite_port uf e s = (s1, Inr True)"
    and "oe_client_order_id e = JStr c" "lese sqlite_port 0 c s = None"
    and "\<forall>(uf, a) \<in> set ops. ruhig uf \<and> \<not> beendet c a"
  shows "\<exists>es e'. unbestaetigte sqlite_port now None (ob_lauf sqlite_port ops s1) = Inr es \<and>
    e' \<in> set es \<and> kern e' = kern e"
proof -
  have "ob_inv sqlite_port store_inv s1"
    using sqlite.festschreiben_keeps [OF assms(1,2), of e] assms(3) by simp
  moreover have "lese sqlite_port 0 c s1 = Some (e\<lparr>oe_zustand := JStr ''offen''\<rparr>)"
    by (rule sqlite.festschreiben_writes [OF assms(1-5)])
  moreover have "\<not> erledigt (JStr ''offen'')" by (simp add: erledigt_def)
  ultimately obtain e' where e': "ob_inv sqlite_port store_inv (ob_lauf sqlite_port ops s1)"
    "lese sqlite_port 0 c (ob_lauf sqlite_port ops s1) = Some e'" "\<not> erledigt (oe_zustand e')" "kern e' = kern e"
    using sqlite.ob_lauf_offen [of s1 c "e\<lparr>oe_zustand := JStr ''offen''\<rparr>" ops] assms(6) by auto
  with unbestaetigte_finds [OF e'(1), of now c e'] ob_inv_zeitlos [OF e'(1), of now c 0] show ?thesis by auto
qed

definition bsp_intent :: "string \<Rightarrow> outbox_eintrag" where
  "bsp_intent c = \<lparr>oe_decision_id = JStr ''d1'', oe_leg = JStr ''entry'', oe_client_order_id = JStr c,
     oe_symbol = JStr ''AAPL'', oe_side = JStr ''buy'', oe_qty = JNum 3, oe_user_id = JStr [],
     oe_zustand = JStr ''offen'', oe_broker_order_id = JStr [], oe_grund = JStr []\<rparr>"

definition bsp_umfeld :: "store umfeld" where
  "bsp_umfeld = \<lparr>uf_token = ''t'', uf_zeit = (\<lambda>i. 1000), uf_andere = (\<lambda>i s. s)\<rparr>"

lemma bsp_umfeld_ruhig: "ruhig bsp_umfeld"
  by (simp add: ruhig_def bsp_umfeld_def)

text \<open>A free lock is entered at the first attempt.\<close>

lemma abschnitt_frei:
  assumes "ruhig uf" "st_rows s (lk_key (ob_sperre uf name)) = None"
  defines "s1 \<equiv> s\<lparr>st_rows := (st_rows s)(lk_key (ob_sperre uf name) \<mapsto> lk_row (ob_sperre uf name) (uf_zeit uf 0))\<rparr>"
  shows "abschnitt sqlite_port uf name rumpf ohne s =
    (fst (sq_release (fst (rumpf (uf_zeit uf 0) s1)) (ob_sperre uf name)), snd (rumpf (uf_zeit uf 0) s1))"
proof -
  have "[0..<sperrversuche] = 0 # [1..<sperrversuche]" by (simp add: sperrversuche_def upt_conv_Cons)
  with assms show ?thesis
    by (simp add: abschnitt_def sq_acquire_def ruhig_def case_prod_beta)
qed

lemma bsp_festschreiben:
  "\<exists>s1. festschreiben sqlite_port bsp_umfeld (bsp_intent ''k'') empty_store = (s1, Inr True)"
  by (simp add: festschreiben_def abschnitt_frei [OF bsp_umfeld_ruhig] empty_store_def
      festschreiben_rumpf_def bsp_intent_def)

lemma written_intent_is_found_witness:
  "\<exists>s1 es e'. festschreiben sqlite_port bsp_umfeld (bsp_intent ''k'') empty_store = (s1, Inr True) \<and>
     unbestaetigte sqlite_port 2000 None
       (ob_lauf sqlite_port [(bsp_umfeld, Abgesendet (JStr ''k'')), (bsp_umfeld, Aufraeumen)] s1) = Inr es \<and>
     e' \<in> set es \<and> oe_symbol e' = JStr ''AAPL''"
proof -
  obtain s1 where s1: "festschreiben sqlite_port bsp_umfeld (bsp_intent ''k'') empty_store = (s1, Inr True)"
    using bsp_festschreiben by blast
  have "lese sqlite_port 0 ''k'' empty_store = None" by (simp add: lese_def sq_get_def empty_store_def)
  moreover have "\<forall>(uf, a) \<in> set [(bsp_umfeld, Abgesendet (JStr ''k'')), (bsp_umfeld, Aufraeumen)].
      ruhig uf \<and> \<not> beendet ''k'' a"
    by (simp add: bsp_umfeld_ruhig beendet_def)
  ultimately obtain es e' where
    "unbestaetigte sqlite_port 2000 None (ob_lauf sqlite_port
       [(bsp_umfeld, Abgesendet (JStr ''k'')), (bsp_umfeld, Aufraeumen)] s1) = Inr es"
    "e' \<in> set es" "kern e' = kern (bsp_intent ''k'')"
    using written_intent_is_found [OF ob_inv_empty bsp_umfeld_ruhig s1, of "''k''"
        "[(bsp_umfeld, Abgesendet (JStr ''k'')), (bsp_umfeld, Aufraeumen)]" 2000]
    by (auto simp: bsp_intent_def)
  with s1 show ?thesis by (auto simp: kern_def bsp_intent_def)
qed

text \<open>
  No operation of the outbox moves an intent backwards or changes its identity: over any sequence
  of operations the invariant holds, and each single one leaves every intent in its state or a later
  one, and removes none that is not confirmed or discarded.
\<close>

theorem outbox_forward_only:
  assumes "ob_inv sqlite_port store_inv s" "ruhig uf"
  shows "ob_inv sqlite_port store_inv (ob_tut sqlite_port uf a s) \<and>
    vorwaerts sqlite_port s (ob_tut sqlite_port uf a s)"
  by (rule sqlite.ob_tut_keeps [OF assms])

lemma outbox_forward_only_witness:
  "vorwaerts sqlite_port empty_store (ob_tut sqlite_port bsp_umfeld (Festschreiben (bsp_intent ''k'')) empty_store)"
  using outbox_forward_only [OF ob_inv_empty bsp_umfeld_ruhig] by blast

text \<open>
  C31: The reconciliation after a restart never acts blindly: an intent becomes discarded only if the
  broker answered 404 to its key, confirmed only if the broker knows the key, and then with the
  broker's order id; on every other answer, and for other accounts, it stays as it was.
\<close>

theorem reconciliation_never_blind:
  assumes "ob_inv sqlite_port store_inv s" "\<forall>i. ruhig (ufs i)" "lese sqlite_port 0 c s = Some e"
    and "abgleichen sqlite_port now ufs client konten s = (s', r)"
  shows "\<exists>e'. lese sqlite_port 0 c s' = Some e' \<and> (e' = e \<or>
    \<not> erledigt (oe_zustand e) \<and> client (JStr c) = Unbekannt \<and> oe_zustand e' = JStr ''verworfen'' \<or>
    \<not> erledigt (oe_zustand e) \<and> (\<exists>oid. client (JStr c) = Bekannt oid \<and>
      oe_zustand e' = JStr ''bestaetigt'' \<and> oe_broker_order_id e' = JStr oid))"
proof -
  have "\<exists>e'. lese sqlite_port 0 c s' = Some e' \<and> abgeglichen client c e e'"
  proof (cases "unbestaetigte sqlite_port now None s")
    case (Inl err)
    with assms(3,4) show ?thesis by (simp add: abgleichen_def abgeglichen_def)
  next
    case (Inr es)
    with assms(4) show ?thesis
      using sqlite.abgleich_schleife_entry [OF assms(1-3)] by (simp add: abgleichen_def)
  qed
  then show ?thesis unfolding abgeglichen_def by (elim exE conjE disjE) simp_all
qed

text \<open>A store after one intent was written, whatever else.\<close>

lemma bsp_store:
  "\<exists>s1. festschreiben sqlite_port bsp_umfeld (bsp_intent ''k'') empty_store = (s1, Inr True) \<and>
     ob_inv sqlite_port store_inv s1 \<and>
     lese sqlite_port 0 ''k'' s1 = Some ((bsp_intent ''k'')\<lparr>oe_zustand := JStr ''offen''\<rparr>)"
proof -
  obtain s1 where s1: "festschreiben sqlite_port bsp_umfeld (bsp_intent ''k'') empty_store = (s1, Inr True)"
    using bsp_festschreiben by blast
  have "lese sqlite_port 0 ''k'' empty_store = None" by (simp add: lese_def sq_get_def empty_store_def)
  with sqlite.festschreiben_writes [OF ob_inv_empty bsp_umfeld_ruhig _ _ this]
    sqlite.festschreiben_keeps [OF ob_inv_empty bsp_umfeld_ruhig, of "bsp_intent ''k''"] s1
  show ?thesis by (simp add: bsp_intent_def)
qed

lemma reconciliation_never_blind_witness:
  "\<exists>s s' r e'. abgleichen sqlite_port 2000 (\<lambda>_. bsp_umfeld) (\<lambda>_. Fehler) None s = (s', r) \<and>
     lese sqlite_port 0 ''k'' s' = Some e' \<and> oe_zustand e' = JStr ''offen''"
proof -
  from bsp_store obtain s1 where s1: "ob_inv sqlite_port store_inv s1"
    "lese sqlite_port 0 ''k'' s1 = Some ((bsp_intent ''k'')\<lparr>oe_zustand := JStr ''offen''\<rparr>)" by blast
  obtain s' r where run: "abgleichen sqlite_port 2000 (\<lambda>_. bsp_umfeld) (\<lambda>_. Fehler) None s1 = (s', r)" by fastforce
  from reconciliation_never_blind [OF s1(1) _ s1(2) run] bsp_umfeld_ruhig
  have "\<exists>e'. lese sqlite_port 0 ''k'' s' = Some e' \<and> oe_zustand e' = JStr ''offen''" by simp
  with run show ?thesis by blast
qed

text \<open>
  A crash between the two writes of \<open>festschreiben\<close> leaves an entry without a line in the
  directory. When the same key is written again (its derivation is deterministic, an approval keeps
  its key), \<open>festschreiben\<close> answers \<open>True\<close>, but neither \<open>unbestaetigte\<close> nor \<open>offener_intent\<close> ever
  finds the intent, also after it was reported as sent.
\<close>

theorem crashed_intent_stays_hidden:
  assumes "ruhig uf" "ruhig uf2" "oe_client_order_id e = JStr c"
    and crash_def: "crash = sq_set empty_store t0 (ob_key c) (als_json (e\<lparr>oe_zustand := JStr ''offen''\<rparr>)) None"
  shows "\<exists>s1. festschreiben sqlite_port uf e crash = (s1, Inr True) \<and>
    (let s2 = ob_tut sqlite_port uf2 (Abgesendet (JStr c)) s1
     in unbestaetigte sqlite_port now None s2 = Inr [] \<and> offener_intent sqlite_port now symbol s2 = None)"
proof -
  have frei: "st_rows crash (lk_key (ob_sperre uf c)) = None"
    using lk_key_no_data(2) [OF ob_daten(1)] by (simp add: crash_def sq_set_def empty_store_def)
  have key: "lk_key (ob_sperre uf c) \<noteq> ob_key c" by simp
  have there: "sq_get (crash\<lparr>st_rows := (st_rows crash)(lk_key (ob_sperre uf c) \<mapsto> x)\<rparr>) t (ob_key c) \<noteq> None" for x t
    using key by (simp add: crash_def sq_get_def sq_set_def)
  obtain s1 where s1: "festschreiben sqlite_port uf e crash = (s1, Inr True)"
    using assms(1,3) frei there by (auto simp: festschreiben_def abschnitt_frei festschreiben_rumpf_def)
  moreover have "sq_read s1 verzeichnis = []"
  proof -
    have "s1 = fst (sq_release (crash\<lparr>st_rows := (st_rows crash)(lk_key (ob_sperre uf c) \<mapsto>
        lk_row (ob_sperre uf c) (uf_zeit uf 0))\<rparr>) (ob_sperre uf c))"
      using s1 assms(1,3) frei there by (simp add: festschreiben_def abschnitt_frei festschreiben_rumpf_def)
    then show ?thesis
      using sqlite.read_release [of _ "ob_sperre uf c" verzeichnis] by (simp add: sq_read_def crash_def sq_set_def empty_store_def)
  qed
  then have "sq_read (ob_tut sqlite_port uf2 (Abgesendet (JStr c)) s1) verzeichnis = []"
    using sqlite.schreibe_fort_read [OF assms(2)] by (simp add: als_abgesendet_def)
  ultimately show ?thesis
    by (auto simp: Let_def unbestaetigte_def offener_intent_def alle_eintraege_def List.map_filter_simps)
qed

lemma crashed_intent_stays_hidden_witness:
  "\<exists>s1. festschreiben sqlite_port bsp_umfeld (bsp_intent ''k'')
      (sq_set empty_store 0 (ob_key ''k'') (als_json ((bsp_intent ''k'')\<lparr>oe_zustand := JStr ''offen''\<rparr>)) None)
        = (s1, Inr True) \<and>
     unbestaetigte sqlite_port 5 None (ob_tut sqlite_port bsp_umfeld (Abgesendet (JStr ''k'')) s1) = Inr []"
  using crashed_intent_stays_hidden [OF bsp_umfeld_ruhig bsp_umfeld_ruhig _ refl, of "bsp_intent ''k''" "''k''" 0 5]
  by (auto simp: bsp_intent_def Let_def)

end
