(* ===== verification/Contracts.thy ===== *)
theory Contracts
  imports Prelude
begin

text \<open>
  The typed contracts at the hand-overs of the value chain (\<open>core/contracts\<close>): \<open>OrderIntent\<close>,
  \<open>ComplianceDecision\<close>, \<open>ReasonCode\<close>, \<open>Verkaufsgrund\<close>, \<open>FillEvent\<close>, \<open>SignalCandidate\<close> and
  \<open>ReconciliationRecord\<close>. A contract is a record; its validation is the function that builds it,
  which raises \<open>ValidationError\<close> on a field out of its range.
\<close>

section \<open>OrderIntent\<close>

datatype seite = Buy | Sell

datatype intent_kind = Entry | Stop | Trim | Displacement | Panic | Breaker | StrategySwitch

fun kind_text :: "intent_kind \<Rightarrow> string" where
  "kind_text Entry = ''entry''"
| "kind_text Stop = ''stop''"
| "kind_text Trim = ''trim''"
| "kind_text Displacement = ''displacement''"
| "kind_text Panic = ''panic''"
| "kind_text Breaker = ''breaker''"
| "kind_text StrategySwitch = ''strategy_switch''"

datatype exit_kind = ExitRisk | ExitRotation | ExitTrim

text \<open>Why a position is sold; the class is one of a closed list.\<close>

definition verkaufsgrund_klassen :: "string list" where
  "verkaufsgrund_klassen =
     [''hard_stop'', ''trailing'', ''loss_cut'', ''loss_escalation'', ''momentum_fade'', ''composite'',
      ''rank_drop'', ''rotation'', ''book_overflow'', ''trim'', ''consensus_sell'', ''model_sell'',
      ''displacement'', ''panic'', ''breaker'', ''strategy_switch'', ''broker_stop'', ''manual'', ''unknown'']"

record verkaufsgrund =
  vg_klasse :: string
  vg_werte :: "(string, jval) pydict"
  vg_zeitpunkt :: "string option"

definition mk_verkaufsgrund ::
  "string \<Rightarrow> (string, jval) pydict \<Rightarrow> string option \<Rightarrow> py_error + verkaufsgrund" where
  "mk_verkaufsgrund klasse werte zeitpunkt =
     (if klasse \<in> set verkaufsgrund_klassen
      then Inr \<lparr>vg_klasse = klasse, vg_werte = werte, vg_zeitpunkt = zeitpunkt\<rparr>
      else Inl ValidationError)"

definition unbekannter_grund :: verkaufsgrund where
  "unbekannter_grund = \<lparr>vg_klasse = ''unknown'', vg_werte = [], vg_zeitpunkt = None\<rparr>"

record order_intent =
  oi_decision_id :: string
  oi_symbol :: string
  oi_side :: seite
  oi_qty :: real
  oi_kind :: intent_kind
  oi_protective :: bool
  oi_exit_kind :: "exit_kind option"
  oi_halted :: bool
  oi_limit_price :: "real option"
  oi_stop_price :: "real option"
  oi_gtc :: bool
  oi_verkaufsgrund :: "verkaufsgrund option"

definition order_intent_ok :: "order_intent \<Rightarrow> bool" where
  "order_intent_ok i \<longleftrightarrow>
     oi_decision_id i \<noteq> [] \<and> oi_symbol i \<noteq> [] \<and> 0 < oi_qty i \<and>
     (case oi_limit_price i of None \<Rightarrow> True | Some x \<Rightarrow> 0 < x) \<and>
     (case oi_stop_price i of None \<Rightarrow> True | Some x \<Rightarrow> 0 < x)"

definition mk_order_intent :: "order_intent \<Rightarrow> py_error + order_intent" where
  "mk_order_intent i = (if order_intent_ok i then Inr i else Inl ValidationError)"

section \<open>ComplianceDecision\<close>

datatype reason_code = RestrictedSymbol | NonSpotUsEquity | MissingMifidFields | WashTrade
  | MaxOrderValue | HftThrottle | SystemError | MaxDailyTrades | ExitExempt | TradingHalted
  | Emergency | BreakerCode | StrategySwitchCode | Approved

fun reason_text :: "reason_code \<Rightarrow> string" where
  "reason_text RestrictedSymbol = ''restricted_symbol''"
| "reason_text NonSpotUsEquity = ''non_spot_us_equity''"
| "reason_text MissingMifidFields = ''missing_mifid_fields''"
| "reason_text WashTrade = ''wash_trade''"
| "reason_text MaxOrderValue = ''max_order_value''"
| "reason_text HftThrottle = ''hft_throttle''"
| "reason_text SystemError = ''system_error''"
| "reason_text MaxDailyTrades = ''max_daily_trades''"
| "reason_text ExitExempt = ''exit_exempt''"
| "reason_text TradingHalted = ''trading_halted''"
| "reason_text Emergency = ''emergency''"
| "reason_text BreakerCode = ''breaker''"
| "reason_text StrategySwitchCode = ''strategy_switch''"
| "reason_text Approved = ''approved''"

record compliance_decision =
  cd_decision_id :: string
  cd_approved :: bool
  cd_reason :: reason_code
  cd_detail :: string
  cd_halted :: bool

definition mk_decision ::
  "string \<Rightarrow> bool \<Rightarrow> reason_code \<Rightarrow> string \<Rightarrow> bool \<Rightarrow> py_error + compliance_decision" where
  "mk_decision decision_id approved reason detail halted =
     (if decision_id = [] then Inl ValidationError
      else Inr \<lparr>cd_decision_id = decision_id, cd_approved = approved, cd_reason = reason,
                cd_detail = detail, cd_halted = halted\<rparr>)"

section \<open>FillEvent, SignalCandidate, ReconciliationRecord\<close>

record fill_event =
  fe_fill_id :: string
  fe_broker_order_id :: string
  fe_client_order_id :: string
  fe_decision_id :: string
  fe_symbol :: string
  fe_side :: seite
  fe_filled_qty :: real
  fe_price :: real

definition mk_fill_event :: "fill_event \<Rightarrow> py_error + fill_event" where
  "mk_fill_event f =
     (if fe_fill_id f \<noteq> [] \<and> fe_broker_order_id f \<noteq> [] \<and> fe_decision_id f \<noteq> [] \<and> fe_symbol f \<noteq> [] \<and>
         0 < fe_filled_qty f \<and> 0 < fe_price f
      then Inr f else Inl ValidationError)"

datatype abstain_reason = NoData | InsufficientData | DependencyLost | Warmup | Disabled | GuardVeto

record signal_candidate =
  sc_agent_name :: string
  sc_symbol :: string
  sc_weight :: real
  sc_score :: "real option"
  sc_abstain :: "abstain_reason option"
  sc_vetoed :: bool

definition mk_signal_candidate :: "signal_candidate \<Rightarrow> py_error + signal_candidate" where
  "mk_signal_candidate c =
     (if sc_score c \<noteq> None \<and> sc_abstain c \<noteq> None then Inl ValidationError
      else if sc_score c = None \<and> sc_abstain c = None then Inl ValidationError
      else Inr c)"

datatype break_kind = OrphanedOrder | PositionMismatch | UnknownPosition | MissingFill | MissingOrder
  | BrokerUnreachable

record reconciliation_break =
  rb_kind :: break_kind
  rb_symbol :: string
  rb_order_id :: string
  rb_geheilt :: bool

record reconciliation_record =
  rr_run_id :: string
  rr_broker_orders :: int
  rr_broker_positions :: int
  rr_engine_orders :: int
  rr_engine_positions :: int
  rr_breaks :: "reconciliation_break list"

definition mk_reconciliation_record :: "reconciliation_record \<Rightarrow> py_error + reconciliation_record" where
  "mk_reconciliation_record r =
     (if rr_run_id r \<noteq> [] \<and> 0 \<le> rr_broker_orders r \<and> 0 \<le> rr_broker_positions r \<and>
         0 \<le> rr_engine_orders r \<and> 0 \<le> rr_engine_positions r
      then Inr r else Inl ValidationError)"

definition rr_clean :: "reconciliation_record \<Rightarrow> bool" where
  "rr_clean r = (rr_breaks r = [])"

section \<open>Facts about built contracts\<close>

lemma mk_order_intent_Inr [simp]: "mk_order_intent i = Inr j \<longleftrightarrow> j = i \<and> order_intent_ok i"
  by (auto simp: mk_order_intent_def)

lemma mk_decision_Inr:
  "d \<noteq> [] \<Longrightarrow> mk_decision d a r t h =
     Inr \<lparr>cd_decision_id = d, cd_approved = a, cd_reason = r, cd_detail = t, cd_halted = h\<rparr>"
  by (simp add: mk_decision_def)

lemma mk_signal_candidate_Inr:
  "mk_signal_candidate c = Inr c' \<longleftrightarrow> c' = c \<and> (sc_score c = None) \<noteq> (sc_abstain c = None)"
  by (auto simp: mk_signal_candidate_def)

end
