(* ===== verification/Idempotency.thy ===== *)
theory Idempotency
  imports Prelude
begin

text \<open>
  The derivable idempotency key of a broker order (\<open>core/idempotency.py\<close>). The legs are those of
  \<open>IntentKind\<close> (\<open>core/contracts/order_intent.py\<close>). Texts are lists of characters; \<open>h\<close> stands for
  \<open>hashlib.sha256(...).hexdigest()\<close>, of whose documented behaviour the theorems use that a hex digest
  has 64 characters from \<open>0-9a-f\<close>.
\<close>

section \<open>Deriving a key\<close>

definition max_client_order_id_len :: nat where
  "max_client_order_id_len = 128"

definition legs :: "string list" where
  "legs = [''entry'', ''stop'', ''trim'', ''displacement'', ''panic'', ''breaker'', ''strategy_switch'']"

definition digest_len :: nat where
  "digest_len = 32"

definition sicher :: "char \<Rightarrow> bool" where
  "sicher c = (let n = (of_char c :: nat)
     in (65 \<le> n \<and> n \<le> 90) \<or> (97 \<le> n \<and> n \<le> 122) \<or> ist_ziffer c \<or> c = CHR ''-'')"

text \<open>\<open>_UNSAFE.sub("-", ...)\<close>.\<close>

definition unsafe_sub :: "string \<Rightarrow> string" where
  "unsafe_sub s = map (\<lambda>c. if sicher c then c else CHR ''-'') s"

definition digest :: "(string \<Rightarrow> string) \<Rightarrow> string \<Rightarrow> string" where
  "digest h v = take digest_len (h v)"

definition praefix :: "string \<Rightarrow> nat \<Rightarrow> string" where
  "praefix leg attempt = leg @ ''-'' @ dez attempt @ ''-''"

text \<open>The literal form carries the decision completely and unchanged.\<close>

definition woertlich :: "string \<Rightarrow> string \<Rightarrow> nat \<Rightarrow> bool" where
  "woertlich decision_id leg attempt =
     (unsafe_sub decision_id = decision_id \<and>
      length (praefix leg attempt) + length (unsafe_sub decision_id) \<le> max_client_order_id_len)"

definition derive_client_order_id ::
  "(string \<Rightarrow> string) \<Rightarrow> string \<Rightarrow> string \<Rightarrow> int \<Rightarrow> py_error + string" where
  "derive_client_order_id h decision_id leg attempt =
     (if decision_id = [] then Inl ValueError
      else if leg \<notin> set legs then Inl ValueError
      else if attempt < 0 then Inl ValueError
      else let pre = praefix leg (nat attempt); rumpf = unsafe_sub decision_id
           in if rumpf = decision_id \<and> length pre + length rumpf \<le> max_client_order_id_len
              then Inr (pre @ rumpf)
              else Inr (pre @ ''_'' @ digest h decision_id))"

section \<open>Reading a key\<close>

definition leg_zeichen :: "char \<Rightarrow> bool" where
  "leg_zeichen c = ((97 \<le> (of_char c :: nat) \<and> (of_char c :: nat) \<le> 122) \<or> c = CHR ''_'')"

definition zeilenumbruch :: char where
  "zeilenumbruch = CHR 0x0A"

text \<open>
  \<open>_STRUCTURED.match\<close>: neither the leg nor the attempt can contain the hyphen that ends it, so the
  greedy match is unique. The dot matches no newline, and \<open>$\<close> also matches before a final one.
\<close>

definition structured :: "string \<Rightarrow> (string \<times> string \<times> string) option" where
  "structured s =
     (let leg = takeWhile leg_zeichen s; s1 = dropWhile leg_zeichen s
      in if leg = [] \<or> s1 = [] \<or> hd s1 \<noteq> CHR ''-'' then None
         else let attempt = takeWhile ist_ziffer (tl s1); s2 = dropWhile ist_ziffer (tl s1)
              in if attempt = [] \<or> s2 = [] \<or> hd s2 \<noteq> CHR ''-'' then None
                 else let r = tl s2;
                          rest = (if r \<noteq> [] \<and> last r = zeilenumbruch then butlast r else r)
                      in if rest = [] \<or> zeilenumbruch \<in> set rest then None
                         else Some (leg, attempt, rest))"

definition ersatz_praefix :: string where
  "ersatz_praefix = ''ersatz-''"

definition ersatz_decision_id :: "string \<Rightarrow> string option \<Rightarrow> string \<Rightarrow> string" where
  "ersatz_decision_id art wer symbol =
     ersatz_praefix @ art @ ''-'' @
     (case wer of None \<Rightarrow> ''global'' | Some w \<Rightarrow> if w = [] then ''global'' else w) @ ''-'' @ symbol"

definition ist_ersatz :: "string option \<Rightarrow> bool" where
  "ist_ersatz decision_id = (case decision_id of None \<Rightarrow> False | Some d \<Rightarrow> startswith d ersatz_praefix)"

definition decision_id_aus :: "string \<Rightarrow> string option" where
  "decision_id_aus client_order_id =
     (if client_order_id = [] then None
      else case structured client_order_id of
             None \<Rightarrow> None
           | Some (leg, attempt, rest) \<Rightarrow>
               if leg \<notin> set legs then None
               else if startswith rest ''_'' \<and> length rest = 1 + digest_len then None
               else Some rest)"

definition next_attempt :: "(string \<Rightarrow> string) \<Rightarrow> string \<Rightarrow> py_error + string" where
  "next_attempt h client_order_id =
     (if client_order_id = [] then Inl ValueError
      else case structured client_order_id of
             Some (leg, attempt, rest) \<Rightarrow>
               if leg \<in> set legs
               then Inr (take max_client_order_id_len (praefix leg (Suc (lies_dez attempt)) @ rest))
               else Inr (''retry-1-_'' @ digest h client_order_id)
           | None \<Rightarrow> Inr (''retry-1-_'' @ digest h client_order_id))"

definition derive_approval_client_order_id :: "string \<Rightarrow> py_error + string" where
  "derive_approval_client_order_id approval_id =
     (if approval_id = [] then Inl ValueError
      else Inr (take max_client_order_id_len (''hitl-'' @ approval_id)))"

section \<open>Keys and their parts\<close>

definition hexdigest :: "(string \<Rightarrow> string) \<Rightarrow> bool" where
  "hexdigest h \<longleftrightarrow> (\<forall>v. length (h v) = 64 \<and> (\<forall>c \<in> set (h v). c \<in> set ''0123456789abcdef''))"

lemma legs_zeichen: "leg \<in> set legs \<Longrightarrow> leg \<noteq> [] \<and> (\<forall>c \<in> set leg. leg_zeichen c) \<and> length leg \<le> 15"
  by (auto simp: legs_def leg_zeichen_def)

lemma bindestrich [simp]: "\<not> leg_zeichen CHR ''-''" "\<not> ist_ziffer CHR ''-''" "\<not> sicher CHR ''_''"
  "\<not> sicher zeilenumbruch"
  by (simp_all add: leg_zeichen_def ist_ziffer_def sicher_def zeilenumbruch_def)

lemma takeWhile_hyphen:
  "\<forall>c \<in> set xs. P c \<Longrightarrow> \<not> P y \<Longrightarrow> takeWhile P (xs @ y # ys) = xs"
  "\<forall>c \<in> set xs. P c \<Longrightarrow> \<not> P y \<Longrightarrow> dropWhile P (xs @ y # ys) = y # ys"
  by (simp_all add: takeWhile_append2 dropWhile_append2)

text \<open>Every text behind a prefix with a known leg is read back.\<close>

lemma structured_praefix:
  assumes "leg \<in> set legs" "rest \<noteq> []" "zeilenumbruch \<notin> set rest"
  shows "structured (praefix leg n @ rest) = Some (leg, dez n, rest)"
proof -
  have leg: "\<forall>c \<in> set leg. leg_zeichen c" "leg \<noteq> []" using legs_zeichen [OF assms(1)] by auto
  have dig: "\<forall>c \<in> set (dez n). ist_ziffer c" by (rule dez_ziffern)
  have "last rest \<noteq> zeilenumbruch" using assms(2,3) by (metis last_in_set)
  with assms leg dig show ?thesis
    by (simp add: structured_def praefix_def takeWhile_hyphen Let_def)
qed

lemma unsafe_sub_id: "unsafe_sub d = d \<Longrightarrow> c \<in> set d \<Longrightarrow> sicher c"
proof (induction d)
  case (Cons a d)
  then show ?case by (auto simp: unsafe_sub_def split: if_splits) (simp add: sicher_def)
qed simp

lemma woertlich_zeilenumbruch: "unsafe_sub d = d \<Longrightarrow> zeilenumbruch \<notin> set d"
  using unsafe_sub_id bindestrich(4) by blast

lemma woertlich_unterstrich: "unsafe_sub d = d \<Longrightarrow> \<not> startswith d ''_''"
  using unsafe_sub_id [of d "CHR ''_''"] by (cases d) (auto simp: startswith_def)

lemma digest_zeichen:
  assumes "hexdigest h"
  shows "length (digest h v) = 32" "zeilenumbruch \<notin> set (digest h v)"
proof -
  show "length (digest h v) = 32" using assms by (simp add: digest_def digest_len_def hexdigest_def)
  have "zeilenumbruch \<notin> set ''0123456789abcdef''" by (simp add: zeilenumbruch_def)
  with assms show "zeilenumbruch \<notin> set (digest h v)"
    by (metis digest_def hexdigest_def in_set_takeD)
qed

text \<open>The rest of a derived key: the decision or its marked digest.\<close>

definition rumpf_von :: "(string \<Rightarrow> string) \<Rightarrow> string \<Rightarrow> string \<Rightarrow> nat \<Rightarrow> string" where
  "rumpf_von h d leg n = (if woertlich d leg n then d else ''_'' @ digest h d)"

lemma derive_form:
  "derive_client_order_id h d leg a = Inr k \<longleftrightarrow>
     d \<noteq> [] \<and> leg \<in> set legs \<and> 0 \<le> a \<and> k = praefix leg (nat a) @ rumpf_von h d leg (nat a)"
  by (auto simp: derive_client_order_id_def Let_def rumpf_von_def woertlich_def)

lemma rumpf_ok:
  assumes "hexdigest h" "d \<noteq> []"
  shows "rumpf_von h d leg n \<noteq> []" "zeilenumbruch \<notin> set (rumpf_von h d leg n)"
  using assms digest_zeichen [OF assms(1), of d] woertlich_zeilenumbruch [of d]
  by (auto simp: rumpf_von_def woertlich_def zeilenumbruch_def)

lemma structured_derived:
  assumes "hexdigest h" "derive_client_order_id h d leg a = Inr k"
  shows "structured k = Some (leg, dez (nat a), rumpf_von h d leg (nat a))"
  using assms structured_praefix rumpf_ok [OF assms(1)] by (auto simp: derive_form)


lemma derive_inj:
  assumes "hexdigest h" "derive_client_order_id h d leg a = Inr k"
    "derive_client_order_id h d' leg' a' = Inr k"
  shows "leg = leg' \<and> a = a' \<and> (d = d' \<or> digest h d = digest h d')"
proof -
  from structured_derived [OF assms(1,2)] structured_derived [OF assms(1,3)]
  have "leg = leg'" and n: "dez (nat a) = dez (nat a')"
    and rest: "rumpf_von h d leg (nat a) = rumpf_von h d' leg' (nat a')" by auto
  from n assms(2,3) have "a = a'" by (auto simp: dez_inj derive_form)
  with \<open>leg = leg'\<close> rest show ?thesis
    using woertlich_unterstrich [of d] woertlich_unterstrich [of d'] startswith_append [of "''_''"]
    by (auto simp: rumpf_von_def woertlich_def startswith_def split: if_splits)
qed

section \<open>Properties\<close>

text \<open>
  Two orders get the same key only for the same leg, the same attempt and the same decision,
  unless SHA-256 collides on its first 32 hex digits: the literal and the digest form never meet.
\<close>

theorem derive_injective:
  assumes "hexdigest h" "derive_client_order_id h d leg a = Inr k"
    "derive_client_order_id h d' leg' a' = Inr k"
  shows "leg = leg' \<and> a = a' \<and> (d = d' \<or> digest h d = digest h d')"
  by (rule derive_inj [OF assms])

definition bsp_hash :: "string \<Rightarrow> string" where
  "bsp_hash v = replicate 64 CHR ''0''"

lemma hexdigest_bsp: "hexdigest bsp_hash"
  by (simp add: hexdigest_def bsp_hash_def)

lemma derive_injective_witness:
  "derive_client_order_id bsp_hash ''d-1'' ''stop'' 2 = Inr ''stop-2-d-1'' \<and> digest bsp_hash ''d-1'' = replicate 32 CHR ''0''"
proof -
  have "derive_client_order_id bsp_hash ''d-1'' ''stop'' 2 = Inr ''stop-2-d-1''" by code_simp
  from derive_injective [OF hexdigest_bsp this this] this show ?thesis
    by (simp add: digest_def digest_len_def bsp_hash_def)
qed

text \<open>
  Reading a derived key gives back exactly the decision it was derived from when the key is in
  the literal form, and \<open>None\<close>, never a wrong decision, when it is in the digest form.
\<close>

theorem decision_id_roundtrip:
  assumes "hexdigest h" "derive_client_order_id h d leg a = Inr k"
  shows "decision_id_aus k = (if woertlich d leg (nat a) then Some d else None)"
proof -
  have "leg \<in> set legs" "k \<noteq> []" using assms(2) by (auto simp: derive_form praefix_def)
  moreover have "\<not> startswith d ''_''" if "woertlich d leg (nat a)"
    using that woertlich_unterstrich by (simp add: woertlich_def)
  ultimately show ?thesis
    using structured_derived [OF assms] digest_zeichen(1) [OF assms(1), of d]
    by (simp add: decision_id_aus_def rumpf_von_def digest_len_def startswith_def)
qed

lemma decision_id_roundtrip_witness: "decision_id_aus ''panic-0-abc'' = Some ''abc''"
proof -
  have "derive_client_order_id bsp_hash ''abc'' ''panic'' 0 = Inr ''panic-0-abc''" by code_simp
  from decision_id_roundtrip [OF hexdigest_bsp this] show ?thesis
    by (simp add: woertlich_def praefix_def unsafe_sub_def sicher_def max_client_order_id_len_def dez.simps)
qed

text \<open>
  Every derived key fits into the 128 characters of the broker, for every decision text and
  every attempt below ten to the 78.
\<close>

theorem derive_length:
  assumes "hexdigest h" "derive_client_order_id h d leg a = Inr k" "a < 10 ^ 78"
  shows "length k \<le> max_client_order_id_len"
proof -
  have leg: "length leg \<le> 15" and a: "0 \<le> a" using assms(2) legs_zeichen by (auto simp: derive_form)
  have "nat a < 10 ^ 78" using assms(3) a by (simp add: nat_less_iff)
  then have "length (dez (nat a)) \<le> 78" by (rule length_dez) simp
  with leg assms(2) digest_zeichen(1) [OF assms(1), of d] show ?thesis
    by (auto simp: derive_form rumpf_von_def woertlich_def praefix_def max_client_order_id_len_def)
qed

lemma derive_length_witness: "length ''entry-7-abc'' \<le> max_client_order_id_len"
proof -
  have "derive_client_order_id bsp_hash ''abc'' ''entry'' 7 = Inr ''entry-7-abc''" by code_simp
  from derive_length [OF hexdigest_bsp this] show ?thesis by simp
qed

text \<open>
  As long as the longer numeral still fits, the key of the next attempt is the key derived from
  the same decision and leg with the attempt one higher: retries of an order stay re-derivable.
\<close>

theorem next_attempt_rederivable:
  assumes "hexdigest h" "derive_client_order_id h d leg a = Inr k"
    "length (praefix leg (nat a + 1)) + length (rumpf_von h d leg (nat a)) \<le> max_client_order_id_len"
  shows "next_attempt h k = derive_client_order_id h d leg (a + 1)"
proof -
  have leg: "leg \<in> set legs" "k \<noteq> []" "0 \<le> a" "d \<noteq> []" using assms(2) by (auto simp: derive_form praefix_def)
  have "rumpf_von h d leg (nat a) = rumpf_von h d leg (nat a + 1)"
  proof (cases "unsafe_sub d = d")
    case True
    show ?thesis
    proof (cases "woertlich d leg (nat a)")
      case False
      with True have "max_client_order_id_len < length (praefix leg (nat a)) + length d"
        by (simp add: woertlich_def)
      moreover have "length (dez n) \<le> length (dez (Suc n))" for n
        by (rule dez_length_mono) simp
      ultimately have "\<not> woertlich d leg (nat a + 1)"
        using True by (auto simp: woertlich_def praefix_def not_le intro: less_le_trans)
      with False show ?thesis by (simp add: rumpf_von_def)
    next
      case w: True
      with assms(3) True have "woertlich d leg (nat a + 1)" by (simp add: woertlich_def rumpf_von_def)
      with w show ?thesis by (simp add: rumpf_von_def)
    qed
  qed (simp add: rumpf_von_def woertlich_def)
  moreover have "nat (a + 1) = nat a + 1" using leg by simp
  ultimately show ?thesis
    using leg structured_derived [OF assms(1,2)] assms(3) derive_form [of h d leg "a + 1" "praefix leg (nat a + 1) @ rumpf_von h d leg (nat a)"]
    by (simp add: next_attempt_def)
qed

lemma next_attempt_rederivable_witness:
  "next_attempt bsp_hash ''stop-9-abc'' = derive_client_order_id bsp_hash ''abc'' ''stop'' 10"
proof -
  have "derive_client_order_id bsp_hash ''abc'' ''stop'' 9 = Inr ''stop-9-abc''" by code_simp
  moreover have "length (praefix ''stop'' (nat 9 + 1)) + length (rumpf_von bsp_hash ''abc'' ''stop'' (nat 9))
      \<le> max_client_order_id_len" by code_simp
  ultimately show ?thesis using next_attempt_rederivable [OF hexdigest_bsp] by fastforce
qed

text \<open>
  Without that room the key of the next attempt is cut at 128 characters: two different decisions
  with different keys for attempt 9 get one and the same key for attempt 10, although the cut key is
  documented to carry the decision character by character.
\<close>

theorem next_attempt_collides:
  "\<exists>d d' k k'. d \<noteq> d' \<and> derive_client_order_id h d ''entry'' 9 = Inr k \<and>
     derive_client_order_id h d' ''entry'' 9 = Inr k' \<and> k \<noteq> k' \<and> next_attempt h k = next_attempt h k'"
proof -
  let ?d = "\<lambda>c. replicate 119 CHR ''a'' @ [c]"
  have d: "derive_client_order_id h (?d c) ''entry'' 9 = Inr (''entry-9-'' @ ?d c)"
    "next_attempt h (''entry-9-'' @ ?d c) = Inr (''entry-10-'' @ replicate 119 CHR ''a'')"
    if "c = CHR ''b'' \<or> c = CHR ''c''" for c
  proof -
    have safe: "unsafe_sub (?d c) = ?d c" using that by (auto simp: unsafe_sub_def sicher_def)
    have pre: "praefix ''entry'' 9 = ''entry-9-''" "praefix ''entry'' 10 = ''entry-10-''"
      by code_simp+
    have leg: "''entry'' \<in> set legs" by (simp add: legs_def)
    have "zeilenumbruch \<notin> set (?d c)" using that by (auto simp: zeilenumbruch_def)
    with structured_praefix [OF leg, of "?d c" 9]
    have str: "structured (''entry-9-'' @ ?d c) = Some (''entry'', dez 9, ?d c)" by (simp add: pre)
    show "derive_client_order_id h (?d c) ''entry'' 9 = Inr (''entry-9-'' @ ?d c)"
      using safe leg by (simp add: derive_client_order_id_def pre max_client_order_id_len_def)
    show "next_attempt h (''entry-9-'' @ ?d c) = Inr (''entry-10-'' @ replicate 119 CHR ''a'')"
      using str leg by (simp add: next_attempt_def pre max_client_order_id_len_def)
  qed
  show ?thesis
    by (rule exI [of _ "?d CHR ''b''"], rule exI [of _ "?d CHR ''c''"],
        rule exI [of _ "''entry-9-'' @ ?d CHR ''b''"], rule exI [of _ "''entry-9-'' @ ?d CHR ''c''"])
      (simp add: d del: append_Cons append.simps)
qed

end
