(* ===== verification/Kill_Switch.thy ===== *)
theory Kill_Switch
  imports State_Store
begin

text \<open>
  The halt of the engine (\<open>core/kill_switch.py\<close>): the process state of \<open>KillSwitch\<close> with its durable
  store, the decision at start, and \<open>LokalerHalt\<close>, the halt of the simulation.

  The store is an object with \<open>get\<close>, \<open>set\<close> and \<open>delete\<close> that may raise; \<open>None\<close> is a process without
  a store. What an operation does outside (alert, mass cancel, paper account, audit) is a list of
  effects. An empty user id counts as none, as in the code.
\<close>

section \<open>The durable store of the halt\<close>

record 's ablage =
  al_get :: "'s \<Rightarrow> string \<Rightarrow> py_error + wert option"
  al_set :: "'s \<Rightarrow> string \<Rightarrow> wert \<Rightarrow> py_error + 's"
  al_delete :: "'s \<Rightarrow> string \<Rightarrow> py_error + 's"

text \<open>The desktop's store at one instant: \<open>SqliteSyncAblage\<close>.\<close>

definition sqlite_ablage :: "real \<Rightarrow> store ablage" where
  "sqlite_ablage now =
     \<lparr>al_get = (\<lambda>s k. Inr (sq_get s now k)),
      al_set = (\<lambda>s k v. Inr (sync_set s now k v None)),
      al_delete = (\<lambda>s k. Inr (fst (sync_delete s [k])))\<rparr>"

text \<open>The text \<open>"true"\<close>.\<close>

definition wahr :: wert where
  "wahr = Json (JBool True)"

section \<open>KillSwitch\<close>

record ks =
  ks_local :: bool
  ks_user :: "(string, bool) pydict"
  ks_last :: "jval option"

datatype ks_effekt = Slack | Massenstorno "string option" | PaperErzwingen | WormDisable

text \<open>\<open>if user_id\<close>.\<close>

fun nutzer :: "string option \<Rightarrow> string option" where
  "nutzer None = None"
| "nutzer (Some u) = (if u = [] then None else Some u)"

definition trip_schluessel :: "string option \<Rightarrow> string" where
  "trip_schluessel user_id =
     (case nutzer user_id of None \<Rightarrow> ''kill_switch_trip'' | Some u \<Rightarrow> ''kill_switch_trip:'' @ u)"

definition halt_schluessel :: "string option \<Rightarrow> string" where
  "halt_schluessel user_id =
     (case nutzer user_id of None \<Rightarrow> ''system_halted'' | Some u \<Rightarrow> ''system_halted:'' @ u)"

text \<open>The stored trip record, or \<open>None\<close> when it is missing or unreadable.\<close>

definition gespeicherter_trip :: "'s ablage option \<Rightarrow> string option \<Rightarrow> 's \<Rightarrow> jval option" where
  "gespeicherter_trip a user_id s =
     (case a of
        None \<Rightarrow> None
      | Some ab \<Rightarrow>
          (case al_get ab s (trip_schluessel user_id) of
             Inr (Some roh) \<Rightarrow>
               (if \<not> wert_truthy roh then None
                else case json_loads roh of
                       Some (JObj satz) \<Rightarrow> if jtruthy (jget satz ''reason'') then Some (JObj satz) else None
                     | _ \<Rightarrow> None)
           | _ \<Rightarrow> None))"

text \<open>A new process: \<open>__init__\<close> over the store it found.\<close>

definition ks_start :: "'s ablage option \<Rightarrow> 's \<Rightarrow> ks" where
  "ks_start a s =
     \<lparr>ks_local = False, ks_user = [],
      ks_last = (case a of
                   None \<Rightarrow> None
                 | Some ab \<Rightarrow> if al_get ab s ''system_halted'' = Inr (Some wahr)
                              then gespeicherter_trip a None s else None)\<rparr>"

text \<open>What was read as halted is remembered in the process; an error of the store reads as not halted.\<close>

definition is_halted :: "'s ablage option \<Rightarrow> string option \<Rightarrow> ks \<Rightarrow> 's \<Rightarrow> ks \<times> bool" where
  "is_halted a user_id k s =
     (if ks_local k then (k, True)
      else if (case nutzer user_id of None \<Rightarrow> False | Some u \<Rightarrow> map_of (ks_user k) u = Some True)
           then (k, True)
      else case a of
             None \<Rightarrow> (k, False)
           | Some ab \<Rightarrow>
               (case al_get ab s ''system_halted'' of
                  Inl _ \<Rightarrow> (k, False)
                | Inr state \<Rightarrow>
                    if state = Some wahr then (k\<lparr>ks_local := True\<rparr>, True)
                    else case nutzer user_id of
                           None \<Rightarrow> (k, False)
                         | Some u \<Rightarrow>
                             (case al_get ab s (''system_halted:'' @ u) of
                                Inl _ \<Rightarrow> (k, False)
                              | Inr user_state \<Rightarrow>
                                  if user_state = Some wahr
                                  then (k\<lparr>ks_user := dict_set u True (ks_user k)\<rparr>, True)
                                  else (k, False))))"

text \<open>The check before an order is routed: it raises a plain exception when halted.\<close>

definition check_halt :: "'s ablage option \<Rightarrow> string option \<Rightarrow> ks \<Rightarrow> 's \<Rightarrow> ks \<times> (py_error + unit)" where
  "check_halt a user_id k s =
     (let (k', h) = is_halted a user_id k s
      in (k', if h then Inl (BrokerError ''HALTED'') else Inr ()))"

definition trip_satz :: "string \<Rightarrow> string \<Rightarrow> string option \<Rightarrow> jval" where
  "trip_satz reason zeit user_id =
     JObj [(''reason'', JStr reason),
           (''scope'', JStr (case nutzer user_id of None \<Rightarrow> ''GLOBALLY'' | Some u \<Rightarrow> ''for USER '' @ u)),
           (''at'', JStr zeit),
           (''user_id'', case user_id of None \<Rightarrow> JNull | Some u \<Rightarrow> JStr u)]"

text \<open>A write that raises is logged and leaves the store.\<close>

definition al_versuche :: "py_error + 's \<Rightarrow> 's \<Rightarrow> 's" where
  "al_versuche r s = (case r of Inl _ \<Rightarrow> s | Inr s' \<Rightarrow> s')"

text \<open>First the process, then the record, then the halt: \<open>zeit\<close> is the time stamp.\<close>

definition trip ::
  "'s ablage option \<Rightarrow> string \<Rightarrow> string \<Rightarrow> string option \<Rightarrow> string option \<Rightarrow> bool \<Rightarrow> ks \<Rightarrow> 's
     \<Rightarrow> ks \<times> 's \<times> ks_effekt list" where
  "trip a reason zeit user_id access_token fail_closed k s =
     (case is_halted a user_id k s of
        (k0, True) \<Rightarrow> (k0, s, [])
      | (k0, False) \<Rightarrow>
          (let satz = trip_satz reason zeit user_id;
               k1 = k0\<lparr>ks_last := Some satz\<rparr>;
               k2 = (case nutzer user_id of
                       None \<Rightarrow> k1\<lparr>ks_local := True\<rparr>
                     | Some u \<Rightarrow> k1\<lparr>ks_user := dict_set u True (ks_user k1)\<rparr>);
               s1 = (case a of
                       None \<Rightarrow> s
                     | Some ab \<Rightarrow>
                         (let s0 = al_versuche (al_set ab s (trip_schluessel user_id) (Json satz)) s
                          in al_versuche (al_set ab s0 (halt_schluessel user_id) wahr) s0))
           in (k2, s1, [Slack, Massenstorno access_token] @
                 (if fail_closed \<and> nutzer user_id = None then [PaperErzwingen, WormDisable] else []))))"

text \<open>The two deletions share one guarded block: when the first raises, the second does not happen.\<close>

definition reset :: "'s ablage option \<Rightarrow> string option \<Rightarrow> ks \<Rightarrow> 's \<Rightarrow> ks \<times> 's" where
  "reset a user_id k s =
     (let k1 = (case nutzer user_id of
                  None \<Rightarrow> k\<lparr>ks_local := False, ks_user := []\<rparr>
                | Some u \<Rightarrow> k\<lparr>ks_user := dict_set u False (ks_user k)\<rparr>);
          s1 = (case a of
                  None \<Rightarrow> s
                | Some ab \<Rightarrow>
                    (case al_delete ab s (halt_schluessel user_id) of
                       Inl _ \<Rightarrow> s
                     | Inr s0 \<Rightarrow> al_versuche (al_delete ab s0 (trip_schluessel user_id)) s0))
      in (k1\<lparr>ks_last := None\<rparr>, s1))"


definition status :: "'s ablage option \<Rightarrow> string option \<Rightarrow> ks \<Rightarrow> 's \<Rightarrow> ks \<times> bool \<times> jval option" where
  "status a user_id k s = (let (k', h) = is_halted a user_id k s in (k', h, ks_last k'))"


section \<open>The target of the mass cancel\<close>

text \<open>
  \<open>_resolve_broker_target\<close>: the configuration read at trip time. \<open>Inl\<close> is a read that raised, and
  what was assigned before it stays. \<open>ks_secret\<close> is \<open>config.get_secret_str\<close>; texts are stripped by
  the parameter \<open>strip\<close>.
\<close>

record ziel =
  zi_url :: string
  zi_key :: string
  zi_secret :: string

record broker_config =
  bc_url :: "string option"
  bc_key :: "string option"
  bc_secret :: "string option"
  bc_get_secret_str :: "string \<Rightarrow> py_error + string"

definition belegt :: "string option \<Rightarrow> string option" where
  "belegt x = (case x of None \<Rightarrow> None | Some t \<Rightarrow> if t = [] then None else Some t)"

definition resolve_broker_target ::
  "(string \<Rightarrow> string) \<Rightarrow> ziel \<Rightarrow> py_error + broker_config \<Rightarrow> ziel" where
  "resolve_broker_target strip z0 cfg =
     (case cfg of
        Inl _ \<Rightarrow> z0
      | Inr c \<Rightarrow>
          (let z1 = (case belegt (bc_url c) of None \<Rightarrow> z0 | Some t \<Rightarrow> z0\<lparr>zi_url := strip t\<rparr>);
               key = (case belegt (bc_key c) of
                        None \<Rightarrow> Inr z1
                      | Some t \<Rightarrow> (case bc_get_secret_str c t of
                                    Inl _ \<Rightarrow> Inl z1 | Inr x \<Rightarrow> Inr (z1\<lparr>zi_key := strip x\<rparr>)))
           in case key of
                Inl z \<Rightarrow> z
              | Inr z2 \<Rightarrow>
                  (case belegt (bc_secret c) of
                     None \<Rightarrow> z2
                   | Some t \<Rightarrow> (case bc_get_secret_str c t of
                                 Inl _ \<Rightarrow> z2 | Inr x \<Rightarrow> z2\<lparr>zi_secret := strip x\<rparr>))))"

section \<open>LokalerHalt\<close>

record lokaler_halt =
  lh_global :: bool
  lh_nutzer :: "(string, bool) pydict"

definition lh_start :: lokaler_halt where
  "lh_start = \<lparr>lh_global = False, lh_nutzer = []\<rparr>"

definition lh_trip :: "string option \<Rightarrow> lokaler_halt \<Rightarrow> lokaler_halt" where
  "lh_trip user_id h =
     (case nutzer user_id of
        Some u \<Rightarrow> h\<lparr>lh_nutzer := dict_set u True (lh_nutzer h)\<rparr>
      | None \<Rightarrow> h\<lparr>lh_global := True\<rparr>)"

definition lh_reset :: "string option \<Rightarrow> lokaler_halt \<Rightarrow> lokaler_halt" where
  "lh_reset user_id h =
     (case nutzer user_id of
        Some u \<Rightarrow> h\<lparr>lh_nutzer := dict_set u False (lh_nutzer h)\<rparr>
      | None \<Rightarrow> h\<lparr>lh_global := False, lh_nutzer := []\<rparr>)"

definition lh_is_halted :: "string option \<Rightarrow> lokaler_halt \<Rightarrow> bool" where
  "lh_is_halted user_id h =
     (lh_global h \<or>
      (case nutzer user_id of None \<Rightarrow> False | Some u \<Rightarrow> map_of (lh_nutzer h) u = Some True))"

section \<open>The contract of the store\<close>

locale halt_ablage =
  fixes a :: "real \<Rightarrow> 's ablage"
  assumes get_total: "\<exists>w. al_get (a t) s k = Inr w"
    and set_get: "al_set (a now) s k v = Inr s' \<Longrightarrow> al_get (a t) s' k = Inr (Some v)"
    and set_other: "al_set (a now) s k v = Inr s' \<Longrightarrow> k' \<noteq> k \<Longrightarrow> al_get (a t) s' k' = al_get (a t) s k'"
    and set_total: "\<exists>s'. al_set (a now) s k v = Inr s'"
    and delete_get: "al_delete (a now) s k = Inr s' \<Longrightarrow> al_get (a t) s' k = Inr None"
    and delete_other: "al_delete (a now) s k = Inr s' \<Longrightarrow> k' \<noteq> k \<Longrightarrow> al_get (a t) s' k' = al_get (a t) s k'"
    and delete_total: "\<exists>s'. al_delete (a now) s k = Inr s'"

text \<open>The operations of the processes of an installation on one store.\<close>

datatype ks_op = Ausloesen string string "string option" "string option" bool
  | Zuruecksetzen "string option" | Fragen "string option" | Neustart

fun ks_tut :: "(real \<Rightarrow> 's ablage) \<Rightarrow> nat \<times> real \<times> ks_op \<Rightarrow> (nat \<Rightarrow> ks) \<times> 's \<Rightarrow> (nat \<Rightarrow> ks) \<times> 's" where
  "ks_tut a (i, t, Ausloesen r z u tok fc) (ps, s) =
     (let (k, s', _) = trip (Some (a t)) r z u tok fc (ps i) s in (ps(i := k), s'))"
| "ks_tut a (i, t, Zuruecksetzen u) (ps, s) =
     (let (k, s') = reset (Some (a t)) u (ps i) s in (ps(i := k), s'))"
| "ks_tut a (i, t, Fragen u) (ps, s) = (ps(i := fst (is_halted (Some (a t)) u (ps i) s)), s)"
| "ks_tut a (i, t, Neustart) (ps, s) = (ps(i := ks_start (Some (a t)) s), s)"

definition setzt_zurueck :: "string option \<Rightarrow> ks_op \<Rightarrow> bool" where
  "setzt_zurueck u op = (\<exists>v. op = Zuruecksetzen v \<and> nutzer v = nutzer u)"

text \<open>The halt of a scope is in the store, whenever it is read.\<close>

definition gehalten :: "(real \<Rightarrow> 's ablage) \<Rightarrow> string option \<Rightarrow> 's \<Rightarrow> bool" where
  "gehalten a u s \<longleftrightarrow> (\<forall>t. al_get (a t) s (halt_schluessel u) = Inr (Some wahr))"

lemma halt_trip_schluessel [simp]: "halt_schluessel u \<noteq> trip_schluessel v" "trip_schluessel v \<noteq> halt_schluessel u"
  by (auto simp: halt_schluessel_def trip_schluessel_def split: option.splits)

lemma halt_schluessel_eq [simp]: "halt_schluessel u = halt_schluessel v \<longleftrightarrow> nutzer u = nutzer v"
  by (auto simp: halt_schluessel_def split: option.splits)

lemma halt_schluessel_None: "nutzer u = None \<Longrightarrow> halt_schluessel u = ''system_halted''"
  by (simp add: halt_schluessel_def)

lemma halt_schluessel_Some: "nutzer u = Some v \<Longrightarrow> halt_schluessel u = ''system_halted:'' @ v"
  by (simp add: halt_schluessel_def)

lemma nutzer_nutzer: "nutzer u = Some v \<Longrightarrow> nutzer (Some v) = Some v"
  by (cases u) (auto split: if_splits)

context halt_ablage
begin

lemma gehalten_is_halted: "gehalten a u s \<Longrightarrow> snd (is_halted (Some (a t)) u k s)"
proof (cases "nutzer u")
  case None
  moreover assume "gehalten a u s"
  ultimately show ?thesis by (simp add: gehalten_def is_halted_def halt_schluessel_None)
next
  case (Some v)
  moreover assume "gehalten a u s"
  moreover obtain w where "al_get (a t) s ''system_halted'' = Inr w" using get_total by blast
  ultimately show ?thesis by (simp add: gehalten_def is_halted_def halt_schluessel_Some)
qed

lemma trip_gehalten:
  assumes "\<not> snd (is_halted (Some (a t)) u k s)" "trip (Some (a t)) r z u tok fc k s = (k', s', e)"
  shows "gehalten a u s'"
proof -
  obtain s0 where s0: "al_set (a t) s (trip_schluessel u) (Json (trip_satz r z u)) = Inr s0"
    using set_total by blast
  obtain s1 where s1: "al_set (a t) s0 (halt_schluessel u) wahr = Inr s1" using set_total by blast
  have "s' = s1" using assms s0 s1 by (auto simp: trip_def Let_def al_versuche_def split: prod.splits bool.splits)
  with set_get [OF s1] show ?thesis by (simp add: gehalten_def)
qed

lemma trip_keeps_gehalten:
  assumes "gehalten a u s" "trip (Some (a t)) r z v tok fc k s = (k', s', e)"
  shows "gehalten a u s'"
proof (cases "snd (is_halted (Some (a t)) v k s)")
  case True
  with assms show ?thesis by (auto simp: trip_def split: prod.splits bool.splits)
next
  case False
  obtain s0 where s0: "al_set (a t) s (trip_schluessel v) (Json (trip_satz r z v)) = Inr s0"
    using set_total by blast
  obtain s1 where s1: "al_set (a t) s0 (halt_schluessel v) wahr = Inr s1" using set_total by blast
  have s': "s' = s1" using assms False s0 s1
    by (auto simp: trip_def Let_def al_versuche_def split: prod.splits bool.splits)
  have "gehalten a u s0" using assms(1) set_other [OF s0] by (simp add: gehalten_def)
  then show ?thesis
    using set_get [OF s1] set_other [OF s1, of "halt_schluessel u"] unfolding s' gehalten_def
    by (cases "halt_schluessel u = halt_schluessel v") (simp_all del: halt_schluessel_eq)
qed

lemma reset_keeps_gehalten:
  assumes "gehalten a u s" "reset (Some (a t)) v k s = (k', s')" "nutzer v \<noteq> nutzer u"
  shows "gehalten a u s'"
proof -
  obtain s0 where s0: "al_delete (a t) s (halt_schluessel v) = Inr s0" using delete_total by blast
  obtain s1 where s1: "al_delete (a t) s0 (trip_schluessel v) = Inr s1" using delete_total by blast
  have "s' = s1" using assms(2) s0 s1 by (simp add: reset_def Let_def al_versuche_def)
  moreover have "halt_schluessel u \<noteq> halt_schluessel v" using assms(3) by simp
  ultimately show ?thesis
    using assms(1) delete_other [OF s0] delete_other [OF s1] by (simp add: gehalten_def)
qed

lemma reset_frei:
  assumes "reset (Some (a t)) v k s = (k', s')"
  shows "al_get (a t') s' (halt_schluessel v) = Inr None"
proof -
  obtain s0 where s0: "al_delete (a t) s (halt_schluessel v) = Inr s0" using delete_total by blast
  obtain s1 where s1: "al_delete (a t) s0 (trip_schluessel v) = Inr s1" using delete_total by blast
  have "s' = s1" using assms s0 s1 by (simp add: reset_def Let_def al_versuche_def)
  with delete_get [OF s0] delete_other [OF s1] show ?thesis by simp
qed

lemma ks_tut_gehalten:
  assumes "gehalten a u s" "\<not> setzt_zurueck u op" "ks_tut a (i, t, op) (ps, s) = (ps', s')"
  shows "gehalten a u s'"
  using assms
proof (cases op)
  case (Ausloesen r z v tok fc)
  with assms trip_keeps_gehalten show ?thesis by (fastforce split: prod.splits)
next
  case (Zuruecksetzen v)
  with assms reset_keeps_gehalten show ?thesis by (fastforce simp: setzt_zurueck_def split: prod.splits)
qed simp_all

lemma ks_lauf_gehalten:
  "gehalten a u (snd w) \<Longrightarrow> \<forall>(i, t, op) \<in> set ops. \<not> setzt_zurueck u op \<Longrightarrow>
     gehalten a u (snd (fold (ks_tut a) ops w))"
proof (induction ops arbitrary: w)
  case (Cons x ops)
  obtain i t op where x: "x = (i, t, op)" by (cases x)
  obtain ps s where w: "w = (ps, s)" by (cases w)
  obtain ps' s' where step: "ks_tut a (i, t, op) (ps, s) = (ps', s')" by fastforce
  have "gehalten a u s'" using ks_tut_gehalten [OF _ _ step] Cons.prems by (simp add: x w)
  with Cons.IH [of "(ps', s')"] Cons.prems(2) step show ?case by (simp add: x w)
qed simp

end

lemma sq_get_delete: "sq_get (fst (sq_delete s k)) t k' = (if k' = k then None else sq_get s t k')"
  by (simp add: sq_get_def sq_delete_def)

interpretation sqlite_halt: halt_ablage sqlite_ablage
  by unfold_locales
    (auto simp: sqlite_ablage_def sync_set_def sqlite.get_set [simplified] sq_get_delete case_prod_beta)

section \<open>Properties\<close>


definition bsp_ks :: ks where
  "bsp_ks = \<lparr>ks_local = False, ks_user = [], ks_last = None\<rparr>"


text \<open>What a process remembers does not depend on the store.\<close>

lemma is_halted_local: "ks_local k \<Longrightarrow> is_halted a u k s = (k, True)"
  by (simp add: is_halted_def)

lemma is_halted_mono:
  "ks_local k \<Longrightarrow> ks_local (fst (is_halted a u k s))"
  "map_of (ks_user k) v = Some True \<Longrightarrow> map_of (ks_user (fst (is_halted a u k s))) v = Some True"
  by (auto simp: is_halted_def split: option.splits sum.splits)

text \<open>
  A halt in a process does not depend on its store: as long as the scope is not reset (globally,
  or for a user globally or for that user), it stays halted through every trip, query and reset of
  other users, also when the store is missing or every access to it raises, whatever it holds.
\<close>

theorem halt_sticky_in_process:
  assumes "case nutzer u of None \<Rightarrow> ks_local k | Some v \<Rightarrow> ks_local k \<or> map_of (ks_user k) v = Some True"
  shows "snd (is_halted a u (fst (is_halted b w k s)) s') \<and>
    snd (is_halted a u (fst (trip b r z w tok fc k s)) s') \<and>
    (nutzer w \<noteq> None \<and> nutzer w \<noteq> nutzer u \<longrightarrow> snd (is_halted a u (fst (reset b w k s)) s'))"
proof -
  have halted: "snd (is_halted a u k' s')"
    if "case nutzer u of None \<Rightarrow> ks_local k' | Some v \<Rightarrow> ks_local k' \<or> map_of (ks_user k') v = Some True" for k'
    using that by (auto simp: is_halted_def split: option.splits)
  have q: "case nutzer u of None \<Rightarrow> ks_local (fst (is_halted b w k s))
      | Some v \<Rightarrow> ks_local (fst (is_halted b w k s)) \<or> map_of (ks_user (fst (is_halted b w k s))) v = Some True"
    using assms is_halted_mono [where k = k and a = b and u = w and s = s] by (auto split: option.splits)
  obtain k0 h where kh: "is_halted b w k s = (k0, h)" by fastforce
  have "case nutzer u of None \<Rightarrow> ks_local (fst (trip b r z w tok fc k s))
      | Some v \<Rightarrow> ks_local (fst (trip b r z w tok fc k s)) \<or> map_of (ks_user (fst (trip b r z w tok fc k s))) v = Some True"
    using q kh by (auto simp: trip_def Let_def split: option.splits bool.splits)
  moreover have "case nutzer u of None \<Rightarrow> ks_local (fst (reset b w k s))
      | Some v \<Rightarrow> ks_local (fst (reset b w k s)) \<or> map_of (ks_user (fst (reset b w k s))) v = Some True"
    if "nutzer w \<noteq> None \<and> nutzer w \<noteq> nutzer u"
    using assms that by (auto simp: reset_def Let_def split: option.splits sum.splits)
  ultimately show ?thesis using halted q by blast
qed

lemma halt_sticky_in_process_witness:
  "snd (is_halted (None :: unit ablage option) (Some ''u'')
     (fst (reset None (Some ''v'') (bsp_ks\<lparr>ks_user := [(''u'', True)]\<rparr>) ())) ())"
  using halt_sticky_in_process [where u = "Some ''u''" and k = "bsp_ks\<lparr>ks_user := [(''u'', True)]\<rparr>"
      and a = "None :: unit ablage option" and b = "None :: unit ablage option" and w = "Some ''v''"
      and s = "()" and s' = "()"]
  by simp

text \<open>A process without a store and the halt of the simulation, side by side.\<close>

definition lh_gleich :: "ks \<Rightarrow> lokaler_halt \<Rightarrow> bool" where
  "lh_gleich k h \<longleftrightarrow> ks_local k = lh_global h \<and>
     (\<not> ks_local k \<longrightarrow> (\<forall>u. (map_of (ks_user k) u = Some True) = (map_of (lh_nutzer h) u = Some True)))"

fun lh_lauf :: "(bool \<times> string option) list \<Rightarrow> lokaler_halt \<Rightarrow> lokaler_halt" where
  "lh_lauf [] h = h"
| "lh_lauf ((b, u) # ops) h = lh_lauf ops (if b then lh_trip u h else lh_reset u h)"

fun ks_lauf :: "(bool \<times> string option) list \<Rightarrow> ks \<Rightarrow> ks" where
  "ks_lauf [] k = k"
| "ks_lauf ((b, u) # ops) k =
     ks_lauf ops (if b then fst (trip (None :: unit ablage option) [] [] u None True k ())
                  else fst (reset None u k ()))"

lemma lh_gleich_step:
  assumes "lh_gleich k h"
  shows "lh_gleich (fst (trip (None :: unit ablage option) r z u tok fc k ())) (lh_trip u h)"
    "lh_gleich (fst (reset (None :: unit ablage option) u k ())) (lh_reset u h)"
  using assms
  by (auto simp: lh_gleich_def trip_def reset_def lh_trip_def lh_reset_def is_halted_def Let_def
      split: option.splits)

lemma lh_gleich_lauf: "lh_gleich k h \<Longrightarrow> lh_gleich (ks_lauf ops k) (lh_lauf ops h)"
proof (induction ops arbitrary: k h)
  case (Cons x ops)
  obtain b u where x: "x = (b, u)" by (cases x)
  from lh_gleich_step [OF Cons.prems] have
    "lh_gleich (if b then fst (trip (None :: unit ablage option) [] [] u None True k ())
       else fst (reset (None :: unit ablage option) u k ())) (if b then lh_trip u h else lh_reset u h)"
    by simp
  from Cons.IH [OF this] show ?case by (simp add: x)
qed simp

text \<open>
  C39: The halt of the simulation behaves like the kill switch of a process without a store: after
  every sequence of trips and resets, global or for users, both answer \<open>is_halted\<close> alike for
  everybody.
\<close>

theorem lokaler_halt_refines:
  "snd (is_halted (None :: unit ablage option) u (ks_lauf ops (ks_start None ())) ()) =
     lh_is_halted u (lh_lauf ops lh_start)"
proof -
  have "lh_gleich (ks_start (None :: unit ablage option) ()) lh_start"
    by (simp add: lh_gleich_def ks_start_def lh_start_def)
  from lh_gleich_lauf [OF this, of ops] show ?thesis
    by (auto simp: lh_gleich_def is_halted_def lh_is_halted_def split: option.splits)
qed

text \<open>
  A global reset does not mean the same with and without a store: the process forgets the halts
  of all users, but their rows in the store stay. So a user who was halted is free after a global
  reset without a store, and halted again at the next query with one.
\<close>

theorem global_reset_keeps_stored_user_halt:
  assumes "nutzer u \<noteq> None"
  shows "\<not> snd (is_halted (None :: unit ablage option) u
      (fst (reset None None (fst (trip None r z u tok fc bsp_ks ())) ())) ()) \<and>
    (\<exists>k1 s1 e k2 s2. trip (Some (sqlite_ablage 0)) r z u tok fc bsp_ks empty_store = (k1, s1, e) \<and>
       reset (Some (sqlite_ablage 1)) None k1 s1 = (k2, s2) \<and>
       snd (is_halted (Some (sqlite_ablage 2)) u k2 s2))"
proof
  from assms show "\<not> snd (is_halted (None :: unit ablage option) u
      (fst (reset None None (fst (trip None r z u tok fc bsp_ks ())) ())) ())"
    by (auto simp: is_halted_def reset_def split: option.splits)
  have frei: "\<not> snd (is_halted (Some (sqlite_ablage 0)) u bsp_ks empty_store)"
    by (auto simp: is_halted_def bsp_ks_def sqlite_ablage_def sq_get_def empty_store_def split: option.splits)
  obtain k1 s1 e where tr: "trip (Some (sqlite_ablage 0)) r z u tok fc bsp_ks empty_store = (k1, s1, e)"
    by (metis prod_cases3)
  obtain k2 s2 where rs: "reset (Some (sqlite_ablage 1)) None k1 s1 = (k2, s2)" by fastforce
  have "gehalten sqlite_ablage u s2"
    using sqlite_halt.reset_keeps_gehalten [OF sqlite_halt.trip_gehalten [OF frei tr] rs] assms by simp
  with sqlite_halt.gehalten_is_halted tr rs show "\<exists>k1 s1 e k2 s2.
      trip (Some (sqlite_ablage 0)) r z u tok fc bsp_ks empty_store = (k1, s1, e) \<and>
      reset (Some (sqlite_ablage 1)) None k1 s1 = (k2, s2) \<and>
      snd (is_halted (Some (sqlite_ablage 2)) u k2 s2)" by blast
qed

lemma global_reset_keeps_stored_user_halt_witness:
  "\<exists>k1 s1 e k2 s2. trip (Some (sqlite_ablage 0)) ''loss'' ''t'' (Some ''u'') None True bsp_ks empty_store = (k1, s1, e) \<and>
     reset (Some (sqlite_ablage 1)) None k1 s1 = (k2, s2) \<and>
     snd (is_halted (Some (sqlite_ablage 2)) (Some ''u'') k2 s2)"
  using global_reset_keeps_stored_user_halt [of "Some ''u''"] by simp

end
