(* ===== verification/Gateway.thy ===== *)
theory Gateway
  imports Contracts Idempotency Kill_Switch
begin

text \<open>
  The one gate to the broker (\<open>core/gateway/order_gateway.py\<close>): the decision over an intent, its
  execution, its record, and the idempotency key of a request.

  The broker, the halt query and the record sink come from outside. Broker and halt query are
  functions on their own states; the record sink is the list of records, because \<open>record\<close> never
  raises. \<open>h\<close> is the hex digest of SHA-256 (\<open>Idempotency\<close>).
\<close>

section \<open>Requests\<close>

text \<open>
  A keyword request, a request model with a field \<open>client_order_id\<close> (its value and the other
  fields), or any other form.
\<close>

datatype auftrag = KwargsAuftrag "(string \<times> jval) list" | Modell jval "(string \<times> jval) list" | Andere jval

definition mit_schluessel :: "(string \<Rightarrow> string) \<Rightarrow> order_intent \<Rightarrow> auftrag \<Rightarrow> auftrag" where
  "mit_schluessel h intent request =
     (case request of
        Modell vorhanden felder \<Rightarrow>
          if (case vorhanden of JStr k \<Rightarrow> k \<noteq> [] | _ \<Rightarrow> False) then request
          else if ist_ersatz (Some (oi_decision_id intent)) then request
          else (case derive_client_order_id h (oi_decision_id intent @ ''-'' @ oi_symbol intent)
                       (kind_text (oi_kind intent)) 0 of
                  Inl _ \<Rightarrow> request
                | Inr schluessel \<Rightarrow> Modell (JStr schluessel) felder)
      | _ \<Rightarrow> request)"

section \<open>OrderGateway\<close>

definition never_blocked_kinds :: "intent_kind list" where
  "never_blocked_kinds = [Displacement, Panic, Breaker, StrategySwitch]"

fun exempt_reason_by_kind :: "intent_kind \<Rightarrow> reason_code" where
  "exempt_reason_by_kind Panic = Emergency"
| "exempt_reason_by_kind Breaker = BreakerCode"
| "exempt_reason_by_kind StrategySwitch = StrategySwitchCode"
| "exempt_reason_by_kind _ = ExitExempt"

definition freigestellt :: "order_intent \<Rightarrow> bool" where
  "freigestellt i = (oi_protective i \<or> oi_kind i \<in> set never_blocked_kinds)"

text \<open>The three collaborators of the gate.\<close>

record ('b, 'h, 'r) zugang =
  zu_submit :: "'b \<Rightarrow> auftrag \<Rightarrow> 'b \<times> (py_error + 'r)"
  zu_cancel :: "'b \<Rightarrow> string \<Rightarrow> 'b \<times> (py_error + unit)"
  zu_is_halted :: "'h \<Rightarrow> string option \<Rightarrow> 'h \<times> bool"

record satz =
  sa_decision :: compliance_decision
  sa_intent :: "order_intent option"
  sa_storno :: "(string \<times> string) option"

record ('b, 'h) tor =
  to_broker :: 'b
  to_halt :: 'h
  to_saetze :: "satz list"

definition record_satz :: "compliance_decision \<Rightarrow> order_intent option \<Rightarrow> (string \<times> string) option
    \<Rightarrow> ('b, 'h) tor \<Rightarrow> ('b, 'h) tor" where
  "record_satz d i st t = t\<lparr>to_saetze := to_saetze t @ [\<lparr>sa_decision = d, sa_intent = i, sa_storno = st\<rparr>]\<rparr>"

text \<open>The text an exception carries.\<close>

fun str_exc :: "py_error \<Rightarrow> string" where
  "str_exc (BrokerError s) = s"
| "str_exc _ = []"

text \<open>
  \<open>_decide\<close>, without the halt query: \<open>halted\<close> is its answer. \<open>mk\<close> is the decision the contract
  builds; an intent has a non-empty decision id, so building it does not raise.
\<close>

definition mk :: "string \<Rightarrow> bool \<Rightarrow> reason_code \<Rightarrow> string \<Rightarrow> bool \<Rightarrow> compliance_decision" where
  "mk d a r t h = \<lparr>cd_decision_id = d, cd_approved = a, cd_reason = r, cd_detail = t, cd_halted = h\<rparr>"

definition entscheide :: "order_intent \<Rightarrow> compliance_decision option \<Rightarrow> bool \<Rightarrow> compliance_decision" where
  "entscheide intent prior halted =
     (if freigestellt intent
      then let detail = (if oi_protective intent then ''Schutz-Exit: protokolliert, nicht blockiert''
                         else kind_text (oi_kind intent) @ '': protokolliert, nicht blockiert (Freistellungs-Matrix)'');
               detail' = (case prior of
                            Some d \<Rightarrow> if \<not> cd_approved d
                                      then detail @ '' (uebergangene Ablehnung: '' @ reason_text (cd_reason d) @ '')''
                                      else detail
                          | None \<Rightarrow> detail)
           in mk (oi_decision_id intent) True (exempt_reason_by_kind (oi_kind intent)) detail' halted
      else if halted
           then mk (oi_decision_id intent) False TradingHalted ''Handel gehalten -- nur Schutz-Exits passieren'' True
      else case prior of
             Some d \<Rightarrow> d
           | None \<Rightarrow> mk (oi_decision_id intent) True Approved [] False)"

text \<open>
  \<open>getattr(intent, "user_id", None)\<close> on a contract without that field and without further ones is
  \<open>None\<close>: the gate asks for the global halt.
\<close>

definition decide ::
  "('b, 'h, 'r) zugang \<Rightarrow> order_intent \<Rightarrow> compliance_decision option \<Rightarrow> ('b, 'h) tor
     \<Rightarrow> ('b, 'h) tor \<times> compliance_decision" where
  "decide z intent prior t =
     (let (h', halted) = zu_is_halted z (to_halt t) None
      in (t\<lparr>to_halt := h'\<rparr>, entscheide intent prior halted))"

text \<open>\<open>submit_with_result\<close>: the exception of the broker is raised again after it was recorded.\<close>

definition submit_with_result ::
  "(string \<Rightarrow> string) \<Rightarrow> ('b, 'h, 'r) zugang \<Rightarrow> order_intent \<Rightarrow> auftrag \<Rightarrow> compliance_decision option
     \<Rightarrow> ('b, 'h) tor \<Rightarrow> ('b, 'h) tor \<times> (py_error + compliance_decision \<times> 'r option)" where
  "submit_with_result h z intent request prior t =
     (let (t1, d) = decide z intent prior t
      in if \<not> cd_approved d then (record_satz d (Some intent) None t1, Inr (d, None))
         else case zu_submit z (to_broker t1) (mit_schluessel h intent request) of
                (b', Inl exc) \<Rightarrow>
                  (record_satz (mk (oi_decision_id intent) (cd_approved d) SystemError
                      (''Broker-Aufruf fehlgeschlagen: '' @ str_exc exc) (cd_halted d))
                    (Some intent) None (t1\<lparr>to_broker := b'\<rparr>), Inl exc)
              | (b', Inr antwort) \<Rightarrow>
                  (record_satz d (Some intent) None (t1\<lparr>to_broker := b'\<rparr>), Inr (d, Some antwort)))"

definition submit ::
  "(string \<Rightarrow> string) \<Rightarrow> ('b, 'h, 'r) zugang \<Rightarrow> order_intent \<Rightarrow> auftrag \<Rightarrow> compliance_decision option
     \<Rightarrow> ('b, 'h) tor \<Rightarrow> ('b, 'h) tor \<times> (py_error + compliance_decision)" where
  "submit h z intent request prior t =
     (case submit_with_result h z intent request prior t of
        (t', Inl exc) \<Rightarrow> (t', Inl exc)
      | (t', Inr (d, _)) \<Rightarrow> (t', Inr d))"

text \<open>
  A cancellation is recorded and never blocked. The contract refuses an empty decision id: then the
  cancellation happened and the exception leaves without a record.
\<close>

definition storniere ::
  "('b, 'h, 'r) zugang \<Rightarrow> string \<Rightarrow> string \<Rightarrow> string \<Rightarrow> string \<Rightarrow> ('b, 'h) tor
     \<Rightarrow> ('b, 'h) tor \<times> (py_error + compliance_decision)" where
  "storniere z order_id symbol decision_id grund t =
     (let (h', halted) = zu_is_halted z (to_halt t) None; t1 = t\<lparr>to_halt := h'\<rparr>;
          detail = ''Storno '' @ order_id @ '': '' @ grund @ '' (protokolliert, nicht blockiert)''
      in case zu_cancel z (to_broker t1) order_id of
           (b', Inl exc) \<Rightarrow>
             (case mk_decision decision_id True SystemError
                     (detail @ '' -- Broker-Aufruf fehlgeschlagen: '' @ str_exc exc) halted of
                Inl err \<Rightarrow> (t1\<lparr>to_broker := b'\<rparr>, Inl err)
              | Inr d \<Rightarrow> (record_satz d None (Some (symbol, order_id)) (t1\<lparr>to_broker := b'\<rparr>), Inl exc))
         | (b', Inr _) \<Rightarrow>
             (case mk_decision decision_id True ExitExempt detail halted of
                Inl err \<Rightarrow> (t1\<lparr>to_broker := b'\<rparr>, Inl err)
              | Inr d \<Rightarrow> (record_satz d None (Some (symbol, order_id)) (t1\<lparr>to_broker := b'\<rparr>), Inr d)))"

section \<open>What the gate asks of the halt query\<close>

text \<open>An answer \<open>halted\<close> stays until somebody resets: asking does not lift it.\<close>

locale halt_abfrage =
  fixes frage :: "'h \<Rightarrow> string option \<Rightarrow> 'h \<times> bool"
  assumes sticky: "snd (frage k u) \<Longrightarrow> snd (frage (fst (frage k v)) u)"
begin

lemma asked_stays: "snd (frage k u) \<Longrightarrow> snd (frage (fst (frage k u)) u)"
  by (rule sticky)

end

text \<open>The kill switch of a process over a store that does not change meanwhile, and the local halt.\<close>

lemma is_halted_sticky:
  assumes "snd (is_halted a u k s)"
  shows "snd (is_halted a u (fst (is_halted a v k s)) s)"
  using assms
  by (auto simp: is_halted_def split: option.splits sum.splits if_splits)

definition ks_frage :: "'s ablage option \<Rightarrow> ks \<times> 's \<Rightarrow> string option \<Rightarrow> (ks \<times> 's) \<times> bool" where
  "ks_frage a k u = (let (k', b) = is_halted a u (fst k) (snd k) in ((k', snd k), b))"

definition lh_frage :: "lokaler_halt \<Rightarrow> string option \<Rightarrow> lokaler_halt \<times> bool" where
  "lh_frage k u = (k, lh_is_halted u k)"

interpretation ks_halt: halt_abfrage "ks_frage a"
  by unfold_locales (simp add: ks_frage_def case_prod_beta is_halted_sticky)

interpretation lh_halt: halt_abfrage lh_frage
  by unfold_locales (simp add: lh_frage_def)

section \<open>Lemmas about one submission\<close>

lemma entscheide_freigestellt:
  "freigestellt i \<Longrightarrow> cd_approved (entscheide i p halted) \<and> cd_halted (entscheide i p halted) = halted \<and>
     cd_reason (entscheide i p halted) = exempt_reason_by_kind (oi_kind i)"
  by (simp add: entscheide_def mk_def Let_def)

lemma entscheide_halted:
  "\<not> freigestellt i \<Longrightarrow> entscheide i p True =
     mk (oi_decision_id i) False TradingHalted ''Handel gehalten -- nur Schutz-Exits passieren'' True"
  by (simp add: entscheide_def)

lemma entscheide_prior: "\<not> freigestellt i \<Longrightarrow> entscheide i (Some d) False = d"
  by (simp add: entscheide_def)

lemma entscheide_offen:
  "\<not> freigestellt i \<Longrightarrow> entscheide i None False = mk (oi_decision_id i) True Approved [] False"
  by (simp add: entscheide_def)

lemma mk_sel [simp]: "cd_approved (mk d a r x hl) = a" "cd_reason (mk d a r x hl) = r"
  "cd_decision_id (mk d a r x hl) = d" "cd_halted (mk d a r x hl) = hl"
  by (simp_all add: mk_def)

lemma record_satz_sel [simp]: "to_broker (record_satz d i st t) = to_broker t"
  "to_halt (record_satz d i st t) = to_halt t"
  "to_saetze (record_satz d i st t) = to_saetze t @ [\<lparr>sa_decision = d, sa_intent = i, sa_storno = st\<rparr>]"
  by (simp_all add: record_satz_def)

text \<open>A submission by the answer of the halt query, for every branch.\<close>

lemma submit_spec:
  fixes z :: "('b, 'h, 'r) zugang"
  assumes "submit_with_result h z i req p t = (t', r)"
  defines "d \<equiv> entscheide i p (snd (zu_is_halted z (to_halt t) None))"
  shows "to_halt t' = fst (zu_is_halted z (to_halt t) None)"
    "to_broker t' = (if cd_approved d then fst (zu_submit z (to_broker t) (mit_schluessel h i req)) else to_broker t)"
    "\<exists>d'. to_saetze t' = to_saetze t @ [\<lparr>sa_decision = d', sa_intent = Some i, sa_storno = None\<rparr>] \<and>
       cd_approved d' = cd_approved d \<and>
       d' = (case r of Inl exc \<Rightarrow> mk (oi_decision_id i) True SystemError (''Broker-Aufruf fehlgeschlagen: '' @ str_exc exc) (cd_halted d)
                     | Inr _ \<Rightarrow> d)"
    "r = (if \<not> cd_approved d then Inr (d, None)
          else case snd (zu_submit z (to_broker t) (mit_schluessel h i req)) of
                 Inl exc \<Rightarrow> Inl exc | Inr x \<Rightarrow> Inr (d, Some x))"
proof -
  have run: "decide z i p t = (t\<lparr>to_halt := fst (zu_is_halted z (to_halt t) None)\<rparr>, d)"
    by (simp add: decide_def d_def case_prod_beta)
  show "to_halt t' = fst (zu_is_halted z (to_halt t) None)"
    "to_broker t' = (if cd_approved d then fst (zu_submit z (to_broker t) (mit_schluessel h i req)) else to_broker t)"
    "\<exists>d'. to_saetze t' = to_saetze t @ [\<lparr>sa_decision = d', sa_intent = Some i, sa_storno = None\<rparr>] \<and>
       cd_approved d' = cd_approved d \<and>
       d' = (case r of Inl exc \<Rightarrow> mk (oi_decision_id i) True SystemError (''Broker-Aufruf fehlgeschlagen: '' @ str_exc exc) (cd_halted d)
                     | Inr _ \<Rightarrow> d)"
    "r = (if \<not> cd_approved d then Inr (d, None)
          else case snd (zu_submit z (to_broker t) (mit_schluessel h i req)) of
                 Inl exc \<Rightarrow> Inl exc | Inr x \<Rightarrow> Inr (d, Some x))"
    using assms(1)
    by (auto simp: submit_with_result_def run split: if_splits prod.splits sum.splits)
qed

text \<open>A list of submissions, one after the other; what was raised is not their concern here.\<close>

fun submit_alle ::
  "(string \<Rightarrow> string) \<Rightarrow> ('b, 'h, 'r) zugang \<Rightarrow> (order_intent \<times> auftrag \<times> compliance_decision option) list
     \<Rightarrow> ('b, 'h) tor \<Rightarrow> ('b, 'h) tor" where
  "submit_alle h z [] t = t"
| "submit_alle h z ((i, req, p) # as) t = submit_alle h z as (fst (submit_with_result h z i req p t))"

context halt_abfrage
begin

lemma halted_submissions:
  assumes "zu_is_halted z = frage" "snd (frage (to_halt t) None)"
    "\<forall>(i, req, p) \<in> set as. \<not> freigestellt i"
  shows "to_broker (submit_alle h z as t) = to_broker t \<and>
    to_saetze (submit_alle h z as t) = to_saetze t @ map (\<lambda>(i, req, p).
      \<lparr>sa_decision = mk (oi_decision_id i) False TradingHalted ''Handel gehalten -- nur Schutz-Exits passieren'' True,
       sa_intent = Some i, sa_storno = None\<rparr>) as"
  using assms
proof (induction "as" arbitrary: t)
  case (Cons a as)
  obtain i req p where a: "a = (i, req, p)" by (cases a)
  obtain t1 r where run: "submit_with_result h z i req p t = (t1, r)" by fastforce
  have d: "entscheide i p (snd (zu_is_halted z (to_halt t) None)) =
      mk (oi_decision_id i) False TradingHalted ''Handel gehalten -- nur Schutz-Exits passieren'' True"
    using Cons.prems by (simp add: a entscheide_halted)
  note spec = submit_spec [OF run, unfolded d]
  have b: "to_broker t1 = to_broker t" using spec(2) by simp
  have h: "to_halt t1 = fst (frage (to_halt t) None)" using spec(1) Cons.prems(1) by simp
  have r: "r = Inr (mk (oi_decision_id i) False TradingHalted ''Handel gehalten -- nur Schutz-Exits passieren'' True, None)"
    using spec(4) by simp
  have s: "to_saetze t1 = to_saetze t @ [\<lparr>sa_decision = mk (oi_decision_id i) False TradingHalted
      ''Handel gehalten -- nur Schutz-Exits passieren'' True, sa_intent = Some i, sa_storno = None\<rparr>]"
    using spec(3) by (auto simp: r)
  have "snd (frage (to_halt t1) None)" unfolding h by (rule sticky) (use Cons.prems(2) in simp)
  from Cons.IH [OF Cons.prems(1) this] Cons.prems(3) b s run show ?case by (simp add: a)
qed simp

end

section \<open>Properties\<close>

text \<open>
  C1: While the kill switch is halted, no sequence of submissions of entries, stops, trims and other
  intents without exemption reaches the broker: it is never called, every intent leaves exactly one
  rejected record with the reason \<open>trading_halted\<close>, whatever the compliance check said before.
\<close>

theorem halted_gate_sends_nothing:
  assumes "zu_is_halted z = ks_frage a" "snd (ks_frage a (to_halt t) None)"
    "\<forall>(i, req, p) \<in> set as. \<not> freigestellt i"
  shows "to_broker (submit_alle h z as t) = to_broker t \<and>
    to_saetze (submit_alle h z as t) = to_saetze t @ map (\<lambda>(i, req, p).
      \<lparr>sa_decision = mk (oi_decision_id i) False TradingHalted ''Handel gehalten -- nur Schutz-Exits passieren'' True,
       sa_intent = Some i, sa_storno = None\<rparr>) as"
  by (rule ks_halt.halted_submissions [OF assms])

definition bsp_order :: "intent_kind \<Rightarrow> order_intent" where
  "bsp_order k = \<lparr>oi_decision_id = ''d1'', oi_symbol = ''AAPL'', oi_side = Sell, oi_qty = 2, oi_kind = k,
     oi_protective = False, oi_exit_kind = None, oi_halted = False, oi_limit_price = None,
     oi_stop_price = None, oi_gtc = False, oi_verkaufsgrund = None\<rparr>"

text \<open>A broker that keeps the requests it received and answers them all.\<close>

definition bsp_zugang :: "('h \<Rightarrow> string option \<Rightarrow> 'h \<times> bool) \<Rightarrow> (auftrag list, 'h, unit) zugang" where
  "bsp_zugang q = \<lparr>zu_submit = (\<lambda>b r. (b @ [r], Inr ())), zu_cancel = (\<lambda>b _. (b, Inr ())), zu_is_halted = q\<rparr>"

lemma halted_gate_sends_nothing_witness:
  "to_broker (submit_alle bsp_hash (bsp_zugang (ks_frage (None :: unit ablage option)))
     [(bsp_order Entry, Modell JNull [], None)]
     \<lparr>to_broker = [], to_halt = (bsp_ks\<lparr>ks_local := True\<rparr>, ()), to_saetze = []\<rparr>) = []"
  using halted_gate_sends_nothing [where z = "bsp_zugang (ks_frage (None :: unit ablage option))" and a = None
      and t = "\<lparr>to_broker = [], to_halt = (bsp_ks\<lparr>ks_local := True\<rparr>, ()), to_saetze = []\<rparr>"
      and as = "[(bsp_order Entry, Modell JNull [], None)]" and h = bsp_hash]
  by (simp add: bsp_zugang_def ks_frage_def is_halted_def freigestellt_def never_blocked_kinds_def bsp_order_def)

text \<open>
  The emergency exit is never locked: a protective exit, a displacement, a panic sale, a breaker
  or strategy-switch liquidation reaches the broker with its request, under every halt and every
  earlier rejection, and its record says approved with the reason of its kind, or system error when
  the broker call failed.
\<close>

theorem exempt_always_sent:
  assumes "freigestellt i" "submit_with_result h z i req p t = (t', r)"
  shows "to_broker t' = fst (zu_submit z (to_broker t) (mit_schluessel h i req)) \<and>
    (\<exists>d. to_saetze t' = to_saetze t @ [\<lparr>sa_decision = d, sa_intent = Some i, sa_storno = None\<rparr>] \<and> cd_approved d \<and>
      cd_reason d = (if snd (zu_submit z (to_broker t) (mit_schluessel h i req)) \<in> range Inl then SystemError
                     else exempt_reason_by_kind (oi_kind i)))"
proof -
  let ?d = "entscheide i p (snd (zu_is_halted z (to_halt t) None))"
  note ex = entscheide_freigestellt [OF assms(1), of p "snd (zu_is_halted z (to_halt t) None)"]
  note spec = submit_spec [OF assms(2)]
  from spec(4) ex have r: "r = (case snd (zu_submit z (to_broker t) (mit_schluessel h i req)) of
      Inl exc \<Rightarrow> Inl exc | Inr x \<Rightarrow> Inr (?d, Some x))" by simp
  from spec(2,3) ex show ?thesis
    by (cases "snd (zu_submit z (to_broker t) (mit_schluessel h i req))") (auto simp: r)
qed

lemma exempt_always_sent_witness:
  "to_broker (fst (submit_with_result bsp_hash (bsp_zugang lh_frage) (bsp_order Panic) (Andere JNull) None
     \<lparr>to_broker = [], to_halt = lh_trip None lh_start, to_saetze = []\<rparr>)) = [Andere JNull]"
proof -
  obtain t' r where run: "submit_with_result bsp_hash (bsp_zugang lh_frage) (bsp_order Panic) (Andere JNull) None
     \<lparr>to_broker = [], to_halt = lh_trip None lh_start, to_saetze = []\<rparr> = (t', r)" by fastforce
  have "freigestellt (bsp_order Panic)" by (simp add: freigestellt_def never_blocked_kinds_def bsp_order_def)
  from exempt_always_sent [OF this run] run show ?thesis
    by (simp add: bsp_zugang_def mit_schluessel_def)
qed

text \<open>
  Every submission leaves exactly one record, of this intent: approved exactly when the broker was
  called, rejected exactly when it was not and the answer is empty. A rejection of the compliance
  check is carried out unless the intent is exempt, and the exception of a failed broker call reaches
  the caller together with a record of the reason \<open>system_error\<close>.
\<close>

theorem one_record_per_submission:
  assumes "submit_with_result h z i req p t = (t', r)"
  shows "\<exists>d. to_saetze t' = to_saetze t @ [\<lparr>sa_decision = d, sa_intent = Some i, sa_storno = None\<rparr>] \<and>
    (\<not> cd_approved d \<longrightarrow> to_broker t' = to_broker t \<and> r = Inr (d, None)) \<and>
    (cd_approved d \<longrightarrow> to_broker t' = fst (zu_submit z (to_broker t) (mit_schluessel h i req)) \<and>
       (case snd (zu_submit z (to_broker t) (mit_schluessel h i req)) of
          Inl exc \<Rightarrow> r = Inl exc \<and> cd_reason d = SystemError
        | Inr x \<Rightarrow> r = Inr (d, Some x))) \<and>
    (\<forall>d0. p = Some d0 \<and> \<not> cd_approved d0 \<and> \<not> freigestellt i \<longrightarrow> \<not> cd_approved d)"
proof -
  let ?d = "entscheide i p (snd (zu_is_halted z (to_halt t) None))"
  note spec = submit_spec [OF assms]
  have prior: "\<not> cd_approved ?d" if "p = Some d0" "\<not> cd_approved d0" "\<not> freigestellt i" for d0
    using that by (simp add: entscheide_def)
  show ?thesis
  proof (cases "cd_approved ?d")
    case False
    with spec show ?thesis by auto
  next
    case True
    with spec prior show ?thesis
      by (cases "snd (zu_submit z (to_broker t) (mit_schluessel h i req))") auto
  qed
qed

lemma one_record_per_submission_witness:
  "length (to_saetze (fst (submit_with_result bsp_hash (bsp_zugang lh_frage) (bsp_order Entry) (Andere JNull)
     (Some (mk ''d1'' False WashTrade [] False)) \<lparr>to_broker = [], to_halt = lh_start, to_saetze = []\<rparr>))) = 1"
proof -
  obtain t' r where run: "submit_with_result bsp_hash (bsp_zugang lh_frage) (bsp_order Entry) (Andere JNull)
     (Some (mk ''d1'' False WashTrade [] False)) \<lparr>to_broker = [], to_halt = lh_start, to_saetze = []\<rparr> = (t', r)" by fastforce
  from one_record_per_submission [OF run] run show ?thesis by auto
qed

text \<open>The key of a request after the gate: \<open>None\<close> where the form has none.\<close>

definition schluessel_von :: "auftrag \<Rightarrow> string option" where
  "schluessel_von r = (case r of Modell (JStr k) _ \<Rightarrow> if k = [] then None else Some k | _ \<Rightarrow> None)"

lemma append_minus_neq: "d @ ''-'' @ s = d @ ''-'' @ s' \<longleftrightarrow> s = s'"
  by simp

text \<open>
  The gate gives every order of one real decision its own idempotency key: a request without a
  key gets one; a request of the caller keeps its own; and two intents of the same decision get the
  same derived key only for the same kind and symbol, unless SHA-256 collides. In a liquidation no
  position is therefore taken for the duplicate of another.
\<close>

theorem gateway_keys:
  assumes "hexdigest h" "order_intent_ok i" "order_intent_ok j" "oi_decision_id i = oi_decision_id j"
    "\<not> ist_ersatz (Some (oi_decision_id i))"
  shows "schluessel_von (mit_schluessel h i (Modell JNull fs)) \<noteq> None \<and>
    mit_schluessel h i (Modell (JStr (c # k)) fs) = Modell (JStr (c # k)) fs \<and>
    (schluessel_von (mit_schluessel h i (Modell JNull fs)) = schluessel_von (mit_schluessel h j (Modell JNull fs')) \<longrightarrow>
      oi_kind i = oi_kind j \<and> (oi_symbol i = oi_symbol j \<or>
        digest h (oi_decision_id i @ ''-'' @ oi_symbol i) = digest h (oi_decision_id j @ ''-'' @ oi_symbol j)))"
proof -
  have leg: "kind_text k \<in> set legs" for k by (cases k) (simp_all add: legs_def)
  have kind: "kind_text a = kind_text b \<Longrightarrow> a = b" for a b by (cases a; cases b) simp_all
  have derived: "\<exists>k. derive_client_order_id h (oi_decision_id x @ ''-'' @ oi_symbol x) (kind_text (oi_kind x)) 0 = Inr k \<and> k \<noteq> []" for x
    using leg [of "oi_kind x"] by (simp add: derive_form praefix_def)
  obtain ki where ki: "derive_client_order_id h (oi_decision_id i @ ''-'' @ oi_symbol i) (kind_text (oi_kind i)) 0 = Inr ki" "ki \<noteq> []"
    using derived by blast
  obtain kj where kj: "derive_client_order_id h (oi_decision_id j @ ''-'' @ oi_symbol j) (kind_text (oi_kind j)) 0 = Inr kj" "kj \<noteq> []"
    using derived by blast
  have "schluessel_von (mit_schluessel h i (Modell JNull fs)) = Some ki"
    "schluessel_von (mit_schluessel h j (Modell JNull fs')) = Some kj"
    using ki kj assms(4,5) by (simp_all add: mit_schluessel_def schluessel_von_def)
  moreover have "oi_kind i = oi_kind j \<and> (oi_symbol i = oi_symbol j \<or>
        digest h (oi_decision_id i @ ''-'' @ oi_symbol i) = digest h (oi_decision_id j @ ''-'' @ oi_symbol j))" if "ki = kj"
  proof -
    have kj': "derive_client_order_id h (oi_decision_id j @ ''-'' @ oi_symbol j) (kind_text (oi_kind j)) 0 = Inr ki"
      using kj(1) that by simp
    note eq = derive_inj [OF assms(1) ki(1) kj']
    then have "oi_kind i = oi_kind j" using kind by blast
    moreover from eq have "oi_symbol i = oi_symbol j \<or>
        digest h (oi_decision_id i @ ''-'' @ oi_symbol i) = digest h (oi_decision_id j @ ''-'' @ oi_symbol j)"
      using assms(4) append_minus_neq by metis
    ultimately show ?thesis by blast
  qed
  ultimately show ?thesis by (simp add: mit_schluessel_def)
qed

lemma gateway_keys_witness:
  "schluessel_von (mit_schluessel bsp_hash (bsp_order Panic) (Modell JNull [])) \<noteq> None"
  using gateway_keys [OF hexdigest_bsp, of "bsp_order Panic" "bsp_order Panic" "[]"]
  by (simp add: bsp_order_def order_intent_ok_def ist_ersatz_def ersatz_praefix_def startswith_def)

text \<open>
  A cancellation is never blocked: under every halt the broker is asked to cancel the order, and
  with a decision id the gate leaves exactly one record, approved, with symbol and order id.
\<close>

theorem storno_never_blocked:
  assumes "decision_id \<noteq> []" "storniere z order_id symbol decision_id grund t = (t', r)"
  shows "to_broker t' = fst (zu_cancel z (to_broker t) order_id) \<and>
    (\<exists>d. to_saetze t' = to_saetze t @ [\<lparr>sa_decision = d, sa_intent = None, sa_storno = Some (symbol, order_id)\<rparr>] \<and>
       cd_approved d \<and> (r = Inr d \<or> (\<exists>exc. r = Inl exc \<and> cd_reason d = SystemError)))"
  using assms
  by (auto simp: storniere_def Let_def mk_decision_Inr split: prod.splits sum.splits)

lemma storno_never_blocked_witness:
  "to_saetze (fst (storniere (bsp_zugang lh_frage) ''o1'' ''AAPL'' ''d1'' ''frei''
     \<lparr>to_broker = [], to_halt = lh_trip None lh_start, to_saetze = []\<rparr>)) \<noteq> []"
proof -
  obtain t' r where run: "storniere (bsp_zugang lh_frage) ''o1'' ''AAPL'' ''d1'' ''frei''
     \<lparr>to_broker = [], to_halt = lh_trip None lh_start, to_saetze = []\<rparr> = (t', r)" by fastforce
  from storno_never_blocked [OF _ run] run show ?thesis by auto
qed

text \<open>
  The halt of a single user never stops the gate: the intent carries no user, so the gate asks for
  the global halt alone, and an order of a user whose halt is set is sent to the broker.
\<close>

theorem user_halt_not_consulted:
  assumes "nutzer u \<noteq> None" "zu_is_halted z = ks_frage None"
    and "to_halt t = (fst (trip (None :: unit ablage option) reason zeit u tok fc bsp_ks ()), ())"
    and "submit_with_result h z i req None t = (t', r)"
  shows "snd (is_halted (None :: unit ablage option) u (fst (to_halt t)) ()) \<and>
    to_broker t' = fst (zu_submit z (to_broker t) (mit_schluessel h i req))"
proof
  show "snd (is_halted (None :: unit ablage option) u (fst (to_halt t)) ())"
    using assms(1,3) by (auto simp: trip_def is_halted_def bsp_ks_def Let_def)
  have "\<not> snd (zu_is_halted z (to_halt t) None)"
    using assms(1-3) by (auto simp: ks_frage_def trip_def is_halted_def bsp_ks_def Let_def)
  then have "cd_approved (entscheide i None (snd (zu_is_halted z (to_halt t) None)))"
    by (simp add: entscheide_def mk_def Let_def)
  with submit_spec(2) [OF assms(4)] show "to_broker t' = fst (zu_submit z (to_broker t) (mit_schluessel h i req))"
    by simp
qed

lemma user_halt_not_consulted_witness:
  "to_broker (fst (submit_with_result bsp_hash (bsp_zugang (ks_frage None)) (bsp_order Entry) (Andere JNull) None
     \<lparr>to_broker = [], to_halt = (fst (trip (None :: unit ablage option) ''loss'' ''t'' (Some ''u'') None True bsp_ks ()), ()),
      to_saetze = []\<rparr>)) = [Andere JNull]"
proof -
  let ?t = "\<lparr>to_broker = [], to_halt = (fst (trip (None :: unit ablage option) ''loss'' ''t'' (Some ''u'') None True bsp_ks ()), ()),
      to_saetze = []\<rparr>"
  obtain t' r where run: "submit_with_result bsp_hash (bsp_zugang (ks_frage None)) (bsp_order Entry) (Andere JNull) None ?t = (t', r)"
    by fastforce
  from user_halt_not_consulted [where u = "Some ''u''", OF _ _ _ run] run show ?thesis
    by (simp add: bsp_zugang_def mit_schluessel_def)
qed

end
