(* ===== verification/Liquidation.thy ===== *)
theory Liquidation
  imports Gateway
begin

text \<open>
  Closing the whole book through the gate (\<open>core/gateway/liquidation.py\<close>) and the sink of its
  decisions (\<open>core/gateway/fabrik.py\<close>): the audit entry of every decision and the sell reason of
  every executed sale.

  A position is what the broker's client returns: each field is missing or a value. The factory of
  requests is a parameter and may raise.
\<close>

section \<open>Liquidation\<close>

record position =
  ps_symbol :: string
  ps_qty_available :: attribut
  ps_qty :: attribut

text \<open>\<open>_menge\<close>: \<open>qty_available\<close> first; what is no number counts as 0. A missing \<open>qty\<close> is 0.\<close>

definition menge :: "position \<Rightarrow> real" where
  "menge p =
     (let roh = (case ps_qty_available p of Fehlt \<Rightarrow> ps_qty p | Wert w \<Rightarrow> Wert w)
      in case roh of
           Fehlt \<Rightarrow> 0
         | Wert w \<Rightarrow> (case wert_float w of None \<Rightarrow> 0 | Some r \<Rightarrow> \<bar>r\<bar>))"

record liquidation_report =
  lr_attempted :: nat
  lr_submitted :: nat
  lr_failed :: "(string \<times> string) list"

definition lr_complete :: "liquidation_report \<Rightarrow> bool" where
  "lr_complete r = (lr_failed r = [])"

definition liq_intent :: "string \<Rightarrow> intent_kind \<Rightarrow> bool \<Rightarrow> bool \<Rightarrow> position \<Rightarrow> order_intent" where
  "liq_intent decision_id kind halted gtc p =
     \<lparr>oi_decision_id = decision_id, oi_symbol = ps_symbol p, oi_side = Sell, oi_qty = menge p,
      oi_kind = kind, oi_protective = False, oi_exit_kind = None, oi_halted = halted,
      oi_limit_price = None, oi_stop_price = None, oi_gtc = gtc, oi_verkaufsgrund = None\<rparr>"

text \<open>One position: build the intent, build the request, submit; every exception is a failure.\<close>

definition liquidiere_eine ::
  "(string \<Rightarrow> string) \<Rightarrow> ('b, 'h, 'r) zugang \<Rightarrow> string \<Rightarrow> intent_kind
     \<Rightarrow> (string \<Rightarrow> real \<Rightarrow> py_error + auftrag) \<Rightarrow> bool \<Rightarrow> bool \<Rightarrow> position \<Rightarrow> ('b, 'h) tor
     \<Rightarrow> ('b, 'h) tor \<times> (py_error + compliance_decision)" where
  "liquidiere_eine h z decision_id kind factory halted gtc p t =
     (case mk_order_intent (liq_intent decision_id kind halted gtc p) of
        Inl exc \<Rightarrow> (t, Inl exc)
      | Inr intent \<Rightarrow>
          (case factory (ps_symbol p) (menge p) of
             Inl exc \<Rightarrow> (t, Inl exc)
           | Inr request \<Rightarrow> submit h z intent request None t))"

fun liquidate_positions ::
  "(string \<Rightarrow> string) \<Rightarrow> ('b, 'h, 'r) zugang \<Rightarrow> string \<Rightarrow> intent_kind
     \<Rightarrow> (string \<Rightarrow> real \<Rightarrow> py_error + auftrag) \<Rightarrow> bool \<Rightarrow> bool \<Rightarrow> position list \<Rightarrow> liquidation_report
     \<Rightarrow> ('b, 'h) tor \<Rightarrow> ('b, 'h) tor \<times> liquidation_report" where
  "liquidate_positions h z decision_id kind factory halted gtc [] r t = (t, r)"
| "liquidate_positions h z decision_id kind factory halted gtc (p # ps) r t =
     (if ps_symbol p = [] \<or> menge p \<le> 0
      then liquidate_positions h z decision_id kind factory halted gtc ps r t
      else let r1 = r\<lparr>lr_attempted := Suc (lr_attempted r)\<rparr>
           in case liquidiere_eine h z decision_id kind factory halted gtc p t of
                (t', Inl exc) \<Rightarrow>
                  liquidate_positions h z decision_id kind factory halted gtc ps
                    (r1\<lparr>lr_failed := lr_failed r1 @ [(ps_symbol p, str_exc exc)]\<rparr>) t'
              | (t', Inr d) \<Rightarrow>
                  liquidate_positions h z decision_id kind factory halted gtc ps
                    (if cd_approved d \<and> cd_reason d \<noteq> SystemError
                     then r1\<lparr>lr_submitted := Suc (lr_submitted r1)\<rparr>
                     else r1\<lparr>lr_failed := lr_failed r1 @ [(ps_symbol p, reason_text (cd_reason d))]\<rparr>) t')"

definition leerer_bericht :: liquidation_report where
  "leerer_bericht = \<lparr>lr_attempted = 0, lr_submitted = 0, lr_failed = []\<rparr>"

section \<open>The sink of the decisions\<close>

text \<open>
  The state of the sink: the counter of decisions without a wired store, the decisions whose sell
  reason was stored (\<open>deque(maxlen=2000)\<close>, youngest last), and the entries of the store. \<open>lege_ab\<close>
  of the store may refuse an entry by an exception, which the sink swallows.
\<close>

type_synonym ablage_eintrag = "string \<times> (string, jval) pydict"

record senke =
  se_nicht_verdrahtet :: nat
  se_gruende :: "string list"
  se_eintraege :: "ablage_eintrag list"

definition jseite :: "seite \<Rightarrow> jval" where
  "jseite s = JStr (case s of Buy \<Rightarrow> ''buy'' | Sell \<Rightarrow> ''sell'')"

definition ablage_daten ::
  "compliance_decision \<Rightarrow> order_intent option \<Rightarrow> (string \<times> string) option \<Rightarrow> (string, jval) pydict" where
  "ablage_daten d intent storno =
     [(''decision_id'', JStr (cd_decision_id d)), (''approved'', JBool (cd_approved d)),
      (''reason_code'', JStr (reason_text (cd_reason d))), (''halted'', JBool (cd_halted d)),
      (''detail'', JStr (cd_detail d))] @
     (case intent of
        Some i \<Rightarrow> [(''symbol'', JStr (oi_symbol i)), (''side'', jseite (oi_side i)), (''qty'', JNum (oi_qty i)),
                   (''intent_kind'', JStr (kind_text (oi_kind i))), (''is_protective_exit'', JBool (oi_protective i))]
      | None \<Rightarrow> (case storno of
                   Some (symbol, order_id) \<Rightarrow> [(''symbol'', JStr symbol), (''storno_order_id'', JStr order_id)]
                 | None \<Rightarrow> []))"

definition klasse_aus_art :: "intent_kind list" where
  "klasse_aus_art = [Displacement, Panic, Breaker, StrategySwitch]"

definition gruende_max :: nat where
  "gruende_max = 2000"

definition erster_grund :: "string \<Rightarrow> string list \<Rightarrow> string list \<times> bool" where
  "erster_grund d gs =
     (if d \<in> set gs then (gs, False)
      else (drop (Suc (length gs) - gruende_max) (gs @ [d]), True))"

definition ist_ausgefuehrter_verkauf :: "compliance_decision \<Rightarrow> order_intent option \<Rightarrow> bool" where
  "ist_ausgefuehrter_verkauf d intent =
     (case intent of
        None \<Rightarrow> False
      | Some i \<Rightarrow> oi_side i = Sell \<and> cd_approved d \<and> cd_reason d \<noteq> SystemError \<and> oi_stop_price i = None)"

text \<open>The reason of the intent, else its kind where that is the class, else unknown.\<close>

definition grund_von :: "order_intent \<Rightarrow> verkaufsgrund" where
  "grund_von i =
     (case oi_verkaufsgrund i of
        Some g \<Rightarrow> g
      | None \<Rightarrow> if oi_kind i \<in> set klasse_aus_art
                then \<lparr>vg_klasse = kind_text (oi_kind i), vg_werte = [], vg_zeitpunkt = None\<rparr>
                else unbekannter_grund)"

definition verkaufsgrund_daten :: "compliance_decision \<Rightarrow> order_intent \<Rightarrow> (string, jval) pydict" where
  "verkaufsgrund_daten d i =
     (let g = grund_von i;
          daten = dict_set ''approved'' (JBool True) (dict_set ''qty'' (JNum (oi_qty i))
                    (dict_set ''symbol'' (JStr (oi_symbol i)) (dict_set ''klasse'' (JStr (vg_klasse g))
                      (dict_set ''decision_id'' (JStr (cd_decision_id d)) (vg_werte g)))))
      in case vg_zeitpunkt g of None \<Rightarrow> daten | Some z \<Rightarrow> dict_set ''zeitpunkt'' (JStr z) daten)"

text \<open>
  \<open>_an_die_ablage\<close>: \<open>port\<close> says whether the wired store takes an entry (\<open>None\<close>: no store). The
  decision is remembered before its reason is stored.
\<close>

definition an_die_ablage ::
  "(ablage_eintrag \<Rightarrow> bool) option \<Rightarrow> compliance_decision \<Rightarrow> order_intent option
     \<Rightarrow> (string \<times> string) option \<Rightarrow> senke \<Rightarrow> senke" where
  "an_die_ablage port d intent storno s =
     (case port of
        None \<Rightarrow> s\<lparr>se_nicht_verdrahtet := Suc (se_nicht_verdrahtet s)\<rparr>
      | Some nimmt \<Rightarrow>
          (let e = (''gateway_decision'', ablage_daten d intent storno)
           in if \<not> nimmt e then s
              else let s1 = s\<lparr>se_eintraege := se_eintraege s @ [e]\<rparr>
                   in if \<not> ist_ausgefuehrter_verkauf d intent then s1
                      else let (gs, erster) = erster_grund (cd_decision_id d) (se_gruende s1);
                               s2 = s1\<lparr>se_gruende := gs\<rparr>
                           in if \<not> erster then s2
                              else let g = (''sell_reason'', verkaufsgrund_daten d (the intent))
                                   in if nimmt g then s2\<lparr>se_eintraege := se_eintraege s2 @ [g]\<rparr> else s2))"

fun senke_alle ::
  "(ablage_eintrag \<Rightarrow> bool) option \<Rightarrow> satz list \<Rightarrow> senke \<Rightarrow> senke" where
  "senke_alle port [] s = s"
| "senke_alle port (a # as) s =
     senke_alle port as (an_die_ablage port (sa_decision a) (sa_intent a) (sa_storno a) s)"

section \<open>Lemmas\<close>

definition schliessbar :: "position \<Rightarrow> bool" where
  "schliessbar p \<longleftrightarrow> ps_symbol p \<noteq> [] \<and> 0 < menge p"

lemma liquidate_report:
  "liquidate_positions h z did kind factory halted gtc ps r t = (t', r') \<Longrightarrow>
     lr_attempted r' = lr_attempted r + length (filter schliessbar ps) \<and>
     lr_attempted r' + lr_submitted r + length (lr_failed r) =
       lr_attempted r + lr_submitted r' + length (lr_failed r')"
proof (induction ps arbitrary: r t)
  case (Cons p ps)
  show ?case
  proof (cases "ps_symbol p = [] \<or> menge p \<le> 0")
    case True
    with Cons.IH [of r t] Cons.prems show ?thesis by (auto simp: schliessbar_def)
  next
    case False
    obtain t1 x where one: "liquidiere_eine h z did kind factory halted gtc p t = (t1, x)" by fastforce
    define r1 where "r1 = (case x of
        Inl exc \<Rightarrow> r\<lparr>lr_attempted := Suc (lr_attempted r), lr_failed := lr_failed r @ [(ps_symbol p, str_exc exc)]\<rparr>
      | Inr d \<Rightarrow> if cd_approved d \<and> cd_reason d \<noteq> SystemError
                 then r\<lparr>lr_attempted := Suc (lr_attempted r), lr_submitted := Suc (lr_submitted r)\<rparr>
                 else r\<lparr>lr_attempted := Suc (lr_attempted r),
                        lr_failed := lr_failed r @ [(ps_symbol p, reason_text (cd_reason d))]\<rparr>)"
    have r1: "liquidate_positions h z did kind factory halted gtc ps r1 t1 = (t', r')"
      using Cons.prems False one by (cases x) (auto simp: r1_def Let_def split: if_splits)
    have "lr_attempted r1 = Suc (lr_attempted r)"
      "lr_submitted r1 + length (lr_failed r1) = Suc (lr_submitted r + length (lr_failed r))"
      by (simp_all add: r1_def split: sum.split)
    with Cons.IH [OF r1] False show ?thesis by (simp add: schliessbar_def)
  qed
qed simp

text \<open>The request a position goes out with, as the broker receives it.\<close>

definition liq_request ::
  "(string \<Rightarrow> string) \<Rightarrow> string \<Rightarrow> intent_kind \<Rightarrow> (string \<Rightarrow> real \<Rightarrow> auftrag) \<Rightarrow> bool \<Rightarrow> bool \<Rightarrow> position \<Rightarrow> auftrag" where
  "liq_request h did kind factory halted gtc p =
     mit_schluessel h (liq_intent did kind halted gtc p) (factory (ps_symbol p) (menge p))"

text \<open>A broker that keeps every request it was given and answers by the request.\<close>

definition protokoll_zugang ::
  "(auftrag \<Rightarrow> py_error + 'r) \<Rightarrow> ('h \<Rightarrow> string option \<Rightarrow> 'h \<times> bool) \<Rightarrow> (auftrag list, 'h, 'r) zugang" where
  "protokoll_zugang antwort q =
     \<lparr>zu_submit = (\<lambda>b r. (b @ [r], antwort r)), zu_cancel = (\<lambda>b _. (b, Inr ())), zu_is_halted = q\<rparr>"

lemma liquidiere_eine_sends:
  assumes "kind \<in> set never_blocked_kinds" "did \<noteq> []" "schliessbar p"
    "liquidiere_eine h (protokoll_zugang antwort q) did kind (\<lambda>s m. Inr (factory s m)) halted gtc p t = (t', x)"
  shows "to_broker t' = to_broker t @ [liq_request h did kind factory halted gtc p]"
proof -
  let ?i = "liq_intent did kind halted gtc p"
  have ok: "order_intent_ok ?i" using assms(2,3) by (simp add: order_intent_ok_def liq_intent_def schliessbar_def)
  have free: "freigestellt ?i" using assms(1) by (simp add: freigestellt_def liq_intent_def)
  obtain t1 r where run: "submit_with_result h (protokoll_zugang antwort q) ?i (factory (ps_symbol p) (menge p)) None t = (t1, r)"
    by fastforce
  have "t' = t1" using assms(4) ok run
    by (auto simp: liquidiere_eine_def mk_order_intent_def submit_def split: sum.splits prod.splits)
  with submit_spec(2) [OF run] entscheide_freigestellt [OF free] show ?thesis
    by (simp add: protokoll_zugang_def liq_request_def)
qed

lemma liquidate_sends:
  assumes "kind \<in> set never_blocked_kinds" "did \<noteq> []"
    "liquidate_positions h (protokoll_zugang antwort q) did kind (\<lambda>s m. Inr (factory s m)) halted gtc ps r t = (t', r')"
  shows "to_broker t' = to_broker t @ map (liq_request h did kind factory halted gtc) (filter schliessbar ps)"
  using assms(3)
proof (induction ps arbitrary: r t)
  case (Cons p ps)
  show ?case
  proof (cases "schliessbar p")
    case False
    with Cons show ?thesis by (auto simp: schliessbar_def not_less split: if_splits)
  next
    case True
    obtain t1 x where one: "liquidiere_eine h (protokoll_zugang antwort q) did kind (\<lambda>s m. Inr (factory s m)) halted gtc p t = (t1, x)"
      by fastforce
    obtain r1 where "liquidate_positions h (protokoll_zugang antwort q) did kind (\<lambda>s m. Inr (factory s m)) halted gtc ps r1 t1 = (t', r')"
      using Cons.prems one True by (auto simp: schliessbar_def Let_def split: sum.splits)
    from Cons.IH [OF this] liquidiere_eine_sends [OF assms(1,2) True one] True show ?thesis by simp
  qed
qed simp

lemma erster_grund_spec:
  "erster_grund d gs = (gs', True) \<Longrightarrow> d \<notin> set gs \<and> d \<in> set gs'"
  "erster_grund d gs = (gs', False) \<Longrightarrow> d \<in> set gs \<and> gs' = gs"
  by (auto simp: erster_grund_def gruende_max_def drop_Suc split: if_splits)

text \<open>The sell reasons stored for a decision.\<close>

definition gruende_zu :: "string \<Rightarrow> ablage_eintrag list \<Rightarrow> ablage_eintrag list" where
  "gruende_zu d es = filter (\<lambda>e. fst e = ''sell_reason'' \<and> map_of (snd e) ''decision_id'' = Some (JStr d)) es"

lemma verkaufsgrund_daten_id: "map_of (verkaufsgrund_daten d i) ''decision_id'' = Some (JStr (cd_decision_id d))"
  by (simp add: verkaufsgrund_daten_def Let_def split: option.split)

section \<open>Properties\<close>

text \<open>
  A liquidation accounts for every position: the positions it attempted are exactly those with a
  symbol and a closable quantity, and each of them is counted either as submitted or as failed with
  its symbol; a failure at one position never keeps the others from being attempted.
\<close>

theorem liquidation_accounts_for_all:
  assumes "liquidate_positions h z did kind factory halted gtc ps leerer_bericht t = (t', r)"
  shows "lr_attempted r = length (filter schliessbar ps) \<and>
    lr_attempted r = lr_submitted r + length (lr_failed r) \<and>
    (lr_complete r \<longleftrightarrow> lr_submitted r = length (filter schliessbar ps))"
  using liquidate_report [OF assms] by (auto simp: leerer_bericht_def lr_complete_def)

definition bsp_position :: "string \<Rightarrow> position" where
  "bsp_position s = \<lparr>ps_symbol = s, ps_qty_available = Fehlt, ps_qty = Wert (Zahl (-3))\<rparr>"

lemma liquidation_accounts_for_all_witness:
  "lr_attempted (snd (liquidate_positions bsp_hash (bsp_zugang lh_frage) ''d1'' Panic (\<lambda>s m. Inr (Modell JNull []))
      False False [bsp_position ''A'', bsp_position []] leerer_bericht
      \<lparr>to_broker = [], to_halt = lh_start, to_saetze = []\<rparr>)) = 1"
proof -
  obtain t' r where run: "liquidate_positions bsp_hash (bsp_zugang lh_frage) ''d1'' Panic (\<lambda>s m. Inr (Modell JNull []))
      False False [bsp_position ''A'', bsp_position []] leerer_bericht
      \<lparr>to_broker = [], to_halt = lh_start, to_saetze = []\<rparr> = (t', r)" by fastforce
  from liquidation_accounts_for_all [OF run] run show ?thesis
    by (simp add: schliessbar_def bsp_position_def menge_def)
qed

text \<open>
  C33: The emergency liquidation is never stopped: for a panic sale, breaker, displacement or strategy
  switch, under every halt and however the broker answers, the broker receives exactly one request
  per closable position, in their order, each with the key of its own symbol.
\<close>

theorem liquidation_reaches_broker:
  assumes "kind \<in> set never_blocked_kinds" "did \<noteq> []"
    and "liquidate_positions h (protokoll_zugang antwort q) did kind (\<lambda>s m. Inr (factory s m)) halted gtc ps
           leerer_bericht t = (t', r)"
  shows "to_broker t' = to_broker t @ map (liq_request h did kind factory halted gtc) (filter schliessbar ps)"
  by (rule liquidate_sends [OF assms])

lemma liquidation_reaches_broker_witness:
  "\<exists>t' r. liquidate_positions bsp_hash (protokoll_zugang (\<lambda>_. Inl (BrokerError ''x'') :: py_error + unit) lh_frage)
      ''d1'' Panic (\<lambda>s m. Inr (Modell JNull [(''qty'', JNum m)])) True False
      [bsp_position ''A'', bsp_position ''B''] leerer_bericht
      \<lparr>to_broker = [], to_halt = lh_trip None lh_start, to_saetze = []\<rparr> = (t', r) \<and> length (to_broker t') = 2"
proof -
  obtain t' r where run: "liquidate_positions bsp_hash (protokoll_zugang (\<lambda>_. Inl (BrokerError ''x'') :: py_error + unit) lh_frage)
      ''d1'' Panic (\<lambda>s m. Inr (Modell JNull [(''qty'', JNum m)])) True False
      [bsp_position ''A'', bsp_position ''B''] leerer_bericht
      \<lparr>to_broker = [], to_halt = lh_trip None lh_start, to_saetze = []\<rparr> = (t', r)" by fastforce
  have "Panic \<in> set never_blocked_kinds" by (simp add: never_blocked_kinds_def)
  from liquidation_reaches_broker [OF this _ run] have "length (to_broker t') = 2"
    by (simp add: schliessbar_def bsp_position_def menge_def)
  with run show ?thesis by blast
qed

lemma gruende_zu_append [simp]: "gruende_zu d (es @ es') = gruende_zu d es @ gruende_zu d es'"
  by (simp add: gruende_zu_def)

lemma gruende_zu_Nil [simp]: "gruende_zu d [] = []"
  by (simp add: gruende_zu_def)

lemma gruende_zu_decision [simp]: "gruende_zu d ((''gateway_decision'', x) # es) = gruende_zu d es"
  by (simp add: gruende_zu_def)

lemma gruende_zu_reason [simp]:
  "gruende_zu d ((''sell_reason'', verkaufsgrund_daten c i) # es) =
     (if cd_decision_id c = d then (''sell_reason'', verkaufsgrund_daten c i) # gruende_zu d es
      else gruende_zu d es)"
  by (simp add: gruende_zu_def verkaufsgrund_daten_id)

text \<open>Every stored reason is remembered while fewer than 2000 decisions are.\<close>

definition gruende_inv :: "senke \<Rightarrow> bool" where
  "gruende_inv s \<longleftrightarrow> (\<forall>d. length (gruende_zu d (se_eintraege s)) \<le> (if d \<in> set (se_gruende s) then 1 else 0))"

lemma an_die_ablage_inv:
  assumes "gruende_inv s" "length (se_gruende s) < gruende_max"
  shows "gruende_inv (an_die_ablage port c i st s) \<and>
    length (se_gruende (an_die_ablage port c i st s)) \<le> Suc (length (se_gruende s))"
proof (cases port)
  case None
  with assms show ?thesis by (simp add: an_die_ablage_def gruende_inv_def)
next
  case (Some nimmt)
  let ?e = "(''gateway_decision'', ablage_daten c i st)"
  show ?thesis
  proof (cases "nimmt ?e \<and> ist_ausgefuehrter_verkauf c i \<and> cd_decision_id c \<notin> set (se_gruende s)")
    case False
    with Some assms show ?thesis
      by (auto simp: an_die_ablage_def gruende_inv_def Let_def erster_grund_def)
  next
    case True
    with assms(2) have eg: "erster_grund (cd_decision_id c) (se_gruende s) = (se_gruende s @ [cd_decision_id c], True)"
      by (simp add: erster_grund_def)
    have leer: "gruende_zu x (se_eintraege s) = []" if "x \<notin> set (se_gruende s)" for x
      using assms(1) that unfolding gruende_inv_def by (metis le_zero_eq length_0_conv)
    have eins: "length (gruende_zu x (se_eintraege s)) \<le> 1" if "x \<in> set (se_gruende s)" for x
      using assms(1) that unfolding gruende_inv_def by metis
    from True Some eg show ?thesis
      unfolding gruende_inv_def by (auto simp: an_die_ablage_def Let_def leer eins [simplified])
  qed
qed

text \<open>
  A sale is explained once: over any sequence of gate decisions, retries of the same decision
  included, at most one sell reason is stored per decision, as long as fewer than 2000 decisions
  were recorded; and whatever the store refuses, no submission is disturbed.
\<close>

theorem sell_reason_once:
  assumes "length as < gruende_max"
  shows "length (gruende_zu d (se_eintraege (senke_alle port as
    \<lparr>se_nicht_verdrahtet = 0, se_gruende = [], se_eintraege = []\<rparr>))) \<le> 1"
proof -
  have "gruende_inv s \<Longrightarrow> length (se_gruende s) + length as \<le> gruende_max \<Longrightarrow> gruende_inv (senke_alle port as s)" for s
  proof (induction "as" arbitrary: s)
    case (Cons a as)
    then have "length (se_gruende s) < gruende_max" by simp
    from an_die_ablage_inv [OF Cons.prems(1) this, of port "sa_decision a" "sa_intent a" "sa_storno a"] Cons
    show ?case by simp
  qed simp
  from this [of "\<lparr>se_nicht_verdrahtet = 0, se_gruende = [], se_eintraege = []\<rparr>"] assms
  have "gruende_inv (senke_alle port as \<lparr>se_nicht_verdrahtet = 0, se_gruende = [], se_eintraege = []\<rparr>)"
    by (simp add: gruende_inv_def gruende_zu_def)
  then have "length (gruende_zu d (se_eintraege (senke_alle port as
      \<lparr>se_nicht_verdrahtet = 0, se_gruende = [], se_eintraege = []\<rparr>)))
    \<le> (if d \<in> set (se_gruende (senke_alle port as
      \<lparr>se_nicht_verdrahtet = 0, se_gruende = [], se_eintraege = []\<rparr>)) then 1 else 0)"
    unfolding gruende_inv_def by (rule spec)
  then show ?thesis by (rule order_trans) simp
qed

lemma sell_reason_once_witness:
  "length (gruende_zu ''d1'' (se_eintraege (senke_alle (Some (\<lambda>_. True))
     (replicate 2 \<lparr>sa_decision = mk ''d1'' True ExitExempt [] False, sa_intent = Some (bsp_order Trim), sa_storno = None\<rparr>)
    \<lparr>se_nicht_verdrahtet = 0, se_gruende = [], se_eintraege = []\<rparr>))) \<le> 1"
  by (rule sell_reason_once) (simp add: gruende_max_def)

end
