(* ===== verification/Local_State.thy ===== *)
theory Local_State
  imports Prelude
begin

text \<open>
  The in-memory state client of the desktop (\<open>core/local_state_client.py\<close>), which takes the place
  of Redis: keys with an expiry, counters, hashes, lists and streams. \<open>now\<close> is \<open>time.time()\<close>. The
  contract its clients rely on is the locale \<open>redis_client\<close>, interpreted on this model.

  The value of a counter is written as the text of a float, where \<open>Text ''nan''\<close> and \<open>Text ''inf''\<close>
  stand for the texts Python prints for them.
\<close>

section \<open>State\<close>

record local_state =
  ls_store :: "(string, wert) pydict"
  ls_expiries :: "string \<Rightarrow> real option"
  ls_hash :: "(string, (string, wert) pydict) pydict"
  ls_lists :: "string \<Rightarrow> wert list"
  ls_streams :: "string \<Rightarrow> (string \<times> (string \<times> wert) list) list"

definition ls_empty :: local_state where
  "ls_empty = \<lparr>ls_store = [], ls_expiries = (\<lambda>_. None), ls_hash = [], ls_lists = (\<lambda>_. []),
     ls_streams = (\<lambda>_. [])\<rparr>"

section \<open>Keys and values\<close>

definition ls_entferne :: "string \<Rightarrow> local_state \<Rightarrow> local_state" where
  "ls_entferne k s = s\<lparr>ls_store := dict_del k (ls_store s), ls_expiries := (ls_expiries s)(k := None)\<rparr>"

definition evict_expired :: "real \<Rightarrow> string \<Rightarrow> local_state \<Rightarrow> local_state" where
  "evict_expired now k s =
     (case ls_expiries s k of
        Some t \<Rightarrow> if t < now then ls_entferne k s else s
      | None \<Rightarrow> s)"

definition ls_get :: "local_state \<Rightarrow> real \<Rightarrow> string \<Rightarrow> local_state \<times> wert option" where
  "ls_get s now k = (let s' = evict_expired now k s in (s', map_of (ls_store s') k))"

text \<open>A \<open>px\<close> of 0 counts as none; without one an expiry that the key already has stays.\<close>

definition ls_set ::
  "local_state \<Rightarrow> real \<Rightarrow> string \<Rightarrow> wert \<Rightarrow> int option \<Rightarrow> bool \<Rightarrow> local_state \<times> bool option" where
  "ls_set s now k v px nx =
     (let s' = evict_expired now k s
      in if nx \<and> map_of (ls_store s') k \<noteq> None then (s', None)
         else (s'\<lparr>ls_store := dict_set k v (ls_store s'),
                 ls_expiries := (case px of
                   None \<Rightarrow> ls_expiries s'
                 | Some p \<Rightarrow> if p = 0 then ls_expiries s'
                            else (ls_expiries s')(k \<mapsto> now + real_of_int p / 1000))\<rparr>, Some True))"

fun ls_delete :: "local_state \<Rightarrow> string list \<Rightarrow> local_state \<times> nat" where
  "ls_delete s [] = (s, 0)"
| "ls_delete s (k # ks) =
     (if map_of (ls_store s) k \<noteq> None
      then (let (s', n) = ls_delete (ls_entferne k s) ks in (s', Suc n))
      else ls_delete s ks)"

definition ls_abgelaufen :: "real \<Rightarrow> local_state \<Rightarrow> string \<Rightarrow> bool" where
  "ls_abgelaufen now s k = (case ls_expiries s k of None \<Rightarrow> False | Some t \<Rightarrow> t < now)"

text \<open>\<open>keys\<close> for a pattern that is a prefix followed by the one star: expired keys go first.\<close>

definition ls_keys :: "local_state \<Rightarrow> real \<Rightarrow> string \<Rightarrow> local_state \<times> string list" where
  "ls_keys s now pre =
     (let s' = s\<lparr>ls_store := filter (\<lambda>e. \<not> ls_abgelaufen now s (fst e)) (ls_store s),
                ls_expiries := (\<lambda>k. if ls_abgelaufen now s k then None else ls_expiries s k)\<rparr>
      in (s', filter (\<lambda>k. startswith k pre) (dict_keys (ls_store s'))))"

section \<open>Counters\<close>

definition lies_float :: "wert \<Rightarrow> pyfloat option" where
  "lies_float w =
     (if w = Text ''nan'' then Some NaN
      else if w = Text ''inf'' then Some (Inf False)
      else if w = Text ''-inf'' then Some (Inf True)
      else map_option Fin (wert_float w))"

fun schreib_float :: "pyfloat \<Rightarrow> wert" where
  "schreib_float (Fin r) = Zahl r"
| "schreib_float (Inf s) = Text (if s then ''-inf'' else ''inf'')"
| "schreib_float NaN = Text ''nan''"

definition ls_incrbyfloat ::
  "local_state \<Rightarrow> real \<Rightarrow> string \<Rightarrow> pyfloat \<Rightarrow> local_state \<times> (py_error + pyfloat)" where
  "ls_incrbyfloat s now k amount =
     (let s' = evict_expired now k s;
          alt = (case map_of (ls_store s') k of
                   None \<Rightarrow> Some (Fin 0)
                 | Some w \<Rightarrow> if wert_truthy w then lies_float w else Some (Fin 0))
      in case alt of
           None \<Rightarrow> (s', Inl ValueError)
         | Some x \<Rightarrow> (s'\<lparr>ls_store := dict_set k (schreib_float (fl_add x amount)) (ls_store s')\<rparr>,
                     Inr (fl_add x amount)))"

definition ls_pexpire :: "local_state \<Rightarrow> real \<Rightarrow> string \<Rightarrow> int \<Rightarrow> local_state \<times> bool" where
  "ls_pexpire s now k time_ms =
     (let s' = evict_expired now k s
      in if map_of (ls_store s') k = None then (s', False)
         else (s'\<lparr>ls_expiries := (ls_expiries s')(k \<mapsto> now + real_of_int time_ms / 1000)\<rparr>, True))"

section \<open>Hashes, lists, streams\<close>

definition ls_hget :: "local_state \<Rightarrow> string \<Rightarrow> string \<Rightarrow> wert option" where
  "ls_hget s name f = (case map_of (ls_hash s) name of None \<Rightarrow> None | Some h \<Rightarrow> map_of h f)"

definition ls_hset :: "local_state \<Rightarrow> string \<Rightarrow> string \<Rightarrow> wert \<Rightarrow> local_state \<times> nat" where
  "ls_hset s name f v =
     (let h = (case map_of (ls_hash s) name of None \<Rightarrow> [] | Some h \<Rightarrow> h)
      in (s\<lparr>ls_hash := dict_set name (dict_set f v h) (ls_hash s)\<rparr>,
          if map_of h f = None then 1 else 0))"

text \<open>A Python slice \<open>xs[start:stop]\<close>: negative positions count from the end.\<close>

definition py_index :: "nat \<Rightarrow> int \<Rightarrow> nat" where
  "py_index n i = (if i < 0 then nat (int n + i) else min n (nat i))"

definition py_slice :: "'a list \<Rightarrow> int \<Rightarrow> int option \<Rightarrow> 'a list" where
  "py_slice xs start stop =
     (let a = py_index (length xs) start;
          b = (case stop of None \<Rightarrow> length xs | Some e \<Rightarrow> py_index (length xs) e)
      in take (b - a) (drop a xs))"

definition redis_slice :: "'a list \<Rightarrow> int \<Rightarrow> int \<Rightarrow> 'a list" where
  "redis_slice xs start ende = (if ende = -1 then py_slice xs start None else py_slice xs start (Some (ende + 1)))"

definition ls_rpush :: "local_state \<Rightarrow> string \<Rightarrow> wert list \<Rightarrow> local_state \<times> nat" where
  "ls_rpush s k vs =
     (let l = ls_lists s k @ vs in (s\<lparr>ls_lists := (ls_lists s)(k := l)\<rparr>, length l))"

definition ls_ltrim :: "local_state \<Rightarrow> string \<Rightarrow> int \<Rightarrow> int \<Rightarrow> local_state" where
  "ls_ltrim s k start ende =
     s\<lparr>ls_lists := (ls_lists s)(k := redis_slice (ls_lists s k) start ende)\<rparr>"

definition ls_lrange :: "local_state \<Rightarrow> string \<Rightarrow> int \<Rightarrow> int \<Rightarrow> wert list" where
  "ls_lrange s k start ende = redis_slice (ls_lists s k) start ende"

text \<open>A pipeline runs its commands in order and returns their results.\<close>

datatype pipe_cmd = Rpush string "wert list" | Ltrim string int int

fun pipeline_execute :: "pipe_cmd list \<Rightarrow> local_state \<Rightarrow> local_state \<times> jval list" where
  "pipeline_execute [] s = (s, [])"
| "pipeline_execute (Rpush k vs # cs) s =
     (let (s1, n) = ls_rpush s k vs; (s2, rs) = pipeline_execute cs s1
      in (s2, JNum (real n) # rs))"
| "pipeline_execute (Ltrim k a e # cs) s =
     (let (s2, rs) = pipeline_execute cs (ls_ltrim s k a e) in (s2, JBool True # rs))"

text \<open>\<open>ts\<close> is the millisecond time stamp, already as a number.\<close>

definition ls_xadd :: "local_state \<Rightarrow> nat \<Rightarrow> string \<Rightarrow> (string \<times> wert) list \<Rightarrow> local_state \<times> string" where
  "ls_xadd s ts stream felder =
     (let i = dez ts @ ''-'' @ dez (length (ls_streams s stream))
      in (s\<lparr>ls_streams := (ls_streams s)(stream := ls_streams s stream @ [(i, felder)])\<rparr>, i))"

text \<open>
  The entries after \<open>last_id\<close>. The loop compares the limit only right after it took an entry, so a
  limit below 1 still lets one entry through.
\<close>

fun nach_id :: "string \<Rightarrow> bool \<Rightarrow> int \<Rightarrow> (string \<times> 'a) list \<Rightarrow> (string \<times> 'a) list" where
  "nach_id last_id found count [] = []"
| "nach_id last_id found count (e # es) =
     (if found then (if 1 \<ge> count then [e] else e # nach_id last_id True (count - 1) es)
      else nach_id last_id (fst e = last_id) count es)"

definition ls_xread1 :: "local_state \<Rightarrow> string \<Rightarrow> string \<Rightarrow> int \<Rightarrow> (string \<times> (string \<times> wert) list) list" where
  "ls_xread1 s stream last_id count =
     (if last_id = ''$'' then []
      else if last_id = ''0'' then py_slice (ls_streams s stream) 0 (Some count)
      else nach_id last_id False count (ls_streams s stream))"

definition ls_xread ::
  "local_state \<Rightarrow> (string \<times> string) list \<Rightarrow> int \<Rightarrow> (string \<times> (string \<times> (string \<times> wert) list) list) list" where
  "ls_xread s streams count =
     filter (\<lambda>r. snd r \<noteq> []) (map (\<lambda>(n, i). (n, ls_xread1 s n i count)) streams)"

definition ls_aclose :: "local_state \<Rightarrow> local_state" where
  "ls_aclose s = s\<lparr>ls_store := [], ls_lists := (\<lambda>_. []), ls_streams := (\<lambda>_. []), ls_expiries := (\<lambda>_. None)\<rparr>"

section \<open>The client as an object, and its contract\<close>

record 's redis =
  rd_get :: "'s \<Rightarrow> real \<Rightarrow> string \<Rightarrow> 's \<times> wert option"
  rd_set :: "'s \<Rightarrow> real \<Rightarrow> string \<Rightarrow> wert \<Rightarrow> int \<Rightarrow> 's"
  rd_delete :: "'s \<Rightarrow> string list \<Rightarrow> 's \<times> nat"
  rd_keys :: "'s \<Rightarrow> real \<Rightarrow> string \<Rightarrow> 's \<times> string list"
  rd_incrbyfloat :: "'s \<Rightarrow> real \<Rightarrow> string \<Rightarrow> pyfloat \<Rightarrow> 's \<times> (py_error + pyfloat)"
  rd_pexpire :: "'s \<Rightarrow> real \<Rightarrow> string \<Rightarrow> int \<Rightarrow> 's \<times> bool"

definition local_client :: "local_state redis" where
  "local_client = \<lparr>rd_get = ls_get, rd_set = (\<lambda>s now k v px. fst (ls_set s now k v (Some px) False)),
     rd_delete = ls_delete, rd_keys = ls_keys, rd_incrbyfloat = ls_incrbyfloat, rd_pexpire = ls_pexpire\<rparr>"

lemma local_client_sel [simp]:
  "rd_get local_client = ls_get" "rd_delete local_client = ls_delete" "rd_keys local_client = ls_keys"
  "rd_incrbyfloat local_client = ls_incrbyfloat" "rd_pexpire local_client = ls_pexpire"
  "rd_set local_client s now k v px = fst (ls_set s now k v (Some px) False)"
  by (simp_all add: local_client_def)

text \<open>What a reader sees at a time.\<close>

definition sieht :: "'s redis \<Rightarrow> 's \<Rightarrow> real \<Rightarrow> string \<Rightarrow> wert option" where
  "sieht c s t k = snd (rd_get c s t k)"

text \<open>
  The laws speak of readers at the time of the operation or later: reading removes what has expired,
  and time does not run backwards.
\<close>

locale redis_client =
  fixes c :: "'s redis"
  assumes get_keeps: "now \<le> t \<Longrightarrow> sieht c (fst (rd_get c s now k)) t k' = sieht c s t k'"
    and set_sieht: "px > 0 \<Longrightarrow> now \<le> t \<Longrightarrow> sieht c (rd_set c s now k v px) t k' =
      (if k' = k then (if t \<le> now + real_of_int px / 1000 then Some v else None) else sieht c s t k')"
    and set_other: "now \<le> t \<Longrightarrow> k' \<noteq> k \<Longrightarrow> sieht c (rd_set c s now k v px) t k' = sieht c s t k'"
    and delete_sieht: "sieht c (fst (rd_delete c s ks)) t k' = (if k' \<in> set ks then None else sieht c s t k')"
    and keys_keeps: "now \<le> t \<Longrightarrow> sieht c (fst (rd_keys c s now pre)) t k' = sieht c s t k'"
    and keys_set: "set (snd (rd_keys c s now pre)) = {k. startswith k pre \<and> sieht c s now k \<noteq> None}"
    and incr_sieht: "rd_incrbyfloat c s now k (Fin a) = (s', Inr x) \<Longrightarrow>
      sieht c s' now k = Some (schreib_float x) \<and>
      (case sieht c s now k of None \<Rightarrow> x = Fin a | Some w \<Rightarrow> \<forall>b. w = Zahl b \<longrightarrow> x = Fin (b + a))"
    and incr_other: "now \<le> t \<Longrightarrow> k' \<noteq> k \<Longrightarrow> sieht c (fst (rd_incrbyfloat c s now k am)) t k' = sieht c s t k'"
    and incr_total: "sieht c s now k = None \<or> (\<exists>b. sieht c s now k = Some (Zahl b)) \<Longrightarrow>
      \<exists>s' x. rd_incrbyfloat c s now k am = (s', Inr x)"
    and pexpire_sieht: "ms > 0 \<Longrightarrow> now \<le> t \<Longrightarrow> sieht c (fst (rd_pexpire c s now k ms)) t k' =
      (if k' = k then (if t \<le> now + real_of_int ms / 1000 then sieht c s now k else None) else sieht c s t k')"

lemma sieht_local: "sieht local_client s t k =
    (if ls_abgelaufen t s k then None else map_of (ls_store s) k)"
  by (simp add: sieht_def ls_get_def evict_expired_def ls_abgelaufen_def ls_entferne_def Let_def split: option.split)

lemma evict_keeps: "now \<le> t \<Longrightarrow> sieht local_client (evict_expired now k s) t k' = sieht local_client s t k'"
  by (auto simp: sieht_local evict_expired_def ls_abgelaufen_def ls_entferne_def split: option.split)

lemma evict_store: "map_of (ls_store (evict_expired now k s)) k = sieht local_client s now k"
  by (auto simp: sieht_local evict_expired_def ls_abgelaufen_def ls_entferne_def split: option.split)

lemma sieht_entferne: "sieht local_client (ls_entferne k s) t k' = (if k' = k then None else sieht local_client s t k')"
  by (simp add: sieht_local ls_entferne_def ls_abgelaufen_def)

lemma sieht_absent: "map_of (ls_store s) k = None \<Longrightarrow> sieht local_client s t k = None"
  by (simp add: sieht_local)

lemma delete_local: "sieht local_client (fst (ls_delete s ks)) t k' =
    (if k' \<in> set ks then None else sieht local_client s t k')"
  by (induction ks arbitrary: s) (auto simp: case_prod_beta sieht_entferne sieht_absent)

lemma map_of_filter_key: "map_of (filter (\<lambda>e. P (fst e)) d) k = (if P k then map_of d k else None)"
  by (induction d) auto

lemma keys_local_keeps:
  assumes "now \<le> t"
  shows "sieht local_client (fst (ls_keys s now pre)) t k' = sieht local_client s t k'"
proof -
  have "map_of (filter (\<lambda>e. \<not> ls_abgelaufen now s (fst e)) (ls_store s)) k' =
      (if \<not> ls_abgelaufen now s k' then map_of (ls_store s) k' else None)"
    by (rule map_of_filter_key)
  moreover have "ls_abgelaufen now s k' \<Longrightarrow> ls_abgelaufen t s k'"
    using assms by (auto simp: ls_abgelaufen_def split: option.splits)
  ultimately show ?thesis
    by (auto simp: ls_keys_def Let_def sieht_local) (auto simp: ls_abgelaufen_def split: option.splits if_splits)
qed

lemma keys_local_set: "set (snd (ls_keys s now pre)) = {k. startswith k pre \<and> sieht local_client s now k \<noteq> None}"
proof -
  have "k \<in> fst ` {e \<in> set (ls_store s). \<not> ls_abgelaufen now s (fst e)} \<longleftrightarrow>
      \<not> ls_abgelaufen now s k \<and> k \<in> fst ` set (ls_store s)" for k
    by auto
  moreover have "map_of (ls_store s) k \<noteq> None \<longleftrightarrow> k \<in> fst ` set (ls_store s)" for k
    by (simp add: map_of_eq_None_iff)
  ultimately show ?thesis
    by (auto simp del: not_None_eq simp: ls_keys_def Let_def dict_keys_def sieht_local)
qed

interpretation local: redis_client local_client
proof unfold_locales
  fix s :: local_state and now t :: real and k k' :: string
  assume "now \<le> t"
  then show "sieht local_client (fst (rd_get local_client s now k)) t k' = sieht local_client s t k'"
    by (simp add: ls_get_def Let_def evict_keeps)
next
  fix s :: local_state and now t :: real and k k' :: string and v :: wert and px :: int
  assume px: "px > 0" and t: "now \<le> t"
  show "sieht local_client (rd_set local_client s now k v px) t k' =
      (if k' = k then (if t \<le> now + real_of_int px / 1000 then Some v else None) else sieht local_client s t k')"
    using px evict_keeps [OF t, of k s k'] by (auto simp: ls_set_def Let_def sieht_local ls_abgelaufen_def)
next
  fix s :: local_state and now t :: real and k k' :: string and v :: wert and px :: int
  assume "now \<le> t" and "k' \<noteq> k"
  then show "sieht local_client (rd_set local_client s now k v px) t k' = sieht local_client s t k'"
    using evict_keeps [of now t k s k']
    by (auto simp: ls_set_def Let_def sieht_local ls_abgelaufen_def split: option.split)
next
  fix s :: local_state and ks and t :: real and k' :: string
  show "sieht local_client (fst (rd_delete local_client s ks)) t k' = (if k' \<in> set ks then None else sieht local_client s t k')"
    by (simp add: delete_local)
next
  fix s :: local_state and now t :: real and pre k' :: string
  assume "now \<le> t"
  then show "sieht local_client (fst (rd_keys local_client s now pre)) t k' = sieht local_client s t k'"
    by (simp add: keys_local_keeps)
next
  fix s :: local_state and now :: real and pre :: string
  show "set (snd (rd_keys local_client s now pre)) = {k. startswith k pre \<and> sieht local_client s now k \<noteq> None}"
    by (simp add: keys_local_set)
next
  fix s s' :: local_state and now a :: real and k :: string and x :: pyfloat
  assume run: "rd_incrbyfloat local_client s now k (Fin a) = (s', Inr x)"
  have exp: "\<not> ls_abgelaufen now (evict_expired now k s) k"
    by (auto simp: evict_expired_def ls_abgelaufen_def ls_entferne_def split: option.split)
  from run show "sieht local_client s' now k = Some (schreib_float x) \<and>
      (case sieht local_client s now k of None \<Rightarrow> x = Fin a | Some w \<Rightarrow> \<forall>b. w = Zahl b \<longrightarrow> x = Fin (b + a))"
    using exp by (auto simp: ls_incrbyfloat_def Let_def evict_store sieht_local ls_abgelaufen_def lies_float_def
        split: option.splits if_splits)
next
  fix s :: local_state and now t :: real and k k' :: string and a :: pyfloat
  assume t: "now \<le> t" and k: "k' \<noteq> k"
  have "sieht local_client (evict_expired now k s\<lparr>ls_store := dict_set k v (ls_store (evict_expired now k s))\<rparr>) t k' =
      sieht local_client (evict_expired now k s) t k'" for v
    using k by (simp add: sieht_local ls_abgelaufen_def)
  then show "sieht local_client (fst (rd_incrbyfloat local_client s now k a)) t k' = sieht local_client s t k'"
    using evict_keeps [OF t, of k s k'] by (auto simp: ls_incrbyfloat_def Let_def split: option.split)
next
  fix s :: local_state and now :: real and k :: string and a :: pyfloat
  assume "sieht local_client s now k = None \<or> (\<exists>b. sieht local_client s now k = Some (Zahl b))"
  then show "\<exists>s' x. rd_incrbyfloat local_client s now k a = (s', Inr x)"
    by (auto simp: ls_incrbyfloat_def Let_def evict_store lies_float_def)
next
  fix s :: local_state and now t :: real and k k' :: string and ms :: int
  assume "ms > 0" and t: "now \<le> t"
  then show "sieht local_client (fst (rd_pexpire local_client s now k ms)) t k' =
      (if k' = k then (if t \<le> now + real_of_int ms / 1000 then sieht local_client s now k else None)
       else sieht local_client s t k')"
    using evict_keeps [OF t, of k s k'] evict_store [of now k s] evict_keeps [OF t, of k s k]
    by (auto simp: ls_pexpire_def Let_def sieht_local ls_abgelaufen_def split: option.splits)
qed

end
