(* ===== verification/Hitl.thy ===== *)
theory Hitl
  imports Local_State
begin

text \<open>
  Human approval of orders (EU AI Act Art. 14): the approval queue (\<open>core/hitl_queue.py\<close>), the
  autonomous day budget (\<open>core/hitl_day_notional.py\<close>) and the threshold gate with its audit events
  (\<open>core/hitl_gate.py\<close>).

  The store is a client object (\<open>Local_State.redis\<close>), or \<open>None\<close> where the installation has none. An
  operation is taken at one instant. Amounts are \<open>pyfloat\<close>, because the gate compares them and a
  comparison with NaN is false. A fresh approval id and a time stamp are arguments.
\<close>

section \<open>Keys\<close>

definition pending_key :: "string \<Rightarrow> string" where
  "pending_key i = ''hitl:pending:'' @ i"

definition idx_key :: "string \<Rightarrow> string \<Rightarrow> string" where
  "idx_key user_id symbol = ''hitl:pending_idx:'' @ user_id @ '':'' @ symbol"

definition approved_prefix :: string where
  "approved_prefix = ''hitl:approved:''"

definition inflight_prefix :: string where
  "inflight_prefix = ''hitl:inflight:''"

definition approved_window_ms :: int where
  "approved_window_ms = 600 * 1000"

definition inflight_ttl_ms :: int where
  "inflight_ttl_ms = 86400 * 1000"

text \<open>
  The text of a stored index entry, and a field of a payload in an f-string: \<open>push\<close> writes both, as
  texts; what no code writes reads as empty.
\<close>

fun text_von :: "wert \<Rightarrow> string" where
  "text_von (Text s) = s"
| "text_von _ = []"

fun feld_text :: "jval \<Rightarrow> string" where
  "feld_text (JStr s) = s"
| "feld_text _ = []"

fun jfloat :: "pyfloat \<Rightarrow> jval" where
  "jfloat (Fin r) = JNum r"
| "jfloat (Inf s) = JStr (if s then ''-Infinity'' else ''Infinity'')"
| "jfloat NaN = JStr ''NaN''"

section \<open>HitlQueue\<close>

definition push_payload ::
  "string \<Rightarrow> string \<Rightarrow> string \<Rightarrow> string \<Rightarrow> pyfloat \<Rightarrow> pyfloat \<Rightarrow> pyfloat \<Rightarrow> pyfloat \<Rightarrow> string \<Rightarrow> string
     \<Rightarrow> (string, jval) pydict" where
  "push_payload approval_id user_id symbol action qty price conviction target_weight event_json created_at =
     [(''approval_id'', JStr approval_id), (''user_id'', JStr user_id), (''symbol'', JStr symbol),
      (''action'', JStr action), (''qty'', jfloat qty), (''price'', jfloat price),
      (''conviction'', jfloat conviction), (''target_weight'', jfloat target_weight),
      (''event_json'', JStr event_json), (''created_at'', JStr created_at)]"

text \<open>An existing approval of the same user and symbol is superseded.\<close>

definition hq_push ::
  "'s redis option \<Rightarrow> real \<Rightarrow> int \<Rightarrow> string \<Rightarrow> string \<Rightarrow> string \<Rightarrow> (string, jval) pydict \<Rightarrow> 's
     \<Rightarrow> 's \<times> string option" where
  "hq_push r now expiry_seconds approval_id user_id symbol payload s =
     (case r of
        None \<Rightarrow> (s, None)
      | Some c \<Rightarrow>
          (let px = expiry_seconds * 1000; idx = idx_key user_id symbol;
               (s1, existing) = rd_get c s now idx;
               s2 = (case existing of
                       None \<Rightarrow> s1
                     | Some w \<Rightarrow> if wert_truthy w
                                then fst (rd_delete c s1 [pending_key (text_von w), idx]) else s1);
               s3 = rd_set c s2 now (pending_key approval_id) (Json (JObj payload)) px
           in (rd_set c s3 now idx (Text approval_id) px, Some approval_id)))"

definition hq_has_pending :: "'s redis option \<Rightarrow> real \<Rightarrow> string \<Rightarrow> string \<Rightarrow> 's \<Rightarrow> 's \<times> bool" where
  "hq_has_pending r now symbol user_id s =
     (case r of
        None \<Rightarrow> (s, False)
      | Some c \<Rightarrow>
          (case rd_get c s now (idx_key user_id symbol) of
             (s1, None) \<Rightarrow> (s1, False)
           | (s1, Some w) \<Rightarrow>
               if \<not> wert_truthy w then (s1, False)
               else let (s2, b) = rd_get c s1 now (pending_key (text_von w)) in (s2, b \<noteq> None)))"

text \<open>The parsed values under a list of keys; what is missing, empty or unparseable is skipped.\<close>

fun lies_alle :: "'s redis \<Rightarrow> real \<Rightarrow> string list \<Rightarrow> 's \<Rightarrow> 's \<times> jval list" where
  "lies_alle c now [] s = (s, [])"
| "lies_alle c now (k # ks) s =
     (let (s1, blob) = rd_get c s now k; (s2, js) = lies_alle c now ks s1
      in (s2, case blob of
                None \<Rightarrow> js
              | Some w \<Rightarrow> if \<not> wert_truthy w then js
                         else (case json_loads w of None \<Rightarrow> js | Some j \<Rightarrow> j # js)))"

definition hq_get_pending :: "'s redis option \<Rightarrow> real \<Rightarrow> 's \<Rightarrow> 's \<times> jval list" where
  "hq_get_pending r now s =
     (case r of
        None \<Rightarrow> (s, [])
      | Some c \<Rightarrow> (let (s1, ks) = rd_keys c s now ''hitl:pending:'' in lies_alle c now ks s1))"

text \<open>A blob that does not parse, or is no object, raises before anything is moved.\<close>

definition hq_approve ::
  "'s redis option \<Rightarrow> real \<Rightarrow> string \<Rightarrow> string \<Rightarrow> 's \<Rightarrow> 's \<times> (py_error + (string, jval) pydict option)" where
  "hq_approve r now zeit approval_id s =
     (case r of
        None \<Rightarrow> (s, Inr None)
      | Some c \<Rightarrow>
          (case rd_get c s now (pending_key approval_id) of
             (s1, None) \<Rightarrow> (s1, Inr None)
           | (s1, Some blob) \<Rightarrow>
               if \<not> wert_truthy blob then (s1, Inr None)
               else case json_loads blob of
                      None \<Rightarrow> (s1, Inl ValueError)
                    | Some (JObj p) \<Rightarrow>
                        (let p' = dict_set ''approved_at'' (JStr zeit) p;
                             s2 = rd_set c s1 now (approved_prefix @ approval_id) (Json (JObj p')) approved_window_ms;
                             s3 = fst (rd_delete c s2 [pending_key approval_id,
                                    idx_key (feld_text (jget p' ''user_id'')) (feld_text (jget p' ''symbol''))])
                         in (s3, Inr (Some p')))
                    | Some _ \<Rightarrow> (s1, Inl TypeError)))"

definition hq_reject :: "'s redis option \<Rightarrow> real \<Rightarrow> string \<Rightarrow> 's \<Rightarrow> 's \<times> (py_error + bool)" where
  "hq_reject r now approval_id s =
     (case r of
        None \<Rightarrow> (s, Inr False)
      | Some c \<Rightarrow>
          (let (s1, blob) = rd_get c s now (pending_key approval_id);
               j = (case blob of Some w \<Rightarrow> if wert_truthy w then json_loads w else None | None \<Rightarrow> None);
               weg = (\<lambda>ks. let (s2, n) = rd_delete c s1 ks in (s2, Inr (n \<noteq> 0)))
           in case j of
                None \<Rightarrow> weg [pending_key approval_id]
              | Some (JObj p) \<Rightarrow> weg [pending_key approval_id,
                  idx_key (feld_text (jget p ''user_id'')) (feld_text (jget p ''symbol''))]
              | Some _ \<Rightarrow> (s1, Inl AttributeError)))"

text \<open>The id an approval is executed under: that of the payload, else that of the key.\<close>

definition claim_id :: "(string, jval) pydict \<Rightarrow> string \<Rightarrow> jval" where
  "claim_id p k = (if jtruthy (jget p ''approval_id'') then jget p ''approval_id''
                   else JStr (drop (length approved_prefix) k))"

fun claim_keys ::
  "'s redis \<Rightarrow> real \<Rightarrow> string list \<Rightarrow> 's \<Rightarrow> 's \<times> (py_error + (string, jval) pydict list)" where
  "claim_keys c now [] s = (s, Inr [])"
| "claim_keys c now (k # ks) s =
     (let (s1, blob) = rd_get c s now k;
          verwerfen = (\<lambda>_::unit. claim_keys c now ks (fst (rd_delete c s1 [k])))
      in case blob of
           None \<Rightarrow> verwerfen ()
         | Some w \<Rightarrow>
             if \<not> wert_truthy w then verwerfen ()
             else case json_loads w of
                    None \<Rightarrow> verwerfen ()
                  | Some (JObj p) \<Rightarrow>
                      (case claim_id p k of
                         JStr aid \<Rightarrow>
                           (let s2 = rd_set c s1 now (inflight_prefix @ aid) w inflight_ttl_ms;
                                s3 = fst (rd_delete c s2 [k]);
                                (s4, res) = claim_keys c now ks s3
                            in (s4, result_bind res (\<lambda>ps. Inr (dict_set ''approval_id'' (JStr aid) p # ps))))
                       | _ \<Rightarrow> (s1, Inl TypeError))
                  | Some _ \<Rightarrow> (s1, Inl AttributeError))"

definition hq_claim_approved ::
  "'s redis option \<Rightarrow> real \<Rightarrow> 's \<Rightarrow> 's \<times> (py_error + (string, jval) pydict list)" where
  "hq_claim_approved r now s =
     (case r of
        None \<Rightarrow> (s, Inr [])
      | Some c \<Rightarrow> (let (s1, ks) = rd_keys c s now approved_prefix in claim_keys c now ks s1))"

definition hq_count_approved :: "'s redis option \<Rightarrow> real \<Rightarrow> 's \<Rightarrow> 's \<times> nat" where
  "hq_count_approved r now s =
     (case r of None \<Rightarrow> (s, 0)
      | Some c \<Rightarrow> (let (s1, ks) = rd_keys c s now approved_prefix in (s1, length ks)))"

definition hq_ack_inflight :: "'s redis option \<Rightarrow> string \<Rightarrow> 's \<Rightarrow> 's \<times> bool" where
  "hq_ack_inflight r approval_id s =
     (case r of None \<Rightarrow> (s, False)
      | Some c \<Rightarrow> if approval_id = [] then (s, False)
                 else (let (s1, n) = rd_delete c s [inflight_prefix @ approval_id] in (s1, n \<noteq> 0)))"

definition hq_recover_orphaned :: "'s redis option \<Rightarrow> real \<Rightarrow> 's \<Rightarrow> 's \<times> jval list" where
  "hq_recover_orphaned r now s =
     (case r of None \<Rightarrow> (s, [])
      | Some c \<Rightarrow> (let (s1, ks) = rd_keys c s now inflight_prefix in lies_alle c now ks s1))"

section \<open>HitlDayNotional\<close>

definition day_key :: "string \<Rightarrow> string" where
  "day_key ny_date = ''hitl:day_notional:'' @ ny_date"

definition day_ttl_ms :: int where
  "day_ttl_ms = 48 * 60 * 60 * 1000"

definition hd_current :: "'s redis option \<Rightarrow> real \<Rightarrow> string \<Rightarrow> 's \<Rightarrow> 's \<times> (py_error + pyfloat)" where
  "hd_current r now ny_date s =
     (case r of
        None \<Rightarrow> (s, Inr (Fin 0))
      | Some c \<Rightarrow>
          (case rd_get c s now (day_key ny_date) of
             (s1, None) \<Rightarrow> (s1, Inr (Fin 0))
           | (s1, Some w) \<Rightarrow> if \<not> wert_truthy w then (s1, Inr (Fin 0))
                            else (case lies_float w of None \<Rightarrow> (s1, Inl ValueError) | Some x \<Rightarrow> (s1, Inr x))))"

definition hd_add :: "'s redis option \<Rightarrow> real \<Rightarrow> string \<Rightarrow> pyfloat \<Rightarrow> 's \<Rightarrow> 's \<times> (py_error + pyfloat)" where
  "hd_add r now ny_date amount s =
     (case r of
        None \<Rightarrow> (s, Inr (Fin 0))
      | Some c \<Rightarrow>
          (case rd_incrbyfloat c s now (day_key ny_date) amount of
             (s1, Inl e) \<Rightarrow> (s1, Inl e)
           | (s1, Inr summe) \<Rightarrow> (fst (rd_pexpire c s1 now (day_key ny_date) day_ttl_ms), Inr summe)))"

definition hd_rollover :: "'s redis option \<Rightarrow> string \<Rightarrow> 's \<Rightarrow> 's" where
  "hd_rollover r previous s = (case r of None \<Rightarrow> s | Some c \<Rightarrow> fst (rd_delete c s [day_key previous]))"

section \<open>Audit events\<close>

text \<open>
  The chain is the list of events it took. What its sink, an \<open>IAuditLogger\<close>, does with an event is the
  function \<open>sink\<close>: it takes it, it drops it without a word, or it raises. The chain itself, its hashes
  and files, is \<open>LocalJSONAuditLogger\<close> (theory \<open>Audit_Chain\<close>), which drops and never raises.
\<close>

record policy =
  p_enabled :: bool
  p_max_trade :: pyfloat
  p_max_day :: pyfloat
  p_unlimited :: bool
  p_allow_sells :: bool
  p_expiry :: int

record execution_event =
  ex_timestamp :: string
  ex_symbol :: string
  ex_action :: string
  ex_branch :: string
  ex_policy_hash :: string
  ex_order_value :: pyfloat
  ex_day_notional_after :: "pyfloat option"
  ex_approval_id :: "string option"
  ex_threshold_breached :: "string option"
  ex_reason :: "string option"

datatype chain_event =
    HITLExecution execution_event
  | HITLPolicy string string "(string, jval) pydict" "(string, jval) pydict"
  | LiveEnable string string string string string string
  | SettingsChange string string string string string string
  | SettingsDeviationAck string string string string string string
  | PortfolioShape string string string string string string
  | ManualCancel string string string

datatype sink_result = Taken | Dropped | Refused_by_sink

text \<open>The chain after an event that did not raise.\<close>

definition logged :: "(chain_event \<Rightarrow> sink_result) \<Rightarrow> chain_event \<Rightarrow> chain_event list \<Rightarrow> chain_event list" where
  "logged sink e chain = (if sink e = Dropped then chain else chain @ [e])"

text \<open>\<open>policy_snapshot\<close>: the six values; its hash is the parameter \<open>phash\<close> (SHA-256 of the sorted JSON).\<close>

definition policy_snapshot :: "policy \<Rightarrow> (string, jval) pydict" where
  "policy_snapshot p =
     [(''HITL_ENABLED'', JBool (p_enabled p)), (''HITL_MAX_VALUE_PER_TRADE'', jfloat (p_max_trade p)),
      (''HITL_MAX_VALUE_PER_DAY'', jfloat (p_max_day p)),
      (''HITL_AUTONOMOUS_UNLIMITED'', JBool (p_unlimited p)),
      (''HITL_ALWAYS_ALLOW_RISK_REDUCING_SELLS'', JBool (p_allow_sells p)),
      (''HITL_EXPIRY_SECONDS'', JNum (real_of_int (p_expiry p)))]"

definition log_hitl_event :: "(chain_event \<Rightarrow> sink_result) \<Rightarrow> chain_event \<Rightarrow> chain_event list \<Rightarrow> chain_event list \<times> (py_error + unit)" where
  "log_hitl_event sink e chain =
     (if sink e = Refused_by_sink then (chain, Inl OSError) else (logged sink e chain, Inr ()))"

definition audit_execution :: "(chain_event \<Rightarrow> sink_result) \<Rightarrow> execution_event \<Rightarrow> chain_event list \<Rightarrow> chain_event list" where
  "audit_execution sink e chain = fst (log_hitl_event sink (HITLExecution e) chain)"

text \<open>What the operator events share: a failed write re-raises only when \<open>strict\<close>.\<close>

definition strikt :: "(chain_event \<Rightarrow> sink_result) \<Rightarrow> bool \<Rightarrow> chain_event \<Rightarrow> chain_event list \<Rightarrow> chain_event list \<times> (py_error + unit)" where
  "strikt sink strict e chain =
     (case log_hitl_event sink e chain of
        (c', Inl x) \<Rightarrow> (c', if strict then Inl x else Inr ())
      | r \<Rightarrow> r)"

definition oder_nonce :: "string option \<Rightarrow> string \<Rightarrow> string" where
  "oder_nonce switch_id nonce = (case switch_id of None \<Rightarrow> nonce | Some i \<Rightarrow> if i = [] then nonce else i)"

definition log_policy_event where
  "log_policy_event sink zeit old_policy new_policy actor strict chain =
     strikt sink strict (HITLPolicy zeit actor old_policy new_policy) chain"

definition log_live_enablement_event where
  "log_live_enablement_event sink zeit action acknowledgment nonce actor switch_id strict chain =
     strikt sink strict (LiveEnable zeit actor action acknowledgment nonce (oder_nonce switch_id nonce)) chain"

text \<open>\<open>dumps\<close> is \<open>json.dumps\<close> of the list of changes.\<close>

definition log_settings_change_event where
  "log_settings_change_event sink zeit dumps changes acknowledgment nonce actor switch_id strict chain =
     (if changes = [] then (chain, Inl ValueError)
      else strikt sink strict
             (SettingsChange zeit actor acknowledgment nonce (dumps changes) (oder_nonce switch_id nonce)) chain)"

definition log_settings_deviation_ack where
  "log_settings_deviation_ack sink zeit dumps decision deviations nonce switch_id actor strict chain =
     (if decision \<notin> {''keep'', ''reset''} then (chain, Inl ValueError)
      else if deviations = [] then (chain, Inl ValueError)
      else strikt sink strict
             (SettingsDeviationAck zeit actor decision (dumps deviations) nonce (oder_nonce (Some switch_id) nonce)) chain)"

definition log_portfolio_shape_event where
  "log_portfolio_shape_event sink zeit dumps changes acknowledgment nonce actor switch_id strict chain =
     (if changes = [] then (chain, Inl ValueError)
      else strikt sink strict
             (PortfolioShape zeit actor acknowledgment nonce (dumps changes) (oder_nonce switch_id nonce)) chain)"

definition log_manual_cancel_event where
  "log_manual_cancel_event sink zeit order_id actor strict chain =
     strikt sink strict (ManualCancel zeit actor order_id) chain"

section \<open>The gate\<close>

text \<open>
  An attribute the gate reads: missing or \<open>None\<close>, a float, or a text that \<open>float\<close> refuses.
\<close>

datatype feldwert = FNone | FNum pyfloat | FText string

text \<open>\<open>float(x or 0.0)\<close>.\<close>

fun float_oder_null :: "feldwert \<Rightarrow> py_error + pyfloat" where
  "float_oder_null FNone = Inr (Fin 0)"
| "float_oder_null (FNum x) = Inr x"
| "float_oder_null (FText s) = (if s = [] then Inr (Fin 0) else Inl ValueError)"

record order_event =
  ev_symbol :: string
  ev_action :: string
  ev_current_price :: feldwert
  ev_position_qty :: feldwert
  ev_suggested_quantity :: feldwert
  ev_conviction_score :: feldwert
  ev_target_weight :: feldwert

record 's gate_env =
  ge_redis :: "'s redis option"
  ge_now :: real
  ge_zeit :: string
  ge_ny_date :: string
  ge_policy :: policy
  ge_phash :: "policy \<Rightarrow> string"
  ge_uuid :: string
  ge_sink :: "chain_event \<Rightarrow> sink_result"

record 's gate_state =
  gs_store :: 's
  gs_chain :: "chain_event list"

definition audit :: "'s gate_env \<Rightarrow> execution_event \<Rightarrow> 's gate_state \<Rightarrow> 's gate_state" where
  "audit g e s = s\<lparr>gs_chain := audit_execution (ge_sink g) e (gs_chain s)\<rparr>"

text \<open>The quantity, most authoritative source first, and the price and the signed held quantity.\<close>

definition calculated :: "feldwert \<Rightarrow> pyfloat" where
  "calculated q = (case q of FNone \<Rightarrow> Fin 0 | FNum x \<Rightarrow> fl_abs x | FText _ \<Rightarrow> Fin 0)"

definition bemessung :: "order_event \<Rightarrow> feldwert \<Rightarrow> py_error + (pyfloat \<times> pyfloat \<times> pyfloat)" where
  "bemessung ev cq =
     result_bind (float_oder_null (ev_current_price ev)) (\<lambda>price.
     result_bind (float_oder_null (ev_position_qty ev)) (\<lambda>pos.
     result_bind (if fl_le (calculated cq) (Fin 0)
                  then result_bind (float_oder_null (ev_suggested_quantity ev)) (\<lambda>x. Inr (fl_abs x))
                  else Inr (calculated cq)) (\<lambda>qty.
     Inr (price, pos, if fl_le qty (Fin 0) \<and> ev_action ev = ''SELL'' then fl_abs pos else qty))))"

definition execution :: "'s gate_env \<Rightarrow> order_event \<Rightarrow> string \<Rightarrow> pyfloat \<Rightarrow> execution_event" where
  "execution g ev branch v =
     \<lparr>ex_timestamp = ge_zeit g, ex_symbol = ev_symbol ev, ex_action = ev_action ev, ex_branch = branch,
      ex_policy_hash = ge_phash g (ge_policy g), ex_order_value = v, ex_day_notional_after = None,
      ex_approval_id = None, ex_threshold_breached = None, ex_reason = None\<rparr>"

text \<open>A text as conviction or weight raises inside the \<open>try\<close>: nothing is queued, the order stays held.\<close>

definition queue_and_audit ::
  "'s gate_env \<Rightarrow> order_event \<Rightarrow> string \<Rightarrow> pyfloat \<Rightarrow> pyfloat \<Rightarrow> pyfloat \<Rightarrow> string \<Rightarrow> 's gate_state \<Rightarrow> 's gate_state" where
  "queue_and_audit g ev user_id qty price v breached s =
     (let (st, aid) =
        (case (float_oder_null (ev_conviction_score ev), float_oder_null (ev_target_weight ev)) of
           (Inr conviction, Inr weight) \<Rightarrow>
             hq_push (ge_redis g) (ge_now g) (p_expiry (ge_policy g)) (ge_uuid g) user_id (ev_symbol ev)
               (push_payload (ge_uuid g) user_id (ev_symbol ev) (ev_action ev) qty price conviction weight []
                  (ge_zeit g)) (gs_store s)
         | _ \<Rightarrow> (gs_store s, None))
      in audit g ((execution g ev ''queued'' v)\<lparr>ex_approval_id := aid, ex_threshold_breached := Some breached,
             ex_reason := (if aid = None \<or> aid = Some [] then Some ''queue_unavailable_fail_closed'' else None)\<rparr>)
           (s\<lparr>gs_store := st\<rparr>))"

definition risk_reducing :: "order_event \<Rightarrow> pyfloat \<Rightarrow> bool" where
  "risk_reducing ev pos = (ev_action ev = ''SELL'' \<and> fl_less (Fin 0) pos)"

text \<open>The last part of \<open>_decide\<close>: the limits, then the booking against the day.\<close>

definition schwellen ::
  "'s gate_env \<Rightarrow> order_event \<Rightarrow> string \<Rightarrow> pyfloat \<Rightarrow> pyfloat \<Rightarrow> pyfloat \<Rightarrow> 's gate_state
     \<Rightarrow> 's gate_state \<times> (py_error + bool)" where
  "schwellen g ev user_id qty price v s =
     (case hd_current (ge_redis g) (ge_now g) (ge_ny_date g) (gs_store s) of
        (st, Inl e) \<Rightarrow> (s\<lparr>gs_store := st\<rparr>, Inl e)
      | (st, Inr day_notional) \<Rightarrow>
          (let s1 = s\<lparr>gs_store := st\<rparr>;
               over_trade = fl_less (p_max_trade (ge_policy g)) v;
               over_day = fl_less (p_max_day (ge_policy g)) (fl_add day_notional v)
           in if over_trade \<or> over_day
              then (queue_and_audit g ev user_id qty price v (if over_trade then ''per_trade'' else ''per_day'') s1,
                    Inr True)
              else case hd_add (ge_redis g) (ge_now g) (ge_ny_date g) v (gs_store s1) of
                     (st2, Inl e) \<Rightarrow> (s1\<lparr>gs_store := st2\<rparr>, Inl e)
                   | (st2, Inr new_total) \<Rightarrow>
                       (audit g ((execution g ev ''under_limit'' v)\<lparr>ex_day_notional_after := Some new_total\<rparr>)
                          (s1\<lparr>gs_store := st2\<rparr>), Inr False)))"

definition decide_hitl ::
  "'s gate_env \<Rightarrow> order_event \<Rightarrow> string \<Rightarrow> feldwert \<Rightarrow> 's gate_state \<Rightarrow> 's gate_state \<times> (py_error + bool)" where
  "decide_hitl g ev user_id cq s =
     (case bemessung ev cq of
        Inl e \<Rightarrow> (s, Inl e)
      | Inr (price, pos, qty) \<Rightarrow>
          (let v = fl_mult qty price
           in if p_unlimited (ge_policy g)
              then (audit g ((execution g ev ''under_limit'' v)\<lparr>ex_reason := Some ''autonomous_unlimited''\<rparr>) s, Inr False)
              else if risk_reducing ev pos \<and> p_allow_sells (ge_policy g)
              then (audit g ((execution g ev ''risk_off_exempt'' v)\<lparr>ex_reason := Some ''risk_reducing_sell''\<rparr>) s, Inr False)
              else let (st, pending) = hq_has_pending (ge_redis g) (ge_now g) (ev_symbol ev) user_id (gs_store s);
                       s1 = s\<lparr>gs_store := st\<rparr>
                   in if pending then (s1, Inr True)
                      else if fl_le v (Fin 0)
                      then (queue_and_audit g ev user_id qty price v
                              (if ev_action ev = ''SELL'' \<and> fl_le qty (Fin 0) then ''unknown_sell_size''
                               else ''unknown_value'') s1, Inr True)
                      else schwellen g ev user_id qty price v s1))"

text \<open>Fail-closed: an exception holds the order.\<close>

definition should_hold ::
  "'s gate_env \<Rightarrow> order_event \<Rightarrow> string \<Rightarrow> feldwert \<Rightarrow> 's gate_state \<Rightarrow> 's gate_state \<times> bool" where
  "should_hold g ev user_id cq s =
     (case decide_hitl g ev user_id cq s of (s', Inr b) \<Rightarrow> (s', b) | (s', Inl _) \<Rightarrow> (s', True))"

section \<open>Key lemmas\<close>

lemmas key_defs = pending_key_def idx_key_def approved_prefix_def inflight_prefix_def day_key_def

lemma keys_neq [simp]:
  "pending_key i \<noteq> day_key d" "idx_key u y \<noteq> day_key d" "approved_prefix @ i \<noteq> day_key d"
  "inflight_prefix @ i \<noteq> day_key d" "day_key d \<noteq> pending_key i" "day_key d \<noteq> idx_key u y"
  "day_key d \<noteq> approved_prefix @ i" "day_key d \<noteq> inflight_prefix @ i"
  "pending_key i \<noteq> idx_key u y" "idx_key u y \<noteq> pending_key i"
  "pending_key i \<noteq> approved_prefix @ j" "approved_prefix @ j \<noteq> pending_key i"
  "pending_key i \<noteq> inflight_prefix @ j" "inflight_prefix @ j \<noteq> pending_key i"
  "idx_key u y \<noteq> approved_prefix @ j" "approved_prefix @ j \<noteq> idx_key u y"
  "idx_key u y \<noteq> inflight_prefix @ j" "inflight_prefix @ j \<noteq> idx_key u y"
  "approved_prefix @ i \<noteq> inflight_prefix @ j" "inflight_prefix @ j \<noteq> approved_prefix @ i"
  by (simp_all add: key_defs)

lemma prefixes_neq [simp]: "approved_prefix \<noteq> inflight_prefix" "inflight_prefix \<noteq> approved_prefix"
  by (simp_all add: key_defs)

lemma keys_inj [simp]: "pending_key i = pending_key j \<longleftrightarrow> i = j" "day_key d = day_key e \<longleftrightarrow> d = e"
  by (simp_all add: key_defs)

lemma lies_float_Zahl [simp]: "lies_float (Zahl x) = Some (Fin x)"
  by (simp add: lies_float_def)

context redis_client
begin

text \<open>From \<open>now\<close> on, a reader of \<open>k\<close> sees the same in both states.\<close>

definition gleich :: "real \<Rightarrow> string \<Rightarrow> 's \<Rightarrow> 's \<Rightarrow> bool" where
  "gleich now k s s' = (\<forall>t \<ge> now. sieht c s' t k = sieht c s t k)"

lemma gleich_refl [simp, intro]: "gleich now k s s"
  by (simp add: gleich_def)

lemma gleich_trans: "gleich now k s s1 \<Longrightarrow> gleich now k s1 s2 \<Longrightarrow> gleich now k s s2"
  by (simp add: gleich_def)

lemma gleich_get [simp, intro]: "gleich now k s (fst (rd_get c s now k'))"
  by (simp add: gleich_def get_keeps)

lemma gleich_set [intro]: "k \<noteq> k' \<Longrightarrow> gleich now k s (rd_set c s now k' v px)"
  by (simp add: gleich_def set_other)

lemma gleich_delete [intro]: "k \<notin> set ks \<Longrightarrow> gleich now k s (fst (rd_delete c s ks))"
  by (simp add: gleich_def delete_sieht)

lemma gleich_keys [simp, intro]: "gleich now k s (fst (rd_keys c s now pre))"
  by (simp add: gleich_def keys_keeps)

lemma gleich_get_eq: "rd_get c s now k' = (s', w) \<Longrightarrow> gleich now k s s'"
  by (metis gleich_get fst_conv)

lemma gleich_keys_eq: "rd_keys c s now pre = (s', w) \<Longrightarrow> gleich now k s s'"
  by (metis gleich_keys fst_conv)

lemma gleich_delete_eq: "rd_delete c s ks = (s', w) \<Longrightarrow> k \<notin> set ks \<Longrightarrow> gleich now k s s'"
  by (metis gleich_delete fst_conv)

lemma keys_prefix: "rd_keys c s now pre = (s', ks) \<Longrightarrow> k \<in> set ks \<Longrightarrow> startswith k pre"
  using keys_set [of s now pre] by simp

lemma sieht_get: "rd_get c s now k = (s', w) \<Longrightarrow> w = sieht c s now k"
  by (simp add: sieht_def)

subsection \<open>The queue leaves the day key alone\<close>

lemma gleich_has_pending: "gleich now k s (fst (hq_has_pending (Some c) now y u s))"
  unfolding hq_has_pending_def
  by (auto split: prod.split option.split intro: gleich_get_eq gleich_trans simp: case_prod_beta)

lemma gleich_push: "gleich now (day_key d) s (fst (hq_push (Some c) now e i u y p s))"
proof -
  obtain s1 w where 1: "rd_get c s now (idx_key u y) = (s1, w)" by (metis surj_pair)
  define s2 where "s2 = (case w of None \<Rightarrow> s1 | Some v \<Rightarrow> if wert_truthy v
      then fst (rd_delete c s1 [pending_key (text_von v), idx_key u y]) else s1)"
  have "gleich now (day_key d) s s1" using 1 by (rule gleich_get_eq)
  moreover have "gleich now (day_key d) s1 s2"
    by (auto simp: s2_def split: option.split intro!: gleich_delete)
  moreover have "gleich now (day_key d) s2 (rd_set c s2 now (pending_key i) v px)" for v px
    by (rule gleich_set) simp
  moreover have "gleich now (day_key d) x (rd_set c x now (idx_key u y) v px)" for x v px
    by (rule gleich_set) simp
  ultimately show ?thesis
    by (simp add: hq_push_def 1 Let_def s2_def [symmetric]) (metis gleich_trans)
qed

lemma gleich_lies_alle: "gleich now k s (fst (lies_alle c now ks s))"
proof (induction ks arbitrary: s)
  case (Cons k' ks)
  obtain s1 w where "rd_get c s now k' = (s1, w)" by (metis surj_pair)
  with Cons [of s1] show ?case by (auto simp: case_prod_beta intro: gleich_trans gleich_get_eq)
qed simp

lemma gleich_approve: "gleich now (day_key d) s (fst (hq_approve (Some c) now z i s))"
proof -
  obtain s1 w where 1: "rd_get c s now (pending_key i) = (s1, w)" by (metis surj_pair)
  have s1: "gleich now (day_key d) s s1" using 1 by (rule gleich_get_eq)
  have "gleich now (day_key d) s1 (fst (rd_delete c (rd_set c s1 now (approved_prefix @ i) v px) [pending_key i, idx_key u y]))"
    for v px u y
    by (rule gleich_trans [OF gleich_set gleich_delete]) simp_all
  with s1 show ?thesis
    by (auto simp: hq_approve_def 1 Let_def split: option.split jval.split intro: gleich_trans)
qed

lemma gleich_reject: "gleich now (day_key d) s (fst (hq_reject (Some c) now i s))"
proof -
  obtain s1 w where 1: "rd_get c s now (pending_key i) = (s1, w)" by (metis surj_pair)
  have s1: "gleich now (day_key d) s s1" using 1 by (rule gleich_get_eq)
  have "gleich now (day_key d) s1 (fst (rd_delete c s1 (pending_key i # map (\<lambda>_. idx_key u y) xs)))" for u y and xs :: "unit list"
    by (rule gleich_delete) auto
  from this [of _ _ "[]"] this [of _ _ "[()]"] s1 show ?thesis
    by (auto simp: hq_reject_def 1 Let_def case_prod_beta split: option.split jval.split intro: gleich_trans)
qed

lemma gleich_claim_keys:
  "\<forall>k \<in> set ks. startswith k approved_prefix \<Longrightarrow> gleich now (day_key d) s (fst (claim_keys c now ks s))"
proof (induction ks arbitrary: s)
  case (Cons k ks)
  obtain s1 w where 1: "rd_get c s now k = (s1, w)" by (metis surj_pair)
  have s1: "gleich now (day_key d) s s1" using 1 by (rule gleich_get_eq)
  have k: "day_key d \<noteq> k" using Cons.prems startswithE [of k approved_prefix] by auto
  have weg: "gleich now (day_key d) x (fst (rd_delete c x [k]))" for x
    using k by (intro gleich_delete) simp
  have rest: "gleich now (day_key d) x (fst (claim_keys c now ks x))" for x
    using Cons by simp
  have "gleich now (day_key d) s (fst (claim_keys c now ks (fst (rd_delete c s1 [k]))))"
    by (meson gleich_trans s1 weg rest)
  moreover have "gleich now (day_key d) s (fst (claim_keys c now ks
      (fst (rd_delete c (rd_set c s1 now (inflight_prefix @ a) v px) [k]))))" for a v px
  proof -
    have "gleich now (day_key d) s1 (rd_set c s1 now (inflight_prefix @ a) v px)"
      by (rule gleich_set) simp
    then show ?thesis by (meson gleich_trans s1 weg rest)
  qed
  ultimately show ?case
    using s1 by (auto simp: 1 Let_def case_prod_beta split: option.split jval.split)
qed simp

lemma gleich_claim: "gleich now (day_key d) s (fst (hq_claim_approved (Some c) now s))"
proof -
  obtain s1 ks where 1: "rd_keys c s now approved_prefix = (s1, ks)" by (metis surj_pair)
  then have "gleich now (day_key d) s s1" by (rule gleich_keys_eq)
  moreover have "gleich now (day_key d) s1 (fst (claim_keys c now ks s1))"
    using keys_prefix [OF 1] by (intro gleich_claim_keys) blast
  ultimately show ?thesis by (simp add: hq_claim_approved_def 1 gleich_trans)
qed

lemma gleich_ack: "gleich now (day_key d) s (fst (hq_ack_inflight (Some c) i s))"
  by (auto simp: hq_ack_inflight_def case_prod_beta intro!: gleich_delete)

lemma gleich_recover: "gleich now (day_key d) s (fst (hq_recover_orphaned (Some c) now s))"
  by (auto simp: hq_recover_orphaned_def split: prod.split
      intro: gleich_trans [OF gleich_keys_eq gleich_lies_alle])

lemma gleich_rollover: "p \<noteq> d \<Longrightarrow> gleich now (day_key d) s (hd_rollover (Some c) p s)"
  by (auto simp: hd_rollover_def intro!: gleich_delete)

subsection \<open>The counter of the day\<close>

text \<open>Until \<open>ende\<close> every reader finds the counter of day \<open>d\<close> at \<open>x\<close>.\<close>

definition stand :: "real \<Rightarrow> real \<Rightarrow> string \<Rightarrow> real \<Rightarrow> 's \<Rightarrow> bool" where
  "stand now ende d x s =
     ((x = 0 \<and> (\<forall>t. now \<le> t \<longrightarrow> t \<le> ende \<longrightarrow> sieht c s t (day_key d) = None)) \<or>
      (\<forall>t. now \<le> t \<longrightarrow> t \<le> ende \<longrightarrow> sieht c s t (day_key d) = Some (Zahl x)))"

lemma stand_gleich: "stand now ende d x s \<Longrightarrow> gleich now (day_key d) s s' \<Longrightarrow> stand now ende d x s'"
  by (auto simp: stand_def gleich_def)

lemma stand_later: "stand now ende d x s \<Longrightarrow> now \<le> now' \<Longrightarrow> stand now' ende d x s"
  by (auto simp: stand_def)

lemma stand_current:
  assumes "stand now ende d x s" "now \<le> ende"
  obtains s1 where "hd_current (Some c) now d s = (s1, Inr (Fin x))" "stand now ende d x s1"
proof -
  obtain s1 w where 1: "rd_get c s now (day_key d) = (s1, w)" by (metis surj_pair)
  have "w = sieht c s now (day_key d)" using 1 by (rule sieht_get)
  with assms have "w = None \<and> x = 0 \<or> w = Some (Zahl x)" by (auto simp: stand_def)
  then have "hd_current (Some c) now d s = (s1, Inr (Fin x))" by (auto simp: hd_current_def 1)
  with that show ?thesis using stand_gleich [OF assms(1) gleich_get_eq [OF 1]] by blast
qed

lemma stand_add:
  assumes st: "stand now ende d x s" and e: "now \<le> ende" "ende \<le> now + 172800"
  obtains s1 where "hd_add (Some c) now d (Fin a) s = (s1, Inr (Fin (x + a)))" "stand now ende d (x + a) s1"
proof -
  have alt: "sieht c s now (day_key d) = None \<and> x = 0 \<or> sieht c s now (day_key d) = Some (Zahl x)"
    using st e(1) by (auto simp: stand_def)
  then obtain s1 y where 1: "rd_incrbyfloat c s now (day_key d) (Fin a) = (s1, Inr y)"
    using incr_total by blast
  from incr_sieht [OF 1] alt have y: "y = Fin (x + a)" "sieht c s1 now (day_key d) = Some (Zahl (x + a))"
    by auto
  let ?s2 = "fst (rd_pexpire c s1 now (day_key d) day_ttl_ms)"
  have "stand now ende d (x + a) ?s2"
    using pexpire_sieht [of day_ttl_ms now _ s1 "day_key d" "day_key d"] y(2) e
    by (auto simp: stand_def day_ttl_ms_def)
  with that show ?thesis using 1 y by (simp add: hd_add_def)
qed

end

section \<open>A day of decisions\<close>

text \<open>What happens between two decisions: a human decides, the loop claims, the day changes.\<close>

datatype hitl_step =
    Gate order_event string feldwert
  | Approve string
  | Reject string
  | Claim
  | Ack string
  | Recover
  | Rollover string

text \<open>The value a decision books against the day: an autonomous order of neither of the two exemptions.\<close>

definition order_value :: "order_event \<Rightarrow> feldwert \<Rightarrow> real" where
  "order_value ev cq =
     (case bemessung ev cq of
        Inr (price, pos, qty) \<Rightarrow> (case fl_mult qty price of Fin r \<Rightarrow> r | _ \<Rightarrow> 0)
      | Inl _ \<Rightarrow> 0)"

definition befreit :: "policy \<Rightarrow> order_event \<Rightarrow> feldwert \<Rightarrow> bool" where
  "befreit p ev cq =
     (p_unlimited p \<or>
      (case bemessung ev cq of Inr (_, pos, _) \<Rightarrow> risk_reducing ev pos \<and> p_allow_sells p | Inl _ \<Rightarrow> False))"

fun hitl_schritt :: "'s gate_env \<Rightarrow> hitl_step \<Rightarrow> 's gate_state \<Rightarrow> 's gate_state \<times> real" where
  "hitl_schritt g (Gate ev u cq) s =
     (let (s', halten) = should_hold g ev u cq s
      in (s', if halten \<or> befreit (ge_policy g) ev cq then 0 else order_value ev cq))"
| "hitl_schritt g (Approve i) s =
     (s\<lparr>gs_store := fst (hq_approve (ge_redis g) (ge_now g) (ge_zeit g) i (gs_store s))\<rparr>, 0)"
| "hitl_schritt g (Reject i) s = (s\<lparr>gs_store := fst (hq_reject (ge_redis g) (ge_now g) i (gs_store s))\<rparr>, 0)"
| "hitl_schritt g Claim s = (s\<lparr>gs_store := fst (hq_claim_approved (ge_redis g) (ge_now g) (gs_store s))\<rparr>, 0)"
| "hitl_schritt g (Ack i) s = (s\<lparr>gs_store := fst (hq_ack_inflight (ge_redis g) i (gs_store s))\<rparr>, 0)"
| "hitl_schritt g Recover s = (s\<lparr>gs_store := fst (hq_recover_orphaned (ge_redis g) (ge_now g) (gs_store s))\<rparr>, 0)"
| "hitl_schritt g (Rollover p) s = (s\<lparr>gs_store := hd_rollover (ge_redis g) p (gs_store s)\<rparr>, 0)"

fun hitl_tag :: "('s gate_env \<times> hitl_step) list \<Rightarrow> 's gate_state \<Rightarrow> 's gate_state \<times> real" where
  "hitl_tag [] s = (s, 0)"
| "hitl_tag ((g, e) # es) s =
     (let (s1, v) = hitl_schritt g e s; (s2, w) = hitl_tag es s1 in (s2, v + w))"

text \<open>Numbers where the gate reads numbers, and no NaN or infinity among them.\<close>

fun endlich :: "feldwert \<Rightarrow> bool" where
  "endlich (FNum (Fin _)) = True"
| "endlich FNone = True"
| "endlich _ = False"

definition messbar :: "order_event \<Rightarrow> feldwert \<Rightarrow> bool" where
  "messbar ev cq = (endlich (ev_current_price ev) \<and> endlich (ev_position_qty ev) \<and>
     endlich (ev_suggested_quantity ev) \<and> endlich cq)"

lemma endlich_float: "endlich x \<Longrightarrow> \<exists>r. float_oder_null x = Inr (Fin r)"
  by (cases x; cases "case x of FNum y \<Rightarrow> y | _ \<Rightarrow> Fin 0") auto

lemma endlich_calculated: "endlich x \<Longrightarrow> \<exists>r. calculated x = Fin r"
  by (cases x; cases "case x of FNum y \<Rightarrow> y | _ \<Rightarrow> Fin 0") (auto simp: calculated_def)

lemma messbar_bemessung:
  assumes "messbar ev cq"
  obtains p h q where "bemessung ev cq = Inr (Fin p, Fin h, Fin q)"
proof -
  from assms obtain p h x k where "float_oder_null (ev_current_price ev) = Inr (Fin p)"
    "float_oder_null (ev_position_qty ev) = Inr (Fin h)"
    "float_oder_null (ev_suggested_quantity ev) = Inr (Fin x)" "calculated cq = Fin k"
    unfolding messbar_def by (metis endlich_float endlich_calculated)
  then have "\<exists>q. bemessung ev cq = Inr (Fin p, Fin h, Fin q)" by (simp add: bemessung_def)
  with that show ?thesis by blast
qed

lemma gs_store_audit [simp]: "gs_store (audit g e s) = gs_store s"
  by (simp add: audit_def)

lemma gs_store_queue: "gs_store (queue_and_audit g ev u q p v b s) =
   (case (float_oder_null (ev_conviction_score ev), float_oder_null (ev_target_weight ev)) of
      (Inr cv, Inr w) \<Rightarrow> fst (hq_push (ge_redis g) (ge_now g) (p_expiry (ge_policy g)) (ge_uuid g) u (ev_symbol ev)
         (push_payload (ge_uuid g) u (ev_symbol ev) (ev_action ev) q p cv w [] (ge_zeit g)) (gs_store s))
    | _ \<Rightarrow> gs_store s)"
  by (simp add: queue_and_audit_def case_prod_beta Let_def split: sum.split)

text \<open>The gate on a measurable order, as one case distinction.\<close>

context redis_client
begin

lemma stand_queue:
  assumes "ge_redis g = Some c" "stand (ge_now g) ende d x (gs_store s)"
  shows "stand (ge_now g) ende d x (gs_store (queue_and_audit g ev u q p v b s))"
  using assms stand_gleich [OF assms(2) gleich_push] by (auto simp: gs_store_queue split: sum.split)

definition pending :: "'s gate_env \<Rightarrow> order_event \<Rightarrow> string \<Rightarrow> 's gate_state \<Rightarrow> bool" where
  "pending g ev u s = snd (hq_has_pending (Some c) (ge_now g) (ev_symbol ev) u (gs_store s))"

lemma gate_cases:
  assumes g: "ge_redis g = Some c" "ge_now g \<le> ende" "ende \<le> ge_now g + 172800"
    and m: "messbar ev cq" and st: "stand (ge_now g) ende (ge_ny_date g) x (gs_store s)"
    and run: "should_hold g ev u cq s = (s', halten)"
  shows "halten \<longleftrightarrow> \<not> (befreit (ge_policy g) ev cq \<or>
      (\<not> pending g ev u s \<and> 0 < order_value ev cq \<and> \<not> fl_less (p_max_trade (ge_policy g)) (Fin (order_value ev cq)) \<and>
       \<not> fl_less (p_max_day (ge_policy g)) (Fin (x + order_value ev cq))))"
    and "stand (ge_now g) ende (ge_ny_date g)
      (if halten \<or> befreit (ge_policy g) ev cq then x else x + order_value ev cq) (gs_store s')"
proof -
  obtain p h q where b: "bemessung ev cq = Inr (Fin p, Fin h, Fin q)" using m by (rule messbar_bemessung)
  then have v: "order_value ev cq = q * p" by (simp add: order_value_def)
  obtain t0 pd where pd: "hq_has_pending (Some c) (ge_now g) (ev_symbol ev) u (gs_store s) = (t0, pd)"
    by (metis surj_pair)
  then have pend: "pd = pending g ev u s" by (simp add: pending_def)
  let ?s1 = "s\<lparr>gs_store := t0\<rparr>"
  have s1: "stand (ge_now g) ende (ge_ny_date g) x (gs_store ?s1)"
    using stand_gleich [OF st gleich_has_pending [of "ge_now g" _ _ "ev_symbol ev" u]] pd by simp
  obtain t1 where cur: "hd_current (Some c) (ge_now g) (ge_ny_date g) (gs_store ?s1) = (t1, Inr (Fin x))"
    "stand (ge_now g) ende (ge_ny_date g) x t1"
    using s1 g(2) by (rule stand_current)
  obtain t2 where add: "hd_add (Some c) (ge_now g) (ge_ny_date g) (Fin (q * p)) t1 = (t2, Inr (Fin (x + q * p)))"
    "stand (ge_now g) ende (ge_ny_date g) (x + q * p) t2"
    using cur(2) g(2,3) by (rule stand_add)
  note defs = should_hold_def decide_hitl_def b g(1) pd Let_def befreit_def schwellen_def cur(1) add(1) v
  have cur1: "hd_current (Some c) (ge_now g) (ge_ny_date g) t0 = (t1, Inr (Fin x))" using cur(1) by simp
  show "halten \<longleftrightarrow> \<not> (befreit (ge_policy g) ev cq \<or>
      (\<not> pending g ev u s \<and> 0 < order_value ev cq \<and> \<not> fl_less (p_max_trade (ge_policy g)) (Fin (order_value ev cq)) \<and>
       \<not> fl_less (p_max_day (ge_policy g)) (Fin (x + order_value ev cq))))"
    using run unfolding pend [symmetric]
    by (auto simp: defs cur1 split: if_splits)
  have q: "stand (ge_now g) ende (ge_ny_date g) x (gs_store (queue_and_audit g ev u a b' w r ?s1))"
    "stand (ge_now g) ende (ge_ny_date g) x (gs_store (queue_and_audit g ev u a b' w r (?s1\<lparr>gs_store := t1\<rparr>)))" for a b' w r
    using s1 cur(2) g(1) by (auto intro!: stand_queue)
  show "stand (ge_now g) ende (ge_ny_date g)
      (if halten \<or> befreit (ge_policy g) ev cq then x else x + order_value ev cq) (gs_store s')"
    using run s1 q st cur(2) add(2) unfolding pend [symmetric]
    by (auto simp: defs cur1 split: if_splits)
qed

lemma limit_upto: "fl_le m (Fin b) \<Longrightarrow> \<not> fl_less m (Fin y) \<Longrightarrow> y \<le> b"
  by (cases m) (auto simp: fl_le_def)

text \<open>A step adds to the counter what it executes against the budget, and never passes \<open>B\<close>.\<close>

lemma schritt_stand:
  assumes g: "ge_redis g = Some c" "ge_now g \<le> ende" "ende \<le> ge_now g + 172800"
      "fl_le (p_max_day (ge_policy g)) (Fin B)"
    and e: "\<forall>ev u cq. e = Gate ev u cq \<longrightarrow> messbar ev cq" "e \<noteq> Rollover (ge_ny_date g)"
    and st: "stand (ge_now g) ende (ge_ny_date g) x (gs_store s)" and x: "x \<le> B"
    and run: "hitl_schritt g e s = (s', v)"
  shows "stand (ge_now g) ende (ge_ny_date g) (x + v) (gs_store s') \<and> x + v \<le> B"
proof (cases e)
  case (Gate ev u cq)
  with e have m: "messbar ev cq" by simp
  obtain s1 b where r: "should_hold g ev u cq s = (s1, b)" by (metis surj_pair)
  note iff = gate_cases(1) [OF g(1-3) m st r] and inv = gate_cases(2) [OF g(1-3) m st r]
  show ?thesis
  proof (cases "b \<or> befreit (ge_policy g) ev cq")
    case True
    then show ?thesis using run inv x by (auto simp: Gate r)
  next
    case False
    with iff have "x + order_value ev cq \<le> B" using limit_upto [OF g(4)] by blast
    with False show ?thesis using run inv by (auto simp: Gate r)
  qed
next
  case (Rollover p)
  with e(2) run x show ?thesis
    using stand_gleich [OF st gleich_rollover [of p]] by (auto simp: g(1))
qed (use run x in \<open>auto simp: g(1) intro!: stand_gleich [OF st] gleich_approve gleich_reject gleich_claim gleich_ack gleich_recover\<close>)

definition tages_schritt :: "real \<Rightarrow> real \<Rightarrow> string \<Rightarrow> real \<Rightarrow> 's gate_env \<times> hitl_step \<Rightarrow> bool" where
  "tages_schritt ende b d t ge \<longleftrightarrow>
     ge_redis (fst ge) = Some c \<and> ge_ny_date (fst ge) = d \<and> t \<le> ge_now (fst ge) \<and> ge_now (fst ge) \<le> ende \<and>
     ende \<le> ge_now (fst ge) + 172800 \<and> fl_le (p_max_day (ge_policy (fst ge))) (Fin b) \<and>
     (\<forall>ev u cq. snd ge = Gate ev u cq \<longrightarrow> messbar ev cq) \<and> snd ge \<noteq> Rollover d"

lemma tag_stand:
  assumes "\<forall>ge \<in> set es. tages_schritt ende B d t ge" "sorted_wrt (\<lambda>a b. ge_now (fst a) \<le> ge_now (fst b)) es"
    "stand t ende d x (gs_store s)" "x \<le> B"
  shows "x + snd (hitl_tag es s) \<le> B"
  using assms
proof (induction es arbitrary: t x s)
  case (Cons ge es)
  obtain g e where ge: "ge = (g, e)" by (metis surj_pair)
  obtain s1 v where r: "hitl_schritt g e s = (s1, v)" by (metis surj_pair)
  have tg: "tages_schritt ende B d t (g, e)" using Cons.prems(1) ge by simp
  have st: "stand (ge_now g) ende (ge_ny_date g) x (gs_store s)"
    using tg stand_later [OF Cons.prems(3)] by (simp add: tages_schritt_def)
  have 1: "stand (ge_now g) ende d (x + v) (gs_store s1) \<and> x + v \<le> B"
    using schritt_stand [OF _ _ _ _ _ _ st Cons.prems(4) r] tg by (simp add: tages_schritt_def)
  have "\<forall>ge \<in> set es. tages_schritt ende B d (ge_now g) ge"
    using Cons.prems(1,2) by (auto simp: ge tages_schritt_def)
  with 1 Cons.IH [of "ge_now g" "x + v" s1] Cons.prems(2)
  have "x + v + snd (hitl_tag es s1) \<le> B" by simp
  then show ?case by (simp add: ge r case_prod_beta)
qed simp

end

section \<open>The life of an approval\<close>

text \<open>What \<open>approve\<close> writes are entries of this form: an object that names its own id.\<close>

definition ordentlich :: "wert \<Rightarrow> string \<Rightarrow> bool" where
  "ordentlich w i = (i \<noteq> [] \<and> (\<exists>p. w = Json (JObj p) \<and> jget p ''approval_id'' = JStr i))"

lemma claim_id_ordentlich: "jget p ''approval_id'' = JStr i \<Longrightarrow> i \<noteq> [] \<Longrightarrow> claim_id p k = JStr i"
  by (simp add: claim_id_def)

lemma jget_dict_set: "jget (dict_set k v p) k' = (if k' = k then v else jget p k')"
  by (simp add: jget_def)

context redis_client
begin

definition approved_ok :: "real \<Rightarrow> 's \<Rightarrow> bool" where
  "approved_ok now s = (\<forall>i w. sieht c s now (approved_prefix @ i) = Some w \<longrightarrow> ordentlich w i)"

text \<open>Claiming a list of keys: each entry becomes its marker for a day, and each is returned.\<close>

definition claimed :: "real \<Rightarrow> string list \<Rightarrow> 's \<Rightarrow> 's \<Rightarrow> (string, jval) pydict list \<Rightarrow> bool" where
  "claimed now ks s s' ps \<longleftrightarrow>
    (\<forall>i. \<forall>t \<ge> now. approved_prefix @ i \<in> set ks \<or> sieht c s t (approved_prefix @ i) = None \<longrightarrow>
       sieht c s' t (approved_prefix @ i) = None) \<and>
    (\<forall>i p. approved_prefix @ i \<in> set ks \<longrightarrow> sieht c s now (approved_prefix @ i) = Some (Json (JObj p)) \<longrightarrow>
       dict_set ''approval_id'' (JStr i) p \<in> set ps \<and>
       (\<forall>t. now \<le> t \<longrightarrow> t \<le> now + 86400 \<longrightarrow> sieht c s' t (inflight_prefix @ i) = Some (Json (JObj p)))) \<and>
    (\<forall>i. \<forall>t \<ge> now. approved_prefix @ i \<notin> set ks \<or> sieht c s now (approved_prefix @ i) = None \<longrightarrow>
       sieht c s' t (inflight_prefix @ i) = sieht c s t (inflight_prefix @ i)) \<and>
    (\<forall>i. \<forall>t \<ge> now. sieht c s' t (pending_key i) = sieht c s t (pending_key i))"

lemma claimed_skip:
  assumes cl: "claimed now ks x s' ps" and k: "k = approved_prefix @ j" "sieht c s now k = None"
    and x: "\<And>t k'. now \<le> t \<Longrightarrow> sieht c x t k' = (if k' = k then None else sieht c s t k')"
  shows "claimed now (k # ks) s s' ps"
proof -
  have now: "sieht c x now k' = sieht c s now k'" for k' using x [of now] k(2) by simp
  have p: "now \<le> t \<Longrightarrow> sieht c x t (pending_key i) = sieht c s t (pending_key i)"
    and f: "now \<le> t \<Longrightarrow> sieht c x t (inflight_prefix @ i) = sieht c s t (inflight_prefix @ i)" for t i
    using x [of t] by (simp_all add: k(1))
  have "approved_prefix @ i = k \<or> sieht c s t (approved_prefix @ i) = None \<longleftrightarrow> sieht c x t (approved_prefix @ i) = None"
    if "now \<le> t" for i t using x [OF that] by auto
  moreover have "sieht c s now (approved_prefix @ i) = None" if "approved_prefix @ i = k" for i using that k(2) by simp
  ultimately show ?thesis using cl p f unfolding claimed_def now by (simp del: append_same_eq) (metis option.distinct(1))
qed

lemma claimed_take:
  assumes cl: "claimed now ks x s' ps" and k: "k = approved_prefix @ j" "sieht c s now k = Some (Json (JObj p))"
    and x: "\<And>t k'. now \<le> t \<Longrightarrow> sieht c x t k' = (if k' = k then None else if k' = inflight_prefix @ j
        then (if t \<le> now + 86400 then Some (Json (JObj p)) else None) else sieht c s t k')"
  shows "claimed now (k # ks) s s' (dict_set ''approval_id'' (JStr j) p # ps)"
proof -
  have j: "now \<le> t \<Longrightarrow> sieht c s' t (inflight_prefix @ j) = sieht c x t (inflight_prefix @ j)" for t
    using cl x [of now k] by (auto simp: claimed_def k)
  have "dict_set ''approval_id'' (JStr i) q \<in> set (dict_set ''approval_id'' (JStr j) p # ps) \<and>
      (\<forall>t. now \<le> t \<longrightarrow> t \<le> now + 86400 \<longrightarrow> sieht c s' t (inflight_prefix @ i) = Some (Json (JObj q)))"
    if i: "approved_prefix @ i \<in> set (k # ks)" "sieht c s now (approved_prefix @ i) = Some (Json (JObj q))" for i q
  proof (cases "i = j")
    case True
    with i(2) k have "q = p" by simp
    with True j x show ?thesis by (auto simp: k(1))
  next
    case False
    then have "sieht c x now (approved_prefix @ i) = Some (Json (JObj q))" using i(2) x [of now] by (simp add: k(1))
    with False i(1) cl show ?thesis by (auto simp: claimed_def k(1))
  qed
  moreover have "sieht c s' t (inflight_prefix @ i) = sieht c s t (inflight_prefix @ i)"
    if "now \<le> t" "approved_prefix @ i \<notin> set (k # ks) \<or> sieht c s now (approved_prefix @ i) = None" for i t
  proof -
    have "i \<noteq> j" using that(2) k by auto
    with that cl x [of now] x [of t] show ?thesis by (auto simp: claimed_def k(1))
  qed
  moreover have "sieht c s' t (approved_prefix @ i) = None"
    if "now \<le> t" "approved_prefix @ i \<in> set (k # ks) \<or> sieht c s t (approved_prefix @ i) = None" for i t
    using that cl x [of t] by (auto simp: claimed_def k(1))
  moreover have "sieht c s' t (pending_key i) = sieht c s t (pending_key i)" if "now \<le> t" for i t
    using that cl x [of t] by (auto simp: claimed_def k(1))
  ultimately show ?thesis unfolding claimed_def by blast
qed

lemma claim_keys_spec:
  assumes "\<forall>k \<in> set ks. \<exists>i. k = approved_prefix @ i" "approved_ok now s"
  shows "\<exists>s' ps. claim_keys c now ks s = (s', Inr ps) \<and> claimed now ks s s' ps"
  using assms
proof (induction ks arbitrary: s)
  case (Cons k ks)
  obtain j where k: "k = approved_prefix @ j" using Cons.prems(1) by auto
  obtain s1 w where 1: "rd_get c s now k = (s1, w)" by (metis surj_pair)
  have w: "w = sieht c s now k" using 1 by (rule sieht_get)
  have s1: "now \<le> t \<Longrightarrow> sieht c s1 t k' = sieht c s t k'" for t k' using get_keeps [of now t s k k'] 1 by simp
  have ks: "\<forall>k \<in> set ks. \<exists>i. k = approved_prefix @ i" using Cons.prems(1) by simp
  show ?case
  proof (cases w)
    case None
    let ?x = "fst (rd_delete c s1 [k])"
    have x: "now \<le> t \<Longrightarrow> sieht c ?x t k' = (if k' = k then None else sieht c s t k')" for t k'
      by (simp add: delete_sieht s1)
    have "approved_ok now ?x"
      using Cons.prems(2) x [of now] unfolding approved_ok_def by (metis option.distinct(1) order_refl)
    then obtain s' ps where "claim_keys c now ks ?x = (s', Inr ps)" "claimed now ks ?x s' ps"
      using Cons.IH [OF ks] by blast
    then show ?thesis using claimed_skip [OF _ k _ x] w by (simp add: 1 None)
  next
    case (Some v)
    then obtain p where v: "v = Json (JObj p)" "jget p ''approval_id'' = JStr j" "j \<noteq> []"
      using Cons.prems(2) w unfolding approved_ok_def ordentlich_def k by metis
    let ?x = "fst (rd_delete c (rd_set c s1 now (inflight_prefix @ j) v inflight_ttl_ms) [k])"
    have x: "now \<le> t \<Longrightarrow> sieht c ?x t k' = (if k' = k then None else if k' = inflight_prefix @ j then
        (if t \<le> now + 86400 then Some (Json (JObj p)) else None) else sieht c s t k')" for t k'
      using set_sieht [of inflight_ttl_ms now t s1 "inflight_prefix @ j" v k'] s1 [of t k']
      by (simp add: delete_sieht inflight_ttl_ms_def v(1))
    have "approved_ok now ?x"
      using Cons.prems(2) x [of now] unfolding approved_ok_def by (metis keys_neq(19) option.distinct(1) order_refl)
    then obtain s' ps where "claim_keys c now ks ?x = (s', Inr ps)" "claimed now ks ?x s' ps"
      using Cons.IH [OF ks] by blast
    moreover have "sieht c s now k = Some (Json (JObj p))" using w Some v(1) by simp
    ultimately show ?thesis using claimed_take [OF _ k _ x]
      by (simp add: 1 Some v(1) claim_id_ordentlich [OF v(2,3)] Let_def)
  qed
qed (simp add: claimed_def)

lemma approve_spec:
  assumes p: "sieht c s now (pending_key i) = Some (Json (JObj p))"
  obtains s' where
    "hq_approve (Some c) now z i s = (s', Inr (Some (dict_set ''approved_at'' (JStr z) p)))"
    "\<And>t j. now \<le> t \<Longrightarrow> sieht c s' t (approved_prefix @ j) =
       (if j = i then (if t \<le> now + 600 then Some (Json (JObj (dict_set ''approved_at'' (JStr z) p))) else None)
        else sieht c s t (approved_prefix @ j))"
    "\<And>t. now \<le> t \<Longrightarrow> sieht c s' t (pending_key i) = None"
proof -
  obtain s1 w where 1: "rd_get c s now (pending_key i) = (s1, w)" by (metis surj_pair)
  then have w: "w = Some (Json (JObj p))" using sieht_get p by simp
  have s1: "now \<le> t \<Longrightarrow> sieht c s1 t k' = sieht c s t k'" for t k'
    using get_keeps [of now t s "pending_key i" k'] 1 by simp
  let ?p = "dict_set ''approved_at'' (JStr z) p"
  let ?s2 = "rd_set c s1 now (approved_prefix @ i) (Json (JObj ?p)) approved_window_ms"
  let ?s3 = "fst (rd_delete c ?s2 [pending_key i, idx_key (feld_text (jget ?p ''user_id'')) (feld_text (jget ?p ''symbol''))])"
  have "hq_approve (Some c) now z i s = (?s3, Inr (Some ?p))" by (simp add: hq_approve_def 1 w Let_def)
  moreover have "now \<le> t \<Longrightarrow> sieht c ?s2 t k' = (if k' = approved_prefix @ i then
      (if t \<le> now + 600 then Some (Json (JObj ?p)) else None) else sieht c s t k')" for t k'
    using set_sieht [of approved_window_ms now t s1 "approved_prefix @ i" _ k'] s1
    by (simp add: approved_window_ms_def)
  ultimately show ?thesis by (intro that [of ?s3]) (auto simp: delete_sieht)
qed

lemma claim_spec:
  assumes "approved_ok now s"
  obtains s' ps where "hq_claim_approved (Some c) now s = (s', Inr ps)"
    "claimed now (snd (rd_keys c s now approved_prefix)) s s' ps"
proof -
  obtain s1 ks where 1: "rd_keys c s now approved_prefix = (s1, ks)" by (metis surj_pair)
  have s1: "now \<le> t \<Longrightarrow> sieht c s1 t k' = sieht c s t k'" for t k'
    using keys_keeps [of now t s approved_prefix k'] 1 by simp
  have "approved_ok now s1" using assms by (simp add: approved_ok_def s1)
  moreover have "\<forall>k \<in> set ks. \<exists>i. k = approved_prefix @ i"
    using keys_prefix [OF 1] startswithE by blast
  ultimately obtain s' ps where "claim_keys c now ks s1 = (s', Inr ps)" "claimed now ks s1 s' ps"
    using claim_keys_spec by blast
  with that [of s' ps] s1 show ?thesis by (simp add: hq_claim_approved_def 1 claimed_def)
qed

lemma lies_alle_member:
  "k \<in> set ks \<Longrightarrow> sieht c s now k = Some (Json j) \<Longrightarrow> j \<in> set (snd (lies_alle c now ks s))"
proof (induction ks arbitrary: s)
  case (Cons k' ks)
  obtain s1 w where 1: "rd_get c s now k' = (s1, w)" by (metis surj_pair)
  have "sieht c s1 now k = Some (Json j)" using get_keeps [of now now s k' k] 1 Cons.prems(2) by simp
  moreover have "k = k' \<Longrightarrow> w = Some (Json j)" using sieht_get [OF 1] Cons.prems(2) by simp
  ultimately show ?case using Cons by (auto simp: 1 case_prod_beta split: option.split)
qed simp

lemma recover_member:
  assumes "sieht c s now (inflight_prefix @ i) = Some (Json j)"
  shows "j \<in> set (snd (hq_recover_orphaned (Some c) now s))"
proof -
  obtain s1 ks where 1: "rd_keys c s now inflight_prefix = (s1, ks)" by (metis surj_pair)
  have "inflight_prefix @ i \<in> set ks" using keys_set [of s now inflight_prefix] 1 assms by simp
  moreover have "sieht c s1 now (inflight_prefix @ i) = Some (Json j)"
    using keys_keeps [of now now s inflight_prefix] 1 assms by simp
  ultimately show ?thesis by (simp add: hq_recover_orphaned_def 1 lies_alle_member)
qed

lemma approval_life:
  assumes pend: "sieht c s t1 (pending_key i) = Some (Json (JObj p))"
    and id: "jget p ''approval_id'' = JStr i" "i \<noteq> []" and ok: "approved_ok t2 s" and t: "t1 \<le> t2" "t2 \<le> t1 + 600"
  shows "\<exists>s1 p' s2 ps. hq_approve (Some c) t1 z i s = (s1, Inr (Some p')) \<and>
    hq_claim_approved (Some c) t2 s1 = (s2, Inr ps) \<and> dict_set ''approval_id'' (JStr i) p' \<in> set ps \<and>
    snd (hq_approve (Some c) t2 z i s2) = Inr None \<and> snd (hq_count_approved (Some c) t2 s2) = 0 \<and>
    (\<forall>t. t2 \<le> t \<longrightarrow> t \<le> t2 + 86400 \<longrightarrow> JObj p' \<in> set (snd (hq_recover_orphaned (Some c) t s2)))"
proof -
  let ?p = "dict_set ''approved_at'' (JStr z) p"
  obtain s1 where ap: "hq_approve (Some c) t1 z i s = (s1, Inr (Some ?p))"
    and a: "\<And>t j. t1 \<le> t \<Longrightarrow> sieht c s1 t (approved_prefix @ j) = (if j = i then
        (if t \<le> t1 + 600 then Some (Json (JObj ?p)) else None) else sieht c s t (approved_prefix @ j))"
    and g: "\<And>t. t1 \<le> t \<Longrightarrow> sieht c s1 t (pending_key i) = None"
    using pend by (rule approve_spec) blast
  have "approved_ok t2 s1"
    using ok a [OF t(1)] id by (auto simp: approved_ok_def ordentlich_def jget_dict_set)
  then obtain s2 ps where cl: "hq_claim_approved (Some c) t2 s1 = (s2, Inr ps)"
    "claimed t2 (snd (rd_keys c s1 t2 approved_prefix)) s1 s2 ps"
    by (rule claim_spec)
  let ?ks = "snd (rd_keys c s1 t2 approved_prefix)"
  have ks: "approved_prefix @ j \<in> set ?ks \<longleftrightarrow> sieht c s1 t2 (approved_prefix @ j) \<noteq> None" for j
    by (simp add: keys_set)
  have i: "sieht c s1 t2 (approved_prefix @ i) = Some (Json (JObj ?p))" "approved_prefix @ i \<in> set ?ks"
    using a [OF t(1), of i] t(2) by (simp_all add: ks)
  have "sieht c s2 t2 (pending_key i) = None" using cl(2) g t(1) by (simp add: claimed_def)
  then have 1: "snd (hq_approve (Some c) t2 z i s2) = Inr None"
    using sieht_get [of s2 t2 "pending_key i"] by (auto simp: hq_approve_def split: prod.split option.split)
  have "sieht c s2 t2 (approved_prefix @ j) = None" for j
    using cl(2) ks [of j] unfolding claimed_def by (metis order_refl)
  then have "set (snd (rd_keys c s2 t2 approved_prefix)) = {}"
    by (auto simp: keys_set dest!: startswithE)
  then have 2: "snd (hq_count_approved (Some c) t2 s2) = 0" by (simp add: hq_count_approved_def case_prod_beta)
  have "t2 \<le> t \<Longrightarrow> t \<le> t2 + 86400 \<Longrightarrow> sieht c s2 t (inflight_prefix @ i) = Some (Json (JObj ?p))" for t
    using cl(2) i by (simp add: claimed_def)
  then show ?thesis using ap cl i 1 2 recover_member by (fastforce simp: claimed_def)
qed

end

context redis_client
begin

text \<open>Queueing: the entry of the same user and symbol goes, the new one is found until it expires.\<close>

lemma push_spec:
  assumes j: "sieht c s now (idx_key u y) = Some (Text j)" "j \<noteq> []" "i \<noteq> []" "j \<noteq> i"
    and t: "0 < e" "now \<le> t" "t \<le> now + real_of_int e"
  shows "case hq_push (Some c) now e i u y p s of (s', r) \<Rightarrow>
    r = Some i \<and> snd (hq_approve (Some c) t z j s') = Inr None \<and>
    snd (hq_has_pending (Some c) t y u s') \<and> JObj p \<in> set (snd (hq_get_pending (Some c) t s'))"
proof -
  obtain s1 w where 1: "rd_get c s now (idx_key u y) = (s1, w)" by (metis surj_pair)
  then have w: "w = Some (Text j)" using sieht_get j(1) by simp
  let ?px = "e * 1000"
  let ?s2 = "fst (rd_delete c s1 [pending_key j, idx_key u y])"
  let ?s3 = "rd_set c ?s2 now (pending_key i) (Json (JObj p)) ?px"
  let ?s = "rd_set c ?s3 now (idx_key u y) (Text i) ?px"
  have px: "0 < ?px" "t \<le> now + real_of_int ?px / 1000" using t by simp_all
  have s3: "sieht c ?s3 t k = (if k = pending_key i then Some (Json (JObj p)) else sieht c ?s2 t k)" for k
    using set_sieht [OF px(1) t(2), of ?s2 "pending_key i"] px(2) by simp
  have "sieht c ?s t k = (if k = idx_key u y then Some (Text i) else sieht c ?s3 t k)" for k
    using set_sieht [OF px(1) t(2), of ?s3 "idx_key u y"] px(2) by simp
  then have see: "sieht c ?s t (idx_key u y) = Some (Text i)" "sieht c ?s t (pending_key i) = Some (Json (JObj p))"
    "sieht c ?s t (pending_key j) = None"
    using j(4) by (simp_all add: s3 delete_sieht)
  have push: "hq_push (Some c) now e i u y p s = (?s, Some i)" by (simp add: hq_push_def 1 w j(2) Let_def)
  have "snd (hq_approve (Some c) t z j ?s) = Inr None"
    using see(3) sieht_get [of ?s t "pending_key j"] by (auto simp: hq_approve_def split: prod.split option.split)
  moreover have "snd (hq_has_pending (Some c) t y u ?s)"
  proof -
    obtain x v where x: "rd_get c ?s t (idx_key u y) = (x, v)" by (metis surj_pair)
    then have "v = Some (Text i)" using sieht_get see(1) by simp
    moreover have "snd (rd_get c x t (pending_key i)) = Some (Json (JObj p))"
      using get_keeps [of t t ?s "idx_key u y" "pending_key i"] x see(2) by (simp add: sieht_def)
    ultimately show ?thesis using j(3) by (simp add: hq_has_pending_def x case_prod_beta)
  qed
  moreover have "JObj p \<in> set (snd (hq_get_pending (Some c) t ?s))"
  proof -
    obtain x ks where x: "rd_keys c ?s t ''hitl:pending:'' = (x, ks)" by (metis surj_pair)
    have "startswith (pending_key i) ''hitl:pending:''" by (simp only: pending_key_def startswith_append)
    then have "pending_key i \<in> set ks" using keys_set [of ?s t "''hitl:pending:''"] x see(2) by simp
    moreover have "sieht c x t (pending_key i) = Some (Json (JObj p))"
      using keys_keeps [of t t ?s "''hitl:pending:''"] x see(2) by simp
    ultimately show ?thesis by (simp add: hq_get_pending_def x lies_alle_member)
  qed
  ultimately show ?thesis unfolding push by simp
qed

end

section \<open>Runs of the gate\<close>

text \<open>An order that passes every question of the gate is booked and executed.\<close>

lemma gate_executes:
  assumes "bemessung ev cq = Inr (price, pos, qty)" and "\<not> p_unlimited (ge_policy g)"
    and "\<not> (risk_reducing ev pos \<and> p_allow_sells (ge_policy g))"
    and "hq_has_pending (ge_redis g) (ge_now g) (ev_symbol ev) u (gs_store s) = (t0, False)"
    and "\<not> fl_le (fl_mult qty price) (Fin 0)"
    and "hd_current (ge_redis g) (ge_now g) (ge_ny_date g) t0 = (t1, Inr x)"
    and "\<not> fl_less (p_max_trade (ge_policy g)) (fl_mult qty price)"
    and "\<not> fl_less (p_max_day (ge_policy g)) (fl_add x (fl_mult qty price))"
    and "hd_add (ge_redis g) (ge_now g) (ge_ny_date g) (fl_mult qty price) t1 = (t2, Inr y)"
  shows "\<exists>e. should_hold g ev u cq s = (audit g e (s\<lparr>gs_store := t2\<rparr>), False)"
  using assms by (auto simp: should_hold_def decide_hitl_def schwellen_def Let_def)

definition belegt :: "'s gate_env \<Rightarrow> order_event \<Rightarrow> bool \<Rightarrow> 's gate_state \<Rightarrow> 's gate_state \<Rightarrow> bool" where
  "belegt g ev halten s s' = (\<exists>e. gs_chain s' = gs_chain s @ [HITLExecution e] \<and> ex_symbol e = ev_symbol ev \<and>
     ex_action e = ev_action ev \<and> ex_policy_hash e = ge_phash g (ge_policy g) \<and>
     ex_branch e \<in> (if halten then {''queued''} else {''under_limit'', ''risk_off_exempt''}))"

lemma belegt_audit:
  "\<forall>e. ge_sink g e = Taken \<Longrightarrow> ex_symbol e = ev_symbol ev \<Longrightarrow> ex_action e = ev_action ev \<Longrightarrow>
    ex_policy_hash e = ge_phash g (ge_policy g) \<Longrightarrow>
    ex_branch e \<in> (if h then {''queued''} else {''under_limit'', ''risk_off_exempt''}) \<Longrightarrow>
    gs_chain t = gs_chain s \<Longrightarrow> belegt g ev h s (audit g e t)"
  by (auto simp: belegt_def audit_def audit_execution_def log_hitl_event_def logged_def)

lemma belegt_queue:
  assumes "\<forall>e. ge_sink g e = Taken" "gs_chain t = gs_chain s"
  shows "belegt g ev True s (queue_and_audit g ev u q p v b t)"
  unfolding queue_and_audit_def Let_def case_prod_beta
  by (rule belegt_audit) (use assms in \<open>simp_all add: execution_def\<close>)

lemma belegt_schwellen:
  assumes "\<forall>e. ge_sink g e = Taken" "gs_chain t = gs_chain s" "schwellen g ev u q p v t = (s', r)"
  shows "(\<exists>e. r = Inl e \<and> gs_chain s' = gs_chain s) \<or> (\<exists>h. r = Inr h \<and> belegt g ev h s s')"
proof -
  let ?h = "hd_current (ge_redis g) (ge_now g) (ge_ny_date g) (gs_store t)"
  obtain t1 y where 1: "?h = (t1, y)" by (metis surj_pair)
  obtain t2 z where 2: "hd_add (ge_redis g) (ge_now g) (ge_ny_date g) v t1 = (t2, z)" by (metis surj_pair)
  have q: "belegt g ev True s (queue_and_audit g ev u q p v b (t\<lparr>gs_store := t1\<rparr>))" for b
    by (rule belegt_queue) (use assms(1,2) in simp_all)
  have a: "belegt g ev False s (audit g ((execution g ev ''under_limit'' v)\<lparr>ex_day_notional_after := n\<rparr>) (t\<lparr>gs_store := t2\<rparr>))" for n
    by (rule belegt_audit) (use assms(1,2) in \<open>simp_all add: execution_def\<close>)
  show ?thesis
    using assms(2,3) q a
    by (cases y; cases z) (auto simp: schwellen_def Let_def 1 2 split: if_splits)
qed

lemma decide_belegt:
  assumes "\<forall>e. ge_sink g e = Taken" "decide_hitl g ev u cq s = (s1, r)"
  shows "(r \<in> range Inl \<union> {Inr True} \<and> gs_chain s1 = gs_chain s) \<or> (\<exists>h. r = Inr h \<and> belegt g ev h s s1)"
proof (cases "bemessung ev cq")
  case (Inl e)
  with assms(2) show ?thesis by (auto simp: decide_hitl_def)
next
  case (Inr x)
  obtain p h q where x: "x = (p, h, q)" by (metis surj_pair)
  obtain t pd where 1: "hq_has_pending (ge_redis g) (ge_now g) (ev_symbol ev) u (gs_store s) = (t, pd)"
    by (metis surj_pair)
  have q: "belegt g ev True s (queue_and_audit g ev u q p v b (s\<lparr>gs_store := t\<rparr>))" for v b
    by (rule belegt_queue) (use assms(1) in simp_all)
  have a: "belegt g ev False s (audit g ((execution g ev b v)\<lparr>ex_reason := n\<rparr>) s)"
    if "b \<in> {''under_limit'', ''risk_off_exempt''}" for b v n
    by (rule belegt_audit) (use assms(1) that in \<open>simp_all add: execution_def\<close>)
  have w: "(r \<in> range Inl \<and> gs_chain s1 = gs_chain s) \<or> (\<exists>h. r = Inr h \<and> belegt g ev h s s1)"
    if "schwellen g ev u q p v (s\<lparr>gs_store := t\<rparr>) = (s1, r)" for v
    using belegt_schwellen [OF assms(1) _ that, of s] by auto
  show ?thesis
    using assms(2) q [of "fl_mult q p"] a w [of "fl_mult q p"]
    by (auto simp: decide_hitl_def Inr x 1 Let_def split: if_splits)
qed

section \<open>Properties of the gate\<close>

text \<open>
  C11: The day budget holds. On one New York day, with the local store keeping the counter (empty at the start, no
  rollover of this very day) and the clock in order within the 48 hours of its lifetime, whatever decisions,
  approvals, rejections, claims, acknowledgements, recoveries and rollovers of other days come in whatever order,
  and however the policy changes meanwhile, the values executed against the budget (neither unlimited nor an
  exempt sell) add up to at most the largest day limit in force, when the orders carry finite numbers. With a
  price that is NaN, or without a store, the limit does not bind; see \<open>nan_price_executes\<close> and
  \<open>no_store_no_day_limit\<close>.
\<close>

theorem day_budget:
  assumes "\<forall>(g, e) \<in> set es. ge_redis g = Some local_client \<and> ge_ny_date g = d \<and> t0 \<le> ge_now g \<and>
      ge_now g \<le> t0 + 172800 \<and> fl_le (p_max_day (ge_policy g)) (Fin B) \<and>
      (\<forall>ev u cq. e = Gate ev u cq \<longrightarrow> messbar ev cq) \<and> e \<noteq> Rollover d"
    and "sorted_wrt (\<lambda>a b. ge_now (fst a) \<le> ge_now (fst b)) es"
    and "map_of (ls_store (gs_store s)) (day_key d) = None" and "0 \<le> B"
  shows "snd (hitl_tag es s) \<le> B"
proof -
  have "local.stand t0 (t0 + 172800) d 0 (gs_store s)"
    using assms(3) by (simp add: local.stand_def sieht_local)
  moreover have "\<forall>ge \<in> set es. local.tages_schritt (t0 + 172800) B d t0 ge"
    using assms(1) by (auto simp: local.tages_schritt_def)
  ultimately show ?thesis using local.tag_stand [of es "t0 + 172800" B d t0 0 s] assms(2,4) by simp
qed

text \<open>Two orders within the trade limit; the second would pass the day limit and is queued.\<close>

definition bsp_policy :: policy where
  "bsp_policy = \<lparr>p_enabled = True, p_max_trade = Fin 600, p_max_day = Fin 1000, p_unlimited = False,
     p_allow_sells = True, p_expiry = 900\<rparr>"

definition bsp_env :: "real \<Rightarrow> policy \<Rightarrow> local_state gate_env" where
  "bsp_env t p = \<lparr>ge_redis = Some local_client, ge_now = t, ge_zeit = ''z'', ge_ny_date = ''d'', ge_policy = p,
     ge_phash = (\<lambda>_. ''h''), ge_uuid = ''u'', ge_sink = (\<lambda>_. Taken)\<rparr>"

definition bsp_event :: "string \<Rightarrow> string \<Rightarrow> pyfloat \<Rightarrow> order_event" where
  "bsp_event y a p = \<lparr>ev_symbol = y, ev_action = a, ev_current_price = FNum p, ev_position_qty = FNone,
     ev_suggested_quantity = FNum (Fin 5), ev_conviction_score = FNone, ev_target_weight = FNone\<rparr>"

definition bsp_start :: "local_state gate_state" where
  "bsp_start = \<lparr>gs_store = ls_empty, gs_chain = []\<rparr>"

lemmas bsp_defs = bsp_policy_def bsp_env_def bsp_event_def bsp_start_def

lemmas gate_defs = should_hold_def decide_hitl_def bemessung_def calculated_def schwellen_def hd_current_def hd_add_def
  hq_has_pending_def risk_reducing_def

lemmas client_defs = ls_get_def ls_set_def ls_incrbyfloat_def ls_pexpire_def evict_expired_def ls_entferne_def
  ls_empty_def Let_def

text \<open>An order of the witness: within the trade limit, five pieces at 100.\<close>

lemma bsp_first: "snd (hitl_tag [(bsp_env 0 bsp_policy, Gate (bsp_event ''A'' ''BUY'' (Fin 100)) ''u'' FNone)] bsp_start) = 500"
  by (simp add: bsp_defs gate_defs client_defs befreit_def order_value_def idx_key_def day_key_def)

theorem day_budget_witness:
  "snd (hitl_tag [(bsp_env 0 bsp_policy, Gate (bsp_event ''A'' ''BUY'' (Fin 100)) ''u'' FNone),
       (bsp_env 1 bsp_policy, Claim), (bsp_env 2 bsp_policy, Gate (bsp_event ''B'' ''BUY'' (Fin 110)) ''u'' FNone)] bsp_start) \<le> 1000"
  by (rule day_budget [of _ "''d''" 0])
     (auto simp: bsp_defs messbar_def ls_empty_def)

text \<open>
  The gate decides exactly by its policy. A measurable order is executed without a human if and only
  if the policy exempts it (unlimited, or a sell of a held position), or nothing is pending for the user
  and symbol, its value is positive, and neither it exceeds the trade limit nor it and the counter of the
  day exceed the day limit.
\<close>

theorem gate_decides:
  assumes "ge_redis g = Some local_client" and "messbar ev cq"
    and "case sieht local_client (gs_store s) (ge_now g) (day_key (ge_ny_date g)) of None \<Rightarrow> x = 0 | Some w \<Rightarrow> w = Zahl x"
  shows "\<not> snd (should_hold g ev u cq s) \<longleftrightarrow>
    befreit (ge_policy g) ev cq \<or>
    (\<not> snd (hq_has_pending (Some local_client) (ge_now g) (ev_symbol ev) u (gs_store s)) \<and>
     0 < order_value ev cq \<and> \<not> fl_less (p_max_trade (ge_policy g)) (Fin (order_value ev cq)) \<and>
     \<not> fl_less (p_max_day (ge_policy g)) (Fin (x + order_value ev cq)))"
proof -
  have t: "t = ge_now g" if "ge_now g \<le> t" "t \<le> ge_now g" for t using that by simp
  have "local.stand (ge_now g) (ge_now g) (ge_ny_date g) x (gs_store s)"
    using assms(3) by (cases "sieht local_client (gs_store s) (ge_now g) (day_key (ge_ny_date g))")
      (auto simp: local.stand_def dest!: t)
  moreover obtain s' b where "should_hold g ev u cq s = (s', b)" by (metis surj_pair)
  ultimately show ?thesis
    using local.gate_cases(1) [of g "ge_now g" ev cq x s u s' b] assms(1,2) by (auto simp: local.pending_def)
qed

theorem gate_decides_witness:
  "snd (should_hold (bsp_env 0 bsp_policy) (bsp_event ''A'' ''BUY'' (Fin 130)) ''u'' FNone bsp_start)"
  using gate_decides [of "bsp_env 0 bsp_policy" "bsp_event ''A'' ''BUY'' (Fin 130)" FNone 0 bsp_start "''u''"]
  by (simp add: bsp_defs messbar_def sieht_local ls_empty_def ls_abgelaufen_def befreit_def bemessung_def calculated_def
      risk_reducing_def order_value_def)

text \<open>
  Every decision that lets an order out, and every one that sends it to a human, leaves exactly one
  execution event on a chain that can be written: its branch says which of both it was, its policy hash
  under which policy. Only an order that is pending already, or whose evaluation raised, leaves none, and
  that one is held.
\<close>

theorem decision_is_evidenced:
  assumes "should_hold g ev u cq s = (s', halten)" and "\<forall>e. ge_sink g e = Taken"
  shows "(halten \<and> gs_chain s' = gs_chain s) \<or>
    (\<exists>e. gs_chain s' = gs_chain s @ [HITLExecution e] \<and> ex_symbol e = ev_symbol ev \<and> ex_action e = ev_action ev \<and>
         ex_policy_hash e = ge_phash g (ge_policy g) \<and>
         ex_branch e \<in> (if halten then {''queued''} else {''under_limit'', ''risk_off_exempt''}))"
proof -
  obtain s1 r where d: "decide_hitl g ev u cq s = (s1, r)" by (metis surj_pair)
  from decide_belegt [OF assms(2) d] show ?thesis
    using assms(1) d by (auto simp: should_hold_def belegt_def split: sum.splits)
qed

theorem decision_is_evidenced_witness:
  "\<exists>s' h. should_hold (bsp_env 0 bsp_policy) (bsp_event ''A'' ''BUY'' (Fin 100)) ''u'' FNone bsp_start = (s', h) \<and>
     ((h \<and> gs_chain s' = []) \<or> (\<exists>e. gs_chain s' = [HITLExecution e] \<and> ex_symbol e = ''A''))"
proof -
  obtain s' h where r: "should_hold (bsp_env 0 bsp_policy) (bsp_event ''A'' ''BUY'' (Fin 100)) ''u'' FNone bsp_start = (s', h)"
    by (metis surj_pair)
  from decision_is_evidenced [OF r] show ?thesis unfolding r by (auto simp: bsp_defs)
qed

text \<open>The store after an order whose value is NaN was booked at time 0.\<close>

definition nan_store :: local_state where
  "nan_store = ls_empty\<lparr>ls_store := [(day_key ''d'', Text ''nan'')],
     ls_expiries := (\<lambda>_. None)(day_key ''d'' \<mapsto> 172800)\<rparr>"

lemma nan_bemessung: "bemessung (bsp_event y ''BUY'' NaN) FNone = Inr (NaN, Fin 0, Fin 5)"
  by (simp add: bsp_event_def bemessung_def calculated_def)

lemma fin_bemessung: "bemessung (bsp_event y ''BUY'' (Fin r)) FNone = Inr (Fin r, Fin 0, Fin 5)"
  by (auto simp: bsp_event_def bemessung_def calculated_def)

lemma nan_first:
  "hq_has_pending (Some local_client) 0 y u ls_empty = (ls_empty, False)"
  "hd_current (Some local_client) 0 ''d'' ls_empty = (ls_empty, Inr (Fin 0))"
  "hd_add (Some local_client) 0 ''d'' NaN ls_empty = (nan_store, Inr NaN)"
  by (simp_all add: hq_has_pending_def hd_current_def hd_add_def client_defs nan_store_def day_ttl_ms_def)

lemma nan_second:
  "hq_has_pending (Some local_client) 1 y u nan_store = (nan_store, False)"
  "hd_current (Some local_client) 1 ''d'' nan_store = (nan_store, Inr NaN)"
  "\<exists>t. hd_add (Some local_client) 1 ''d'' x nan_store = (t, Inr NaN)"
  by (simp_all add: hq_has_pending_def hd_current_def hd_add_def client_defs nan_store_def lies_float_def)

text \<open>
  An order whose price is NaN passes every limit. It is executed without a human under every
  policy that is not unlimited (also with both limits 0, where every order should go to a human), and it
  leaves the counter of the day at NaN: from then on no order within the trade limit is stopped by the
  day limit, however small that is.
\<close>

theorem nan_price_executes:
  assumes "\<not> p_unlimited p" and "0 < r" and "\<not> fl_less (p_max_trade p) (Fin (5 * r))"
  shows "\<not> snd (should_hold (bsp_env 0 p) (bsp_event ''A'' ''BUY'' NaN) ''u'' FNone bsp_start) \<and>
    \<not> snd (should_hold (bsp_env 1 p) (bsp_event ''B'' ''BUY'' (Fin r)) ''u'' FNone
          (fst (should_hold (bsp_env 0 p) (bsp_event ''A'' ''BUY'' NaN) ''u'' FNone bsp_start)))"
proof -
  have nan: "\<not> fl_less m NaN" for m by (cases m) auto
  obtain e where 1: "should_hold (bsp_env 0 p) (bsp_event ''A'' ''BUY'' NaN) ''u'' FNone bsp_start =
      (audit (bsp_env 0 p) e (bsp_start\<lparr>gs_store := nan_store\<rparr>), False)"
    using gate_executes [OF nan_bemessung [of "''A''"], of "bsp_env 0 p" "''u''" bsp_start ls_empty ls_empty "Fin 0" nan_store NaN]
      assms(1) nan nan_first by (auto simp: bsp_env_def bsp_event_def bsp_start_def risk_reducing_def)
  obtain t where t: "hd_add (Some local_client) 1 ''d'' (Fin (5 * r)) nan_store = (t, Inr NaN)"
    using nan_second(3) by blast
  let ?s = "audit (bsp_env 0 p) e (bsp_start\<lparr>gs_store := nan_store\<rparr>)"
  have "\<exists>f. should_hold (bsp_env 1 p) (bsp_event ''B'' ''BUY'' (Fin r)) ''u'' FNone ?s =
      (audit (bsp_env 1 p) f (?s\<lparr>gs_store := t\<rparr>), False)"
    by (rule gate_executes [OF fin_bemessung [of "''B''" r], of _ _ _ nan_store nan_store NaN _ NaN])
       (use assms nan nan_second(1,2) t in \<open>simp_all add: bsp_env_def bsp_event_def risk_reducing_def\<close>)
  with 1 show ?thesis by auto
qed

theorem nan_price_executes_witness:
  "\<not> snd (should_hold (bsp_env 0 (bsp_policy\<lparr>p_max_day := Fin 0\<rparr>)) (bsp_event ''A'' ''BUY'' NaN) ''u'' FNone bsp_start)"
  using nan_price_executes [of "bsp_policy\<lparr>p_max_day := Fin 0\<rparr>" 100] by (simp add: bsp_policy_def)

text \<open>
  Without a state store the day limit binds no sequence of orders: the counter stays at 0, so any
  number of orders that each keep both limits is executed.
\<close>

theorem no_store_no_day_limit:
  assumes "ge_redis g = None" and "messbar ev cq" and "\<not> befreit (ge_policy g) ev cq" and "0 < order_value ev cq"
    and "\<not> fl_less (p_max_trade (ge_policy g)) (Fin (order_value ev cq))"
    and "\<not> fl_less (p_max_day (ge_policy g)) (Fin (order_value ev cq))"
  shows "snd (hitl_tag (replicate n (g, Gate ev u cq)) s) = real n * order_value ev cq"
proof (induction n arbitrary: s)
  case (Suc n)
  obtain p h q where b: "bemessung ev cq = Inr (Fin p, Fin h, Fin q)" using assms(2) by (rule messbar_bemessung)
  then have v: "order_value ev cq = q * p" by (simp add: order_value_def)
  have "snd (hitl_schritt g (Gate ev u cq) s) = order_value ev cq"
    using assms b by (simp add: gate_defs(1,2,5-8) befreit_def v Let_def case_prod_beta split: if_splits)
       (auto simp: gate_defs Let_def)
  then show ?case using Suc by (simp add: case_prod_beta Let_def algebra_simps)
qed simp

theorem no_store_no_day_limit_witness:
  "snd (hitl_tag (replicate 3 ((bsp_env 0 bsp_policy)\<lparr>ge_redis := None\<rparr>, Gate (bsp_event ''A'' ''BUY'' (Fin 100)) ''u'' FNone)) bsp_start) = 1500"
  using no_store_no_day_limit [of "(bsp_env 0 bsp_policy)\<lparr>ge_redis := None\<rparr>" "bsp_event ''A'' ''BUY'' (Fin 100)" FNone 3 "''u''" bsp_start]
  by (simp add: bsp_defs messbar_def befreit_def bemessung_def calculated_def risk_reducing_def order_value_def)

text \<open>
  An approved order is claimed, once, and not lost. An order that is pending can be approved; the
  next claim within 600 seconds returns it (under its own id) and leaves no approval to claim; a second
  approval finds nothing; and for 24 hours every recovery lists it until it is acknowledged, also after a
  restart that lost the claimed list. Other approvals may be stored beside it.
\<close>

theorem approval_is_claimed_once:
  assumes "sieht local_client s t1 (pending_key i) = Some (Json (JObj p))"
    and "jget p ''approval_id'' = JStr i" and "i \<noteq> []"
    and "\<forall>j w. sieht local_client s t2 (approved_prefix @ j) = Some w \<longrightarrow> ordentlich w j"
    and "t1 \<le> t2" and "t2 \<le> t1 + 600"
  shows "\<exists>s1 p' s2 ps. hq_approve (Some local_client) t1 z i s = (s1, Inr (Some p')) \<and>
    hq_claim_approved (Some local_client) t2 s1 = (s2, Inr ps) \<and> dict_set ''approval_id'' (JStr i) p' \<in> set ps \<and>
    snd (hq_approve (Some local_client) t2 z i s2) = Inr None \<and>
    snd (hq_count_approved (Some local_client) t2 s2) = 0 \<and>
    (\<forall>t. t2 \<le> t \<longrightarrow> t \<le> t2 + 86400 \<longrightarrow> JObj p' \<in> set (snd (hq_recover_orphaned (Some local_client) t s2)))"
  using assms local.approval_life [of s t1 i p t2 z] by (simp add: local.approved_ok_def)

definition bsp_pending :: local_state where
  "bsp_pending = fst (hq_push (Some local_client) 0 900 ''i'' ''u'' ''A''
     (push_payload ''i'' ''u'' ''A'' ''BUY'' (Fin 5) (Fin 100) (Fin 0) (Fin 0) [] ''z'') ls_empty)"

lemma bsp_pending_sieht: "sieht local_client bsp_pending 1 (pending_key ''i'') = Some (Json (JObj
    (push_payload ''i'' ''u'' ''A'' ''BUY'' (Fin 5) (Fin 100) (Fin 0) (Fin 0) [] ''z'')))"
  "sieht local_client bsp_pending 2 (approved_prefix @ j) = None"
  by (auto simp: bsp_pending_def hq_push_def client_defs sieht_local ls_abgelaufen_def)

theorem approval_is_claimed_once_witness:
  "\<exists>s1 p' s2 ps. hq_approve (Some local_client) 1 ''z'' ''i'' bsp_pending = (s1, Inr (Some p')) \<and>
     hq_claim_approved (Some local_client) 2 s1 = (s2, Inr ps) \<and>
     JObj p' \<in> set (snd (hq_recover_orphaned (Some local_client) 3 s2))"
proof -
  have "jget (push_payload ''i'' ''u'' ''A'' ''BUY'' (Fin 5) (Fin 100) (Fin 0) (Fin 0) [] ''z'') ''approval_id'' = JStr ''i''"
    by (simp add: push_payload_def jget_def)
  from approval_is_claimed_once [OF bsp_pending_sieht(1) this, of 2 "''z''"] show ?thesis
    by (auto simp: bsp_pending_sieht(2))
qed

text \<open>
  One live approval per user and symbol. Queueing an order supersedes the one that waits for the
  same user and symbol: that one can no longer be approved, and until its own expiry the new one is
  pending and listed.
\<close>

theorem push_supersedes:
  assumes "sieht local_client s now (idx_key u y) = Some (Text j)" and "j \<noteq> []" and "i \<noteq> []" and "j \<noteq> i"
    and "0 < e" and "now \<le> t" and "t \<le> now + real_of_int e"
  shows "case hq_push (Some local_client) now e i u y p s of (s', r) \<Rightarrow>
    r = Some i \<and> snd (hq_approve (Some local_client) t z j s') = Inr None \<and>
    snd (hq_has_pending (Some local_client) t y u s') \<and> JObj p \<in> set (snd (hq_get_pending (Some local_client) t s'))"
  using local.push_spec [OF assms] by simp

lemma bsp_pending_idx: "sieht local_client bsp_pending 1 (idx_key ''u'' ''A'') = Some (Text ''i'')"
  by (auto simp: bsp_pending_def hq_push_def client_defs sieht_local ls_abgelaufen_def)

theorem push_supersedes_witness:
  "snd (hq_has_pending (Some local_client) 5 ''A'' ''u''
     (fst (hq_push (Some local_client) 1 900 ''k'' ''u'' ''A'' [] bsp_pending)))"
  using push_supersedes [OF bsp_pending_idx, of "''k''" 900 5 "[]" "[]"] by (simp add: case_prod_beta)

end
