(* ===== verification/Iron_Dome.thy ===== *)
theory Iron_Dome
  imports Hitl
begin

text \<open>
  The operating limits of the engine and who may change them: the policy loader with its immutable
  caps (\<open>core/governance/iron_dome_policy.py\<close>), the four-eyes rules (\<open>core/governance/four_eyes.py\<close>)
  and the endpoints that set, propose and approve a policy (\<open>core/engine/routes/admin.py\<close>).

  The stored policy and the requested one are JSON objects. The configuration's operating values and
  the edition are arguments; a write of the database is one step.
\<close>

section \<open>Values of a policy object\<close>

text \<open>
  What \<open>int\<close> and \<open>float\<close> make of a JSON value: a text can be a numeral of an integer, one of another
  float, or neither; \<open>RSonst\<close> is whatever both refuse.
\<close>

datatype rohwert =
    RNone
  | RBool bool
  | RInt int
  | RFloat pyfloat
  | RIntText int
  | RFloatText pyfloat
  | RSonst jval

type_synonym rohdict = "(string, rohwert) pydict"

fun roh_json :: "rohwert \<Rightarrow> jval" where
  "roh_json RNone = JNull"
| "roh_json (RBool b) = JBool b"
| "roh_json (RInt n) = JNum (real_of_int n)"
| "roh_json (RFloat x) = jfloat x"
| "roh_json (RIntText n) = JStr ((if n < 0 then ''-'' else []) @ dez (nat \<bar>n\<bar>))"
| "roh_json (RFloatText x) = jfloat x"
| "roh_json (RSonst j) = j"

definition roh_get :: "rohdict \<Rightarrow> string \<Rightarrow> rohwert" where
  "roh_get d k = (case map_of d k of None \<Rightarrow> RNone | Some v \<Rightarrow> v)"

text \<open>\<open>int(float)\<close> drops the fraction.\<close>

definition trunc :: "real \<Rightarrow> int" where
  "trunc r = (if 0 \<le> r then \<lfloor>r\<rfloor> else \<lceil>r\<rceil>)"

text \<open>\<open>_coerce\<close> to an int: \<open>None\<close> where it is impossible; \<open>int\<close> of an infinity is an \<open>OverflowError\<close>.\<close>

fun coerce_int :: "rohwert \<Rightarrow> py_error + int option" where
  "coerce_int (RBool b) = Inr (Some (if b then 1 else 0))"
| "coerce_int (RInt n) = Inr (Some n)"
| "coerce_int (RFloat (Fin r)) = Inr (Some (trunc r))"
| "coerce_int (RFloat (Inf _)) = Inl OverflowError"
| "coerce_int (RIntText n) = Inr (Some n)"
| "coerce_int _ = Inr None"

text \<open>\<open>_coerce\<close> to a float: a NaN is refused.\<close>

fun coerce_float :: "rohwert \<Rightarrow> pyfloat option" where
  "coerce_float (RBool b) = Some (Fin (if b then 1 else 0))"
| "coerce_float (RInt n) = Some (Fin (real_of_int n))"
| "coerce_float (RFloat x) = (if x = NaN then None else Some x)"
| "coerce_float (RIntText n) = Some (Fin (real_of_int n))"
| "coerce_float (RFloatText x) = (if x = NaN then None else Some x)"
| "coerce_float _ = None"

section \<open>The policy and its caps\<close>

definition MAX_DAILY_TRADES_CEILING :: int where "MAX_DAILY_TRADES_CEILING = 50"
definition WASH_TRADE_WINDOW_MIN_SECONDS :: int where "WASH_TRADE_WINDOW_MIN_SECONDS = 30"
definition MAX_ORDER_VALUE_CEILING :: pyfloat where "MAX_ORDER_VALUE_CEILING = Fin 100000"
definition PORTFOLIO_STOP_LOSS_PCT_CEILING :: pyfloat where "PORTFOLIO_STOP_LOSS_PCT_CEILING = Fin 0.1"
definition DAILY_DRAWDOWN_PCT_CEILING :: pyfloat where "DAILY_DRAWDOWN_PCT_CEILING = Fin 0.2"

lemmas cap_defs = MAX_DAILY_TRADES_CEILING_def WASH_TRADE_WINDOW_MIN_SECONDS_def MAX_ORDER_VALUE_CEILING_def
  PORTFOLIO_STOP_LOSS_PCT_CEILING_def DAILY_DRAWDOWN_PCT_CEILING_def

record iron_policy =
  max_daily_trades :: int
  wash_trade_window_seconds :: int
  max_order_value :: pyfloat
  portfolio_stop_loss_pct :: pyfloat
  daily_drawdown_pct :: pyfloat

definition STRICT_DEFAULT :: iron_policy where
  "STRICT_DEFAULT = \<lparr>max_daily_trades = 10, wash_trade_window_seconds = 60, max_order_value = Fin 10000,
     portfolio_stop_loss_pct = Fin 0.07, daily_drawdown_pct = Fin 0.175\<rparr>"

text \<open>The two operating values the configuration has; \<open>RNone\<close> where it lacks one.\<close>

record iron_config =
  COMPLIANCE_MAX_DAILY_TRADES :: rohwert
  COMPLIANCE_MAX_ORDER_VALUE :: rohwert

definition operating_trades :: "iron_config \<Rightarrow> int" where
  "operating_trades cfg = (case coerce_int (COMPLIANCE_MAX_DAILY_TRADES cfg) of
     Inr (Some n) \<Rightarrow> n | _ \<Rightarrow> max_daily_trades STRICT_DEFAULT)"

definition operating_value :: "iron_config \<Rightarrow> pyfloat" where
  "operating_value cfg = (case coerce_float (COMPLIANCE_MAX_ORDER_VALUE cfg) of
     Some x \<Rightarrow> x | None \<Rightarrow> max_order_value STRICT_DEFAULT)"

definition fl_min :: "pyfloat \<Rightarrow> pyfloat \<Rightarrow> pyfloat" where
  "fl_min x y = (if fl_less y x then y else x)"

definition clamp_ceiling_int :: "rohwert \<Rightarrow> int \<Rightarrow> int \<Rightarrow> py_error + int" where
  "clamp_ceiling_int v dflt cap =
     result_bind (coerce_int v) (\<lambda>c. Inr (case c of None \<Rightarrow> min dflt cap | Some n \<Rightarrow> min n cap))"

definition clamp_floor_int :: "rohwert \<Rightarrow> int \<Rightarrow> int \<Rightarrow> py_error + int" where
  "clamp_floor_int v dflt boden =
     result_bind (coerce_int v) (\<lambda>c. Inr (case c of None \<Rightarrow> dflt | Some n \<Rightarrow> max n boden))"

definition clamp_ceiling_float :: "rohwert \<Rightarrow> pyfloat \<Rightarrow> pyfloat \<Rightarrow> pyfloat" where
  "clamp_ceiling_float v dflt cap =
     (case coerce_float v of None \<Rightarrow> fl_min dflt cap | Some x \<Rightarrow> fl_min x cap)"

text \<open>\<open>None\<close> is a source that is missing or no object.\<close>

definition load_policy :: "iron_config \<Rightarrow> rohdict option \<Rightarrow> py_error + iron_policy" where
  "load_policy cfg raw =
     (case raw of
        None \<Rightarrow> Inr STRICT_DEFAULT
      | Some d \<Rightarrow>
          result_bind (clamp_ceiling_int (roh_get d ''max_daily_trades'') (operating_trades cfg)
                         MAX_DAILY_TRADES_CEILING) (\<lambda>trades.
          result_bind (clamp_floor_int (roh_get d ''wash_trade_window_seconds'')
                         (wash_trade_window_seconds STRICT_DEFAULT) WASH_TRADE_WINDOW_MIN_SECONDS) (\<lambda>wash.
          Inr \<lparr>max_daily_trades = trades, wash_trade_window_seconds = wash,
               max_order_value = clamp_ceiling_float (roh_get d ''max_order_value'') (operating_value cfg)
                                   MAX_ORDER_VALUE_CEILING,
               portfolio_stop_loss_pct = clamp_ceiling_float (roh_get d ''portfolio_stop_loss_pct'')
                                   (portfolio_stop_loss_pct STRICT_DEFAULT) PORTFOLIO_STOP_LOSS_PCT_CEILING,
               daily_drawdown_pct = clamp_ceiling_float (roh_get d ''daily_drawdown_pct'')
                                   (daily_drawdown_pct STRICT_DEFAULT) DAILY_DRAWDOWN_PCT_CEILING\<rparr>)))"

definition asdict :: "iron_policy \<Rightarrow> rohdict" where
  "asdict p = [(''max_daily_trades'', RInt (max_daily_trades p)),
     (''wash_trade_window_seconds'', RInt (wash_trade_window_seconds p)),
     (''max_order_value'', RFloat (max_order_value p)),
     (''portfolio_stop_loss_pct'', RFloat (portfolio_stop_loss_pct p)),
     (''daily_drawdown_pct'', RFloat (daily_drawdown_pct p))]"

section \<open>Four eyes\<close>

definition looser :: "iron_policy \<Rightarrow> iron_policy \<Rightarrow> bool" where
  "looser new old =
     (max_daily_trades old < max_daily_trades new \<or>
      fl_less (max_order_value old) (max_order_value new) \<or>
      fl_less (portfolio_stop_loss_pct old) (portfolio_stop_loss_pct new) \<or>
      fl_less (daily_drawdown_pct old) (daily_drawdown_pct new) \<or>
      wash_trade_window_seconds new < wash_trade_window_seconds old)"

definition is_loosening :: "iron_config \<Rightarrow> rohdict \<Rightarrow> rohdict \<Rightarrow> py_error + bool" where
  "is_loosening cfg old_policy new_policy =
     result_bind (load_policy cfg (Some old_policy)) (\<lambda>old.
     result_bind (load_policy cfg (Some new_policy)) (\<lambda>new. Inr (looser new old)))"

definition add_approval :: "string list \<Rightarrow> string \<Rightarrow> string \<Rightarrow> string list" where
  "add_approval approvals approver initiator =
     (if approver \<noteq> initiator \<and> approver \<notin> set approvals then approvals @ [approver] else approvals)"

definition is_ready_to_apply :: "string list \<Rightarrow> real \<Rightarrow> real \<Rightarrow> bool" where
  "is_ready_to_apply approvals cooloff_until now = (1 \<le> length approvals \<and> cooloff_until \<le> now)"

section \<open>The endpoints\<close>

record pending_change =
  pc_initiator :: string
  pc_requested_policy :: rohdict
  pc_approvals :: "string list"
  pc_created_at :: real
  pc_cooloff_until :: real
  pc_applied :: bool

text \<open>The stored row, the pending rows, the audit chain, and the limits the running guardians hold.\<close>

record iron_state =
  is_stored :: "rohdict option"
  is_pending :: "(string, pending_change) pydict"
  is_chain :: "chain_event list"
  is_live :: iron_policy

datatype answer = Applied rohdict | Pending | Refused nat | Failed py_error

definition stored_value :: "iron_state \<Rightarrow> rohdict" where
  "stored_value s = (case is_stored s of None \<Rightarrow> [] | Some d \<Rightarrow> d)"

definition json_dict :: "rohdict \<Rightarrow> (string, jval) pydict" where
  "json_dict d = map (\<lambda>(k, v). (k, roh_json v)) d"

text \<open>
  Audit, then persist, then reload: a failed audit refuses the change. \<open>db\<close> is what the write of the row
  raises: where it fails the change is refused too, with its event on the chain.
\<close>

definition save_iron_dome_policy :: "py_error option \<Rightarrow> rohdict \<Rightarrow> iron_state \<Rightarrow> iron_state \<times> (py_error + unit)" where
  "save_iron_dome_policy db policy s =
     (case db of Some e \<Rightarrow> (s, Inl e) | None \<Rightarrow> (s\<lparr>is_stored := Some policy\<rparr>, Inr ()))"

definition commit_iron_dome_policy ::
  "iron_config \<Rightarrow> (chain_event \<Rightarrow> sink_result) \<Rightarrow> py_error option \<Rightarrow> string \<Rightarrow> rohdict \<Rightarrow> rohdict \<Rightarrow> string \<Rightarrow> iron_state
     \<Rightarrow> iron_state \<times> (py_error + unit)" where
  "commit_iron_dome_policy cfg sink db zeit old effective actor s =
     (case log_policy_event sink zeit (json_dict old) (json_dict effective) actor True (is_chain s) of
        (chain, Inl e) \<Rightarrow> (s\<lparr>is_chain := chain\<rparr>, Inl e)
      | (chain, Inr _) \<Rightarrow>
          (case save_iron_dome_policy db effective (s\<lparr>is_chain := chain\<rparr>) of
             (s1, Inl e) \<Rightarrow> (s1, Inl e)
           | (s1, Inr _) \<Rightarrow>
               (case load_policy cfg (Some effective) of
                  Inl e \<Rightarrow> (s1, Inl e)
                | Inr p \<Rightarrow> (s1\<lparr>is_live := p\<rparr>, Inr ()))))"

definition set_iron_dome_policy ::
  "iron_config \<Rightarrow> bool \<Rightarrow> (chain_event \<Rightarrow> sink_result) \<Rightarrow> py_error option \<Rightarrow> string \<Rightarrow> rohdict \<Rightarrow> iron_state \<Rightarrow> iron_state \<times> answer" where
  "set_iron_dome_policy cfg four_eyes sink db zeit p s =
     (case load_policy cfg (Some p) of
        Inl e \<Rightarrow> (s, Failed e)
      | Inr pol \<Rightarrow>
          (let old = stored_value s; effective = asdict pol
           in case (if four_eyes then is_loosening cfg old effective else Inr False) of
                Inl e \<Rightarrow> (s, Failed e)
              | Inr True \<Rightarrow> (s, Refused 409)
              | Inr False \<Rightarrow>
                  (case commit_iron_dome_policy cfg sink db zeit old effective ''iron_dome_admin'' s of
                     (s', Inl e) \<Rightarrow> (s', Failed e)
                   | (s', Inr _) \<Rightarrow> (s', Applied effective))))"

definition propose_iron_dome_policy ::
  "iron_config \<Rightarrow> real \<Rightarrow> string \<Rightarrow> string \<Rightarrow> rohdict \<Rightarrow> iron_state \<Rightarrow> iron_state \<times> answer" where
  "propose_iron_dome_policy cfg now pending_id x_user_id p s =
     (if x_user_id = [] then (s, Refused 400)
      else case load_policy cfg (Some p) of
             Inl e \<Rightarrow> (s, Failed e)
           | Inr pol \<Rightarrow>
               (s\<lparr>is_pending := dict_set pending_id
                    \<lparr>pc_initiator = x_user_id, pc_requested_policy = asdict pol, pc_approvals = [],
                     pc_created_at = now, pc_cooloff_until = now + 600, pc_applied = False\<rparr> (is_pending s)\<rparr>, Pending))"

definition approve_iron_dome_policy ::
  "iron_config \<Rightarrow> (chain_event \<Rightarrow> sink_result) \<Rightarrow> py_error option \<Rightarrow> string \<Rightarrow> real \<Rightarrow> string \<Rightarrow> string \<Rightarrow> iron_state \<Rightarrow> iron_state \<times> answer" where
  "approve_iron_dome_policy cfg sink db zeit now pending_id x_user_id s =
     (if x_user_id = [] then (s, Refused 400)
      else case map_of (is_pending s) pending_id of
             None \<Rightarrow> (s, Refused 404)
           | Some pc \<Rightarrow>
               if pc_applied pc then (s, Refused 409)
               else
                 (let approvals = add_approval (pc_approvals pc) x_user_id (pc_initiator pc)
                  in if is_ready_to_apply approvals (pc_cooloff_until pc) now
                     then (case commit_iron_dome_policy cfg sink db zeit (stored_value s) (pc_requested_policy pc)
                                  (pc_initiator pc @ ''->'' @ x_user_id) s of
                             (s', Inl e) \<Rightarrow> (s', Failed e)
                           | (s', Inr _) \<Rightarrow>
                               (s'\<lparr>is_pending := dict_set pending_id (pc\<lparr>pc_approvals := approvals, pc_applied := True\<rparr>)
                                     (is_pending s')\<rparr>, Applied (pc_requested_policy pc)))
                     else (s\<lparr>is_pending := dict_set pending_id (pc\<lparr>pc_approvals := approvals\<rparr>) (is_pending s)\<rparr>, Pending)))"

text \<open>At boot the stored value reaches the guardians; where there is no row it is the empty object.\<close>

definition boot_iron_dome :: "iron_config \<Rightarrow> iron_state \<Rightarrow> iron_state \<times> (py_error + unit)" where
  "boot_iron_dome cfg s =
     (case load_policy cfg (Some (stored_value s)) of
        Inl e \<Rightarrow> (s, Inl e) | Inr p \<Rightarrow> (s\<lparr>is_live := p\<rparr>, Inr ()))"

section \<open>Lemmas of the loader\<close>

lemma coerce_float_num: "coerce_float v = Some x \<Longrightarrow> x \<noteq> NaN"
  by (cases v rule: coerce_float.cases) (auto split: if_splits)

lemma operating_value_num: "operating_value cfg \<noteq> NaN"
  by (auto simp: operating_value_def STRICT_DEFAULT_def dest: coerce_float_num split: option.split)

lemma fl_min_le: "x \<noteq> NaN \<Longrightarrow> fl_le (fl_min x (Fin b)) (Fin b)"
  by (cases x) (auto simp: fl_min_def fl_le_def)

lemma clamp_float_le: "dflt \<noteq> NaN \<Longrightarrow> fl_le (clamp_ceiling_float v dflt (Fin b)) (Fin b)"
  by (auto simp: clamp_ceiling_float_def intro: fl_min_le dest: coerce_float_num split: option.split)

lemma fl_le_num: "fl_le x y \<Longrightarrow> x \<noteq> NaN"
  by (auto simp: fl_le_def)

definition within_caps :: "iron_policy \<Rightarrow> bool" where
  "within_caps p =
     (max_daily_trades p \<le> MAX_DAILY_TRADES_CEILING \<and>
      WASH_TRADE_WINDOW_MIN_SECONDS \<le> wash_trade_window_seconds p \<and>
      fl_le (max_order_value p) MAX_ORDER_VALUE_CEILING \<and>
      fl_le (portfolio_stop_loss_pct p) PORTFOLIO_STOP_LOSS_PCT_CEILING \<and>
      fl_le (daily_drawdown_pct p) DAILY_DRAWDOWN_PCT_CEILING)"

lemma load_within: "load_policy cfg raw = Inr p \<Longrightarrow> within_caps p"
  using operating_value_num [of cfg]
  by (auto simp: load_policy_def within_caps_def STRICT_DEFAULT_def cap_defs result_bind_Inr clamp_ceiling_int_def
      clamp_floor_int_def clamp_float_le split: option.splits)

text \<open>Reading a policy the loader itself wrote gives it back.\<close>

lemma fl_min_id: "fl_le x y \<Longrightarrow> fl_min x y = x"
  by (cases x; cases y) (auto simp: fl_min_def fl_le_def)

lemma load_asdict: "within_caps p \<Longrightarrow> load_policy cfg (Some (asdict p)) = Inr p"
proof -
  assume w: "within_caps p"
  then have "max_order_value p \<noteq> NaN" "portfolio_stop_loss_pct p \<noteq> NaN" "daily_drawdown_pct p \<noteq> NaN"
    unfolding within_caps_def using fl_le_num by blast+
  with w show ?thesis
    by (simp add: load_policy_def asdict_def roh_get_def clamp_ceiling_int_def clamp_floor_int_def
        clamp_ceiling_float_def within_caps_def fl_min_id min_absorb1 max_absorb1)
qed

text \<open>Loosening against a base cannot be reached through policies that are not looser.\<close>

lemma fl_less_through: "fl_less a b \<Longrightarrow> \<not> fl_less c b \<Longrightarrow> c \<noteq> NaN \<Longrightarrow> fl_less a c"
  by (cases a; cases b; cases c) auto

lemma looser_through: "looser p' p0 \<Longrightarrow> \<not> looser p' p \<Longrightarrow> within_caps p \<Longrightarrow> looser p p0"
  by (auto simp: looser_def within_caps_def dest: fl_le_num intro: fl_less_through)

section \<open>Runs\<close>

text \<open>
  What can happen to the limits in the edition with several admins. The id of a proposal is a fresh
  \<open>uuid4\<close>; an audit write may fail; the engine may start again. With \<open>drops\<close> the sink of the audit may lose an
  event without raising; with \<open>fails\<close> the write of the policy row may raise.
\<close>

inductive iron_run :: "iron_config \<Rightarrow> bool \<Rightarrow> bool \<Rightarrow> iron_state \<Rightarrow> iron_state \<Rightarrow> bool" for cfg drops fails s0 where
  start: "iron_run cfg drops fails s0 s0"
| set_step: "iron_run cfg drops fails s0 s \<Longrightarrow> drops \<or> (\<forall>e. w e \<noteq> Dropped) \<Longrightarrow> fails \<or> db = None \<Longrightarrow>
    iron_run cfg drops fails s0 (fst (set_iron_dome_policy cfg True w db z p s))"
| propose_step: "iron_run cfg drops fails s0 s \<Longrightarrow> i \<notin> dom (map_of (is_pending s)) \<Longrightarrow>
    iron_run cfg drops fails s0 (fst (propose_iron_dome_policy cfg now i u p s))"
| approve_step: "iron_run cfg drops fails s0 s \<Longrightarrow> drops \<or> (\<forall>e. w e \<noteq> Dropped) \<Longrightarrow> fails \<or> db = None \<Longrightarrow>
    iron_run cfg drops fails s0 (fst (approve_iron_dome_policy cfg w db z now i u s))"
| boot_step: "iron_run cfg drops fails s0 s \<Longrightarrow> iron_run cfg drops fails s0 (fst (boot_iron_dome cfg s))"

lemma commit_cases:
  obtains (refused) e where "commit_iron_dome_policy cfg w db z old d a s = (s, Inl e)"
  | (unsaved) e where "db \<noteq> None" "commit_iron_dome_policy cfg w db z old d a s =
      (s\<lparr>is_chain := logged w (HITLPolicy z a (json_dict old) (json_dict d)) (is_chain s)\<rparr>, Inl e)"
  | (stored) e where "load_policy cfg (Some d) = Inl e" "commit_iron_dome_policy cfg w db z old d a s =
      (s\<lparr>is_chain := logged w (HITLPolicy z a (json_dict old) (json_dict d)) (is_chain s), is_stored := Some d\<rparr>, Inl e)"
  | (committed) p where "load_policy cfg (Some d) = Inr p" "commit_iron_dome_policy cfg w db z old d a s =
      (s\<lparr>is_chain := logged w (HITLPolicy z a (json_dict old) (json_dict d)) (is_chain s), is_stored := Some d, is_live := p\<rparr>, Inr ())"
proof (cases "w (HITLPolicy z a (json_dict old) (json_dict d)) = Refused_by_sink")
  case True
  then have "commit_iron_dome_policy cfg w db z old d a s = (s, Inl OSError)"
    by (simp add: commit_iron_dome_policy_def log_policy_event_def strikt_def log_hitl_event_def)
  then show ?thesis by (rule refused)
next
  case taken: False
  show ?thesis
  proof (cases db)
    case (Some e)
    with taken show ?thesis
      by (intro unsaved [of e]) (simp_all add: commit_iron_dome_policy_def save_iron_dome_policy_def log_policy_event_def
          strikt_def log_hitl_event_def)
  next
    case None
    with taken show ?thesis
      using stored committed
      by (cases "load_policy cfg (Some d)")
         (auto simp: commit_iron_dome_policy_def save_iron_dome_policy_def log_policy_event_def strikt_def log_hitl_event_def)
  qed
qed

lemma set_cases:
  obtains (unchanged) "fst (set_iron_dome_policy cfg True w db z p s) = s"
  | (unsaved) ev d where "db \<noteq> None" "fst (set_iron_dome_policy cfg True w db z p s) =
        s\<lparr>is_chain := logged w (HITLPolicy z ev (json_dict (stored_value s)) (json_dict d)) (is_chain s)\<rparr>"
  | (changed) old pol ev where "load_policy cfg (Some (stored_value s)) = Inr old" "within_caps pol" "\<not> looser pol old"
      "fst (set_iron_dome_policy cfg True w db z p s) =
        s\<lparr>is_chain := logged w (HITLPolicy z ev (json_dict (stored_value s)) (json_dict (asdict pol))) (is_chain s),
          is_stored := Some (asdict pol), is_live := pol\<rparr>"
proof (cases "load_policy cfg (Some p)")
  case (Inl e)
  then have "fst (set_iron_dome_policy cfg True w db z p s) = s" by (simp add: set_iron_dome_policy_def)
  then show ?thesis by (rule unchanged)
next
  case (Inr pol)
  then have pol: "within_caps pol" "load_policy cfg (Some (asdict pol)) = Inr pol"
    by (simp_all add: load_within load_asdict)
  show ?thesis
  proof (cases "load_policy cfg (Some (stored_value s))")
    case (Inl e)
    then have "fst (set_iron_dome_policy cfg True w db z p s) = s"
      by (simp add: set_iron_dome_policy_def Inr is_loosening_def Let_def)
    then show ?thesis by (rule unchanged)
  next
    case old: (Inr old)
    have lo: "is_loosening cfg (stored_value s) (asdict pol) = Inr (looser pol old)"
      by (simp add: is_loosening_def old pol)
    show ?thesis
    proof (cases "looser pol old")
      case True
      then have "fst (set_iron_dome_policy cfg True w db z p s) = s"
        by (simp add: set_iron_dome_policy_def Inr lo Let_def)
      then show ?thesis by (rule unchanged)
    next
      case False
      show ?thesis
      proof (rule commit_cases [of cfg w db z "stored_value s" "asdict pol" "''iron_dome_admin''" s])
        fix e assume "commit_iron_dome_policy cfg w db z (stored_value s) (asdict pol) ''iron_dome_admin'' s = (s, Inl e)"
        then have "fst (set_iron_dome_policy cfg True w db z p s) = s"
          by (simp add: set_iron_dome_policy_def Inr lo False Let_def)
        then show ?thesis by (rule unchanged)
      next
        fix e assume db: "db \<noteq> None" and c: "commit_iron_dome_policy cfg w db z (stored_value s) (asdict pol) ''iron_dome_admin'' s =
          (s\<lparr>is_chain := logged w (HITLPolicy z ''iron_dome_admin'' (json_dict (stored_value s)) (json_dict (asdict pol))) (is_chain s)\<rparr>, Inl e)"
        have lo0: "is_loosening cfg (stored_value s) (asdict pol) = Inr False" using lo False by simp
        show ?thesis by (rule unsaved [OF db]) (simp add: set_iron_dome_policy_def Inr lo0 Let_def c)
      next
        fix q assume q: "load_policy cfg (Some (asdict pol)) = Inr q" and c: "commit_iron_dome_policy cfg w db z (stored_value s)
            (asdict pol) ''iron_dome_admin'' s = (s\<lparr>is_chain := logged w (HITLPolicy z ''iron_dome_admin'' (json_dict (stored_value s)) (json_dict (asdict pol))) (is_chain s),
              is_stored := Some (asdict pol), is_live := q\<rparr>, Inr ())"
        have lo0: "is_loosening cfg (stored_value s) (asdict pol) = Inr False" using lo False by simp
        have "q = pol" using q pol(2) by simp
        then have "fst (set_iron_dome_policy cfg True w db z p s) = s\<lparr>is_chain := logged w (HITLPolicy z ''iron_dome_admin'' (json_dict (stored_value s)) (json_dict (asdict pol))) (is_chain s),
              is_stored := Some (asdict pol), is_live := pol\<rparr>"
          by (simp add: set_iron_dome_policy_def Inr lo0 Let_def c)
        with old pol(1) False show ?thesis by (rule changed)
      qed (use pol in simp)
    qed
  qed
qed

lemma approve_cases:
  obtains (unchanged) "fst (approve_iron_dome_policy cfg w db z now i u s) = s"
  | (unsaved) ev d where "db \<noteq> None" "fst (approve_iron_dome_policy cfg w db z now i u s) =
        s\<lparr>is_chain := logged w (HITLPolicy z ev (json_dict (stored_value s)) (json_dict d)) (is_chain s)\<rparr>"
  | (noted) pc :: pending_change where "map_of (is_pending s) i = Some pc" "\<not> pc_applied pc"
      "fst (approve_iron_dome_policy cfg w db z now i u s) = s\<lparr>is_pending :=
         dict_set i (pc\<lparr>pc_approvals := add_approval (pc_approvals pc) u (pc_initiator pc)\<rparr>) (is_pending s)\<rparr>"
  | (stored) pc :: pending_change and e ev where "load_policy cfg (Some (pc_requested_policy pc)) = Inl e"
      "fst (approve_iron_dome_policy cfg w db z now i u s) = s\<lparr>is_chain := logged w (HITLPolicy z ev (json_dict (stored_value s)) (json_dict (pc_requested_policy pc))) (is_chain s),
         is_stored := Some (pc_requested_policy pc)\<rparr>"
  | (applied) pc :: pending_change and p ev where "map_of (is_pending s) i = Some pc" "\<not> pc_applied pc"
      "add_approval (pc_approvals pc) u (pc_initiator pc) \<noteq> []" "pc_cooloff_until pc \<le> now"
      "load_policy cfg (Some (pc_requested_policy pc)) = Inr p"
      "fst (approve_iron_dome_policy cfg w db z now i u s) = s\<lparr>is_chain := logged w (HITLPolicy z ev (json_dict (stored_value s)) (json_dict (pc_requested_policy pc))) (is_chain s),
         is_stored := Some (pc_requested_policy pc), is_live := p,
         is_pending := dict_set i (pc\<lparr>pc_approvals := add_approval (pc_approvals pc) u (pc_initiator pc),
           pc_applied := True\<rparr>) (is_pending s)\<rparr>"
proof (cases "\<exists>pc. u \<noteq> [] \<and> map_of (is_pending s) i = Some pc \<and> \<not> pc_applied pc")
  case False
  then have "fst (approve_iron_dome_policy cfg w db z now i u s) = s"
    by (auto simp: approve_iron_dome_policy_def split: option.split)
  then show ?thesis by (rule unchanged)
next
  case True
  then obtain pc where pc: "u \<noteq> []" "map_of (is_pending s) i = Some pc" "\<not> pc_applied pc" by blast
  let ?a = "add_approval (pc_approvals pc) u (pc_initiator pc)"
  show ?thesis
  proof (cases "is_ready_to_apply ?a (pc_cooloff_until pc) now")
    case False
    then have "fst (approve_iron_dome_policy cfg w db z now i u s) =
        s\<lparr>is_pending := dict_set i (pc\<lparr>pc_approvals := ?a\<rparr>) (is_pending s)\<rparr>"
      by (simp add: approve_iron_dome_policy_def pc Let_def)
    with pc(2,3) show ?thesis by (rule noted)
  next
    case True
    then have r: "?a \<noteq> []" "pc_cooloff_until pc \<le> now" by (auto simp: is_ready_to_apply_def)
    define a where "a = pc_initiator pc @ ''->'' @ u"
    have d: "approve_iron_dome_policy cfg w db z now i u s =
        (case commit_iron_dome_policy cfg w db z (stored_value s) (pc_requested_policy pc) a s of
           (s', Inl e) \<Rightarrow> (s', Failed e)
         | (s', Inr _) \<Rightarrow> (s'\<lparr>is_pending := dict_set i (pc\<lparr>pc_approvals := ?a, pc_applied := True\<rparr>) (is_pending s')\<rparr>,
             Applied (pc_requested_policy pc)))"
      by (simp add: approve_iron_dome_policy_def pc Let_def True a_def)
    show ?thesis
    proof (rule commit_cases [of cfg w db z "stored_value s" "pc_requested_policy pc" a s])
      fix e assume "commit_iron_dome_policy cfg w db z (stored_value s) (pc_requested_policy pc) a s = (s, Inl e)"
      then show ?thesis by (intro unchanged) (simp add: d)
    next
      fix e assume db: "db \<noteq> None" and c: "commit_iron_dome_policy cfg w db z (stored_value s) (pc_requested_policy pc) a s =
        (s\<lparr>is_chain := logged w (HITLPolicy z a (json_dict (stored_value s)) (json_dict (pc_requested_policy pc))) (is_chain s)\<rparr>, Inl e)"
      show ?thesis by (rule unsaved [OF db]) (simp add: d c)
    next
      fix e assume e: "load_policy cfg (Some (pc_requested_policy pc)) = Inl e" and
        c: "commit_iron_dome_policy cfg w db z (stored_value s) (pc_requested_policy pc) a s =
        (s\<lparr>is_chain := logged w (HITLPolicy z a (json_dict (stored_value s))
          (json_dict (pc_requested_policy pc))) (is_chain s), is_stored := Some (pc_requested_policy pc)\<rparr>, Inl e)"
      show ?thesis by (rule stored [OF e, of a]) (simp add: d c)
    next
      fix p assume p: "load_policy cfg (Some (pc_requested_policy pc)) = Inr p" and
        c: "commit_iron_dome_policy cfg w db z (stored_value s) (pc_requested_policy pc) a s =
        (s\<lparr>is_chain := logged w (HITLPolicy z a (json_dict (stored_value s))
          (json_dict (pc_requested_policy pc))) (is_chain s), is_stored := Some (pc_requested_policy pc), is_live := p\<rparr>, Inr ())"
      show ?thesis by (rule applied [OF pc(2,3) r p, of a]) (simp add: d c)
    qed
  qed
qed

lemma approve_pending:
  "is_pending (fst (approve_iron_dome_policy cfg w db z now i u s)) = is_pending s \<or>
   (\<exists>pc b. map_of (is_pending s) i = Some pc \<and> \<not> pc_applied pc \<and>
      is_pending (fst (approve_iron_dome_policy cfg w db z now i u s)) =
        dict_set i (pc\<lparr>pc_approvals := add_approval (pc_approvals pc) u (pc_initiator pc), pc_applied := b\<rparr>) (is_pending s))"
proof (rule approve_cases [of cfg w db z now i u s])
  fix pc assume pc: "map_of (is_pending s) i = Some pc" "\<not> pc_applied pc" and
    new: "fst (approve_iron_dome_policy cfg w db z now i u s) = s\<lparr>is_pending :=
       dict_set i (pc\<lparr>pc_approvals := add_approval (pc_approvals pc) u (pc_initiator pc)\<rparr>) (is_pending s)\<rparr>"
  have e: "pc\<lparr>pc_approvals := x\<rparr> = pc\<lparr>pc_approvals := x, pc_applied := False\<rparr>" for x using pc(2) by (cases pc) simp
  show ?thesis
    by (intro disjI2 exI [of _ pc] exI [of _ False]) (simp add: new pc e [symmetric])
qed auto

section \<open>What a loosening needs\<close>

text \<open>
  \<open>zwei pc\<close>: the change was applied with an approval of somebody other than its initiator.
\<close>

definition zwei :: "pending_change \<Rightarrow> bool" where
  "zwei pc = (pc_applied pc \<and> (\<exists>b \<in> set (pc_approvals pc). b \<noteq> pc_initiator pc))"

definition distinct_admins :: "iron_state \<Rightarrow> bool" where
  "distinct_admins s = (\<forall>i pc. map_of (is_pending s) i = Some pc \<longrightarrow> pc_initiator pc \<notin> set (pc_approvals pc))"

text \<open>A change applied since \<open>s0\<close> by two admins whose policy is looser than \<open>p0\<close>.\<close>

definition approved_loosening :: "iron_config \<Rightarrow> iron_state \<Rightarrow> iron_policy \<Rightarrow> iron_state \<Rightarrow> bool" where
  "approved_loosening cfg s0 p0 s = (\<exists>i pc q. map_of (is_pending s) i = Some pc \<and> zwei pc \<and>
     (\<forall>pc0. map_of (is_pending s0) i = Some pc0 \<longrightarrow> \<not> pc_applied pc0) \<and>
     load_policy cfg (Some (pc_requested_policy pc)) = Inr q \<and> looser q p0)"

definition applied_kept :: "iron_state \<Rightarrow> iron_state \<Rightarrow> bool" where
  "applied_kept s s' = (\<forall>i pc. map_of (is_pending s) i = Some pc \<longrightarrow> pc_applied pc \<longrightarrow> map_of (is_pending s') i = Some pc)"

lemma add_approval_distinct: "initiator \<notin> set as \<Longrightarrow> initiator \<notin> set (add_approval as u initiator)"
  by (auto simp: add_approval_def)

lemma approved_loosening_mono:
  "approved_loosening cfg s0 p0 s \<Longrightarrow> applied_kept s s' \<Longrightarrow> approved_loosening cfg s0 p0 s'"
  unfolding approved_loosening_def applied_kept_def zwei_def by metis

lemma kept_update: "applied_kept s0 s \<Longrightarrow> map_of (is_pending s) i = Some pc \<Longrightarrow> \<not> pc_applied pc \<Longrightarrow>
    is_pending s' = dict_set i pc' (is_pending s) \<Longrightarrow> applied_kept s0 s'"
  unfolding applied_kept_def by auto

lemma distinct_update: "distinct_admins s \<Longrightarrow> pc_initiator pc' \<notin> set (pc_approvals pc') \<Longrightarrow>
    is_pending s' = dict_set i pc' (is_pending s) \<Longrightarrow> distinct_admins s'"
  unfolding distinct_admins_def by auto

lemma kept_new: "applied_kept s0 s \<Longrightarrow> i \<notin> dom (map_of (is_pending s)) \<Longrightarrow>
    is_pending s' = dict_set i pc' (is_pending s) \<Longrightarrow> applied_kept s0 s'"
  unfolding applied_kept_def by auto

lemma propose_cases:
  obtains (unchanged) "fst (propose_iron_dome_policy cfg now i u p s) = s"
  | (proposed) pc where "pc_initiator pc = u" "pc_approvals pc = []"
      "fst (propose_iron_dome_policy cfg now i u p s) = s\<lparr>is_pending := dict_set i pc (is_pending s)\<rparr>"
proof (cases "u \<noteq> [] \<and> (\<exists>pol. load_policy cfg (Some p) = Inr pol)")
  case True
  then show ?thesis by (auto simp: propose_iron_dome_policy_def intro!: proposed)
next
  case False
  then show ?thesis by (intro unchanged) (auto simp: propose_iron_dome_policy_def split: sum.split)
qed

lemma run_applied_kept: "iron_run cfg drops fails s0 s \<Longrightarrow> distinct_admins s0 \<Longrightarrow> distinct_admins s \<and> applied_kept s0 s"
proof (induction rule: iron_run.induct)
  case start
  then show ?case by (simp add: applied_kept_def)
next
  case (set_step s w db z p)
  then show ?case
    by (cases rule: set_cases [of cfg w db z p s]) (simp_all add: distinct_admins_def applied_kept_def)
next
  case (propose_step s i now u p)
  then have IH: "distinct_admins s" "applied_kept s0 s" by simp_all
  show ?case
  proof (rule propose_cases [of cfg now i u p s])
    fix pc assume pc: "pc_initiator pc = u" "pc_approvals pc = []" and
      new: "fst (propose_iron_dome_policy cfg now i u p s) = s\<lparr>is_pending := dict_set i pc (is_pending s)\<rparr>"
    show ?thesis
      using distinct_update [OF IH(1), of pc] kept_new [OF IH(2) propose_step.hyps(2)] by (simp add: pc new)
  qed (use IH in simp)
next
  case (approve_step s w db z now i u)
  let ?s = "fst (approve_iron_dome_policy cfg w db z now i u s)"
  from approve_step have IH: "distinct_admins s" "applied_kept s0 s" by simp_all
  from approve_pending [of cfg w db z now i u s] show ?case
  proof (elim disjE exE conjE)
    assume "is_pending ?s = is_pending s"
    with IH show ?thesis by (simp add: distinct_admins_def applied_kept_def)
  next
    fix pc b assume pc: "map_of (is_pending s) i = Some pc" "\<not> pc_applied pc" and new: "is_pending ?s =
      dict_set i (pc\<lparr>pc_approvals := add_approval (pc_approvals pc) u (pc_initiator pc), pc_applied := b\<rparr>) (is_pending s)"
    have "pc_initiator pc \<notin> set (pc_approvals pc)" using IH(1) pc(1) by (simp add: distinct_admins_def)
    then show ?thesis using distinct_update [OF IH(1) _ new] kept_update [OF IH(2) pc new]
      by (simp add: add_approval_distinct)
  qed
next
  case (boot_step s)
  then show ?case by (auto simp: boot_iron_dome_def distinct_admins_def applied_kept_def split: sum.split)
qed

lemma loosening_two:
  assumes "iron_run cfg drops fails s0 s" "distinct_admins s0" "load_policy cfg (Some (stored_value s0)) = Inr p0"
    "load_policy cfg (Some (stored_value s)) = Inr p" "looser p p0"
  shows "approved_loosening cfg s0 p0 s"
  using assms
proof (induction arbitrary: p rule: iron_run.induct)
  case start
  then have "p = p0" by simp
  with start show ?case using fl_less.simps by (auto simp: looser_def elim: fl_less.elims)
next
  case (set_step s w db z r)
  show ?case
  proof (rule set_cases [of cfg w db z r s])
    assume "fst (set_iron_dome_policy cfg True w db z r s) = s"
    with set_step show ?thesis by simp
  next
    fix ev d assume new: "fst (set_iron_dome_policy cfg True w db z r s) =
        s\<lparr>is_chain := logged w (HITLPolicy z ev (json_dict (stored_value s)) (json_dict d)) (is_chain s)\<rparr>"
    then have "approved_loosening cfg s0 p0 s" using set_step.IH set_step.prems by (simp add: stored_value_def)
    then show ?thesis by (simp add: approved_loosening_def new)
  next
    fix old pol ev
    assume old: "load_policy cfg (Some (stored_value s)) = Inr old" and pol: "within_caps pol" "\<not> looser pol old"
      and new: "fst (set_iron_dome_policy cfg True w db z r s) =
        s\<lparr>is_chain := logged w (HITLPolicy z ev (json_dict (stored_value s)) (json_dict (asdict pol))) (is_chain s),
          is_stored := Some (asdict pol), is_live := pol\<rparr>"
    have "p = pol" using set_step.prems(3) pol(1) by (simp add: new stored_value_def load_asdict)
    then have "looser old p0" using looser_through [OF _ pol(2) load_within [OF old]] set_step.prems(4) by simp
    then have "approved_loosening cfg s0 p0 s" using set_step.IH set_step.prems(1,2) old by blast
    then show ?thesis by (rule approved_loosening_mono) (simp add: new applied_kept_def)
  qed
next
  case (propose_step s i now u r)
  let ?s = "fst (propose_iron_dome_policy cfg now i u r s)"
  have "is_stored ?s = is_stored s" by (simp add: propose_iron_dome_policy_def split: sum.split)
  then have "approved_loosening cfg s0 p0 s"
    using propose_step.IH propose_step.prems by (simp add: stored_value_def)
  moreover have "applied_kept s ?s"
    by (rule propose_cases [of cfg now i u r s])
       (use propose_step.hyps(2) in \<open>auto simp: applied_kept_def\<close>)
  ultimately show ?case by (rule approved_loosening_mono)
next
  case (approve_step s w db z now i u)
  show ?case
  proof (rule approve_cases [of cfg w db z now i u s])
    assume "fst (approve_iron_dome_policy cfg w db z now i u s) = s"
    with approve_step show ?thesis by simp
  next
    fix ev d assume new: "fst (approve_iron_dome_policy cfg w db z now i u s) =
        s\<lparr>is_chain := logged w (HITLPolicy z ev (json_dict (stored_value s)) (json_dict d)) (is_chain s)\<rparr>"
    then have "approved_loosening cfg s0 p0 s" using approve_step.IH approve_step.prems by (simp add: stored_value_def)
    then show ?thesis by (simp add: approved_loosening_def new)
  next
    fix pc :: pending_change assume pc: "map_of (is_pending s) i = Some pc" "\<not> pc_applied pc" and
      new: "fst (approve_iron_dome_policy cfg w db z now i u s) = s\<lparr>is_pending :=
         dict_set i (pc\<lparr>pc_approvals := add_approval (pc_approvals pc) u (pc_initiator pc)\<rparr>) (is_pending s)\<rparr>"
    have "approved_loosening cfg s0 p0 s"
      using approve_step.IH approve_step.prems by (simp add: new stored_value_def)
    then show ?thesis by (rule approved_loosening_mono) (use pc in \<open>auto simp: new applied_kept_def\<close>)
  next
    fix pc :: pending_change and e ev assume "load_policy cfg (Some (pc_requested_policy pc)) = Inl e" and
      new: "fst (approve_iron_dome_policy cfg w db z now i u s) = s\<lparr>is_chain := logged w (HITLPolicy z ev (json_dict (stored_value s)) (json_dict (pc_requested_policy pc))) (is_chain s),
         is_stored := Some (pc_requested_policy pc)\<rparr>"
    with approve_step.prems(3) show ?thesis by (simp add: stored_value_def)
  next
    fix pc :: pending_change and q ev assume pc: "map_of (is_pending s) i = Some pc" "\<not> pc_applied pc"
      "add_approval (pc_approvals pc) u (pc_initiator pc) \<noteq> []" "load_policy cfg (Some (pc_requested_policy pc)) = Inr q"
      and new: "fst (approve_iron_dome_policy cfg w db z now i u s) = s\<lparr>is_chain := logged w (HITLPolicy z ev (json_dict (stored_value s)) (json_dict (pc_requested_policy pc))) (is_chain s),
         is_stored := Some (pc_requested_policy pc), is_live := q,
         is_pending := dict_set i (pc\<lparr>pc_approvals := add_approval (pc_approvals pc) u (pc_initiator pc),
           pc_applied := True\<rparr>) (is_pending s)\<rparr>"
    have "p = q" using approve_step.prems(3) pc(4) by (simp add: new stored_value_def)
    moreover have run: "distinct_admins s" "applied_kept s0 s"
      using run_applied_kept approve_step.hyps approve_step.prems(1) by blast+
    have "pc_initiator pc \<notin> set (add_approval (pc_approvals pc) u (pc_initiator pc))"
      using run(1) pc(1) by (simp add: distinct_admins_def add_approval_distinct)
    then have "zwei (pc\<lparr>pc_approvals := add_approval (pc_approvals pc) u (pc_initiator pc), pc_applied := True\<rparr>)"
      using pc(3) by (auto simp: zwei_def neq_Nil_conv)
    moreover have "\<not> pc_applied pc0" if "map_of (is_pending s0) i = Some pc0" for pc0
      using run(2) that pc(1,2) by (auto simp: applied_kept_def)
    ultimately show ?thesis using pc(4) approve_step.prems(4) by (auto simp: approved_loosening_def new)
  qed
next
  case (boot_step s)
  have "is_stored (fst (boot_iron_dome cfg s)) = is_stored s" "is_pending (fst (boot_iron_dome cfg s)) = is_pending s"
    by (simp_all add: boot_iron_dome_def split: sum.split)
  with boot_step show ?case by (simp add: stored_value_def approved_loosening_def)
qed

lemma run_live: "iron_run cfg drops fails s0 s \<Longrightarrow> within_caps (is_live s0) \<Longrightarrow> within_caps (is_live s)"
proof (induction rule: iron_run.induct)
  case (set_step s w db z p)
  then show ?case by (cases rule: set_cases [of cfg w db z p s]) simp_all
next
  case (propose_step s i now u p)
  then show ?case by (cases rule: propose_cases [of cfg now i u p s]) simp_all
next
  case (approve_step s w db z now i u)
  show ?case
    by (rule approve_cases [of cfg w db z now i u s]) (use approve_step in \<open>simp_all add: load_within\<close>)
next
  case (boot_step s)
  then show ?case by (auto simp: boot_iron_dome_def load_within split: sum.split)
qed simp

text \<open>The last policy event of the chain is what is stored.\<close>

definition audited :: "iron_state \<Rightarrow> iron_state \<Rightarrow> bool" where
  "audited s0 s = (\<exists>evs. is_chain s = is_chain s0 @ evs \<and>
     (if evs = [] then is_stored s = is_stored s0
      else \<exists>d z a old. is_stored s = Some d \<and> last evs = HITLPolicy z a (json_dict old) (json_dict d)))"

lemma audited_same: "audited s0 s \<Longrightarrow> is_chain s' = is_chain s \<Longrightarrow> is_stored s' = is_stored s \<Longrightarrow> audited s0 s'"
  unfolding audited_def by (simp only:)

lemma audited_commit:
  assumes "audited s0 s" "is_chain s' = logged w (HITLPolicy z a (json_dict old) (json_dict d)) (is_chain s)" "is_stored s' = Some d"
    "\<forall>e. w e \<noteq> Dropped"
  shows "audited s0 s'"
proof -
  from assms(1) obtain evs where "is_chain s = is_chain s0 @ evs" unfolding audited_def by blast
  with assms(2,4) have c: "is_chain s' = is_chain s0 @ evs @ [HITLPolicy z a (json_dict old) (json_dict d)]" by (simp add: logged_def)
  show ?thesis
    unfolding audited_def by (rule exI [of _ "evs @ [HITLPolicy z a (json_dict old) (json_dict d)]"])
      (use c assms(3) in \<open>auto\<close>)
qed

lemma run_audited: "iron_run cfg False False s0 s \<Longrightarrow> audited s0 s"
proof (induction rule: iron_run.induct)
  case start
  then show ?case by (simp add: audited_def)
next
  case (set_step s w db z p)
  show ?case
    by (rule set_cases [of cfg w db z p s])
       (use set_step in \<open>auto intro: audited_commit audited_same\<close>)
next
  case (propose_step s i now u p)
  show ?case
    by (rule propose_cases [of cfg now i u p s]) (use propose_step in \<open>auto intro: audited_same\<close>)
next
  case (approve_step s w db z now i u)
  show ?case
    by (rule approve_cases [of cfg w db z now i u s])
       (use approve_step in \<open>auto intro: audited_commit audited_same\<close>)
next
  case (boot_step s)
  show ?case
    by (rule audited_same [OF boot_step.IH]) (simp_all add: boot_iron_dome_def split: sum.split)
qed

text \<open>Where the row may fail to be written, what is stored has an event, but later ones may follow it.\<close>

definition recorded :: "iron_state \<Rightarrow> iron_state \<Rightarrow> bool" where
  "recorded s0 s = (\<exists>evs. is_chain s = is_chain s0 @ evs \<and>
     (is_stored s = is_stored s0 \<or>
      (\<exists>d z a old. is_stored s = Some d \<and> HITLPolicy z a (json_dict old) (json_dict d) \<in> set evs)))"

lemma recorded_same: "recorded s0 s \<Longrightarrow> is_chain s' = is_chain s @ evs \<Longrightarrow> is_stored s' = is_stored s \<Longrightarrow> recorded s0 s'"
  unfolding recorded_def by fastforce

lemma recorded_keep: "recorded s0 s \<Longrightarrow> is_chain s' = is_chain s \<Longrightarrow> is_stored s' = is_stored s \<Longrightarrow> recorded s0 s'"
  unfolding recorded_def by simp

lemma logged_kept: "\<forall>e. w e \<noteq> Dropped \<Longrightarrow> logged w e c = c @ [e]"
  by (simp add: logged_def)

lemma recorded_commit:
  assumes "recorded s0 s" "is_chain s' = is_chain s @ [HITLPolicy z a (json_dict old) (json_dict d)]" "is_stored s' = Some d"
  shows "recorded s0 s'"
  using assms unfolding recorded_def by fastforce

lemma run_recorded: "iron_run cfg False fails s0 s \<Longrightarrow> recorded s0 s"
proof (induction rule: iron_run.induct)
  case start
  then show ?case by (simp add: recorded_def)
next
  case (set_step s w db z p)
  show ?case
    by (rule set_cases [of cfg w db z p s])
       (use set_step in \<open>auto simp: logged_kept intro: recorded_commit recorded_same\<close>)
next
  case (propose_step s i now u p)
  show ?case
    by (rule propose_cases [of cfg now i u p s]) (use propose_step in \<open>auto intro: recorded_keep\<close>)
next
  case (approve_step s w db z now i u)
  show ?case
    by (rule approve_cases [of cfg w db z now i u s])
       (use approve_step in \<open>auto simp: logged_kept intro: recorded_commit recorded_same recorded_keep\<close>)
next
  case (boot_step s)
  show ?case
    by (rule recorded_keep [OF boot_step.IH]) (simp_all add: boot_iron_dome_def split: sum.split)
qed

section \<open>Properties\<close>

text \<open>
  C12: No limit is loosened by one admin. In the edition with several admins, after whatever sets,
  proposals, approvals, failed audits and restarts: if any stored limit is looser than at the start, then
  some change was applied since that is looser than the start too and that an admin other than its
  initiator approved.
\<close>

theorem loosening_needs_two:
  assumes "iron_run cfg drops fails s0 s" and "distinct_admins s0"
    and "load_policy cfg (Some (stored_value s0)) = Inr p0" and "load_policy cfg (Some (stored_value s)) = Inr p"
    and "looser p p0"
  shows "\<exists>i pc q. map_of (is_pending s) i = Some pc \<and> pc_applied pc \<and>
    (\<exists>b \<in> set (pc_approvals pc). b \<noteq> pc_initiator pc) \<and>
    (\<forall>pc0. map_of (is_pending s0) i = Some pc0 \<longrightarrow> \<not> pc_applied pc0) \<and>
    load_policy cfg (Some (pc_requested_policy pc)) = Inr q \<and> looser q p0"
  using loosening_two [OF assms] by (auto simp: approved_loosening_def zwei_def)

text \<open>An administrator proposes 50 trades a day, another one approves after the cool-off.\<close>

definition bsp_config :: iron_config where
  "bsp_config = \<lparr>COMPLIANCE_MAX_DAILY_TRADES = RInt 10, COMPLIANCE_MAX_ORDER_VALUE = RFloat (Fin 10000)\<rparr>"

definition bsp_iron :: iron_state where
  "bsp_iron = \<lparr>is_stored = None, is_pending = [], is_chain = [], is_live = STRICT_DEFAULT\<rparr>"

definition bsp_proposed :: iron_state where
  "bsp_proposed = fst (propose_iron_dome_policy bsp_config 0 ''i'' ''anna'' [(''max_daily_trades'', RInt 50)] bsp_iron)"

definition bsp_approved :: iron_state where
  "bsp_approved = fst (approve_iron_dome_policy bsp_config (\<lambda>_. Taken) None ''z'' 600 ''i'' ''bert'' bsp_proposed)"

definition bsp_loose :: iron_policy where
  "bsp_loose = STRICT_DEFAULT\<lparr>max_daily_trades := 50\<rparr>"

lemma bsp_loads: "load_policy bsp_config (Some []) = Inr STRICT_DEFAULT"
  "load_policy bsp_config (Some [(''max_daily_trades'', RInt 50)]) = Inr bsp_loose"
  by (simp_all add: load_policy_def roh_get_def clamp_ceiling_int_def clamp_floor_int_def clamp_ceiling_float_def
      bsp_config_def bsp_loose_def STRICT_DEFAULT_def operating_trades_def operating_value_def cap_defs fl_min_def)

lemma bsp_loose_ok: "within_caps bsp_loose"
  using load_within [OF bsp_loads(2)] .

lemma bsp_run: "iron_run bsp_config False False bsp_iron bsp_approved"
  unfolding bsp_approved_def bsp_proposed_def
  by (intro approve_step propose_step start) (simp_all add: bsp_iron_def)

lemma bsp_stored: "stored_value bsp_iron = []" "stored_value bsp_approved = asdict bsp_loose"
  by (simp_all add: bsp_iron_def stored_value_def bsp_approved_def bsp_proposed_def propose_iron_dome_policy_def bsp_loads
      approve_iron_dome_policy_def add_approval_def is_ready_to_apply_def commit_iron_dome_policy_def save_iron_dome_policy_def
      log_policy_event_def strikt_def log_hitl_event_def logged_def load_asdict [OF bsp_loose_ok] Let_def)

theorem loosening_needs_two_witness:
  "\<exists>i pc. map_of (is_pending bsp_approved) i = Some pc \<and> pc_applied pc \<and> (\<exists>b \<in> set (pc_approvals pc). b \<noteq> pc_initiator pc)"
proof -
  have "distinct_admins bsp_iron" by (simp add: distinct_admins_def bsp_iron_def)
  moreover have "looser bsp_loose STRICT_DEFAULT" by (simp add: looser_def bsp_loose_def STRICT_DEFAULT_def)
  moreover have "load_policy bsp_config (Some (stored_value bsp_approved)) = Inr bsp_loose"
    by (simp add: bsp_stored load_asdict bsp_loose_ok)
  moreover have "load_policy bsp_config (Some (stored_value bsp_iron)) = Inr STRICT_DEFAULT"
    by (simp add: bsp_stored bsp_loads)
  ultimately show ?thesis using loosening_needs_two [OF bsp_run] by blast
qed

text \<open>
  C16: The limits in force never leave their caps, and no change goes unaudited while the audit loses no event.
  After whatever happens, with whatever policies submitted and whatever configuration, failed audits and failed
  writes of the row included, the limits the guardians hold are numbers within the immutable caps. If no
  event was dropped silently by the sink, a stored policy that differs from the one at the start has an event
  on the chain that records exactly it; and if no write of the row failed either, that event is the last one.
\<close>

theorem limits_capped_and_audited:
  assumes "iron_run cfg drops fails s0 s" and "within_caps (is_live s0)"
  shows "within_caps (is_live s) \<and> (if drops then True else recorded s0 s \<and> (if fails then True else audited s0 s))"
  using run_live [OF assms] run_audited [of cfg s0 s] run_recorded [of cfg fails s0 s] assms(1)
  by (cases drops; cases fails) simp_all

theorem limits_capped_and_audited_witness:
  "within_caps (is_live bsp_approved) \<and> recorded bsp_iron bsp_approved \<and> audited bsp_iron bsp_approved"
proof -
  have "within_caps (is_live bsp_iron)"
    by (simp add: bsp_iron_def within_caps_def STRICT_DEFAULT_def cap_defs)
  from limits_capped_and_audited [OF bsp_run this] show ?thesis by simp
qed

text \<open>
  With a sink that drops an event without raising, as the local chain does on a full disk, a change of
  the policy is stored and in force without any event.
\<close>

theorem dropped_audit_still_applies:
  assumes "load_policy cfg (Some p) = Inr pol" and "\<forall>e. w e = Dropped"
  shows "set_iron_dome_policy cfg False w None z p s =
    (s\<lparr>is_stored := Some (asdict pol), is_live := pol\<rparr>, Applied (asdict pol))"
  using assms load_asdict [OF load_within [OF assms(1)]]
  by (simp add: set_iron_dome_policy_def commit_iron_dome_policy_def save_iron_dome_policy_def log_policy_event_def strikt_def
      log_hitl_event_def logged_def Let_def)

text \<open>
  C40: The loader is not total. An infinite number of daily trades is not refused or clamped but raises,
  from whatever configuration: a stored policy with it leaves the guardians at their old limits at every
  start, and setting any other policy fails too while it is stored.
\<close>

theorem infinite_trades_raises:
  "load_policy cfg (Some ((''max_daily_trades'', RFloat (Inf neg)) # d)) = Inl OverflowError \<and>
   is_live (fst (boot_iron_dome cfg (s\<lparr>is_stored := Some ((''max_daily_trades'', RFloat (Inf neg)) # d)\<rparr>))) = is_live s \<and>
   is_stored (fst (set_iron_dome_policy cfg True w db z p (s\<lparr>is_stored := Some ((''max_daily_trades'', RFloat (Inf neg)) # d)\<rparr>)))
     = Some ((''max_daily_trades'', RFloat (Inf neg)) # d)"
proof -
  have l: "load_policy cfg (Some ((''max_daily_trades'', RFloat (Inf neg)) # d)) = Inl OverflowError"
    by (simp add: load_policy_def roh_get_def clamp_ceiling_int_def)
  then show ?thesis
    by (auto simp: boot_iron_dome_def stored_value_def set_iron_dome_policy_def is_loosening_def Let_def split: sum.split)
qed

text \<open>
  The audit can name the initiator as approver. When another admin approved during the cool-off, the
  initiator's own call after it applies the change, and the event on the chain then says
  \<open>initiator->initiator\<close>, not who approved.
\<close>

theorem audit_names_initiator_twice:
  assumes "map_of (is_pending s) i = Some pc" and "\<not> pc_applied pc" and "pc_approvals pc = [b]"
    and "pc_cooloff_until pc \<le> now" and "pc_initiator pc = a" and "a \<noteq> []" and "\<forall>e. w e = Taken" and "db = None"
  shows "last (is_chain (fst (approve_iron_dome_policy cfg w db z now i a s))) =
    HITLPolicy z (a @ ''->'' @ a) (json_dict (stored_value s)) (json_dict (pc_requested_policy pc))"
  using assms
  by (auto simp: approve_iron_dome_policy_def add_approval_def is_ready_to_apply_def commit_iron_dome_policy_def save_iron_dome_policy_def
      log_policy_event_def strikt_def log_hitl_event_def logged_def Let_def split: sum.split)

definition bsp_noted :: iron_state where
  "bsp_noted = fst (approve_iron_dome_policy bsp_config (\<lambda>_. Taken) None ''z'' 5 ''i'' ''bert'' bsp_proposed)"

lemma bsp_noted_pending: "map_of (is_pending bsp_noted) ''i'' = Some \<lparr>pc_initiator = ''anna'',
    pc_requested_policy = asdict bsp_loose, pc_approvals = [''bert''], pc_created_at = 0, pc_cooloff_until = 600, pc_applied = False\<rparr>"
  by (simp add: bsp_noted_def bsp_proposed_def propose_iron_dome_policy_def bsp_loads approve_iron_dome_policy_def
      add_approval_def is_ready_to_apply_def bsp_iron_def Let_def)

theorem audit_names_initiator_twice_witness:
  "last (is_chain (fst (approve_iron_dome_policy bsp_config (\<lambda>_. Taken) None ''z'' 600 ''i'' ''anna'' bsp_noted))) =
    HITLPolicy ''z'' ''anna->anna'' (json_dict (stored_value bsp_noted)) (json_dict (asdict bsp_loose))"
  using audit_names_initiator_twice [OF bsp_noted_pending, of "''bert''" 600 "''anna''" "\<lambda>_. Taken" None bsp_config "''z''"]
  by simp

end
