(* ===== verification/Round_Table.thy ===== *)
theory Round_Table
  imports Prelude
begin

text \<open>
  The decision of the round table: the consensus of the votes (\<open>core/round_table/consensus.py\<close>), the
  compliance gatekeeper (\<open>gatekeeper.py\<close>), the gate stages around it (\<open>gate_stufen.py\<close>,
  \<open>runner.py\<close>) and the signal derived from the score (\<open>signal_bau.py\<close>).

  Scores and weights are real numbers (the validation refuses a NaN like a number out of range). The
  meta-label model is a parameter: its answer, or the exception it raises. A reason is a constructor, not
  the sentence built from it.
\<close>

section \<open>Votes\<close>

record vote =
  v_agent :: string
  v_score :: "real option"
  v_weight :: real
  v_vetoed :: bool
  v_abstain :: "string option"

record rt_config =
  rc_signal_buy :: pyfloat
  rc_signal_sell :: pyfloat
  rc_conditioner :: bool
  rc_damp_max :: real
  rc_iv_forecast :: bool
  rc_strict_ml_requires_rl :: bool
  rc_require_context :: bool
  rc_pdt_finra_accurate :: bool
  rc_meta_label :: bool
  rc_meta_require_model :: bool
  rc_drawdown_conditioner :: bool
  rc_drawdown_damp_max :: real

text \<open>A pair that is not \<open>0 < sell < buy < 1\<close> falls back to the defaults.\<close>

definition signal_thresholds :: "rt_config \<Rightarrow> real \<times> real" where
  "signal_thresholds cfg =
     (case (rc_signal_buy cfg, rc_signal_sell cfg) of
        (Fin buy, Fin sell) \<Rightarrow> if 0 < sell \<and> sell < buy \<and> buy < 1 then (buy, sell) else (0.73, 0.35)
      | _ \<Rightarrow> (0.73, 0.35))"

abbreviation signal_buy :: "rt_config \<Rightarrow> real" where "signal_buy cfg \<equiv> fst (signal_thresholds cfg)"
abbreviation signal_sell :: "rt_config \<Rightarrow> real" where "signal_sell cfg \<equiv> snd (signal_thresholds cfg)"

definition validate_vote :: "vote \<Rightarrow> bool" where
  "validate_vote v =
     (if v_abstain v \<noteq> None then False
      else if v_weight v = 0 \<and> \<not> v_vetoed v then False
      else case v_score v of None \<Rightarrow> False | Some s \<Rightarrow> 0 \<le> s \<and> s \<le> 1 \<and> 0 < v_weight v)"

definition validated :: "vote \<Rightarrow> bool" where
  "validated v = (\<not> v_vetoed v \<and> validate_vote v)"

definition consensus_exclusions :: "bool \<Rightarrow> string list" where
  "consensus_exclusions iv = [''RegimeDetectionAgent'', ''DrawdownGuardAgent''] @ (if iv then [''VIXAwareRiskAgent''] else [])"

definition score_of :: "vote \<Rightarrow> real" where
  "score_of v = (case v_score v of None \<Rightarrow> 0 | Some s \<Rightarrow> s)"

definition regime_vote :: "vote list \<Rightarrow> vote option" where
  "regime_vote votes = find (\<lambda>v. validated v \<and> v_agent v = ''RegimeDetectionAgent'') votes"

text \<open>Without the conditioner a bearish regime halves the weight of the momentum vote, in the vote itself.\<close>

definition halve_momentum :: "rt_config \<Rightarrow> vote list \<Rightarrow> vote list" where
  "halve_momentum cfg votes =
     (case regime_vote votes of
        Some r \<Rightarrow> if \<not> rc_conditioner cfg \<and> score_of r < 0.45
                  then map (\<lambda>v. if validated v \<and> v_agent v = ''MomentumAgent'' then v\<lparr>v_weight := v_weight v * 0.5\<rparr> else v) votes
                  else votes
      | None \<Rightarrow> votes)"

definition severity :: "real \<Rightarrow> real" where
  "severity score = max 0 (min 1 ((0.5 - score) / 0.5))"

definition damp_factor :: "rt_config \<Rightarrow> vote list \<Rightarrow> real option" where
  "damp_factor cfg votes =
     (case regime_vote votes of
        Some r \<Rightarrow> if rc_conditioner cfg \<and> 0 < severity (score_of r)
                  then Some (1 - rc_damp_max cfg * severity (score_of r)) else None
      | None \<Rightarrow> None)"

definition active_votes :: "rt_config \<Rightarrow> vote list \<Rightarrow> vote list" where
  "active_votes cfg votes =
     filter (\<lambda>v. validated v \<and> v_agent v \<notin> set (consensus_exclusions (rc_iv_forecast cfg)) \<and> 0 < v_weight v) votes"

definition weighted_mean :: "vote list \<Rightarrow> real" where
  "weighted_mean vs = (\<Sum>v\<leftarrow>vs. score_of v * v_weight v) / (\<Sum>v\<leftarrow>vs. v_weight v)"

text \<open>The votes as they are left, and the consensus.\<close>

definition aggregate :: "rt_config \<Rightarrow> vote list \<Rightarrow> vote list \<times> real" where
  "aggregate cfg votes =
     (let votes' = halve_momentum cfg votes; act = active_votes cfg votes'; result = weighted_mean act
      in if act = [] \<or> (\<Sum>v\<leftarrow>act. v_weight v) \<le> 0 then (votes', 0)
         else (votes', case damp_factor cfg votes of
                 Some f \<Rightarrow> if 0.5 < result then 0.5 + f * (result - 0.5) else result
               | None \<Rightarrow> result))"

section \<open>The compliance gatekeeper\<close>

definition BUY_THRESHOLD :: real where "BUY_THRESHOLD = 0.65"
definition SELL_THRESHOLD :: real where "SELL_THRESHOLD = 0.35"
definition CONCENTRATION_LIMIT :: real where "CONCENTRATION_LIMIT = 0.25"
definition SECTOR_CONCENTRATION_LIMIT :: real where "SECTOR_CONCENTRATION_LIMIT = 0.30"

datatype gk_reason =
    PositionLocked
  | PDTLimit int
  | ConcentrationLimit real
  | SectorConcentrationLimit string real
  | DailyLimit int int
  | SymbolChurnGuard
  | SymbolDailyLimit int int
  | OpeningNoiseGuard real
  | BuyPacingCooldown real real
  | BuyPacingHour int int
  | AllChecksPassed
  | MissingMLVotes
  | GatekeeperStrict
  | AgentVeto string
  | MetaLabel string
  | MetaLabelError
  | Hinweis gk_reason string

record gk_decision =
  gk_approved :: bool
  gk_reason :: gk_reason

text \<open>
  The portfolio context, each field as \<open>get\<close> finds it (\<open>None\<close>: not there). \<open>pc_equity\<close> is what
  \<open>float\<close> makes of that field, \<open>None\<close> where it raises.
\<close>

record portfolio_context =
  pc_day_trades_last_5d :: "int option"
  pc_max_daily_trades :: "int option"
  pc_current_daily_trades :: "int option"
  pc_symbol_weights :: "(string, real) pydict option"
  pc_sector_weights :: "(string, real) pydict option"
  pc_symbol_sector_map :: "(string, string) pydict option"
  pc_position_locked :: "bool option"
  pc_traded_today :: "(string, bool) pydict option"
  pc_equity :: "pyfloat option"
  pc_symbol_churn_guard_active :: "bool option"
  pc_symbol_trades_today_valid :: "bool option"
  pc_max_trades_per_symbol :: "int option"
  pc_symbol_trades_today :: "(string, int) pydict option"
  pc_intraday_timing_active :: "bool option"
  pc_minutes_since_market_open :: "real option"
  pc_no_buy_opening_minutes :: "real option"
  pc_last_buy_elapsed_minutes :: "real option"
  pc_global_buy_cooldown_minutes :: "real option"
  pc_buys_last_hour :: "int option"
  pc_max_buys_per_hour :: "int option"

definition oder :: "'a option \<Rightarrow> 'a \<Rightarrow> 'a" where
  "oder x d = (case x of None \<Rightarrow> d | Some y \<Rightarrow> y)"

definition dict_oder :: "('k, 'v) pydict option \<Rightarrow> 'k \<Rightarrow> 'v \<Rightarrow> 'v" where
  "dict_oder d k x = oder (map_of (oder d []) k) x"

definition pdt_day_trade_limit :: "rt_config \<Rightarrow> int" where
  "pdt_day_trade_limit cfg = (if rc_pdt_finra_accurate cfg then 4 else 3)"

definition pdt_rule_can_bind :: "rt_config \<Rightarrow> portfolio_context \<Rightarrow> bool" where
  "pdt_rule_can_bind cfg pc =
     (if \<not> rc_pdt_finra_accurate cfg then True
      else case pc_equity pc of None \<Rightarrow> True | Some e \<Rightarrow> \<not> fl_le (Fin 25000) e)"

text \<open>The day-trade block: \<open>True\<close> when the decision is refused.\<close>

definition pdt_blocks :: "rt_config \<Rightarrow> string \<Rightarrow> real \<Rightarrow> portfolio_context \<Rightarrow> bool" where
  "pdt_blocks cfg symbol score pc =
     (if \<not> pdt_rule_can_bind cfg pc then False
      else if pdt_day_trade_limit cfg \<le> oder (pc_day_trades_last_5d pc) 0
      then \<not> (score < SELL_THRESHOLD \<and> \<not> dict_oder (pc_traded_today pc) symbol True)
      else False)"

text \<open>The checks that only a BUY meets, in their order; \<open>None\<close> when all pass.\<close>

definition sector_of :: "string \<Rightarrow> portfolio_context \<Rightarrow> string" where
  "sector_of symbol pc = dict_oder (pc_symbol_sector_map pc) symbol ''Unknown''"

definition churn_check :: "string \<Rightarrow> portfolio_context \<Rightarrow> gk_reason option" where
  "churn_check symbol pc =
     (if oder (pc_symbol_churn_guard_active pc) False
      then if \<not> oder (pc_symbol_trades_today_valid pc) False then Some SymbolChurnGuard
           else (let n = dict_oder (pc_symbol_trades_today pc) symbol 0; m = oder (pc_max_trades_per_symbol pc) 5
                 in if m \<le> n then Some (SymbolDailyLimit n m) else None)
      else None)"

definition timing_check :: "portfolio_context \<Rightarrow> gk_reason option" where
  "timing_check pc =
     (if \<not> oder (pc_intraday_timing_active pc) False then None
      else
        (let opening = oder (pc_no_buy_opening_minutes pc) 30; cooldown = oder (pc_global_buy_cooldown_minutes pc) 30;
             per_hour = oder (pc_max_buys_per_hour pc) 2
         in if (case pc_minutes_since_market_open pc of None \<Rightarrow> False | Some m \<Rightarrow> m < opening)
            then Some (OpeningNoiseGuard opening)
            else if (case pc_last_buy_elapsed_minutes pc of None \<Rightarrow> False | Some m \<Rightarrow> m < cooldown)
            then Some (BuyPacingCooldown (oder (pc_last_buy_elapsed_minutes pc) 0) cooldown)
            else if (case pc_buys_last_hour pc of None \<Rightarrow> False | Some n \<Rightarrow> per_hour \<le> n)
            then Some (BuyPacingHour (oder (pc_buys_last_hour pc) 0) per_hour)
            else None))"

definition limits_check :: "string \<Rightarrow> portfolio_context \<Rightarrow> gk_reason option" where
  "limits_check symbol pc =
     (let w = dict_oder (pc_symbol_weights pc) symbol 0; sector = sector_of symbol pc;
          sw = dict_oder (pc_sector_weights pc) sector 0;
          daily = oder (pc_current_daily_trades pc) 0; max_daily = oder (pc_max_daily_trades pc) 50
      in if CONCENTRATION_LIMIT \<le> w then Some (ConcentrationLimit w)
         else if SECTOR_CONCENTRATION_LIMIT \<le> sw then Some (SectorConcentrationLimit sector sw)
         else if max_daily \<le> daily then Some (DailyLimit daily max_daily)
         else None)"

definition gk_check :: "rt_config \<Rightarrow> string \<Rightarrow> real \<Rightarrow> portfolio_context \<Rightarrow> gk_decision" where
  "gk_check cfg symbol score pc =
     (let buy = BUY_THRESHOLD < score; nein = (\<lambda>r. \<lparr>gk_approved = False, gk_reason = r\<rparr>)
      in if buy \<and> oder (pc_position_locked pc) False then nein PositionLocked
         else if pdt_blocks cfg symbol score pc then nein (PDTLimit (oder (pc_day_trades_last_5d pc) 0))
         else case (if buy then limits_check symbol pc else None) of
                Some r \<Rightarrow> nein r
              | None \<Rightarrow>
                  (case (if buy then churn_check symbol pc else None) of
                     Some r \<Rightarrow> nein r
                   | None \<Rightarrow>
                       (case (if buy then timing_check pc else None) of
                          Some r \<Rightarrow> nein r
                        | None \<Rightarrow> \<lparr>gk_approved = True, gk_reason = AllChecksPassed\<rparr>)))"

section \<open>The gate stages\<close>

definition strict_ml_gate_blocks :: "rt_config \<Rightarrow> bool \<Rightarrow> bool \<Rightarrow> bool \<Rightarrow> bool" where
  "strict_ml_gate_blocks cfg lstm_valid rl_valid lstm_disabled =
     (if \<not> lstm_valid
      then if \<not> lstm_disabled then True else rc_strict_ml_requires_rl cfg \<and> \<not> rl_valid
      else if rl_valid then False else rc_strict_ml_requires_rl cfg)"

text \<open>\<open>None\<close> is the missing (empty) context.\<close>

definition empty_context :: portfolio_context where
  "empty_context = \<lparr>pc_day_trades_last_5d = None, pc_max_daily_trades = None, pc_current_daily_trades = None,
     pc_symbol_weights = None, pc_sector_weights = None, pc_symbol_sector_map = None, pc_position_locked = None,
     pc_traded_today = None, pc_equity = None, pc_symbol_churn_guard_active = None,
     pc_symbol_trades_today_valid = None, pc_max_trades_per_symbol = None, pc_symbol_trades_today = None,
     pc_intraday_timing_active = None, pc_minutes_since_market_open = None, pc_no_buy_opening_minutes = None,
     pc_last_buy_elapsed_minutes = None, pc_global_buy_cooldown_minutes = None, pc_buys_last_hour = None,
     pc_max_buys_per_hour = None\<rparr>"

definition resolve_gatekeeper_decision ::
  "rt_config \<Rightarrow> string \<Rightarrow> real \<Rightarrow> portfolio_context option \<Rightarrow> gk_decision" where
  "resolve_gatekeeper_decision cfg symbol score ctx =
     (case ctx of
        None \<Rightarrow> if rc_require_context cfg \<and> BUY_THRESHOLD < score
                then \<lparr>gk_approved = False, gk_reason = GatekeeperStrict\<rparr>
                else gk_check cfg symbol score empty_context
      | Some pc \<Rightarrow> gk_check cfg symbol score pc)"

definition apply_agent_veto :: "rt_config \<Rightarrow> gk_decision \<Rightarrow> vote list \<Rightarrow> real \<Rightarrow> gk_decision" where
  "apply_agent_veto cfg d votes score =
     (case find v_vetoed votes of
        Some v \<Rightarrow> if signal_sell cfg \<le> score then \<lparr>gk_approved = False, gk_reason = AgentVeto (v_agent v)\<rparr> else d
      | None \<Rightarrow> d)"

definition apply_meta_label ::
  "rt_config \<Rightarrow> (vote list \<Rightarrow> real \<Rightarrow> py_error + (bool \<times> string)) \<Rightarrow> gk_decision \<Rightarrow> vote list \<Rightarrow> real \<Rightarrow> gk_decision" where
  "apply_meta_label cfg should_trade d votes score =
     (if \<not> rc_meta_label cfg \<or> \<not> gk_approved d \<or> score \<le> BUY_THRESHOLD then d
      else case should_trade votes score of
             Inl _ \<Rightarrow> if rc_meta_require_model cfg then \<lparr>gk_approved = False, gk_reason = MetaLabelError\<rparr> else d
           | Inr (trade, reason) \<Rightarrow>
               if \<not> trade then \<lparr>gk_approved = False, gk_reason = MetaLabel reason\<rparr> else d)"

text \<open>
  Phase 3. \<open>is_lstm\<close> and \<open>is_rl\<close> say whether the registered agent of that name is of the class; a vote
  of an agent that is not registered counts for neither. A refusal marks every vote.
\<close>

definition lstm_valid :: "(string \<Rightarrow> bool) \<Rightarrow> vote list \<Rightarrow> bool" where
  "lstm_valid is_lstm votes = (\<exists>v \<in> set votes. is_lstm (v_agent v) \<and> 0 < v_weight v)"

definition lstm_disabled :: "(string \<Rightarrow> bool) \<Rightarrow> vote list \<Rightarrow> bool" where
  "lstm_disabled is_lstm votes =
     (\<not> lstm_valid is_lstm votes \<and> (\<exists>v \<in> set votes. is_lstm (v_agent v) \<and> v_abstain v = Some ''DISABLED''))"

definition zusatz :: "bool \<Rightarrow> string \<Rightarrow> gk_decision \<Rightarrow> gk_decision" where
  "zusatz b t d = (if b then d\<lparr>gk_reason := Hinweis (gk_reason d) t\<rparr> else d)"

definition compliance_pruefen ::
  "rt_config \<Rightarrow> (string \<Rightarrow> bool) \<Rightarrow> (string \<Rightarrow> bool) \<Rightarrow> (vote list \<Rightarrow> real \<Rightarrow> py_error + (bool \<times> string))
     \<Rightarrow> string \<Rightarrow> portfolio_context option \<Rightarrow> vote list \<Rightarrow> real \<Rightarrow> vote list \<times> gk_decision" where
  "compliance_pruefen cfg is_lstm is_rl should_trade symbol ctx votes score =
     (let lstm = lstm_valid is_lstm votes; rl = lstm_valid is_rl votes; disabled = lstm_disabled is_lstm votes;
          d0 = (if strict_ml_gate_blocks cfg lstm rl disabled then \<lparr>gk_approved = False, gk_reason = MissingMLVotes\<rparr>
                else zusatz (\<not> rl) ''RL not required'' (zusatz disabled ''LSTM disabled''
                       (resolve_gatekeeper_decision cfg symbol score ctx)));
          d = apply_meta_label cfg should_trade (apply_agent_veto cfg d0 votes score) votes score
      in (if gk_approved d then votes else map (v_vetoed_update (\<lambda>_. True)) votes, d))"

section \<open>The signal\<close>

datatype aktion = BUY | SELL | HOLD

definition aktion_aus_schwellen :: "rt_config \<Rightarrow> real \<Rightarrow> aktion" where
  "aktion_aus_schwellen cfg score =
     (if signal_buy cfg < score then BUY else if score < signal_sell cfg then SELL else HOLD)"

text \<open>
  The drawdown guard's severity damps the conviction of a BUY; below the threshold it becomes a HOLD. A
  guard vote without a score raises, and there is no signal then.
\<close>

definition drawdown_daempfung :: "rt_config \<Rightarrow> real \<Rightarrow> aktion \<Rightarrow> vote list \<Rightarrow> (aktion \<times> real) option" where
  "drawdown_daempfung cfg score action votes =
     (if action = BUY \<and> rc_drawdown_conditioner cfg
      then case find (\<lambda>v. v_agent v = ''DrawdownGuardAgent'') votes of
             None \<Rightarrow> Some (action, score)
           | Some g \<Rightarrow>
               (case v_score g of
                  None \<Rightarrow> None
                | Some s \<Rightarrow>
                    (let conviction = score * (1 - rc_drawdown_damp_max cfg * max 0 (min 1 (1 - s)))
                     in Some (if conviction < signal_buy cfg then HOLD else action, conviction)))
      else Some (action, score))"

text \<open>Phases 2 to 4: the score, the decision and the action with its conviction, if any.\<close>

definition round_table ::
  "rt_config \<Rightarrow> (string \<Rightarrow> bool) \<Rightarrow> (string \<Rightarrow> bool) \<Rightarrow> (vote list \<Rightarrow> real \<Rightarrow> py_error + (bool \<times> string))
     \<Rightarrow> string \<Rightarrow> portfolio_context option \<Rightarrow> vote list \<Rightarrow> real \<times> gk_decision \<times> (aktion \<times> real) option" where
  "round_table cfg is_lstm is_rl should_trade symbol ctx votes =
     (let (votes1, score) = aggregate cfg votes;
          (votes2, d) = compliance_pruefen cfg is_lstm is_rl should_trade symbol ctx votes1 score
      in (score, d, if gk_approved d
                    then drawdown_daempfung cfg score (aktion_aus_schwellen cfg score) votes2 else None))"

section \<open>Lemmas of the consensus\<close>

lemma validated_score: "validated v \<Longrightarrow> 0 \<le> score_of v \<and> score_of v \<le> 1 \<and> 0 < v_weight v"
  by (auto simp: validated_def validate_vote_def score_of_def split: if_splits option.splits)

lemma validated_weight [simp]: "validated (v\<lparr>v_weight := v_weight v * 0.5\<rparr>) = validated v"
  by (auto simp: validated_def validate_vote_def split: option.split)

lemma weighted_mean_bounds:
  assumes "\<forall>v \<in> set vs. 0 \<le> score_of v \<and> score_of v \<le> 1 \<and> 0 < v_weight v" "vs \<noteq> []"
  shows "0 \<le> weighted_mean vs \<and> weighted_mean vs \<le> 1 \<and> 0 < (\<Sum>v\<leftarrow>vs. v_weight v)"
proof -
  have "0 \<le> (\<Sum>v\<leftarrow>vs. score_of v * v_weight v) \<and>
      (\<Sum>v\<leftarrow>vs. score_of v * v_weight v) \<le> (\<Sum>v\<leftarrow>vs. v_weight v) \<and> 0 \<le> (\<Sum>v\<leftarrow>vs. v_weight v)"
    using assms(1) by (induction vs) (auto intro!: add_mono mult_left_le_one_le)
  moreover have "0 < (\<Sum>v\<leftarrow>vs. v_weight v)"
    using assms by (cases vs) (auto intro!: add_pos_nonneg sum_list_nonneg simp: less_imp_le)
  ultimately show ?thesis by (auto simp: weighted_mean_def divide_le_eq_1)
qed

lemma active_ok: "v \<in> set (active_votes cfg votes) \<Longrightarrow> 0 \<le> score_of v \<and> score_of v \<le> 1 \<and> 0 < v_weight v"
  using validated_score by (auto simp: active_votes_def)

text \<open>The mean before the damping; 0 where nobody has an opinion.\<close>

definition undamped :: "rt_config \<Rightarrow> vote list \<Rightarrow> real" where
  "undamped cfg votes = (let act = active_votes cfg (halve_momentum cfg votes) in if act = [] then 0 else weighted_mean act)"

lemma undamped_bounds: "0 \<le> undamped cfg votes" "undamped cfg votes \<le> 1"
  using weighted_mean_bounds [of "active_votes cfg (halve_momentum cfg votes)"] active_ok
  by (auto simp: undamped_def Let_def)

lemma aggregate_undamped:
  "snd (aggregate cfg votes) = (case damp_factor cfg votes of
     Some f \<Rightarrow> if 0.5 < undamped cfg votes then 0.5 + f * (undamped cfg votes - 0.5) else undamped cfg votes
   | None \<Rightarrow> undamped cfg votes)"
proof -
  have "act \<noteq> [] \<Longrightarrow> \<not> (\<Sum>v\<leftarrow>act. v_weight v) \<le> 0" if "act = active_votes cfg (halve_momentum cfg votes)" for act
    using weighted_mean_bounds [of act] active_ok that by (meson not_le)
  then show ?thesis by (auto simp: aggregate_def undamped_def Let_def split: option.split)
qed

lemma damp_factor_bounds:
  assumes "damp_factor cfg votes = Some f" "0 \<le> rc_damp_max cfg" "rc_damp_max cfg \<le> 1"
  shows "0 \<le> f" "f \<le> 1"
proof -
  obtain x where f: "f = 1 - rc_damp_max cfg * severity x"
    using assms(1) by (auto simp: damp_factor_def split: option.splits if_splits)
  have "0 \<le> severity x" "severity x \<le> 1" by (auto simp: severity_def)
  with assms(2,3) show "0 \<le> f" "f \<le> 1" by (auto simp: f intro: mult_le_one)
qed

lemma fst_aggregate: "fst (aggregate cfg votes) = halve_momentum cfg votes"
  by (simp add: aggregate_def Let_def)

section \<open>Lemmas of the gates\<close>

lemma gk_check_sell:
  "score \<le> BUY_THRESHOLD \<Longrightarrow> gk_approved (gk_check cfg y score pc) \<longleftrightarrow> \<not> pdt_blocks cfg y score pc"
  by (simp add: gk_check_def Let_def)

lemma gk_check_buy:
  assumes "gk_approved (gk_check cfg y score pc)" "BUY_THRESHOLD < score"
  shows "\<not> oder (pc_position_locked pc) False" "\<not> pdt_blocks cfg y score pc" "limits_check y pc = None"
    "churn_check y pc = None" "timing_check pc = None"
  using assms by (auto simp: gk_check_def Let_def split: if_splits option.splits)

lemma approved_zusatz [simp]: "gk_approved (zusatz b t d) = gk_approved d"
  by (simp add: zusatz_def)

lemma approved_resolve_sell: "score \<le> BUY_THRESHOLD \<Longrightarrow>
    gk_approved (resolve_gatekeeper_decision cfg y score ctx) \<longleftrightarrow> \<not> pdt_blocks cfg y score (oder ctx empty_context)"
  by (auto simp: resolve_gatekeeper_decision_def gk_check_sell oder_def split: option.split)

lemma meta_never_approves: "gk_approved (apply_meta_label cfg m d votes score) \<Longrightarrow> gk_approved d"
  by (auto simp: apply_meta_label_def split: sum.splits if_splits prod.splits)

lemma veto_buy: "gk_approved (apply_agent_veto cfg d votes score) \<Longrightarrow> signal_sell cfg \<le> score \<Longrightarrow>
    gk_approved d \<and> \<not> (\<exists>v \<in> set votes. v_vetoed v)"
  by (auto simp: apply_agent_veto_def find_None_iff split: option.splits if_splits)

lemma thresholds_order: "signal_sell cfg < signal_buy cfg"
  by (auto simp: signal_thresholds_def split: pyfloat.split)

lemma round_table_score: "fst (round_table cfg l r m y ctx votes) = snd (aggregate cfg votes)"
  by (simp add: round_table_def Let_def case_prod_beta)

text \<open>The halving changes no vote's agent, veto or abstention, nor whether it has weight.\<close>

lemma momentum_map:
  obtains g where "halve_momentum cfg votes = map g votes" "\<And>v. v_agent (g v) = v_agent v"
    "\<And>v. v_vetoed (g v) = v_vetoed v" "\<And>v. v_abstain (g v) = v_abstain v" "\<And>v. 0 < v_weight (g v) \<longleftrightarrow> 0 < v_weight v"
proof -
  let ?g = "\<lambda>v. if validated v \<and> v_agent v = ''MomentumAgent'' then v\<lparr>v_weight := v_weight v * 0.5\<rparr> else v"
  have "halve_momentum cfg votes = map id votes \<or> halve_momentum cfg votes = map ?g votes"
    by (auto simp: halve_momentum_def split: option.split)
  then show ?thesis by (elim disjE) (rule that, assumption, simp_all)+
qed

lemma momentum_agents: "lstm_valid p (halve_momentum cfg votes) = lstm_valid p votes"
  by (rule momentum_map [of cfg votes]) (simp add: lstm_valid_def)

lemma momentum_veto: "(\<exists>v \<in> set (halve_momentum cfg votes). v_vetoed v) = (\<exists>v \<in> set votes. v_vetoed v)"
  by (rule momentum_map [of cfg votes]) simp

lemma momentum_disabled: "lstm_disabled p (halve_momentum cfg votes) = lstm_disabled p votes"
  unfolding lstm_disabled_def momentum_agents by (rule momentum_map [of cfg votes]) simp

text \<open>Whether the machine-learning voices of these votes pass the strict gate.\<close>

definition ml_blocks :: "rt_config \<Rightarrow> (string \<Rightarrow> bool) \<Rightarrow> (string \<Rightarrow> bool) \<Rightarrow> vote list \<Rightarrow> bool" where
  "ml_blocks cfg l r votes =
     strict_ml_gate_blocks cfg (lstm_valid l votes) (lstm_valid r votes) (lstm_disabled l votes)"

text \<open>The decision of phase 3 for a score on the sell side, and for one on the buy side.\<close>

lemma compliance_sell:
  assumes "score < signal_sell cfg" "score \<le> BUY_THRESHOLD"
  shows "gk_approved (snd (compliance_pruefen cfg l r m y ctx votes score)) \<longleftrightarrow>
    \<not> ml_blocks cfg l r votes \<and> \<not> pdt_blocks cfg y score (oder ctx empty_context)"
  using assms by (auto simp: compliance_pruefen_def Let_def ml_blocks_def apply_meta_label_def apply_agent_veto_def
      approved_resolve_sell split: option.split)

lemma compliance_buy:
  assumes "gk_approved (snd (compliance_pruefen cfg l r m y ctx votes score))" "signal_sell cfg \<le> score"
  shows "\<not> ml_blocks cfg l r votes" "\<not> (\<exists>v \<in> set votes. v_vetoed v)" "gk_approved (resolve_gatekeeper_decision cfg y score ctx)"
proof -
  let ?d = "if strict_ml_gate_blocks cfg (lstm_valid l votes) (lstm_valid r votes) (lstm_disabled l votes)
    then \<lparr>gk_approved = False, gk_reason = MissingMLVotes\<rparr>
    else zusatz (\<not> lstm_valid r votes) ''RL not required'' (zusatz (lstm_disabled l votes) ''LSTM disabled''
      (resolve_gatekeeper_decision cfg y score ctx))"
  have "gk_approved (apply_agent_veto cfg ?d votes score)"
    using assms(1) by (auto simp: compliance_pruefen_def Let_def dest: meta_never_approves)
  from veto_buy [OF this assms(2)] show "\<not> ml_blocks cfg l r votes" "\<not> (\<exists>v \<in> set votes. v_vetoed v)"
    "gk_approved (resolve_gatekeeper_decision cfg y score ctx)"
    by (auto simp: ml_blocks_def split: if_splits)
qed

lemma momentum_ml: "ml_blocks cfg l r (halve_momentum cfg votes) = ml_blocks cfg l r votes"
  by (simp add: ml_blocks_def momentum_agents momentum_disabled)

lemma round_table_result:
  "round_table cfg l r m y ctx votes = (score, d, sig) \<Longrightarrow> score = snd (aggregate cfg votes) \<and>
    d = snd (compliance_pruefen cfg l r m y ctx (halve_momentum cfg votes) score) \<and>
    (sig \<noteq> None \<longrightarrow> gk_approved d)"
  using fst_aggregate [of cfg votes] by (auto simp: round_table_def Let_def case_prod_beta split: if_splits)

text \<open>The signal of a score on the sell side.\<close>

lemma sell_signal:
  assumes "round_table cfg is_lstm is_rl should_trade symbol ctx votes = (score, d, sig)"
    and "score < signal_sell cfg" and "score \<le> BUY_THRESHOLD"
  shows "sig = (if ml_blocks cfg is_lstm is_rl votes \<or> pdt_blocks cfg symbol score (oder ctx empty_context)
                then None else Some (SELL, score))"
proof -
  have r: "score = snd (aggregate cfg votes)"
    "d = snd (compliance_pruefen cfg is_lstm is_rl should_trade symbol ctx (halve_momentum cfg votes) score)"
    using round_table_result [OF assms(1)] by simp_all
  have "gk_approved d \<longleftrightarrow> \<not> ml_blocks cfg is_lstm is_rl votes \<and> \<not> pdt_blocks cfg symbol score (oder ctx empty_context)"
    using compliance_sell [OF assms(2,3)] by (simp add: r(2) momentum_ml)
  moreover have "aktion_aus_schwellen cfg score = SELL"
    using assms(2) thresholds_order [of cfg] by (simp add: aktion_aus_schwellen_def)
  ultimately show ?thesis
    using assms(1) fst_aggregate [of cfg votes] r
    by (auto simp: round_table_def Let_def case_prod_beta drawdown_daempfung_def)
qed

section \<open>Properties\<close>

text \<open>
  The consensus is a score, and risk-off only takes conviction from buys. For whatever votes come in,
  the consensus lies in [0, 1]; the regime conditioning never raises it, leaves a consensus on the sell
  side as it is, and never carries one from the buy side across the middle.
\<close>

theorem risk_off_only_damps_buys:
  assumes "0 \<le> rc_damp_max cfg" and "rc_damp_max cfg \<le> 1"
  shows "0 \<le> snd (aggregate cfg votes) \<and> snd (aggregate cfg votes) \<le> 1 \<and>
    (undamped cfg votes \<le> 0.5 \<longrightarrow> snd (aggregate cfg votes) = undamped cfg votes) \<and>
    (0.5 < undamped cfg votes \<longrightarrow>
       0.5 \<le> snd (aggregate cfg votes) \<and> snd (aggregate cfg votes) \<le> undamped cfg votes)"
proof (cases "damp_factor cfg votes")
  case None
  then show ?thesis using undamped_bounds [of cfg votes] by (simp add: aggregate_undamped)
next
  case (Some f)
  let ?u = "undamped cfg votes"
  show ?thesis
  proof (cases "0.5 < ?u")
    case True
    then have "0 \<le> f * (?u - 0.5)" "f * (?u - 0.5) \<le> ?u - 0.5"
      using damp_factor_bounds [OF Some assms] by (auto intro: mult_left_le_one_le)
    moreover have "snd (aggregate cfg votes) = 0.5 + f * (?u - 0.5)" using True by (simp add: aggregate_undamped Some)
    ultimately show ?thesis using undamped_bounds [of cfg votes] True by (intro conjI impI; linarith)
  next
    case False
    then show ?thesis using undamped_bounds [of cfg votes] by (simp add: aggregate_undamped Some)
  qed
qed

definition bsp_rt :: rt_config where
  "bsp_rt = \<lparr>rc_signal_buy = Fin 0.73, rc_signal_sell = Fin 0.35, rc_conditioner = True, rc_damp_max = 0.5,
     rc_iv_forecast = False, rc_strict_ml_requires_rl = False, rc_require_context = False,
     rc_pdt_finra_accurate = True, rc_meta_label = False, rc_meta_require_model = False,
     rc_drawdown_conditioner = False, rc_drawdown_damp_max = 0.8\<rparr>"

definition bsp_vote :: "string \<Rightarrow> real option \<Rightarrow> real \<Rightarrow> string option \<Rightarrow> vote" where
  "bsp_vote a s w ab = \<lparr>v_agent = a, v_score = s, v_weight = w, v_vetoed = False, v_abstain = ab\<rparr>"

theorem risk_off_only_damps_buys_witness:
  "snd (aggregate bsp_rt [bsp_vote ''LSTMSignalAgent'' (Some 0.9) 1 None, bsp_vote ''RegimeDetectionAgent'' (Some 0) 1 None]) \<le> 1"
  using risk_off_only_damps_buys [of bsp_rt] by (simp add: bsp_rt_def)

text \<open>
  Nothing but the missing machine-learning votes and the day-trade rule holds back an exit. For a
  consensus on the sell side the signal is a SELL exactly when the strict vote gate passes and the
  day-trade rule does not bind: no lock, weight, sector, daily limit, churn or pacing guard, no agent's
  veto and no meta-label model can turn it away, with or without a portfolio context.
\<close>

theorem exits_pass_all_other_gates:
  assumes "round_table cfg is_lstm is_rl should_trade symbol ctx votes = (score, d, sig)"
    and "score < signal_sell cfg" and "score \<le> BUY_THRESHOLD"
  shows "sig = (if ml_blocks cfg is_lstm is_rl votes \<or> pdt_blocks cfg symbol score (oder ctx empty_context)
                then None else Some (SELL, score))"
  using assms by (rule sell_signal)

definition bsp_sell_votes :: "vote list" where
  "bsp_sell_votes = [bsp_vote ''LSTMSignalAgent'' (Some 0.2) 1 None]"

lemma bsp_sell_score: "snd (aggregate bsp_rt bsp_sell_votes) = 0.2"
  by (simp add: aggregate_def bsp_sell_votes_def bsp_vote_def bsp_rt_def halve_momentum_def regime_vote_def validated_def
      validate_vote_def active_votes_def consensus_exclusions_def weighted_mean_def score_of_def damp_factor_def)

theorem exits_pass_all_other_gates_witness:
  "snd (snd (round_table bsp_rt (\<lambda>a. a = ''LSTMSignalAgent'') (\<lambda>_. False) (\<lambda>_ _. Inr (False, [])) ''A''
     (Some (empty_context\<lparr>pc_position_locked := Some True, pc_symbol_weights := Some [(''A'', 0.5)]\<rparr>)) bsp_sell_votes))
   = Some (SELL, 0.2)"
proof -
  let ?ctx = "Some (empty_context\<lparr>pc_position_locked := Some True, pc_symbol_weights := Some [(''A'', 0.5)]\<rparr>)"
  obtain score d sig where r: "round_table bsp_rt (\<lambda>a. a = ''LSTMSignalAgent'') (\<lambda>_. False) (\<lambda>_ _. Inr (False, []))
      ''A'' ?ctx bsp_sell_votes = (score, d, sig)" by (metis prod_cases3)
  have s: "score = 0.2" using round_table_result [OF r] bsp_sell_score by simp
  have "score < signal_sell bsp_rt" "score \<le> BUY_THRESHOLD"
    by (simp_all add: s bsp_rt_def signal_thresholds_def BUY_THRESHOLD_def)
  moreover have "\<not> ml_blocks bsp_rt (\<lambda>a. a = ''LSTMSignalAgent'') (\<lambda>_. False) bsp_sell_votes"
    by (simp add: ml_blocks_def strict_ml_gate_blocks_def lstm_valid_def bsp_sell_votes_def bsp_vote_def bsp_rt_def)
  moreover have "\<not> pdt_blocks bsp_rt ''A'' score (oder ?ctx empty_context)"
    by (simp add: pdt_blocks_def pdt_rule_can_bind_def pdt_day_trade_limit_def oder_def empty_context_def bsp_rt_def)
  ultimately show ?thesis using exits_pass_all_other_gates [OF r] s unfolding r by simp
qed

text \<open>
  C24: A BUY that gets through is above the buy threshold of the signal, has the machine-learning votes it needs
  and no agent's veto. Where its score is also above the threshold of the gatekeeper (always so, unless the
  operator sets the signal's threshold lower), it has passed every check on the portfolio too: the position is not
  locked, the day-trade rule does not bind, the symbol is below a quarter and its sector below three tenths of
  the portfolio, the trades of the day are below their limit and no churn or pacing guard is due. Without a
  context these are checks on an empty one, and then no context is required.
\<close>

theorem buy_signal_is_cleared:
  assumes "round_table cfg is_lstm is_rl should_trade symbol ctx votes = (score, d, Some (BUY, conviction))"
  shows "signal_buy cfg < score \<and> \<not> ml_blocks cfg is_lstm is_rl votes \<and> \<not> (\<exists>v \<in> set votes. v_vetoed v) \<and>
    (if BUY_THRESHOLD < score
     then (if ctx = None then \<not> rc_require_context cfg else True) \<and>
       (let pc = oder ctx empty_context in
          \<not> oder (pc_position_locked pc) False \<and> \<not> pdt_blocks cfg symbol score pc \<and>
          dict_oder (pc_symbol_weights pc) symbol 0 < CONCENTRATION_LIMIT \<and>
          dict_oder (pc_sector_weights pc) (sector_of symbol pc) 0 < SECTOR_CONCENTRATION_LIMIT \<and>
          oder (pc_current_daily_trades pc) 0 < oder (pc_max_daily_trades pc) 50 \<and>
          churn_check symbol pc = None \<and> timing_check pc = None)
     else True)"
proof -
  let ?pc = "oder ctx empty_context"
  have r: "score = snd (aggregate cfg votes)" "gk_approved d"
    "d = snd (compliance_pruefen cfg is_lstm is_rl should_trade symbol ctx (halve_momentum cfg votes) score)"
    using round_table_result [OF assms(1)] by blast+
  have "aktion_aus_schwellen cfg score = BUY"
    using assms(1) fst_aggregate [of cfg votes] r
    by (auto simp: round_table_def Let_def case_prod_beta drawdown_daempfung_def split: if_splits option.splits)
  then have s: "signal_buy cfg < score" by (auto simp: aktion_aus_schwellen_def split: if_splits)
  then have b: "signal_sell cfg \<le> score" using thresholds_order [of cfg] by simp
  note c = compliance_buy [OF r(2) [unfolded r(3)] b]
  have k: "gk_approved (gk_check cfg symbol score ?pc) \<and> (if ctx = None then \<not> rc_require_context cfg else True)"
    if "BUY_THRESHOLD < score"
    using c(3) that by (auto simp: resolve_gatekeeper_decision_def oder_def split: option.splits if_splits)
  have "\<not> oder (pc_position_locked ?pc) False \<and> \<not> pdt_blocks cfg symbol score ?pc \<and>
      dict_oder (pc_symbol_weights ?pc) symbol 0 < CONCENTRATION_LIMIT \<and>
      dict_oder (pc_sector_weights ?pc) (sector_of symbol ?pc) 0 < SECTOR_CONCENTRATION_LIMIT \<and>
      oder (pc_current_daily_trades ?pc) 0 < oder (pc_max_daily_trades ?pc) 50 \<and>
      churn_check symbol ?pc = None \<and> timing_check ?pc = None" if g: "BUY_THRESHOLD < score"
    using gk_check_buy [OF conjunct1 [OF k [OF g]] g] by (auto simp: limits_check_def Let_def split: if_splits)
  with s c(1,2) k show ?thesis unfolding momentum_ml momentum_veto Let_def by auto
qed

definition bsp_buy_votes :: "vote list" where
  "bsp_buy_votes = [bsp_vote ''LSTMSignalAgent'' (Some 0.9) 1 None]"

lemma bsp_buy: "round_table bsp_rt (\<lambda>a. a = ''LSTMSignalAgent'') (\<lambda>_. False) (\<lambda>_ _. Inr (True, [])) ''A''
    (Some empty_context) bsp_buy_votes =
    (0.9, \<lparr>gk_approved = True, gk_reason = Hinweis AllChecksPassed ''RL not required''\<rparr>, Some (BUY, 0.9))"
  by (simp add: round_table_def aggregate_def bsp_buy_votes_def bsp_vote_def bsp_rt_def halve_momentum_def regime_vote_def
      validated_def validate_vote_def active_votes_def consensus_exclusions_def weighted_mean_def score_of_def
      damp_factor_def compliance_pruefen_def lstm_valid_def lstm_disabled_def strict_ml_gate_blocks_def zusatz_def
      resolve_gatekeeper_decision_def gk_check_def pdt_blocks_def pdt_rule_can_bind_def pdt_day_trade_limit_def
      limits_check_def churn_check_def timing_check_def empty_context_def oder_def dict_oder_def sector_of_def
      CONCENTRATION_LIMIT_def SECTOR_CONCENTRATION_LIMIT_def apply_agent_veto_def apply_meta_label_def
      aktion_aus_schwellen_def drawdown_daempfung_def signal_thresholds_def Let_def)

theorem buy_signal_is_cleared_witness: "dict_oder (pc_symbol_weights empty_context) ''A'' 0 < CONCENTRATION_LIMIT"
  using buy_signal_is_cleared [OF bsp_buy] by (simp add: oder_def BUY_THRESHOLD_def)

text \<open>
  With a buy threshold configured below the gatekeeper's, a BUY can pass no check at all. The
  thresholds 0.60 and 0.35 are a valid pair; a consensus of 0.62 is then a BUY, and it is approved with a
  locked position, half of the portfolio in the symbol and the trades of the day used up.
\<close>

theorem low_threshold_skips_checks:
  assumes "pc_position_locked pc = Some True" and "pc_symbol_weights pc = Some [(''A'', 0.5)]"
    and "pc_current_daily_trades pc = Some 99" and "pc_max_daily_trades pc = Some 10" and "pc_day_trades_last_5d pc = None"
  shows "snd (snd (round_table (bsp_rt\<lparr>rc_signal_buy := Fin 0.6\<rparr>) (\<lambda>a. a = ''LSTMSignalAgent'') (\<lambda>_. False)
     (\<lambda>_ _. Inr (True, [])) ''A'' (Some pc) [bsp_vote ''LSTMSignalAgent'' (Some 0.62) 1 None])) = Some (BUY, 0.62)"
  using assms
  by (simp add: round_table_def aggregate_def bsp_vote_def bsp_rt_def halve_momentum_def regime_vote_def
      validated_def validate_vote_def active_votes_def consensus_exclusions_def weighted_mean_def score_of_def
      damp_factor_def compliance_pruefen_def lstm_valid_def lstm_disabled_def strict_ml_gate_blocks_def zusatz_def
      resolve_gatekeeper_decision_def gk_check_def pdt_blocks_def pdt_rule_can_bind_def pdt_day_trade_limit_def
      oder_def BUY_THRESHOLD_def apply_agent_veto_def apply_meta_label_def
      aktion_aus_schwellen_def drawdown_daempfung_def signal_thresholds_def Let_def split: option.split)

theorem low_threshold_skips_checks_witness:
  "snd (snd (round_table (bsp_rt\<lparr>rc_signal_buy := Fin 0.6\<rparr>) (\<lambda>a. a = ''LSTMSignalAgent'') (\<lambda>_. False)
     (\<lambda>_ _. Inr (True, [])) ''A'' (Some (empty_context\<lparr>pc_position_locked := Some True,
       pc_symbol_weights := Some [(''A'', 0.5)], pc_current_daily_trades := Some 99, pc_max_daily_trades := Some 10\<rparr>))
     [bsp_vote ''LSTMSignalAgent'' (Some 0.62) 1 None])) = Some (BUY, 0.62)"
  by (rule low_threshold_skips_checks) (simp_all add: empty_context_def)

text \<open>
  Where nobody has an opinion, the table sells. With the LSTM voter switched off by the operator, if
  all votes abstain (or are vetoed or invalid) the consensus is 0, which is the strongest SELL: while
  the day-trade rule does not bind, a SELL signal comes out.
\<close>

theorem no_opinion_sells:
  assumes "\<forall>v \<in> set votes. \<not> validated v" and "\<exists>v \<in> set votes. is_lstm (v_agent v) \<and> v_abstain v = Some ''DISABLED''"
    and "\<not> rc_strict_ml_requires_rl cfg" and "\<not> lstm_valid is_lstm votes"
    and "\<not> pdt_blocks cfg symbol 0 (oder ctx empty_context)"
  shows "snd (snd (round_table cfg is_lstm is_rl should_trade symbol ctx votes)) = Some (SELL, 0)"
proof -
  obtain score d sig where r: "round_table cfg is_lstm is_rl should_trade symbol ctx votes = (score, d, sig)"
    by (metis prod_cases3)
  have no: "regime_vote votes = None" using assms(1) by (auto simp: regime_vote_def find_None_iff)
  then have "halve_momentum cfg votes = votes" by (simp add: halve_momentum_def)
  then have "snd (aggregate cfg votes) = 0"
    using assms(1) no by (auto simp: aggregate_undamped undamped_def active_votes_def damp_factor_def Let_def filter_empty_conv)
  then have s: "score = 0" using round_table_result [OF r] by simp
  have "0 < signal_sell cfg" by (auto simp: signal_thresholds_def split: pyfloat.split)
  moreover have "\<not> ml_blocks cfg is_lstm is_rl votes"
    using assms(2-4) by (auto simp: ml_blocks_def strict_ml_gate_blocks_def lstm_disabled_def)
  moreover have "score \<le> BUY_THRESHOLD" by (simp add: s BUY_THRESHOLD_def)
  ultimately show ?thesis using sell_signal [OF r] assms(5) s r by simp
qed

theorem no_opinion_sells_witness:
  "snd (snd (round_table bsp_rt (\<lambda>a. a = ''LSTMSignalAgent'') (\<lambda>_. False) (\<lambda>_ _. Inr (True, [])) ''A'' (Some empty_context)
     [bsp_vote ''LSTMSignalAgent'' None 0 (Some ''DISABLED''), bsp_vote ''NewsAgent'' (Some 0.5) 0 None])) = Some (SELL, 0)"
  by (rule no_opinion_sells)
     (simp_all add: bsp_vote_def bsp_rt_def validated_def validate_vote_def lstm_valid_def pdt_blocks_def
       pdt_rule_can_bind_def pdt_day_trade_limit_def oder_def empty_context_def)

end
