(* ===== verification/Sim_Broker.thy ===== *)
theory Sim_Broker
  imports Liquidation
begin

text \<open>
  The simulated broker of the replay (\<open>core/sim/broker.py\<close>) and its fill engine
  (\<open>core/sim/fill_engine.py\<close>): orders, positions and cash, the three test knobs (rejected symbols,
  partial fills, resting stops), re-pricing, queries and cancellation.

  Quantities and prices are kept as texts \<open>str(x)\<close> by the code and read back with \<open>float\<close>; the model
  keeps the number. The market is a parameter: \<open>m s\<close> is the last close of \<open>s\<close> at the current
  simulated time, \<open>None\<close> when there is no bar or the data client raises.
\<close>

section \<open>Orders and positions\<close>

datatype order_status = Accepted | Partially_filled | Filled | Canceled | Rejected | Status string

text \<open>\<open>status in ("filled", "canceled", "rejected")\<close>.\<close>

fun terminal :: "order_status \<Rightarrow> bool" where
  "terminal Filled = True"
| "terminal Canceled = True"
| "terminal Rejected = True"
| "terminal _ = False"

record sim_request =
  rq_id :: "string option"
  rq_symbol :: string
  rq_side :: seite
  rq_qty :: "real option"
  rq_stop_price :: "real option"
  rq_rest :: "(string \<times> wert) list"
  rq_status :: "order_status option"
  rq_filled_qty :: "real option"
  rq_filled_avg_price :: "real option"
  rq_filled_at :: "real option"
  rq_is_seed :: bool

record sim_order =
  so_id :: string
  so_symbol :: string
  so_side :: seite
  so_qty :: "real option"
  so_stop_price :: "real option"
  so_rest :: "(string \<times> wert) list"
  so_status :: order_status
  so_submitted_at :: real
  so_filled_qty :: "real option"
  so_filled_avg_price :: "real option"
  so_filled_at :: "real option"
  so_is_seed :: bool

text \<open>\<open>SimOrder(request, order_id, submitted_at)\<close>.\<close>

definition SimOrder :: "sim_request \<Rightarrow> string \<Rightarrow> real \<Rightarrow> sim_order" where
  "SimOrder rq order_id submitted_at =
     \<lparr>so_id = (case rq_id rq of Some i \<Rightarrow> if i = [] then order_id else i | None \<Rightarrow> order_id),
      so_symbol = rq_symbol rq, so_side = rq_side rq, so_qty = rq_qty rq,
      so_stop_price = rq_stop_price rq, so_rest = rq_rest rq,
      so_status = (case rq_status rq of Some s \<Rightarrow> if s = Status [] then Accepted else s | None \<Rightarrow> Accepted),
      so_submitted_at = submitted_at, so_filled_qty = rq_filled_qty rq,
      so_filled_avg_price = rq_filled_avg_price rq, so_filled_at = rq_filled_at rq,
      so_is_seed = rq_is_seed rq\<rparr>"

record sim_position =
  sp_symbol :: string
  sp_qty :: real
  sp_qty_available :: real
  sp_avg_entry_price :: real
  sp_current_price :: real
  sp_market_value :: real
  sp_unrealized_pl :: real
  sp_unrealized_plpc :: real

definition DummyPosition :: "string \<Rightarrow> real \<Rightarrow> real \<Rightarrow> sim_position" where
  "DummyPosition s qty price =
     \<lparr>sp_symbol = s, sp_qty = qty, sp_qty_available = qty, sp_avg_entry_price = price,
      sp_current_price = price, sp_market_value = qty * price,
      sp_unrealized_pl = 0, sp_unrealized_plpc = 0\<rparr>"

definition mark :: "real \<Rightarrow> sim_position \<Rightarrow> sim_position" where
  "mark price p =
     p\<lparr>sp_current_price := price,
       sp_market_value := sp_qty p * price,
       sp_unrealized_pl := (price - sp_avg_entry_price p) * sp_qty p,
       sp_unrealized_plpc := (if sp_avg_entry_price p \<noteq> 0 then price / sp_avg_entry_price p - 1 else 0)\<rparr>"

text \<open>The knob of the partial fills: absent, one ratio for all symbols, or one per symbol.\<close>

datatype fill_ratio = NoRatio | RatioAll real | RatioOf "(string, real) pydict"

record sim_broker =
  sb_cash :: real
  sb_starting_equity :: real
  sb_positions :: "(string, sim_position) pydict"
  sb_orders :: "sim_order list"
  sb_reject_symbols :: "string list"
  sb_ratio :: fill_ratio

definition VirtualLiveBroker :: sim_broker where
  "VirtualLiveBroker =
     \<lparr>sb_cash = 100000, sb_starting_equity = 100000, sb_positions = [], sb_orders = [],
      sb_reject_symbols = [], sb_ratio = RatioOf []\<rparr>"

section \<open>The fill engine\<close>

definition is_triggered :: "sim_order \<Rightarrow> real \<Rightarrow> bool" where
  "is_triggered od price =
     (case so_stop_price od of
        None \<Rightarrow> True
      | Some stop \<Rightarrow> (if so_side od = Sell then price \<le> stop else stop \<le> price))"

definition already_filled :: "sim_order \<Rightarrow> real" where
  "already_filled od = (case so_filled_qty od of None \<Rightarrow> 0 | Some q \<Rightarrow> q)"

definition ratio_of :: "fill_ratio \<Rightarrow> string \<Rightarrow> real option" where
  "ratio_of r s = (case r of NoRatio \<Rightarrow> None | RatioAll x \<Rightarrow> Some x | RatioOf d \<Rightarrow> map_of d s)"

definition fill_quantity :: "fill_ratio \<Rightarrow> sim_order \<Rightarrow> real \<Rightarrow> real" where
  "fill_quantity r od order_qty =
     (let outstanding = order_qty - already_filled od
      in if outstanding \<le> 0 then 0
         else case ratio_of r (so_symbol od) of
                None \<Rightarrow> outstanding
              | Some x \<Rightarrow> if \<not> (0 < x \<and> x < 1) then outstanding else py_round 6 (outstanding * x))"

definition record_fill :: "real \<Rightarrow> real \<Rightarrow> real \<Rightarrow> real \<Rightarrow> sim_order \<Rightarrow> sim_order" where
  "record_fill now qty full_qty price od =
     (let t = py_round 6 (already_filled od + qty)
      in od\<lparr>so_filled_qty := Some t, so_filled_avg_price := Some price, so_filled_at := Some now,
           so_status := (if full_qty \<le> t + 1 / 10 ^ 9 then Filled else Partially_filled)\<rparr>)"

text \<open>The book after a purchase and after a sale of \<open>q\<close> pieces at \<open>price\<close>.\<close>

definition buy_into :: "string \<Rightarrow> real \<Rightarrow> real \<Rightarrow> sim_broker \<Rightarrow> sim_broker" where
  "buy_into s q price b =
     b\<lparr>sb_cash := sb_cash b - q * price,
       sb_positions := dict_set s
         (case map_of (sb_positions b) s of
            Some p \<Rightarrow>
              p\<lparr>sp_avg_entry_price := (sp_qty p * sp_avg_entry_price p + q * price) / (sp_qty p + q),
                sp_qty := sp_qty p + q, sp_current_price := price,
                sp_market_value := (sp_qty p + q) * price\<rparr>
          | None \<Rightarrow> DummyPosition s q price) (sb_positions b)\<rparr>"

definition sell_from :: "string \<Rightarrow> real \<Rightarrow> real \<Rightarrow> sim_position \<Rightarrow> sim_broker \<Rightarrow> sim_broker" where
  "sell_from s q price p b =
     b\<lparr>sb_cash := sb_cash b + q * price,
       sb_positions :=
         (if sp_qty p - q \<le> 0 then dict_del s (sb_positions b)
          else dict_set s (p\<lparr>sp_qty := sp_qty p - q, sp_current_price := price,
                             sp_market_value := (sp_qty p - q) * price\<rparr>) (sb_positions b))\<rparr>"

text \<open>One order of a pass: the broker and the order after it; \<open>Inl\<close> leaves the loop.\<close>

definition fill_one ::
  "real \<Rightarrow> (string \<Rightarrow> real option) \<Rightarrow> sim_broker \<Rightarrow> sim_order \<Rightarrow> py_error + sim_broker \<times> sim_order" where
  "fill_one now m b od =
     (if terminal (so_status od) then Inr (b, od)
      else if so_symbol od \<in> set (sb_reject_symbols b) then Inr (b, od\<lparr>so_status := Rejected\<rparr>)
      else case m (so_symbol od) of
        None \<Rightarrow> Inr (b, od)
      | Some price \<Rightarrow>
          if \<not> is_triggered od price then Inr (b, od)
          else case so_qty od of
            None \<Rightarrow> Inl AttributeError
          | Some full_qty \<Rightarrow>
              let q = fill_quantity (sb_ratio b) od full_qty
              in if q \<le> 0 then Inr (b, od)
                 else if so_side od = Buy
                 then (if q * price \<le> sb_cash b
                       then Inr (buy_into (so_symbol od) q price b, record_fill now q full_qty price od)
                       else Inr (b, od))
                 else (case map_of (sb_positions b) (so_symbol od) of
                         None \<Rightarrow> Inr (b, od)
                       | Some p \<Rightarrow>
                           if q \<le> sp_qty p
                           then Inr (sell_from (so_symbol od) q price p b, record_fill now q full_qty price od)
                           else Inr (b, od)))"

text \<open>
  A pass over the orders, in their order. The orders are mutated in place: what was done before an
  exception stays done.
\<close>

fun fill_pass ::
  "real \<Rightarrow> (string \<Rightarrow> real option) \<Rightarrow> sim_broker \<Rightarrow> sim_order list
     \<Rightarrow> sim_broker \<times> sim_order list \<times> py_error option" where
  "fill_pass now m b [] = (b, [], None)"
| "fill_pass now m b (od # ods) =
     (case fill_one now m b od of
        Inl e \<Rightarrow> (b, od # ods, Some e)
      | Inr (b', od') \<Rightarrow> (case fill_pass now m b' ods of (b'', ods', e) \<Rightarrow> (b'', od' # ods', e)))"

definition process_orders :: "real \<Rightarrow> (string \<Rightarrow> real option) \<Rightarrow> sim_broker \<Rightarrow> sim_broker \<times> py_error option" where
  "process_orders now m b =
     (case fill_pass now m b (sb_orders b) of (b', ods, e) \<Rightarrow> (b'\<lparr>sb_orders := ods\<rparr>, e))"

section \<open>The broker's operations\<close>

definition sim_submit ::
  "real \<Rightarrow> (string \<Rightarrow> real option) \<Rightarrow> string \<Rightarrow> sim_request \<Rightarrow> sim_broker
     \<Rightarrow> sim_broker \<times> (py_error + sim_order)" where
  "sim_submit now m uid rq b =
     (let b1 = b\<lparr>sb_orders := sb_orders b @ [SimOrder rq uid now]\<rparr>
      in case process_orders now m b1 of
           (b2, Some e) \<Rightarrow> (b2, Inl e)
         | (b2, None) \<Rightarrow> (b2, Inr (last (sb_orders b2))))"

definition sim_equity :: "sim_broker \<Rightarrow> real" where
  "sim_equity b = sb_cash b + (\<Sum>(s, p) \<leftarrow> sb_positions b. sp_qty p * sp_current_price p)"

text \<open>\<open>mark_to_market\<close>: the broker and the number of positions priced anew.\<close>

definition mark_to_market :: "(string \<Rightarrow> real option) \<Rightarrow> sim_broker \<Rightarrow> sim_broker \<times> nat" where
  "mark_to_market m b =
     (b\<lparr>sb_positions := map (\<lambda>(s, p). (s, case m s of None \<Rightarrow> p | Some x \<Rightarrow> mark x p)) (sb_positions b)\<rparr>,
      length (filter (\<lambda>(s, p). m s \<noteq> None) (sb_positions b)))"

record sim_account =
  ac_equity :: real
  ac_cash :: real
  ac_portfolio_value :: real
  ac_buying_power :: real
  ac_daytrading_buying_power :: real
  ac_multiplier :: nat
  ac_pattern_day_trader :: bool
  ac_last_equity :: real

definition get_account :: "sim_broker \<Rightarrow> sim_account" where
  "get_account b =
     \<lparr>ac_equity = sim_equity b, ac_cash = sb_cash b, ac_portfolio_value = sim_equity b,
      ac_buying_power = sb_cash b, ac_daytrading_buying_power = sb_cash b, ac_multiplier = 1,
      ac_pattern_day_trader = False, ac_last_equity = sb_starting_equity b\<rparr>"

definition get_all_positions :: "sim_broker \<Rightarrow> sim_position list" where
  "get_all_positions b = map snd (sb_positions b)"

text \<open>\<open>str.upper\<close> on ASCII letters.\<close>

definition upper_char :: "char \<Rightarrow> char" where
  "upper_char c = (let n = of_char c :: nat in if 97 \<le> n \<and> n \<le> 122 then char_of (n - 32) else c)"

definition str_upper :: "string \<Rightarrow> string" where
  "str_upper s = map upper_char s"

definition flat_position_error :: py_error where
  "flat_position_error = BrokerError ''40410000''"

definition get_open_position :: "string \<Rightarrow> sim_broker \<Rightarrow> py_error + sim_position" where
  "get_open_position s b =
     (case map_of (sb_positions b) (str_upper s) of None \<Rightarrow> Inl flat_position_error | Some p \<Rightarrow> Inr p)"

definition cancel_open :: "sim_order \<Rightarrow> sim_order" where
  "cancel_open od = (if terminal (so_status od) then od else od\<lparr>so_status := Canceled\<rparr>)"

definition close_all_positions :: "sim_broker \<Rightarrow> sim_broker" where
  "close_all_positions b = b\<lparr>sb_positions := [], sb_orders := map cancel_open (sb_orders b)\<rparr>"

definition get_order_by_id :: "string \<Rightarrow> sim_broker \<Rightarrow> py_error + sim_order" where
  "get_order_by_id i b =
     (case find (\<lambda>od. so_id od = i) (sb_orders b) of None \<Rightarrow> Inl flat_position_error | Some od \<Rightarrow> Inr od)"

text \<open>The status filter of the request, already lowered; absent it is the empty text.\<close>

definition get_orders :: "string \<Rightarrow> sim_broker \<Rightarrow> sim_order list" where
  "get_orders flt b =
     (if flt = ''all'' then sb_orders b
      else if flt = ''closed'' then filter (\<lambda>od. terminal (so_status od)) (sb_orders b)
      else filter (\<lambda>od. \<not> terminal (so_status od)) (sb_orders b))"

definition cancel_orders :: "sim_broker \<Rightarrow> sim_broker" where
  "cancel_orders b = b\<lparr>sb_orders := map cancel_open (sb_orders b)\<rparr>"

definition cancel_order_by_id :: "string \<Rightarrow> sim_broker \<Rightarrow> sim_broker" where
  "cancel_order_by_id i b =
     b\<lparr>sb_orders := map (\<lambda>od. if so_id od = i then od\<lparr>so_status := Canceled\<rparr> else od) (sb_orders b)\<rparr>"

section \<open>The invariant of the book\<close>

text \<open>
  What an order promises: what is filled is a multiple of \<open>10^-6\<close> and not negative, and, if the
  ordered quantity is one too, at most that and exactly that once the order is filled.
\<close>

definition sim_order_ok :: "sim_order \<Rightarrow> bool" where
  "sim_order_ok od =
     (0 \<le> already_filled od \<and> on_grid 6 (already_filled od) \<and>
      (case so_qty od of
         None \<Rightarrow> so_status od \<noteq> Filled
       | Some q \<Rightarrow> 0 \<le> q \<longrightarrow> on_grid 6 q \<longrightarrow>
           already_filled od \<le> q \<and> (so_status od = Filled \<longrightarrow> already_filled od = q)))"

definition pos_ok :: "string \<times> sim_position \<Rightarrow> bool" where
  "pos_ok e = (sp_symbol (snd e) = fst e \<and> 0 < sp_qty (snd e))"

definition sim_book_ok :: "sim_broker \<Rightarrow> bool" where
  "sim_book_ok b =
     (0 \<le> sb_cash b \<and> dict_ok (sb_positions b) \<and>
      (\<forall>e \<in> set (sb_positions b). pos_ok e))"

definition sim_ok :: "sim_broker \<Rightarrow> bool" where
  "sim_ok b = (sim_book_ok b \<and> (\<forall>od \<in> set (sb_orders b). sim_order_ok od))"

text \<open>The value of cash and positions at the prices \<open>v\<close>.\<close>

definition value_at :: "(string \<Rightarrow> real) \<Rightarrow> sim_broker \<Rightarrow> real" where
  "value_at v b = sb_cash b + (\<Sum>(s, p) \<leftarrow> sb_positions b. sp_qty p * v s)"

text \<open>What a fill leaves alone: the orders and the knobs.\<close>

lemma book_frame [simp]:
  "sb_orders (buy_into s q x b) = sb_orders b" "sb_orders (sell_from s q x p b) = sb_orders b"
  "sb_ratio (buy_into s q x b) = sb_ratio b" "sb_ratio (sell_from s q x p b) = sb_ratio b"
  "sb_reject_symbols (buy_into s q x b) = sb_reject_symbols b"
  "sb_reject_symbols (sell_from s q x p b) = sb_reject_symbols b"
  by (simp_all add: buy_into_def sell_from_def)

lemma record_fill_frame [simp]:
  "so_symbol (record_fill now q f x od) = so_symbol od" "so_qty (record_fill now q f x od) = so_qty od"
  "so_side (record_fill now q f x od) = so_side od" "so_id (record_fill now q f x od) = so_id od"
  "so_stop_price (record_fill now q f x od) = so_stop_price od"
  by (simp_all add: record_fill_def Let_def)

text \<open>The ways through one order: nothing of the book, or a purchase, or a sale.\<close>

lemma fill_one_cases:
  assumes "fill_one now m b od = Inr (b', od')"
  obtains (skip) "b' = b" "od' = od"
    | (reject) "b' = b" "od' = od\<lparr>so_status := Rejected\<rparr>" "\<not> terminal (so_status od)"
        "so_symbol od \<in> set (sb_reject_symbols b)"
    | (buy) f x q where "so_qty od = Some f" "m (so_symbol od) = Some x" "is_triggered od x"
        "q = fill_quantity (sb_ratio b) od f" "0 < q" "so_side od = Buy" "q * x \<le> sb_cash b"
        "b' = buy_into (so_symbol od) q x b" "od' = record_fill now q f x od"
        "\<not> terminal (so_status od)" "so_symbol od \<notin> set (sb_reject_symbols b)"
    | (sell) f x q p where "so_qty od = Some f" "m (so_symbol od) = Some x" "is_triggered od x"
        "q = fill_quantity (sb_ratio b) od f" "0 < q" "so_side od = Sell"
        "map_of (sb_positions b) (so_symbol od) = Some p" "q \<le> sp_qty p"
        "b' = sell_from (so_symbol od) q x p b" "od' = record_fill now q f x od"
        "\<not> terminal (so_status od)" "so_symbol od \<notin> set (sb_reject_symbols b)"
proof (cases "terminal (so_status od) \<or> so_symbol od \<in> set (sb_reject_symbols b) \<or> m (so_symbol od) = None")
  case True
  with assms have "b' = b \<and> (od' = od \<or> od' = od\<lparr>so_status := Rejected\<rparr> \<and> \<not> terminal (so_status od) \<and>
      so_symbol od \<in> set (sb_reject_symbols b))"
    by (auto simp: fill_one_def Let_def split: if_splits)
  then show ?thesis using skip reject by blast
next
  case False
  then obtain x where f: "\<not> terminal (so_status od)" "so_symbol od \<notin> set (sb_reject_symbols b)"
      "m (so_symbol od) = Some x" by auto
  show ?thesis
  proof (cases "is_triggered od x")
    case False
    with f assms have "b' = b \<and> od' = od" by (simp add: fill_one_def Let_def)
    then show ?thesis by (intro skip) simp_all
  next
    case trig: True
    show ?thesis
    proof (cases "so_qty od")
      case None
      with f trig assms show ?thesis by (simp add: fill_one_def Let_def)
    next
      case (Some full)
      let ?q = "fill_quantity (sb_ratio b) od full"
      show ?thesis
      proof (cases "?q \<le> 0")
        case True
        with f trig Some assms have "b' = b \<and> od' = od" by (simp add: fill_one_def Let_def)
        then show ?thesis by (intro skip) simp_all
      next
        case nz: False
        show ?thesis
        proof (cases "so_side od")
          case Buy
          show ?thesis
          proof (cases "?q * x \<le> sb_cash b")
            case True
            with f trig Some nz Buy assms show ?thesis
              by (intro buy [of full x ?q]) (simp_all add: fill_one_def Let_def)
          next
            case False
            with f trig Some nz Buy assms have "b' = b \<and> od' = od" by (simp add: fill_one_def Let_def)
            then show ?thesis by (intro skip) simp_all
          qed
        next
          case Sell
          show ?thesis
          proof (cases "map_of (sb_positions b) (so_symbol od)")
            case None
            with f trig Some nz Sell assms have "b' = b \<and> od' = od" by (simp add: fill_one_def Let_def)
            then show ?thesis by (intro skip) simp_all
          next
            case pos: (Some p)
            show ?thesis
            proof (cases "?q \<le> sp_qty p")
              case True
              with f trig Some nz Sell pos assms show ?thesis
                by (intro sell [of full x ?q p]) (simp_all add: fill_one_def Let_def)
            next
              case False
              with f trig Some nz Sell pos assms have "b' = b \<and> od' = od" by (simp add: fill_one_def Let_def)
              then show ?thesis by (intro skip) simp_all
            qed
          qed
        qed
      qed
    qed
  qed
qed

lemma fill_quantity_le: "0 < fill_quantity r od f \<Longrightarrow> on_grid 6 f \<Longrightarrow> on_grid 6 (already_filled od)
    \<Longrightarrow> fill_quantity r od f \<le> f - already_filled od"
proof -
  assume *: "0 < fill_quantity r od f" "on_grid 6 f" "on_grid 6 (already_filled od)"
  let ?out = "f - already_filled od"
  have pos: "0 < ?out" and g: "on_grid 6 ?out"
    using * by (auto simp: fill_quantity_def Let_def on_grid_diff split: if_splits)
  have "py_round 6 (?out * x) \<le> ?out" if "0 < x" "x < 1" for x
    using that pos by (intro py_round_le_grid [OF g]) (simp add: mult_left_le)
  with pos show ?thesis by (auto simp: fill_quantity_def Let_def split: option.splits)
qed

lemma sim_order_ok_fill:
  assumes ok: "sim_order_ok od" and q: "so_qty od = Some f" "q = fill_quantity r od f" "0 < q"
  shows "sim_order_ok (record_fill now q f x od)"
proof -
  let ?t = "py_round 6 (already_filled od + q)"
  have a: "0 \<le> already_filled od" "on_grid 6 (already_filled od)"
    using ok by (auto simp: sim_order_ok_def)
  have new: "already_filled (record_fill now q f x od) = ?t"
    by (simp add: record_fill_def already_filled_def Let_def)
  have le: "?t \<le> f" if "on_grid 6 f"
    using fill_quantity_le [of r od f] q that a by (intro py_round_le_grid) auto
  have eq: "?t = f" if g: "on_grid 6 f" and c: "f \<le> ?t + 1 / 10 ^ 9"
  proof -
    obtain k where k: "f = of_int k / 10 ^ 6" using g by (rule on_gridE)
    obtain j where j: "?t = of_int j / 10 ^ 6" using on_grid_py_round by (rule on_gridE)
    from c k j have "of_int k \<le> of_int j + (1 / 10 ^ 3 :: real)" by (simp add: field_simps)
    then have "real_of_int k < of_int j + 1" by (rule le_less_trans) simp
    then have "k \<le> j" by linarith
    with le [OF g] k j show ?thesis by (simp add: field_simps)
  qed
  show ?thesis
    using a le eq q(3) unfolding sim_order_ok_def new
    by (auto simp: q(1) py_round_nonneg) (auto simp: record_fill_def Let_def split: if_splits)
qed

lemma fill_one_order_ok:
  "fill_one now m b od = Inr (b', od') \<Longrightarrow> sim_order_ok od \<Longrightarrow> sim_order_ok od'"
proof (erule fill_one_cases)
  assume "sim_order_ok od" "od' = od\<lparr>so_status := Rejected\<rparr>"
  then show "sim_order_ok od'"
    by (auto simp: sim_order_ok_def already_filled_def split: option.splits)
qed (auto intro: sim_order_ok_fill)

section \<open>Every operation keeps the invariant\<close>

lemma pos_ok_lookup: "sim_book_ok b \<Longrightarrow> map_of (sb_positions b) s = Some p \<Longrightarrow> pos_ok (s, p)"
  by (auto simp: sim_book_ok_def dest: map_of_SomeD)

lemma book_ok_buy:
  assumes "sim_book_ok b" "0 < q" "q * x \<le> sb_cash b"
  shows "sim_book_ok (buy_into s q x b)"
proof -
  let ?p = "case map_of (sb_positions b) s of
      Some p \<Rightarrow> p\<lparr>sp_avg_entry_price := (sp_qty p * sp_avg_entry_price p + q * x) / (sp_qty p + q),
                  sp_qty := sp_qty p + q, sp_current_price := x, sp_market_value := (sp_qty p + q) * x\<rparr>
    | None \<Rightarrow> DummyPosition s q x"
  have "pos_ok (s, ?p)"
  proof (cases "map_of (sb_positions b) s")
    case None
    with assms(2) show ?thesis by (simp add: pos_ok_def DummyPosition_def)
  next
    case (Some p)
    from pos_ok_lookup [OF assms(1) Some] assms(2) Some show ?thesis by (simp add: pos_ok_def)
  qed
  moreover have d: "dict_ok (sb_positions b)" "\<forall>e \<in> set (sb_positions b). pos_ok e"
    using assms(1) by (simp_all add: sim_book_ok_def)
  ultimately show ?thesis
    using dict_set_all [OF d(2), of s ?p] dict_ok_set [OF d(1), of s ?p] assms(3)
    by (simp add: sim_book_ok_def buy_into_def)
qed

lemma book_ok_sell:
  assumes "sim_book_ok b" "0 < q" "0 \<le> x" "map_of (sb_positions b) s = Some p"
  shows "sim_book_ok (sell_from s q x p b)"
proof -
  have "pos_ok (s, p)" using pos_ok_lookup [OF assms(1,4)] .
  let ?p = "p\<lparr>sp_qty := sp_qty p - q, sp_current_price := x, sp_market_value := (sp_qty p - q) * x\<rparr>"
  have d: "dict_ok (sb_positions b)" "\<forall>e \<in> set (sb_positions b). pos_ok e" "0 \<le> sb_cash b + q * x"
    using assms by (simp_all add: sim_book_ok_def)
  show ?thesis
  proof (cases "sp_qty p - q \<le> 0")
    case True
    with d dict_del_all [OF d(2), of s] dict_ok_del [OF d(1), of s] show ?thesis
      by (simp add: sim_book_ok_def sell_from_def)
  next
    case False
    with \<open>pos_ok (s, p)\<close> have "pos_ok (s, ?p)" by (simp add: pos_ok_def)
    with False d dict_set_all [OF d(2), of s ?p] dict_ok_set [OF d(1), of s ?p] show ?thesis
      by (simp add: sim_book_ok_def sell_from_def)
  qed
qed

lemma fill_one_book_ok:
  assumes "fill_one now m b od = Inr (b', od')" "sim_book_ok b" "\<And>s x. m s = Some x \<Longrightarrow> 0 \<le> x"
  shows "sim_book_ok b'"
  using assms(1)
proof (cases rule: fill_one_cases)
  case (buy f x q)
  with assms(2) show ?thesis by (simp add: book_ok_buy)
next
  case (sell f x q p)
  with assms(2,3) show ?thesis by (simp add: book_ok_sell)
qed (use assms(2) in simp_all)

text \<open>Purchases and sales at the market's prices move value between cash and positions only.\<close>

lemma value_buy:
  assumes "sim_book_ok b" "v s = x"
  shows "value_at v (buy_into s q x b) = value_at v b"
  using assms by (cases "map_of (sb_positions b) s")
    (simp_all add: value_at_def buy_into_def sum_dict_set sim_book_ok_def DummyPosition_def algebra_simps)

lemma value_sell:
  assumes "sim_book_ok b" "v s = x" "map_of (sb_positions b) s = Some p" "q \<le> sp_qty p"
  shows "value_at v (sell_from s q x p b) = value_at v b"
proof (cases "sp_qty p - q \<le> 0")
  case True
  with assms(4) have "sp_qty p = q" by simp
  with assms show ?thesis
    by (simp add: value_at_def sell_from_def sum_dict_del sim_book_ok_def)
next
  case False
  with assms show ?thesis
    by (simp add: value_at_def sell_from_def sum_dict_set sim_book_ok_def algebra_simps)
qed

lemma fill_one_value:
  assumes "fill_one now m b od = Inr (b', od')" "sim_book_ok b" "\<And>s x. m s = Some x \<Longrightarrow> v s = x"
  shows "value_at v b' = value_at v b"
  using assms(1)
proof (cases rule: fill_one_cases)
  case (buy f x q)
  with assms(2,3) show ?thesis by (simp add: value_buy)
next
  case (sell f x q p)
  with assms(2,3) show ?thesis by (simp add: value_sell)
qed simp_all

lemma fill_one_frame:
  assumes "fill_one now m b od = Inr (b', od')"
  shows "sb_orders b' = sb_orders b \<and> sb_ratio b' = sb_ratio b \<and> sb_reject_symbols b' = sb_reject_symbols b
    \<and> so_symbol od' = so_symbol od \<and> so_qty od' = so_qty od \<and> so_id od' = so_id od
    \<and> (terminal (so_status od) \<longrightarrow> b' = b \<and> od' = od)"
  using assms by (cases rule: fill_one_cases) simp_all

text \<open>One pass, and the operations made of passes.\<close>

lemma fill_pass_ok:
  assumes "fill_pass now m b ods = (b', ods', e)" "sim_book_ok b" "\<forall>od \<in> set ods. sim_order_ok od"
    "\<And>s x. m s = Some x \<Longrightarrow> 0 \<le> x" "\<And>s x. m s = Some x \<Longrightarrow> v s = x"
  shows "sim_book_ok b' \<and> (\<forall>od \<in> set ods'. sim_order_ok od) \<and> value_at v b' = value_at v b
    \<and> sb_orders b' = sb_orders b \<and> sb_ratio b' = sb_ratio b \<and> sb_reject_symbols b' = sb_reject_symbols b
    \<and> length ods' = length ods"
  using assms(1-3)
proof (induction ods arbitrary: b b' ods' e)
  case (Cons od ods)
  show ?case
  proof (cases "fill_one now m b od")
    case (Inl e')
    with Cons.prems show ?thesis by auto
  next
    case (Inr r)
    obtain b1 od1 where one: "fill_one now m b od = Inr (b1, od1)" using Inr by (cases r) simp
    obtain b2 ods2 e2 where rest: "fill_pass now m b1 ods = (b2, ods2, e2)" by (cases "fill_pass now m b1 ods") auto
    have "sim_book_ok b1" "value_at v b1 = value_at v b"
      using fill_one_book_ok [OF one] fill_one_value [OF one, of v] Cons.prems assms(4,5) by auto
    moreover have "sim_order_ok od1" using fill_one_order_ok [OF one] Cons.prems by simp
    ultimately show ?thesis
      using Cons.IH [OF rest] Cons.prems one rest fill_one_frame [OF one] by auto
  qed
qed auto

lemma process_orders_ok:
  assumes "sim_ok b" "\<And>s x. m s = Some x \<Longrightarrow> 0 \<le> x" "\<And>s x. m s = Some x \<Longrightarrow> v s = x"
  shows "sim_ok (fst (process_orders now m b)) \<and> value_at v (fst (process_orders now m b)) = value_at v b
    \<and> length (sb_orders (fst (process_orders now m b))) = length (sb_orders b)"
proof -
  obtain b' ods e where r: "fill_pass now m b (sb_orders b) = (b', ods, e)"
    by (cases "fill_pass now m b (sb_orders b)") auto
  from fill_pass_ok [OF r, of v] assms show ?thesis
    by (simp add: process_orders_def r sim_ok_def sim_book_ok_def value_at_def)
qed

text \<open>The operations a client can call, as one step on the broker.\<close>

datatype sim_op =
    Op_submit real "string \<Rightarrow> real option" string sim_request
  | Op_mark "string \<Rightarrow> real option"
  | Op_cancel_all
  | Op_cancel string

fun sim_apply :: "sim_op \<Rightarrow> sim_broker \<Rightarrow> sim_broker" where
  "sim_apply (Op_submit now m uid rq) b = fst (sim_submit now m uid rq b)"
| "sim_apply (Op_mark m) b = fst (mark_to_market m b)"
| "sim_apply Op_cancel_all b = cancel_orders b"
| "sim_apply (Op_cancel i) b = cancel_order_by_id i b"

text \<open>A live request: it carries no state of an order. The market's prices are not negative.\<close>

fun sim_op_ok :: "sim_op \<Rightarrow> bool" where
  "sim_op_ok (Op_submit now m uid rq) =
     ((\<forall>s x. m s = Some x \<longrightarrow> 0 \<le> x) \<and> rq_status rq = None \<and> rq_filled_qty rq = None)"
| "sim_op_ok _ = True"

lemma SimOrder_ok:
  "rq_status rq = None \<Longrightarrow> rq_filled_qty rq = None \<Longrightarrow> sim_order_ok (SimOrder rq uid now)"
  by (auto simp: sim_order_ok_def SimOrder_def already_filled_def split: option.splits)

lemma sim_submit_ok:
  assumes "sim_ok b" "sim_op_ok (Op_submit now m uid rq)" "\<And>s x. m s = Some x \<Longrightarrow> v s = x"
  shows "sim_ok (fst (sim_submit now m uid rq b)) \<and> value_at v (fst (sim_submit now m uid rq b)) = value_at v b
    \<and> length (sb_orders (fst (sim_submit now m uid rq b))) = Suc (length (sb_orders b))"
proof -
  let ?b1 = "b\<lparr>sb_orders := sb_orders b @ [SimOrder rq uid now]\<rparr>"
  have fst_eq: "fst (sim_submit now m uid rq b) = fst (process_orders now m ?b1)"
    by (simp add: sim_submit_def Let_def split: prod.splits option.splits)
  have "sim_ok ?b1" using assms(1,2) SimOrder_ok [of rq uid now] by (auto simp: sim_ok_def sim_book_ok_def)
  moreover have "value_at v ?b1 = value_at v b" by (simp add: value_at_def)
  moreover have "\<And>s x. m s = Some x \<Longrightarrow> 0 \<le> x" using assms(2) by simp
  ultimately show ?thesis unfolding fst_eq using process_orders_ok [of ?b1 m v now] assms(3) by simp
qed

lemma sim_mark_ok: "sim_ok b \<Longrightarrow> sim_ok (fst (mark_to_market m b))"
proof -
  assume ok: "sim_ok b"
  let ?f = "\<lambda>e. (fst e, case m (fst e) of None \<Rightarrow> snd e | Some x \<Rightarrow> mark x (snd e))"
  have new: "sb_positions (fst (mark_to_market m b)) = map ?f (sb_positions b)"
    by (simp add: mark_to_market_def case_prod_beta)
  have "pos_ok (?f e) = pos_ok e" for e by (simp add: pos_ok_def mark_def split: option.split)
  with ok show ?thesis
    unfolding sim_ok_def sim_book_ok_def new by (simp add: mark_to_market_def comp_def)
qed

lemma sim_order_ok_canceled: "sim_order_ok od \<Longrightarrow> sim_order_ok (od\<lparr>so_status := Canceled\<rparr>)"
  by (auto simp: sim_order_ok_def already_filled_def split: option.splits)

lemma sim_cancel_ok: "sim_ok b \<Longrightarrow> sim_ok (cancel_orders b) \<and> sim_ok (cancel_order_by_id i b)"
  by (auto simp: sim_ok_def sim_book_ok_def cancel_orders_def cancel_open_def cancel_order_by_id_def
      sim_order_ok_canceled)

lemma sim_apply_ok: "sim_ok b \<Longrightarrow> sim_op_ok p \<Longrightarrow> sim_ok (sim_apply p b)"
proof (cases p)
  case (Op_submit now m uid rq)
  assume "sim_ok b" "sim_op_ok p"
  then show ?thesis
    using sim_submit_ok [of b now m uid rq "\<lambda>s. case m s of Some x \<Rightarrow> x | None \<Rightarrow> 0"] Op_submit by simp
qed (simp_all add: sim_mark_ok sim_cancel_ok)

lemma sim_run_ok: "sim_ok b \<Longrightarrow> list_all sim_op_ok ps \<Longrightarrow> sim_ok (fold sim_apply ps b)"
  by (induction ps arbitrary: b) (simp_all add: sim_apply_ok)

lemma VirtualLiveBroker_ok [simp]: "sim_ok VirtualLiveBroker"
  by (simp add: sim_ok_def sim_book_ok_def VirtualLiveBroker_def)

section \<open>What the book promises\<close>

text \<open>
  C32: Whatever a run submits, cancels and re-prices, starting from a fresh broker: the cash never
  falls below zero, every position is a positive quantity, kept under its own symbol, and no order
  is ever filled beyond its quantity (a multiple of \<open>10^-6\<close>); a filled order is filled exactly.
\<close>

theorem replay_book_sound:
  assumes "list_all sim_op_ok ps" "b = fold sim_apply ps VirtualLiveBroker"
  shows "0 \<le> sb_cash b
    \<and> (\<forall>s p. map_of (sb_positions b) s = Some p \<longrightarrow> sp_symbol p = s \<and> 0 < sp_qty p)
    \<and> (\<forall>od \<in> set (sb_orders b). \<forall>q. so_qty od = Some q \<and> 0 \<le> q \<and> on_grid 6 q \<longrightarrow>
         already_filled od \<le> q \<and> (so_status od = Filled \<longrightarrow> already_filled od = q))"
proof -
  have ok: "sim_ok b" using sim_run_ok [OF VirtualLiveBroker_ok assms(1)] assms(2) by simp
  then have "pos_ok (s, p)" if "map_of (sb_positions b) s = Some p" for s p
    using pos_ok_lookup that by (auto simp: sim_ok_def)
  moreover have "0 \<le> sb_cash b" using ok by (simp add: sim_ok_def sim_book_ok_def)
  moreover have "sim_order_ok od" if "od \<in> set (sb_orders b)" for od
    using ok that by (simp add: sim_ok_def)
  ultimately show ?thesis by (fastforce simp: pos_ok_def sim_order_ok_def)
qed

definition example_request :: "string \<Rightarrow> seite \<Rightarrow> real \<Rightarrow> sim_request" where
  "example_request s side q =
     \<lparr>rq_id = None, rq_symbol = s, rq_side = side, rq_qty = Some q, rq_stop_price = None, rq_rest = [],
      rq_status = None, rq_filled_qty = None, rq_filled_avg_price = None, rq_filled_at = None,
      rq_is_seed = False\<rparr>"

lemma replay_book_sound_witness:
  "0 \<le> sb_cash (fold sim_apply
     [Op_submit 0 (\<lambda>s. Some 150) ''o1'' (example_request ''AAPL'' Buy 10), Op_mark (\<lambda>s. Some 160)] VirtualLiveBroker)"
  using replay_book_sound [of "[Op_submit 0 (\<lambda>s. Some 150) ''o1'' (example_request ''AAPL'' Buy 10),
      Op_mark (\<lambda>s. Some 160)]", OF _ refl]
  by (simp add: example_request_def)

text \<open>
  A submitted order, with every fill of the pass it triggers, only moves value between cash and
  positions: priced at the market the fills use, the book is worth what it was.
\<close>

theorem fills_create_no_value:
  assumes "sim_ok b" "sim_op_ok (Op_submit now m uid rq)" "\<And>s x. m s = Some x \<Longrightarrow> v s = x"
  shows "value_at v (sim_apply (Op_submit now m uid rq) b) = value_at v b"
  using sim_submit_ok [OF assms] by simp

lemma fills_create_no_value_witness:
  "value_at (\<lambda>s. 150) (sim_apply (Op_submit 0 (\<lambda>s. Some 150) ''o1'' (example_request ''AAPL'' Buy 10))
     VirtualLiveBroker) = 100000"
  using fills_create_no_value [of VirtualLiveBroker 0 "\<lambda>s. Some 150" "''o1''"
      "example_request ''AAPL'' Buy 10" "\<lambda>s. 150"]
  by (simp add: example_request_def value_at_def [of _ VirtualLiveBroker]) (simp add: VirtualLiveBroker_def)

text \<open>
  Closing all positions empties the book without selling it: its whole value is gone, the cash is
  what it was.
\<close>

theorem close_all_loses_the_book:
  "value_at v (close_all_positions b) = value_at v b - (\<Sum>(s, p) \<leftarrow> sb_positions b. sp_qty p * v s)"
  by (simp add: close_all_positions_def value_at_def)

section \<open>Fills at submission\<close>

lemma fill_one_terminal [simp]: "terminal (so_status od) \<Longrightarrow> fill_one now m b od = Inr (b, od)"
  by (simp add: fill_one_def)

lemma fill_pass_terminal:
  "\<forall>od \<in> set ods. terminal (so_status od) \<Longrightarrow>
     fill_pass now m b (ods @ [od]) =
       (case fill_one now m b od of Inl e \<Rightarrow> (b, ods @ [od], Some e) | Inr (b', od') \<Rightarrow> (b', ods @ [od'], None))"
  by (induction ods) (auto split: sum.splits)

lemma sim_submit_terminal:
  assumes "\<forall>od \<in> set (sb_orders b). terminal (so_status od)"
  shows "sim_submit now m uid rq b =
    (let b1 = b\<lparr>sb_orders := sb_orders b @ [SimOrder rq uid now]\<rparr>
     in case fill_one now m b1 (SimOrder rq uid now) of
          Inl e \<Rightarrow> (b1, Inl e)
        | Inr (b', od') \<Rightarrow> (b'\<lparr>sb_orders := sb_orders b @ [od']\<rparr>, Inr od'))"
  using fill_pass_terminal [OF assms]
  by (auto simp: sim_submit_def process_orders_def Let_def split: sum.split)

text \<open>
  With no other open order, no partial fill configured and enough cash, a market order over a
  positive multiple of \<open>10^-6\<close> is filled at submission: the answer is a filled order over exactly
  that quantity at the market's price, the cash pays for it and the position grows by it.
\<close>

theorem buy_fills_at_submission:
  assumes "\<forall>od \<in> set (sb_orders b). terminal (so_status od)" "m s = Some x" "0 < q" "on_grid 6 q"
    "q * x \<le> sb_cash b" "s \<notin> set (sb_reject_symbols b)" "ratio_of (sb_ratio b) s = None"
    "sim_submit now m uid (example_request s Buy q) b = (b', r)"
  shows "\<exists>od. r = Inr od \<and> so_status od = Filled \<and> so_filled_qty od = Some q \<and> so_filled_avg_price od = Some x
    \<and> sb_cash b' = sb_cash b - q * x
    \<and> (\<exists>p. map_of (sb_positions b') s = Some p
          \<and> sp_qty p = (case map_of (sb_positions b) s of Some p0 \<Rightarrow> sp_qty p0 | None \<Rightarrow> 0) + q)"
proof -
  let ?od = "SimOrder (example_request s Buy q) uid now"
  let ?b1 = "b\<lparr>sb_orders := sb_orders b @ [?od]\<rparr>"
  have o: "so_symbol ?od = s" "so_side ?od = Buy" "so_qty ?od = Some q" "so_stop_price ?od = None"
      "so_status ?od = Accepted" "already_filled ?od = 0"
    by (simp_all add: SimOrder_def example_request_def already_filled_def)
  have q: "fill_quantity (sb_ratio b) ?od q = q"
    using assms(3,7) by (simp add: fill_quantity_def o Let_def)
  have one: "fill_one now m ?b1 ?od = Inr (buy_into s q x ?b1, record_fill now q q x ?od)"
    using assms by (simp add: fill_one_def o q is_triggered_def)
  have "b' = (buy_into s q x ?b1)\<lparr>sb_orders := sb_orders b @ [record_fill now q q x ?od]\<rparr>"
      "r = Inr (record_fill now q q x ?od)"
    using assms(8) by (simp_all add: sim_submit_terminal [OF assms(1)] one)
  moreover have "py_round 6 q = q" using assms(4) by (rule py_round_on_grid)
  ultimately show ?thesis
    by (auto simp: record_fill_def o buy_into_def DummyPosition_def split: option.split)
qed

lemma buy_fills_at_submission_witness:
  "\<exists>od. snd (sim_submit 0 (\<lambda>s. Some 150) ''o1'' (example_request ''AAPL'' Buy 10) VirtualLiveBroker) = Inr od
     \<and> so_status od = Filled"
  using buy_fills_at_submission [OF _ _ _ _ _ _ _ surjective_pairing,
      of VirtualLiveBroker "\<lambda>s. Some 150" "''AAPL''" 150 10 0 "''o1''"]
  by (auto simp: VirtualLiveBroker_def ratio_of_def on_grid_def)

section \<open>Partial fills that never finish\<close>

text \<open>
  A share of at most one half of what is outstanding: of one unit (\<open>10^-6\<close>) it rounds to nothing, so
  at least one unit stays.
\<close>

definition stalls :: "sim_order \<Rightarrow> bool" where
  "stalls od = (so_status od \<noteq> Filled \<and> on_grid 6 (already_filled od) \<and>
     (\<exists>q. so_qty od = Some q \<and> on_grid 6 q \<and> already_filled od < q))"

lemma half_round_leaves_a_unit:
  assumes "on_grid 6 out" "0 < out" "x \<le> 1 / 2"
  shows "py_round 6 (out * x) < out"
proof -
  obtain k where k: "out = of_int k / 10 ^ 6" using assms(1) by (rule on_gridE)
  have "0 < k" using assms(2) k by (simp add: zero_less_divide_iff)
  have e: "out * x * 10 ^ 6 = of_int k * x" by (simp add: k)
  have le: "of_int k * x \<le> of_int k / 2"
    using mult_left_mono [OF assms(3), of "of_int k"] \<open>0 < k\<close> by simp
  have "round_half_even (of_int k * x) \<le> k - 1"
  proof (cases "k = 1")
    case True
    have "round_half_even x \<le> 0"
    proof (cases "x = 1 / 2")
      case True
      have "\<lfloor>1 / 2 :: real\<rfloor> = 0" by simp
      then show ?thesis unfolding True by (simp only: round_half_even_def Let_def) simp
    next
      case False
      with assms(3) have "x < of_int 0 + 1 / 2" by simp
      then show ?thesis by (rule round_half_even_less)
    qed
    with True show ?thesis by simp
  next
    case False
    with \<open>0 < k\<close> have "2 \<le> k" by simp
    then have "of_int k / 2 \<le> (of_int (k - 1) :: real)" by simp
    with le show ?thesis by (intro round_half_even_le_int) linarith
  qed
  then show ?thesis by (simp add: py_round_def e k divide_strict_right_mono)
qed

lemma stalls_fill_one:
  assumes "fill_one now m b od = Inr (b', od')" "stalls od"
    "ratio_of (sb_ratio b) (so_symbol od) = Some x" "0 < x" "x \<le> 1 / 2"
  shows "stalls od'"
proof -
  obtain q where q: "so_qty od = Some q" "on_grid 6 q" "already_filled od < q"
    and g: "on_grid 6 (already_filled od)"
    using assms(2) by (auto simp: stalls_def)
  let ?out = "q - already_filled od"
  have fq: "fill_quantity (sb_ratio b) od q = py_round 6 (?out * x)"
    using assms(3-5) q by (simp add: fill_quantity_def Let_def)
  have lt: "py_round 6 (?out * x) < ?out"
    using q g assms(5) by (intro half_round_leaves_a_unit) (auto intro: on_grid_diff)
  let ?t = "py_round 6 (already_filled od + py_round 6 (?out * x))"
  have t: "?t = already_filled od + py_round 6 (?out * x)"
    by (intro py_round_on_grid on_grid_add g on_grid_py_round)
  have unit: "?t + 1 / 10 ^ 9 < q"
  proof -
    obtain j where j: "?t = of_int j / 10 ^ 6" using on_grid_py_round by (rule on_gridE)
    obtain k where k: "q = of_int k / 10 ^ 6" using q(2) by (rule on_gridE)
    have "of_int j < (of_int k :: real)" using lt t j k by (simp add: divide_less_cancel)
    then have "j + 1 \<le> k" by simp
    then have "real_of_int j + 1 \<le> of_int k" by linarith
    then have "(real_of_int j + 1) / 10 ^ 6 \<le> of_int k / 10 ^ 6" by (rule divide_right_mono) simp
    moreover have "?t + 1 / 10 ^ 6 = (of_int j + 1) / 10 ^ 6" unfolding j by (simp add: add_divide_distrib)
    ultimately have "?t + 1 / 10 ^ 6 \<le> q" unfolding k [symmetric] by (simp only:)
    then show ?thesis by (rule less_le_trans [rotated]) simp
  qed
  have rec: "stalls (record_fill now (fill_quantity (sb_ratio b) od q) q y od)" for y
    using unit q(1,2) by (simp add: stalls_def record_fill_def fq Let_def already_filled_def)
  show ?thesis
    using assms(1)
  proof (cases rule: fill_one_cases)
    case reject
    with assms(2) show ?thesis by (simp add: stalls_def already_filled_def)
  qed (use assms(2) q(1) rec in auto)
qed

lemma stalls_fill_pass:
  assumes "fill_pass now m b ods = (b', ods', e)" "\<forall>od \<in> set ods. so_symbol od = s \<longrightarrow> stalls od"
    "ratio_of (sb_ratio b) s = Some x" "0 < x" "x \<le> 1 / 2"
  shows "(\<forall>od \<in> set ods'. so_symbol od = s \<longrightarrow> stalls od) \<and> sb_ratio b' = sb_ratio b"
  using assms(1-3)
proof (induction ods arbitrary: b b' ods' e)
  case (Cons od ods)
  show ?case
  proof (cases "fill_one now m b od")
    case (Inl e')
    with Cons.prems show ?thesis by auto
  next
    case (Inr r)
    obtain b1 od1 where one: "fill_one now m b od = Inr (b1, od1)" using Inr by (cases r) simp
    obtain b2 ods2 e2 where rest: "fill_pass now m b1 ods = (b2, ods2, e2)" by (cases "fill_pass now m b1 ods") auto
    have "so_symbol od = s \<longrightarrow> stalls od1"
      using stalls_fill_one [OF one _ _ assms(4,5)] Cons.prems(2,3) by auto
    then show ?thesis
      using Cons.IH [OF rest] Cons.prems one rest fill_one_frame [OF one] by auto
  qed
qed auto

definition sim_passes :: "(real \<times> (string \<Rightarrow> real option)) list \<Rightarrow> sim_broker \<Rightarrow> sim_broker" where
  "sim_passes = fold (\<lambda>(now, m) b. fst (process_orders now m b))"

text \<open>
  With a partial fill of at most one half configured for a symbol, its open orders (over a
  multiple of \<open>10^-6\<close>) are never completely filled, however many passes the engine makes over them:
  the last unit rounds to nothing each time.
\<close>

theorem half_ratio_never_completes:
  assumes "ratio_of (sb_ratio b) s = Some x" "0 < x" "x \<le> 1 / 2"
    "\<forall>od \<in> set (sb_orders b). so_symbol od = s \<longrightarrow> stalls od"
  shows "\<forall>od \<in> set (sb_orders (sim_passes ps b)). so_symbol od = s \<longrightarrow> so_status od \<noteq> Filled"
proof -
  have "(\<forall>od \<in> set (sb_orders (sim_passes ps b)). so_symbol od = s \<longrightarrow> stalls od)"
    using assms(1,4)
  proof (induction ps arbitrary: b)
    case (Cons p ps)
    obtain now m where p: "p = (now, m)" by (cases p)
    obtain b' ods e where r: "fill_pass now m b (sb_orders b) = (b', ods, e)"
      by (cases "fill_pass now m b (sb_orders b)") auto
    from stalls_fill_pass [OF r Cons.prems(2,1) assms(2,3)] Cons.prems
      Cons.IH [of "b'\<lparr>sb_orders := ods\<rparr>"]
    show ?case by (simp add: sim_passes_def p process_orders_def r)
  qed (simp add: sim_passes_def)
  then show ?thesis by (auto simp: stalls_def)
qed

definition example_open_order :: sim_order where
  "example_open_order = SimOrder (example_request ''AAPL'' Buy 10) ''o1'' 0"

lemma half_ratio_never_completes_witness:
  "\<forall>od \<in> set (sb_orders (sim_passes [(1, \<lambda>s. Some 150), (2, \<lambda>s. Some 151)]
     (VirtualLiveBroker\<lparr>sb_ratio := RatioAll (1 / 2), sb_orders := [example_open_order]\<rparr>))).
     so_symbol od = ''AAPL'' \<longrightarrow> so_status od \<noteq> Filled"
proof -
  have "stalls example_open_order"
    by (simp add: stalls_def example_open_order_def SimOrder_def example_request_def already_filled_def on_grid_def)
  then show ?thesis
    using half_ratio_never_completes [of "VirtualLiveBroker\<lparr>sb_ratio := RatioAll (1 / 2),
      sb_orders := [example_open_order]\<rparr>" "''AAPL''" "1 / 2"] by (simp add: ratio_of_def)
qed

section \<open>The quantity a liquidation reads\<close>

text \<open>
  The position as the liquidation reads it: \<open>qty_available\<close> first (\<open>menge\<close>). The fill engine never
  updates that attribute.
\<close>

definition as_position :: "sim_position \<Rightarrow> position" where
  "as_position p = \<lparr>ps_symbol = sp_symbol p, ps_qty_available = Wert (Zahl (sp_qty_available p)),
     ps_qty = Wert (Zahl (sp_qty p))\<rparr>"

lemma sell_keeps_available:
  "map_of (sb_positions (sell_from s q x p b)) s = Some p' \<Longrightarrow>
     sp_qty_available p' = sp_qty_available p \<and> sp_qty p' = sp_qty p - q"
  by (auto simp: sell_from_def split: if_splits)

text \<open>
  After a partial sale of a simulated position, a liquidation of the rest asks for the quantity
  the position had when it was opened: the sale is not filled, the position and the cash stay.
\<close>

theorem partial_sale_blocks_liquidation:
  assumes "sim_book_ok b" "map_of (sb_positions b) s = Some p" "sp_qty_available p = sp_qty p"
    "0 < q" "q < sp_qty p" "b1 = (sell_from s q x p b)\<lparr>sb_orders := ods\<rparr>"
    "\<forall>od \<in> set ods. terminal (so_status od)" "ratio_of (sb_ratio b) s = None"
    "map_of (sb_positions b1) s = Some p1"
    "sim_submit now m uid (example_request s Sell (menge (as_position p1))) b1 = (b2, r)"
  shows "sp_qty p1 < menge (as_position p1) \<and> sb_cash b2 = sb_cash b1 \<and> sb_positions b2 = sb_positions b1
    \<and> (\<forall>od. r = Inr od \<longrightarrow> so_status od \<noteq> Filled)"
proof -
  have "map_of (sb_positions (sell_from s q x p b)) s = Some p1" using assms(6,9) by simp
  then have p1: "sp_qty_available p1 = sp_qty p" "sp_qty p1 = sp_qty p - q"
    using sell_keeps_available assms(3) by auto
  then have mq: "menge (as_position p1) = sp_qty p"
    using assms(4,5) by (simp add: menge_def as_position_def)
  let ?od = "SimOrder (example_request s Sell (sp_qty p)) uid now"
  let ?b = "b1\<lparr>sb_orders := ods @ [?od]\<rparr>"
  have o: "so_symbol ?od = s" "so_side ?od = Sell" "so_qty ?od = Some (sp_qty p)" "so_stop_price ?od = None"
      "so_status ?od = Accepted" "already_filled ?od = 0"
    by (simp_all add: SimOrder_def example_request_def already_filled_def)
  have b1: "sb_ratio b1 = sb_ratio b" "sb_orders b1 = ods" using assms(6) by simp_all
  have fq: "fill_quantity (sb_ratio b) ?od (sp_qty p) = sp_qty p"
    using assms(4,5,8) by (simp add: fill_quantity_def o Let_def)
  have "fill_one now m ?b ?od = Inr (?b, ?od) \<or> fill_one now m ?b ?od = Inr (?b, ?od\<lparr>so_status := Rejected\<rparr>)"
    using assms(4,5,9) p1 by (simp add: fill_one_def o fq b1 is_triggered_def Let_def split: option.split)
  then show ?thesis
    using assms(4,10) p1(2) mq o(5) sim_submit_terminal [of b1 now m uid "example_request s Sell (sp_qty p)"]
      assms(7) by (auto simp: b1 Let_def)
qed

lemma partial_sale_blocks_liquidation_witness:
  "sp_qty (DummyPosition ''AAPL'' 6 150) < menge (as_position ((DummyPosition ''AAPL'' 10 150)\<lparr>sp_qty := 6,
     sp_current_price := 150, sp_market_value := 900\<rparr>))"
proof -
  let ?p = "DummyPosition ''AAPL'' 10 150"
  let ?b = "VirtualLiveBroker\<lparr>sb_positions := [(''AAPL'', ?p)]\<rparr>"
  show ?thesis
    using partial_sale_blocks_liquidation [OF _ _ _ _ _ refl _ _ _ surjective_pairing,
        of ?b "''AAPL''" ?p 4 "[]" 150 "?p\<lparr>sp_qty := 6, sp_current_price := 150, sp_market_value := 900\<rparr>"]
    by (simp add: VirtualLiveBroker_def ratio_of_def sim_book_ok_def pos_ok_def DummyPosition_def sell_from_def)
qed

section \<open>An order without a quantity\<close>

text \<open>
  An open order over an amount of money only (\<open>notional\<close>, no \<open>qty\<close>) makes every pass raise once its
  symbol has a price: no later order can be submitted any more.
\<close>

lemma fill_pass_raises:
  assumes "od \<in> set ods" "so_qty od = None" "\<not> terminal (so_status od)" "so_stop_price od = None"
    "so_symbol od \<notin> set (sb_reject_symbols b)" "m (so_symbol od) = Some x"
    "fill_pass now m b ods = (b', ods', e)"
  shows "e = Some AttributeError"
  using assms(1,5,7)
proof (induction ods arbitrary: b b' ods' e)
  case (Cons a ods)
  show ?case
  proof (cases "fill_one now m b a")
    case (Inl e')
    then have "e' = AttributeError" by (auto simp: fill_one_def Let_def split: if_splits option.splits)
    with Inl Cons.prems show ?thesis by auto
  next
    case (Inr r)
    obtain b1 a1 where one: "fill_one now m b a = Inr (b1, a1)" using Inr by (cases r) simp
    have "a \<noteq> od"
    proof
      assume "a = od"
      with one assms(2-4,6) Cons.prems(2) show False by (simp add: fill_one_def is_triggered_def)
    qed
    moreover obtain b2 ods2 e2 where rest: "fill_pass now m b1 ods = (b2, ods2, e2)"
      by (cases "fill_pass now m b1 ods") auto
    ultimately show ?thesis
      using Cons.IH [OF _ _ rest] Cons.prems one fill_one_frame [OF one] by auto
  qed
qed simp

theorem notional_order_blocks_the_broker:
  assumes "od \<in> set (sb_orders b)" "so_qty od = None" "\<not> terminal (so_status od)" "so_stop_price od = None"
    "so_symbol od \<notin> set (sb_reject_symbols b)" "m (so_symbol od) = Some x"
  shows "snd (sim_submit now m uid rq b) = Inl AttributeError"
proof -
  let ?b1 = "b\<lparr>sb_orders := sb_orders b @ [SimOrder rq uid now]\<rparr>"
  obtain b' ods e where r: "fill_pass now m ?b1 (sb_orders ?b1) = (b', ods, e)"
    by (cases "fill_pass now m ?b1 (sb_orders ?b1)") auto
  have "e = Some AttributeError"
    by (rule fill_pass_raises [of od "sb_orders ?b1" ?b1 m x now b' ods e]) (use assms r in auto)
  with r show ?thesis by (simp add: sim_submit_def process_orders_def Let_def)
qed

end
