(* ===== verification/Sim_Replay.thy ===== *)
theory Sim_Replay
  imports Sim_Broker
begin

text \<open>
  The replay around the simulated broker: the bars it serves at a point in simulated time
  (\<open>core/sim/data_client.py\<close> over \<open>ReplayBarsProvider\<close>), its clock (\<open>core/sim/clock.py\<close>), the wait of
  the runner and the selection of the days (\<open>core/sim/runner.py\<close>), the recorder of the equity curve
  and the figures of the result (\<open>core/sim/recorder.py\<close>, \<open>core/sim/result.py\<close>).

  Times are seconds of the naive market time; a day is the number of its midnight. All times of a
  replay are in one zone, so that the comparisons of the code are those of these numbers.
\<close>

section \<open>Bars at a point in time\<close>

record bar =
  bar_ts :: real
  bar_open :: real
  bar_high :: real
  bar_low :: real
  bar_close :: real
  bar_volume :: real

text \<open>The frames of the corpus, each sorted by time; \<open>None\<close> is a symbol without a file.\<close>

type_synonym corpus = "string \<Rightarrow> bar list option"

definition replay_get_data :: "corpus \<Rightarrow> string \<Rightarrow> real \<Rightarrow> real \<Rightarrow> bar list" where
  "replay_get_data c s end_date days =
     (case c (str_upper s) of
        None \<Rightarrow> []
      | Some f \<Rightarrow> filter (\<lambda>b. end_date - days * 86400 \<le> bar_ts b \<and> bar_ts b \<le> end_date) f)"

definition midnight :: "real \<Rightarrow> real" where
  "midnight now = of_int \<lfloor>now / 86400\<rfloor> * 86400"

text \<open>\<open>get_stock_bars\<close> for one symbol: a daily request and any other.\<close>

definition daily_bars :: "corpus \<Rightarrow> real \<Rightarrow> string \<Rightarrow> bar list" where
  "daily_bars c now s =
     filter (\<lambda>b. bar_ts b < midnight now) (replay_get_data c s (midnight now) 100000)"

definition intraday_bars :: "corpus \<Rightarrow> real \<Rightarrow> string \<Rightarrow> bar list" where
  "intraday_bars c now s = replay_get_data c s now 100000"

text \<open>The price of a fill and of a mark: the last close of the minute request.\<close>

definition replay_market :: "corpus \<Rightarrow> real \<Rightarrow> string \<Rightarrow> real option" where
  "replay_market c now s =
     (case intraday_bars c now s of [] \<Rightarrow> None | bs \<Rightarrow> Some (bar_close (last bs)))"

text \<open>\<open>get_stock_snapshot\<close> for one symbol: the latest price and the daily reference bar.\<close>

definition replay_snapshot :: "corpus \<Rightarrow> real \<Rightarrow> string \<Rightarrow> (real \<times> bar) option" where
  "replay_snapshot c now s =
     (let full = replay_get_data c (str_upper s) now 100000;
          prior = filter (\<lambda>b. bar_ts b < midnight now) full;
          today = filter (\<lambda>b. \<not> bar_ts b < midnight now) full
      in if full = [] then None
         else if prior \<noteq> []
         then Some (if today \<noteq> [] then bar_open (last today) else bar_close (last prior), last prior)
         else let x = bar_open (last today)
              in Some (x, \<lparr>bar_ts = bar_ts (last today), bar_open = x, bar_high = x, bar_low = x,
                           bar_close = x, bar_volume = 0\<rparr>))"

section \<open>The clock\<close>

definition ws :: "char \<Rightarrow> bool" where
  "ws c = ((of_char c :: nat) \<in> {9, 10, 11, 12, 13, 28, 29, 30, 31, 32})"

definition lower_char :: "char \<Rightarrow> char" where
  "lower_char c = (let n = of_char c :: nat in if 65 \<le> n \<and> n \<le> 90 then char_of (n + 32) else c)"

definition unit_seconds :: "char \<Rightarrow> nat option" where
  "unit_seconds c = map_of [(CHR ''s'', 1), (CHR ''m'', 60), (CHR ''h'', 3600)] c"

text \<open>
  The pattern of a cadence, blanks, digits, blanks, a unit, blanks, matched from its end. What
  does not match is one minute.
\<close>

definition parse_cadence :: "string \<Rightarrow> nat" where
  "parse_cadence s =
     (case dropWhile ws (rev (map lower_char s)) of
        [] \<Rightarrow> 60
      | u # r \<Rightarrow>
          (let n = dropWhile ws (rev (dropWhile ws r))
           in case unit_seconds u of
                None \<Rightarrow> 60
              | Some k \<Rightarrow> if n \<noteq> [] \<and> list_all ist_ziffer n then lies_dez n * k else 60))"

record sim_clock =
  ck_cadence :: real
  ck_from :: real
  ck_to :: real
  ck_start_time :: real
  ck_end_time :: real
  ck_current_time :: real
  ck_first_day :: int
  ck_days :: "int list"
  ck_days_completed :: nat
  ck_n_days :: nat

definition day_time :: "int \<Rightarrow> real \<Rightarrow> real" where
  "day_time d t = of_int d * 86400 + t"

definition SimClock :: "int \<Rightarrow> real \<Rightarrow> real \<Rightarrow> real \<Rightarrow> sim_clock" where
  "SimClock d from_t to_t cadence =
     \<lparr>ck_cadence = cadence, ck_from = from_t, ck_to = to_t, ck_start_time = day_time d from_t,
      ck_end_time = day_time d to_t, ck_current_time = day_time d from_t, ck_first_day = d,
      ck_days = [], ck_days_completed = 1, ck_n_days = 1\<rparr>"

text \<open>\<open>None\<close>: a list with a value that is no day. The number is what the method returns.\<close>

definition set_trading_days :: "int list option \<Rightarrow> sim_clock \<Rightarrow> sim_clock \<times> nat" where
  "set_trading_days days ck =
     (case days of
        None \<Rightarrow> (ck, 1)
      | Some ds \<Rightarrow>
          (case sort (remdups ds) of
             [] \<Rightarrow> (ck, ck_n_days ck)
           | first # rest \<Rightarrow>
               (let ck1 = (if first \<noteq> ck_first_day ck
                           then ck\<lparr>ck_first_day := first,
                                   ck_start_time := day_time first (ck_from ck),
                                   ck_end_time := day_time first (ck_to ck),
                                   ck_current_time := day_time first (ck_from ck)\<rparr>
                           else ck)
                in (ck1\<lparr>ck_days := rest, ck_days_completed := 1, ck_n_days := 1 + length rest\<rparr>,
                    1 + length rest))))"

text \<open>\<open>advance\<close>: the clock and the day the callback \<open>on_new_day\<close> gets, if the step rolled over.\<close>

definition advance :: "sim_clock \<Rightarrow> sim_clock \<times> int option" where
  "advance ck =
     (let ck1 = ck\<lparr>ck_current_time := ck_current_time ck + ck_cadence ck\<rparr>
      in if ck_current_time ck1 \<le> ck_end_time ck1 then (ck1, None)
         else case ck_days ck1 of
                [] \<Rightarrow> (ck1, None)
              | d # ds \<Rightarrow>
                  (ck1\<lparr>ck_days := ds, ck_start_time := day_time d (ck_from ck1),
                       ck_end_time := day_time d (ck_to ck1),
                       ck_current_time := day_time d (ck_from ck1),
                       ck_days_completed := Suc (ck_days_completed ck1)\<rparr>, Some d))"

definition is_open :: "sim_clock \<Rightarrow> bool" where
  "is_open ck = (ck_start_time ck \<le> ck_current_time ck \<and> ck_current_time ck \<le> ck_end_time ck)"

text \<open>
  The end of a cycle under simulation (\<open>_zyklusgrenze\<close>): the clock advances, the cycle is counted,
  and the run is complete once the clock is closed. \<open>None\<close>: the loop never ends.
\<close>

partial_function (option) run_cycles :: "sim_clock \<Rightarrow> nat \<Rightarrow> (sim_clock \<times> nat) option" where
  "run_cycles ck n =
     (let ck' = fst (advance ck) in if is_open ck' then run_cycles ck' (Suc n) else Some (ck', Suc n))"

section \<open>The runner\<close>

definition corpus_trading_days :: "bar list list \<Rightarrow> int list" where
  "corpus_trading_days fs = sort (remdups (map (\<lambda>b. \<lfloor>bar_ts b / 86400\<rfloor>) (concat fs)))"

definition select_replay_days :: "int list \<Rightarrow> int option \<Rightarrow> int \<Rightarrow> int list" where
  "select_replay_days all_days start n_days =
     (if all_days = [] then []
      else let n = nat (max 1 n_days)
           in case start of
                None \<Rightarrow> drop (length all_days - n) all_days
              | Some d \<Rightarrow> (let later = filter (\<lambda>x. d \<le> x) all_days
                         in if later = [] then [d] else take n later))"

definition effective_timeout :: "real option \<Rightarrow> int \<Rightarrow> real" where
  "effective_timeout timeout_s n_days =
     (case timeout_s of Some t \<Rightarrow> t | None \<Rightarrow> 300 * of_int (max 1 n_days))"

datatype wait_reason = Complete | Halted | Timeout

text \<open>
  One poll of the runner: what it sees of the engine and the clock of the machine. The second
  component of the state is \<open>_HALT_SEEN\<close> of this engine.
\<close>

record poll =
  po_complete :: bool
  po_shutdown :: bool
  po_cycles :: int
  po_time :: real

definition halt_karenz :: real where "halt_karenz = 1"

definition sim_wait_reason :: "real \<Rightarrow> real \<Rightarrow> poll \<Rightarrow> real option \<Rightarrow> wait_reason option \<times> real option" where
  "sim_wait_reason t0 budget po seen =
     (if po_complete po then (Some Complete, seen)
      else if po_shutdown po then
        (if po_cycles po \<le> 0 then (None, None)
         else let since = (case seen of Some t \<Rightarrow> t | None \<Rightarrow> po_time po)
              in (if halt_karenz \<le> po_time po - since then Some Halted else None, Some since))
      else (if budget < po_time po - t0 then Some Timeout else None, None))"

text \<open>The wait of \<open>run_sim\<close> over the polls it makes: the first reason, if any.\<close>

fun sim_wait :: "real \<Rightarrow> real \<Rightarrow> poll list \<Rightarrow> real option \<Rightarrow> wait_reason option" where
  "sim_wait t0 budget [] seen = None"
| "sim_wait t0 budget (po # pos) seen =
     (case sim_wait_reason t0 budget po seen of
        (Some r, _) \<Rightarrow> Some r
      | (None, seen') \<Rightarrow> sim_wait t0 budget pos seen')"

section \<open>The starting book\<close>

text \<open>\<open>_prior_close\<close>: the last close before the day of \<open>before_ts\<close>.\<close>

definition prior_close :: "corpus \<Rightarrow> string \<Rightarrow> real \<Rightarrow> real option" where
  "prior_close c s before_ts =
     (case c (str_upper s) of
        None \<Rightarrow> None
      | Some f \<Rightarrow> (case filter (\<lambda>b. bar_ts b < midnight before_ts) f of
                    [] \<Rightarrow> None | prior \<Rightarrow> Some (bar_close (last prior))))"

definition seed_order :: "string \<Rightarrow> string \<Rightarrow> real \<Rightarrow> real \<Rightarrow> real \<Rightarrow> sim_order" where
  "seed_order uid s qty px entry_ts =
     \<lparr>so_id = uid, so_symbol = s, so_side = Buy, so_qty = Some qty, so_stop_price = None, so_rest = [],
      so_status = Filled, so_submitted_at = entry_ts, so_filled_qty = Some qty,
      so_filled_avg_price = Some px, so_filled_at = Some entry_ts, so_is_seed = True\<rparr>"

text \<open>One entry of the seed; \<open>uid\<close> is the fresh identifier of its order.\<close>

definition seed_one :: "corpus \<Rightarrow> sim_clock \<Rightarrow> string \<times> string \<times> real \<Rightarrow> sim_broker \<Rightarrow> sim_broker" where
  "seed_one c ck e b =
     (case e of (uid, s0, qty) \<Rightarrow>
        (case prior_close c s0 (ck_start_time ck) of
           None \<Rightarrow> b
         | Some px \<Rightarrow>
             (let s = str_upper s0
              in b\<lparr>sb_positions := dict_set s (DummyPosition s qty px) (sb_positions b),
                   sb_cash := sb_cash b - qty * px,
                   sb_orders := sb_orders b @ [seed_order uid s qty px (ck_start_time ck - 86400)]\<rparr>)))"

definition seed_positions :: "corpus \<Rightarrow> sim_clock \<Rightarrow> (string \<times> string \<times> real) list \<Rightarrow> sim_broker \<Rightarrow> sim_broker" where
  "seed_positions c ck = fold (seed_one c ck)"

section \<open>The equity curve\<close>

record equity_point =
  ep_date :: string
  ep_equity :: real
  ep_cash :: real
  ep_n_positions :: nat

fun put_point :: "equity_point \<Rightarrow> equity_point list \<Rightarrow> equity_point list" where
  "put_point x [] = [x]"
| "put_point x (y # ys) = (if ep_date y = ep_date x then x # ys else y # put_point x ys)"

definition record_daily_equity :: "bool \<Rightarrow> equity_point \<Rightarrow> equity_point list \<Rightarrow> equity_point list" where
  "record_daily_equity active x ps = (if active then put_point x ps else ps)"

text \<open>\<open>daily_returns_pct\<close>: no return after a day whose equity is 0.\<close>

definition daily_returns_pct :: "real list \<Rightarrow> real list" where
  "daily_returns_pct curve =
     map (\<lambda>i. py_round 4 ((curve ! i / curve ! (i - 1) - 1) * 100))
       (filter (\<lambda>i. curve ! (i - 1) \<noteq> 0) [1..<length curve])"

fun drawdown_loop :: "real \<Rightarrow> real \<Rightarrow> real list \<Rightarrow> real" where
  "drawdown_loop peak worst [] = worst"
| "drawdown_loop peak worst (x # xs) =
     (let peak' = max peak x
      in drawdown_loop peak' (if peak' \<noteq> 0 then min worst ((x / peak' - 1) * 100) else worst) xs)"

definition max_drawdown_pct :: "real list \<Rightarrow> real option" where
  "max_drawdown_pct curve =
     (if length curve < 2 then None else Some (py_round 4 (drawdown_loop (hd curve) 0 (tl curve))))"

definition pnl :: "real \<Rightarrow> real \<Rightarrow> real" where
  "pnl starting ending = py_round 2 (ending - starting)"

definition pnl_pct :: "real \<Rightarrow> real \<Rightarrow> real" where
  "pnl_pct starting ending = (if starting \<noteq> 0 then py_round 4 ((ending / starting - 1) * 100) else 0)"

section \<open>What a decision may see\<close>

text \<open>
  The part of a frame that is known at \<open>now\<close>: the bars of earlier days, and of today's bars up to
  \<open>now\<close> the time and the opening price.
\<close>

definition blind :: "real \<Rightarrow> bar \<Rightarrow> bar" where
  "blind now b = (if bar_ts b < midnight now then b
                  else b\<lparr>bar_high := 0, bar_low := 0, bar_close := 0, bar_volume := 0\<rparr>)"

definition visible :: "real \<Rightarrow> bar list \<Rightarrow> bar list" where
  "visible now f = map (blind now) (filter (\<lambda>b. bar_ts b \<le> now) f)"

definition visible_corpus :: "real \<Rightarrow> corpus \<Rightarrow> corpus" where
  "visible_corpus now c s = map_option (visible now) (c s)"

lemma midnight_le: "midnight now \<le> now"
proof -
  have "of_int \<lfloor>now / 86400\<rfloor> \<le> now / 86400" by linarith
  then show ?thesis by (simp add: midnight_def field_simps)
qed

lemma blind_ts [simp]: "bar_ts (blind now b) = bar_ts b"
  by (simp add: blind_def)

lemma blind_open [simp]: "bar_open (blind now b) = bar_open b"
  by (simp add: blind_def)

lemma filter_blind: "filter (\<lambda>b. P (bar_ts b)) (map (blind now) f) = map (blind now) (filter (\<lambda>b. P (bar_ts b)) f)"
  by (induction f) auto

lemma map_blind_prior:
  "map (blind now) (filter (\<lambda>b. bar_ts b < midnight now) f) = filter (\<lambda>b. bar_ts b < midnight now) f"
  by (induction f) (auto simp: blind_def)

lemma replay_get_data_visible:
  assumes "t \<le> now"
  shows "replay_get_data (visible_corpus now c) s t d = map (blind now) (replay_get_data c s t d)"
proof (cases "c (str_upper s)")
  case (Some f)
  have "filter (\<lambda>b. t - d * 86400 \<le> bar_ts b \<and> bar_ts b \<le> t) (filter (\<lambda>b. bar_ts b \<le> now) f)
      = filter (\<lambda>b. t - d * 86400 \<le> bar_ts b \<and> bar_ts b \<le> t) f"
    using assms by (auto intro!: filter_cong)
  with Some show ?thesis
    using filter_blind [of "\<lambda>x. t - d * 86400 \<le> x \<and> x \<le> t" now]
    by (simp add: replay_get_data_def visible_corpus_def visible_def)
qed (simp add: replay_get_data_def visible_corpus_def)

text \<open>
  C37: The daily bars and the snapshot of a symbol are determined by what is known at the simulated
  time: erasing every later bar, and of today's bars all but the opening price, changes neither.
\<close>

theorem no_look_ahead:
  "daily_bars (visible_corpus now c) now s = daily_bars c now s
   \<and> replay_snapshot (visible_corpus now c) now s = replay_snapshot c now s"
proof
  show "daily_bars (visible_corpus now c) now s = daily_bars c now s"
    using filter_blind [of "\<lambda>x. x < midnight now" now] map_blind_prior
    by (simp add: daily_bars_def replay_get_data_visible [OF midnight_le])
next
  let ?full = "replay_get_data c (str_upper s) now 100000"
  let ?prior = "filter (\<lambda>b. bar_ts b < midnight now) ?full"
  let ?today = "filter (\<lambda>b. \<not> bar_ts b < midnight now) ?full"
  have full: "replay_get_data (visible_corpus now c) (str_upper s) now 100000 = map (blind now) ?full"
    by (rule replay_get_data_visible) simp
  have prior: "filter (\<lambda>b. bar_ts b < midnight now) (map (blind now) ?full) = ?prior"
    using filter_blind [of "\<lambda>x. x < midnight now" now] map_blind_prior by simp
  have today: "filter (\<lambda>b. \<not> bar_ts b < midnight now) (map (blind now) ?full) = map (blind now) ?today"
    using filter_blind [of "\<lambda>x. \<not> x < midnight now" now] by simp
  have "?today \<noteq> []" if "?prior = []" "?full \<noteq> []"
    using that by (auto simp: filter_empty_conv neq_Nil_conv)
  then show "replay_snapshot (visible_corpus now c) now s = replay_snapshot c now s"
    unfolding replay_snapshot_def full prior today Let_def
    by (cases "?today = []") (simp_all add: last_map)
qed

text \<open>
  The fills and the marks do look ahead on a corpus of daily bars: while the snapshot shows the
  opening price, they already use the closing price of the day that is being replayed.
\<close>

theorem fills_look_ahead:
  assumes "c (str_upper s) = Some (f @ [b])" "\<forall>x \<in> set f. bar_ts x < midnight now" "bar_ts b = midnight now"
    "str_upper (str_upper s) = str_upper s"
  shows "replay_market c now s = Some (bar_close b)
    \<and> (\<exists>d. replay_snapshot c now s = Some (bar_open b, d))"
proof -
  have k: "now - 8640000000 \<le> midnight now"
  proof -
    have "now / 86400 < of_int \<lfloor>now / 86400\<rfloor> + 1" by linarith
    then show ?thesis by (simp add: midnight_def field_simps)
  qed
  then have g: "\<exists>f'. replay_get_data c s now 100000 = f' @ [b] \<and> (\<forall>x \<in> set f'. bar_ts x < midnight now)"
    using assms(1-3) midnight_le [of now] by (auto simp: replay_get_data_def)
  then obtain f' where f': "replay_get_data c s now 100000 = f' @ [b]" "\<forall>x \<in> set f'. bar_ts x < midnight now"
    by auto
  have f'': "replay_get_data c (str_upper s) now 100000 = f' @ [b]"
    using f'(1) assms(4) by (simp add: replay_get_data_def)
  have "replay_market c now s = Some (bar_close b)"
    using f'(1) by (cases f') (simp_all add: replay_market_def intraday_bars_def)
  moreover have "filter (\<lambda>x. \<not> bar_ts x < midnight now) (f' @ [b]) = [b]"
    using f'(2) assms(3) by simp
  ultimately show ?thesis
    by (simp add: replay_snapshot_def f'' Let_def)
qed

section \<open>The replay ends\<close>

lemma advance_cases:
  obtains (roll) d ds where "ck_days ck = d # ds"
      "advance ck = (ck\<lparr>ck_current_time := day_time d (ck_from ck), ck_days := ds,
         ck_start_time := day_time d (ck_from ck), ck_end_time := day_time d (ck_to ck),
         ck_days_completed := Suc (ck_days_completed ck)\<rparr>, Some d)"
    | (tick) "ck_current_time ck + ck_cadence ck \<le> ck_end_time ck \<or> ck_days ck = []"
      "advance ck = (ck\<lparr>ck_current_time := ck_current_time ck + ck_cadence ck\<rparr>, None)"
  by (cases "ck_current_time ck + ck_cadence ck \<le> ck_end_time ck"; cases "ck_days ck")
     (auto simp: advance_def Let_def intro: that)

lemma run_cycles_step:
  "run_cycles ck n =
     (if is_open (fst (advance ck)) then run_cycles (fst (advance ck)) (Suc n) else Some (fst (advance ck), Suc n))"
  by (subst run_cycles.simps) (simp add: Let_def)

definition steps_left :: "sim_clock \<Rightarrow> nat" where
  "steps_left ck = nat (\<lfloor>(ck_end_time ck - ck_current_time ck) / ck_cadence ck\<rfloor> + 1)"

lemma steps_left_tick:
  assumes "0 < ck_cadence ck" "ck_current_time ck + ck_cadence ck \<le> ck_end_time ck"
  shows "steps_left (ck\<lparr>ck_current_time := ck_current_time ck + ck_cadence ck\<rparr>) < steps_left ck"
proof -
  let ?r = "(ck_end_time ck - ck_current_time ck) / ck_cadence ck"
  have e: "(ck_end_time ck - (ck_current_time ck + ck_cadence ck)) / ck_cadence ck = ?r - 1"
    using assms(1) by (simp add: field_simps)
  have "1 \<le> ?r" using assms by (simp add: field_simps)
  then have "1 \<le> \<lfloor>?r\<rfloor>" by linarith
  moreover have "\<lfloor>?r - 1\<rfloor> = \<lfloor>?r\<rfloor> - 1" by linarith
  ultimately show ?thesis unfolding steps_left_def by (simp add: e)
qed

text \<open>
  With a positive cadence and a window that does not end before it begins, the cycles of a
  replay end, and they end after the last day: no day is left, each was completed, and the clock is
  past the window of the last one.
\<close>

theorem replay_ends_after_last_day:
  assumes "0 < ck_cadence ck" "ck_from ck \<le> ck_to ck" "ck_start_time ck \<le> ck_current_time ck"
  shows "\<exists>ck' k. run_cycles ck n = Some (ck', k) \<and> ck_days ck' = []
    \<and> ck_days_completed ck' = ck_days_completed ck + length (ck_days ck) \<and> ck_end_time ck' < ck_current_time ck'"
  using assms
proof (induction "(length (ck_days ck), steps_left ck)" arbitrary: ck n rule: wf_induct_rule [OF wf_lex_prod [OF wf_less_than wf_less_than]])
  case (1 ck)
  note IH = 1(1) and prems = 1(2-4)
  show ?case
  proof (cases rule: advance_cases [of ck])
    case (roll d ds)
    have opn: "is_open (fst (advance ck))"
      using prems(2) by (simp add: roll is_open_def day_time_def)
    have "((length (ck_days (fst (advance ck))), steps_left (fst (advance ck))), length (ck_days ck), steps_left ck)
        \<in> less_than <*lex*> less_than" by (simp add: roll)
    from IH [OF this, of "Suc n"] prems opn show ?thesis
      by (subst run_cycles_step) (simp add: roll)
  next
    case tick
    show ?thesis
    proof (cases "ck_current_time ck + ck_cadence ck \<le> ck_end_time ck")
      case True
      have opn: "is_open (fst (advance ck))" using True prems by (simp add: tick is_open_def)
      have "((length (ck_days (fst (advance ck))), steps_left (fst (advance ck))), length (ck_days ck), steps_left ck)
          \<in> less_than <*lex*> less_than" using steps_left_tick [OF prems(1) True] by (simp add: tick)
      from IH [OF this, of "Suc n"] prems opn show ?thesis
        by (subst run_cycles_step) (simp add: tick)
    next
      case False
      with tick(1) have "ck_days ck = []" "\<not> is_open (fst (advance ck))"
        by (simp_all add: tick(2) is_open_def)
      with False show ?thesis by (subst run_cycles_step) (simp add: tick(2))
    qed
  qed
qed

lemma replay_ends_after_last_day_witness:
  "\<exists>ck' k. run_cycles (fst (set_trading_days (Some [20100, 20101]) (SimClock 20099 34200 57600 900))) 0 = Some (ck', k)
     \<and> ck_days_completed ck' = 2"
  using replay_ends_after_last_day [of "fst (set_trading_days (Some [20100, 20101]) (SimClock 20099 34200 57600 900))" 0]
  by (auto simp: set_trading_days_def SimClock_def Let_def)

text \<open>A cadence of zero is accepted and the replay never ends: the clock stands still.\<close>

lemma parse_cadence_zero: "parse_cadence ''0m'' = 0"
  by (simp add: parse_cadence_def ws_def lower_char_def unit_seconds_def ist_ziffer_def lies_dez_def)

theorem zero_cadence_never_ends:
  assumes "ck_cadence ck = 0" "is_open ck"
  shows "run_cycles ck n = None"
proof -
  have "\<not> (ck_cadence ck = 0 \<and> is_open ck)" if "run_cycles ck n = Some r" for ck n r
  proof (rule run_cycles.raw_induct [OF _ that])
    fix run :: "sim_clock \<Rightarrow> nat \<Rightarrow> (sim_clock \<times> nat) option" and ck n r
    assume 1: "\<And>ck n r. run ck n = Some r \<Longrightarrow> \<not> (ck_cadence ck = 0 \<and> is_open ck)"
      "(let ck' = fst (advance ck) in if is_open ck' then run ck' (Suc n) else Some (ck', Suc n)) = Some r"
    have "fst (advance ck) = ck" if "ck_cadence ck = 0" "is_open ck"
      using that by (simp add: advance_def is_open_def)
    note still = this
    show "\<not> (ck_cadence ck = 0 \<and> is_open ck)"
    proof
      assume c: "ck_cadence ck = 0 \<and> is_open ck"
      with 1(2) still have "run ck (Suc n) = Some r" by (simp add: Let_def)
      from 1(1) [OF this] c show False by simp
    qed
  qed
  with assms show ?thesis by (cases "run_cycles ck n") auto
qed

section \<open>The wait of the runner\<close>

lemma sim_wait_reason_timeout:
  "\<not> po_shutdown po \<Longrightarrow> budget < po_time po - t0 \<Longrightarrow> fst (sim_wait_reason t0 budget po seen) \<noteq> None"
  by (simp add: sim_wait_reason_def)

text \<open>
  The wait of the runner ends: once a poll after the budget finds the engine not shut down, or a
  poll finds the replay complete, a reason has been given.
\<close>

theorem wait_ends:
  assumes "po \<in> set pos" "po_complete po \<or> \<not> po_shutdown po \<and> budget < po_time po - t0"
  shows "sim_wait t0 budget pos seen \<noteq> None"
  using assms(1)
proof (induction pos arbitrary: seen)
  case (Cons a pos)
  show ?case
  proof (cases "a = po")
    case True
    with assms(2) have "fst (sim_wait_reason t0 budget a seen) \<noteq> None"
      by (auto simp: sim_wait_reason_def)
    then show ?thesis by (cases "sim_wait_reason t0 budget a seen") auto
  next
    case False
    with Cons.prems Cons.IH show ?thesis
      by (cases "sim_wait_reason t0 budget a seen"; cases "fst (sim_wait_reason t0 budget a seen)") simp_all
  qed
qed simp

lemma wait_ends_witness:
  "sim_wait 0 300 [\<lparr>po_complete = False, po_shutdown = False, po_cycles = 5, po_time = 301\<rparr>] None \<noteq> None"
  by (rule wait_ends [of "\<lparr>po_complete = False, po_shutdown = False, po_cycles = 5, po_time = 301\<rparr>"]) simp_all

text \<open>
  An engine that shuts down before its first cycle and stays so is waited for without end: the
  budget is not looked at any more.
\<close>

theorem early_shutdown_is_awaited_forever:
  assumes "\<forall>po \<in> set pos. \<not> po_complete po \<and> po_shutdown po \<and> po_cycles po \<le> 0"
  shows "sim_wait t0 budget pos seen = None"
  using assms
proof (induction pos arbitrary: seen)
  case (Cons po pos)
  have "sim_wait_reason t0 budget po seen = (None, None)"
    using Cons.prems by (simp add: sim_wait_reason_def)
  moreover have "sim_wait t0 budget pos None = None"
    by (rule Cons.IH) (use Cons.prems in \<open>meson list.set_intros(2)\<close>)
  ultimately show ?case by simp
qed simp

section \<open>The equity curve\<close>

lemma put_point_dates:
  "map ep_date (put_point x ps) = (if ep_date x \<in> set (map ep_date ps) then map ep_date ps else map ep_date ps @ [ep_date x])"
  by (induction ps) auto

lemma put_point_in: "x \<in> set (put_point x ps)"
  by (induction ps) auto

lemma put_point_others: "y \<in> set (put_point x ps) \<Longrightarrow> y = x \<or> y \<in> set ps"
  by (induction ps) (auto split: if_splits)

text \<open>One point per day, whatever is recorded: a second record of a day replaces the first in place.\<close>

lemma recorded_days_distinct:
  "distinct (map ep_date ps) \<Longrightarrow> distinct (map ep_date (fold (record_daily_equity True) xs ps))"
  by (induction xs arbitrary: ps) (simp_all add: record_daily_equity_def put_point_dates)

section \<open>The running peak is the worst fall\<close>

text \<open>The relative falls, in percent, of each later value of the curve below each earlier one.\<close>

definition fall :: "real \<Rightarrow> real \<Rightarrow> real" where
  "fall x p = (x / p - 1) * 100"

definition falls :: "real list \<Rightarrow> real set" where
  "falls curve = {fall (curve ! j) (curve ! i) | i j. i \<le> j \<and> j < length curve}"

fun falls_from :: "real set \<Rightarrow> real list \<Rightarrow> real set" where
  "falls_from P [] = {}"
| "falls_from P (x # xs) = (\<lambda>p. fall x p) ` insert x P \<union> falls_from (insert x P) xs"

lemma falls_from_finite: "finite P \<Longrightarrow> finite (falls_from P xs)"
  by (induction xs arbitrary: P) auto

lemma falls_from_index:
  "falls_from P xs = {fall (xs ! j) p | j p. j < length xs \<and> p \<in> P \<union> set (take (Suc j) xs)}"
proof (induction xs arbitrary: P)
  case (Cons x xs)
  have "{fall ((x # xs) ! j) p | j p. j < length (x # xs) \<and> p \<in> P \<union> set (take (Suc j) (x # xs))}
      = {fall x p | p. p \<in> insert x P}
        \<union> {fall (xs ! j) p | j p. j < length xs \<and> p \<in> insert x P \<union> set (take (Suc j) xs)}"
    (is "?L = ?A \<union> ?B")
  proof (intro set_eqI iffI)
    fix y assume "y \<in> ?L"
    then obtain j p where y: "y = fall ((x # xs) ! j) p" "j < length (x # xs)"
      "p \<in> P \<union> set (take (Suc j) (x # xs))" by blast
    show "y \<in> ?A \<union> ?B"
    proof (cases j)
      case 0
      with y show ?thesis by auto
    next
      case (Suc k)
      with y have "y = fall (xs ! k) p" "k < length xs" "p \<in> insert x P \<union> set (take (Suc k) xs)" by auto
      then show ?thesis by blast
    qed
  next
    fix y assume "y \<in> ?A \<union> ?B"
    then show "y \<in> ?L"
    proof
      assume "y \<in> ?A"
      then obtain p where p: "y = fall x p" "p \<in> insert x P" by blast
      then show ?thesis by (intro CollectI exI [of _ 0] exI [of _ p]) auto
    next
      assume "y \<in> ?B"
      then obtain j p where p: "y = fall (xs ! j) p" "j < length xs" "p \<in> insert x P \<union> set (take (Suc j) xs)"
        by blast
      then show ?thesis by (intro CollectI exI [of _ "Suc j"] exI [of _ p]) auto
    qed
  qed
  with Cons.IH [of "insert x P"] show ?case by (auto simp: image_def)
qed simp

lemma fall_antimono: "0 < (x::real) \<Longrightarrow> 0 < p \<Longrightarrow> p \<le> q \<Longrightarrow> fall x q \<le> fall x p"
  by (simp add: fall_def frac_le)

lemma Min_falls_peak:
  assumes "finite P" "\<forall>p \<in> P. 0 < p" "P \<noteq> {}" "0 < (x::real)"
  shows "Min ((\<lambda>p. fall x p) ` P) = fall x (Max P)"
proof (rule Min_eqI)
  fix y assume "y \<in> (\<lambda>p. fall x p) ` P"
  then obtain p where p: "p \<in> P" "y = fall x p" by auto
  with assms show "fall x (Max P) \<le> y" using fall_antimono [of x p "Max P"] by simp
qed (use assms Max_in in auto)

lemma drawdown_loop_falls:
  assumes "finite P" "P \<noteq> {}" "\<forall>p \<in> P. 0 < p" "\<forall>x \<in> set xs. 0 < x"
  shows "drawdown_loop (Max P) w xs = Min (insert w (falls_from P xs))"
  using assms
proof (induction xs arbitrary: P w)
  case (Cons x xs)
  let ?P = "insert x P" and ?A = "(\<lambda>p. fall x p) ` insert x P"
  have peak: "max (Max P) x = Max ?P" using Cons.prems by (simp add: max.commute)
  have "x \<le> Max ?P" using Cons.prems by (intro Max_ge) auto
  then have pos: "Max ?P \<noteq> 0" using Cons.prems by auto
  have A: "Min ?A = fall x (Max ?P)" by (rule Min_falls_peak) (use Cons.prems in auto)
  have "drawdown_loop (Max P) w (x # xs) = drawdown_loop (Max ?P) (min w (Min ?A)) xs"
    using pos unfolding A by (simp only: drawdown_loop.simps Let_def peak fall_def if_True simp_thms)
  also have "\<dots> = Min (insert (min w (Min ?A)) (falls_from ?P xs))"
    by (rule Cons.IH) (use Cons.prems in auto)
  also have "\<dots> = Min (insert w (?A \<union> falls_from ?P xs))"
  proof (cases "falls_from ?P xs = {}")
    case True
    then show ?thesis using Cons.prems by (simp add: Min_insert)
  next
    case False
    have f: "finite (falls_from ?P xs)" "finite ?A" "?A \<noteq> {}" using Cons.prems by (auto intro: falls_from_finite)
    have "Min (insert w (?A \<union> falls_from ?P xs)) = min w (min (Min ?A) (Min (falls_from ?P xs)))"
      using f False by (simp add: Min_insert Min_Un del: insert_is_Un image_insert)
    also have "\<dots> = Min (insert (min w (Min ?A)) (falls_from ?P xs))"
      using f False by (simp add: Min_insert min.assoc del: image_insert)
    finally show ?thesis by simp
  qed
  finally show ?case by simp
qed simp

lemma falls_hd_tl:
  assumes "curve \<noteq> []" "\<forall>x \<in> set curve. 0 < x"
  shows "insert 0 (falls_from {hd curve} (tl curve)) = falls curve"
proof -
  obtain x xs where c: "curve = x # xs" using assms(1) by (cases curve) auto
  have idx: "p \<in> {x} \<union> set (take (Suc j) xs) \<longleftrightarrow> (\<exists>i \<le> Suc j. p = (x # xs) ! i)" if "j < length xs" for p j
  proof -
    have "{x} \<union> set (take (Suc j) xs) = set (take (Suc (Suc j)) (x # xs))" by simp
    also have "\<dots> = nth (x # xs) ` {0..<Suc (Suc j)}" using that by (intro nth_image [symmetric]) simp
    finally show ?thesis by (auto simp: less_Suc_eq_le)
  qed
  show ?thesis
  proof (intro set_eqI iffI)
    fix y assume "y \<in> insert 0 (falls_from {hd curve} (tl curve))"
    then show "y \<in> falls curve"
    proof
      assume "y = 0"
      with assms(2) show ?thesis
        unfolding falls_def c by (intro CollectI exI [of _ 0]) (auto simp: fall_def)
    next
      assume "y \<in> falls_from {hd curve} (tl curve)"
      then obtain j p where y: "y = fall (xs ! j) p" "j < length xs" "p \<in> {x} \<union> set (take (Suc j) xs)"
        unfolding falls_from_index c by auto
      with idx obtain i where "i \<le> Suc j" "p = (x # xs) ! i" by blast
      with y show ?thesis unfolding falls_def c by (intro CollectI exI [of _ i] exI [of _ "Suc j"]) auto
    qed
  next
    fix y assume "y \<in> falls curve"
    then obtain i j where y: "y = fall (curve ! j) (curve ! i)" "i \<le> j" "j < length curve"
      unfolding falls_def by blast
    show "y \<in> insert 0 (falls_from {hd curve} (tl curve))"
    proof (cases j)
      case 0
      with y assms(2) show ?thesis by (simp add: c fall_def)
    next
      case (Suc k)
      with y idx [of k "curve ! i"] have "curve ! i \<in> {x} \<union> set (take (Suc k) xs)" by (auto simp: c)
      with y Suc show ?thesis unfolding falls_from_index c
        by (intro insertI2 CollectI exI [of _ k] exI [of _ "(x # xs) ! i"]) auto
    qed
  qed
qed

text \<open>
  The loop over the running peak computes the specification of the maximum drawdown: on a curve
  of positive values it is the least of the relative falls of any value below any earlier one.
\<close>

theorem drawdown_is_worst_fall:
  assumes "2 \<le> length curve" "\<forall>x \<in> set curve. 0 < x"
  shows "max_drawdown_pct curve = Some (py_round 4 (Min (falls curve)))"
proof -
  have "curve \<noteq> []" using assms(1) by auto
  then have "drawdown_loop (Max {hd curve}) 0 (tl curve) = Min (insert 0 (falls_from {hd curve} (tl curve)))"
    using assms by (intro drawdown_loop_falls) (auto dest: list.set_sel)
  then show ?thesis using assms falls_hd_tl [OF \<open>curve \<noteq> []\<close> assms(2)]
    by (simp add: max_drawdown_pct_def)
qed

lemma drawdown_is_worst_fall_witness:
  "max_drawdown_pct [100, 110, 99] = Some (py_round 4 (Min (falls [100, 110, 99])))"
  by (rule drawdown_is_worst_fall) simp_all

end
