(* ===== verification/Audit_Chain.thy ===== *)
theory Audit_Chain
  imports Prelude "HOL-Library.List_Lexorder" "HOL-Library.Char_ord"
begin

text \<open>
  The hash-chained log as its own package keeps it (\<open>packages/autonomous-audit\<close>): the canonical
  pre-image of an entry, the writer that appends and resumes, the verifier and its anchor.

  The digest \<open>H\<close> (SHA-256, hexadecimal) is a parameter on texts; nothing is assumed of it. A claim
  that needs two texts to have different digests says instead that otherwise a collision is at hand.
  A file is the list of its lines; \<open>Text []\<close> is a blank line. A line without its line break at the end
  of the file is not modelled.
\<close>

section \<open>Canonical text\<close>

text \<open>\<open>json.dumps(j, sort_keys=True)\<close> is the text \<open>Json (jsort j)\<close>: the keys of every object sorted.\<close>

fun jsort :: "jval \<Rightarrow> jval" where
  "jsort (JList xs) = JList (map jsort xs)"
| "jsort (JObj fs) = JObj (sort_key fst (map (\<lambda>(k, v). (k, jsort v)) fs))"
| "jsort JNull = JNull"
| "jsort (JBool b) = JBool b"
| "jsort (JNum r) = JNum r"
| "jsort (JStr s) = JStr s"

type_synonym entry = "(string, jval) pydict"
type_synonym digest = "wert \<Rightarrow> string"

definition canonical_preimage :: "entry \<Rightarrow> wert" where
  "canonical_preimage e = Json (jsort (JObj (dict_del ''hash'' e)))"

definition entry_hash :: "digest \<Rightarrow> entry \<Rightarrow> string" where
  "entry_hash H e = H (canonical_preimage e)"

definition GENESIS_HASH :: string where
  "GENESIS_HASH = replicate 64 (CHR ''0'')"

definition collision :: "digest \<Rightarrow> bool" where
  "collision H = (\<exists>x y. x \<noteq> y \<and> H x = H y)"

section \<open>The writer\<close>

datatype audit_error = AuditDiskFull | AuditIntegrity nat | NoObject | SchemaMissing string | SchemaType string

definition blank :: "wert \<Rightarrow> bool" where
  "blank l = (l = Text [])"

lemma blank_Json [simp]: "\<not> blank (Json j)"
  by (simp add: blank_def)

text \<open>
  \<open>RecordSchema.validate\<close>: the required fields and the types they must have. A number is one
  constructor whether it is an \<open>int\<close> or a \<open>float\<close>; \<open>TNum\<close> is \<open>int\<close>, of which \<open>bool\<close> is a subclass.
\<close>

datatype jtype = TStr | TBool | TNum | TList | TDict

fun has_type :: "jtype \<Rightarrow> jval \<Rightarrow> bool" where
  "has_type TStr (JStr _) = True"
| "has_type TBool (JBool _) = True"
| "has_type TNum (JNum _) = True"
| "has_type TNum (JBool _) = True"
| "has_type TList (JList _) = True"
| "has_type TDict (JObj _) = True"
| "has_type _ _ = False"

fun validate :: "(string \<times> jtype) list \<Rightarrow> entry \<Rightarrow> audit_error option" where
  "validate [] r = None"
| "validate ((f, t) # fs) r =
     (case map_of r f of
        None \<Rightarrow> Some (SchemaMissing f)
      | Some v \<Rightarrow> if has_type t v then validate fs r else Some (SchemaType f))"

text \<open>\<open>_resume_last_hash\<close>: the value of the last \<open>hash\<close>; a line that is no JSON is an error.\<close>

fun resume_lines :: "nat \<Rightarrow> jval \<Rightarrow> wert list \<Rightarrow> audit_error + jval" where
  "resume_lines i h [] = Inr h"
| "resume_lines i h (l # ls) =
     (if blank l then resume_lines (Suc i) h ls
      else case json_loads l of
             None \<Rightarrow> Inl (AuditIntegrity i)
           | Some (JObj e) \<Rightarrow>
               resume_lines (Suc i) (case map_of e ''hash'' of None \<Rightarrow> h | Some x \<Rightarrow> x) ls
           | Some _ \<Rightarrow> Inl NoObject)"

definition resume_last_hash :: "string \<Rightarrow> wert list option \<Rightarrow> audit_error + jval" where
  "resume_last_hash genesis file = (case file of None \<Rightarrow> Inr (JStr genesis) | Some ls \<Rightarrow> resume_lines 1 (JStr genesis) ls)"

record chain_writer =
  cw_file :: "wert list option"
  cw_last_hash :: jval
  cw_min_free :: int
  cw_schema :: "(string \<times> jtype) list"

definition AuditChainWriter :: "wert list option \<Rightarrow> string \<Rightarrow> int \<Rightarrow> (string \<times> jtype) list \<Rightarrow> audit_error + chain_writer" where
  "AuditChainWriter file genesis min_free schema =
     (case resume_last_hash genesis file of
        Inl x \<Rightarrow> Inl x
      | Inr h \<Rightarrow> Inr \<lparr>cw_file = file, cw_last_hash = h, cw_min_free = min_free, cw_schema = schema\<rparr>)"

definition chained_entry :: "digest \<Rightarrow> jval \<Rightarrow> entry \<Rightarrow> entry" where
  "chained_entry H h r =
     (let e = dict_set ''prev_hash'' h (dict_del ''hash'' r)
      in dict_set ''hash'' (JStr (entry_hash H e)) e)"

definition chain_append :: "digest \<Rightarrow> int \<Rightarrow> entry \<Rightarrow> chain_writer \<Rightarrow> chain_writer \<times> (audit_error + string)" where
  "chain_append H free r w =
     (case validate (cw_schema w) r of
        Some x \<Rightarrow> (w, Inl x)
      | None \<Rightarrow>
          if free < cw_min_free w then (w, Inl AuditDiskFull)
          else let e = chained_entry H (cw_last_hash w) r;
                   d = entry_hash H e
               in (w\<lparr>cw_file := Some ((case cw_file w of None \<Rightarrow> [] | Some ls \<Rightarrow> ls) @ [Json (JObj e)]),
                     cw_last_hash := JStr d\<rparr>, Inr d))"

section \<open>The verifier\<close>

datatype verify_error =
    InvalidAnchor
  | FileNotFound
  | InvalidJson nat
  | PrevHashBreak nat
  | HashMismatch nat
  | AnchorMismatch int
  | EmptyLog
  | Truncated int nat

text \<open>
  The walk over the lines: the number of records and the head at the end. \<open>Inl NoObject\<close> is the
  exception for a line that is JSON but no object. The anchor is already split into its number and
  its hash.
\<close>

fun verify_lines ::
  "digest \<Rightarrow> (int \<times> string) option \<Rightarrow> nat \<Rightarrow> nat \<Rightarrow> string \<Rightarrow> wert list
     \<Rightarrow> audit_error + verify_error + (nat \<times> string)" where
  "verify_lines H anc i n prev [] = Inr (Inr (n, prev))"
| "verify_lines H anc i n prev (l # ls) =
     (if blank l then verify_lines H anc (Suc i) n prev ls
      else case json_loads l of
             None \<Rightarrow> Inr (Inl (InvalidJson i))
           | Some (JObj e) \<Rightarrow>
               if jget e ''prev_hash'' \<noteq> JStr prev then Inr (Inl (PrevHashBreak i))
               else if jget e ''hash'' \<noteq> JStr (entry_hash H e) then Inr (Inl (HashMismatch i))
               else (case anc of
                       Some (k, h) \<Rightarrow>
                         if int (Suc n) = k \<and> entry_hash H e \<noteq> h then Inr (Inl (AnchorMismatch (int (Suc n))))
                         else verify_lines H anc (Suc i) (Suc n) (entry_hash H e) ls
                     | None \<Rightarrow> verify_lines H anc (Suc i) (Suc n) (entry_hash H e) ls)
           | Some _ \<Rightarrow> Inl NoObject)"

definition verify_chain ::
  "digest \<Rightarrow> wert list option \<Rightarrow> string \<Rightarrow> (int \<times> string) option option \<Rightarrow> audit_error + verify_error option" where
  "verify_chain H file genesis anchor =
     (case anchor of
        Some None \<Rightarrow> Inr (Some InvalidAnchor)
      | _ \<Rightarrow>
          (let anc = (case anchor of Some a \<Rightarrow> a | None \<Rightarrow> None)
           in case file of
                None \<Rightarrow> Inr (Some FileNotFound)
              | Some ls \<Rightarrow>
                  (case verify_lines H anc 1 0 genesis ls of
                     Inl x \<Rightarrow> Inl x
                   | Inr (Inl x) \<Rightarrow> Inr (Some x)
                   | Inr (Inr (n, _)) \<Rightarrow>
                       (if n = 0 then Inr (Some EmptyLog)
                        else case anc of
                               Some (k, _) \<Rightarrow> Inr (if int n < k then Some (Truncated k n) else None)
                             | None \<Rightarrow> Inr None))))"

fun anchor_lines :: "nat \<Rightarrow> jval \<Rightarrow> wert list \<Rightarrow> audit_error + nat \<times> jval" where
  "anchor_lines n prev [] = Inr (n, prev)"
| "anchor_lines n prev (l # ls) =
     (if blank l then anchor_lines n prev ls
      else case json_loads l of
             None \<Rightarrow> anchor_lines (Suc n) prev ls
           | Some (JObj e) \<Rightarrow> anchor_lines (Suc n) (case map_of e ''hash'' of None \<Rightarrow> prev | Some h \<Rightarrow> h) ls
           | Some _ \<Rightarrow> Inl NoObject)"

definition get_anchor :: "wert list option \<Rightarrow> string \<Rightarrow> audit_error + nat \<times> jval" where
  "get_anchor file genesis =
     (case file of None \<Rightarrow> Inr (0, JStr genesis) | Some ls \<Rightarrow> anchor_lines 0 (JStr genesis) ls)"

section \<open>Entries and their canonical text\<close>

lemma map_of_filter: "map_of xs k = (case filter (\<lambda>e. fst e = k) xs of [] \<Rightarrow> None | e # _ \<Rightarrow> Some (snd e))"
  by (induction xs) auto

lemma map_of_sort_key [simp]: "map_of (sort_key fst xs) k = map_of xs k"
  by (simp add: map_of_filter sort_key_stable)

lemma map_of_map_snd: "map_of (map (\<lambda>(k, v). (k, f v)) xs) k = map_option f (map_of xs k)"
  by (induction xs) auto

lemma canonical_field:
  assumes "canonical_preimage a = canonical_preimage b" "k \<noteq> ''hash''"
  shows "map_option jsort (map_of a k) = map_option jsort (map_of b k)"
proof -
  have "map_of (sort_key fst (map (\<lambda>(k, v). (k, jsort v)) (dict_del ''hash'' a))) k
      = map_of (sort_key fst (map (\<lambda>(k, v). (k, jsort v)) (dict_del ''hash'' b))) k"
    using assms(1) by (simp add: canonical_preimage_def)
  with assms(2) show ?thesis by (simp only: map_of_sort_key map_of_map_snd dict_del_lookup) simp
qed

lemma jsort_JStr: "jsort v = JStr x \<longleftrightarrow> v = JStr x"
  by (cases v) auto

lemma canonical_prev_hash:
  assumes "canonical_preimage a = canonical_preimage b" "jget a ''prev_hash'' = JStr x" "jget b ''prev_hash'' = JStr y"
  shows "x = y"
  using canonical_field [OF assms(1), of "''prev_hash''"] assms(2,3)
  by (auto simp: jget_def split: option.splits)

lemma entry_hash_ignores_hash: "entry_hash H (dict_set ''hash'' v e) = entry_hash H e"
proof -
  have "dict_del ''hash'' (dict_set ''hash'' v e) = dict_del ''hash'' e"
    by (induction e) (auto simp: dict_del_def)
  then show ?thesis by (simp add: entry_hash_def canonical_preimage_def)
qed

lemma chained_entry_fields:
  "jget (chained_entry H h r) ''prev_hash'' = h"
  "jget (chained_entry H h r) ''hash'' = JStr (entry_hash H (chained_entry H h r))"
  by (simp_all add: chained_entry_def Let_def jget_def entry_hash_ignores_hash)

section \<open>What the verifier accepts\<close>

text \<open>The records of a file, if every line is blank or an object.\<close>

fun records :: "wert list \<Rightarrow> entry list option" where
  "records [] = Some []"
| "records (l # ls) =
     (if blank l then records ls
      else case json_loads l of Some (JObj e) \<Rightarrow> map_option ((#) e) (records ls) | _ \<Rightarrow> None)"

text \<open>The specification of an intact chain, and its head.\<close>

fun chain_ok :: "digest \<Rightarrow> string \<Rightarrow> entry list \<Rightarrow> bool" where
  "chain_ok H prev [] = True"
| "chain_ok H prev (e # es) =
     (jget e ''prev_hash'' = JStr prev \<and> jget e ''hash'' = JStr (entry_hash H e) \<and> chain_ok H (entry_hash H e) es)"

definition head :: "digest \<Rightarrow> string \<Rightarrow> entry list \<Rightarrow> string" where
  "head H prev es = (if es = [] then prev else entry_hash H (last es))"

lemma head_simps [simp]:
  "head H prev [] = prev" "head H prev (e # es) = head H (entry_hash H e) es" "head H prev (es @ [e]) = entry_hash H e"
  by (simp_all add: head_def)

lemma chain_ok_snoc:
  "chain_ok H prev (es @ [e]) \<longleftrightarrow> chain_ok H prev es \<and> jget e ''prev_hash'' = JStr (head H prev es)
     \<and> jget e ''hash'' = JStr (entry_hash H e)"
  by (induction es arbitrary: prev) auto

lemma chain_ok_take: "chain_ok H prev es \<Longrightarrow> chain_ok H prev (take n es)"
  by (induction es arbitrary: prev n) (auto simp: take_Cons split: nat.split)

text \<open>The anchor is met: too far ahead, or the record it names has its hash.\<close>

definition anchor_ok :: "digest \<Rightarrow> (int \<times> string) option \<Rightarrow> nat \<Rightarrow> entry list \<Rightarrow> bool" where
  "anchor_ok H anc n es =
     (case anc of None \<Rightarrow> True
      | Some (k, h) \<Rightarrow> \<forall>j < length es. int (Suc (n + j)) = k \<longrightarrow> entry_hash H (es ! j) = h)"

lemma anchor_ok_Cons:
  "anchor_ok H anc n (e # es) \<longleftrightarrow>
     (case anc of None \<Rightarrow> True | Some (k, h) \<Rightarrow> int (Suc n) = k \<longrightarrow> entry_hash H e = h) \<and> anchor_ok H anc (Suc n) es"
proof (cases anc)
  case (Some a)
  obtain k h where "a = (k, h)" by (cases a)
  with Some show ?thesis by (auto simp: anchor_ok_def less_Suc_eq_0_disj)
qed (simp add: anchor_ok_def)

lemma anchor_ok_Nil [simp]: "anchor_ok H anc n []"
  by (simp add: anchor_ok_def split: option.split)

text \<open>The verifier decides the specification.\<close>

lemma verify_lines_iff:
  "verify_lines H anc i n prev ls = Inr (Inr (m, h)) \<longleftrightarrow>
     (\<exists>es. records ls = Some es \<and> chain_ok H prev es \<and> anchor_ok H anc n es \<and> m = n + length es \<and> h = head H prev es)"
proof (induction ls arbitrary: i n prev)
  case (Cons l ls)
  show ?case
  proof (cases "blank l")
    case False
    show ?thesis
    proof (cases "json_loads l")
      case (Some j)
      show ?thesis
      proof (cases j)
        case (JObj e)
        have "verify_lines H anc i n prev (l # ls) = Inr (Inr (m, h)) \<longleftrightarrow>
          jget e ''prev_hash'' = JStr prev \<and> jget e ''hash'' = JStr (entry_hash H e) \<and>
          (case anc of None \<Rightarrow> True | Some (k, h) \<Rightarrow> int (Suc n) = k \<longrightarrow> entry_hash H e = h) \<and>
          verify_lines H anc (Suc i) (Suc n) (entry_hash H e) ls = Inr (Inr (m, h))"
          using False Some JObj
          by (cases "jget e ''prev_hash'' = JStr prev"; cases "jget e ''hash'' = JStr (entry_hash H e)"; cases anc)
             (simp_all split: prod.split)
        also have "\<dots> \<longleftrightarrow> (\<exists>es. records (l # ls) = Some es \<and> chain_ok H prev es \<and> anchor_ok H anc n es \<and>
            m = n + length es \<and> h = head H prev es)"
        proof -
          have "records (l # ls) = Some es \<longleftrightarrow> (\<exists>fs. records ls = Some fs \<and> es = e # fs)" for es
            using False Some JObj by auto
          then show ?thesis
            unfolding Cons.IH by (simp only: ex_simps simp_thms) (fastforce simp: anchor_ok_Cons)
        qed
        finally show ?thesis .
      qed (use False Some in simp_all)
    qed (use False in simp)
  qed (simp add: Cons.IH)
qed auto

lemma verify_chain_iff:
  "verify_chain H (Some ls) genesis None = Inr None \<longleftrightarrow>
     (\<exists>es. records ls = Some es \<and> es \<noteq> [] \<and> chain_ok H genesis es)"
proof -
  have iff: "verify_lines H None (Suc 0) 0 genesis ls = Inr (Inr (m, h)) \<longleftrightarrow>
      (\<exists>es. records ls = Some es \<and> chain_ok H genesis es \<and> m = length es \<and> h = head H genesis es)" for m h
    by (simp add: verify_lines_iff anchor_ok_def)
  show ?thesis
  proof (cases "\<exists>es. records ls = Some es \<and> chain_ok H genesis es")
    case True
    then obtain es where es: "records ls = Some es" "chain_ok H genesis es" by blast
    then have "verify_lines H None (Suc 0) 0 genesis ls = Inr (Inr (length es, head H genesis es))"
      by (simp add: iff)
    with es show ?thesis by (simp add: verify_chain_def)
  next
    case False
    then have "\<not> (\<exists>p. verify_lines H None (Suc 0) 0 genesis ls = Inr (Inr p))" by (auto simp: iff)
    with False show ?thesis by (auto simp: verify_chain_def split: sum.splits)
  qed
qed

section \<open>A log written is a log verified\<close>

lemma records_append: "records (ls @ ls') = (case records ls of None \<Rightarrow> None | Some es \<Rightarrow> map_option ((@) es) (records ls'))"
proof (induction ls)
  case Nil
  show ?case by (cases "records ls'") simp_all
next
  case (Cons l ls)
  then show ?case
    by (cases "blank l"; cases "json_loads l"; cases "the (json_loads l)"; cases "records ls'")
       (auto split: option.splits)
qed

lemma records_entry [simp]: "records [Json (JObj e)] = Some [e]"
  by (simp add: blank_def)

lemma resume_verified:
  assumes "records ls = Some es" "chain_ok H prev es"
  shows "resume_lines i (JStr prev) ls = Inr (JStr (head H prev es))"
  using assms
proof (induction ls arbitrary: i prev es)
  case (Cons l ls)
  show ?case
  proof (cases "blank l")
    case False
    then obtain e fs where e: "json_loads l = Some (JObj e)" "records ls = Some fs" "es = e # fs"
      using Cons.prems(1) by (auto split: option.splits jval.splits)
    have "map_of e ''hash'' = Some (JStr (entry_hash H e))"
      using Cons.prems(2) e(3) by (auto simp: jget_def split: option.splits)
    with False e Cons.IH [OF e(2), of "entry_hash H e"] Cons.prems(2) show ?thesis by simp
  qed (use Cons in simp)
qed simp

lemma anchor_verified:
  assumes "records ls = Some es" "chain_ok H prev es"
  shows "anchor_lines n (JStr prev) ls = Inr (n + length es, JStr (head H prev es))"
  using assms
proof (induction ls arbitrary: n prev es)
  case (Cons l ls)
  show ?case
  proof (cases "blank l")
    case False
    then obtain e fs where e: "json_loads l = Some (JObj e)" "records ls = Some fs" "es = e # fs"
      using Cons.prems(1) by (auto split: option.splits jval.splits)
    have "map_of e ''hash'' = Some (JStr (entry_hash H e))"
      using Cons.prems(2) e(3) by (auto simp: jget_def split: option.splits)
    with False e Cons.IH [OF e(2), of "entry_hash H e"] Cons.prems(2) show ?thesis by simp
  qed (use Cons in simp)
qed simp

text \<open>What a client does with a log: it appends a record, with some disk space free, or opens it again.\<close>

datatype writer_op = Append int entry | Reopen

fun writer_step :: "digest \<Rightarrow> string \<Rightarrow> writer_op \<Rightarrow> chain_writer \<Rightarrow> chain_writer" where
  "writer_step H genesis (Append free r) w = fst (chain_append H free r w)"
| "writer_step H genesis Reopen w =
     (case AuditChainWriter (cw_file w) genesis (cw_min_free w) (cw_schema w) of Inl _ \<Rightarrow> w | Inr w' \<Rightarrow> w')"

definition writer_ok :: "digest \<Rightarrow> string \<Rightarrow> chain_writer \<Rightarrow> bool" where
  "writer_ok H genesis w =
     (\<exists>es. records (case cw_file w of None \<Rightarrow> [] | Some ls \<Rightarrow> ls) = Some es \<and> chain_ok H genesis es
        \<and> cw_last_hash w = JStr (head H genesis es) \<and> (cw_file w \<noteq> None \<longrightarrow> es \<noteq> []))"

lemma writer_ok_append: "writer_ok H genesis w \<Longrightarrow> writer_ok H genesis (fst (chain_append H free r w))"
proof -
  assume "writer_ok H genesis w"
  then obtain es where es: "records (case cw_file w of None \<Rightarrow> [] | Some ls \<Rightarrow> ls) = Some es" "chain_ok H genesis es"
      "cw_last_hash w = JStr (head H genesis es)" "cw_file w \<noteq> None \<longrightarrow> es \<noteq> []"
    by (auto simp: writer_ok_def)
  let ?e = "chained_entry H (cw_last_hash w) r"
  have "chain_ok H genesis (es @ [?e])"
    using es by (simp add: chain_ok_snoc chained_entry_fields)
  moreover have "records ((case cw_file w of None \<Rightarrow> [] | Some ls \<Rightarrow> ls) @ [Json (JObj ?e)]) = Some (es @ [?e])"
    by (simp add: records_append es(1))
  ultimately have "writer_ok H genesis (w\<lparr>cw_file := Some ((case cw_file w of None \<Rightarrow> [] | Some ls \<Rightarrow> ls) @
      [Json (JObj ?e)]), cw_last_hash := JStr (entry_hash H ?e)\<rparr>)"
    by (simp add: writer_ok_def)
  with \<open>writer_ok H genesis w\<close> show ?thesis
    by (simp add: chain_append_def Let_def split: option.split)
qed

lemma writer_ok_reopen: "writer_ok H genesis w \<Longrightarrow> writer_step H genesis Reopen w = w"
proof -
  assume "writer_ok H genesis w"
  then obtain es where es: "records (case cw_file w of None \<Rightarrow> [] | Some ls \<Rightarrow> ls) = Some es" "chain_ok H genesis es"
      "cw_last_hash w = JStr (head H genesis es)"
    by (auto simp: writer_ok_def)
  then have "resume_last_hash genesis (cw_file w) = Inr (cw_last_hash w)"
    by (auto simp: resume_last_hash_def resume_verified split: option.splits)
  then show ?thesis by (simp add: AuditChainWriter_def)
qed

lemma writer_ok_fold: "writer_ok H genesis w \<Longrightarrow> writer_ok H genesis (fold (writer_step H genesis) ops w)"
proof (induction ops arbitrary: w)
  case (Cons a ops)
  then show ?case by (cases a) (simp_all add: writer_ok_append writer_ok_reopen del: writer_step.simps(2))
qed simp

lemma verify_own_anchor:
  assumes "records ls = Some es" "es \<noteq> []" "chain_ok H genesis es"
  shows "verify_chain H (Some ls) genesis (Some (Some (int (length es), head H genesis es))) = Inr None"
proof -
  have "anchor_ok H (Some (int (length es), head H genesis es)) 0 es"
  proof -
    have "j = length es - 1" if "int (Suc (0 + j)) = int (length es)" for j using that by linarith
    then show ?thesis using assms(2) by (simp add: anchor_ok_def head_def last_conv_nth)
  qed
  with assms have "verify_lines H (Some (int (length es), head H genesis es)) (Suc 0) 0 genesis ls
      = Inr (Inr (length es, head H genesis es))"
    by (simp add: verify_lines_iff)
  with assms(2) show ?thesis by (simp add: verify_chain_def)
qed

text \<open>
  C25: Whatever a client appends, with whatever records are refused for their schema or for a full disk,
  and however often it opens the log again in between, opening again changes nothing and the log it has
  written verifies, on its own and against its own anchor.
\<close>

theorem written_log_verifies:
  assumes "w = fold (writer_step H genesis) ops
      \<lparr>cw_file = None, cw_last_hash = JStr genesis, cw_min_free = mf, cw_schema = sc\<rparr>"
    and "cw_file w = Some ls"
  shows "verify_chain H (Some ls) genesis None = Inr None
    \<and> writer_step H genesis Reopen w = w
    \<and> (\<exists>n h. get_anchor (Some ls) genesis = Inr (n, JStr h)
          \<and> verify_chain H (Some ls) genesis (Some (Some (int n, h))) = Inr None)"
proof -
  have ok: "writer_ok H genesis w"
    unfolding assms(1) by (rule writer_ok_fold) (simp add: writer_ok_def)
  then obtain es where es: "records ls = Some es" "chain_ok H genesis es" "es \<noteq> []"
    using assms(2) by (auto simp: writer_ok_def)
  then show ?thesis
    using verify_own_anchor [OF es(1,3,2)] anchor_verified [OF es(1,2), of 0] writer_ok_reopen [OF ok]
    by (auto simp: verify_chain_iff get_anchor_def)
qed

definition toy_digest :: digest where
  "toy_digest t = (case t of Json j \<Rightarrow> dez (size j) | _ \<Rightarrow> ''0'')"

lemma written_log_verifies_witness:
  "verify_chain toy_digest (Some [Json (JObj (chained_entry toy_digest (JStr ''g'') [(''a'', JNum 1)]))]) ''g'' None = Inr None"
proof -
  let ?w0 = "\<lparr>cw_file = None, cw_last_hash = JStr ''g'', cw_min_free = 0, cw_schema = []\<rparr>"
  let ?ops = "[Append 5 [(''a'', JNum 1)], Reopen]"
  let ?ls = "[Json (JObj (chained_entry toy_digest (JStr ''g'') [(''a'', JNum 1)]))]"
  have "cw_file (fold (writer_step toy_digest ''g'') ?ops ?w0) = Some ?ls"
    by (simp add: chain_append_def Let_def AuditChainWriter_def split: sum.split)
  from written_log_verifies [OF refl this] show ?thesis by simp
qed

section \<open>Typed records\<close>

lemma validate_typed:
  "validate sc r = None \<Longrightarrow> (f, t) \<in> set sc \<Longrightarrow> \<exists>v. map_of r f = Some v \<and> has_type t v"
  by (induction sc r rule: validate.induct) (auto split: option.splits if_splits)

definition typed_lines :: "(string \<times> jtype) list \<Rightarrow> wert list \<Rightarrow> bool" where
  "typed_lines sc ls =
     (\<forall>e f t. Json (JObj e) \<in> set ls \<longrightarrow> (f, t) \<in> set sc \<longrightarrow> f \<notin> {''hash'', ''prev_hash''}
        \<longrightarrow> (\<exists>v. map_of e f = Some v \<and> has_type t v))"

lemma chained_entry_keeps:
  "f \<notin> {''hash'', ''prev_hash''} \<Longrightarrow> map_of (chained_entry H h r) f = map_of r f"
  by (simp add: chained_entry_def Let_def dict_set_lookup dict_del_lookup)

definition writer_lines :: "chain_writer \<Rightarrow> wert list" where
  "writer_lines w = (case cw_file w of None \<Rightarrow> [] | Some ls \<Rightarrow> ls)"

lemma writer_step_typed:
  assumes "typed_lines (cw_schema w) (writer_lines w)"
  shows "typed_lines (cw_schema (writer_step H genesis x w)) (writer_lines (writer_step H genesis x w))
    \<and> cw_schema (writer_step H genesis x w) = cw_schema w"
proof (cases x)
  case (Append free r)
  have "typed_lines (cw_schema w) (writer_lines w @ [Json (JObj (chained_entry H h r))])"
    if "validate (cw_schema w) r = None" for h
    using assms validate_typed [OF that] chained_entry_keeps [of _ H h r] unfolding typed_lines_def by auto
  then show ?thesis
    using assms by (cases "validate (cw_schema w) r") (simp_all add: Append chain_append_def Let_def writer_lines_def)
next
  case Reopen
  with assms show ?thesis by (auto simp: AuditChainWriter_def writer_lines_def split: sum.split)
qed

lemma writer_fold_typed:
  assumes "typed_lines (cw_schema w) (writer_lines w)"
  shows "typed_lines (cw_schema (fold (writer_step H genesis) ops w)) (writer_lines (fold (writer_step H genesis) ops w))
    \<and> cw_schema (fold (writer_step H genesis) ops w) = cw_schema w"
  using assms
proof (induction ops arbitrary: w)
  case (Cons x ops)
  note st = writer_step_typed [OF Cons.prems, of H genesis x]
  show ?case using Cons.IH [OF conjunct1 [OF st]] conjunct2 [OF st] by (metis fold_simps(2))
qed simp

text \<open>
  Whatever a client appends and however often it opens the log again, every record of a log that was
  written under a schema has each field of the schema, with a value of the type the schema gives it
  (the two fields the chain itself sets excepted).
\<close>

theorem written_records_are_typed:
  assumes "w = fold (writer_step H genesis) ops
      \<lparr>cw_file = None, cw_last_hash = JStr genesis, cw_min_free = mf, cw_schema = sc\<rparr>"
    and "cw_file w = Some ls" "Json (JObj e) \<in> set ls" "(f, t) \<in> set sc" "f \<noteq> ''hash''" "f \<noteq> ''prev_hash''"
  shows "\<exists>v. map_of e f = Some v \<and> has_type t v"
proof -
  have "typed_lines sc (writer_lines w)"
    unfolding assms(1) using writer_fold_typed [of "\<lparr>cw_file = None, cw_last_hash = JStr genesis,
      cw_min_free = mf, cw_schema = sc\<rparr>" H genesis ops] by (simp add: writer_lines_def typed_lines_def)
  with assms(2-6) show ?thesis unfolding typed_lines_def writer_lines_def by auto
qed

lemma written_records_are_typed_witness:
  "\<exists>v. map_of (chained_entry toy_digest (JStr ''g'') [(''a'', JNum 1)]) ''a'' = Some v \<and> has_type TNum v"
proof -
  let ?w0 = "\<lparr>cw_file = None, cw_last_hash = JStr ''g'', cw_min_free = 0, cw_schema = [(''a'', TNum)]\<rparr>"
  let ?ops = "[Append 5 [(''b'', JNum 1)], Append 5 [(''a'', JNum 1)], Reopen]"
  have "cw_file (fold (writer_step toy_digest ''g'') ?ops ?w0)
      = Some [Json (JObj (chained_entry toy_digest (JStr ''g'') [(''a'', JNum 1)]))]"
    by (simp add: chain_append_def Let_def AuditChainWriter_def split: sum.split)
  from written_records_are_typed [OF refl this, of _ "''a''" TNum] show ?thesis by simp
qed

section \<open>Tamper evidence\<close>

lemma chains_with_one_head:
  assumes "chain_ok H genesis es" "chain_ok H genesis fs" "length es = length fs"
    "head H genesis es = head H genesis fs" "\<not> collision H"
  shows "map canonical_preimage es = map canonical_preimage fs"
  using assms(1-4)
proof (induction es arbitrary: fs rule: rev_induct)
  case (snoc e es)
  then obtain f fs' where fs: "fs = fs' @ [f]" by (cases fs rule: rev_cases) auto
  have same: "canonical_preimage e = canonical_preimage f"
    using snoc.prems(4) assms(5) by (auto simp: fs entry_hash_def collision_def)
  have "head H genesis es = head H genesis fs'"
    using canonical_prev_hash [OF same] snoc.prems(1,2) by (simp add: fs chain_ok_snoc)
  with snoc.IH [of fs'] snoc.prems same show ?case by (simp add: fs chain_ok_snoc)
qed simp

text \<open>
  A log that verifies against the anchor of another verified log begins with that log's records, in
  their order and with their content (the canonical text of each): nothing was edited, dropped, inserted
  or reordered in it. Otherwise the log exhibits two texts with the same digest.
\<close>

theorem anchored_log_begins_with_original:
  assumes "verify_chain H (Some ls) genesis None = Inr None" and "get_anchor (Some ls) genesis = Inr (n, JStr h)"
    and "verify_chain H (Some ls') genesis (Some (Some (int n, h))) = Inr None"
  shows "collision H \<or> (\<exists>es fs. records ls = Some es \<and> records ls' = Some fs \<and> length es = n \<and> n \<le> length fs
    \<and> map canonical_preimage (take n fs) = map canonical_preimage es)"
proof (cases "collision H")
  case nc: False
  from assms(1) obtain es where es: "records ls = Some es" "es \<noteq> []" "chain_ok H genesis es"
    unfolding verify_chain_iff by blast
  have n: "n = length es" and h: "h = head H genesis es"
    using assms(2) anchor_verified [OF es(1,3), of 0] by (simp_all add: get_anchor_def)
  have "\<exists>m h'. verify_lines H (Some (int n, h)) (Suc 0) 0 genesis ls' = Inr (Inr (m, h')) \<and> n \<le> m"
    using assms(3) by (auto simp: verify_chain_def Let_def split: sum.splits if_splits)
  then obtain fs where fs: "records ls' = Some fs" "chain_ok H genesis fs" "anchor_ok H (Some (int n, h)) 0 fs"
      "n \<le> length fs"
    unfolding verify_lines_iff by auto
  have "0 < n" using es(2) n by simp
  then have ne: "take n fs \<noteq> []" using fs(4) by auto
  moreover have "last (take n fs) = fs ! (n - 1)"
    unfolding last_conv_nth [OF ne] using fs(4) \<open>0 < n\<close> by (simp add: min_def)
  ultimately have "head H genesis (take n fs) = entry_hash H (fs ! (n - 1))"
    by (simp add: head_def)
  also have "\<dots> = h"
    using fs(3,4) \<open>0 < n\<close> by (simp add: anchor_ok_def)
  finally have "map canonical_preimage (take n fs) = map canonical_preimage es"
    using fs es n h nc by (intro chains_with_one_head [of H genesis]) (simp_all add: chain_ok_take)
  with es fs n show ?thesis by blast
qed simp

definition toy_entry :: entry where
  "toy_entry = chained_entry toy_digest (JStr ''g'') [(''a'', JNum 1)]"

lemma anchored_log_begins_with_original_witness:
  "collision toy_digest \<or> (\<exists>es fs. records [Json (JObj toy_entry)] = Some es \<and> records [Json (JObj toy_entry)] = Some fs
     \<and> length es = 1 \<and> 1 \<le> length fs \<and> map canonical_preimage (take 1 fs) = map canonical_preimage es)"
proof -
  have ok: "chain_ok toy_digest ''g'' [toy_entry]" by (simp add: toy_entry_def chained_entry_fields)
  have "get_anchor (Some [Json (JObj toy_entry)]) ''g'' = Inr (1, JStr (head toy_digest ''g'' [toy_entry]))"
    using anchor_verified [OF records_entry ok, of 0] by (simp add: get_anchor_def)
  moreover have "verify_chain toy_digest (Some [Json (JObj toy_entry)]) ''g'' None = Inr None"
    unfolding verify_chain_iff using ok by auto
  ultimately show ?thesis
    using anchored_log_begins_with_original [of toy_digest "[Json (JObj toy_entry)]" "''g''"]
      verify_own_anchor [OF records_entry _ ok] by simp
qed

end
