(* ===== verification/Audit_Files.thy ===== *)
theory Audit_Files
  imports Hitl Audit_Chain
begin

text \<open>
  The audit files of the engine: the events as entries and the chained daily files of
  \<open>LocalJSONAuditLogger\<close> (\<open>core/round_table/senate_log.py\<close>), the compensating disable of
  \<open>core/live_worm.py\<close>, and the scan of the files for used nonces with its seal
  (\<open>core/hitl_gate.py\<close>).

  A directory is the list of its audit files, sorted by name, each the list of its lines;
  \<open>blen\<close> is the number of bytes of a line with its line break, \<open>H\<close> the digest, \<open>sign\<close> the signature
  of a digest (\<open>None\<close> without a key).
\<close>

section \<open>Events as entries\<close>

datatype audit_event =
    Chain chain_event
  | EulaAcceptance string string string string string string
  | TradingControl string string string string string
  | TradingSettings string string string string
  | AuditAblage string string string

definition jopt :: "string option \<Rightarrow> jval" where
  "jopt v = (case v of None \<Rightarrow> JNull | Some s \<Rightarrow> JStr s)"

definition texts :: "(string \<times> string) list \<Rightarrow> entry" where
  "texts = map (\<lambda>(k, v). (k, JStr v))"

definition AUDIT_ABLAGE_ARTEN :: "string list" where
  "AUDIT_ABLAGE_ARTEN = [''gateway_decision'', ''sell_reason'']"

definition execution_entry :: "execution_event \<Rightarrow> entry" where
  "execution_entry e =
     [(''event_type'', JStr ''hitl_execution''), (''timestamp'', JStr (ex_timestamp e)),
      (''symbol'', JStr (ex_symbol e)), (''action'', JStr (ex_action e)), (''branch'', JStr (ex_branch e)),
      (''policy_hash'', JStr (ex_policy_hash e)), (''order_value'', jfloat (ex_order_value e)),
      (''day_notional_after'', case ex_day_notional_after e of None \<Rightarrow> JNull | Some x \<Rightarrow> jfloat x),
      (''approval_id'', jopt (ex_approval_id e)), (''threshold_breached'', jopt (ex_threshold_breached e)),
      (''reason'', jopt (ex_reason e)), (''decision_id'', JNull), (''broker_order_id'', JNull),
      (''filled_qty'', JNull), (''filled_avg_price'', JNull), (''order_status'', JNull)]"

text \<open>\<open>_hitl_event_to_dict\<close>: \<open>None\<close> is the \<open>TypeError\<close>.\<close>

fun event_to_dict :: "audit_event \<Rightarrow> entry option" where
  "event_to_dict (Chain (HITLExecution e)) = Some (execution_entry e)"
| "event_to_dict (Chain (HITLPolicy t a old new)) =
     Some [(''event_type'', JStr ''hitl_policy''), (''timestamp'', JStr t), (''actor'', JStr a),
           (''old_policy'', JObj old), (''new_policy'', JObj new)]"
| "event_to_dict (Chain (LiveEnable t a act ack nonce sw)) =
     Some (texts [(''event_type'', ''live_enablement''), (''timestamp'', t), (''actor'', a), (''action'', act),
           (''acknowledgment'', ack), (''nonce'', nonce), (''switch_id'', sw)])"
| "event_to_dict (Chain (PortfolioShape t a ack nonce ch sw)) =
     Some (texts [(''event_type'', ''portfolio_shape_change''), (''timestamp'', t), (''actor'', a),
           (''acknowledgment'', ack), (''nonce'', nonce), (''changes'', ch), (''switch_id'', sw)])"
| "event_to_dict (Chain (SettingsChange t a ack nonce ch sw)) =
     Some (texts [(''event_type'', ''settings_change''), (''timestamp'', t), (''actor'', a),
           (''acknowledgment'', ack), (''nonce'', nonce), (''changes'', ch), (''switch_id'', sw)])"
| "event_to_dict (Chain (SettingsDeviationAck t a dec dev nonce sw)) =
     Some (texts [(''event_type'', ''settings_deviation_ack''), (''timestamp'', t), (''actor'', a),
           (''decision'', dec), (''deviations'', dev), (''nonce'', nonce), (''switch_id'', sw)])"
| "event_to_dict (Chain (ManualCancel t a i)) =
     Some (texts [(''event_type'', ''manual_order_cancel''), (''timestamp'', t), (''actor'', a), (''order_id'', i)])"
| "event_to_dict (EulaAcceptance t a doc ver sha app) =
     Some (texts [(''event_type'', ''eula_acceptance''), (''timestamp'', t), (''actor'', a), (''document'', doc),
           (''version'', ver), (''text_sha256'', sha), (''app_version'', app)])"
| "event_to_dict (TradingControl t a en vol app) =
     Some (texts [(''event_type'', ''trading_control''), (''timestamp'', t), (''actor'', a),
           (''vol_targeting_sizing_enabled'', en), (''vol_target_daily_vol'', vol), (''app_version'', app)])"
| "event_to_dict (TradingSettings t a app st) =
     Some (texts [(''event_type'', ''trading_settings_seal''), (''timestamp'', t), (''actor'', a),
           (''app_version'', app), (''settings'', st)])"
| "event_to_dict (AuditAblage t art daten) =
     (if art \<in> set AUDIT_ABLAGE_ARTEN
      then Some (texts [(''event_type'', art), (''timestamp'', t), (''daten'', daten)]) else None)"

text \<open>The entry of a session of the round table.\<close>

record senate_session =
  ss_session_id :: string
  ss_symbol :: string
  ss_timestamp :: string
  ss_votes :: "jval list"
  ss_consensus_score :: real
  ss_gatekeeper_approved :: bool
  ss_gatekeeper_reason :: string
  ss_signal_action :: "string option"
  ss_decision_id :: "string option"

definition session_entry :: "senate_session \<Rightarrow> entry" where
  "session_entry s =
     [(''decision_id'', jopt (ss_decision_id s)), (''session_id'', JStr (ss_session_id s)),
      (''symbol'', JStr (ss_symbol s)), (''timestamp'', JStr (ss_timestamp s)),
      (''consensus_score'', JNum (ss_consensus_score s)),
      (''gatekeeper_approved'', JBool (ss_gatekeeper_approved s)),
      (''gatekeeper_reason'', JStr (ss_gatekeeper_reason s)), (''signal_action'', jopt (ss_signal_action s)),
      (''votes'', JList (ss_votes s))]"

section \<open>The daily files\<close>

record audit_dir =
  ad_files :: "(string \<times> wert list) list"
  ad_head :: string
  ad_disk_check_failed :: bool
  ad_write_ok :: nat
  ad_write_fail :: nat

definition audit_prefix :: string where "audit_prefix = ''audit_log_''"

definition audit_suffix :: string where "audit_suffix = ''.jsonl''"

definition log_name :: "string \<Rightarrow> string" where
  "log_name day = audit_prefix @ day @ audit_suffix"

text \<open>The lines that start after the offset \<open>start\<close>; the one cut by it is dropped.\<close>

fun lines_after :: "(wert \<Rightarrow> nat) \<Rightarrow> nat \<Rightarrow> nat \<Rightarrow> wert list \<Rightarrow> wert list" where
  "lines_after blen start off [] = []"
| "lines_after blen start off (l # ls) =
     (if start < off then l # ls else lines_after blen start (off + blen l) ls)"

text \<open>The newest hash among the lines, youngest first; a line that is JSON but no object raises.\<close>

fun newest_hash :: "wert list \<Rightarrow> py_error + string option" where
  "newest_hash [] = Inr None"
| "newest_hash (l # ls) =
     (case json_loads l of
        None \<Rightarrow> newest_hash ls
      | Some (JObj e) \<Rightarrow>
          (case jget e ''hash'' of JStr h \<Rightarrow> if length h = 64 then Inr (Some h) else newest_hash ls | _ \<Rightarrow> newest_hash ls)
      | Some _ \<Rightarrow> Inl AttributeError)"

definition tail_windows :: "nat list" where
  "tail_windows = [64 * 1024, 1024 * 1024, 16 * 1024 * 1024]"

fun hash_in_windows :: "(wert \<Rightarrow> nat) \<Rightarrow> nat list \<Rightarrow> wert list \<Rightarrow> py_error + string option" where
  "hash_in_windows blen [] ls = Inr None"
| "hash_in_windows blen (w # ws) ls =
     (let size = sum_list (map blen ls); start = size - w
      in case newest_hash (rev (if 0 < start then lines_after blen start 0 ls else ls)) of
           Inl e \<Rightarrow> Inl e
         | Inr (Some h) \<Rightarrow> Inr (Some h)
         | Inr None \<Rightarrow> if start = 0 then Inr None else hash_in_windows blen ws ls)"

definition last_hash_in_tail :: "(wert \<Rightarrow> nat) \<Rightarrow> wert list \<Rightarrow> py_error + string option" where
  "last_hash_in_tail blen ls =
     (if sum_list (map blen ls) = 0 then Inr None else hash_in_windows blen tail_windows ls)"

text \<open>
  From the newest file back. A file that cannot be read (its name is in \<open>bad\<close>) is skipped; any other exception,
  and a directory that cannot be listed, starts the chain anew.
\<close>

fun recover_files :: "(wert \<Rightarrow> nat) \<Rightarrow> string list \<Rightarrow> (string \<times> wert list) list \<Rightarrow> string" where
  "recover_files blen bad [] = GENESIS_HASH"
| "recover_files blen bad ((f, ls) # fs) =
     (if f \<in> set bad then recover_files blen bad fs
      else case last_hash_in_tail blen ls of
             Inl _ \<Rightarrow> GENESIS_HASH
           | Inr (Some h) \<Rightarrow> h
           | Inr None \<Rightarrow> recover_files blen bad fs)"

definition recover_last_hash :: "(wert \<Rightarrow> nat) \<Rightarrow> bool \<Rightarrow> string list \<Rightarrow> (string \<times> wert list) list \<Rightarrow> string" where
  "recover_last_hash blen listed bad files = (if listed then recover_files blen bad (rev files) else GENESIS_HASH)"

definition open_logger :: "(wert \<Rightarrow> nat) \<Rightarrow> bool \<Rightarrow> string list \<Rightarrow> audit_dir \<Rightarrow> audit_dir" where
  "open_logger blen listed bad d =
     d\<lparr>ad_head := recover_last_hash blen listed bad (ad_files d), ad_disk_check_failed := False\<rparr>"

text \<open>Appending a line to the file of a name, which is created where it belongs.\<close>

fun put_line :: "string \<Rightarrow> wert \<Rightarrow> (string \<times> wert list) list \<Rightarrow> (string \<times> wert list) list" where
  "put_line f l [] = [(f, [l])]"
| "put_line f l ((g, ls) # fs) =
     (if f = g then (g, ls @ [l]) # fs
      else if f < g then (f, [l]) # (g, ls) # fs
      else (g, ls) # put_line f l fs)"

definition signed_entry :: "digest \<Rightarrow> (string \<Rightarrow> string option) \<Rightarrow> string \<Rightarrow> entry \<Rightarrow> entry" where
  "signed_entry H sign prev e =
     (let e1 = dict_set ''prev_hash'' (JStr prev) e;
          h = H (Json (jsort (JObj e1)));
          e2 = dict_set ''hash'' (JStr h) e1
      in if jget e ''event_type'' = JStr ''live_enablement'' then dict_set ''sig'' (jopt (sign h)) e2 else e2)"

definition new_hash :: "digest \<Rightarrow> string \<Rightarrow> entry \<Rightarrow> string" where
  "new_hash H prev e = H (Json (jsort (JObj (dict_set ''prev_hash'' (JStr prev) e))))"

definition haenge_an :: "digest \<Rightarrow> (string \<Rightarrow> string option) \<Rightarrow> string \<Rightarrow> entry \<Rightarrow> audit_dir \<Rightarrow> audit_dir" where
  "haenge_an H sign day e d =
     d\<lparr>ad_files := put_line (log_name day) (Json (JObj (signed_entry H sign (ad_head d) e))) (ad_files d),
       ad_head := new_hash H (ad_head d) e\<rparr>"

text \<open>\<open>_write_to_hash_chain\<close>: what the disk has left, and whether the write of the line succeeds.\<close>

definition write_to_hash_chain ::
  "digest \<Rightarrow> (string \<Rightarrow> string option) \<Rightarrow> int \<Rightarrow> bool \<Rightarrow> string \<Rightarrow> entry \<Rightarrow> audit_dir \<Rightarrow> audit_dir" where
  "write_to_hash_chain H sign free io_ok day e d =
     (if free < 100 * 1024 * 1024 then d\<lparr>ad_disk_check_failed := True\<rparr>
      else let d1 = d\<lparr>ad_disk_check_failed := False\<rparr>
           in if io_ok then (haenge_an H sign day e d1)\<lparr>ad_write_ok := Suc (ad_write_ok d1)\<rparr>
              else d1\<lparr>ad_write_fail := Suc (ad_write_fail d1)\<rparr>)"

definition local_log_event ::
  "digest \<Rightarrow> (string \<Rightarrow> string option) \<Rightarrow> int \<Rightarrow> bool \<Rightarrow> string \<Rightarrow> audit_event \<Rightarrow> audit_dir \<Rightarrow> audit_dir \<times> (py_error + unit)" where
  "local_log_event H sign free io_ok day ev d =
     (case event_to_dict ev of
        None \<Rightarrow> (d, Inl TypeError)
      | Some e \<Rightarrow> (write_to_hash_chain H sign free io_ok day e d, Inr ()))"

text \<open>What this logger is as a sink of the gate's events.\<close>

definition local_sink :: "int \<Rightarrow> bool \<Rightarrow> chain_event \<Rightarrow> sink_result" where
  "local_sink free io_ok e = (if free < 100 * 1024 * 1024 \<or> \<not> io_ok then Dropped else Taken)"

text \<open>\<open>revoke_live\<close>: whether the compensating disable is reported as written.\<close>

definition revoke_live ::
  "(chain_event \<Rightarrow> sink_result) \<Rightarrow> string \<Rightarrow> string \<Rightarrow> string \<Rightarrow> string \<Rightarrow> string option \<Rightarrow> chain_event list
     \<Rightarrow> chain_event list \<times> bool" where
  "revoke_live sink zeit reason actor nonce switch_id chain =
     (case log_live_enablement_event sink zeit ''disable'' reason nonce actor switch_id True chain of
        (c, Inl _) \<Rightarrow> (c, False)
      | (c, Inr _) \<Rightarrow> (c, True))"

definition revoke_cli ::
  "(chain_event \<Rightarrow> sink_result) \<Rightarrow> string \<Rightarrow> string \<Rightarrow> string \<Rightarrow> string \<Rightarrow> string option \<Rightarrow> chain_event list
     \<Rightarrow> chain_event list \<times> nat" where
  "revoke_cli sink zeit reason actor nonce switch_id chain =
     (case log_live_enablement_event sink zeit ''disable'' reason nonce actor switch_id True chain of
        (c, Inl _) \<Rightarrow> (c, 1)
      | (c, Inr _) \<Rightarrow> (c, 0))"

section \<open>The chain across files\<close>

text \<open>An entry as its callers hand it over: without the fields the logger adds.\<close>

definition plain :: "entry \<Rightarrow> bool" where
  "plain e = (map_of e ''prev_hash'' = None \<and> map_of e ''hash'' = None \<and> map_of e ''sig'' = None)"

lemma event_plain: "event_to_dict ev = Some e \<Longrightarrow> plain e"
  by (cases ev rule: event_to_dict.cases) (auto simp: plain_def execution_entry_def texts_def AUDIT_ABLAGE_ARTEN_def split: if_splits)

lemma session_plain: "plain (session_entry s)"
  by (simp add: plain_def session_entry_def)

text \<open>The digest of a record is over its fields without \<open>hash\<close> and \<open>sig\<close>.\<close>

definition senate_hash :: "digest \<Rightarrow> entry \<Rightarrow> string" where
  "senate_hash H e = H (Json (jsort (JObj (dict_del ''sig'' (dict_del ''hash'' e)))))"

fun linked :: "digest \<Rightarrow> string \<Rightarrow> entry list \<Rightarrow> bool" where
  "linked H prev [] = True"
| "linked H prev (e # es) =
     (jget e ''prev_hash'' = JStr prev \<and> jget e ''hash'' = JStr (senate_hash H e) \<and> linked H (senate_hash H e) es)"

definition chain_head :: "digest \<Rightarrow> string \<Rightarrow> entry list \<Rightarrow> string" where
  "chain_head H prev es = (if es = [] then prev else senate_hash H (last es))"

lemma linked_snoc:
  "linked H prev (es @ [e]) \<longleftrightarrow> linked H prev es \<and> jget e ''prev_hash'' = JStr (chain_head H prev es)
     \<and> jget e ''hash'' = JStr (senate_hash H e)"
  by (induction es arbitrary: prev) (auto simp: chain_head_def)

lemma dict_del_set_same: "map_of d k = None \<Longrightarrow> dict_del k (dict_set k v d) = d"
  by (induction d) (auto simp: dict_del_def split: if_splits)

lemma dict_del_set_other: "k \<noteq> j \<Longrightarrow> dict_del k (dict_set j v d) = dict_set j v (dict_del k d)"
  by (induction d) (auto simp: dict_del_def)

lemma dict_del_none: "map_of d k = None \<Longrightarrow> dict_del k d = d"
  by (rule dict_del_absent) (simp add: map_of_eq_None_iff)

lemma signed_entry_hash:
  assumes "plain e"
  shows "senate_hash H (signed_entry H sign prev e) = new_hash H prev e
    \<and> jget (signed_entry H sign prev e) ''hash'' = JStr (new_hash H prev e)
    \<and> jget (signed_entry H sign prev e) ''prev_hash'' = JStr prev"
proof -
  let ?e1 = "dict_set ''prev_hash'' (JStr prev) e"
  have n: "map_of ?e1 ''hash'' = None" "map_of ?e1 ''sig'' = None" using assms by (simp_all add: plain_def)
  have a: "dict_del ''sig'' (dict_del ''hash'' (dict_set ''hash'' v ?e1)) = ?e1" for v
    using n by (simp add: dict_del_set_same dict_del_none)
  have b: "dict_del ''sig'' (dict_del ''hash'' (dict_set ''sig'' u (dict_set ''hash'' v ?e1))) = ?e1" for u v
    using n by (simp add: dict_del_set_other dict_del_set_same)
  show ?thesis
    by (simp add: signed_entry_def senate_hash_def new_hash_def Let_def a b jget_def)
qed

section \<open>What a restart finds\<close>

lemma lines_after_snoc:
  "lines_after blen start off (ls @ [l]) =
     (if start < off + sum_list (map blen ls) then lines_after blen start off ls @ [l] else [])"
  by (induction ls arbitrary: off) (auto simp: add.assoc)

definition hash_line :: "string \<Rightarrow> wert \<Rightarrow> bool" where
  "hash_line h l = (\<exists>e. l = Json (JObj e) \<and> jget e ''hash'' = JStr h \<and> length h = 64)"

lemma newest_hash_snoc: "hash_line h l \<Longrightarrow> newest_hash (rev (ls @ [l])) = Inr (Some h)"
  by (auto simp: hash_line_def)

lemma hash_in_windows_last:
  assumes "hash_line h l" "0 < blen l" "\<exists>w \<in> set ws. blen l < w"
  shows "hash_in_windows blen ws (ls @ [l]) = Inr (Some h)"
  using assms(3)
proof (induction ws)
  case (Cons w ws)
  let ?size = "sum_list (map blen (ls @ [l]))"
  show ?case
  proof (cases "0 < ?size - w")
    case True
    then have eq: "?size - w < sum_list (map blen ls) \<longleftrightarrow> blen l < w" by auto
    show ?thesis
    proof (cases "blen l < w")
      case t: True
      then have "lines_after blen (?size - w) 0 (ls @ [l]) = lines_after blen (?size - w) 0 ls @ [l]"
        using eq by (simp only: lines_after_snoc add_0 if_True)
      then show ?thesis
        using True newest_hash_snoc [OF assms(1)] by (simp add: Let_def)
    next
      case False
      then have "lines_after blen (?size - w) 0 (ls @ [l]) = []"
        using eq by (simp only: lines_after_snoc add_0 if_False)
      moreover have "hash_in_windows blen ws (ls @ [l]) = Inr (Some h)" using Cons False by auto
      ultimately show ?thesis using True by (simp add: Let_def)
    qed
  next
    case False
    then show ?thesis using newest_hash_snoc [OF assms(1), of ls] by (simp add: Let_def)
  qed
qed simp

lemma last_hash_found:
  assumes "hash_line h l" "0 < blen l" "blen l < 16777216"
  shows "last_hash_in_tail blen (ls @ [l]) = Inr (Some h)"
proof -
  have "hash_in_windows blen tail_windows (ls @ [l]) = Inr (Some h)"
    by (rule hash_in_windows_last [of h l blen]) (use assms in \<open>simp_all add: tail_windows_def\<close>)
  with assms(2) show ?thesis by (simp add: last_hash_in_tail_def)
qed

lemma recover_newest:
  assumes "hash_line h l" "0 < blen l" "blen l < 16777216"
  shows "recover_last_hash blen True [] (fs @ [(f, ls @ [l])]) = h"
  using last_hash_found [of h l blen ls] assms by (simp add: recover_last_hash_def)

lemma put_line_newest:
  assumes "sorted_wrt (<) (map fst fs)" "\<forall>g \<in> fst ` set fs. g \<le> f"
  shows "\<exists>fs' ls. put_line f l fs = fs' @ [(f, ls @ [l])] \<and> concat (map snd fs) = concat (map snd fs') @ ls
    \<and> sorted_wrt (<) (map fst (put_line f l fs)) \<and> fst ` set (put_line f l fs) = insert f (fst ` set fs)"
  using assms
proof (induction fs)
  case Nil
  show ?case by (intro exI [of _ "[]"]) simp
next
  case (Cons x fs)
  obtain g ls where x: "x = (g, ls)" by (cases x)
  show ?case
  proof (cases "f = g")
    case True
    have "fs = []"
    proof (cases fs)
      case (Cons y ys)
      with Cons.prems True x show ?thesis by (auto simp: not_less [symmetric])
    qed
    with True x show ?thesis by (intro exI [of _ "[]"] exI [of _ ls]) simp
  next
    case False
    then have lt: "g < f" "\<not> f < g" using Cons.prems(2) x by (auto simp: order.order_iff_strict)
    from Cons obtain fs' ls' where "put_line f l fs = fs' @ [(f, ls' @ [l])]"
      "concat (map snd fs) = concat (map snd fs') @ ls'"
      "sorted_wrt (<) (map fst (put_line f l fs))" "fst ` set (put_line f l fs) = insert f (fst ` set fs)" by auto
    moreover have "\<forall>y \<in> set (map fst (put_line f l fs)). g < y"
      using calculation(4) lt(1) Cons.prems(1) x by auto
    ultimately show ?thesis
      using False lt x by (intro exI [of _ "(g, ls) # fs'"] exI [of _ ls']) auto
  qed
qed

section \<open>Restarts\<close>

text \<open>
  What happens to the directory: an entry is to be written on a day, or the logger starts anew, where the directory
  may not be listed and some files not be read.
\<close>

datatype dir_op = Write string int bool entry | Restart bool "string list"

fun dir_step :: "digest \<Rightarrow> (string \<Rightarrow> string option) \<Rightarrow> (wert \<Rightarrow> nat) \<Rightarrow> dir_op \<Rightarrow> audit_dir \<Rightarrow> audit_dir" where
  "dir_step H sign blen (Write day free io_ok e) d = write_to_hash_chain H sign free io_ok day e d"
| "dir_step H sign blen (Restart listed bad) d = open_logger blen listed bad d"

definition empty_dir :: audit_dir where
  "empty_dir = \<lparr>ad_files = [], ad_head = GENESIS_HASH, ad_disk_check_failed = False, ad_write_ok = 0, ad_write_fail = 0\<rparr>"

fun op_names :: "dir_op list \<Rightarrow> string list" where
  "op_names [] = []"
| "op_names (Write day _ _ _ # ops) = log_name day # op_names ops"
| "op_names (Restart _ _ # ops) = op_names ops"

lemma op_names_append: "op_names (as @ bs) = op_names as @ op_names bs"
  by (induction as rule: op_names.induct) auto

fun op_plain :: "dir_op \<Rightarrow> bool" where
  "op_plain (Write _ _ _ e) = plain e"
| "op_plain (Restart listed bad) = (listed \<and> bad = [])"

definition dir_ok :: "digest \<Rightarrow> (wert \<Rightarrow> nat) \<Rightarrow> audit_dir \<Rightarrow> bool" where
  "dir_ok H blen d =
     (sorted_wrt (<) (map fst (ad_files d)) \<and> recover_last_hash blen True [] (ad_files d) = ad_head d \<and>
      (\<exists>es. records (concat (map snd (ad_files d))) = Some es \<and> linked H GENESIS_HASH es \<and>
            ad_head d = chain_head H GENESIS_HASH es))"

lemma haenge_an_ok:
  assumes "dir_ok H blen d" "plain e" "\<forall>f \<in> fst ` set (ad_files d). f \<le> log_name day"
    "\<forall>t. length (H t) = 64" "\<forall>l. 0 < blen l \<and> blen l < 16777216"
  shows "dir_ok H blen (haenge_an H sign day e d)
    \<and> fst ` set (ad_files (haenge_an H sign day e d)) = insert (log_name day) (fst ` set (ad_files d))"
proof -
  let ?s = "signed_entry H sign (ad_head d) e" and ?h = "new_hash H (ad_head d) e"
  let ?l = "Json (JObj ?s)"
  obtain es where es: "sorted_wrt (<) (map fst (ad_files d))" "records (concat (map snd (ad_files d))) = Some es"
      "linked H GENESIS_HASH es" "ad_head d = chain_head H GENESIS_HASH es"
    using assms(1) by (auto simp: dir_ok_def)
  note sh = signed_entry_hash [OF assms(2), of H sign "ad_head d"]
  obtain fs' ls where new: "put_line (log_name day) ?l (ad_files d) = fs' @ [(log_name day, ls @ [?l])]"
      "concat (map snd (ad_files d)) = concat (map snd fs') @ ls"
      "sorted_wrt (<) (map fst (put_line (log_name day) ?l (ad_files d)))"
      "fst ` set (put_line (log_name day) ?l (ad_files d)) = insert (log_name day) (fst ` set (ad_files d))"
    using put_line_newest [OF es(1) assms(3), of ?l] by blast
  have lines: "concat (map snd (put_line (log_name day) ?l (ad_files d))) = concat (map snd (ad_files d)) @ [?l]"
    by (simp add: new(1,2))
  have "length ?h = 64" using assms(4) by (simp add: new_hash_def)
  then have "hash_line ?h ?l" using sh by (simp add: hash_line_def)
  then have rec: "recover_last_hash blen True [] (put_line (log_name day) ?l (ad_files d)) = ?h"
    unfolding new(1) by (rule recover_newest) (use assms(5) in auto)
  have "records (concat (map snd (ad_files d)) @ [?l]) = Some (es @ [?s])"
    by (simp add: records_append es(2))
  moreover have "linked H GENESIS_HASH (es @ [?s])" using es(3,4) sh by (simp add: linked_snoc)
  moreover have "chain_head H GENESIS_HASH (es @ [?s]) = ?h" using sh by (simp add: chain_head_def)
  ultimately have "\<exists>es. records (concat (map snd (ad_files (haenge_an H sign day e d)))) = Some es
      \<and> linked H GENESIS_HASH es \<and> ad_head (haenge_an H sign day e d) = chain_head H GENESIS_HASH es"
    by (intro exI [of _ "es @ [?s]"]) (simp add: haenge_an_def lines)
  with new(3,4) rec show ?thesis by (simp add: dir_ok_def haenge_an_def)
qed

lemma dir_ok_flags:
  "dir_ok H blen (d\<lparr>ad_disk_check_failed := a\<rparr>) = dir_ok H blen d"
  "dir_ok H blen (d\<lparr>ad_write_ok := n\<rparr>) = dir_ok H blen d"
  "dir_ok H blen (d\<lparr>ad_write_fail := n\<rparr>) = dir_ok H blen d"
  by (simp_all add: dir_ok_def)

lemma write_ok:
  assumes "dir_ok H blen d" "plain e" "\<forall>f \<in> fst ` set (ad_files d). f \<le> log_name day"
    "\<forall>t. length (H t) = 64" "\<forall>l. 0 < blen l \<and> blen l < 16777216"
  shows "dir_ok H blen (write_to_hash_chain H sign free io_ok day e d)
    \<and> fst ` set (ad_files (write_to_hash_chain H sign free io_ok day e d)) \<subseteq> insert (log_name day) (fst ` set (ad_files d))"
proof -
  let ?d = "d\<lparr>ad_disk_check_failed := False\<rparr>"
  have ok: "dir_ok H blen ?d" "\<forall>f \<in> fst ` set (ad_files ?d). f \<le> log_name day"
    using assms(1,3) by (simp_all add: dir_ok_flags)
  show ?thesis
    using haenge_an_ok [OF ok(1) assms(2) ok(2) assms(4,5), of sign] assms(1)
    by (auto simp: write_to_hash_chain_def dir_ok_flags Let_def)
qed

lemma dir_run_ok:
  assumes "\<forall>t. length (H t) = 64" "\<forall>l. 0 < blen l \<and> blen l < 16777216"
    "sorted (op_names ops)" "list_all op_plain ops"
  shows "dir_ok H blen (fold (dir_step H sign blen) ops empty_dir)
    \<and> fst ` set (ad_files (fold (dir_step H sign blen) ops empty_dir)) \<subseteq> set (op_names ops)"
  using assms(3,4)
proof (induction ops rule: rev_induct)
  case Nil
  show ?case by (simp add: dir_ok_def empty_dir_def recover_last_hash_def chain_head_def)
next
  case (snoc a ops)
  let ?d = "fold (dir_step H sign blen) ops empty_dir"
  have IH: "dir_ok H blen ?d" "fst ` set (ad_files ?d) \<subseteq> set (op_names ops)"
    using snoc by (auto simp: op_names_append sorted_append)
  show ?case
  proof (cases a)
    case (Write day free io_ok e)
    have "\<forall>f \<in> fst ` set (ad_files ?d). f \<le> log_name day"
      using IH(2) snoc.prems(1) by (auto simp: Write op_names_append sorted_append)
    with write_ok [OF IH(1) _ _ assms(1,2), of e day sign free io_ok] snoc.prems(2)
    have w: "dir_ok H blen (write_to_hash_chain H sign free io_ok day e ?d)"
      "fst ` set (ad_files (write_to_hash_chain H sign free io_ok day e ?d)) \<subseteq> insert (log_name day) (fst ` set (ad_files ?d))"
      by (simp_all add: Write)
    have "fst ` set (ad_files (write_to_hash_chain H sign free io_ok day e ?d)) \<subseteq> set (op_names (ops @ [a]))"
      by (rule subset_trans [OF w(2)]) (use IH(2) in \<open>auto simp: Write op_names_append\<close>)
    with w(1) show ?thesis by (simp add: Write)
  next
    case (Restart listed bad)
    then have b: "listed" "bad = []" using snoc.prems(2) by simp_all
    then have "open_logger blen listed bad ?d = ?d\<lparr>ad_disk_check_failed := False\<rparr>"
      using IH(1) by (simp add: open_logger_def dir_ok_def)
    with IH show ?thesis by (simp add: Restart op_names_append dir_ok_flags)
  qed
qed

text \<open>
  C29: Neither restarts nor the change of the day, nor writes that fail or are suspended, fork the chain:
  as long as the clock does not go back to an earlier day and each restart can list the directory and read its
  files, the records of all files, in the order of the
  files, are one linked chain from the genesis hash, and its head is what a restart finds.
\<close>

theorem restarts_never_fork:
  assumes "\<forall>t. length (H t) = 64" "\<forall>l. 0 < blen l \<and> blen l < 16777216"
    "sorted (op_names ops)" "list_all op_plain ops" "d = fold (dir_step H sign blen) ops empty_dir"
  shows "\<exists>es. records (concat (map snd (ad_files d))) = Some es \<and> linked H GENESIS_HASH es
    \<and> ad_head d = chain_head H GENESIS_HASH es \<and> ad_head (open_logger blen True [] d) = ad_head d"
  using dir_run_ok [OF assms(1-4), of sign] assms(5) by (auto simp: dir_ok_def open_logger_def)

definition toy_session :: senate_session where
  "toy_session = \<lparr>ss_session_id = ''s'', ss_symbol = ''AAPL'', ss_timestamp = ''t'', ss_votes = [],
     ss_consensus_score = 1 / 2, ss_gatekeeper_approved = True, ss_gatekeeper_reason = ''r'',
     ss_signal_action = None, ss_decision_id = None\<rparr>"

lemma restarts_never_fork_witness:
  "\<exists>es. records (concat (map snd (ad_files (fold (dir_step (\<lambda>t. GENESIS_HASH) (\<lambda>h. None) (\<lambda>l. 100))
     [Write ''2026-01-01'' 200000000 True (session_entry toy_session), Restart True []] empty_dir)))) = Some es
     \<and> linked (\<lambda>t. GENESIS_HASH) GENESIS_HASH es"
  using restarts_never_fork [of "\<lambda>t. GENESIS_HASH" "\<lambda>l. 100"
      "[Write ''2026-01-01'' 200000000 True (session_entry toy_session), Restart True []]" _ "\<lambda>h. None", OF _ _ _ _ refl]
    session_plain
  by (auto simp: GENESIS_HASH_def)

text \<open>
  A clock that goes back to an earlier day forks it: the record goes to the older file, and after a
  restart the next record refers to the same predecessor.
\<close>

lemma put_line_older:
  "f < g \<Longrightarrow> \<exists>fs'. put_line f l (fs @ [(g, ls)]) = fs' @ [(g, ls)]"
proof (induction fs)
  case (Cons x fs)
  then obtain fs' where "put_line f l (fs @ [(g, ls)]) = fs' @ [(g, ls)]" by auto
  then show ?case
    by (cases x) (auto intro: exI [of _ "(fst x, snd x @ [l]) # fs"] exI [of _ "(f, [l]) # x # fs"] exI [of _ "x # fs'"])
qed auto

theorem clock_step_back_forks:
  assumes "ad_files d = fs @ [(g, ls)]" "last_hash_in_tail blen ls = Inr (Some (ad_head d))" "log_name day < g"
  shows "ad_head (open_logger blen True [] (haenge_an H sign day e d)) = ad_head d"
proof -
  obtain fs' where "put_line (log_name day) (Json (JObj (signed_entry H sign (ad_head d) e))) (ad_files d) = fs' @ [(g, ls)]"
    using put_line_older [OF assms(3)] assms(1) by metis
  with assms(2) show ?thesis by (simp add: open_logger_def haenge_an_def recover_last_hash_def)
qed

text \<open>
  A newest file that cannot be read at a start forks it too: it is skipped, the head is that of the older
  files, and the next record refers to a predecessor that already has a successor.
\<close>

theorem unreadable_file_forks:
  assumes "g \<notin> fst ` set fs"
  shows "recover_last_hash blen True [g] (fs @ [(g, ls)]) = recover_last_hash blen True [] fs"
proof -
  have "recover_files blen [g] xs = recover_files blen [] xs" if "g \<notin> fst ` set xs" for xs
    using that by (induction xs) (auto split: sum.split option.split)
  then show ?thesis using assms by (simp add: recover_last_hash_def)
qed

theorem unreadable_file_forks_witness:
  "recover_last_hash (\<lambda>l. 100) True [''b''] ([(''a'', [])] @ [(''b'', [Zahl 1])]) = recover_last_hash (\<lambda>l. 100) True [] [(''a'', [])]"
  by (rule unreadable_file_forks) simp

text \<open>A line that is JSON but no object restarts the chain at the genesis hash, as if the log were empty.\<close>

theorem stray_value_restarts_chain:
  assumes "0 < blen (Zahl r)" "blen (Zahl r) < 65536"
  shows "recover_last_hash blen True [] (fs @ [(f, ls @ [Zahl r])]) = GENESIS_HASH"
proof -
  let ?size = "sum_list (map blen (ls @ [Zahl r]))"
  have "hash_in_windows blen (65536 # ws) (ls @ [Zahl r]) = Inl AttributeError" for ws
  proof (cases "0 < ?size - 65536")
    case True
    then have "?size - 65536 < 0 + sum_list (map blen ls)" using assms(2) by auto
    then have "lines_after blen (?size - 65536) 0 (ls @ [Zahl r]) = lines_after blen (?size - 65536) 0 ls @ [Zahl r]"
      by (simp only: lines_after_snoc if_True)
    with True show ?thesis by (simp add: Let_def)
  qed (simp add: Let_def)
  then have "last_hash_in_tail blen (ls @ [Zahl r]) = Inl AttributeError"
    using assms(1) by (simp add: last_hash_in_tail_def tail_windows_def)
  then show ?thesis by (simp add: recover_last_hash_def)
qed

section \<open>The signed record and the package's verifier\<close>

text \<open>
  The verifier of the package takes a live enablement written by the engine for a forgery: its
  pre-image includes the signature, which the engine adds after hashing.
\<close>

theorem signed_record_fails_verifier:
  assumes "plain e" "jget e ''event_type'' = JStr ''live_enablement''"
  shows "verify_lines H None i n prev [Json (JObj (signed_entry H sign prev e))] = Inr (Inl (HashMismatch i)) \<or> collision H"
proof (rule disjCI)
  assume nc: "\<not> collision H"
  let ?s = "signed_entry H sign prev e" and ?e1 = "dict_set ''prev_hash'' (JStr prev) e"
  note sh = signed_entry_hash [OF assms(1), of H sign prev]
  have et: "jget e ''event_type'' = JStr ''live_enablement''" by (rule assms(2))
  have "map_of ?s ''sig'' = Some (jopt (sign (H (Json (jsort (JObj ?e1))))))"
    by (simp add: signed_entry_def Let_def et)
  then have a: "map_of (sort_key fst (map (\<lambda>(k, v). (k, jsort v)) (dict_del ''hash'' ?s))) ''sig'' \<noteq> None"
    by (simp only: map_of_sort_key map_of_map_snd dict_del_lookup) simp
  have "map_of (sort_key fst (map (\<lambda>(k, v). (k, jsort v)) ?e1)) ''sig'' = None"
    using assms(1) by (simp only: map_of_sort_key map_of_map_snd dict_set_lookup plain_def) simp
  with a have "sort_key fst (map (\<lambda>(k, v). (k, jsort v)) (dict_del ''hash'' ?s))
      \<noteq> sort_key fst (map (\<lambda>(k, v). (k, jsort v)) ?e1)" by metis
  then have "canonical_preimage ?s \<noteq> Json (jsort (JObj ?e1))"
    by (simp add: canonical_preimage_def)
  then have "entry_hash H ?s \<noteq> new_hash H prev e"
    using nc unfolding entry_hash_def new_hash_def collision_def by blast
  with sh show "verify_lines H None i n prev [Json (JObj ?s)] = Inr (Inl (HashMismatch i))" by simp
qed

section \<open>A disable reported as written\<close>

text \<open>
  On a full disk, or when the write fails, the local chain takes nothing and raises nothing: the
  compensating disable is reported as durably written although the chain is unchanged.
\<close>

theorem full_disk_reports_written:
  assumes "free < 100 * 1024 * 1024 \<or> \<not> io_ok"
  shows "revoke_live (local_sink free io_ok) zeit reason actor nonce sw chain = (chain, True)
    \<and> revoke_cli (local_sink free io_ok) zeit reason actor nonce sw chain = (chain, 0)"
  using assms
  by (simp add: revoke_live_def revoke_cli_def log_live_enablement_event_def strikt_def log_hitl_event_def logged_def
      local_sink_def)

end
