(* ===== verification/Nonce_Scan.thy ===== *)
theory Nonce_Scan
  imports Audit_Files
begin

text \<open>
  The scan of the audit files for nonces that were used for a live enablement, and the seal that lets
  it skip what was read before (\<open>collect_live_enablement_nonces\<close> of \<open>core/hitl_gate.py\<close>).

  A log is the list of its files, sorted by name. Byte offsets are those of the lines, \<open>blen\<close> bytes
  each; an offset inside a line counts as a failed anchor. \<open>str_of\<close> is Python's \<open>str\<close> of a JSON value.
\<close>

section \<open>The seal\<close>

type_synonym audit_log = "(string \<times> wert list) list"

record seal =
  sl_version :: int
  sl_last_file :: string
  sl_last_line_count :: nat
  sl_anchor_offset :: nat
  sl_last_hash :: jval
  sl_nonces :: "string list"
  sl_content_hash :: string

text \<open>What stands at the place of the seal: nothing, a seal, or something that is no seal.\<close>

datatype seal_file = No_seal | Seal seal | Broken_seal

definition SIEGEL_FASSUNG :: int where "SIEGEL_FASSUNG = 2"

fun join :: "string \<Rightarrow> string list \<Rightarrow> string" where
  "join sep [] = []"
| "join sep [x] = x"
| "join sep (x # xs) = x @ sep @ join sep xs"

definition siegel_pruefsumme :: "digest \<Rightarrow> (jval \<Rightarrow> string) \<Rightarrow> seal \<Rightarrow> string" where
  "siegel_pruefsumme H str_of s =
     H (Text (join ''|'' ([str_of (JNum (of_int (sl_version s))), sl_last_file s, dez (sl_last_line_count s),
                           dez (sl_anchor_offset s), str_of (sl_last_hash s)] @ sort (sl_nonces s))))"

text \<open>The line that starts at an offset and the lines after it.\<close>

fun line_at :: "(wert \<Rightarrow> nat) \<Rightarrow> nat \<Rightarrow> wert list \<Rightarrow> (wert \<times> wert list) option" where
  "line_at blen off [] = None"
| "line_at blen off (l # ls) =
     (if off = 0 then Some (l, ls) else if off < blen l then None else line_at blen (off - blen l) ls)"

text \<open>A seal is believed: its version, its checksum and its anchor. The lines after the anchor.\<close>

definition believe :: "digest \<Rightarrow> (jval \<Rightarrow> string) \<Rightarrow> (wert \<Rightarrow> nat) \<Rightarrow> audit_log \<Rightarrow> seal_file \<Rightarrow> (seal \<times> wert \<times> wert list) option" where
  "believe H str_of blen lg sf =
     (case sf of
        Seal s \<Rightarrow>
          (if sl_version s = SIEGEL_FASSUNG \<and> sl_content_hash s = siegel_pruefsumme H str_of s
           then (case map_of lg (sl_last_file s) of
                   None \<Rightarrow> None
                 | Some ls \<Rightarrow>
                     (case line_at blen (sl_anchor_offset s) ls of
                        None \<Rightarrow> None
                      | Some (l, rest) \<Rightarrow>
                          (case json_loads l of
                             Some (JObj e) \<Rightarrow> if jget e ''hash'' = sl_last_hash s then Some (s, l, rest) else None
                           | _ \<Rightarrow> None)))
           else None)
      | _ \<Rightarrow> None)"

section \<open>The scan\<close>

text \<open>What is known: the nonces seen, and the newest line with a hash: file, line number, offset, hash.\<close>

type_synonym scan_state = "string list \<times> (string \<times> nat \<times> nat \<times> jval) option"

text \<open>\<open>"hash" in x\<close> and \<open>x.get\<close> on a value that is no object.\<close>

fun value_error :: "jval \<Rightarrow> py_error" where
  "value_error (JStr s) = (if sublist ''hash'' s then TypeError else AttributeError)"
| "value_error (JList xs) = (if JStr ''hash'' \<in> set xs then TypeError else AttributeError)"
| "value_error _ = TypeError"

definition note_entry :: "string \<Rightarrow> nat \<Rightarrow> nat \<Rightarrow> entry \<Rightarrow> scan_state \<Rightarrow> scan_state" where
  "note_entry f n off e st =
     ((case (jget e ''event_type'', jget e ''nonce'') of
         (JStr t, JStr x) \<Rightarrow> if t = ''live_enablement'' then List.insert x (fst st) else fst st
       | _ \<Rightarrow> fst st),
      (case map_of e ''hash'' of Some h \<Rightarrow> Some (f, n, off, h) | None \<Rightarrow> snd st))"

fun scan_lines :: "(wert \<Rightarrow> nat) \<Rightarrow> string \<Rightarrow> nat \<Rightarrow> nat \<Rightarrow> wert list \<Rightarrow> scan_state \<Rightarrow> py_error + scan_state" where
  "scan_lines blen f n off [] st = Inr st"
| "scan_lines blen f n off (l # ls) st =
     (case json_loads l of
        None \<Rightarrow> scan_lines blen f (Suc n) (off + blen l) ls st
      | Some (JObj e) \<Rightarrow> scan_lines blen f (Suc n) (off + blen l) ls (note_entry f (Suc n) off e st)
      | Some j \<Rightarrow> Inl (value_error j))"

fun scan_files :: "(wert \<Rightarrow> nat) \<Rightarrow> audit_log \<Rightarrow> scan_state \<Rightarrow> py_error + scan_state" where
  "scan_files blen [] st = Inr st"
| "scan_files blen ((f, ls) # fs) st =
     (case scan_lines blen f 0 0 ls st of Inl x \<Rightarrow> Inl x | Inr st' \<Rightarrow> scan_files blen fs st')"

definition full_scan :: "(wert \<Rightarrow> nat) \<Rightarrow> audit_log \<Rightarrow> py_error + scan_state" where
  "full_scan blen lg = scan_files blen lg ([], None)"

text \<open>From a believed seal: the rest of its file after the anchor, and the later files.\<close>

definition sealed_scan :: "(wert \<Rightarrow> nat) \<Rightarrow> audit_log \<Rightarrow> seal \<Rightarrow> wert \<Rightarrow> wert list \<Rightarrow> py_error + scan_state" where
  "sealed_scan blen lg s l rest =
     (case scan_lines blen (sl_last_file s) (sl_last_line_count s) (sl_anchor_offset s + blen l) rest
             (remdups (sl_nonces s), Some (sl_last_file s, sl_last_line_count s, sl_anchor_offset s, sl_last_hash s)) of
        Inl x \<Rightarrow> Inl x
      | Inr st \<Rightarrow> scan_files blen (filter (\<lambda>(f, ls). sl_last_file s < f) lg) st)"

definition new_seal :: "digest \<Rightarrow> (jval \<Rightarrow> string) \<Rightarrow> scan_state \<Rightarrow> seal_file \<Rightarrow> seal_file" where
  "new_seal H str_of st old =
     (case snd st of
        None \<Rightarrow> old
      | Some (f, n, off, h) \<Rightarrow>
          if f \<noteq> [] \<and> jtruthy h
          then (let s = \<lparr>sl_version = SIEGEL_FASSUNG, sl_last_file = f, sl_last_line_count = n,
                         sl_anchor_offset = off, sl_last_hash = h, sl_nonces = sort (fst st), sl_content_hash = []\<rparr>
                in Seal (s\<lparr>sl_content_hash := siegel_pruefsumme H str_of s\<rparr>))
          else old)"

text \<open>\<open>collect_live_enablement_nonces\<close>: the seal left behind, and the nonces or the exception.\<close>

definition collect_nonces ::
  "digest \<Rightarrow> (jval \<Rightarrow> string) \<Rightarrow> (wert \<Rightarrow> nat) \<Rightarrow> audit_log \<Rightarrow> seal_file \<Rightarrow> seal_file \<times> (py_error + string list)" where
  "collect_nonces H str_of blen lg sf =
     (case (case believe H str_of blen lg sf of
              None \<Rightarrow> full_scan blen lg
            | Some (s, l, rest) \<Rightarrow> sealed_scan blen lg s l rest) of
        Inl x \<Rightarrow> (sf, Inl x)
      | Inr st \<Rightarrow> (new_seal H str_of st sf, Inr (fst st)))"

section \<open>The specification: every nonce of the log\<close>

fun entry_nonce :: "wert \<Rightarrow> string set" where
  "entry_nonce (Json (JObj e)) =
     (case (jget e ''event_type'', jget e ''nonce'') of
        (JStr t, JStr x) \<Rightarrow> if t = ''live_enablement'' then {x} else {}
      | _ \<Rightarrow> {})"
| "entry_nonce _ = {}"

definition log_nonces :: "audit_log \<Rightarrow> string set" where
  "log_nonces lg = (\<Union>(f, ls) \<in> set lg. \<Union>l \<in> set ls. entry_nonce l)"

text \<open>A line the scan can read: no JSON at all, or an object.\<close>

definition readable :: "wert \<Rightarrow> bool" where
  "readable l = (case json_loads l of None \<Rightarrow> True | Some (JObj e) \<Rightarrow> True | Some _ \<Rightarrow> False)"

definition readable_log :: "audit_log \<Rightarrow> bool" where
  "readable_log lg = (\<forall>(f, ls) \<in> set lg. \<forall>l \<in> set ls. readable l)"

lemma json_loads_obj: "json_loads l = Some (JObj e) \<longleftrightarrow> l = Json (JObj e)"
  by (cases l) auto

lemma readable_cases:
  assumes "readable l"
  obtains (none) "json_loads l = None" "entry_nonce l = {}" | (obj) e where "l = Json (JObj e)"
proof (cases "json_loads l")
  case None
  then have "entry_nonce l = {}" by (cases l rule: entry_nonce.cases) auto
  with None show ?thesis by (rule none)
next
  case (Some j)
  with assms obtain e where "j = JObj e" by (cases j) (auto simp: readable_def)
  with Some show ?thesis by (intro obj) (simp add: json_loads_obj)
qed

lemma note_entry_seen: "set (fst (note_entry f n off e st)) = entry_nonce (Json (JObj e)) \<union> set (fst st)"
  by (simp add: note_entry_def split: jval.split)

lemma scan_lines_seen:
  assumes "\<forall>l \<in> set ls. readable l"
  shows "\<exists>st'. scan_lines blen f n off ls st = Inr st' \<and> set (fst st') = set (fst st) \<union> (\<Union>l \<in> set ls. entry_nonce l)"
  using assms
proof (induction ls arbitrary: n off st)
  case (Cons l ls)
  then have r: "readable l" "\<forall>l \<in> set ls. readable l" by auto
  from r(1) show ?case
  proof (cases rule: readable_cases)
    case none
    with Cons.IH [OF r(2), of "Suc n" "off + blen l" st] show ?thesis by simp
  next
    case (obj e)
    with Cons.IH [OF r(2), of "Suc n" "off + blen l" "note_entry f (Suc n) off e st"] show ?thesis
      by (auto simp: note_entry_seen)
  qed
qed simp

lemma scan_files_seen:
  assumes "readable_log lg"
  shows "\<exists>st'. scan_files blen lg st = Inr st' \<and> set (fst st') = set (fst st) \<union> log_nonces lg"
  using assms
proof (induction lg arbitrary: st)
  case (Cons x lg)
  obtain f ls where x: "x = (f, ls)" by (cases x)
  have r: "\<forall>l \<in> set ls. readable l" "readable_log lg" using Cons.prems by (auto simp: readable_log_def x)
  obtain st1 where st1: "scan_lines blen f 0 0 ls st = Inr st1"
      "set (fst st1) = set (fst st) \<union> (\<Union>l \<in> set ls. entry_nonce l)"
    using scan_lines_seen [OF r(1)] by blast
  from Cons.IH [OF r(2), of st1] st1 show ?case by (auto simp: x log_nonces_def)
qed (simp add: log_nonces_def)

text \<open>Without a believed seal every nonce is found.\<close>

lemma full_scan_seen:
  "readable_log lg \<Longrightarrow> \<exists>st. full_scan blen lg = Inr st \<and> set (fst st) = log_nonces lg"
  using scan_files_seen [of lg blen "([], None)"] by (simp add: full_scan_def)

section \<open>A seal that can be believed\<close>

definition pos_ok_at :: "(wert \<Rightarrow> nat) \<Rightarrow> audit_log \<Rightarrow> string \<Rightarrow> nat \<Rightarrow> jval \<Rightarrow> audit_log \<Rightarrow> wert list \<Rightarrow> wert \<Rightarrow> wert list \<Rightarrow> audit_log \<Rightarrow> bool" where
  "pos_ok_at blen lg f off h A pre l rest B =
     (lg = A @ (f, pre @ l # rest) # B \<and> off = sum_list (map blen pre) \<and>
      (\<exists>e. l = Json (JObj e) \<and> map_of e ''hash'' = Some h))"

definition pos_okay :: "(wert \<Rightarrow> nat) \<Rightarrow> audit_log \<Rightarrow> (string \<times> nat \<times> nat \<times> jval) option \<Rightarrow> bool" where
  "pos_okay blen lg p =
     (case p of None \<Rightarrow> True
      | Some (f, n, off, h) \<Rightarrow> \<exists>A pre l rest B. pos_ok_at blen lg f off h A pre l rest B)"

text \<open>The anchor is where the seal says, and its nonces are those of the log, at least up to the anchor.\<close>

definition good_seal :: "digest \<Rightarrow> (jval \<Rightarrow> string) \<Rightarrow> (wert \<Rightarrow> nat) \<Rightarrow> audit_log \<Rightarrow> seal \<Rightarrow> bool" where
  "good_seal H str_of blen lg s =
     (sl_version s = SIEGEL_FASSUNG \<and> sl_content_hash s = siegel_pruefsumme H str_of s \<and>
      set (sl_nonces s) \<subseteq> log_nonces lg \<and>
      (\<exists>A pre l rest B. pos_ok_at blen lg (sl_last_file s) (sl_anchor_offset s) (sl_last_hash s) A pre l rest B \<and>
         log_nonces A \<subseteq> set (sl_nonces s) \<and> (\<Union>x \<in> set (pre @ [l]). entry_nonce x) \<subseteq> set (sl_nonces s)))"

lemma line_at_sum: "\<forall>l. 0 < blen l \<Longrightarrow> line_at blen (sum_list (map blen pre)) (pre @ l # rest) = Some (l, rest)"
  by (induction pre) (auto simp: not_less)

lemma strict_names:
  assumes "sorted_wrt (<) (map fst ((A :: audit_log) @ (f, ls) # B))"
  shows "map_of (A @ (f, ls) # B) f = Some ls \<and> filter (\<lambda>(g, _). f < g) (A @ (f, ls) # B) = B"
proof -
  have A: "\<forall>x \<in> set A. fst x < f" and B: "\<forall>x \<in> set B. f < fst x"
    using assms by (auto simp: sorted_wrt_append)
  have "f \<notin> fst ` set A"
  proof
    assume "f \<in> fst ` set A"
    then obtain x where x: "x \<in> set A" "f = fst x" by (elim imageE)
    with A have "fst x < f" by blast
    with x(2) show False by simp
  qed
  then have "map_of A f = None" by (simp add: map_of_eq_None_iff)
  moreover have "filter (\<lambda>(g, _). f < g) A = []" using A by (auto simp: filter_empty_conv dest: less_asym)
  moreover have "filter (\<lambda>(g, _). f < g) B = B" using B by (intro filter_True) auto
  ultimately show ?thesis by (simp add: map_add_def)
qed

lemma log_nonces_append: "log_nonces (A @ B) = log_nonces A \<union> log_nonces B"
  by (auto simp: log_nonces_def)

lemma log_nonces_Cons: "log_nonces ((f, ls) # B) = (\<Union>l \<in> set ls. entry_nonce l) \<union> log_nonces B"
  by (simp add: log_nonces_def)

lemma jget_Some: "map_of e k = Some v \<Longrightarrow> jget e k = v"
  by (simp add: jget_def)

lemma absorb_seen:
  "a \<subseteq> s \<Longrightarrow> p \<subseteq> s \<Longrightarrow> s \<subseteq> a \<union> (p \<union> r \<union> b) \<Longrightarrow> s \<union> r \<union> b = a \<union> (p \<union> r \<union> b)"
  by blast

lemma good_seal_scan:
  assumes "good_seal H str_of blen lg s" "sorted_wrt (<) (map fst lg)" "readable_log lg" "\<forall>l. 0 < blen l"
  shows "\<exists>l rest st. believe H str_of blen lg (Seal s) = Some (s, l, rest)
    \<and> sealed_scan blen lg s l rest = Inr st \<and> set (fst st) = log_nonces lg"
proof -
  obtain A pre l rest B where at: "pos_ok_at blen lg (sl_last_file s) (sl_anchor_offset s) (sl_last_hash s) A pre l rest B"
    and sub: "log_nonces A \<subseteq> set (sl_nonces s)" "(\<Union>x \<in> set (pre @ [l]). entry_nonce x) \<subseteq> set (sl_nonces s)"
    using assms(1) unfolding good_seal_def by (elim exE conjE)
  then obtain e where lg: "lg = A @ (sl_last_file s, pre @ l # rest) # B" "sl_anchor_offset s = sum_list (map blen pre)"
      "l = Json (JObj e)" "map_of e ''hash'' = Some (sl_last_hash s)"
    unfolding pos_ok_at_def by blast
  have names: "map_of lg (sl_last_file s) = Some (pre @ l # rest)" "filter (\<lambda>(g, _). sl_last_file s < g) lg = B"
    using strict_names [of A "sl_last_file s" "pre @ l # rest" B] assms(2) by (simp_all add: lg(1))
  have v: "sl_version s = SIEGEL_FASSUNG" "sl_content_hash s = siegel_pruefsumme H str_of s"
      "set (sl_nonces s) \<subseteq> log_nonces lg"
    using assms(1) unfolding good_seal_def by simp_all
  have "line_at blen (sl_anchor_offset s) (pre @ l # rest) = Some (l, rest)"
    unfolding lg(2) by (rule line_at_sum [OF assms(4)])
  then have b: "believe H str_of blen lg (Seal s) = Some (s, l, rest)"
    by (simp add: believe_def v names(1) lg(3) jget_Some [OF lg(4)])
  have r: "\<forall>x \<in> set rest. readable x" "readable_log B"
    using assms(3) unfolding lg(1) by (auto simp: readable_log_def)
  let ?st = "(remdups (sl_nonces s), Some (sl_last_file s, sl_last_line_count s, sl_anchor_offset s, sl_last_hash s))"
  obtain st1 where st1: "scan_lines blen (sl_last_file s) (sl_last_line_count s) (sl_anchor_offset s + blen l) rest ?st = Inr st1"
      "set (fst st1) = set (sl_nonces s) \<union> (\<Union>x \<in> set rest. entry_nonce x)"
    using scan_lines_seen [OF r(1), of blen "sl_last_file s" "sl_last_line_count s" "sl_anchor_offset s + blen l" ?st]
    by auto
  obtain st where st: "scan_files blen B st1 = Inr st" "set (fst st) = set (fst st1) \<union> log_nonces B"
    using scan_files_seen [OF r(2)] by blast
  have "set (sl_nonces s) \<union> (\<Union>x \<in> set rest. entry_nonce x) \<union> log_nonces B = log_nonces lg"
  proof -
    let ?P = "\<Union>x \<in> set (pre @ [l]). entry_nonce x" and ?R = "\<Union>x \<in> set rest. entry_nonce x"
    have "(\<Union>x \<in> set (pre @ l # rest). entry_nonce x) = ?P \<union> ?R" by auto
    then have eq: "log_nonces lg = log_nonces A \<union> (?P \<union> ?R \<union> log_nonces B)"
      by (simp only: lg(1) log_nonces_append log_nonces_Cons)
    have "set (sl_nonces s) \<subseteq> log_nonces A \<union> (?P \<union> ?R \<union> log_nonces B)" using v(3) unfolding eq .
    from absorb_seen [OF sub this] show ?thesis by (simp only: eq)
  qed
  with st1 st b have "sealed_scan blen lg s l rest = Inr st" "set (fst st) = log_nonces lg"
    by (simp_all add: sealed_scan_def names(2))
  with b show ?thesis by blast
qed

section \<open>The seal a scan leaves\<close>

lemma note_entry_pos:
  assumes "pos_okay blen lg (snd st)" "lg = A @ (f, pre @ Json (JObj e) # ls) # B" "off = sum_list (map blen pre)"
  shows "pos_okay blen lg (snd (note_entry f n off e st))"
proof (cases "map_of e ''hash''")
  case None
  with assms(1) show ?thesis by (simp add: note_entry_def)
next
  case (Some h)
  then have "pos_ok_at blen lg f off h A pre (Json (JObj e)) ls B"
    using assms(2,3) by (simp add: pos_ok_at_def)
  then have "\<exists>A pre l rest B. pos_ok_at blen lg f off h A pre l rest B" by blast
  then show ?thesis by (simp only: note_entry_def pos_okay_def Some snd_conv option.case prod.case)
qed

lemma scan_lines_pos:
  assumes "scan_lines blen f n off ls st = Inr st'" "pos_okay blen lg (snd st)"
    "lg = A @ (f, pre @ ls) # B" "off = sum_list (map blen pre)"
  shows "pos_okay blen lg (snd st')"
  using assms
proof (induction ls arbitrary: n off st pre)
  case (Cons l ls)
  have pre: "lg = A @ (f, (pre @ [l]) @ ls) # B" "off + blen l = sum_list (map blen (pre @ [l]))"
    using Cons.prems(3,4) by simp_all
  show ?case
  proof (cases "json_loads l")
    case None
    with Cons.prems(1) have "scan_lines blen f (Suc n) (off + blen l) ls st = Inr st'" by simp
    from Cons.IH [OF this Cons.prems(2) pre] show ?thesis .
  next
    case (Some j)
    with Cons.prems(1) obtain e where j: "j = JObj e" by (cases j) auto
    then have l: "l = Json (JObj e)" using Some by (simp add: json_loads_obj)
    have "scan_lines blen f (Suc n) (off + blen l) ls (note_entry f (Suc n) off e st) = Inr st'"
      using Cons.prems(1) Some j by simp
    from Cons.IH [OF this note_entry_pos pre] Cons.prems l show ?thesis by blast
  qed
qed simp

lemma scan_files_pos:
  assumes "scan_files blen fs st = Inr st'" "pos_okay blen lg (snd st)" "lg = A @ fs"
  shows "pos_okay blen lg (snd st')"
  using assms
proof (induction fs arbitrary: st A)
  case (Cons x fs)
  obtain f ls where x: "x = (f, ls)" by (cases x)
  obtain st1 where st1: "scan_lines blen f 0 0 ls st = Inr st1" "scan_files blen fs st1 = Inr st'"
    using Cons.prems(1) by (auto simp: x split: sum.splits)
  have "pos_okay blen lg (snd st1)"
    by (rule scan_lines_pos [OF st1(1) Cons.prems(2), of A "[]" fs]) (use Cons.prems(3) x in simp_all)
  from Cons.IH [OF st1(2) this, of "A @ [x]"] Cons.prems(3) show ?case by simp
qed simp

lemma sealed_scan_pos:
  assumes "good_seal H str_of blen lg s" "believe H str_of blen lg (Seal s) = Some (s, l, rest)"
    "sealed_scan blen lg s l rest = Inr st" "sorted_wrt (<) (map fst lg)" "\<forall>l. 0 < blen l"
  shows "pos_okay blen lg (snd st)"
proof -
  obtain A pre l' rest' B where at: "pos_ok_at blen lg (sl_last_file s) (sl_anchor_offset s) (sl_last_hash s) A pre l' rest' B"
    using assms(1) unfolding good_seal_def by (elim exE conjE)
  then have lg: "lg = A @ (sl_last_file s, pre @ l' # rest') # B" "sl_anchor_offset s = sum_list (map blen pre)"
    by (simp_all add: pos_ok_at_def)
  have names: "map_of lg (sl_last_file s) = Some (pre @ l' # rest')" "filter (\<lambda>(g, _). sl_last_file s < g) lg = B"
    using strict_names [of A "sl_last_file s" "pre @ l' # rest'" B] assms(4) by (simp_all add: lg(1))
  have "line_at blen (sl_anchor_offset s) (pre @ l' # rest') = Some (l', rest')"
    unfolding lg(2) by (rule line_at_sum [OF assms(5)])
  then have eq: "l = l'" "rest = rest'"
    using assms(2) by (auto simp: believe_def names(1) split: if_splits option.splits jval.splits)
  let ?p = "Some (sl_last_file s, sl_last_line_count s, sl_anchor_offset s, sl_last_hash s)"
  obtain st1 where st1: "scan_lines blen (sl_last_file s) (sl_last_line_count s) (sl_anchor_offset s + blen l) rest
        (remdups (sl_nonces s), ?p) = Inr st1" "scan_files blen B st1 = Inr st"
    using assms(3) by (auto simp: sealed_scan_def names(2) split: sum.splits)
  have "pos_okay blen lg ?p" using at unfolding pos_okay_def by (simp only: option.case prod.case) blast
  then have "pos_okay blen lg (snd st1)"
    by (intro scan_lines_pos [OF st1(1), of lg A "pre @ [l']" B]) (simp_all add: lg eq)
  then show ?thesis
    by (rule scan_files_pos [OF st1(2), of lg "A @ [(sl_last_file s, pre @ l' # rest')]"]) (simp add: lg(1))
qed

lemma new_seal_good:
  assumes "pos_okay blen lg (snd st)" "set (fst st) = log_nonces lg" "new_seal H str_of st sf = Seal s"
  shows "sf = Seal s \<or> good_seal H str_of blen lg s"
proof (cases "snd st")
  case None
  with assms(3) show ?thesis by (simp add: new_seal_def)
next
  case (Some p)
  obtain f n off h where p: "p = (f, n, off, h)" by (cases p)
  show ?thesis
  proof (cases "f \<noteq> [] \<and> jtruthy h")
    case False
    with Some p assms(3) show ?thesis by (auto simp: new_seal_def)
  next
    case True
    then have s: "sl_last_file s = f" "sl_anchor_offset s = off" "sl_last_hash s = h" "sl_nonces s = sort (fst st)"
        "sl_version s = SIEGEL_FASSUNG" "sl_content_hash s = siegel_pruefsumme H str_of s"
      using assms(3) Some p by (auto simp: new_seal_def Let_def siegel_pruefsumme_def)
    from assms(1) Some p obtain A pre l rest B where at: "pos_ok_at blen lg f off h A pre l rest B"
      by (auto simp: pos_okay_def)
    then have "lg = A @ (f, pre @ l # rest) # B" by (simp add: pos_ok_at_def)
    then have "log_nonces A \<subseteq> log_nonces lg" "(\<Union>x \<in> set (pre @ [l]). entry_nonce x) \<subseteq> log_nonces lg"
      by (auto simp: log_nonces_append log_nonces_Cons)
    with at s(1-4) assms(2) have "\<exists>A pre l rest B. pos_ok_at blen lg (sl_last_file s) (sl_anchor_offset s)
        (sl_last_hash s) A pre l rest B \<and> log_nonces A \<subseteq> set (sl_nonces s)
        \<and> (\<Union>x \<in> set (pre @ [l]). entry_nonce x) \<subseteq> set (sl_nonces s)"
      by (metis set_sort)
    moreover have "set (sl_nonces s) \<subseteq> log_nonces lg" using s(4) assms(2) by simp
    ultimately show ?thesis unfolding good_seal_def using s(5,6) by blast
  qed
qed

section \<open>Scans and appends in turn\<close>

lemma put_line_max:
  assumes "sorted_wrt (<) (map fst (fs :: audit_log))" "\<forall>g \<in> fst ` set fs. g \<le> f"
  shows "(\<exists>fs' ls. fs = fs' @ [(f, ls)] \<and> put_line f l fs = fs' @ [(f, ls @ [l])])
    \<or> (f \<notin> fst ` set fs \<and> put_line f l fs = fs @ [(f, [l])])"
  using assms
proof (induction fs)
  case (Cons x fs)
  obtain g ls where x: "x = (g, ls)" by (cases x)
  show ?case
  proof (cases "f = g")
    case True
    have "fs = []"
    proof (cases fs)
      case (Cons y ys)
      with Cons.prems True x show ?thesis by (auto simp: not_less [symmetric])
    qed
    with True x show ?thesis by simp
  next
    case False
    then have lt: "g < f" "\<not> f < g" using Cons.prems(2) x by (auto simp: order.order_iff_strict)
    from Cons have "(\<exists>fs' ls. fs = fs' @ [(f, ls)] \<and> put_line f l fs = fs' @ [(f, ls @ [l])])
        \<or> (f \<notin> fst ` set fs \<and> put_line f l fs = fs @ [(f, [l])])" by auto
    with lt False show ?thesis by (auto simp: x intro: exI [of _ "(g, ls) # fs'" for fs'])
  qed
qed simp

lemma put_line_nonces:
  "log_nonces (put_line f l lg) = log_nonces lg \<union> entry_nonce l"
  by (induction f l lg rule: put_line.induct) (auto simp: log_nonces_Cons log_nonces_def)

lemma put_line_readable: "readable_log lg \<Longrightarrow> readable l \<Longrightarrow> readable_log (put_line f l lg)"
  by (induction f l lg rule: put_line.induct) (auto simp: readable_log_def)

lemma pos_ok_at_grows:
  assumes "pos_ok_at blen lg f off h A pre a rest B" "sorted_wrt (<) (map fst lg)" "\<forall>g \<in> fst ` set lg. g \<le> k"
  shows "\<exists>rest' B'. pos_ok_at blen (put_line k l lg) f off h A pre a rest' B'"
proof -
  have lg: "lg = A @ (f, pre @ a # rest) # B" using assms(1) by (simp add: pos_ok_at_def)
  from put_line_max [OF assms(2,3), of l] show ?thesis
  proof (elim disjE exE conjE)
    fix fs' ls assume p: "lg = fs' @ [(k, ls)]" "put_line k l lg = fs' @ [(k, ls @ [l])]"
    show ?thesis
    proof (cases B rule: rev_cases)
      case Nil
      with p(1) lg have "fs' = A" "k = f" "ls = pre @ a # rest" by auto
      with p(2) assms(1) show ?thesis
        by (intro exI [of _ "rest @ [l]"] exI [of _ "[]"]) (simp add: pos_ok_at_def)
    next
      case (snoc B0 b)
      with p(1) lg have "fs' = A @ (f, pre @ a # rest) # B0" "b = (k, ls)" by auto
      with p(2) assms(1) show ?thesis
        by (intro exI [of _ rest] exI [of _ "B0 @ [(k, ls @ [l])]"]) (simp add: pos_ok_at_def)
    qed
  next
    assume "put_line k l lg = lg @ [(k, [l])]"
    with lg assms(1) show ?thesis
      by (intro exI [of _ rest] exI [of _ "B @ [(k, [l])]"]) (simp add: pos_ok_at_def)
  qed
qed

lemma good_seal_grows:
  assumes "good_seal H str_of blen lg s" "sorted_wrt (<) (map fst lg)" "\<forall>g \<in> fst ` set lg. g \<le> k"
  shows "good_seal H str_of blen (put_line k l lg) s"
proof -
  from assms(1) have v: "sl_version s = SIEGEL_FASSUNG" "sl_content_hash s = siegel_pruefsumme H str_of s"
      "set (sl_nonces s) \<subseteq> log_nonces lg" unfolding good_seal_def by simp_all
  from assms(1) obtain A pre a rest B where
    at: "pos_ok_at blen lg (sl_last_file s) (sl_anchor_offset s) (sl_last_hash s) A pre a rest B"
    and sub: "log_nonces A \<subseteq> set (sl_nonces s)" "(\<Union>x \<in> set (pre @ [a]). entry_nonce x) \<subseteq> set (sl_nonces s)"
    unfolding good_seal_def by (elim exE conjE)
  from pos_ok_at_grows [OF at assms(2,3), of l] obtain rest' B' where
    "pos_ok_at blen (put_line k l lg) (sl_last_file s) (sl_anchor_offset s) (sl_last_hash s) A pre a rest' B'"
    by (elim exE)
  with sub have "\<exists>A pre l' rest B. pos_ok_at blen (put_line k l lg) (sl_last_file s) (sl_anchor_offset s) (sl_last_hash s) A pre l' rest B
      \<and> log_nonces A \<subseteq> set (sl_nonces s) \<and> (\<Union>x \<in> set (pre @ [l']). entry_nonce x) \<subseteq> set (sl_nonces s)"
    by (intro exI conjI)
  with v show ?thesis unfolding good_seal_def put_line_nonces by (simp add: le_supI1)
qed

text \<open>What happens to the log and the seal: a line is appended to a file, or the nonces are collected.\<close>

datatype scan_op = Log string wert | Collect

fun scan_step :: "digest \<Rightarrow> (jval \<Rightarrow> string) \<Rightarrow> (wert \<Rightarrow> nat) \<Rightarrow> scan_op \<Rightarrow> audit_log \<times> seal_file \<Rightarrow> audit_log \<times> seal_file" where
  "scan_step H str_of blen (Log f l) (lg, sf) = (put_line f l lg, sf)"
| "scan_step H str_of blen Collect (lg, sf) = (lg, fst (collect_nonces H str_of blen lg sf))"

fun scan_names :: "scan_op list \<Rightarrow> string list" where
  "scan_names [] = []"
| "scan_names (Log f l # ops) = f # scan_names ops"
| "scan_names (Collect # ops) = scan_names ops"

lemma scan_names_append: "scan_names (as @ bs) = scan_names as @ scan_names bs"
  by (induction as rule: scan_names.induct) auto

fun op_readable :: "scan_op \<Rightarrow> bool" where
  "op_readable (Log f l) = readable l"
| "op_readable Collect = True"

definition scan_inv :: "digest \<Rightarrow> (jval \<Rightarrow> string) \<Rightarrow> (wert \<Rightarrow> nat) \<Rightarrow> audit_log \<Rightarrow> seal_file \<Rightarrow> bool" where
  "scan_inv H str_of blen lg sf =
     (sorted_wrt (<) (map fst lg) \<and> readable_log lg \<and>
      (sf = No_seal \<or> (\<exists>s. sf = Seal s \<and> good_seal H str_of blen lg s)))"

lemma collect_inv:
  assumes "scan_inv H str_of blen lg sf" "\<forall>l. 0 < blen l"
  shows "(\<exists>ns. snd (collect_nonces H str_of blen lg sf) = Inr ns \<and> set ns = log_nonces lg)
    \<and> scan_inv H str_of blen lg (fst (collect_nonces H str_of blen lg sf))"
proof -
  have inv: "sorted_wrt (<) (map fst lg)" "readable_log lg" using assms(1) by (simp_all add: scan_inv_def)
  have "\<exists>st. (case believe H str_of blen lg sf of None \<Rightarrow> full_scan blen lg
          | Some (s, l, rest) \<Rightarrow> sealed_scan blen lg s l rest) = Inr st
        \<and> set (fst st) = log_nonces lg \<and> pos_okay blen lg (snd st)"
  proof (cases "sf = No_seal")
    case True
    obtain st where st: "full_scan blen lg = Inr st" "set (fst st) = log_nonces lg"
      using full_scan_seen [OF inv(2)] by blast
    have "pos_okay blen lg (snd st)"
      by (rule scan_files_pos [of blen lg "([], None)" st lg "[]"]) (use st(1) in \<open>simp_all add: full_scan_def pos_okay_def\<close>)
    with st True show ?thesis by (simp add: believe_def)
  next
    case False
    then obtain s where s: "sf = Seal s" "good_seal H str_of blen lg s" using assms(1) by (auto simp: scan_inv_def)
    obtain l rest st where b: "believe H str_of blen lg (Seal s) = Some (s, l, rest)"
        "sealed_scan blen lg s l rest = Inr st" "set (fst st) = log_nonces lg"
      using good_seal_scan [OF s(2) inv assms(2)] by blast
    have "pos_okay blen lg (snd st)"
      by (rule sealed_scan_pos [OF s(2) b(1,2) inv(1) assms(2)])
    with b s(1) show ?thesis by auto
  qed
  then obtain st where st: "(case believe H str_of blen lg sf of None \<Rightarrow> full_scan blen lg
          | Some (s, l, rest) \<Rightarrow> sealed_scan blen lg s l rest) = Inr st"
      "set (fst st) = log_nonces lg" "pos_okay blen lg (snd st)" by blast
  then have c: "collect_nonces H str_of blen lg sf = (new_seal H str_of st sf, Inr (fst st))"
    by (simp add: collect_nonces_def)
  have "scan_inv H str_of blen lg (new_seal H str_of st sf)"
  proof (cases "new_seal H str_of st sf")
    case No_seal
    with inv show ?thesis by (simp add: scan_inv_def)
  next
    case (Seal s)
    with new_seal_good [OF st(3,2) Seal] assms(1) inv show ?thesis by (auto simp: scan_inv_def)
  next
    case Broken_seal
    then have "sf = Broken_seal" by (auto simp: new_seal_def Let_def split: option.splits if_splits)
    with assms(1) show ?thesis by (simp add: scan_inv_def)
  qed
  with c st(2) show ?thesis by simp
qed

lemma put_line_inv:
  assumes "scan_inv H str_of blen lg sf" "\<forall>g \<in> fst ` set lg. g \<le> k" "readable l"
  shows "scan_inv H str_of blen (put_line k l lg) sf"
proof -
  have inv: "sorted_wrt (<) (map fst lg)" "readable_log lg" using assms(1) by (simp_all add: scan_inv_def)
  have "sorted_wrt (<) (map fst (put_line k l lg))"
    using put_line_max [OF inv(1) assms(2), of l]
  proof (elim disjE exE conjE)
    fix fs' ls assume "lg = fs' @ [(k, ls)]" "put_line k l lg = fs' @ [(k, ls @ [l])]"
    with inv(1) show ?thesis by simp
  next
    assume new: "k \<notin> fst ` set lg" "put_line k l lg = lg @ [(k, [l])]"
    then have "\<forall>g \<in> fst ` set lg. g < k" using assms(2) by (metis order.not_eq_order_implies_strict)
    with inv(1) new(2) show ?thesis by (auto simp: sorted_wrt_append)
  qed
  moreover have "readable_log (put_line k l lg)" by (rule put_line_readable [OF inv(2) assms(3)])
  moreover have "sf = No_seal \<or> (\<exists>s. sf = Seal s \<and> good_seal H str_of blen (put_line k l lg) s)"
    using assms(1) good_seal_grows [OF _ inv(1) assms(2), of H str_of blen _ l] unfolding scan_inv_def by blast
  ultimately show ?thesis by (simp add: scan_inv_def)
qed

lemma put_line_names: "fst ` set (put_line k l lg) = insert k (fst ` set lg)"
  by (induction k l lg rule: put_line.induct) auto

definition scan_run :: "digest \<Rightarrow> (jval \<Rightarrow> string) \<Rightarrow> (wert \<Rightarrow> nat) \<Rightarrow> scan_op list \<Rightarrow> audit_log \<times> seal_file" where
  "scan_run H str_of blen ops = foldl (\<lambda>s x. scan_step H str_of blen x s) ([], No_seal) ops"

lemma scan_run_inv:
  assumes "\<forall>l. 0 < blen l" "sorted (scan_names ops)" "\<forall>x \<in> set ops. op_readable x"
  shows "scan_inv H str_of blen (fst (scan_run H str_of blen ops)) (snd (scan_run H str_of blen ops))
    \<and> fst ` set (fst (scan_run H str_of blen ops)) = set (scan_names ops)"
  using assms(2,3)
proof (induction ops rule: rev_induct)
  case Nil
  then show ?case by (simp add: scan_run_def scan_inv_def readable_log_def)
next
  case (snoc x ops)
  obtain lg sf where st: "scan_run H str_of blen ops = (lg, sf)" by (cases "scan_run H str_of blen ops")
  have ih: "scan_inv H str_of blen lg sf" "fst ` set lg = set (scan_names ops)"
    using snoc st by (simp_all add: scan_names_append sorted_append)
  have run: "scan_run H str_of blen (ops @ [x]) = scan_step H str_of blen x (lg, sf)"
    using st by (simp add: scan_run_def)
  show ?case
  proof (cases x)
    case (Log k l)
    have "\<forall>g \<in> fst ` set lg. g \<le> k" "readable l"
      using snoc.prems Log ih(2) by (auto simp: scan_names_append sorted_append)
    from put_line_inv [OF ih(1) this] show ?thesis
      unfolding run using ih(2) by (simp add: Log put_line_names scan_names_append)
  next
    case Collect
    then show ?thesis unfolding run using collect_inv [OF ih(1) assms(1)] ih(2)
      by (simp add: Collect scan_names_append)
  qed
qed

section \<open>The properties\<close>

text \<open>C30: The seal changes nothing of what the nonce scan finds, in a log that only grows at its end. Start with an
  empty log and no seal. After any sequence of appends and scans in which the file names never go back, no line
  is empty and every line that is JSON is an object, the scan that starts at the last seal returns exactly the
  nonces of all live enablements ever logged, as the scan of the whole log would. Without these conditions it
  is not so: a record in an older file is missed, and a line that is JSON but no object ends the scan.\<close>

theorem sealed_scan_finds_every_nonce:
  assumes "\<forall>l. 0 < blen l" "sorted (scan_names ops)" "\<forall>x \<in> set ops. op_readable x"
    and "scan_run H str_of blen ops = (lg, sf)"
  shows "\<exists>ns st. snd (collect_nonces H str_of blen lg sf) = Inr ns \<and> full_scan blen lg = Inr st
    \<and> set ns = log_nonces lg \<and> set ns = set (fst st)"
proof -
  have inv: "scan_inv H str_of blen lg sf"
    using scan_run_inv [OF assms(1-3), of H str_of] assms(4) by simp
  then have "readable_log lg" by (simp add: scan_inv_def)
  from full_scan_seen [OF this, of blen] collect_inv [OF inv assms(1)] show ?thesis by fastforce
qed

definition enable_line :: "string \<Rightarrow> string \<Rightarrow> wert" where
  "enable_line nonce h = Json (JObj [(''event_type'', JStr ''live_enablement''), (''nonce'', JStr nonce), (''hash'', JStr h)])"

lemma enable_line_readable: "readable (enable_line x h)"
  by (simp add: readable_def enable_line_def)

theorem sealed_scan_finds_every_nonce_witness:
  "\<exists>ns st. snd (collect_nonces (\<lambda>w. ''c'') (\<lambda>j. ''s'') (\<lambda>l. 1)
      [(''audit_log_1'', [enable_line ''n1'' ''a'']), (''audit_log_2'', [enable_line ''n2'' ''b''])]
      (Seal \<lparr>sl_version = 2, sl_last_file = ''audit_log_1'', sl_last_line_count = 1, sl_anchor_offset = 0,
             sl_last_hash = JStr ''a'', sl_nonces = [''n1''], sl_content_hash = ''c''\<rparr>)) = Inr ns
    \<and> full_scan (\<lambda>l. 1) [(''audit_log_1'', [enable_line ''n1'' ''a'']), (''audit_log_2'', [enable_line ''n2'' ''b''])] = Inr st
    \<and> set ns = {''n1'', ''n2''}"
proof -
  let ?ops = "[Log ''audit_log_1'' (enable_line ''n1'' ''a''), Collect, Log ''audit_log_2'' (enable_line ''n2'' ''b'')]"
  let ?lg = "[(''audit_log_1'', [enable_line ''n1'' ''a'']), (''audit_log_2'', [enable_line ''n2'' ''b''])]"
  let ?sf = "Seal \<lparr>sl_version = 2, sl_last_file = ''audit_log_1'', sl_last_line_count = 1, sl_anchor_offset = 0,
             sl_last_hash = JStr ''a'', sl_nonces = [''n1''], sl_content_hash = ''c''\<rparr>"
  have "scan_run (\<lambda>w. ''c'') (\<lambda>j. ''s'') (\<lambda>l. 1) ?ops = (?lg, ?sf)"
    by (simp add: scan_run_def collect_nonces_def believe_def full_scan_def enable_line_def note_entry_def jget_def
        new_seal_def Let_def SIEGEL_FASSUNG_def siegel_pruefsumme_def)
  moreover have "log_nonces ?lg = {''n1'', ''n2''}"
    by (auto simp: log_nonces_def enable_line_def jget_def)
  moreover have "sorted (scan_names ?ops)" "\<forall>x \<in> set ?ops. op_readable x"
    by (simp_all add: enable_line_readable)
  ultimately show ?thesis
    using sealed_scan_finds_every_nonce [of "\<lambda>l. 1" ?ops "\<lambda>w. ''c''" "\<lambda>j. ''s''" ?lg ?sf] by auto
qed

section \<open>Where the scan does not find a nonce\<close>

lemma put_line_map_of: "f \<noteq> g \<Longrightarrow> map_of (put_line f l lg) g = map_of lg g"
  by (induction f l lg rule: put_line.induct) auto

lemma put_line_filter:
  "f < g \<Longrightarrow> filter (\<lambda>(x, ls). g < x) (put_line f l lg) = filter (\<lambda>(x, ls). g < x) (lg :: audit_log)"
  by (induction f l lg rule: put_line.induct) (auto dest: less_asym less_trans)

text \<open>
  A record that lands in an earlier file than the sealed one (the clock went back to the day before)
  is not seen: while the seal is believed, the scan answers as if the record were not there.
\<close>

theorem older_file_is_not_scanned:
  assumes "believe H str_of blen lg (Seal s) = Some (s, l, rest)" "f < sl_last_file s"
  shows "collect_nonces H str_of blen (put_line f r lg) (Seal s) = collect_nonces H str_of blen lg (Seal s)"
proof -
  have same: "map_of (put_line f r lg) (sl_last_file s) = map_of lg (sl_last_file s)"
    by (rule put_line_map_of) (use assms(2) in auto)
  have b: "believe H str_of blen (put_line f r lg) (Seal s) = Some (s, l, rest)"
    using assms(1) unfolding believe_def seal_file.case same .
  have "sealed_scan blen (put_line f r lg) s l rest = sealed_scan blen lg s l rest"
    unfolding sealed_scan_def put_line_filter [OF assms(2)] ..
  then show ?thesis by (simp add: collect_nonces_def b assms(1))
qed

text \<open>
  A line that is JSON but no object ends the scan with an exception, at every later call; the
  documented fail-open covers only I/O errors.
\<close>

lemma scan_lines_stray:
  assumes "\<forall>l \<in> set ls. readable l" "json_loads v = Some j" "\<forall>e. j \<noteq> JObj e"
  shows "scan_lines blen f n off (ls @ [v]) st = Inl (value_error j)"
  using assms(1)
proof (induction ls arbitrary: n off st)
  case Nil
  with assms(2,3) show ?case by (cases j) auto
next
  case (Cons l ls)
  then have r: "readable l" by simp
  from r show ?case by (cases rule: readable_cases) (use Cons in auto)
qed

lemma scan_files_append:
  "scan_files blen (fs @ gs) st = (case scan_files blen fs st of Inl x \<Rightarrow> Inl x | Inr st' \<Rightarrow> scan_files blen gs st')"
  by (induction blen fs st rule: scan_files.induct) (auto split: sum.split)

theorem stray_value_ends_the_scan:
  assumes "readable_log lg" "\<forall>l \<in> set ls. readable l" "json_loads v = Some j" "\<forall>e. j \<noteq> JObj e"
  shows "collect_nonces H str_of blen (lg @ [(f, ls @ [v])]) No_seal = (No_seal, Inl (value_error j))"
proof -
  obtain st where "scan_files blen lg ([], None) = Inr st" using scan_files_seen [OF assms(1)] by blast
  then show ?thesis
    by (simp add: collect_nonces_def believe_def full_scan_def scan_files_append scan_lines_stray [OF assms(2-4)])
qed

end
