(* ===== verification/Compliance.thy ===== *)
theory Compliance
  imports Iron_Dome State_Store
begin

text \<open>
  The compliance guardian of the engine (\<open>core/compliance.py\<close>): the checks before an order, the
  throttle and the wash-trade window, and the budget of trades per day with its durable count.

  An order is a record whose fields may be missing, as in the dictionaries the engine builds; its
  numbers are floats. Texts are Latin-1. The guardian is the state of one process; the audit entry a
  check leaves is its answer and its reason code.
\<close>

section \<open>The order\<close>

record compliance_order =
  co_symbol :: "string option"
  co_side :: "string option"
  co_quantity :: "pyfloat option"
  co_price :: "pyfloat option"
  co_strategy_id :: "string option"
  co_timestamp :: "real option"
  co_user_id :: "string option"
  co_held_qty :: "pyfloat option"
  co_exit_kind :: "string option"
  co_asset_class :: "string option"
  co_asset_type :: "string option"

definition check_mifid_fields :: "compliance_order \<Rightarrow> bool" where
  "check_mifid_fields x =
     (co_symbol x \<noteq> None \<and> co_side x \<noteq> None \<and> co_quantity x \<noteq> None \<and> co_price x \<noteq> None \<and>
      co_strategy_id x \<noteq> None \<and> co_timestamp x \<noteq> None)"

definition US_EQUITY_ASSET_CLASS :: string where "US_EQUITY_ASSET_CLASS = ''us_equity''"

definition equity_shape :: "string \<Rightarrow> bool" where
  "equity_shape symbol =
     (let s = py_upper (py_strip symbol)
      in 1 \<le> length s \<and> length s \<le> 10 \<and> is_alpha (hd s) \<and>
         list_all (\<lambda>c. is_alpha c \<or> c = CHR ''.'' \<or> c = CHR ''-'') s)"

definition is_spot_us_equity :: "compliance_order \<Rightarrow> bool" where
  "is_spot_us_equity x =
     (list_all (\<lambda>d. case d of None \<Rightarrow> True | Some c \<Rightarrow> py_lower (py_strip c) = US_EQUITY_ASSET_CLASS)
        [co_asset_class x, co_asset_type x] \<and>
      (case co_symbol x of None \<Rightarrow> False | Some symbol \<Rightarrow> equity_shape symbol))"

section \<open>The state of the guardian\<close>

record trade_record =
  tr_symbol :: string
  tr_side :: string
  tr_timestamp :: real
  tr_user_id :: "string option"

record guardian =
  cg_max_order_value :: pyfloat
  cg_max_daily_trades :: int
  cg_wash_window :: int
  cg_restricted_list :: "string list"
  cg_recent_trades :: "trade_record list"
  cg_recent_buys :: "real list"
  cg_hft_symbol :: int
  cg_hft_aggregate :: int
  cg_hft_recent :: "trade_record list"
  cg_daily_trades :: int
  cg_alert_sent :: bool

definition reload_policy :: "iron_config \<Rightarrow> rohdict option \<Rightarrow> guardian \<Rightarrow> py_error + guardian" where
  "reload_policy cfg raw g =
     (case load_policy cfg raw of
        Inl e \<Rightarrow> Inl e
      | Inr p \<Rightarrow> Inr (g\<lparr>cg_max_daily_trades := max_daily_trades p, cg_max_order_value := max_order_value p,
                       cg_wash_window := wash_trade_window_seconds p\<rparr>))"

section \<open>The checks of an order\<close>

definition QTY_EPS :: real where "QTY_EPS = 1 / 1000000"

definition RECENT_BUYS_WINDOW_SEC :: real where "RECENT_BUYS_WINDOW_SEC = 7200"

text \<open>\<open>float(order.get("held_qty", 0.0) or 0.0)\<close>.\<close>

definition held_qty :: "compliance_order \<Rightarrow> pyfloat" where
  "held_qty x = (case co_held_qty x of None \<Rightarrow> Fin 0 | Some h \<Rightarrow> h)"

definition check_risk_limits :: "guardian \<Rightarrow> compliance_order \<Rightarrow> bool" where
  "check_risk_limits g x =
     (case (co_quantity x, co_price x) of
        (Some q, Some p) \<Rightarrow>
          fl_le (fl_mult q p) (cg_max_order_value g) \<or>
          (co_side x = Some ''sell'' \<and> fl_less (Fin 0) (held_qty x) \<and> fl_le q (fl_add (held_qty x) (Fin QTY_EPS)))
      | _ \<Rightarrow> False)"

definition is_risk_reducing_exit :: "compliance_order \<Rightarrow> bool" where
  "is_risk_reducing_exit x =
     (co_side x = Some ''sell'' \<and> co_exit_kind x \<noteq> Some ''rotation'' \<and> co_exit_kind x \<noteq> Some ''trim'' \<and>
      (case co_quantity x of
         None \<Rightarrow> False
       | Some q \<Rightarrow> fl_less (Fin 0) (held_qty x) \<and> fl_le q (fl_add (held_qty x) (Fin QTY_EPS))))"

definition opposite_side :: "string \<Rightarrow> string" where
  "opposite_side side = (if side = ''buy'' then ''sell'' else ''buy'')"

definition detect_wash_trade :: "guardian \<Rightarrow> real \<Rightarrow> string \<Rightarrow> string \<Rightarrow> string option \<Rightarrow> bool" where
  "detect_wash_trade g now symbol side user_id =
     list_ex (\<lambda>t. tr_symbol t = symbol \<and> tr_side t = opposite_side side \<and> tr_user_id t = user_id \<and>
                  now - tr_timestamp t < of_int (cg_wash_window g)) (cg_recent_trades g)"

definition cleanup_recent_trades :: "real \<Rightarrow> guardian \<Rightarrow> guardian" where
  "cleanup_recent_trades now g =
     g\<lparr>cg_recent_trades := filter (\<lambda>t. now - tr_timestamp t < of_int (cg_wash_window g)) (cg_recent_trades g)\<rparr>"

definition record_recent_trade :: "real \<Rightarrow> trade_record \<Rightarrow> guardian \<Rightarrow> guardian" where
  "record_recent_trade now t g =
     (let g1 = cleanup_recent_trades now (g\<lparr>cg_recent_trades := cg_recent_trades g @ [t]\<rparr>)
      in if py_lower (tr_side t) = ''buy''
         then g1\<lparr>cg_recent_buys := filter (\<lambda>b. tr_timestamp t - RECENT_BUYS_WINDOW_SEC \<le> b)
                                     (cg_recent_buys g1 @ [tr_timestamp t])\<rparr>
         else g1)"

text \<open>The throttle: the buffer of the last second, and the decision.\<close>

definition hft_recent :: "real \<Rightarrow> guardian \<Rightarrow> trade_record list" where
  "hft_recent now g = filter (\<lambda>t. now - tr_timestamp t < 1) (cg_hft_recent g)"

definition hft_throttle :: "real \<Rightarrow> guardian \<Rightarrow> string \<Rightarrow> string option \<Rightarrow> bool" where
  "hft_throttle now g symbol user_id =
     (let mine = filter (\<lambda>t. tr_user_id t = user_id) (hft_recent now g)
      in cg_hft_aggregate g \<le> int (length mine) \<or>
         cg_hft_symbol g \<le> int (length (filter (\<lambda>t. tr_symbol t = symbol) mine)))"

text \<open>\<open>check_order\<close>: the guardian afterwards, the answer, and the reason code of a refusal.\<close>

definition check_order :: "real \<Rightarrow> compliance_order \<Rightarrow> guardian \<Rightarrow> guardian \<times> bool \<times> string" where
  "check_order now x g =
     (case (co_symbol x, co_side x) of
        (Some symbol, Some side) \<Rightarrow>
          if symbol \<in> set (cg_restricted_list g) then (g, False, ''restricted_symbol'')
          else if \<not> is_spot_us_equity x then (g, False, ''non_spot_us_equity'')
          else if \<not> check_mifid_fields x then (g, False, ''missing_mifid_fields'')
          else if detect_wash_trade g now symbol side (co_user_id x) then (g, False, ''wash_trade'')
          else if \<not> check_risk_limits g x then (g, False, ''max_order_value'')
          else (let t = \<lparr>tr_symbol = symbol, tr_side = side, tr_timestamp = now, tr_user_id = co_user_id x\<rparr>;
                    g1 = g\<lparr>cg_hft_recent := hft_recent now g\<rparr>
                in if hft_throttle now g symbol (co_user_id x) then (g1, False, ''hft_throttle'')
                   else (record_recent_trade now t (g1\<lparr>cg_hft_recent := cg_hft_recent g1 @ [t]\<rparr>), True, []))
      | (Some symbol, None) \<Rightarrow>
          (g, False, if symbol \<in> set (cg_restricted_list g) then ''restricted_symbol''
                     else if \<not> is_spot_us_equity x then ''non_spot_us_equity'' else ''missing_mifid_fields'')
      | (None, _) \<Rightarrow> (g, False, ''non_spot_us_equity''))"

section \<open>The budget of the day\<close>

definition check_trade :: "bool \<Rightarrow> string \<Rightarrow> compliance_order \<Rightarrow> guardian \<Rightarrow> bool" where
  "check_trade allow_exits source x g =
     (\<not> (source \<noteq> ''human_approved'' \<and> \<not> (allow_exits \<and> is_risk_reducing_exit x)
         \<and> cg_max_daily_trades g \<le> cg_daily_trades g))"

text \<open>The durable store of the count; each call may raise. \<open>None\<close> is a process without a store.\<close>

record 's budget_ablage =
  ba_get :: "'s \<Rightarrow> real \<Rightarrow> string \<Rightarrow> py_error + wert option"
  ba_incrbyfloat :: "'s \<Rightarrow> real \<Rightarrow> string \<Rightarrow> real \<Rightarrow> py_error + 's"
  ba_expire :: "'s \<Rightarrow> real \<Rightarrow> string \<Rightarrow> real \<Rightarrow> py_error + 's"

definition BUDGET_PRAEFIX :: string where "BUDGET_PRAEFIX = ''compliance:daily_trades:''"

definition BUDGET_FRIST_S :: real where "BUDGET_FRIST_S = 3 * 24 * 3600"

definition budget_schluessel :: "string \<Rightarrow> string" where
  "budget_schluessel day = BUDGET_PRAEFIX @ day"

definition budget_von_heute :: "'s budget_ablage option \<Rightarrow> 's \<Rightarrow> real \<Rightarrow> string \<Rightarrow> int \<Rightarrow> int" where
  "budget_von_heute a s now day limit =
     (case a of
        None \<Rightarrow> 0
      | Some p \<Rightarrow>
          (case ba_get p s now (budget_schluessel day) of
             Inl e \<Rightarrow> limit
           | Inr None \<Rightarrow> 0
           | Inr (Some w) \<Rightarrow> (case wert_float w of None \<Rightarrow> limit | Some r \<Rightarrow> max 0 (round_half_even r))))"

definition budget_buchen :: "'s budget_ablage option \<Rightarrow> real \<Rightarrow> string \<Rightarrow> real \<Rightarrow> 's \<Rightarrow> 's" where
  "budget_buchen a now day betrag s =
     (case a of
        None \<Rightarrow> s
      | Some p \<Rightarrow>
          (case ba_incrbyfloat p s now (budget_schluessel day) betrag of
             Inl e \<Rightarrow> s
           | Inr s1 \<Rightarrow> (case ba_expire p s1 now (budget_schluessel day) BUDGET_FRIST_S of Inl e \<Rightarrow> s1 | Inr s2 \<Rightarrow> s2)))"

definition record_trade ::
  "'s budget_ablage option \<Rightarrow> bool \<Rightarrow> real \<Rightarrow> string \<Rightarrow> compliance_order option \<Rightarrow> guardian \<times> 's \<Rightarrow> guardian \<times> 's" where
  "record_trade a allow_exits now day order gs =
     (if (case order of None \<Rightarrow> False | Some x \<Rightarrow> allow_exits \<and> is_risk_reducing_exit x) then gs
      else ((fst gs)\<lparr>cg_daily_trades := cg_daily_trades (fst gs) + 1\<rparr>, budget_buchen a now day 1 (snd gs)))"

definition refund_trade :: "'s budget_ablage option \<Rightarrow> real \<Rightarrow> string \<Rightarrow> guardian \<times> 's \<Rightarrow> guardian \<times> 's" where
  "refund_trade a now day gs =
     (if 0 < cg_daily_trades (fst gs)
      then ((fst gs)\<lparr>cg_daily_trades := cg_daily_trades (fst gs) - 1\<rparr>, budget_buchen a now day (- 1) (snd gs))
      else gs)"

definition reset_daily_limit :: "'s budget_ablage option \<Rightarrow> real \<Rightarrow> string \<Rightarrow> guardian \<times> 's \<Rightarrow> guardian" where
  "reset_daily_limit a now day gs =
     (fst gs)\<lparr>cg_daily_trades := budget_von_heute a (snd gs) now day (cg_max_daily_trades (fst gs)),
              cg_alert_sent := False, cg_recent_buys := []\<rparr>"

definition buys_last_hour :: "real \<Rightarrow> guardian \<Rightarrow> nat" where
  "buys_last_hour now g = length (filter (\<lambda>t. now - t \<le> 3600) (cg_recent_buys g))"

definition minutes_since_last_buy :: "real \<Rightarrow> guardian \<Rightarrow> real option" where
  "minutes_since_last_buy now g =
     (if cg_recent_buys g = [] then None else Some ((now - Max (set (cg_recent_buys g))) / 60))"

text \<open>A guardian at boot: the limits of the configuration, the count of the day, then the policy.\<close>

record hft_config =
  HFT_MAX_ORDERS_PER_SEC_SYMBOL :: int
  HFT_MAX_ORDERS_PER_SEC_AGGREGATE :: int

definition ComplianceGuardian ::
  "iron_config \<Rightarrow> hft_config \<Rightarrow> 's budget_ablage option \<Rightarrow> real \<Rightarrow> string \<Rightarrow> 's \<Rightarrow> py_error + guardian" where
  "ComplianceGuardian cfg hft a now day s =
     reload_policy cfg (Some [])
       \<lparr>cg_max_order_value = fl_min (operating_value cfg) MAX_ORDER_VALUE_CEILING,
        cg_max_daily_trades = operating_trades cfg, cg_wash_window = 60, cg_restricted_list = [],
        cg_recent_trades = [], cg_recent_buys = [], cg_hft_symbol = HFT_MAX_ORDERS_PER_SEC_SYMBOL hft,
        cg_hft_aggregate = HFT_MAX_ORDERS_PER_SEC_AGGREGATE hft, cg_hft_recent = [],
        cg_daily_trades = budget_von_heute a s now day (operating_trades cfg), cg_alert_sent = False\<rparr>"

section \<open>The order step of the engine\<close>

text \<open>
  \<open>_schritt_compliance\<close>: the checks, the dust floor for exits (its decision is \<open>dust\<close>), the budget, and
  the booking. The flag of the alert is not touched by its decisions.
\<close>

definition schritt_compliance ::
  "'s budget_ablage option \<Rightarrow> bool \<Rightarrow> real \<Rightarrow> string \<Rightarrow> bool \<Rightarrow> compliance_order \<Rightarrow> guardian \<times> 's
     \<Rightarrow> (guardian \<times> 's) \<times> string" where
  "schritt_compliance a allow_exits now day dust x gs =
     (case check_order now x (fst gs) of
        (g1, False, _) \<Rightarrow> ((g1, snd gs), ''blocked:order_value'')
      | (g1, True, _) \<Rightarrow>
          if co_side x = Some ''sell'' \<and> dust then ((g1, snd gs), ''blocked:dust'')
          else if \<not> check_trade allow_exits ''ai'' x g1 then ((g1\<lparr>cg_alert_sent := True\<rparr>, snd gs), ''blocked:daily_limit'')
          else (record_trade a allow_exits now day (Some x) (g1, snd gs), []))"

text \<open>
  \<open>register_displacement_leg\<close>: a leg of a displacement is shown to the checks and booked, whatever they say and
  without a look at the budget.
\<close>

definition register_displacement_leg ::
  "'s budget_ablage option \<Rightarrow> bool \<Rightarrow> real \<Rightarrow> string \<Rightarrow> compliance_order \<Rightarrow> guardian \<times> 's \<Rightarrow> (guardian \<times> 's) \<times> bool" where
  "register_displacement_leg a allow_exits now day x gs =
     (case check_order now x (fst gs) of
        (g1, ok, _) \<Rightarrow> (record_trade a allow_exits now day (Some x) (g1, snd gs), ok))"

section \<open>Runs of one process\<close>

text \<open>
  What happens to a guardian: an order goes through the step, a reserved slot is given back after a
  rejection, the limits are loaded again, the day is reset. The trace holds the records of the orders
  the checks approved.
\<close>

datatype guard_op = Submit bool compliance_order | Refund | Reload "rohdict option" | Reset_day

definition passed :: "real \<Rightarrow> compliance_order \<Rightarrow> guardian \<Rightarrow> trade_record list" where
  "passed now x g =
     (if fst (snd (check_order now x g))
      then [\<lparr>tr_symbol = the (co_symbol x), tr_side = the (co_side x), tr_timestamp = now, tr_user_id = co_user_id x\<rparr>]
      else [])"

fun guard_step ::
  "iron_config \<Rightarrow> 's budget_ablage option \<Rightarrow> bool \<Rightarrow> real \<times> string \<times> guard_op \<Rightarrow> guardian \<times> 's \<Rightarrow> guardian \<times> 's" where
  "guard_step cfg a ex (now, day, Submit dust x) gs = fst (schritt_compliance a ex now day dust x gs)"
| "guard_step cfg a ex (now, day, Refund) gs = refund_trade a now day gs"
| "guard_step cfg a ex (now, day, Reload raw) gs =
     (case reload_policy cfg raw (fst gs) of Inl _ \<Rightarrow> gs | Inr g \<Rightarrow> (g, snd gs))"
| "guard_step cfg a ex (now, day, Reset_day) gs = (reset_daily_limit a now day gs, snd gs)"

fun guard_trace ::
  "iron_config \<Rightarrow> 's budget_ablage option \<Rightarrow> bool \<Rightarrow> (real \<times> string \<times> guard_op) list \<Rightarrow> guardian \<times> 's \<Rightarrow> trade_record list" where
  "guard_trace cfg a ex [] gs = []"
| "guard_trace cfg a ex (op # ops) gs =
     (case op of (now, _, Submit _ x) \<Rightarrow> passed now x (fst gs) | _ \<Rightarrow> []) @
     guard_trace cfg a ex ops (guard_step cfg a ex op gs)"

section \<open>Lemmas of the checks\<close>

lemma check_order_True:
  assumes "check_order now x g = (g', True, c)"
  obtains s sd where "co_symbol x = Some s" "co_side x = Some sd" "s \<notin> set (cg_restricted_list g)"
    "is_spot_us_equity x" "check_mifid_fields x" "\<not> detect_wash_trade g now s sd (co_user_id x)"
    "check_risk_limits g x" "\<not> hft_throttle now g s (co_user_id x)"
    "g' = record_recent_trade now \<lparr>tr_symbol = s, tr_side = sd, tr_timestamp = now, tr_user_id = co_user_id x\<rparr>
       (g\<lparr>cg_hft_recent := hft_recent now g @ [\<lparr>tr_symbol = s, tr_side = sd, tr_timestamp = now, tr_user_id = co_user_id x\<rparr>]\<rparr>)"
  using assms by (auto simp: check_order_def Let_def split: option.splits if_splits)

lemma check_order_False:
  assumes "check_order now x g = (g', False, c)"
  shows "g' = g \<or> g' = g\<lparr>cg_hft_recent := hft_recent now g\<rparr>"
  using assms by (auto simp: check_order_def Let_def split: option.splits if_splits)

lemma record_recent_sel [simp]:
  "cg_hft_recent (record_recent_trade now t g) = cg_hft_recent g"
  "cg_hft_symbol (record_recent_trade now t g) = cg_hft_symbol g"
  "cg_hft_aggregate (record_recent_trade now t g) = cg_hft_aggregate g"
  "cg_wash_window (record_recent_trade now t g) = cg_wash_window g"
  "cg_daily_trades (record_recent_trade now t g) = cg_daily_trades g"
  "cg_max_daily_trades (record_recent_trade now t g) = cg_max_daily_trades g"
  "cg_recent_trades (record_recent_trade now t g) =
     filter (\<lambda>u. now - tr_timestamp u < of_int (cg_wash_window g)) (cg_recent_trades g @ [t])"
  by (simp_all add: record_recent_trade_def cleanup_recent_trades_def Let_def)

lemma check_order_keeps [simp]:
  "cg_hft_symbol (fst (check_order now x g)) = cg_hft_symbol g"
  "cg_hft_aggregate (fst (check_order now x g)) = cg_hft_aggregate g"
  "cg_wash_window (fst (check_order now x g)) = cg_wash_window g"
  "cg_daily_trades (fst (check_order now x g)) = cg_daily_trades g"
  "cg_max_daily_trades (fst (check_order now x g)) = cg_max_daily_trades g"
  by (auto simp: check_order_def Let_def split: option.split)

text \<open>Outside the checks nothing touches the two buffers.\<close>

lemma schritt_keeps:
  "cg_hft_recent (fst (fst (schritt_compliance a ex now day dust x gs))) = cg_hft_recent (fst (check_order now x (fst gs)))"
  "cg_recent_trades (fst (fst (schritt_compliance a ex now day dust x gs))) = cg_recent_trades (fst (check_order now x (fst gs)))"
  "cg_hft_symbol (fst (fst (schritt_compliance a ex now day dust x gs))) = cg_hft_symbol (fst gs)"
  "cg_hft_aggregate (fst (fst (schritt_compliance a ex now day dust x gs))) = cg_hft_aggregate (fst gs)"
  "cg_wash_window (fst (fst (schritt_compliance a ex now day dust x gs))) = cg_wash_window (fst gs)"
  "cg_max_daily_trades (fst (fst (schritt_compliance a ex now day dust x gs))) = cg_max_daily_trades (fst gs)"
  using check_order_keeps [of now x "fst gs"]
  by (auto simp: schritt_compliance_def record_trade_def split: prod.split bool.split simp del: check_order_keeps)

section \<open>The throttle\<close>

definition in_second :: "real \<Rightarrow> trade_record \<Rightarrow> bool" where
  "in_second t r = (t - 1 < tr_timestamp r \<and> tr_timestamp r \<le> t)"

definition at_most :: "int \<Rightarrow> (trade_record \<Rightarrow> bool) \<Rightarrow> trade_record list \<Rightarrow> bool" where
  "at_most cap P L = (\<forall>t. int (length (filter (\<lambda>r. P r \<and> in_second t r) L)) \<le> max 0 cap)"

definition buffer_ok :: "real \<Rightarrow> real \<Rightarrow> trade_record list \<Rightarrow> trade_record list \<Rightarrow> bool" where
  "buffer_ok w now L buf =
     ((\<forall>t \<ge> now. filter (\<lambda>r. t - tr_timestamp r < w) buf = filter (\<lambda>r. t - tr_timestamp r < w) L) \<and>
      (\<forall>r \<in> set L. tr_timestamp r \<le> now))"

lemma filter_filter_imp: "\<forall>x. Q x \<longrightarrow> P x \<Longrightarrow> filter Q (filter P xs) = filter Q xs"
  by (induction xs) auto

lemma buffer_later: "buffer_ok w now L buf \<Longrightarrow> now \<le> now' \<Longrightarrow> buffer_ok w now' L buf"
  by (force simp: buffer_ok_def)

lemma buffer_purge:
  assumes "buffer_ok w now L buf" "w \<le> w'"
  shows "buffer_ok w now L (filter (\<lambda>r. now - tr_timestamp r < w') buf)"
proof -
  have "filter (\<lambda>r. t - tr_timestamp r < w) (filter (\<lambda>r. now - tr_timestamp r < w') buf)
      = filter (\<lambda>r. t - tr_timestamp r < w) buf" if "now \<le> t" for t
    by (rule filter_filter_imp) (use that assms(2) in auto)
  with assms(1) show ?thesis by (simp add: buffer_ok_def)
qed

lemma buffer_add:
  "buffer_ok w now L buf \<Longrightarrow> tr_timestamp r = now \<Longrightarrow> buffer_ok w now (L @ [r]) (buf @ [r])"
  by (auto simp: buffer_ok_def)

lemma at_most_snoc:
  assumes L: "at_most cap P L" and past: "\<forall>u \<in> set L. tr_timestamp u \<le> tr_timestamp r"
    and room: "P r \<Longrightarrow> int (length (filter P (filter (\<lambda>u. tr_timestamp r - tr_timestamp u < 1) L))) < cap"
  shows "at_most cap P (L @ [r])"
  unfolding at_most_def
proof
  fix t
  show "int (length (filter (\<lambda>u. P u \<and> in_second t u) (L @ [r]))) \<le> max 0 cap"
  proof (cases "P r \<and> in_second t r")
    case False
    then have "filter (\<lambda>u. P u \<and> in_second t u) (L @ [r]) = filter (\<lambda>u. P u \<and> in_second t u) L" by auto
    with L show ?thesis by (simp only: at_most_def)
  next
    case True
    have "filter (\<lambda>u. P u \<and> in_second t u) L = filter (\<lambda>u. in_second t u) (filter P (filter (\<lambda>u. tr_timestamp r - tr_timestamp u < 1) L))"
      unfolding filter_filter by (rule filter_cong) (use True in \<open>auto simp: in_second_def\<close>)
    then have "length (filter (\<lambda>u. P u \<and> in_second t u) L) \<le> length (filter P (filter (\<lambda>u. tr_timestamp r - tr_timestamp u < 1) L))"
      by (simp only: length_filter_le)
    with room True show ?thesis by simp
  qed
qed

definition throttled :: "trade_record list \<Rightarrow> guardian \<Rightarrow> bool" where
  "throttled L g =
     (\<forall>u. at_most (cg_hft_aggregate g) (\<lambda>r. tr_user_id r = u) L \<and>
          (\<forall>s. at_most (cg_hft_symbol g) (\<lambda>r. tr_user_id r = u \<and> tr_symbol r = s) L))"

lemma check_throttled:
  assumes "buffer_ok 1 now L (cg_hft_recent g)" "throttled L g"
  shows "buffer_ok 1 now (L @ passed now x g) (cg_hft_recent (fst (check_order now x g)))
    \<and> throttled (L @ passed now x g) (fst (check_order now x g))"
proof (cases "fst (snd (check_order now x g))")
  case False
  then obtain g' c where g': "check_order now x g = (g', False, c)" by (cases "check_order now x g") auto
  from check_order_False [OF this] assms buffer_purge [OF assms(1), of 1] show ?thesis
    by (auto simp: passed_def g' hft_recent_def throttled_def)
next
  case True
  then obtain g' c where g': "check_order now x g = (g', True, c)" by (cases "check_order now x g") auto
  from check_order_True [OF g'] obtain s sd where x: "co_symbol x = Some s" "co_side x = Some sd"
      "\<not> hft_throttle now g s (co_user_id x)"
    and g: "g' = record_recent_trade now \<lparr>tr_symbol = s, tr_side = sd, tr_timestamp = now, tr_user_id = co_user_id x\<rparr>
       (g\<lparr>cg_hft_recent := hft_recent now g @ [\<lparr>tr_symbol = s, tr_side = sd, tr_timestamp = now, tr_user_id = co_user_id x\<rparr>]\<rparr>)"
    by metis
  let ?r = "\<lparr>tr_symbol = s, tr_side = sd, tr_timestamp = now, tr_user_id = co_user_id x\<rparr>"
  have p: "passed now x g = [?r]" by (simp add: passed_def g' x)
  have past: "\<forall>u \<in> set L. tr_timestamp u \<le> tr_timestamp ?r" using assms(1) by (simp add: buffer_ok_def)
  have same: "filter (\<lambda>u. now - tr_timestamp u < 1) L = hft_recent now g"
    using assms(1) by (simp add: buffer_ok_def hft_recent_def)
  have "at_most (cg_hft_aggregate g) (\<lambda>r. tr_user_id r = u) (L @ [?r])" for u
    by (rule at_most_snoc [OF _ past]) (use assms(2) x(3) same in \<open>auto simp: throttled_def hft_throttle_def Let_def\<close>)
  moreover have "at_most (cg_hft_symbol g) (\<lambda>r. tr_user_id r = u \<and> tr_symbol r = q) (L @ [?r])" for u q
    by (rule at_most_snoc [OF _ past])
       (use assms(2) x(3) same in \<open>auto simp: throttled_def hft_throttle_def Let_def filter_filter conj_commute\<close>)
  ultimately have "throttled (L @ [?r]) g'" by (simp add: throttled_def g)
  moreover have "buffer_ok 1 now (L @ [?r]) (cg_hft_recent g')"
    using buffer_add [OF buffer_purge [OF assms(1), of 1], of ?r] by (simp add: g hft_recent_def)
  ultimately show ?thesis by (simp add: p g')
qed

lemma guard_step_throttled:
  assumes "buffer_ok 1 now L (cg_hft_recent (fst gs))" "throttled L (fst gs)" "op = (now, day, k)"
  shows "buffer_ok 1 now (L @ (case k of Submit _ x \<Rightarrow> passed now x (fst gs) | _ \<Rightarrow> []))
      (cg_hft_recent (fst (guard_step cfg a ex op gs)))
    \<and> throttled (L @ (case k of Submit _ x \<Rightarrow> passed now x (fst gs) | _ \<Rightarrow> [])) (fst (guard_step cfg a ex op gs))"
proof (cases k)
  case (Submit dust x)
  with check_throttled [OF assms(1,2), of x] show ?thesis
    by (simp add: assms(3) schritt_keeps throttled_def)
qed (use assms in \<open>auto simp: refund_trade_def reload_policy_def reset_daily_limit_def throttled_def split: sum.split\<close>)

lemma guard_run_throttled:
  assumes "sorted (map fst ops)" "\<forall>op \<in> set ops. now \<le> fst op"
    "buffer_ok 1 now L (cg_hft_recent (fst gs))" "throttled L (fst gs)"
  shows "at_most (cg_hft_aggregate (fst gs)) (\<lambda>r. tr_user_id r = u) (L @ guard_trace cfg a ex ops gs)
    \<and> at_most (cg_hft_symbol (fst gs)) (\<lambda>r. tr_user_id r = u \<and> tr_symbol r = s) (L @ guard_trace cfg a ex ops gs)"
  using assms
proof (induction ops arbitrary: now L gs)
  case Nil
  then show ?case by (simp add: throttled_def)
next
  case (Cons op ops)
  obtain t day k where op: "op = (t, day, k)" by (cases op)
  let ?gs = "guard_step cfg a ex op gs" and ?L = "L @ (case k of Submit _ x \<Rightarrow> passed t x (fst gs) | _ \<Rightarrow> [])"
  have "buffer_ok 1 t L (cg_hft_recent (fst gs))"
    using buffer_later [OF Cons.prems(3)] Cons.prems(2) op by simp
  from guard_step_throttled [OF this Cons.prems(4) op, of cfg a ex]
  have st: "buffer_ok 1 t ?L (cg_hft_recent (fst ?gs))" "throttled ?L (fst ?gs)" by blast+
  have caps: "cg_hft_aggregate (fst ?gs) = cg_hft_aggregate (fst gs)" "cg_hft_symbol (fst ?gs) = cg_hft_symbol (fst gs)"
    by (cases k; auto simp: op schritt_keeps refund_trade_def reload_policy_def reset_daily_limit_def split: sum.split)+
  have "sorted (map fst ops)" "\<forall>op \<in> set ops. t \<le> fst op" using Cons.prems(1) op by auto
  from Cons.IH [OF this st] show ?case
    using caps by (simp add: op)
qed

section \<open>Wash trades\<close>

definition opposed :: "trade_record \<Rightarrow> trade_record \<Rightarrow> bool" where
  "opposed r r' =
     (tr_symbol r = tr_symbol r' \<and> tr_user_id r = tr_user_id r' \<and> {tr_side r, tr_side r'} = {''buy'', ''sell''})"

definition apart :: "real \<Rightarrow> trade_record list \<Rightarrow> bool" where
  "apart w L = sorted_wrt (\<lambda>r r'. opposed r r' \<longrightarrow> w \<le> tr_timestamp r' - tr_timestamp r) L"

lemma opposed_side: "opposed r r' \<Longrightarrow> tr_side r = opposite_side (tr_side r')"
  by (auto simp: opposed_def opposite_side_def doubleton_eq_iff)

lemma check_apart:
  assumes "buffer_ok w now L (cg_recent_trades g)" "apart w L" "w \<le> of_int (cg_wash_window g)"
  shows "buffer_ok w now (L @ passed now x g) (cg_recent_trades (fst (check_order now x g)))
    \<and> apart w (L @ passed now x g)"
proof (cases "fst (snd (check_order now x g))")
  case False
  then obtain g' c where g': "check_order now x g = (g', False, c)" by (cases "check_order now x g") auto
  from check_order_False [OF this] assms(1,2) show ?thesis by (auto simp: passed_def g')
next
  case True
  then obtain g' c where g': "check_order now x g = (g', True, c)" by (cases "check_order now x g") auto
  from check_order_True [OF g'] obtain s sd where x: "co_symbol x = Some s" "co_side x = Some sd"
      "\<not> detect_wash_trade g now s sd (co_user_id x)"
    and g: "g' = record_recent_trade now \<lparr>tr_symbol = s, tr_side = sd, tr_timestamp = now, tr_user_id = co_user_id x\<rparr>
       (g\<lparr>cg_hft_recent := hft_recent now g @ [\<lparr>tr_symbol = s, tr_side = sd, tr_timestamp = now, tr_user_id = co_user_id x\<rparr>]\<rparr>)"
    by metis
  let ?r = "\<lparr>tr_symbol = s, tr_side = sd, tr_timestamp = now, tr_user_id = co_user_id x\<rparr>"
  have p: "passed now x g = [?r]" by (simp add: passed_def g' x)
  have far: "w \<le> now - tr_timestamp r" if "r \<in> set L" "opposed r ?r" for r
  proof (rule ccontr)
    assume "\<not> w \<le> now - tr_timestamp r"
    with that(1) assms(1) have "r \<in> set (filter (\<lambda>r. now - tr_timestamp r < w) (cg_recent_trades g))"
      by (simp add: buffer_ok_def)
    then have r: "r \<in> set (cg_recent_trades g)" "now - tr_timestamp r < w" by simp_all
    have "tr_side r = opposite_side sd" "tr_symbol r = s" "tr_user_id r = co_user_id x"
      using opposed_side [OF that(2)] that(2) by (simp_all add: opposed_def)
    moreover have "now - tr_timestamp r < of_int (cg_wash_window g)" using r(2) assms(3) by linarith
    ultimately have "detect_wash_trade g now s sd (co_user_id x)"
      unfolding detect_wash_trade_def list_ex_iff using r(1) by blast
    with x(3) show False ..
  qed
  have "apart w (L @ [?r])" using assms(2) far by (auto simp: apart_def sorted_wrt_append)
  moreover have "buffer_ok w now (L @ [?r]) (cg_recent_trades g')"
    using buffer_purge [OF buffer_add [OF assms(1), of ?r] assms(3)] by (simp add: g)
  ultimately show ?thesis by (simp add: p g')
qed

definition wash_floor :: real where
  "wash_floor = of_int WASH_TRADE_WINDOW_MIN_SECONDS"

lemma reload_window:
  "reload_policy cfg raw g = Inr g' \<Longrightarrow> WASH_TRADE_WINDOW_MIN_SECONDS \<le> cg_wash_window g'"
  by (auto simp: reload_policy_def within_caps_def dest: load_within split: sum.splits)

lemma guard_step_apart:
  assumes "buffer_ok wash_floor now L (cg_recent_trades (fst gs))" "apart wash_floor L"
    "WASH_TRADE_WINDOW_MIN_SECONDS \<le> cg_wash_window (fst gs)" "op = (now, day, k)"
  shows "buffer_ok wash_floor now (L @ (case k of Submit _ x \<Rightarrow> passed now x (fst gs) | _ \<Rightarrow> []))
      (cg_recent_trades (fst (guard_step cfg a ex op gs)))
    \<and> apart wash_floor (L @ (case k of Submit _ x \<Rightarrow> passed now x (fst gs) | _ \<Rightarrow> []))
    \<and> WASH_TRADE_WINDOW_MIN_SECONDS \<le> cg_wash_window (fst (guard_step cfg a ex op gs))"
proof (cases k)
  case (Submit dust x)
  have "wash_floor \<le> of_int (cg_wash_window (fst gs))" using assms(3) by (simp add: wash_floor_def)
  from check_apart [OF assms(1,2) this, of x] assms(3) Submit show ?thesis
    by (simp add: assms(4) schritt_keeps)
next
  case (Reload raw)
  with assms show ?thesis
    by (auto simp: reload_policy_def within_caps_def dest: load_within split: sum.split)
qed (use assms in \<open>auto simp: refund_trade_def reset_daily_limit_def\<close>)

lemma guard_run_apart:
  assumes "sorted (map fst ops)" "\<forall>op \<in> set ops. now \<le> fst op"
    "buffer_ok wash_floor now L (cg_recent_trades (fst gs))" "apart wash_floor L"
    "WASH_TRADE_WINDOW_MIN_SECONDS \<le> cg_wash_window (fst gs)"
  shows "apart wash_floor (L @ guard_trace cfg a ex ops gs)"
  using assms
proof (induction ops arbitrary: now L gs)
  case (Cons op ops)
  obtain t day k where op: "op = (t, day, k)" by (cases op)
  let ?gs = "guard_step cfg a ex op gs" and ?L = "L @ (case k of Submit _ x \<Rightarrow> passed t x (fst gs) | _ \<Rightarrow> [])"
  have "buffer_ok wash_floor t L (cg_recent_trades (fst gs))"
    using buffer_later [OF Cons.prems(3)] Cons.prems(2) op by simp
  from guard_step_apart [OF this Cons.prems(4,5) op, of cfg a ex]
  have st: "buffer_ok wash_floor t ?L (cg_recent_trades (fst ?gs))" "apart wash_floor ?L"
      "WASH_TRADE_WINDOW_MIN_SECONDS \<le> cg_wash_window (fst ?gs)" by blast+
  have "sorted (map fst ops)" "\<forall>op \<in> set ops. t \<le> fst op" using Cons.prems(1) op by auto
  from Cons.IH [OF this st] show ?case by (simp add: op)
qed simp

lemma boot_guardian:
  assumes "ComplianceGuardian cfg hft a now day s = Inr g"
  shows "cg_hft_recent g = [] \<and> cg_recent_trades g = [] \<and> WASH_TRADE_WINDOW_MIN_SECONDS \<le> cg_wash_window g
    \<and> cg_hft_symbol g = HFT_MAX_ORDERS_PER_SEC_SYMBOL hft
    \<and> cg_hft_aggregate g = HFT_MAX_ORDERS_PER_SEC_AGGREGATE hft"
  using assms reload_window [of cfg "Some []"]
  by (auto simp: ComplianceGuardian_def reload_policy_def split: sum.splits)

text \<open>
  C14: From its boot on, whatever is submitted, refunded, loaded as a policy or reset in between, the orders
  that a guardian approves within any one second are at most the aggregate cap for each user and at
  most the cap per symbol for each user and symbol.
\<close>

theorem throttle_holds:
  assumes "ComplianceGuardian cfg hft a now day s = Inr g" "sorted (map fst ops)"
    "trace = guard_trace cfg a ex ops (g, s)"
  shows "int (length (filter (\<lambda>r. tr_user_id r = u \<and> t - 1 < tr_timestamp r \<and> tr_timestamp r \<le> t) trace))
      \<le> max 0 (HFT_MAX_ORDERS_PER_SEC_AGGREGATE hft)
    \<and> int (length (filter (\<lambda>r. tr_user_id r = u \<and> tr_symbol r = sy \<and> t - 1 < tr_timestamp r \<and> tr_timestamp r \<le> t) trace))
      \<le> max 0 (HFT_MAX_ORDERS_PER_SEC_SYMBOL hft)"
proof -
  note boot = boot_guardian [OF assms(1)]
  let ?t0 = "Min (insert 0 (set (map fst ops)))"
  have "buffer_ok 1 ?t0 [] (cg_hft_recent (fst (g, s)))" "throttled [] (fst (g, s))"
    using boot by (simp_all add: buffer_ok_def throttled_def at_most_def)
  from guard_run_throttled [OF assms(2) _ this, of u cfg a ex sy] show ?thesis
    using boot by (simp add: at_most_def in_second_def assms(3) conj_assoc)
qed

text \<open>
  C15: A guardian never approves both a purchase and a sale of one symbol for one user within 30 seconds, the
  floor of the wash-trade window, whatever policies are loaded in between.
\<close>

theorem no_wash_trade:
  assumes "ComplianceGuardian cfg hft a now day s = Inr g" "sorted (map fst ops)"
    and "guard_trace cfg a ex ops (g, s) = xs @ r # ys @ r' # zs"
    and "tr_symbol r = tr_symbol r'" "tr_user_id r = tr_user_id r'" "{tr_side r, tr_side r'} = {''buy'', ''sell''}"
  shows "30 \<le> tr_timestamp r' - tr_timestamp r"
proof -
  note boot = boot_guardian [OF assms(1)]
  let ?t0 = "Min (insert 0 (set (map fst ops)))"
  have "buffer_ok wash_floor ?t0 [] (cg_recent_trades (fst (g, s)))" "apart wash_floor []"
      "WASH_TRADE_WINDOW_MIN_SECONDS \<le> cg_wash_window (fst (g, s))"
    using boot by (simp_all add: buffer_ok_def apart_def)
  from guard_run_apart [OF assms(2) _ this, of cfg a ex]
  have "apart wash_floor (xs @ r # ys @ r' # zs)" by (simp add: assms(3))
  with assms(4-6) show ?thesis
    by (simp add: apart_def sorted_wrt_append opposed_def wash_floor_def WASH_TRADE_WINDOW_MIN_SECONDS_def)
qed

section \<open>The durable budget\<close>

text \<open>
  What the guardian relies on: a booking of a counter that can be read succeeds, is read back until its
  expiry, and touches no other counter.
\<close>

definition stand :: "'s budget_ablage \<Rightarrow> 's \<Rightarrow> real \<Rightarrow> string \<Rightarrow> real \<Rightarrow> bool" where
  "stand p s t k r =
     (case ba_get p s t k of Inl _ \<Rightarrow> False | Inr None \<Rightarrow> r = 0 | Inr (Some w) \<Rightarrow> wert_float w = Some r)"

locale zaehler =
  fixes p :: "'s budget_ablage"
  assumes booked: "stand p s now k r \<Longrightarrow> \<exists>s1 s2. ba_incrbyfloat p s now k x = Inr s1 \<and> ba_expire p s1 now k d = Inr s2
      \<and> (\<forall>t. now \<le> t \<longrightarrow> t < now + d \<longrightarrow> stand p s2 t k (r + x))"
    and others: "ba_incrbyfloat p s now k x = Inr s1 \<Longrightarrow> ba_expire p s1 now k d = Inr s2 \<Longrightarrow> k' \<noteq> k
      \<Longrightarrow> ba_get p s2 t k' = ba_get p s t k'"
begin

lemma buchen_stand:
  assumes "stand p s now (budget_schluessel day) r" "now \<le> t" "t < now + BUDGET_FRIST_S"
  shows "stand p (budget_buchen (Some p) now day x s) t (budget_schluessel day) (r + x)"
proof -
  obtain s1 s2 where "ba_incrbyfloat p s now (budget_schluessel day) x = Inr s1"
      "ba_expire p s1 now (budget_schluessel day) BUDGET_FRIST_S = Inr s2"
      "\<forall>t. now \<le> t \<longrightarrow> t < now + BUDGET_FRIST_S \<longrightarrow> stand p s2 t (budget_schluessel day) (r + x)"
    using booked [OF assms(1)] by blast
  with assms(2,3) show ?thesis by (simp add: budget_buchen_def)
qed

lemma buchen_other_day:
  assumes "stand p s now (budget_schluessel day) r" "day' \<noteq> day"
  shows "ba_get p (budget_buchen (Some p) now day x s) t (budget_schluessel day')
    = ba_get p s t (budget_schluessel day')"
proof -
  obtain s1 s2 where b: "ba_incrbyfloat p s now (budget_schluessel day) x = Inr s1"
      "ba_expire p s1 now (budget_schluessel day) BUDGET_FRIST_S = Inr s2"
    using booked [OF assms(1)] by blast
  have "budget_schluessel day' \<noteq> budget_schluessel day" using assms(2) by (simp add: budget_schluessel_def)
  from others [OF b this] b show ?thesis by (simp add: budget_buchen_def)
qed

lemma heute_stand:
  "stand p s t (budget_schluessel day) (of_int n) \<Longrightarrow> budget_von_heute (Some p) s t day limit = max 0 n"
  by (auto simp: stand_def budget_von_heute_def split: sum.splits option.splits)

end

text \<open>The desktop's store.\<close>

definition sqlite_budget :: "store budget_ablage" where
  "sqlite_budget =
     \<lparr>ba_get = (\<lambda>s now k. Inr (sq_get s now k)),
      ba_incrbyfloat = (\<lambda>s now k x. map_sum id fst (sync_incrbyfloat s now k x)),
      ba_expire = (\<lambda>s now k d. Inr (fst (sync_expire s now k d)))\<rparr>"

interpretation budget: zaehler sqlite_budget
proof
  fix s :: store and now r x d :: real and k :: string
  assume "stand sqlite_budget s now k r"
  then have r: "(case sq_get s now k of None \<Rightarrow> r = 0 | Some w \<Rightarrow> wert_float w = Some r)"
    by (simp add: stand_def sqlite_budget_def)
  have "\<exists>frist. sync_incrbyfloat s now k x = Inr (s\<lparr>st_rows := (st_rows s)(k \<mapsto> (Zahl (r + x), frist))\<rparr>, r + x)"
    using r by (auto simp: sync_incrbyfloat_def sq_get_def split: option.splits if_splits)
  then obtain frist where
    i: "sync_incrbyfloat s now k x = Inr (s\<lparr>st_rows := (st_rows s)(k \<mapsto> (Zahl (r + x), frist))\<rparr>, r + x)" ..
  show "\<exists>s1 s2. ba_incrbyfloat sqlite_budget s now k x = Inr s1 \<and> ba_expire sqlite_budget s1 now k d = Inr s2
      \<and> (\<forall>t. now \<le> t \<longrightarrow> t < now + d \<longrightarrow> stand sqlite_budget s2 t k (r + x))"
    by (simp add: sqlite_budget_def i sync_expire_def stand_def sq_get_def abgelaufen_def)
next
  fix s s1 s2 :: store and now x d t :: real and k k' :: string
  assume "ba_incrbyfloat sqlite_budget s now k x = Inr s1" "ba_expire sqlite_budget s1 now k d = Inr s2" "k' \<noteq> k"
  then show "ba_get sqlite_budget s2 t k' = ba_get sqlite_budget s t k'"
    by (auto simp: sqlite_budget_def sync_incrbyfloat_def sync_expire_def sq_get_def map_sum_def Let_def
        split: option.splits sum.splits if_splits)
qed

section \<open>A day with restarts\<close>

text \<open>
  On one day, the operations of a guardian and restarts of the engine, and the slots they take. Two of them book
  without asking for the budget: the leg of a displacement, and the booking of a strategy after its order went
  out (\<open>strategies/base.py\<close>, \<open>_schritt_nachbuchen\<close>), which names no order.
\<close>

datatype day_op = Op guard_op | Leg compliance_order | Booking | Restart

fun beyond_cap :: "real \<times> day_op \<Rightarrow> bool" where
  "beyond_cap (_, Leg _) = True"
| "beyond_cap (_, Booking) = True"
| "beyond_cap _ = False"

fun day_step ::
  "iron_config \<Rightarrow> hft_config \<Rightarrow> 's budget_ablage \<Rightarrow> bool \<Rightarrow> string \<Rightarrow> real \<times> day_op \<Rightarrow> guardian \<times> 's \<Rightarrow> guardian \<times> 's" where
  "day_step cfg hft p ex day (now, Op k) gs = guard_step cfg (Some p) ex (now, day, k) gs"
| "day_step cfg hft p ex day (now, Leg x) gs = fst (register_displacement_leg (Some p) ex now day x gs)"
| "day_step cfg hft p ex day (now, Booking) gs = record_trade (Some p) ex now day None gs"
| "day_step cfg hft p ex day (now, Restart) gs =
     (case ComplianceGuardian cfg hft (Some p) now day (snd gs) of Inl _ \<Rightarrow> gs | Inr g \<Rightarrow> (g, snd gs))"

fun slot_change :: "'s budget_ablage \<Rightarrow> bool \<Rightarrow> string \<Rightarrow> real \<times> day_op \<Rightarrow> guardian \<times> 's \<Rightarrow> int" where
  "slot_change p ex day (now, Op (Submit dust x)) gs =
     (if snd (schritt_compliance (Some p) ex now day dust x gs) = [] \<and> \<not> (ex \<and> is_risk_reducing_exit x) then 1 else 0)"
| "slot_change p ex day (now, Op Refund) gs = (if 0 < cg_daily_trades (fst gs) then - 1 else 0)"
| "slot_change p ex day (now, Leg x) gs = (if ex \<and> is_risk_reducing_exit x then 0 else 1)"
| "slot_change p ex day (now, Booking) gs = 1"
| "slot_change p ex day _ gs = 0"

fun slots ::
  "iron_config \<Rightarrow> hft_config \<Rightarrow> 's budget_ablage \<Rightarrow> bool \<Rightarrow> string \<Rightarrow> (real \<times> day_op) list \<Rightarrow> guardian \<times> 's \<Rightarrow> int" where
  "slots cfg hft p ex day [] gs = 0"
| "slots cfg hft p ex day (op # ops) gs =
     slot_change p ex day op gs + slots cfg hft p ex day ops (day_step cfg hft p ex day op gs)"

text \<open>\<open>m\<close> counts the bookings that did not ask for the budget.\<close>

definition day_inv :: "'s budget_ablage \<Rightarrow> string \<Rightarrow> real \<Rightarrow> real \<Rightarrow> int \<Rightarrow> int \<Rightarrow> guardian \<times> 's \<Rightarrow> bool" where
  "day_inv p day now t1 m n gs =
     (cg_daily_trades (fst gs) = n \<and> 0 \<le> m \<and> 0 \<le> n \<and> n \<le> MAX_DAILY_TRADES_CEILING + m \<and>
      cg_max_daily_trades (fst gs) \<le> MAX_DAILY_TRADES_CEILING \<and>
      (\<forall>t. now \<le> t \<longrightarrow> t < t1 \<longrightarrow> stand p (snd gs) t (budget_schluessel day) (of_int n)))"

lemma reload_max:
  "reload_policy cfg raw g = Inr g' \<Longrightarrow> cg_max_daily_trades g' \<le> MAX_DAILY_TRADES_CEILING \<and> cg_daily_trades g' = cg_daily_trades g"
  by (auto simp: reload_policy_def within_caps_def dest: load_within split: sum.splits)

lemma schritt_refused:
  assumes "check_order now x (fst gs) = (g1, ok, c)"
    "\<not> (ok \<and> \<not> (co_side x = Some ''sell'' \<and> dust) \<and> check_trade ex ''ai'' x g1)"
  obtains g2 r where "schritt_compliance a ex now day dust x gs = ((g2, snd gs), r)" "r \<noteq> []"
    "cg_daily_trades g2 = cg_daily_trades g1" "cg_max_daily_trades g2 = cg_max_daily_trades g1"
proof (cases ok)
  case False
  then show ?thesis by (intro that [of g1 "''blocked:order_value''"]) (simp_all add: schritt_compliance_def assms(1))
next
  case ok: True
  show ?thesis
  proof (cases "co_side x = Some ''sell'' \<and> dust")
    case True
    with ok show ?thesis by (intro that [of g1 "''blocked:dust''"]) (simp_all add: schritt_compliance_def assms(1))
  next
    case False
    with ok assms(2) show ?thesis
      by (intro that [of "g1\<lparr>cg_alert_sent := True\<rparr>" "''blocked:daily_limit''"])
         (simp_all add: schritt_compliance_def assms(1))
  qed
qed

context zaehler
begin

lemma day_inv_book:
  assumes "day_inv p day now t1 m n gs" "now < t1" "t1 \<le> now + BUDGET_FRIST_S"
    "0 \<le> n + x" "n + x \<le> MAX_DAILY_TRADES_CEILING + m" "cg_daily_trades g' = n + x" "cg_max_daily_trades g' = cg_max_daily_trades (fst gs)"
  shows "day_inv p day now t1 m (n + x) (g', budget_buchen (Some p) now day (of_int x) (snd gs))"
  using assms buchen_stand [of "snd gs" now day "of_int n" _ "of_int x"] by (simp add: day_inv_def)

lemma day_inv_slack: "day_inv p day now t1 m n gs \<Longrightarrow> m \<le> m' \<Longrightarrow> day_inv p day now t1 m' n gs"
  by (simp add: day_inv_def)

text \<open>A booking, with one more slot or, for a protective exit, none.\<close>

lemma record_trade_inv:
  assumes inv: "day_inv p day now t1 m n (g1, s)" and t: "now < t1" "t1 \<le> now + BUDGET_FRIST_S"
    and "n + 1 \<le> MAX_DAILY_TRADES_CEILING + m"
  shows "day_inv p day now t1 m (n + (if case x of None \<Rightarrow> False | Some y \<Rightarrow> ex \<and> is_risk_reducing_exit y then 0 else 1))
    (record_trade (Some p) ex now day x (g1, s))"
proof (cases "case x of None \<Rightarrow> False | Some y \<Rightarrow> ex \<and> is_risk_reducing_exit y")
  case True
  then show ?thesis using inv by (simp add: record_trade_def)
next
  case False
  have g: "cg_daily_trades g1 = n" "0 \<le> n + 1" using inv by (simp_all add: day_inv_def)
  from day_inv_book [OF inv t g(2) assms(4), of "g1\<lparr>cg_daily_trades := cg_daily_trades g1 + 1\<rparr>"] g
  have "day_inv p day now t1 m (n + 1) (g1\<lparr>cg_daily_trades := cg_daily_trades g1 + 1\<rparr>, budget_buchen (Some p) now day 1 s)"
    by simp
  moreover have "record_trade (Some p) ex now day x (g1, s) =
      (g1\<lparr>cg_daily_trades := cg_daily_trades g1 + 1\<rparr>, budget_buchen (Some p) now day 1 s)"
    by (simp only: record_trade_def False if_False fst_conv snd_conv)
  ultimately show ?thesis by (simp only: False if_False)
qed

lemma day_step_inv:
  assumes inv: "day_inv p day now t1 m n gs" and t: "now < t1" "t1 \<le> now + BUDGET_FRIST_S"
  shows "day_inv p day now t1 (m + (if beyond_cap (now, op) then 1 else 0)) (n + slot_change p ex day (now, op) gs) (day_step cfg hft p ex day (now, op) gs)"
proof (cases op)
  case (Op k)
  show ?thesis
  proof (cases k)
    case (Submit dust x)
    obtain g1 ok c where c: "check_order now x (fst gs) = (g1, ok, c)" by (cases "check_order now x (fst gs)")
    have g1: "cg_daily_trades g1 = n" "cg_max_daily_trades g1 = cg_max_daily_trades (fst gs)"
      using check_order_keeps(4,5) [of now x "fst gs"] inv c by (simp_all add: day_inv_def)
    then have same: "day_inv p day now t1 m n (g1, snd gs)" using inv by (simp add: day_inv_def)
    show ?thesis
    proof (cases "ok \<and> \<not> (co_side x = Some ''sell'' \<and> dust) \<and> check_trade ex ''ai'' x g1")
      case False
      then obtain g2 r where "schritt_compliance (Some p) ex now day dust x gs = ((g2, snd gs), r)" "r \<noteq> []"
          "cg_daily_trades g2 = cg_daily_trades g1" "cg_max_daily_trades g2 = cg_max_daily_trades g1"
        by (rule schritt_refused [OF c])
      with same show ?thesis by (simp add: Op Submit day_inv_def)
    next
      case True
      then have s: "schritt_compliance (Some p) ex now day dust x gs = (record_trade (Some p) ex now day (Some x) (g1, snd gs), [])"
        by (simp add: schritt_compliance_def c)
      have c1: "slot_change p ex day (now, op) gs = (if case Some x of None \<Rightarrow> False | Some y \<Rightarrow> ex \<and> is_risk_reducing_exit y then 0 else 1)"
        by (simp only: Op Submit slot_change.simps s snd_conv option.case) simp
      show ?thesis
      proof (cases "ex \<and> is_risk_reducing_exit x")
        case True
        with s same show ?thesis by (simp add: Op Submit record_trade_def)
      next
        case False
        with True have "n < cg_max_daily_trades (fst gs)" using g1 by (auto simp: check_trade_def)
        then have "n + 1 \<le> MAX_DAILY_TRADES_CEILING + m" using inv by (auto simp: day_inv_def)
        from record_trade_inv [OF same t this, where x = "Some x" and ex = ex] show ?thesis unfolding c1 by (simp add: Op Submit s)
      qed
    qed
  next
    case Refund
    show ?thesis
    proof (cases "0 < cg_daily_trades (fst gs)")
      case True
      then have "0 \<le> n + - 1" "n + - 1 \<le> MAX_DAILY_TRADES_CEILING + m" using inv by (auto simp: day_inv_def)
      from day_inv_book [OF inv t this, of "(fst gs)\<lparr>cg_daily_trades := cg_daily_trades (fst gs) - 1\<rparr>"] True inv
      show ?thesis by (simp add: Op Refund refund_trade_def day_inv_def)
    qed (use inv Op Refund in \<open>simp add: refund_trade_def\<close>)
  next
    case (Reload raw)
    with inv show ?thesis by (auto simp: Op day_inv_def dest: reload_max split: sum.split)
  next
    case Reset_day
    have "budget_von_heute (Some p) (snd gs) now day lim = n" for lim
      using heute_stand [of "snd gs" now day n lim] inv t by (simp add: day_inv_def)
    with inv show ?thesis by (simp add: Op Reset_day reset_daily_limit_def day_inv_def)
  qed
next
  case (Leg x)
  obtain g1 ok c where c: "check_order now x (fst gs) = (g1, ok, c)" by (cases "check_order now x (fst gs)")
  have "cg_daily_trades g1 = n" "cg_max_daily_trades g1 = cg_max_daily_trades (fst gs)"
    using check_order_keeps(4,5) [of now x "fst gs"] inv c by (simp_all add: day_inv_def)
  then have "day_inv p day now t1 (m + 1) n (g1, snd gs)" using day_inv_slack [OF inv, of "m + 1"] by (simp add: day_inv_def)
  moreover have "n + 1 \<le> MAX_DAILY_TRADES_CEILING + (m + 1)" using inv by (simp add: day_inv_def)
  ultimately show ?thesis using record_trade_inv [OF _ t, where m = "m + 1" and n = n and ?g1.0 = g1 and s = "snd gs" and x = "Some x" and ex = ex]
    by (simp add: Leg register_displacement_leg_def c)
next
  case Booking
  have "day_inv p day now t1 (m + 1) n (fst gs, snd gs)" using day_inv_slack [OF inv, of "m + 1"] by simp
  moreover have "n + 1 \<le> MAX_DAILY_TRADES_CEILING + (m + 1)" using inv by (simp add: day_inv_def)
  ultimately show ?thesis using record_trade_inv [OF _ t, where m = "m + 1" and n = n and ?g1.0 = "fst gs" and s = "snd gs" and x = None and ex = ex] by (simp add: Booking)
next
  case Restart
  have h: "budget_von_heute (Some p) (snd gs) now day lim = n" for lim
    using heute_stand [of "snd gs" now day n lim] inv t by (simp add: day_inv_def)
  show ?thesis
  proof (cases "ComplianceGuardian cfg hft (Some p) now day (snd gs)")
    case (Inr g)
    then have "cg_max_daily_trades g \<le> MAX_DAILY_TRADES_CEILING \<and> cg_daily_trades g = n"
      unfolding ComplianceGuardian_def h by (auto dest: reload_max)
    with inv Inr show ?thesis by (simp add: Restart day_inv_def)
  qed (use inv Restart in simp)
qed

lemma day_run_inv:
  assumes "day_inv p day now t1 m n gs" "sorted (map fst ops)" "\<forall>op \<in> set ops. now \<le> fst op \<and> fst op < t1"
    "t1 \<le> now + BUDGET_FRIST_S" "\<forall>op \<in> set ops. fst op \<le> t" "now \<le> t"
  shows "day_inv p day t t1 (m + int (length (filter beyond_cap ops))) (n + slots cfg hft p ex day ops gs) (foldl (\<lambda>gs op. day_step cfg hft p ex day op gs) gs ops)"
  using assms
proof (induction ops arbitrary: now m n gs)
  case Nil
  then show ?case by (auto simp: day_inv_def)
next
  case (Cons x ops)
  obtain u op where x: "x = (u, op)" by (cases x)
  have u: "now \<le> u" "u < t1" "t1 \<le> u + BUDGET_FRIST_S" "u \<le> t" using Cons.prems x by auto
  have "day_inv p day u t1 m n gs" using Cons.prems(1) u(1) by (auto simp: day_inv_def)
  from day_step_inv [OF this u(2,3), where ex = ex and op = op and cfg = cfg and hft = hft]
  have st: "day_inv p day u t1 (m + (if beyond_cap x then 1 else 0)) (n + slot_change p ex day x gs) (day_step cfg hft p ex day x gs)" by (simp add: x)
  have r: "sorted (map fst ops)" "\<forall>op \<in> set ops. u \<le> fst op \<and> fst op < t1" "\<forall>op \<in> set ops. fst op \<le> t"
    using Cons.prems x by auto
  from Cons.IH [OF st r(1,2) u(3) r(3) u(4)] show ?case by (simp add: algebra_simps split: if_splits)
qed

end

section \<open>The properties of the budget\<close>

text \<open>
  C13: On one day, from the first boot on, the guardian counts exactly the slots that are taken and not given back,
  through every order, booking, refund, reload, reset and restart, as long as its store can be read and written;
  the next start reads the same count from the store. The count is never negative and never more than 50 plus
  the bookings that do not ask for the budget (legs of a displacement, bookings of a strategy), whatever
  policies are loaded: the orders that go through the checked step alone never take more than 50.
\<close>

theorem daily_cap_survives_restarts:
  assumes "ComplianceGuardian cfg hft (Some sqlite_budget) t0 day s = Inr g"
    and "st_rows s (budget_schluessel day) = None" "sorted (map fst ops)"
    and "\<forall>op \<in> set ops. t0 \<le> fst op \<and> fst op \<le> t" "t0 \<le> t" "t < t0 + BUDGET_FRIST_S"
    and "gs = foldl (\<lambda>gs op. day_step cfg hft sqlite_budget ex day op gs) (g, s) ops"
  shows "cg_daily_trades (fst gs) = slots cfg hft sqlite_budget ex day ops (g, s)
    \<and> 0 \<le> cg_daily_trades (fst gs) \<and> cg_daily_trades (fst gs) \<le> 50 + int (length (filter beyond_cap ops))
    \<and> budget_von_heute (Some sqlite_budget) (snd gs) t day limit = cg_daily_trades (fst gs)"
proof -
  have z: "stand sqlite_budget s u (budget_schluessel day) (of_int 0)" for u
    using assms(2) by (simp add: stand_def sqlite_budget_def sq_get_def)
  have "cg_daily_trades g = 0 \<and> cg_max_daily_trades g \<le> MAX_DAILY_TRADES_CEILING"
    using assms(1) budget.heute_stand [OF z] unfolding ComplianceGuardian_def by (auto dest: reload_max)
  then have "day_inv sqlite_budget day t0 (t0 + BUDGET_FRIST_S) 0 0 (g, s)"
    using z by (simp add: day_inv_def MAX_DAILY_TRADES_CEILING_def)
  moreover have "\<forall>op \<in> set ops. t0 \<le> fst op \<and> fst op < t0 + BUDGET_FRIST_S" "\<forall>op \<in> set ops. fst op \<le> t"
    using assms(4,6) by fastforce+
  ultimately have "day_inv sqlite_budget day t (t0 + BUDGET_FRIST_S) (0 + int (length (filter beyond_cap ops))) (0 + slots cfg hft sqlite_budget ex day ops (g, s)) gs"
    unfolding assms(7) using assms(3,5) by (intro budget.day_run_inv) simp_all
  moreover from this have "budget_von_heute (Some sqlite_budget) (snd gs) t day limit = cg_daily_trades (fst gs)"
    using budget.heute_stand [of "snd gs" t day "cg_daily_trades (fst gs)" limit] assms(6) by (simp add: day_inv_def)
  ultimately show ?thesis by (simp add: day_inv_def MAX_DAILY_TRADES_CEILING_def)
qed

text \<open>
  A sale of at most what is held passes the order value and the daily limit in every state of the guardian
  and takes no slot, unless it is marked as a rotation or a trim.
\<close>

theorem protective_exit_is_free:
  assumes "co_side x = Some ''sell''" "co_quantity x = Some (Fin q)" "co_price x = Some p"
    "co_held_qty x = Some (Fin h)" "0 < h" "q \<le> h" "co_exit_kind x \<notin> {Some ''rotation'', Some ''trim''}"
  shows "check_risk_limits g x \<and> check_trade True source x g \<and> record_trade a True now day (Some x) (g, s) = (g, s)"
proof -
  have "fl_le (Fin q) (fl_add (Fin h) (Fin QTY_EPS))" using assms(6) by (simp add: QTY_EPS_def)
  then have "check_risk_limits g x" "is_risk_reducing_exit x"
    using assms by (simp_all add: check_risk_limits_def is_risk_reducing_exit_def held_qty_def)
  then show ?thesis by (simp add: check_trade_def record_trade_def)
qed

section \<open>Where the guardian does something else\<close>

text \<open>
  A purchase that the checks approve and the daily limit then refuses counts as a trade: the protective
  sale of the same symbol and user is refused as a wash trade during the window.
\<close>

theorem refused_buy_blocks_exit:
  assumes "check_order now x g = (g1, True, c)" "co_side x = Some ''buy''" "\<not> check_trade ex ''ai'' x g1"
    "co_symbol y = co_symbol x" "co_user_id y = co_user_id x" "co_side y = Some ''sell''"
    "the (co_symbol x) \<notin> set (cg_restricted_list g1)" "is_spot_us_equity y" "check_mifid_fields y"
    "now \<le> later" "later < now + of_int (cg_wash_window g)" "0 < cg_wash_window g"
  shows "snd (schritt_compliance a ex now day dust x (g, s)) = ''blocked:daily_limit''
    \<and> check_order later y (fst (fst (schritt_compliance a ex now day dust x (g, s))))
        = (fst (fst (schritt_compliance a ex now day dust x (g, s))), False, ''wash_trade'')"
proof -
  obtain sy sd where x: "co_symbol x = Some sy" and sd: "co_side x = Some sd" and g1: "g1 = record_recent_trade now
      \<lparr>tr_symbol = sy, tr_side = sd, tr_timestamp = now, tr_user_id = co_user_id x\<rparr>
      (g\<lparr>cg_hft_recent := hft_recent now g @ [\<lparr>tr_symbol = sy, tr_side = sd, tr_timestamp = now, tr_user_id = co_user_id x\<rparr>]\<rparr>)"
    by (rule check_order_True [OF assms(1)])
  have buy: "sd = ''buy''" using assms(2) sd by simp
  have "schritt_compliance a ex now day dust x (g, s) = ((g1\<lparr>cg_alert_sent := True\<rparr>, s), ''blocked:daily_limit'')"
    using assms(1-3) by (simp add: schritt_compliance_def)
  moreover have "detect_wash_trade (g1\<lparr>cg_alert_sent := True\<rparr>) later sy ''sell'' (co_user_id y)"
    using assms(5,10-12) by (auto simp: detect_wash_trade_def list_ex_iff g1 opposite_side_def buy)
  ultimately show ?thesis
    using assms(4,6-9) x by (simp add: check_order_def)
qed

text \<open>
  A day whose count cannot be read starts exhausted only against the limit of that moment: a policy with
  a higher limit, loaded afterwards, opens the day again.
\<close>

theorem unreadable_budget_reopens:
  assumes "ba_get p s now (budget_schluessel day) = Inl e" "reload_policy cfg raw g' = Inr g''"
    "g' = reset_daily_limit (Some p) now day (g, s)" "cg_max_daily_trades g' < cg_max_daily_trades g''"
  shows "\<not> check_trade False ''ai'' x g' \<and> check_trade False ''ai'' x g''"
proof -
  have "cg_daily_trades g' = cg_max_daily_trades g'"
    using assms(1) by (simp add: assms(3) reset_daily_limit_def budget_von_heute_def)
  moreover have "cg_daily_trades g'' = cg_daily_trades g'" using reload_max [OF assms(2)] by simp
  ultimately show ?thesis using assms(4) by (simp add: check_trade_def)
qed

text \<open>
  A slot reserved before midnight and given back after it is booked on the new day: the store counts
  minus one, and a restart later in the day frees a slot that was used.
\<close>

theorem refund_after_midnight:
  assumes "0 < cg_daily_trades g" "stand sqlite_budget s now (budget_schluessel day) 0" "now \<le> t" "t < now + BUDGET_FRIST_S"
    and "(g1, s1) = refund_trade (Some sqlite_budget) now day (g, s)"
    and "(g2, s2) = record_trade (Some sqlite_budget) False t day (Some x) (reset_daily_limit (Some sqlite_budget) t day (g1, s1), s1)"
  shows "cg_daily_trades g2 = 1 \<and> budget_von_heute (Some sqlite_budget) s2 t day limit = 0"
proof -
  let ?k = "budget_schluessel day"
  have s1: "s1 = budget_buchen (Some sqlite_budget) now day (of_int (- 1)) s"
    using assms(1,5) by (simp add: refund_trade_def)
  have b: "stand sqlite_budget s1 t ?k (of_int (- 1))"
    using budget.buchen_stand [OF assms(2-4), of "of_int (- 1)"] by (simp add: s1)
  then have "budget_von_heute (Some sqlite_budget) s1 t day lim = 0" for lim
    using budget.heute_stand [of s1 t day "- 1" lim] by simp
  moreover have "stand sqlite_budget (budget_buchen (Some sqlite_budget) t day 1 s1) t ?k (of_int 0)"
    using budget.buchen_stand [OF b, of t 1] by (simp add: BUDGET_FRIST_S_def)
  ultimately show ?thesis
    using assms(6) budget.heute_stand [of s2 t day 0 limit] by (simp add: record_trade_def reset_daily_limit_def)
qed

text \<open>A ticker may have letters that are no US ticker has: the test takes every letter.\<close>

theorem foreign_letters_pass: "equity_shape [char_of (196::nat), CHR ''B'', CHR ''C'']"
  by (simp add: equity_shape_def py_strip_def py_space_def py_upper_def has_capital_def is_alpha_def is_upper_def Let_def)

section \<open>Witnesses\<close>

definition toy_cfg :: iron_config where
  "toy_cfg = \<lparr>COMPLIANCE_MAX_DAILY_TRADES = RInt 10, COMPLIANCE_MAX_ORDER_VALUE = RInt 10000\<rparr>"

definition toy_hft :: hft_config where
  "toy_hft = \<lparr>HFT_MAX_ORDERS_PER_SEC_SYMBOL = 1, HFT_MAX_ORDERS_PER_SEC_AGGREGATE = 10\<rparr>"

definition toy_order :: "string \<Rightarrow> compliance_order" where
  "toy_order side = \<lparr>co_symbol = Some ''AB'', co_side = Some side, co_quantity = Some (Fin 2), co_price = Some (Fin 10),
     co_strategy_id = Some ''s'', co_timestamp = Some 0, co_user_id = Some ''u'', co_held_qty = Some (Fin 5),
     co_exit_kind = None, co_asset_class = None, co_asset_type = None\<rparr>"

definition toy_guardian :: guardian where
  "toy_guardian = \<lparr>cg_max_order_value = Fin 10000, cg_max_daily_trades = 10, cg_wash_window = 60, cg_restricted_list = [],
     cg_recent_trades = [], cg_recent_buys = [], cg_hft_symbol = 1, cg_hft_aggregate = 10, cg_hft_recent = [],
     cg_daily_trades = 0, cg_alert_sent = False\<rparr>"

lemma toy_boot: "st_rows s (budget_schluessel day) = None \<Longrightarrow>
    ComplianceGuardian toy_cfg toy_hft (Some sqlite_budget) now day s = Inr toy_guardian"
  by (simp add: ComplianceGuardian_def reload_policy_def load_policy_def toy_cfg_def toy_hft_def toy_guardian_def
      operating_trades_def operating_value_def clamp_ceiling_int_def clamp_floor_int_def clamp_ceiling_float_def roh_get_def
      cap_defs STRICT_DEFAULT_def fl_min_def budget_von_heute_def sqlite_budget_def sq_get_def)

lemma toy_equity: "is_spot_us_equity (toy_order side)" "check_mifid_fields (toy_order side)"
  by (simp_all add: is_spot_us_equity_def toy_order_def equity_shape_def py_strip_def py_space_def py_upper_def
      has_capital_def is_alpha_def is_upper_def Let_def check_mifid_fields_def)

lemmas toy_eval = schritt_compliance_def check_order_def toy_equity detect_wash_trade_def check_risk_limits_def
  hft_throttle_def hft_recent_def record_recent_trade_def cleanup_recent_trades_def passed_def Let_def
  opposite_side_def check_trade_def record_trade_def py_lower_def is_upper_def RECENT_BUYS_WINDOW_SEC_def

lemma toy_fields: "co_symbol (toy_order side) = Some ''AB''" "co_side (toy_order side) = Some side"
  "co_user_id (toy_order side) = Some ''u''" "co_quantity (toy_order side) = Some (Fin 2)"
  "co_price (toy_order side) = Some (Fin 10)" "held_qty (toy_order side) = Fin 5" "co_exit_kind (toy_order side) = None"
  by (simp_all add: toy_order_def held_qty_def)

definition toy_bought :: guardian where
  "toy_bought = toy_guardian\<lparr>cg_recent_trades := [\<lparr>tr_symbol = ''AB'', tr_side = ''buy'', tr_timestamp = 0, tr_user_id = Some ''u''\<rparr>],
     cg_recent_buys := [0],
     cg_hft_recent := [\<lparr>tr_symbol = ''AB'', tr_side = ''buy'', tr_timestamp = 0, tr_user_id = Some ''u''\<rparr>]\<rparr>"

lemma toy_check_buy: "check_order 0 (toy_order ''buy'') toy_guardian = (toy_bought, True, [])"
  by (simp add: toy_eval toy_fields toy_guardian_def toy_bought_def)

lemma toy_check_again:
  "check_order (1 / 2) (toy_order ''buy'') (toy_bought\<lparr>cg_daily_trades := 1\<rparr>)
    = (toy_bought\<lparr>cg_daily_trades := 1\<rparr>, False, ''hft_throttle'')"
  by (simp add: toy_eval toy_fields toy_guardian_def toy_bought_def)

lemma toy_check_sell: "fst (snd (check_order 70 (toy_order ''sell'') (toy_bought\<lparr>cg_daily_trades := 1\<rparr>)))"
  by (simp add: toy_eval toy_fields toy_guardian_def toy_bought_def)

lemma toy_step_buy:
  "schritt_compliance None True 0 d False (toy_order ''buy'') (toy_guardian, s) = ((toy_bought\<lparr>cg_daily_trades := 1\<rparr>, s), [])"
proof -
  have "\<not> is_risk_reducing_exit (toy_order ''buy'')" by (simp add: is_risk_reducing_exit_def toy_fields)
  then show ?thesis
    by (simp add: schritt_compliance_def toy_check_buy toy_fields check_trade_def record_trade_def budget_buchen_def)
       (simp add: toy_bought_def toy_guardian_def)
qed

definition toy_ops :: "(real \<times> string \<times> guard_op) list" where
  "toy_ops = [(0, ''d'', Submit False (toy_order ''buy'')), (1 / 2, ''d'', Submit False (toy_order ''buy'')),
      (70, ''d'', Submit False (toy_order ''sell''))]"

lemma toy_trace:
  "guard_trace toy_cfg None True toy_ops (toy_guardian, s)
    = [\<lparr>tr_symbol = ''AB'', tr_side = ''buy'', tr_timestamp = 0, tr_user_id = Some ''u''\<rparr>,
       \<lparr>tr_symbol = ''AB'', tr_side = ''sell'', tr_timestamp = 70, tr_user_id = Some ''u''\<rparr>]"
proof -
  have "schritt_compliance None True (1 / 2) d False (toy_order ''buy'') (toy_bought\<lparr>cg_daily_trades := 1\<rparr>, s)
      = ((toy_bought\<lparr>cg_daily_trades := 1\<rparr>, s), ''blocked:order_value'')" for d
    by (simp add: schritt_compliance_def toy_check_again)
  then show ?thesis
    by (simp add: toy_ops_def passed_def toy_step_buy toy_check_buy toy_check_again toy_check_sell toy_fields)
qed

lemma toy_boot_None: "ComplianceGuardian toy_cfg toy_hft None now day s = Inr toy_guardian"
  using toy_boot [of empty_store] by (simp add: ComplianceGuardian_def budget_von_heute_def sqlite_budget_def sq_get_def empty_store_def)

text \<open>The throttle at work: the second purchase within the second is not approved.\<close>

theorem throttle_holds_witness:
  "int (length (filter (\<lambda>r. tr_user_id r = Some ''u'' \<and> tr_symbol r = ''AB'' \<and> 1 / 2 - 1 < tr_timestamp r \<and> tr_timestamp r \<le> 1 / 2)
      (guard_trace toy_cfg None True toy_ops (toy_guardian, ())))) \<le> 1"
proof -
  have "sorted (map fst toy_ops)" by (simp add: toy_ops_def)
  from throttle_holds [OF toy_boot_None this refl, of "Some ''u''" "1 / 2" True "()" "''AB''"]
  show ?thesis by (simp add: toy_hft_def)
qed

theorem no_wash_trade_witness:
  "\<exists>r r'. guard_trace toy_cfg None True toy_ops (toy_guardian, ()) = [r, r'] \<and> 30 \<le> tr_timestamp r' - tr_timestamp r"
proof -
  let ?r = "\<lparr>tr_symbol = ''AB'', tr_side = ''buy'', tr_timestamp = 0, tr_user_id = Some ''u''\<rparr>"
  let ?r' = "\<lparr>tr_symbol = ''AB'', tr_side = ''sell'', tr_timestamp = 70, tr_user_id = Some ''u''\<rparr>"
  have trace: "guard_trace toy_cfg None True toy_ops (toy_guardian, ()) = [] @ ?r # [] @ ?r' # []"
    by (simp add: toy_trace)
  have "sorted (map fst toy_ops)" by (simp add: toy_ops_def)
  from no_wash_trade [OF toy_boot_None this trace] show ?thesis by (simp add: toy_trace)
qed

theorem daily_cap_survives_restarts_witness:
  "cg_daily_trades (fst (foldl (\<lambda>gs op. day_step toy_cfg toy_hft sqlite_budget True ''d'' op gs) (toy_guardian, empty_store)
      [(0, Op (Submit False (toy_order ''buy''))), (1, Restart)])) \<le> 50"
proof -
  let ?ops = "[(0 :: real, Op (Submit False (toy_order ''buy''))), (1, Restart)]"
  have e: "st_rows empty_store (budget_schluessel ''d'') = None" by (simp add: empty_store_def)
  have "sorted (map fst ?ops)" "\<forall>op \<in> set ?ops. 0 \<le> fst op \<and> fst op \<le> (1 :: real)" "(1 :: real) < 0 + BUDGET_FRIST_S"
    by (simp_all add: BUDGET_FRIST_S_def)
  from daily_cap_survives_restarts [OF toy_boot [OF e] e this(1,2) zero_le_one this(3) refl] show ?thesis by simp
qed

theorem protective_exit_is_free_witness:
  "check_trade True ''ai'' (toy_order ''sell'') (toy_guardian\<lparr>cg_daily_trades := 10\<rparr>)"
proof -
  have "co_side (toy_order ''sell'') = Some ''sell''" "co_quantity (toy_order ''sell'') = Some (Fin 2)"
    "co_price (toy_order ''sell'') = Some (Fin 10)" "co_held_qty (toy_order ''sell'') = Some (Fin 5)"
    "co_exit_kind (toy_order ''sell'') \<notin> {Some ''rotation'', Some ''trim''}"
    by (simp_all add: toy_order_def)
  note this = protective_exit_is_free [OF this(1-4) _ _ this(5), of "toy_guardian\<lparr>cg_daily_trades := 10\<rparr>" "''ai''" None 0 "[]" "()"]
  then show ?thesis by simp
qed

end
