(* ===== verification/Exit_Rules.thy ===== *)
theory Exit_Rules
  imports Prelude
begin

text \<open>
  When a held position is sold: the exit analysis of the engine (\<open>core/intelligent_exit.py\<close>), the
  planning of risk exits (\<open>core/position_stop.py\<close>), the rules about age, high and rank
  (\<open>core/hold_policy.py\<close>) and the floor below which an exit is put off (\<open>core/dust_floor.py\<close>).

  The free text of a reason is left out; its class and its values are kept. Prices and times are real
  numbers; a configuration that cannot be read is \<open>None\<close>.
\<close>

section \<open>The tiers\<close>

record loss_tiers =
  lt_watch :: real
  lt_cut :: real
  lt_escalation :: real
  lt_hard_stop :: real

text \<open>The shipped values.\<close>

definition LossTiers :: loss_tiers where
  "LossTiers = \<lparr>lt_watch = - 3, lt_cut = - 6, lt_escalation = - 7.9, lt_hard_stop = - 8\<rparr>"

record panic_window =
  pw_enabled :: bool
  pw_hours :: real

definition PanicWindow :: panic_window where
  "PanicWindow = \<lparr>pw_enabled = True, pw_hours = 2\<rparr>"

record exit_config =
  ec_tiers :: "loss_tiers option"
  ec_panic :: "panic_window option"
  ec_trail_profile :: string
  ec_momentum_sell_threshold :: real

definition loss_tiers_now :: "exit_config \<Rightarrow> loss_tiers" where
  "loss_tiers_now c = (case ec_tiers c of None \<Rightarrow> LossTiers | Some t \<Rightarrow> t)"

definition panic_window_now :: "exit_config \<Rightarrow> panic_window" where
  "panic_window_now c = (case ec_panic c of None \<Rightarrow> PanicWindow | Some w \<Rightarrow> w)"

text \<open>The trailing tables: least profit, trailing stop, least hours held. The name of the profile is
  stripped and in lower case.\<close>

definition TRAIL_PROFIT_TIERS :: "(real \<times> real \<times> real) list" where
  "TRAIL_PROFIT_TIERS = [(2, 1.5, 1), (5, 2.5, 2), (10, 4, 4), (20, 6, 8), (35, 8, 12)]"

definition TRAIL_PROFIT_TIERS_MIDTERM :: "(real \<times> real \<times> real) list" where
  "TRAIL_PROFIT_TIERS_MIDTERM = [(2, 6, 72), (5, 8, 72), (10, 10, 96), (20, 12, 120), (35, 15, 120)]"

definition active_trail_tiers :: "exit_config \<Rightarrow> (real \<times> real \<times> real) list" where
  "active_trail_tiers c = (if ec_trail_profile c = ''midterm'' then TRAIL_PROFIT_TIERS_MIDTERM else TRAIL_PROFIT_TIERS)"

definition active_subtier :: "exit_config \<Rightarrow> (real \<times> real) option" where
  "active_subtier c = (if ec_trail_profile c = ''midterm'' then None else Some (1.5, 1))"

section \<open>The scores\<close>

definition time_mult :: "real \<Rightarrow> real" where
  "time_mult hours = (if 72 \<le> hours then 1.5 else if 24 \<le> hours then 1.4 else if 4 \<le> hours then 1.2 else 1)"

definition calculate_loss_pressure :: "real \<Rightarrow> real \<Rightarrow> loss_tiers \<Rightarrow> real" where
  "calculate_loss_pressure pnl hours t =
     (if 0 \<le> pnl then 0
      else if pnl \<le> lt_hard_stop t then 100
      else (let base = (if pnl \<le> lt_escalation t then 90 else if pnl \<le> lt_cut t then 70
                        else if pnl \<le> lt_watch t then 40 else \<bar>pnl\<bar> * 15)
            in min 100 (base * time_mult hours)))"

text \<open>The row of the table that applies, and the rule of the lowest band.\<close>

definition trail_rule :: "exit_config \<Rightarrow> real \<Rightarrow> (real \<times> real) option" where
  "trail_rule c pnl =
     (case find (\<lambda>(m, _, _). m \<le> pnl) (rev (active_trail_tiers c)) of
        Some (_, trail, hold) \<Rightarrow> Some (trail, hold)
      | None \<Rightarrow> active_subtier c)"

definition calculate_trailing_stop_score :: "exit_config \<Rightarrow> real \<Rightarrow> real \<Rightarrow> real \<Rightarrow> real" where
  "calculate_trailing_stop_score c pnl drawdown hours =
     (if pnl \<le> 0 then 0
      else case trail_rule c pnl of
             None \<Rightarrow> 0
           | Some (trail, hold) \<Rightarrow>
               if hours < hold then 0
               else if trail \<le> drawdown then min 100 (85 + (drawdown - trail) * 15)
               else (let proximity = (if 0 < trail then drawdown / trail * 100 else 0)
                     in if 70 < proximity then proximity * 0.6 else 0))"

text \<open>The last three predictions, if there are as many.\<close>

definition momentum_recent :: "real list \<Rightarrow> real list" where
  "momentum_recent h = (if 3 \<le> length h then drop (length h - 3) h else [])"

definition calculate_momentum_fade :: "exit_config \<Rightarrow> real \<Rightarrow> real list \<Rightarrow> real \<Rightarrow> real" where
  "calculate_momentum_fade c lstm history pnl =
     (let score = (if lstm < ec_momentum_sell_threshold c
                   then (if 0 < pnl then 60 + \<bar>lstm\<bar> * 60 else 40 + \<bar>lstm\<bar> * 40) else 0);
          recent = momentum_recent history;
          s1 = (if recent \<noteq> [] \<and> sorted_wrt (>) recent then score + 25 else score);
          s2 = (if recent \<noteq> [] \<and> sum_list recent / real (length recent) < - 0.2 \<and> 5 < pnl then s1 + 30 else s1)
      in min 100 s2)"

definition calculate_news_pressure :: "real \<Rightarrow> real \<Rightarrow> real" where
  "calculate_news_pressure news pnl =
     (if 0 \<le> news then 0
      else (let base = \<bar>news\<bar> * 100
            in min 100 (if 10 < pnl then base * 0.5 else if pnl < - 2 then base * 1.3 else base)))"

definition calculate_time_pressure :: "real \<Rightarrow> real \<Rightarrow> real" where
  "calculate_time_pressure pnl hours =
     (if 0 \<le> pnl then 0
      else if hours < 4 then 0
      else if hours < 24 then (hours - 4) / 20 * 30
      else if hours < 72 then 30 + (hours - 24) / 48 * 30
      else min 100 (60 + (hours - 72) / 24 * 10))"

section \<open>The analysis\<close>

record position_context =
  px_symbol :: string
  px_entry_price :: real
  px_current_price :: real
  px_high_water_mark :: real
  px_hours_held :: real
  px_lstm_prediction :: real
  px_news_score :: real
  px_momentum_history :: "real list"

record exit_grund =
  vg_klasse :: string
  vg_werte :: "(string \<times> real) list"
  vg_zeitpunkt :: "real option"

record exit_analysis =
  ea_symbol :: string
  ea_pnl_pct :: real
  ea_hours_held :: real
  ea_loss_pressure :: real
  ea_trailing_stop :: real
  ea_momentum_fade :: real
  ea_news_pressure :: real
  ea_time_pressure :: real
  ea_total :: real
  ea_should_sell :: bool
  ea_confidence :: real
  ea_tier :: string
  ea_grund :: "exit_grund option"

definition exit_pnl_pct :: "position_context \<Rightarrow> real" where
  "exit_pnl_pct x = (if 0 < px_entry_price x then (px_current_price x - px_entry_price x) / px_entry_price x * 100 else 0)"

definition drawdown_pct :: "position_context \<Rightarrow> real" where
  "drawdown_pct x =
     (if 0 < px_high_water_mark x then (px_high_water_mark x - px_current_price x) / px_high_water_mark x * 100 else 0)"

definition grund :: "string \<Rightarrow> (string \<times> real) list \<Rightarrow> exit_grund" where
  "grund klasse werte = \<lparr>vg_klasse = klasse, vg_werte = map (\<lambda>(k, v). (k, py_round 2 v)) werte, vg_zeitpunkt = None\<rparr>"

definition no_exit :: "position_context \<Rightarrow> exit_analysis" where
  "no_exit x = \<lparr>ea_symbol = px_symbol x, ea_pnl_pct = exit_pnl_pct x, ea_hours_held = px_hours_held x, ea_loss_pressure = 0,
     ea_trailing_stop = 0, ea_momentum_fade = 0, ea_news_pressure = 0, ea_time_pressure = 0, ea_total = 0,
     ea_should_sell = False, ea_confidence = 0, ea_tier = ''risk'', ea_grund = None\<rparr>"

definition scored :: "exit_config \<Rightarrow> position_context \<Rightarrow> exit_analysis" where
  "scored c x =
     (no_exit x)\<lparr>ea_loss_pressure := calculate_loss_pressure (exit_pnl_pct x) (px_hours_held x) (loss_tiers_now c),
       ea_trailing_stop := calculate_trailing_stop_score c (exit_pnl_pct x) (drawdown_pct x) (px_hours_held x),
       ea_momentum_fade := calculate_momentum_fade c (px_lstm_prediction x) (px_momentum_history x) (exit_pnl_pct x),
       ea_news_pressure := calculate_news_pressure (px_news_score x) (exit_pnl_pct x),
       ea_time_pressure := calculate_time_pressure (exit_pnl_pct x) (px_hours_held x)\<rparr>"

definition sell :: "real \<Rightarrow> real \<Rightarrow> string \<Rightarrow> exit_grund \<Rightarrow> exit_analysis \<Rightarrow> exit_analysis" where
  "sell tot confidence tier g a =
     a\<lparr>ea_total := tot, ea_should_sell := True, ea_confidence := confidence, ea_tier := tier, ea_grund := Some g\<rparr>"

definition total_score :: "real \<Rightarrow> exit_analysis \<Rightarrow> real" where
  "total_score pnl a =
     (if pnl < 0
      then ea_loss_pressure a * 0.45 + ea_trailing_stop a * 0.05 + ea_momentum_fade a * 0.2 +
           ea_news_pressure a * 0.15 + ea_time_pressure a * 0.15
      else ea_loss_pressure a * 0 + ea_trailing_stop a * 0.4 + ea_momentum_fade a * 0.35 +
           ea_news_pressure a * 0.15 + ea_time_pressure a * 0.1)"

definition applied_tier :: "loss_tiers \<Rightarrow> real \<Rightarrow> string \<times> real" where
  "applied_tier t pnl =
     (if pnl \<le> lt_hard_stop t then (''hard_stop'', lt_hard_stop t)
      else if pnl \<le> lt_escalation t then (''loss_escalation'', lt_escalation t)
      else (''loss_cut'', lt_cut t))"

definition EXIT_THRESHOLD :: real where "EXIT_THRESHOLD = 70"

definition analyze_exit :: "exit_config \<Rightarrow> position_context \<Rightarrow> exit_analysis" where
  "analyze_exit c x =
     (let pnl = exit_pnl_pct x; dd = drawdown_pct x; h = px_hours_held x; t = loss_tiers_now c; w = panic_window_now c;
          a = scored c x
      in if pw_enabled w \<and> h < pw_hours w
         then (if pnl \<le> lt_hard_stop t
               then sell 100 1 ''risk''
                      (grund ''hard_stop'' [(''verlust_pct'', pnl), (''stufe'', lt_hard_stop t), (''haltedauer_h'', h)]) (no_exit x)
               else no_exit x)
         else if 85 \<le> ea_trailing_stop a
         then sell (ea_trailing_stop a) 1 ''risk''
                (grund ''trailing'' [(''gewinn_pct'', pnl), (''hoch'', px_high_water_mark x), (''abstand_pct'', dd), (''haltedauer_h'', h)]) a
         else if 90 \<le> ea_loss_pressure a
         then sell (ea_loss_pressure a) 1 ''risk''
                (grund (fst (applied_tier t pnl)) [(''verlust_pct'', pnl), (''stufe'', snd (applied_tier t pnl)),
                   (''haltedauer_h'', h), (''verlustdruck'', ea_loss_pressure a)]) a
         else if 5 < pnl \<and> 80 \<le> ea_momentum_fade a
         then sell (ea_momentum_fade a) 0.9 ''opinion''
                (grund ''momentum_fade'' [(''gewinn_pct'', pnl), (''momentum_score'', ea_momentum_fade a), (''haltedauer_h'', h)]) a
         else (let tot = total_score pnl a
               in if EXIT_THRESHOLD \<le> tot
                  then sell tot (min 1 (tot / 100)) ''opinion''
                         (grund ''composite'' [(''gesamt_score'', tot), (''schwelle'', EXIT_THRESHOLD),
                            (''verlustdruck'', ea_loss_pressure a), (''trailing_score'', ea_trailing_stop a),
                            (''momentum_score'', ea_momentum_fade a), (''news_score'', ea_news_pressure a),
                            (''zeit_score'', ea_time_pressure a), (''pnl_pct'', pnl), (''haltedauer_h'', h)]) a
                  else a\<lparr>ea_total := tot\<rparr>))"

definition get_dynamic_trailing_stop_pct :: "exit_config \<Rightarrow> real \<Rightarrow> real" where
  "get_dynamic_trailing_stop_pct c pnl =
     (if pnl \<le> 0 then 0
      else case find (\<lambda>(m, _, _). m \<le> pnl) (rev (active_trail_tiers c)) of
             Some (_, trail, _) \<Rightarrow> trail
           | None \<Rightarrow> (case active_subtier c of None \<Rightarrow> 0 | Some (trail, _) \<Rightarrow> trail))"

section \<open>Planning the stops of the held positions\<close>

text \<open>The fields of a broker position, read with \<open>_f\<close>: what is no number is 0. Times in seconds.\<close>

definition evaluate_position_stop ::
  "exit_config \<Rightarrow> string \<Rightarrow> real \<Rightarrow> real \<Rightarrow> real option \<Rightarrow> real option \<Rightarrow> real \<Rightarrow> exit_analysis option" where
  "evaluate_position_stop c symbol current avg entry hwm now =
     (if avg \<le> 0 then None
      else case entry of
             None \<Rightarrow> None
           | Some t \<Rightarrow>
               if current \<le> 0 then None
               else (let hours = max 0 ((now - t) / 3600);
                         high = (case hwm of Some m \<Rightarrow> (if 0 < m then m else max avg current) | None \<Rightarrow> max avg current);
                         a = analyze_exit c \<lparr>px_symbol = symbol, px_entry_price = avg, px_current_price = current,
                               px_high_water_mark = high, px_hours_held = hours, px_lstm_prediction = 0,
                               px_news_score = 0, px_momentum_history = []\<rparr>
                     in if \<not> ea_should_sell a then None
                        else Some (a\<lparr>ea_grund := map_option (\<lambda>g. g\<lparr>vg_zeitpunkt := Some now\<rparr>) (ea_grund a)\<rparr>)))"

record held_position =
  hp_symbol :: string
  hp_qty :: real
  hp_avg_entry_price :: real
  hp_current_price :: real

record stop_plan =
  sp_symbol :: string
  sp_qty :: real
  sp_avg_entry_price :: real
  sp_current_price :: real
  sp_tier :: string
  sp_grund :: "exit_grund option"

text \<open>\<open>(entry_times or {}).get(symbol) or (min(times) if times else None)\<close>.\<close>

definition entry_time :: "(string \<rightharpoonup> real list) \<Rightarrow> (string \<rightharpoonup> real) \<Rightarrow> string \<Rightarrow> real option" where
  "entry_time trade_history entry_times symbol =
     (case entry_times symbol of
        Some t \<Rightarrow> Some t
      | None \<Rightarrow> (case trade_history symbol of
                   None \<Rightarrow> None
                 | Some ts \<Rightarrow> if ts = [] then None else Some (Min (set ts))))"

fun plan_position_stops ::
  "exit_config \<Rightarrow> held_position list \<Rightarrow> (string \<rightharpoonup> real list) \<Rightarrow> (string \<rightharpoonup> real) \<Rightarrow> (string \<rightharpoonup> real) \<Rightarrow> real \<Rightarrow> stop_plan list" where
  "plan_position_stops c [] th hwm et now = []"
| "plan_position_stops c (p # ps) th hwm et now =
     (if hp_symbol p = [] \<or> hp_qty p \<le> 0 then plan_position_stops c ps th hwm et now
      else (case evaluate_position_stop c (hp_symbol p) (hp_current_price p) (hp_avg_entry_price p)
                   (entry_time th et (hp_symbol p)) (hwm (hp_symbol p)) now of
              None \<Rightarrow> plan_position_stops c ps th hwm et now
            | Some a \<Rightarrow> \<lparr>sp_symbol = hp_symbol p, sp_qty = hp_qty p, sp_avg_entry_price = hp_avg_entry_price p,
                          sp_current_price = hp_current_price p, sp_tier = ea_tier a, sp_grund = ea_grund a\<rparr>
                        # plan_position_stops c ps th hwm et now))"

section \<open>The floor of an exit\<close>

text \<open>\<open>dust_exit_skip\<close>: whether the order is put off. The numbers can be read.\<close>

definition dust_exit_skip ::
  "bool \<Rightarrow> real \<Rightarrow> real \<Rightarrow> real \<Rightarrow> string option \<Rightarrow> bool \<Rightarrow> real \<Rightarrow> real \<Rightarrow> bool" where
  "dust_exit_skip enabled notional position_value equity exit_kind is_full_close min_position_pct min_equity_pct =
     (enabled \<and> exit_kind \<noteq> None \<and> exit_kind \<noteq> Some ''risk'' \<and> \<not> is_full_close \<and> 0 < notional \<and>
      (0 < position_value \<and> 0 < min_position_pct \<and> notional < position_value * min_position_pct \<or>
       0 < equity \<and> 0 < min_equity_pct \<and> notional < equity * min_equity_pct))"

section \<open>Age, high and rank\<close>

definition resolve_hold_hours :: "real option \<Rightarrow> real \<Rightarrow> real \<Rightarrow> real" where
  "resolve_hold_hours entry now min_hold_days =
     (case entry of None \<Rightarrow> (min_hold_days + 1) * 24 | Some t \<Rightarrow> (now - t) / 3600)"

definition derive_position_hwm :: "real \<Rightarrow> real option \<Rightarrow> real option list \<Rightarrow> real option \<Rightarrow> real" where
  "derive_position_hwm entry session_hwm bar_highs current =
     Max (set (entry # List.map_filter id (session_hwm # current # bar_highs)))"

definition rank_drop_exit :: "bool \<Rightarrow> nat option \<Rightarrow> real \<Rightarrow> nat \<Rightarrow> real \<Rightarrow> real \<Rightarrow> bool \<Rightarrow> bool" where
  "rank_drop_exit in_top_n lstm_rank hours_held top_n_size min_hold_days hysteresis hard_gate =
     (case lstm_rank of
        None \<Rightarrow> False
      | Some r \<Rightarrow>
          \<not> in_top_n \<and> top_n_size < r \<and>
          (min_hold_days \<le> hours_held / 24 \<or> (real top_n_size * hysteresis < real r \<and> \<not> hard_gate)))"

section \<open>Bounds of the scores\<close>

lemma time_mult_bounds: "1 \<le> time_mult h" "time_mult h \<le> 1.5"
  by (simp_all add: time_mult_def)

lemma loss_pressure_bounds: "0 \<le> calculate_loss_pressure p h t" "calculate_loss_pressure p h t \<le> 100"
  using time_mult_bounds [of h] by (auto simp: calculate_loss_pressure_def Let_def)

lemma trailing_bounds: "0 \<le> calculate_trailing_stop_score c p d h" "calculate_trailing_stop_score c p d h \<le> 100"
proof -
  have prox: "d / t * 100 * 0.6 \<le> 100" if "\<not> t \<le> d" "0 < t" for t :: real
  proof -
    have "d / t \<le> 1" using that by simp
    moreover have "u * 100 * 0.6 \<le> 100" if "u \<le> 1" for u :: real using that by simp
    ultimately show ?thesis by blast
  qed
  show "0 \<le> calculate_trailing_stop_score c p d h" "calculate_trailing_stop_score c p d h \<le> 100"
    using prox by (auto simp: calculate_trailing_stop_score_def Let_def split: option.split prod.split)
qed

lemma momentum_bounds: "0 \<le> calculate_momentum_fade c l hs p" "calculate_momentum_fade c l hs p \<le> 100"
  by (auto simp: calculate_momentum_fade_def Let_def)

lemma news_bounds: "0 \<le> calculate_news_pressure n p" "calculate_news_pressure n p \<le> 100"
  by (auto simp: calculate_news_pressure_def Let_def)

lemma time_bounds: "0 \<le> calculate_time_pressure p h" "calculate_time_pressure p h \<le> 100"
  by (auto simp: calculate_time_pressure_def divide_simps)

lemmas score_bounds = loss_pressure_bounds trailing_bounds momentum_bounds news_bounds time_bounds

lemma scored_sel [simp]:
  "ea_loss_pressure (scored c x) = calculate_loss_pressure (exit_pnl_pct x) (px_hours_held x) (loss_tiers_now c)"
  "ea_trailing_stop (scored c x) = calculate_trailing_stop_score c (exit_pnl_pct x) (drawdown_pct x) (px_hours_held x)"
  "ea_momentum_fade (scored c x) = calculate_momentum_fade c (px_lstm_prediction x) (px_momentum_history x) (exit_pnl_pct x)"
  "ea_news_pressure (scored c x) = calculate_news_pressure (px_news_score x) (exit_pnl_pct x)"
  "ea_time_pressure (scored c x) = calculate_time_pressure (exit_pnl_pct x) (px_hours_held x)"
  "ea_should_sell (scored c x) = False" "ea_tier (scored c x) = ''risk''" "ea_confidence (scored c x) = 0"
  by (simp_all add: scored_def no_exit_def)

lemma no_exit_sel [simp]:
  "ea_loss_pressure (no_exit x) = 0" "ea_trailing_stop (no_exit x) = 0" "ea_momentum_fade (no_exit x) = 0"
  "ea_news_pressure (no_exit x) = 0" "ea_time_pressure (no_exit x) = 0" "ea_should_sell (no_exit x) = False"
  "ea_tier (no_exit x) = ''risk''" "ea_confidence (no_exit x) = 0" "ea_total (no_exit x) = 0"
  by (simp_all add: no_exit_def)

lemma sell_sel [simp]:
  "ea_should_sell (sell s k tier g a)" "ea_tier (sell s k tier g a) = tier" "ea_confidence (sell s k tier g a) = k"
  "ea_total (sell s k tier g a) = s" "ea_grund (sell s k tier g a) = Some g"
  "ea_loss_pressure (sell s k tier g a) = ea_loss_pressure a" "ea_trailing_stop (sell s k tier g a) = ea_trailing_stop a"
  "ea_momentum_fade (sell s k tier g a) = ea_momentum_fade a" "ea_news_pressure (sell s k tier g a) = ea_news_pressure a"
  "ea_time_pressure (sell s k tier g a) = ea_time_pressure a"
  by (simp_all add: sell_def)

lemma total_bounds: "0 \<le> total_score p (scored c x) \<and> total_score p (scored c x) \<le> 100"
proof -
  obtain l t m n z where s: "ea_loss_pressure (scored c x) = l" "ea_trailing_stop (scored c x) = t"
      "ea_momentum_fade (scored c x) = m" "ea_news_pressure (scored c x) = n" "ea_time_pressure (scored c x) = z" by blast
  have "0 \<le> l \<and> l \<le> 100" "0 \<le> t \<and> t \<le> 100" "0 \<le> m \<and> m \<le> 100" "0 \<le> n \<and> n \<le> 100" "0 \<le> z \<and> z \<le> 100"
    using s score_bounds by auto
  then show ?thesis unfolding total_score_def s by (cases "p < 0"; simp add: power2_eq_square)
qed

section \<open>The properties of the analysis\<close>

text \<open>The branches of the analysis outside the panic window.\<close>

lemma analyze_exit_cases [consumes 1, case_names trailing loss momentum composite kept]:
  assumes "\<not> (pw_enabled (panic_window_now c) \<and> px_hours_held x < pw_hours (panic_window_now c))"
  obtains "85 \<le> ea_trailing_stop (scored c x)"
      "\<exists>g. analyze_exit c x = sell (ea_trailing_stop (scored c x)) 1 ''risk'' g (scored c x)"
  | "ea_trailing_stop (scored c x) < 85" "90 \<le> ea_loss_pressure (scored c x)"
      "\<exists>w. analyze_exit c x = sell (ea_loss_pressure (scored c x)) 1 ''risk''
         (grund (fst (applied_tier (loss_tiers_now c) (exit_pnl_pct x))) w) (scored c x)"
  | "ea_trailing_stop (scored c x) < 85" "ea_loss_pressure (scored c x) < 90" "5 < exit_pnl_pct x"
      "\<exists>g. analyze_exit c x = sell (ea_momentum_fade (scored c x)) 0.9 ''opinion'' g (scored c x)"
  | "ea_trailing_stop (scored c x) < 85" "ea_loss_pressure (scored c x) < 90"
      "\<exists>g. analyze_exit c x = sell (total_score (exit_pnl_pct x) (scored c x))
         (min 1 (total_score (exit_pnl_pct x) (scored c x) / 100)) ''opinion'' g (scored c x)"
  | "ea_trailing_stop (scored c x) < 85" "ea_loss_pressure (scored c x) < 90"
      "analyze_exit c x = (scored c x)\<lparr>ea_total := total_score (exit_pnl_pct x) (scored c x)\<rparr>"
proof (cases "85 \<le> ea_trailing_stop (scored c x)")
  case True
  show ?thesis
    by (rule that(1) [OF True]) (unfold analyze_exit_def Let_def if_not_P [OF assms] if_P [OF True], rule exI, rule refl)
next
  case tr: False
  note start = analyze_exit_def Let_def if_not_P [OF assms] if_not_P [OF tr]
  show ?thesis
  proof (cases "90 \<le> ea_loss_pressure (scored c x)")
    case True
    show ?thesis
      by (rule that(2) [OF tr [unfolded not_le] True]) (unfold start if_P [OF True], rule exI, rule refl)
  next
    case lo: False
    note br = tr [unfolded not_le] lo [unfolded not_le] and start = start if_not_P [OF lo]
    show ?thesis
    proof (cases "5 < exit_pnl_pct x \<and> 80 \<le> ea_momentum_fade (scored c x)")
      case True
      show ?thesis
        by (rule that(3) [OF br conjunct1 [OF True]]) (unfold start if_P [OF True], rule exI, rule refl)
    next
      case mo: False
      show ?thesis
      proof (cases "EXIT_THRESHOLD \<le> total_score (exit_pnl_pct x) (scored c x)")
        case True
        show ?thesis
          by (rule that(4) [OF br]) (unfold start if_not_P [OF mo] if_P [OF True], rule exI, rule refl)
      next
        case False
        show ?thesis
          by (rule that(5) [OF br]) (unfold start if_not_P [OF mo] if_not_P [OF False], rule refl)
      qed
    qed
  qed
qed

text \<open>Every score of an analysis lies between 0 and 100 and its confidence between 0 and 1, for every
  position and every configuration.\<close>

theorem exit_scores_bounded:
  "list_all (\<lambda>s. 0 \<le> s \<and> s \<le> 100) [ea_loss_pressure (analyze_exit c x), ea_trailing_stop (analyze_exit c x),
     ea_momentum_fade (analyze_exit c x), ea_news_pressure (analyze_exit c x), ea_time_pressure (analyze_exit c x),
     ea_total (analyze_exit c x)] \<and> 0 \<le> ea_confidence (analyze_exit c x) \<and> ea_confidence (analyze_exit c x) \<le> 1"
proof (cases "pw_enabled (panic_window_now c) \<and> px_hours_held x < pw_hours (panic_window_now c)")
  case True
  then show ?thesis by (simp add: analyze_exit_def Let_def)
next
  case False
  note b = score_bounds total_bounds [of "exit_pnl_pct x" c x]
  from False show ?thesis
    by (cases rule: analyze_exit_cases) (use b in \<open>auto\<close>)
qed

text \<open>A position at or below the hard stop is sold at once, also inside the panic window.\<close>

lemma hard_stop_sells:
  assumes "exit_pnl_pct x \<le> lt_hard_stop (loss_tiers_now c)" "lt_hard_stop (loss_tiers_now c) < 0"
  shows "ea_should_sell (analyze_exit c x) \<and> ea_tier (analyze_exit c x) = ''risk'' \<and> ea_confidence (analyze_exit c x) = 1
    \<and> map_option vg_klasse (ea_grund (analyze_exit c x)) = Some ''hard_stop''"
proof (cases "pw_enabled (panic_window_now c) \<and> px_hours_held x < pw_hours (panic_window_now c)")
  case True
  with assms(1) show ?thesis by (simp add: analyze_exit_def Let_def grund_def)
next
  case False
  have "ea_trailing_stop (scored c x) = 0" "ea_loss_pressure (scored c x) = 100"
    using assms by (simp_all add: calculate_trailing_stop_score_def calculate_loss_pressure_def)
  from False this show ?thesis
    by (cases rule: analyze_exit_cases) (use assms(1) in \<open>auto simp: grund_def applied_tier_def\<close>)
qed

section \<open>When the analysis sells for risk\<close>

text \<open>The tables: every trailing stop is positive, and a higher profit has no tighter stop.\<close>

lemma trail_rule_eq:
  "trail_rule c pnl =
     (if ec_trail_profile c = ''midterm''
      then (if 35 \<le> pnl then Some (15, 120) else if 20 \<le> pnl then Some (12, 120) else if 10 \<le> pnl then Some (10, 96)
            else if 5 \<le> pnl then Some (8, 72) else if 2 \<le> pnl then Some (6, 72) else None)
      else (if 35 \<le> pnl then Some (8, 12) else if 20 \<le> pnl then Some (6, 8) else if 10 \<le> pnl then Some (4, 4)
            else if 5 \<le> pnl then Some (2.5, 2) else if 2 \<le> pnl then Some (1.5, 1) else Some (1.5, 1)))"
  by (simp add: trail_rule_def active_trail_tiers_def active_subtier_def TRAIL_PROFIT_TIERS_def TRAIL_PROFIT_TIERS_MIDTERM_def)

lemma trail_rule_pos: "trail_rule c pnl = Some (trail, hours) \<Longrightarrow> 0 < trail"
  by (auto simp: trail_rule_eq split: if_splits)

lemma get_dynamic_eq:
  "get_dynamic_trailing_stop_pct c pnl = (if pnl \<le> 0 then 0 else case trail_rule c pnl of None \<Rightarrow> 0 | Some (trail, _) \<Rightarrow> trail)"
  by (simp add: get_dynamic_trailing_stop_pct_def trail_rule_def split: option.split)

text \<open>What the tiers and the tables mean, without scores.\<close>

definition risk_exit :: "loss_tiers \<Rightarrow> panic_window \<Rightarrow> (real \<times> real) option \<Rightarrow> real \<Rightarrow> real \<Rightarrow> real \<Rightarrow> bool" where
  "risk_exit t w rule pnl drawdown hours =
     (if pw_enabled w \<and> hours < pw_hours w then pnl \<le> lt_hard_stop t
      else if pnl < 0 then pnl \<le> lt_escalation t \<or> pnl \<le> lt_cut t \<and> 24 \<le> hours
      else 0 < pnl \<and> (case rule of None \<Rightarrow> False | Some (trail, least) \<Rightarrow> least \<le> hours \<and> trail \<le> drawdown))"

lemma loss_pressure_90:
  assumes "lt_hard_stop t \<le> lt_escalation t" "- 4 \<le> lt_watch t" "pnl < 0"
  shows "90 \<le> calculate_loss_pressure pnl h t \<longleftrightarrow> pnl \<le> lt_escalation t \<or> pnl \<le> lt_cut t \<and> 24 \<le> h"
  using assms by (auto simp: calculate_loss_pressure_def time_mult_def Let_def)

lemma trailing_85:
  assumes "0 < pnl"
  shows "85 \<le> calculate_trailing_stop_score c pnl d h \<longleftrightarrow>
    (case trail_rule c pnl of None \<Rightarrow> False | Some (trail, least) \<Rightarrow> least \<le> h \<and> trail \<le> d)"
proof (cases "trail_rule c pnl")
  case None
  with assms show ?thesis by (simp add: calculate_trailing_stop_score_def)
next
  case (Some r)
  obtain trail least where r: "r = (trail, least)" by fastforce
  have "0 < trail" using trail_rule_pos Some r by blast
  then have "\<not> trail \<le> d \<Longrightarrow> d / trail < 1" by simp
  moreover have "u * 100 * 0.6 < 85" if "u < 1" for u :: real using that by simp
  ultimately have "\<not> trail \<le> d \<Longrightarrow> d / trail * 100 * 0.6 < 85" by blast
  then show ?thesis using assms Some r by (auto simp: calculate_trailing_stop_score_def Let_def)
qed

lemma no_momentum_risk:
  assumes "\<not> (pw_enabled (panic_window_now c) \<and> px_hours_held x < pw_hours (panic_window_now c))"
  shows "ea_should_sell (analyze_exit c x) \<and> ea_tier (analyze_exit c x) = ''risk'' \<longleftrightarrow>
    85 \<le> ea_trailing_stop (scored c x) \<or> 90 \<le> ea_loss_pressure (scored c x)"
  using assms by (cases rule: analyze_exit_cases) auto

lemma trailing_nonpos: "pnl \<le> 0 \<Longrightarrow> calculate_trailing_stop_score c pnl d h = 0"
  by (simp add: calculate_trailing_stop_score_def)

lemma loss_nonneg: "0 \<le> pnl \<Longrightarrow> calculate_loss_pressure pnl h t = 0"
  by (simp add: calculate_loss_pressure_def)

lemma risk_exit_iff:
  assumes "lt_hard_stop (loss_tiers_now c) \<le> lt_escalation (loss_tiers_now c)" "- 4 \<le> lt_watch (loss_tiers_now c)"
  shows "ea_should_sell (analyze_exit c x) \<and> ea_tier (analyze_exit c x) = ''risk'' \<longleftrightarrow>
    risk_exit (loss_tiers_now c) (panic_window_now c) (trail_rule c (exit_pnl_pct x)) (exit_pnl_pct x) (drawdown_pct x) (px_hours_held x)"
proof (cases "pw_enabled (panic_window_now c) \<and> px_hours_held x < pw_hours (panic_window_now c)")
  case True
  then show ?thesis by (simp add: analyze_exit_def Let_def risk_exit_def)
next
  case False
  note iff = no_momentum_risk [OF False] risk_exit_def if_not_P [OF False] scored_sel
  show ?thesis
  proof (cases "exit_pnl_pct x < 0")
    case True
    then show ?thesis unfolding iff using loss_pressure_90 [OF assms] trailing_nonpos [of "exit_pnl_pct x"] by simp
  next
    case False
    then have nn: "0 \<le> exit_pnl_pct x" by simp
    show ?thesis
    proof (cases "0 < exit_pnl_pct x")
      case True
      then show ?thesis unfolding iff using trailing_85 [OF True] loss_nonneg [OF nn] by simp
    next
      case zero: False
      then show ?thesis unfolding iff using nn loss_nonneg [OF nn] trailing_nonpos [of "exit_pnl_pct x"] by simp
    qed
  qed
qed

text \<open>
  C27: With tiers in order (the hard stop at or below the escalation) and a watch tier not below -4 per cent, the
  analysis sells for risk exactly when the tiers say so: inside the panic window only at the hard stop; later a loser
  at the escalation tier, or at the cut tier after 24 hours; a winner when its row of the trailing table has been
  held long enough and has fallen by its stop from the high. No prediction, news score or weighted sum adds or
  removes a risk exit. With a lower watch tier, which the settings allow, the sum can; see
  \<open>smaller_loss_presses_harder\<close>.
\<close>

theorem risk_exit_exactly:
  assumes "lt_hard_stop (loss_tiers_now c) \<le> lt_escalation (loss_tiers_now c)" "- 4 \<le> lt_watch (loss_tiers_now c)"
  shows "ea_should_sell (analyze_exit c x) \<and> ea_tier (analyze_exit c x) = ''risk'' \<longleftrightarrow>
    risk_exit (loss_tiers_now c) (panic_window_now c) (trail_rule c (exit_pnl_pct x)) (exit_pnl_pct x) (drawdown_pct x) (px_hours_held x)"
  by (rule risk_exit_iff [OF assms])

text \<open>The trailing stop shown for a position never tightens while its profit grows.\<close>

theorem trailing_widens:
  assumes "0 < p" "p \<le> q"
  shows "get_dynamic_trailing_stop_pct c p \<le> get_dynamic_trailing_stop_pct c q"
  using assms by (auto simp: get_dynamic_eq trail_rule_eq)

section \<open>The plan of a cycle\<close>

definition stop_readable :: "(string \<rightharpoonup> real list) \<Rightarrow> (string \<rightharpoonup> real) \<Rightarrow> held_position \<Rightarrow> bool" where
  "stop_readable th et p \<longleftrightarrow> hp_symbol p \<noteq> [] \<and> 0 < hp_qty p \<and> 0 < hp_avg_entry_price p \<and> 0 < hp_current_price p
     \<and> entry_time th et (hp_symbol p) \<noteq> None"

lemma plan_in:
  "pl \<in> set (plan_position_stops c ps th hwm et now) \<longleftrightarrow>
    (\<exists>p a. p \<in> set ps \<and> hp_symbol p \<noteq> [] \<and> 0 < hp_qty p
       \<and> evaluate_position_stop c (hp_symbol p) (hp_current_price p) (hp_avg_entry_price p)
           (entry_time th et (hp_symbol p)) (hwm (hp_symbol p)) now = Some a
       \<and> pl = \<lparr>sp_symbol = hp_symbol p, sp_qty = hp_qty p, sp_avg_entry_price = hp_avg_entry_price p,
               sp_current_price = hp_current_price p, sp_tier = ea_tier a, sp_grund = ea_grund a\<rparr>)"
  by (induction ps) (auto split: option.split)

lemma evaluate_Some:
  assumes "evaluate_position_stop c s cur avg entry high now = Some a"
  shows "0 < avg" "0 < cur" "entry \<noteq> None" "ea_should_sell a"
  using assms by (auto simp: evaluate_position_stop_def Let_def split: if_splits option.splits)

lemma evaluate_hard_stop:
  assumes "0 < avg" "0 < cur" "entry = Some t" "lt_hard_stop (loss_tiers_now c) < 0"
    "(cur - avg) / avg * 100 \<le> lt_hard_stop (loss_tiers_now c)"
  obtains a where "evaluate_position_stop c s cur avg entry high now = Some a" "ea_tier a = ''risk''"
    "map_option vg_klasse (ea_grund a) = Some ''hard_stop''" "map_option vg_zeitpunkt (ea_grund a) = Some (Some now)"
proof -
  define x where "x = \<lparr>px_symbol = s, px_entry_price = avg, px_current_price = cur,
      px_high_water_mark = (case high of Some m \<Rightarrow> (if 0 < m then m else max avg cur) | None \<Rightarrow> max avg cur),
      px_hours_held = max 0 ((now - t) / 3600), px_lstm_prediction = 0, px_news_score = 0, px_momentum_history = []\<rparr>"
  have "exit_pnl_pct x \<le> lt_hard_stop (loss_tiers_now c)" using assms(1,5) by (simp add: x_def exit_pnl_pct_def)
  from this assms(4) have f: "ea_should_sell (analyze_exit c x) \<and> ea_tier (analyze_exit c x) = ''risk''
      \<and> ea_confidence (analyze_exit c x) = 1 \<and> map_option vg_klasse (ea_grund (analyze_exit c x)) = Some ''hard_stop''"
    by (rule hard_stop_sells)
  have "evaluate_position_stop c s cur avg entry high now =
      Some ((analyze_exit c x)\<lparr>ea_grund := map_option (\<lambda>g. g\<lparr>vg_zeitpunkt := Some now\<rparr>) (ea_grund (analyze_exit c x))\<rparr>)"
    using assms(1-3) f by (simp add: evaluate_position_stop_def Let_def x_def)
  with f show ?thesis using that by (cases "ea_grund (analyze_exit c x)") auto
qed

text \<open>
  Every held position at or below the hard stop with a readable price, cost basis and entry time is in
  the plan of the cycle, with its whole quantity, as a risk exit of the class of the hard stop, whatever
  stands before it in the list.
\<close>

theorem every_hard_stop_is_planned:
  assumes "p \<in> set ps" "stop_readable th et p" "lt_hard_stop (loss_tiers_now c) < 0"
    "(hp_current_price p - hp_avg_entry_price p) / hp_avg_entry_price p * 100 \<le> lt_hard_stop (loss_tiers_now c)"
  shows "\<exists>pl \<in> set (plan_position_stops c ps th hwm et now). sp_symbol pl = hp_symbol p \<and> sp_qty pl = hp_qty p
    \<and> sp_tier pl = ''risk'' \<and> map_option vg_klasse (sp_grund pl) = Some ''hard_stop''"
proof -
  from assms(2) obtain t where e: "entry_time th et (hp_symbol p) = Some t" by (auto simp: stop_readable_def)
  have pos: "0 < hp_avg_entry_price p" "0 < hp_current_price p" using assms(2) by (simp_all add: stop_readable_def)
  obtain a where a: "evaluate_position_stop c (hp_symbol p) (hp_current_price p) (hp_avg_entry_price p)
      (entry_time th et (hp_symbol p)) (hwm (hp_symbol p)) now = Some a" "ea_tier a = ''risk''"
      "map_option vg_klasse (ea_grund a) = Some ''hard_stop''"
    by (rule evaluate_hard_stop [OF pos e assms(3,4)])
  let ?pl = "\<lparr>sp_symbol = hp_symbol p, sp_qty = hp_qty p, sp_avg_entry_price = hp_avg_entry_price p,
      sp_current_price = hp_current_price p, sp_tier = ea_tier a, sp_grund = ea_grund a\<rparr>"
  have "?pl \<in> set (plan_position_stops c ps th hwm et now)"
    unfolding plan_in using assms(1,2) a(1) by (auto simp: stop_readable_def)
  with a show ?thesis by (intro bexI [where x = ?pl]) simp_all
qed

text \<open>
  A plan sells only what is held: each entry belongs to a position with its symbol, its whole quantity, a
  positive price and cost basis and a known entry time, and one position gives at most one entry.
\<close>

theorem plan_sells_only_held:
  "list_all (\<lambda>pl. list_ex (\<lambda>p. stop_readable th et p \<and> sp_symbol pl = hp_symbol p \<and> sp_qty pl = hp_qty p
      \<and> sp_current_price pl = hp_current_price p) ps) (plan_position_stops c ps th hwm et now)
   \<and> subseq (map (\<lambda>pl. (sp_symbol pl, sp_qty pl)) (plan_position_stops c ps th hwm et now))
       (map (\<lambda>p. (hp_symbol p, hp_qty p)) ps)"
proof
  show "list_all (\<lambda>pl. list_ex (\<lambda>p. stop_readable th et p \<and> sp_symbol pl = hp_symbol p \<and> sp_qty pl = hp_qty p
      \<and> sp_current_price pl = hp_current_price p) ps) (plan_position_stops c ps th hwm et now)"
    unfolding list_all_iff list_ex_iff
  proof
    fix pl assume "pl \<in> set (plan_position_stops c ps th hwm et now)"
    then obtain p a where p: "p \<in> set ps" "hp_symbol p \<noteq> []" "0 < hp_qty p"
        and e: "evaluate_position_stop c (hp_symbol p) (hp_current_price p) (hp_avg_entry_price p)
          (entry_time th et (hp_symbol p)) (hwm (hp_symbol p)) now = Some a"
        and pl: "pl = \<lparr>sp_symbol = hp_symbol p, sp_qty = hp_qty p, sp_avg_entry_price = hp_avg_entry_price p,
          sp_current_price = hp_current_price p, sp_tier = ea_tier a, sp_grund = ea_grund a\<rparr>"
      unfolding plan_in by blast
    show "\<exists>p \<in> set ps. stop_readable th et p \<and> sp_symbol pl = hp_symbol p \<and> sp_qty pl = hp_qty p
        \<and> sp_current_price pl = hp_current_price p"
      by (rule bexI [OF _ p(1)]) (use p evaluate_Some [OF e] pl in \<open>simp add: stop_readable_def\<close>)
  qed
  show "subseq (map (\<lambda>pl. (sp_symbol pl, sp_qty pl)) (plan_position_stops c ps th hwm et now))
       (map (\<lambda>p. (hp_symbol p, hp_qty p)) ps)"
    by (induction ps) (auto split: option.split)
qed

section \<open>The other rules\<close>

text \<open>
  The floor of an exit is relative: in an account k times as large the same exit, k times as large, is
  put off or sent just as here, and an exit for risk, of no class, or of the whole position is never put off.
\<close>

theorem dust_floor_is_relative:
  assumes "0 < k"
  shows "dust_exit_skip en (k * notional) (k * value) (k * equity) kind full p e
      = dust_exit_skip en notional value equity kind full p e
    \<and> \<not> (dust_exit_skip en notional value equity kind full p e \<and> (kind \<in> {None, Some ''risk''} \<or> full))"
  using assms by (auto simp: dust_exit_skip_def zero_less_mult_iff mult.assoc mult_less_cancel_left_pos)

lemma set_map_filter_id: "x \<in> set (List.map_filter id xs) \<longleftrightarrow> Some x \<in> set xs"
  by (induction xs) (auto simp: map_filter_simps split: option.split)

lemma hwm_ge_entry: "entry \<le> derive_position_hwm entry session highs cur"
  unfolding derive_position_hwm_def by (rule Max_ge) simp_all

lemma hwm_ge_current: "cur = Some u \<Longrightarrow> u \<le> derive_position_hwm entry session highs cur"
  unfolding derive_position_hwm_def by (rule Max_ge) (auto simp: map_filter_def split: option.split)

text \<open>
  The high of a position is a price that was seen, at least the entry, and lies no lower when more bars
  are known: with the sources of a restart the drawdown from it is never larger than with all of them.
\<close>

theorem hwm_is_honest:
  "derive_position_hwm entry session highs cur \<in> insert entry {u. Some u \<in> {session, cur} \<union> set highs}
   \<and> derive_position_hwm entry None [] cur \<le> derive_position_hwm entry session highs cur
   \<and> derive_position_hwm entry session highs cur \<le> derive_position_hwm entry session (highs @ newer) cur"
proof (intro conjI)
  let ?S = "\<lambda>s h. set (entry # List.map_filter id (s # cur # h))"
  have el: "?S s h = insert entry {u. Some u \<in> {s, cur} \<union> set h}" for s h
    unfolding list.set(2) set_eq_iff insert_iff set_map_filter_id by auto
  show "derive_position_hwm entry session highs cur \<in> insert entry {u. Some u \<in> {session, cur} \<union> set highs}"
    unfolding derive_position_hwm_def el [symmetric] by (rule Max_in) simp_all
  have mono: "derive_position_hwm entry s h cur \<le> derive_position_hwm entry s' h' cur"
    if "{u. Some u \<in> {s, cur} \<union> set h} \<subseteq> {u. Some u \<in> {s', cur} \<union> set h'}" for s s' h h'
    unfolding derive_position_hwm_def
  proof (rule Max_mono)
    show "?S s h \<subseteq> ?S s' h'" unfolding el using that by (rule insert_mono)
  qed simp_all
  show "derive_position_hwm entry None [] cur \<le> derive_position_hwm entry session highs cur" by (rule mono) auto
  show "derive_position_hwm entry session highs cur \<le> derive_position_hwm entry session (highs @ newer) cur"
    by (rule mono) auto
qed

text \<open>A position whose age is not known has passed every window of \<open>min_hold_days\<close>, so the rotation can
  sell it; a name that is ranked within the top is never rotated.\<close>

lemma unknown_age_passes:
  assumes "rank = Some r" "n < r" "0 \<le> d"
  shows "rank_drop_exit False rank (resolve_hold_hours None now d) n d hy gate"
  using assms by (simp add: rank_drop_exit_def resolve_hold_hours_def)

text \<open>Inside the minimum holding time the rotation sells nothing while the hard gate is on.\<close>

theorem hard_gate_keeps:
  assumes "hours / 24 < d"
  shows "\<not> rank_drop_exit ranked rank hours n d hy True"
  using assms by (simp add: rank_drop_exit_def split: option.split)

section \<open>Where a smaller loss presses harder\<close>

text \<open>
  The pressure of a loss is not monotone: at the shipped tiers a loss of 2.9 per cent presses with 43.5, one
  of 3 per cent with 40. With the watch tier at -7 and the cut at -7.8, a fresh loss of 6.9 per cent is sold
  at once and one of 7.5 per cent is kept.
\<close>

definition steep_tiers :: exit_config where
  "steep_tiers = \<lparr>ec_tiers = Some \<lparr>lt_watch = - 7, lt_cut = - 7.8, lt_escalation = - 7.9, lt_hard_stop = - 8\<rparr>,
     ec_panic = None, ec_trail_profile = ''midterm'', ec_momentum_sell_threshold = - 0.3\<rparr>"

definition lost :: "real \<Rightarrow> position_context" where
  "lost price = \<lparr>px_symbol = ''ABC'', px_entry_price = 100, px_current_price = price, px_high_water_mark = 100,
     px_hours_held = 3, px_lstm_prediction = 0, px_news_score = 0, px_momentum_history = []\<rparr>"

lemmas exit_eval = analyze_exit_def Let_def exit_pnl_pct_def drawdown_pct_def lost_def scored_def no_exit_def steep_tiers_def
  loss_tiers_now_def panic_window_now_def PanicWindow_def LossTiers_def calculate_loss_pressure_def time_mult_def
  calculate_trailing_stop_score_def calculate_momentum_fade_def momentum_recent_def calculate_news_pressure_def
  calculate_time_pressure_def total_score_def EXIT_THRESHOLD_def sell_def grund_def applied_tier_def

theorem smaller_loss_presses_harder:
  "calculate_loss_pressure (- 3) 0 LossTiers < calculate_loss_pressure (- 2.9) 0 LossTiers
   \<and> ea_should_sell (analyze_exit steep_tiers (lost 93.1)) \<and> \<not> ea_should_sell (analyze_exit steep_tiers (lost 92.5))"
  by (simp add: exit_eval)

section \<open>Concrete positions\<close>

definition shipped :: exit_config where
  "shipped = \<lparr>ec_tiers = None, ec_panic = None, ec_trail_profile = ''midterm'', ec_momentum_sell_threshold = - 0.3\<rparr>"

lemma shipped_tiers: "loss_tiers_now shipped = LossTiers" "lt_hard_stop LossTiers = - 8" "lt_escalation LossTiers = - 7.9"
    "lt_watch LossTiers = - 3"
  by (simp_all add: shipped_def loss_tiers_now_def LossTiers_def)

theorem risk_exit_exactly_witness:
  "(ea_should_sell (analyze_exit shipped (lost 92.1)) \<and> ea_tier (analyze_exit shipped (lost 92.1)) = ''risk'')
   \<and> \<not> (ea_should_sell (analyze_exit shipped (lost 94)) \<and> ea_tier (analyze_exit shipped (lost 94)) = ''risk'')"
proof -
  have h: "lt_hard_stop (loss_tiers_now shipped) \<le> lt_escalation (loss_tiers_now shipped)"
      "- 4 \<le> lt_watch (loss_tiers_now shipped)"
    by (simp_all add: shipped_tiers)
  note ev = risk_exit_def shipped_def loss_tiers_now_def LossTiers_def panic_window_now_def PanicWindow_def exit_pnl_pct_def lost_def
  show ?thesis
    unfolding risk_exit_exactly [OF h] by (simp add: ev)
qed

theorem trailing_widens_witness: "get_dynamic_trailing_stop_pct shipped 3 \<le> get_dynamic_trailing_stop_pct shipped 30"
  by (rule trailing_widens) simp_all

definition held_abc :: held_position where
  "held_abc = \<lparr>hp_symbol = ''ABC'', hp_qty = 7, hp_avg_entry_price = 100, hp_current_price = 90\<rparr>"

theorem every_hard_stop_is_planned_witness:
  "\<exists>pl \<in> set (plan_position_stops shipped [held_abc\<lparr>hp_symbol := ''X''\<rparr>, held_abc] Map.empty (\<lambda>_. None) [''ABC'' \<mapsto> 0] 60).
     sp_symbol pl = hp_symbol held_abc \<and> sp_qty pl = hp_qty held_abc \<and> sp_tier pl = ''risk''
     \<and> map_option vg_klasse (sp_grund pl) = Some ''hard_stop''"
  by (rule every_hard_stop_is_planned) (simp_all add: shipped_tiers held_abc_def stop_readable_def entry_time_def)

theorem dust_floor_is_relative_witness:
  "dust_exit_skip True (10 * 4) (10 * 100) (10 * 1000) (Some ''opinion'') False (1 / 20) (1 / 1000)
     = dust_exit_skip True 4 100 1000 (Some ''opinion'') False (1 / 20) (1 / 1000)
   \<and> \<not> (dust_exit_skip True 4 100 1000 (Some ''opinion'') False (1 / 20) (1 / 1000)
       \<and> (Some ''opinion'' \<in> {None, Some ''risk''} \<or> False))"
  by (rule dust_floor_is_relative) simp

theorem hard_gate_keeps_witness: "\<not> rank_drop_exit False (Some 90) 30 10 5 3 True"
  by (rule hard_gate_keeps) simp

end
