(* ===== verification/Reentry_Lockout.thy ===== *)
theory Reentry_Lockout
  imports Prelude
begin

text \<open>
  The lockout after a full exit, counted in trading days and kept on disk
  (\<open>core/engine/reentry_lockout.py\<close>): the calendar, the store and its readers.

  A date is its ordinal. The day in New York of an instant is the zone data base's and a parameter. An
  entry read from the file has the dates this code wrote; a file that cannot be read is \<open>Unreadable\<close>.
  Whether a write succeeds is an argument. Names are Latin-1 texts.
\<close>

section \<open>The calendar\<close>

text \<open>\<open>date.weekday()\<close>: Monday is 0.\<close>

definition weekday :: "int \<Rightarrow> int" where
  "weekday d = (d + 6) mod 7"

text \<open>The loop of \<open>lockout_until\<close>.\<close>

function lockout_loop :: "int \<Rightarrow> int \<Rightarrow> int" where
  "lockout_loop day remaining =
     (if remaining \<le> 0 then day
      else lockout_loop (day + 1) (if weekday (day + 1) < 5 then remaining - 1 else remaining))"
  by pat_completeness auto

definition idle_days :: "int \<Rightarrow> int" where
  "idle_days d = (if weekday d = 4 then 2 else if weekday d = 5 then 1 else 0)"

lemma idle_days_next: "\<not> weekday (d + 1) < 5 \<Longrightarrow> idle_days (d + 1) < idle_days d"
  unfolding weekday_def idle_days_def by presburger

lemma idle_days_bounds: "0 \<le> idle_days d" "idle_days d \<le> 2"
  by (simp_all add: idle_days_def)

termination lockout_loop
proof (relation "measure (\<lambda>(d, r). nat (3 * r + idle_days d))")
  show "wf (measure (\<lambda>(d, r). nat (3 * r + idle_days d)))" by simp
next
  fix d r :: int
  assume "\<not> r \<le> 0"
  then show "((d + 1, if weekday (d + 1) < 5 then r - 1 else r), (d, r)) \<in> measure (\<lambda>(d, r). nat (3 * r + idle_days d))"
    using idle_days_next [of d] idle_days_bounds [of d] idle_days_bounds [of "d + 1"] by (auto simp: nat_mono_iff)
qed

declare lockout_loop.simps [simp del]

definition lockout_until :: "(real \<Rightarrow> int) \<Rightarrow> real \<Rightarrow> int \<Rightarrow> int option" where
  "lockout_until et_day exit_time days = (if days \<le> 0 then None else Some (lockout_loop (et_day exit_time) days))"

section \<open>The store\<close>

record lock_entry =
  le_exited_at :: real
  le_until :: "int option"
  le_hold_until :: "int option"

type_synonym lock_entries = "(string, lock_entry) pydict"

datatype lock_file = No_File | Unreadable | Blob lock_entries

record lockout_store =
  ls_path :: bool
  ls_entries :: lock_entries
  ls_loaded :: bool

definition ReentryLockout :: "bool \<Rightarrow> lockout_store" where
  "ReentryLockout path = \<lparr>ls_path = path, ls_entries = [], ls_loaded = False\<rparr>"

text \<open>The comprehension of \<open>_load\<close>: names in capitals, entries with a date.\<close>

fun from_blob :: "lock_entries \<Rightarrow> lock_entries \<Rightarrow> lock_entries" where
  "from_blob [] d = d"
| "from_blob ((k, v) # kvs) d =
     from_blob kvs (if le_until v \<noteq> None \<or> le_hold_until v \<noteq> None then dict_set (py_upper k) v d else d)"

definition load_lockouts :: "lock_file \<Rightarrow> lockout_store \<Rightarrow> lockout_store" where
  "load_lockouts f s =
     (if ls_loaded s then s
      else (let s1 = s\<lparr>ls_loaded := True\<rparr>
            in if \<not> ls_path s then s1
               else case f of
                      No_File \<Rightarrow> s1
                    | Unreadable \<Rightarrow> s1\<lparr>ls_entries := []\<rparr>
                    | Blob b \<Rightarrow> s1\<lparr>ls_entries := from_blob b []\<rparr>))"

definition save_lockouts :: "bool \<Rightarrow> lockout_store \<Rightarrow> lock_file \<Rightarrow> lock_file" where
  "save_lockouts ok s f = (if ls_path s \<and> ok then Blob (ls_entries s) else f)"

definition evict :: "int \<Rightarrow> lock_entries \<Rightarrow> lock_entries" where
  "evict today d =
     filter (\<lambda>(_, e). (case le_until e of None \<Rightarrow> False | Some u \<Rightarrow> today < u) \<or>
                      (case le_hold_until e of None \<Rightarrow> False | Some u \<Rightarrow> today < u)) d"

fun latest :: "int option \<Rightarrow> int option \<Rightarrow> int option" where
  "latest None b = b"
| "latest a None = a"
| "latest (Some a) (Some b) = Some (max a b)"

definition norm_name :: "string \<Rightarrow> string" where
  "norm_name s = py_strip (py_upper s)"

section \<open>The operations\<close>

text \<open>The merged entry of a name, and the loop of \<open>arm\<close> with its flag \<open>changed\<close>.\<close>

definition merged :: "real \<Rightarrow> int option \<Rightarrow> int option \<Rightarrow> lock_entry option \<Rightarrow> lock_entry" where
  "merged now until hold prev =
     (case prev of
        None \<Rightarrow> \<lparr>le_exited_at = now, le_until = until, le_hold_until = hold\<rparr>
      | Some p \<Rightarrow> \<lparr>le_exited_at = le_exited_at p, le_until = latest (le_until p) until,
                   le_hold_until = latest (le_hold_until p) hold\<rparr>)"

fun arm_loop ::
  "real \<Rightarrow> int option \<Rightarrow> int option \<Rightarrow> string set \<Rightarrow> string list \<Rightarrow> lock_entries \<times> bool \<Rightarrow> lock_entries \<times> bool" where
  "arm_loop now until hold stops [] dc = dc"
| "arm_loop now until hold stops (x # xs) (d, changed) =
     (let k = norm_name x;
          e = merged now until (if k \<in> stops then hold else None) (map_of d k)
      in arm_loop now until hold stops xs
           (if k = [] then (d, changed)
            else if le_until e = None \<and> le_hold_until e = None then (d, changed)
            else (dict_set k e d, True)))"

definition arm ::
  "(real \<Rightarrow> int) \<Rightarrow> bool \<Rightarrow> string list \<Rightarrow> real \<Rightarrow> int \<Rightarrow> int \<Rightarrow> string list \<Rightarrow> lockout_store \<times> lock_file
     \<Rightarrow> (lockout_store \<times> lock_file) \<times> string set" where
  "arm et_day ok symbols now days hold_days stop_exits sf =
     (let s = load_lockouts (snd sf) (fst sf);
          until = lockout_until et_day now days;
          hold = lockout_until et_day now hold_days
      in if until = None \<and> hold = None then ((s, snd sf), {})
         else (let dc = arm_loop now until hold (norm_name ` set stop_exits) symbols (ls_entries s, False);
                   s1 = s\<lparr>ls_entries := evict (et_day now) (fst dc)\<rparr>;
                   f1 = (if snd dc then save_lockouts ok s1 (snd sf) else snd sf)
               in ((s1, f1), fst ` {(k, e). (k, e) \<in> set (ls_entries s1) \<and> le_until e \<noteq> None})))"

definition active :: "(real \<Rightarrow> int) \<Rightarrow> real \<Rightarrow> lockout_store \<times> lock_file \<Rightarrow> (lockout_store \<times> lock_file) \<times> string set" where
  "active et_day now sf =
     (let s = load_lockouts (snd sf) (fst sf)
      in ((s, snd sf),
          fst ` set (filter (\<lambda>(_, e). case le_until e of None \<Rightarrow> False
                                       | Some u \<Rightarrow> le_exited_at e \<le> now \<and> et_day now < u) (ls_entries s))))"

definition held_slots ::
  "(real \<Rightarrow> int) \<Rightarrow> real \<Rightarrow> string list \<Rightarrow> string option \<Rightarrow> lockout_store \<times> lock_file \<Rightarrow> (lockout_store \<times> lock_file) \<times> nat" where
  "held_slots et_day now held_symbols exclude sf =
     (let s = load_lockouts (snd sf) (fst sf);
          held = set (map py_upper held_symbols);
          ex = (case exclude of None \<Rightarrow> None | Some x \<Rightarrow> if x = [] then None else Some (py_upper x))
      in ((s, snd sf),
          length (filter (\<lambda>(k, e). case le_hold_until e of None \<Rightarrow> False
                                    | Some u \<Rightarrow> k \<notin> held \<and> Some k \<noteq> ex \<and> le_exited_at e \<le> now \<and> et_day now < u)
                    (ls_entries s))))"

text \<open>\<open>reserved_slots\<close>: nothing is read while the setting is 0 or cannot be read.\<close>

definition reserved_slots ::
  "(real \<Rightarrow> int) \<Rightarrow> int option \<Rightarrow> real \<Rightarrow> string list \<Rightarrow> string option \<Rightarrow> lockout_store \<times> lock_file
     \<Rightarrow> (lockout_store \<times> lock_file) \<times> nat" where
  "reserved_slots et_day days now held_symbols exclude sf =
     (case days of None \<Rightarrow> (sf, 0)
      | Some n \<Rightarrow> if n \<le> 0 then (sf, 0) else held_slots et_day now held_symbols exclude sf)"

section \<open>What the calendar counts\<close>

lemma lockout_loop_step:
  "0 < r \<Longrightarrow> lockout_loop d r = lockout_loop (d + 1) (if weekday (d + 1) < 5 then r - 1 else r)"
  by (subst lockout_loop.simps) simp

lemma lockout_loop_done [simp]: "r \<le> 0 \<Longrightarrow> lockout_loop d r = d"
  by (subst lockout_loop.simps) simp

lemma lockout_loop_count:
  "0 < r \<Longrightarrow> d < lockout_loop d r \<and> weekday (lockout_loop d r) < 5
     \<and> int (card {x \<in> {d<..lockout_loop d r}. weekday x < 5}) = r"
proof (induction d r rule: lockout_loop.induct)
  case (1 d r)
  let ?r = "if weekday (d + 1) < 5 then r - 1 else r"
  have step: "lockout_loop d r = lockout_loop (d + 1) ?r" by (rule lockout_loop_step [OF 1(2)])
  show ?case
  proof (cases "0 < ?r")
    case False
    with 1(2) have w: "weekday (d + 1) < 5" "r = 1" by (auto split: if_splits)
    then have "lockout_loop d r = d + 1" unfolding step by simp
    moreover have "{x \<in> {d<..d + 1}. weekday x < 5} = {d + 1}" using w(1) by auto
    ultimately show ?thesis using w by simp
  next
    case True
    have ih: "d + 1 < lockout_loop (d + 1) ?r" "weekday (lockout_loop (d + 1) ?r) < 5"
        "int (card {x \<in> {d + 1<..lockout_loop (d + 1) ?r}. weekday x < 5}) = ?r"
      using 1(1) [OF _ True] 1(2) by simp_all
    have split: "{x \<in> {d<..lockout_loop (d + 1) ?r}. weekday x < 5} =
        (if weekday (d + 1) < 5 then insert (d + 1) else id) {x \<in> {d + 1<..lockout_loop (d + 1) ?r}. weekday x < 5}"
      using ih(1) by auto (metis add.commute le_less zless_imp_add1_zle)+
    have fin: "finite {x \<in> {d + 1<..u}. weekday x < 5}" for u
      by (rule finite_subset [of _ "{d + 1<..u}"]) auto
    show ?thesis
    proof (cases "weekday (d + 1) < 5")
      case True
      with ih fin [of "lockout_loop (d + 1) (r - 1)"] show ?thesis unfolding step split by (simp add: card_insert_if)
    next
      case False
      with ih show ?thesis unfolding step split by simp
    qed
  qed
qed

text \<open>
  C38: A lockout of n days ends on a weekday, and exactly n weekdays lie after the day of the exit up to and
  including it; the loop always ends.
\<close>

theorem lockout_counts_weekdays:
  assumes "lockout_until et_day exit n = Some u"
  shows "weekday u < 5 \<and> et_day exit < u \<and> int (card {x \<in> {et_day exit<..u}. weekday x < 5}) = n"
  using assms lockout_loop_count [of n "et_day exit"] by (auto simp: lockout_until_def split: if_splits)

section \<open>The store over a history\<close>

text \<open>What happens to the store: exits are armed, and the process restarts.\<close>

datatype lock_event =
    Armed real "string list" int int "string list"
  | Restarted

fun lock_step :: "(real \<Rightarrow> int) \<Rightarrow> lockout_store \<times> lock_file \<Rightarrow> lock_event \<Rightarrow> lockout_store \<times> lock_file" where
  "lock_step et_day sf (Armed t xs n h stops) = fst (arm et_day True xs t n h stops sf)"
| "lock_step et_day sf Restarted = (ReentryLockout (ls_path (fst sf)), snd sf)"

definition lock_run :: "(real \<Rightarrow> int) \<Rightarrow> lock_event list \<Rightarrow> lockout_store \<times> lock_file" where
  "lock_run et_day h = foldl (lock_step et_day) (ReentryLockout True, No_File) h"

text \<open>What the events say of a name on a day: an exit locks it, or a loss stop holds its slot.\<close>

fun locks_name :: "(real \<Rightarrow> int) \<Rightarrow> int \<Rightarrow> string \<Rightarrow> lock_event \<Rightarrow> bool" where
  "locks_name et_day day k (Armed t xs n h stops) =
     (k \<noteq> [] \<and> k \<in> norm_name ` set xs \<and> (case lockout_until et_day t n of None \<Rightarrow> False | Some u \<Rightarrow> day < u))"
| "locks_name et_day day k Restarted = False"

fun holds_slot :: "(real \<Rightarrow> int) \<Rightarrow> int \<Rightarrow> string \<Rightarrow> lock_event \<Rightarrow> bool" where
  "holds_slot et_day day k (Armed t xs n h stops) =
     (k \<noteq> [] \<and> k \<in> norm_name ` set xs \<and> k \<in> norm_name ` set stops \<and>
      (case lockout_until et_day t h of None \<Rightarrow> False | Some u \<Rightarrow> day < u))"
| "holds_slot et_day day k Restarted = False"

fun armed_at :: "lock_event \<Rightarrow> real option" where
  "armed_at (Armed t xs n h stops) = Some t"
| "armed_at Restarted = None"

definition in_order :: "lock_event list \<Rightarrow> bool" where
  "in_order h \<longleftrightarrow> sorted (List.map_filter armed_at h)"

text \<open>A date that lies ahead, and the entries that agree with a history up to a time.\<close>

definition ahead :: "int \<Rightarrow> int option \<Rightarrow> bool" where
  "ahead day m = (case m of None \<Rightarrow> False | Some u \<Rightarrow> day < u)"

lemma ahead_simps [simp]: "\<not> ahead day None" "ahead day (Some u) = (day < u)"
  by (simp_all add: ahead_def)

lemma ahead_latest [simp]: "ahead day (latest a b) = (ahead day a \<or> ahead day b)"
  by (cases "(a, b)" rule: latest.cases) (auto simp: ahead_def)

lemma latest_None [simp]: "latest a b = None \<longleftrightarrow> a = None \<and> b = None" "latest a None = a"
  by (cases "(a, b)" rule: latest.cases; simp) (cases a; simp)

definition until_ahead :: "lock_entries \<Rightarrow> int \<Rightarrow> string \<Rightarrow> bool" where
  "until_ahead d day k = (case map_of d k of None \<Rightarrow> False | Some e \<Rightarrow> ahead day (le_until e))"

definition hold_ahead :: "lock_entries \<Rightarrow> int \<Rightarrow> string \<Rightarrow> bool" where
  "hold_ahead d day k = (case map_of d k of None \<Rightarrow> False | Some e \<Rightarrow> ahead day (le_hold_until e))"

definition entries_ok :: "real \<Rightarrow> lock_entries \<Rightarrow> bool" where
  "entries_ok T d \<longleftrightarrow> dict_ok d \<and> (\<forall>(k, e) \<in> set d. py_upper k = k \<and> le_exited_at e \<le> T
     \<and> (le_until e \<noteq> None \<or> le_hold_until e \<noteq> None))"

definition agrees :: "(real \<Rightarrow> int) \<Rightarrow> real \<Rightarrow> lock_event list \<Rightarrow> lock_entries \<Rightarrow> bool" where
  "agrees et_day T h d \<longleftrightarrow> entries_ok T d \<and>
     (\<forall>day k. et_day T \<le> day \<longrightarrow> until_ahead d day k = list_ex (locks_name et_day day k) h
        \<and> hold_ahead d day k = list_ex (holds_slot et_day day k) h)"

section \<open>One operation\<close>

lemma from_blob_ok:
  "entries_ok T b \<Longrightarrow> dict_ok (d @ b) \<Longrightarrow> from_blob b d = d @ b"
proof (induction b arbitrary: d)
  case (Cons e b)
  obtain k v where e: "e = (k, v)" by fastforce
  have ok: "entries_ok T b" "py_upper k = k" "le_until v \<noteq> None \<or> le_hold_until v \<noteq> None"
    using Cons.prems(1) by (auto simp: entries_ok_def e)
  have "k \<notin> fst ` set d" using Cons.prems(2) by (auto simp: e)
  then have "dict_set k v d = d @ [(k, v)]" by (rule dict_set_new)
  moreover have "dict_ok ((d @ [(k, v)]) @ b)" using Cons.prems(2) by (simp add: e)
  ultimately show ?case using Cons.IH [OF ok(1), of "d @ [(k, v)]"] ok by (simp add: e)
qed simp

lemma from_blob_entries: "entries_ok T b \<Longrightarrow> from_blob b [] = b"
  using from_blob_ok [of T b "[]"] by (simp add: entries_ok_def)

lemma map_of_filter_ok:
  "dict_ok d \<Longrightarrow> map_of (filter P d) k = (case map_of d k of None \<Rightarrow> None | Some e \<Rightarrow> if P (k, e) then Some e else None)"
proof (induction d)
  case (Cons e d)
  then show ?case
    by (cases e) (auto split: option.splits simp: map_of_eq_None_iff dest: map_of_SomeD image_eqI [where f = fst])
qed simp

lemma evict_alt: "evict today d = filter (\<lambda>(k, e). ahead today (le_until e) \<or> ahead today (le_hold_until e)) d"
  by (simp add: evict_def ahead_def)

lemma dict_ok_evict [simp]: "dict_ok d \<Longrightarrow> dict_ok (evict today d)"
  by (simp add: evict_def distinct_map_filter)

lemma evict_ahead:
  assumes "dict_ok d" "today \<le> day"
  shows "until_ahead (evict today d) day k = until_ahead d day k" "hold_ahead (evict today d) day k = hold_ahead d day k"
proof -
  have le: "ahead day m \<Longrightarrow> ahead today m" for m using assms(2) by (cases m) auto
  show "until_ahead (evict today d) day k = until_ahead d day k" "hold_ahead (evict today d) day k = hold_ahead d day k"
    unfolding until_ahead_def hold_ahead_def evict_alt map_of_filter_ok [OF assms(1)]
    by (auto split: option.split dest: le)
qed

lemma entries_ok_evict: "entries_ok T d \<Longrightarrow> entries_ok T (evict today d)"
  using dict_ok_evict [of d today] by (auto simp: entries_ok_def evict_def)

lemma merged_sel [simp]:
  "le_until (merged now u h p) = (case p of None \<Rightarrow> u | Some e \<Rightarrow> latest (le_until e) u)"
  "le_hold_until (merged now u h p) = (case p of None \<Rightarrow> h | Some e \<Rightarrow> latest (le_hold_until e) h)"
  "le_exited_at (merged now u h p) = (case p of None \<Rightarrow> now | Some e \<Rightarrow> le_exited_at e)"
  by (simp_all add: merged_def split: option.split)

definition put_one :: "string \<Rightarrow> lock_entry \<Rightarrow> lock_entries \<Rightarrow> lock_entries" where
  "put_one k e d = (if k = [] \<or> le_until e = None \<and> le_hold_until e = None then d else dict_set k e d)"

lemma put_one_ahead:
  "until_ahead (put_one k (merged now u h (map_of d k)) d) day j =
     (until_ahead d day j \<or> j = k \<and> k \<noteq> [] \<and> ahead day u)"
  "hold_ahead (put_one k (merged now u h (map_of d k)) d) day j =
     (hold_ahead d day j \<or> j = k \<and> k \<noteq> [] \<and> ahead day h)"
  by (auto simp: put_one_def until_ahead_def hold_ahead_def split: option.splits)

lemma put_one_ok:
  assumes "entries_ok now d" "py_upper k = k"
  shows "entries_ok now (put_one k (merged now u h (map_of d k)) d)"
proof -
  have "le_exited_at (merged now u h (map_of d k)) \<le> now"
    using assms(1) by (auto simp: entries_ok_def split: option.split dest: map_of_SomeD)
  with assms show ?thesis by (auto simp: put_one_def entries_ok_def dest!: set_dict_set)
qed

lemma arm_loop_put:
  "arm_loop now u h stops (x # xs) (d, c) =
     (let k = norm_name x; e = merged now u (if k \<in> stops then h else None) (map_of d k)
      in arm_loop now u h stops xs (put_one k e d, c \<or> \<not> (k = [] \<or> le_until e = None \<and> le_hold_until e = None)))"
  by (simp add: put_one_def Let_def)

lemma arm_loop_ahead:
  "until_ahead (fst (arm_loop now u h stops xs (d, c))) day k =
     (until_ahead d day k \<or> k \<noteq> [] \<and> k \<in> norm_name ` set xs \<and> ahead day u)"
  "hold_ahead (fst (arm_loop now u h stops xs (d, c))) day k =
     (hold_ahead d day k \<or> k \<noteq> [] \<and> k \<in> norm_name ` set xs \<and> k \<in> stops \<and> ahead day h)"
proof (induction xs arbitrary: d c)
  case (Cons x xs)
  {
    case 1
    show ?case unfolding arm_loop_put Let_def Cons.IH put_one_ahead by auto
  next
    case 2
    show ?case unfolding arm_loop_put Let_def Cons.IH put_one_ahead by auto
  }
qed simp_all

lemma arm_loop_ok: "entries_ok now d \<Longrightarrow> entries_ok now (fst (arm_loop now u h stops xs (d, c)))"
proof (induction xs arbitrary: d c)
  case (Cons x xs)
  have "py_upper (norm_name x) = norm_name x" by (simp add: norm_name_def py_upper_strip_upper)
  from put_one_ok [OF Cons.prems this] show ?case unfolding arm_loop_put Let_def by (rule Cons.IH)
qed simp

lemma arm_loop_changed: "snd (arm_loop now u h stops xs (d, True))"
  by (induction xs arbitrary: d) (simp_all add: arm_loop_put Let_def del: arm_loop.simps(2))

lemma arm_loop_unchanged:
  "\<not> snd (arm_loop now u h stops xs (d, c)) \<Longrightarrow> fst (arm_loop now u h stops xs (d, c)) = d"
proof (induction xs arbitrary: d c)
  case (Cons x xs)
  from Cons.prems Cons.IH show ?case
    by (auto simp: arm_loop_put Let_def put_one_def arm_loop_changed simp del: arm_loop.simps(2) split: if_splits)
qed simp

section \<open>A whole history\<close>

definition disk :: "lock_file \<Rightarrow> lock_entries" where
  "disk f = (case f of Blob b \<Rightarrow> b | _ \<Rightarrow> [])"

definition lock_inv :: "(real \<Rightarrow> int) \<Rightarrow> real \<Rightarrow> lock_event list \<Rightarrow> lockout_store \<times> lock_file \<Rightarrow> bool" where
  "lock_inv et_day T h sf \<longleftrightarrow> ls_path (fst sf) \<and> snd sf \<noteq> Unreadable \<and> (\<not> ls_loaded (fst sf) \<longrightarrow> ls_entries (fst sf) = [])
     \<and> agrees et_day T h (disk (snd sf)) \<and> (ls_loaded (fst sf) \<longrightarrow> agrees et_day T h (ls_entries (fst sf)))"

lemma agrees_ok: "agrees et_day T h d \<Longrightarrow> entries_ok T d"
  by (simp add: agrees_def)

lemma agrees_later:
  assumes "mono et_day" "agrees et_day T h d" "T \<le> t"
  shows "agrees et_day t h d"
proof -
  have "et_day T \<le> et_day t" using assms by (simp add: monoD)
  with assms(2,3) show ?thesis unfolding agrees_def entries_ok_def by fastforce
qed

lemma load_entries:
  assumes "lock_inv et_day T h sf"
  shows "ls_loaded (load_lockouts (snd sf) (fst sf))" "ls_path (load_lockouts (snd sf) (fst sf))"
    "agrees et_day T h (ls_entries (load_lockouts (snd sf) (fst sf)))"
proof -
  obtain s f where sf: "sf = (s, f)" by fastforce
  have blob: "from_blob b [] = b" if "f = Blob b" for b
  proof -
    have "agrees et_day T h b" using assms that by (simp add: lock_inv_def sf disk_def)
    then show ?thesis by (rule from_blob_entries [OF agrees_ok])
  qed
  show "ls_loaded (load_lockouts (snd sf) (fst sf))" "ls_path (load_lockouts (snd sf) (fst sf))"
    "agrees et_day T h (ls_entries (load_lockouts (snd sf) (fst sf)))"
    using assms blob by (auto simp: lock_inv_def sf load_lockouts_def Let_def disk_def split: lock_file.split)
qed

text \<open>An exit that changes no entry says nothing of any name.\<close>

lemma locks_name_ahead:
  "locks_name et_day day k (Armed t xs n h stops) = (k \<noteq> [] \<and> k \<in> norm_name ` set xs \<and> ahead day (lockout_until et_day t n))"
  "holds_slot et_day day k (Armed t xs n h stops) =
     (k \<noteq> [] \<and> k \<in> norm_name ` set xs \<and> k \<in> norm_name ` set stops \<and> ahead day (lockout_until et_day t h))"
  by (auto simp: ahead_def split: option.split)

lemma agrees_armed:
  assumes "agrees et_day t h d"
  shows "agrees et_day t (h @ [Armed t xs n m stops])
    (evict (et_day t) (fst (arm_loop t (lockout_until et_day t n) (lockout_until et_day t m) (norm_name ` set stops) xs (d, c))))"
proof -
  let ?d = "fst (arm_loop t (lockout_until et_day t n) (lockout_until et_day t m) (norm_name ` set stops) xs (d, c))"
  have ok: "entries_ok t ?d" by (rule arm_loop_ok [OF agrees_ok [OF assms]])
  then have dok: "dict_ok ?d" by (simp add: entries_ok_def)
  show ?thesis unfolding agrees_def
  proof (intro conjI allI impI)
    show "entries_ok t (evict (et_day t) ?d)" by (rule entries_ok_evict [OF ok])
    fix day k assume day: "et_day t \<le> day"
    show "until_ahead (evict (et_day t) ?d) day k = list_ex (locks_name et_day day k) (h @ [Armed t xs n m stops])"
      using assms day unfolding evict_ahead [OF dok day] arm_loop_ahead by (simp add: agrees_def locks_name_ahead del: locks_name.simps)
    show "hold_ahead (evict (et_day t) ?d) day k = list_ex (holds_slot et_day day k) (h @ [Armed t xs n m stops])"
      using assms day unfolding evict_ahead [OF dok day] arm_loop_ahead by (simp add: agrees_def locks_name_ahead del: holds_slot.simps)
  qed
qed

lemma agrees_same:
  assumes "agrees et_day t h d"
    and "fst (arm_loop t (lockout_until et_day t n) (lockout_until et_day t m) (norm_name ` set stops) xs (d, c)) = d"
    and "agrees et_day t h e"
  shows "agrees et_day t (h @ [Armed t xs n m stops]) e"
proof -
  have u: "until_ahead d day k = (until_ahead d day k \<or> locks_name et_day day k (Armed t xs n m stops))"
      "hold_ahead d day k = (hold_ahead d day k \<or> holds_slot et_day day k (Armed t xs n m stops))" for day k
    using arm_loop_ahead [of t "lockout_until et_day t n" "lockout_until et_day t m" "norm_name ` set stops" xs d c day k] assms(2)
    by (simp_all add: locks_name_ahead del: locks_name.simps holds_slot.simps)
  with assms(1,3) show ?thesis unfolding agrees_def by (simp del: locks_name.simps holds_slot.simps) metis
qed

lemma lock_step_inv:
  assumes "mono et_day" "lock_inv et_day T h sf" "case armed_at ev of None \<Rightarrow> t = T | Some t' \<Rightarrow> T \<le> t' \<and> t = t'"
  shows "lock_inv et_day t (h @ [ev]) (lock_step et_day sf ev)"
proof (cases ev)
  case Restarted
  have "agrees et_day t (h @ [Restarted]) d" if "agrees et_day t h d" for d using that by (simp add: agrees_def)
  then show ?thesis using assms by (simp add: Restarted lock_inv_def ReentryLockout_def)
next
  case (Armed t' xs n m stops)
  with assms(3) have le: "T \<le> t" "t' = t" by simp_all
  define s where "s = load_lockouts (snd sf) (fst sf)"
  have s: "ls_loaded s" "ls_path s" "agrees et_day t h (ls_entries s)" and f: "agrees et_day t h (disk (snd sf))" "snd sf \<noteq> Unreadable"
    using load_entries [OF assms(2)] agrees_later [OF assms(1) _ le(1)] assms(2) by (auto simp: s_def lock_inv_def)
  let ?u = "lockout_until et_day t n" and ?h = "lockout_until et_day t m"
  let ?dc = "arm_loop t ?u ?h (norm_name ` set stops) xs (ls_entries s, False)"
  show ?thesis
  proof (cases "?u = None \<and> ?h = None")
    case True
    have none: "agrees et_day t (h @ [Armed t xs n m stops]) d" if "agrees et_day t h d" for d
      using that True by (simp add: agrees_def)
    show ?thesis unfolding Armed le(2) lock_step.simps arm_def Let_def s_def [symmetric] if_P [OF True]
      using s f none by (simp add: lock_inv_def)
  next
    case False
    have mem: "agrees et_day t (h @ [Armed t xs n m stops]) (evict (et_day t) (fst ?dc))" by (rule agrees_armed [OF s(3)])
    show ?thesis
    proof (cases "snd ?dc")
      case True
      then show ?thesis unfolding Armed le(2) lock_step.simps arm_def Let_def s_def [symmetric] if_not_P [OF False]
        using s mem by (simp add: lock_inv_def save_lockouts_def disk_def)
    next
      case unch: False
      have "agrees et_day t (h @ [Armed t xs n m stops]) (disk (snd sf))"
        by (rule agrees_same [OF s(3) arm_loop_unchanged [OF unch] f(1)])
      with unch show ?thesis unfolding Armed le(2) lock_step.simps arm_def Let_def s_def [symmetric] if_not_P [OF False]
        using s mem f by (simp add: lock_inv_def)
    qed
  qed
qed

lemma in_order_snoc:
  "in_order (h @ [ev]) \<longleftrightarrow> in_order h \<and> (case armed_at ev of None \<Rightarrow> True | Some t \<Rightarrow> \<forall>t' \<in> set (List.map_filter armed_at h). t' \<le> t)"
  by (auto simp: in_order_def map_filter_def sorted_append split: option.split)

text \<open>The time of the last exit, or any time at all before the first.\<close>

lemma lock_run_inv:
  assumes "mono et_day"
  shows "in_order h \<Longrightarrow> \<forall>t \<in> set (List.map_filter armed_at h). t \<le> T \<Longrightarrow> lock_inv et_day T h (lock_run et_day h)"
proof (induction h arbitrary: T rule: rev_induct)
  case Nil
  show ?case by (simp add: lock_run_def lock_inv_def ReentryLockout_def disk_def agrees_def entries_ok_def until_ahead_def hold_ahead_def)
next
  case (snoc ev h)
  let ?t = "case armed_at ev of None \<Rightarrow> T | Some t \<Rightarrow> t"
  have before: "\<forall>t \<in> set (List.map_filter armed_at h). t \<le> ?t"
    using snoc.prems by (auto simp: in_order_snoc map_filter_def split: option.splits)
  have tT: "?t \<le> T" using snoc.prems(2) by (auto simp: map_filter_def split: option.split)
  have "in_order h" using snoc.prems(1) by (simp add: in_order_snoc)
  from snoc.IH [OF this before] have inv: "lock_inv et_day ?t h (lock_run et_day h)" .
  have "lock_inv et_day ?t (h @ [ev]) (lock_step et_day (lock_run et_day h) ev)"
    by (rule lock_step_inv [OF assms inv]) (simp split: option.split)
  then have "lock_inv et_day ?t (h @ [ev]) (lock_run et_day (h @ [ev]))" by (simp add: lock_run_def)
  then show ?case using agrees_later [OF assms _ tT] by (auto simp: lock_inv_def)
qed

lemma agrees_now:
  assumes "agrees et_day T h d"
  shows "until_ahead d (et_day T) k = list_ex (locks_name et_day (et_day T) k) h"
    "hold_ahead d (et_day T) k = list_ex (holds_slot et_day (et_day T) k) h"
  using assms by (simp_all add: agrees_def)

lemma active_set:
  assumes "entries_ok now (ls_entries (load_lockouts (snd sf) (fst sf)))"
  shows "snd (active et_day now sf) = {k. until_ahead (ls_entries (load_lockouts (snd sf) (fst sf))) (et_day now) k}"
proof -
  let ?d = "ls_entries (load_lockouts (snd sf) (fst sf))"
  have "k \<in> snd (active et_day now sf) \<longleftrightarrow> until_ahead ?d (et_day now) k" for k
  proof -
    have dok: "dict_ok ?d" using assms by (simp add: entries_ok_def)
    have "k \<in> snd (active et_day now sf) \<longleftrightarrow> (\<exists>e. (k, e) \<in> set ?d \<and> ahead (et_day now) (le_until e) \<and> le_exited_at e \<le> now)"
      by (force simp: active_def Let_def ahead_def image_iff split: option.splits)
    also have "\<dots> \<longleftrightarrow> (\<exists>e. map_of ?d k = Some e \<and> ahead (et_day now) (le_until e))"
      using dok assms by (auto simp: entries_ok_def)
    also have "\<dots> \<longleftrightarrow> until_ahead ?d (et_day now) k" by (auto simp: until_ahead_def split: option.split)
    finally show ?thesis .
  qed
  then show ?thesis by blast
qed

lemma keys_filter:
  "k \<in> set (map fst (filter (\<lambda>(k, e). P e \<and> Q k) d)) \<longleftrightarrow> (\<exists>e. (k, e) \<in> set d \<and> P e) \<and> Q k"
  by (induction d) auto

lemma held_slots_card:
  assumes "entries_ok now (ls_entries (load_lockouts (snd sf) (fst sf)))"
  shows "snd (held_slots et_day now held None sf) =
    card {k. hold_ahead (ls_entries (load_lockouts (snd sf) (fst sf))) (et_day now) k \<and> k \<notin> py_upper ` set held}"
proof -
  let ?d = "ls_entries (load_lockouts (snd sf) (fst sf))"
  let ?F = "filter (\<lambda>(k, e). ahead (et_day now) (le_hold_until e) \<and> k \<notin> py_upper ` set held) ?d"
  have dok: "dict_ok ?d" using assms by (simp add: entries_ok_def)
  have dF: "distinct (map fst ?F)" using dok by (simp add: distinct_map_filter)
  have "snd (held_slots et_day now held None sf) = length ?F"
  proof -
    have "filter (\<lambda>(k, e). case le_hold_until e of None \<Rightarrow> False
          | Some u \<Rightarrow> k \<notin> set (map py_upper held) \<and> Some k \<noteq> None \<and> le_exited_at e \<le> now \<and> et_day now < u) ?d = ?F"
      by (rule filter_cong [OF refl]) (use assms in \<open>auto simp: entries_ok_def ahead_def split: option.splits\<close>)
    then show ?thesis by (simp only: held_slots_def Let_def snd_conv option.case)
  qed
  also have "\<dots> = card (set (map fst ?F))" using distinct_card [OF dF] by simp
  also have "set (map fst ?F) = {k. hold_ahead ?d (et_day now) k \<and> k \<notin> py_upper ` set held}"
  proof -
    have "k \<in> set (map fst ?F) \<longleftrightarrow> hold_ahead ?d (et_day now) k \<and> k \<notin> py_upper ` set held" for k
    proof -
      have "k \<in> set (map fst ?F) \<longleftrightarrow> (\<exists>e. (k, e) \<in> set ?d \<and> ahead (et_day now) (le_hold_until e)) \<and> k \<notin> py_upper ` set held"
        by (rule keys_filter)
      also have "(\<exists>e. (k, e) \<in> set ?d \<and> ahead (et_day now) (le_hold_until e)) \<longleftrightarrow> hold_ahead ?d (et_day now) k"
        unfolding map_of_eq_Some_iff [OF dok, symmetric] hold_ahead_def by (cases "map_of ?d k") simp_all
      finally show ?thesis .
    qed
    then show ?thesis by blast
  qed
  finally show ?thesis .
qed

text \<open>
  C28: Whatever exits were armed and however often the process restarted in between, the names that are locked
  at a later moment are exactly those that some exit of the history locks on that day. So no restart and no
  later exit shortens a lockout, and none outlasts the days of its last exit. The writes succeed.
\<close>

theorem lockout_survives_restarts:
  assumes "mono et_day" "in_order h" "\<forall>t \<in> set (List.map_filter armed_at h). t \<le> now"
  shows "snd (active et_day now (lock_run et_day h)) = {k. list_ex (locks_name et_day (et_day now) k) h}"
proof -
  from lock_run_inv [OF assms] have inv: "lock_inv et_day now h (lock_run et_day h)" .
  have ag: "agrees et_day now h (ls_entries (load_lockouts (snd (lock_run et_day h)) (fst (lock_run et_day h))))"
    by (rule load_entries(3) [OF inv])
  show ?thesis unfolding active_set [OF agrees_ok [OF ag]] by (rule Collect_cong) (rule agrees_now [OF ag])
qed

text \<open>
  The slots held back from new names are counted exactly: one for each name that a loss stop of the
  history still holds and that is not back in the book, also after restarts.
\<close>

theorem slot_hold_counts:
  assumes "mono et_day" "in_order h" "\<forall>t \<in> set (List.map_filter armed_at h). t \<le> now" "0 < days"
  shows "snd (reserved_slots et_day (Some days) now held None (lock_run et_day h)) =
    card {k. list_ex (holds_slot et_day (et_day now) k) h \<and> k \<notin> py_upper ` set held}"
proof -
  from lock_run_inv [OF assms(1-3)] have inv: "lock_inv et_day now h (lock_run et_day h)" .
  have ag: "agrees et_day now h (ls_entries (load_lockouts (snd (lock_run et_day h)) (fst (lock_run et_day h))))"
    by (rule load_entries(3) [OF inv])
  have "snd (reserved_slots et_day (Some days) now held None (lock_run et_day h)) =
      snd (held_slots et_day now held None (lock_run et_day h))"
    using assms(4) by (simp add: reserved_slots_def)
  then show ?thesis unfolding held_slots_card [OF agrees_ok [OF ag]] by (simp only: agrees_now [OF ag])
qed

section \<open>Where the store says something else\<close>

text \<open>Days as the hours of one zone, and a Monday.\<close>

definition plain_day :: "real \<Rightarrow> int" where
  "plain_day t = \<lfloor>t / 24\<rfloor> + 1"

lemma mono_plain_day: "mono plain_day"
  unfolding plain_day_def by (intro monoI add_right_mono floor_mono divide_right_mono) simp_all

text \<open>
  The answer of \<open>arm\<close>, which the loop uses for the cycle of an exit, still names a name whose lockout is over
  while its slot is held: locked for one day, held for three, free on the second, and locked once more in the
  cycle in which another name exits.
\<close>

definition first_stop :: lock_event where
  "first_stop = Armed 0 [''AB''] 1 3 [''AB'']"

lemma lockout_loop_pos: "0 < n \<Longrightarrow> lockout_loop d n = lockout_loop (d + 1) (if weekday (d + 1) < 5 then n - 1 else n)"
  by (rule lockout_loop_step)

lemma toy_until: "lockout_until plain_day 0 1 = Some 2" "lockout_until plain_day 0 3 = Some 4"
    "lockout_until plain_day 24 1 = Some 3" "lockout_until plain_day 24 3 = Some 5"
  by (simp_all add: lockout_until_def plain_day_def lockout_loop_pos weekday_def)

lemma toy_names: "norm_name ''AB'' = ''AB''" "norm_name ''CD'' = ''CD''"
  by (simp_all add: norm_name_def py_strip_def py_upper_def has_capital_def py_space_def Let_def)

lemma toy_first: "lock_run plain_day [first_stop] =
    (\<lparr>ls_path = True, ls_entries = [(''AB'', \<lparr>le_exited_at = 0, le_until = Some 2, le_hold_until = Some 4\<rparr>)], ls_loaded = True\<rparr>,
     Blob [(''AB'', \<lparr>le_exited_at = 0, le_until = Some 2, le_hold_until = Some 4\<rparr>)])"
  by (simp add: lock_run_def first_stop_def arm_def load_lockouts_def ReentryLockout_def toy_until toy_names merged_def
      save_lockouts_def evict_def plain_day_def Let_def)

theorem arm_names_the_free:
  "''AB'' \<notin> snd (active plain_day 24 (lock_run plain_day [first_stop]))
   \<and> ''AB'' \<in> snd (arm plain_day True [''CD''] 24 1 3 [] (lock_run plain_day [first_stop]))"
  unfolding toy_first
  by (auto simp: active_def arm_def load_lockouts_def toy_until toy_names merged_def evict_def plain_day_def
      save_lockouts_def Let_def)
    (rule image_eqI [where x = "(''AB'', \<lparr>le_exited_at = 0, le_until = Some 2, le_hold_until = Some 4\<rparr>)"]; simp)

section \<open>Concrete histories\<close>

lemma toy_order: "in_order [first_stop, Restarted]" "\<forall>t \<in> set (List.map_filter armed_at [first_stop, Restarted]). t \<le> 0"
  by (simp_all add: in_order_def first_stop_def map_filter_simps)

theorem lockout_counts_weekdays_witness:
  "weekday 2 < 5 \<and> plain_day 0 < 2 \<and> int (card {x \<in> {plain_day 0<..2}. weekday x < 5}) = 1"
  by (rule lockout_counts_weekdays [OF toy_until(1)])

theorem lockout_survives_restarts_witness:
  "''AB'' \<in> snd (active plain_day 0 (lock_run plain_day [first_stop, Restarted]))"
  unfolding lockout_survives_restarts [OF mono_plain_day toy_order]
  using toy_until(1) toy_names(1) by (simp add: first_stop_def) (simp add: plain_day_def)

theorem slot_hold_counts_witness:
  "snd (reserved_slots plain_day (Some 3) 0 [] None (lock_run plain_day [first_stop, Restarted])) = 1"
proof -
  have "{k. list_ex (holds_slot plain_day (plain_day 0) k) [first_stop, Restarted] \<and> k \<notin> py_upper ` set []} = {''AB''}"
    using toy_until(2) toy_names(1) by (auto simp: first_stop_def) (simp add: plain_day_def)
  then show ?thesis
    using slot_hold_counts [OF mono_plain_day toy_order, of 3 "[]"] by simp
qed

end
