(* ===== verification/Position_Book.thy ===== *)
theory Position_Book
  imports Exit_Rules Reentry_Lockout
begin

text \<open>
  What the trading loop keeps of the held positions from cycle to cycle
  (\<open>core/engine/positionsbuch.py\<close>, \<open>hwm_store.py\<close>) and the pass that sells for a stop
  (\<open>_run_position_stop_checks\<close> of \<open>schleifen_stops.py\<close>, with the veto of \<open>core/consensus_retention.py\<close>):
  the highs, the entry times, the names that exited, and the lockout they arm.

  A snapshot of the broker is a list of \<open>held_position\<close>; what cannot be read is 0 there. The durable highs
  are a map that a read returns or fails to return. A dispatched sale is its plan. Sets
  of names are lists where the code walks over them.
\<close>

record book_config =
  bc_hwm_trailing :: bool
  bc_hwm_persist :: bool
  bc_entry_reconcile :: bool
  bc_lockout_days :: int
  bc_hold_days :: int
  bc_retention :: real
  bc_exit :: exit_config

record position_book =
  pb_hwm :: "(string \<rightharpoonup> real) option"
  pb_entry_times :: "(string \<rightharpoonup> real) option"
  pb_loss_exits :: "string set"
  pb_partial_exits :: "string list"
  pb_prev_held :: "string list option"
  pb_vanished :: "string list"
  pb_lockout :: "lockout_store \<times> lock_file"

section \<open>The highs\<close>

text \<open>\<open>load_position_hwm\<close>: a failed read is an empty map.\<close>

definition load_position_hwm :: "(string \<rightharpoonup> real) option \<Rightarrow> (string \<rightharpoonup> real)" where
  "load_position_hwm stored = (case stored of None \<Rightarrow> Map.empty | Some m \<Rightarrow> m)"

definition save_position_hwm :: "bool \<Rightarrow> (string \<rightharpoonup> real) \<Rightarrow> (string \<rightharpoonup> real) option \<Rightarrow> (string \<rightharpoonup> real) option" where
  "save_position_hwm ok marks stored = (if ok then Some marks else stored)"

fun ratchet_loop :: "(string \<rightharpoonup> real) \<Rightarrow> held_position list \<Rightarrow> (string \<rightharpoonup> real) \<Rightarrow> (string \<rightharpoonup> real)" where
  "ratchet_loop prev [] cur = cur"
| "ratchet_loop prev (p # ps) cur =
     ratchet_loop prev ps
       (if hp_symbol p \<noteq> [] \<and> 0 < hp_current_price p
        then cur(hp_symbol p \<mapsto> max (case prev (hp_symbol p) of None \<Rightarrow> 0 | Some v \<Rightarrow> v) (hp_current_price p))
        else cur)"

definition ratchet_high_water_marks ::
  "book_config \<Rightarrow> bool \<Rightarrow> held_position list \<Rightarrow> position_book \<times> (string \<rightharpoonup> real) option
     \<Rightarrow> (position_book \<times> (string \<rightharpoonup> real) option) \<times> (string \<rightharpoonup> real) option" where
  "ratchet_high_water_marks cfg ok ps bd =
     (if \<not> bc_hwm_trailing cfg then (bd, None)
      else (let prev = (case pb_hwm (fst bd) of
                          None \<Rightarrow> if bc_hwm_persist cfg then load_position_hwm (snd bd) else Map.empty
                        | Some m \<Rightarrow> m);
                cur = ratchet_loop prev ps Map.empty
            in (((fst bd)\<lparr>pb_hwm := Some cur\<rparr>,
                 if bc_hwm_persist cfg then save_position_hwm ok cur (snd bd) else snd bd), Some cur)))"

section \<open>The entry times\<close>

fun entry_loop ::
  "bool \<Rightarrow> (string \<rightharpoonup> real) \<Rightarrow> (string \<rightharpoonup> real list) \<Rightarrow> real \<Rightarrow> held_position list \<Rightarrow> (string \<rightharpoonup> real) \<Rightarrow> (string \<rightharpoonup> real)" where
  "entry_loop first prev th now [] cur = cur"
| "entry_loop first prev th now (p # ps) cur =
     entry_loop first prev th now ps
       (if hp_symbol p = [] then cur
        else cur(hp_symbol p \<mapsto>
          (case prev (hp_symbol p) of
             Some t \<Rightarrow> t
           | None \<Rightarrow> if first then (case th (hp_symbol p) of
                                       None \<Rightarrow> now
                                     | Some ts \<Rightarrow> if ts = [] then now else Min (set ts))
                     else now)))"

definition ratchet_entry_times ::
  "book_config \<Rightarrow> held_position list \<Rightarrow> (string \<rightharpoonup> real list) \<Rightarrow> real \<Rightarrow> position_book \<Rightarrow> position_book \<times> (string \<rightharpoonup> real) option" where
  "ratchet_entry_times cfg ps th now b =
     (if \<not> bc_entry_reconcile cfg then (b, None)
      else (let prev = (case pb_entry_times b of None \<Rightarrow> Map.empty | Some m \<Rightarrow> m);
                cur = entry_loop (pb_entry_times b = None) prev th now ps Map.empty
            in (b\<lparr>pb_entry_times := Some cur\<rparr>, Some cur)))"

section \<open>The pass of the stops\<close>

text \<open>\<open>consensus_retention_veto\<close>: the live consensus is \<open>None\<close> when there is none or it cannot be read.\<close>

definition consensus_retention_veto :: "real \<Rightarrow> string \<Rightarrow> real option \<Rightarrow> bool" where
  "consensus_retention_veto threshold exit_kind consensus =
     (exit_kind \<noteq> ''risk'' \<and> 0 < threshold \<and> (case consensus of None \<Rightarrow> False | Some v \<Rightarrow> threshold < v))"

text \<open>\<open>"LOSS CUT" in reason or "HARD STOP" in reason\<close>: the reasons of the three loss classes.\<close>

definition is_loss_stop :: "stop_plan \<Rightarrow> bool" where
  "is_loss_stop pl =
     (case sp_grund pl of None \<Rightarrow> False
      | Some g \<Rightarrow> vg_klasse g \<in> {''hard_stop'', ''loss_escalation'', ''loss_cut''})"

definition run_position_stop_checks ::
  "book_config \<Rightarrow> bool \<Rightarrow> held_position list option \<Rightarrow> (string \<rightharpoonup> real list) \<Rightarrow> (string \<Rightarrow> real option) \<Rightarrow> real
     \<Rightarrow> position_book \<times> (string \<rightharpoonup> real) option \<Rightarrow> (position_book \<times> (string \<rightharpoonup> real) option) \<times> stop_plan list" where
  "run_position_stop_checks cfg ok fetched th consensus now bd =
     (case fetched of
        None \<Rightarrow> (bd, [])
      | Some ps \<Rightarrow>
          let (bd1, hwm) = ratchet_high_water_marks cfg ok ps bd;
              (b2, et) = ratchet_entry_times cfg ps th now (fst bd1);
              plans = plan_position_stops (bc_exit cfg) ps th (case hwm of None \<Rightarrow> Map.empty | Some m \<Rightarrow> m)
                        (case et of None \<Rightarrow> Map.empty | Some m \<Rightarrow> m) now;
              sold = filter (\<lambda>pl. \<not> consensus_retention_veto (bc_retention cfg) (sp_tier pl) (consensus (sp_symbol pl))) plans
          in ((b2\<lparr>pb_loss_exits := pb_loss_exits b2 \<union> (\<lambda>pl. py_upper (sp_symbol pl)) ` set (filter is_loss_stop sold)\<rparr>, snd bd1), sold))"

section \<open>The names that exited\<close>

definition note_position_snapshot :: "held_position list \<Rightarrow> bool \<Rightarrow> position_book \<Rightarrow> position_book" where
  "note_position_snapshot ps confirmed b =
     (if \<not> confirmed then b
      else (let held = map (\<lambda>p. py_upper (hp_symbol p)) ps;
                vanished = (case pb_prev_held b of None \<Rightarrow> [] | Some prev \<Rightarrow> filter (\<lambda>s. s \<notin> set held) prev)
            in b\<lparr>pb_vanished := pb_vanished b @ vanished, pb_prev_held := Some held\<rparr>))"

definition stopout_reentry_locked ::
  "book_config \<Rightarrow> (real \<Rightarrow> int) \<Rightarrow> bool \<Rightarrow> string list \<Rightarrow> real \<Rightarrow> position_book \<Rightarrow> position_book \<times> string set" where
  "stopout_reentry_locked cfg et_day ok just_exited now b =
     (let loss = pb_loss_exits b; b1 = b\<lparr>pb_loss_exits := {}\<rparr>
      in if bc_lockout_days cfg \<le> 0 \<and> bc_hold_days cfg \<le> 0 then (b1, {})
         else (let partial = set (map py_upper (pb_partial_exits b));
                   b2 = b1\<lparr>pb_vanished := [], pb_partial_exits := []\<rparr>;
                   full = filter (\<lambda>s. s \<notin> partial) (map py_upper (filter (\<lambda>s. s \<noteq> []) just_exited) @ pb_vanished b);
                   (lk, names) = (if full \<noteq> []
                      then arm et_day ok full now (bc_lockout_days cfg) (bc_hold_days cfg) (filter (\<lambda>s. s \<in> loss) full) (pb_lockout b)
                      else active et_day now (pb_lockout b))
               in (b2\<lparr>pb_lockout := lk\<rparr>, names)))"

section \<open>The high is the highest price seen\<close>

text \<open>The price at which a snapshot shows a name, if it shows it with a readable price; of several rows the last.\<close>

fun seen :: "string \<Rightarrow> held_position list \<Rightarrow> real option" where
  "seen s [] = None"
| "seen s (p # ps) =
     (case seen s ps of
        Some v \<Rightarrow> Some v
      | None \<Rightarrow> if hp_symbol p = s \<and> s \<noteq> [] \<and> 0 < hp_current_price p then Some (hp_current_price p) else None)"

lemma ratchet_loop_at:
  "ratchet_loop prev ps cur s =
     (case seen s ps of None \<Rightarrow> cur s | Some v \<Rightarrow> Some (max (case prev s of None \<Rightarrow> 0 | Some u \<Rightarrow> u) v))"
  by (induction ps arbitrary: cur) (auto split: option.splits)

lemma seen_pos: "seen s ps = Some v \<Longrightarrow> 0 < v"
  by (induction ps) (auto split: option.splits if_splits)

text \<open>What happens to the book: the stop pass of a cycle with its snapshot, the trade history, the live consensus
  and the time, a failed fetch, or a restart of the process.\<close>

datatype book_event =
    Cycle "held_position list" "string \<rightharpoonup> real list" "string \<Rightarrow> real option" real
  | Fetch_Failed
  | Reboot

text \<open>The high of a name after the prices of the successive snapshots: the largest of the unbroken run that
  the last one ends.\<close>

definition peak_of :: "real option list \<Rightarrow> real option" where
  "peak_of qs = (let run = takeWhile (\<lambda>q. q \<noteq> None) (rev qs) in if run = [] then None else Some (Max (set (map the run))))"

lemma peak_of_Nil [simp]: "peak_of [] = None"
  by (simp add: peak_of_def)

lemma peak_of_snoc:
  assumes "\<And>v. q = Some v \<Longrightarrow> 0 < v"
  shows "peak_of (qs @ [q]) = map_option (max (case peak_of qs of None \<Rightarrow> 0 | Some u \<Rightarrow> u)) q"
proof (cases q)
  case (Some v)
  let ?run = "takeWhile (\<lambda>q. q \<noteq> None) (rev qs)"
  show ?thesis
  proof (cases "?run = []")
    case True
    then show ?thesis using Some assms [OF Some] by (simp add: peak_of_def Let_def)
  next
    case False
    then have "Max (insert v (set (map the ?run))) = max v (Max (set (map the ?run)))" by (intro Max_insert) simp_all
    then show ?thesis using Some False by (simp add: peak_of_def Let_def max.commute)
  qed
qed (simp add: peak_of_def Let_def)

definition snapshots :: "book_event list \<Rightarrow> held_position list list" where
  "snapshots es = List.map_filter (\<lambda>e. case e of Cycle ps _ _ _ \<Rightarrow> Some ps | _ \<Rightarrow> None) es"

definition reboot :: "position_book \<Rightarrow> position_book" where
  "reboot b = \<lparr>pb_hwm = None, pb_entry_times = None, pb_loss_exits = {}, pb_partial_exits = [], pb_prev_held = None,
     pb_vanished = [], pb_lockout = (ReentryLockout (ls_path (fst (pb_lockout b))), snd (pb_lockout b))\<rparr>"

fun book_step ::
  "book_config \<Rightarrow> position_book \<times> (string \<rightharpoonup> real) option \<Rightarrow> book_event \<Rightarrow> position_book \<times> (string \<rightharpoonup> real) option" where
  "book_step cfg bd (Cycle ps th consensus now) = fst (run_position_stop_checks cfg True (Some ps) th consensus now bd)"
| "book_step cfg bd Fetch_Failed = fst (run_position_stop_checks cfg True None Map.empty (\<lambda>_. None) 0 bd)"
| "book_step cfg bd Reboot = (reboot (fst bd), snd bd)"

definition marks_now :: "position_book \<times> (string \<rightharpoonup> real) option \<Rightarrow> (string \<rightharpoonup> real)" where
  "marks_now bd = (case pb_hwm (fst bd) of None \<Rightarrow> load_position_hwm (snd bd) | Some m \<Rightarrow> m)"

definition hwm_inv :: "book_event list \<Rightarrow> position_book \<times> (string \<rightharpoonup> real) option \<Rightarrow> bool" where
  "hwm_inv es bd \<longleftrightarrow> (\<forall>s. marks_now bd s = peak_of (map (seen s) (snapshots es))
     \<and> load_position_hwm (snd bd) s = peak_of (map (seen s) (snapshots es)))"

lemma snapshots_snoc [simp]:
  "snapshots (es @ [Cycle ps th consensus now]) = snapshots es @ [ps]" "snapshots (es @ [Fetch_Failed]) = snapshots es"
  "snapshots (es @ [Reboot]) = snapshots es"
  by (simp_all add: snapshots_def map_filter_def)

lemma ratchet_peak:
  assumes "bc_hwm_trailing cfg" "bc_hwm_persist cfg" "hwm_inv es bd"
  shows "\<exists>cur b. ratchet_high_water_marks cfg True ps bd = ((b, Some cur), Some cur) \<and> pb_hwm b = Some cur
    \<and> pb_entry_times b = pb_entry_times (fst bd) \<and> (\<forall>s. cur s = peak_of (map (seen s) (snapshots es @ [ps])))"
proof -
  let ?prev = "case pb_hwm (fst bd) of None \<Rightarrow> if bc_hwm_persist cfg then load_position_hwm (snd bd) else Map.empty | Some m \<Rightarrow> m"
  have prev: "?prev s = peak_of (map (seen s) (snapshots es))" for s
    using assms by (cases "pb_hwm (fst bd)") (simp_all add: hwm_inv_def marks_now_def)
  have pk: "peak_of (map (seen s) (snapshots es) @ [seen s ps]) =
      map_option (max (case peak_of (map (seen s) (snapshots es)) of None \<Rightarrow> 0 | Some u \<Rightarrow> u)) (seen s ps)" for s
    by (rule peak_of_snoc) (rule seen_pos)
  have "ratchet_loop ?prev ps Map.empty s = peak_of (map (seen s) (snapshots es) @ [seen s ps])" for s
    unfolding ratchet_loop_at pk prev by (cases "seen s ps") auto
  then show ?thesis using assms by (simp add: ratchet_high_water_marks_def Let_def save_position_hwm_def)
qed

lemma entry_times_keep_hwm [simp]: "pb_hwm (fst (ratchet_entry_times cfg ps th now b)) = pb_hwm b"
  by (simp add: ratchet_entry_times_def Let_def)

definition entries_used :: "book_config \<Rightarrow> held_position list \<Rightarrow> (string \<rightharpoonup> real list) \<Rightarrow> real \<Rightarrow> position_book \<Rightarrow> (string \<rightharpoonup> real)" where
  "entries_used cfg ps th now b = (case snd (ratchet_entry_times cfg ps th now b) of None \<Rightarrow> Map.empty | Some m \<Rightarrow> m)"

text \<open>The pass over a snapshot, with the highs it uses.\<close>

lemma pass_of:
  assumes "bc_hwm_trailing cfg" "bc_hwm_persist cfg" "hwm_inv es bd"
  shows "\<exists>cur. (\<forall>s. cur s = peak_of (map (seen s) (snapshots es @ [ps])))
    \<and> pb_hwm (fst (fst (run_position_stop_checks cfg True (Some ps) th consensus now bd))) = Some cur
    \<and> snd (fst (run_position_stop_checks cfg True (Some ps) th consensus now bd)) = Some cur
    \<and> snd (run_position_stop_checks cfg True (Some ps) th consensus now bd) =
      filter (\<lambda>pl. \<not> consensus_retention_veto (bc_retention cfg) (sp_tier pl) (consensus (sp_symbol pl)))
        (plan_position_stops (bc_exit cfg) ps th cur (entries_used cfg ps th now (fst bd)) now)"
proof -
  from ratchet_peak [OF assms, of ps] obtain cur b where
    r: "ratchet_high_water_marks cfg True ps bd = ((b, Some cur), Some cur)" "pb_hwm b = Some cur"
       "pb_entry_times b = pb_entry_times (fst bd)" "\<And>s. cur s = peak_of (map (seen s) (snapshots es @ [ps]))"
    by blast
  have e: "snd (ratchet_entry_times cfg ps th now b) = snd (ratchet_entry_times cfg ps th now (fst bd))"
    using r(3) by (simp add: ratchet_entry_times_def Let_def)
  show ?thesis
    by (rule exI [of _ cur]) (simp add: r(4) run_position_stop_checks_def r(1,2) entries_used_def e [symmetric] Let_def split_beta)
qed

lemma book_step_inv:
  assumes "bc_hwm_trailing cfg" "bc_hwm_persist cfg" "hwm_inv es bd"
  shows "hwm_inv (es @ [e]) (book_step cfg bd e)"
proof (cases e)
  case (Cycle ps th consensus now)
  from pass_of [OF assms, of ps th consensus now] show ?thesis
    by (auto simp: Cycle hwm_inv_def marks_now_def load_position_hwm_def)
next
  case Fetch_Failed
  with assms show ?thesis by (simp add: hwm_inv_def run_position_stop_checks_def)
next
  case Reboot
  with assms show ?thesis by (simp add: hwm_inv_def marks_now_def reboot_def)
qed

definition fresh_book :: "position_book \<times> (string \<rightharpoonup> real) option" where
  "fresh_book = (\<lparr>pb_hwm = None, pb_entry_times = None, pb_loss_exits = {}, pb_partial_exits = [], pb_prev_held = None,
     pb_vanished = [], pb_lockout = (ReentryLockout True, No_File)\<rparr>, None)"

definition book_run :: "book_config \<Rightarrow> book_event list \<Rightarrow> position_book \<times> (string \<rightharpoonup> real) option" where
  "book_run cfg es = foldl (book_step cfg) fresh_book es"

lemma book_run_inv:
  assumes "bc_hwm_trailing cfg" "bc_hwm_persist cfg"
  shows "hwm_inv es (book_run cfg es)"
proof (induction es rule: rev_induct)
  case Nil
  show ?case
    by (simp add: hwm_inv_def fresh_book_def marks_now_def load_position_hwm_def snapshots_def map_filter_simps book_run_def)
next
  case (snoc e es)
  then show ?case using book_step_inv [OF assms] by (simp add: book_run_def)
qed

section \<open>What is sold\<close>

lemma plan_at:
  assumes "p \<in> set ps" "distinct (map hp_symbol ps)" "hp_symbol p \<noteq> []" "0 < hp_qty p"
  shows "(\<exists>pl \<in> set (plan_position_stops c ps th hwm et now). sp_symbol pl = hp_symbol p \<and> Q (sp_tier pl)) \<longleftrightarrow>
    (case evaluate_position_stop c (hp_symbol p) (hp_current_price p) (hp_avg_entry_price p)
       (entry_time th et (hp_symbol p)) (hwm (hp_symbol p)) now of None \<Rightarrow> False | Some a \<Rightarrow> Q (ea_tier a))"
    (is "?L \<longleftrightarrow> ?R")
proof
  assume ?L
  then obtain pl where pl: "pl \<in> set (plan_position_stops c ps th hwm et now)" "sp_symbol pl = hp_symbol p" "Q (sp_tier pl)"
    by blast
  from pl(1) [unfolded plan_in] obtain p' a where p': "p' \<in> set ps" "evaluate_position_stop c (hp_symbol p') (hp_current_price p')
      (hp_avg_entry_price p') (entry_time th et (hp_symbol p')) (hwm (hp_symbol p')) now = Some a"
      "pl = \<lparr>sp_symbol = hp_symbol p', sp_qty = hp_qty p', sp_avg_entry_price = hp_avg_entry_price p',
          sp_current_price = hp_current_price p', sp_tier = ea_tier a, sp_grund = ea_grund a\<rparr>" by blast
  from p'(3) pl have q: "hp_symbol p' = hp_symbol p" "Q (ea_tier a)" by simp_all
  have "p' = p" using p'(1) q(1) assms(1,2) by (metis distinct_map inj_onD)
  with p'(2) q(2) show ?R by simp
next
  assume ?R
  then obtain a where a: "evaluate_position_stop c (hp_symbol p) (hp_current_price p) (hp_avg_entry_price p)
       (entry_time th et (hp_symbol p)) (hwm (hp_symbol p)) now = Some a" "Q (ea_tier a)"
    by (auto split: option.splits)
  show ?L
    by (rule bexI [where x = "\<lparr>sp_symbol = hp_symbol p, sp_qty = hp_qty p, sp_avg_entry_price = hp_avg_entry_price p,
          sp_current_price = hp_current_price p, sp_tier = ea_tier a, sp_grund = ea_grund a\<rparr>"])
      (use a assms in \<open>auto simp: plan_in\<close>)
qed

lemma risk_not_vetoed [simp]: "\<not> consensus_retention_veto thr ''risk'' v"
  by (simp add: consensus_retention_veto_def)

lemma evaluate_risk:
  assumes "0 < avg" "0 < cur" "entry = Some t" "0 < high"
    "lt_hard_stop (loss_tiers_now c) \<le> lt_escalation (loss_tiers_now c)" "- 4 \<le> lt_watch (loss_tiers_now c)"
  shows "(case evaluate_position_stop c s cur avg entry (Some high) now of None \<Rightarrow> False | Some a \<Rightarrow> ea_tier a = ''risk'') \<longleftrightarrow>
    risk_exit (loss_tiers_now c) (panic_window_now c) (trail_rule c ((cur - avg) / avg * 100)) ((cur - avg) / avg * 100)
      ((high - cur) / high * 100) (max 0 ((now - t) / 3600))"
proof -
  let ?x = "\<lparr>px_symbol = s, px_entry_price = avg, px_current_price = cur, px_high_water_mark = high,
      px_hours_held = max 0 ((now - t) / 3600), px_lstm_prediction = 0, px_news_score = 0, px_momentum_history = []\<rparr>"
  have vals: "exit_pnl_pct ?x = (cur - avg) / avg * 100" "drawdown_pct ?x = (high - cur) / high * 100"
      "px_hours_held ?x = max 0 ((now - t) / 3600)"
    using assms(1,4) by (simp_all add: exit_pnl_pct_def drawdown_pct_def)
  have "(case evaluate_position_stop c s cur avg entry (Some high) now of None \<Rightarrow> False | Some a \<Rightarrow> ea_tier a = ''risk'') \<longleftrightarrow>
      ea_should_sell (analyze_exit c ?x) \<and> ea_tier (analyze_exit c ?x) = ''risk''"
    using assms(1-4) by (simp add: evaluate_position_stop_def Let_def)
  then show ?thesis unfolding risk_exit_iff [OF assms(5,6)] vals .
qed

lemma seen_absent: "s \<notin> hp_symbol ` set ps \<Longrightarrow> seen s ps = None"
  by (induction ps) auto

lemma seen_member:
  "p \<in> set ps \<Longrightarrow> distinct (map hp_symbol ps) \<Longrightarrow> hp_symbol p \<noteq> [] \<Longrightarrow> 0 < hp_current_price p \<Longrightarrow>
    seen (hp_symbol p) ps = Some (hp_current_price p)"
proof (induction ps)
  case (Cons q ps)
  show ?case
  proof (cases "q = p")
    case True
    with Cons.prems have "seen (hp_symbol p) ps = None" by (intro seen_absent) simp
    with Cons.prems True show ?thesis by simp
  next
    case False
    with Cons show ?thesis by auto
  qed
qed simp

text \<open>
  C26: With the trailing marks and their persistence switched on, the stop pass of a cycle sells a held position for
  risk exactly when the tiers say so for its profit against the cost basis, the time since its entry, and its fall
  from the highest price of the unbroken run of snapshots that showed it with a readable price, also over restarts of
  the process; no live consensus can veto the sale. The writes of the highs succeed, the entry time is known, the
  prices and the quantity are positive, the tiers are ordered and the watch tier is not below -4 per cent.
\<close>

theorem stop_pass_exactly:
  assumes cfg: "bc_hwm_trailing cfg" "bc_hwm_persist cfg"
      "lt_hard_stop (loss_tiers_now (bc_exit cfg)) \<le> lt_escalation (loss_tiers_now (bc_exit cfg))"
      "- 4 \<le> lt_watch (loss_tiers_now (bc_exit cfg))"
    and p: "p \<in> set ps" "distinct (map hp_symbol ps)" "hp_symbol p \<noteq> []" "0 < hp_qty p" "0 < hp_avg_entry_price p"
      "0 < hp_current_price p"
    and t: "entry_time th (entries_used cfg ps th now (fst (book_run cfg es))) (hp_symbol p) = Some t"
    and high: "peak_of (map (seen (hp_symbol p)) (snapshots es @ [ps])) = Some high"
  shows "list_ex (\<lambda>pl. sp_symbol pl = hp_symbol p \<and> sp_tier pl = ''risk'')
      (snd (run_position_stop_checks cfg True (Some ps) th consensus now (book_run cfg es))) \<longleftrightarrow>
    (let pnl = (hp_current_price p - hp_avg_entry_price p) / hp_avg_entry_price p * 100
     in risk_exit (loss_tiers_now (bc_exit cfg)) (panic_window_now (bc_exit cfg)) (trail_rule (bc_exit cfg) pnl) pnl
          ((high - hp_current_price p) / high * 100) (max 0 ((now - t) / 3600)))"
proof -
  from pass_of [OF cfg(1,2) book_run_inv [OF cfg(1,2)], of es ps th consensus now]
  obtain cur where cur: "\<And>s. cur s = peak_of (map (seen s) (snapshots es @ [ps]))"
      and out: "snd (run_position_stop_checks cfg True (Some ps) th consensus now (book_run cfg es)) =
        filter (\<lambda>pl. \<not> consensus_retention_veto (bc_retention cfg) (sp_tier pl) (consensus (sp_symbol pl)))
          (plan_position_stops (bc_exit cfg) ps th cur (entries_used cfg ps th now (fst (book_run cfg es))) now)"
    by blast
  have "Some high = map_option (max (case peak_of (map (seen (hp_symbol p)) (snapshots es)) of None \<Rightarrow> 0 | Some u \<Rightarrow> u)) (seen (hp_symbol p) ps)"
    unfolding high [symmetric] map_append list.map by (rule peak_of_snoc) (rule seen_pos)
  with p(6) have "0 < high" unfolding seen_member [OF p(1-3,6)] by simp
  have "list_ex (\<lambda>pl. sp_symbol pl = hp_symbol p \<and> sp_tier pl = ''risk'')
      (snd (run_position_stop_checks cfg True (Some ps) th consensus now (book_run cfg es))) \<longleftrightarrow>
    (\<exists>pl \<in> set (plan_position_stops (bc_exit cfg) ps th cur (entries_used cfg ps th now (fst (book_run cfg es))) now).
       sp_symbol pl = hp_symbol p \<and> sp_tier pl = ''risk'')"
    unfolding out list_ex_iff by auto
  also have "\<dots> \<longleftrightarrow> (case evaluate_position_stop (bc_exit cfg) (hp_symbol p) (hp_current_price p) (hp_avg_entry_price p)
       (Some t) (Some high) now of None \<Rightarrow> False | Some a \<Rightarrow> ea_tier a = ''risk'')"
    unfolding plan_at [OF p(1-4), of "bc_exit cfg" th cur _ now "\<lambda>x. x = ''risk''"] t cur high ..
  finally show ?thesis unfolding evaluate_risk [OF p(5,6) refl \<open>0 < high\<close> cfg(3,4)] Let_def .
qed

section \<open>A stopped name is locked and its slot is held\<close>

lemma py_upper_idem [simp]: "py_upper (py_upper s) = py_upper s"
  by (rule py_upper_fixed) (use py_upper_capital in blast)

lemma norm_name_upper [simp]: "norm_name (py_upper s) = norm_name s"
  by (simp add: norm_name_def)

lemma arm_entries:
  assumes "lockout_until et_day now n = Some u" "entries_ok now (ls_entries (load_lockouts (snd sf) (fst sf)))"
    "k \<in> norm_name ` set xs" "k \<noteq> []" "et_day now < u"
  shows "k \<in> snd (arm et_day ok xs now n m stops sf)"
    "hold_ahead (ls_entries (fst (fst (arm et_day ok xs now n m stops sf)))) (et_day now) k \<longleftrightarrow>
       hold_ahead (ls_entries (load_lockouts (snd sf) (fst sf))) (et_day now) k \<or>
       k \<in> norm_name ` set stops \<and> ahead (et_day now) (lockout_until et_day now m)"
proof -
  define d where "d = ls_entries (load_lockouts (snd sf) (fst sf))"
  let ?dc = "arm_loop now (Some u) (lockout_until et_day now m) (norm_name ` set stops) xs (d, False)"
  let ?e = "evict (et_day now) (fst ?dc)"
  have ok: "entries_ok now (fst ?dc)" by (rule arm_loop_ok) (use assms(2) in \<open>simp add: d_def\<close>)
  then have dok: "dict_ok (fst ?dc)" by (simp add: entries_ok_def)
  have arm: "snd (arm et_day ok xs now n m stops sf) = fst ` {(k, e). (k, e) \<in> set ?e \<and> le_until e \<noteq> None}"
      "ls_entries (fst (fst (arm et_day ok xs now n m stops sf))) = ?e"
    by (simp_all add: arm_def Let_def assms(1) d_def)
  have "until_ahead ?e (et_day now) k"
    unfolding evict_ahead(1) [OF dok order_refl] arm_loop_ahead using assms(3-5) by simp
  then obtain e where "map_of ?e k = Some e" "ahead (et_day now) (le_until e)"
    by (auto simp: until_ahead_def split: option.splits)
  then have "(k, e) \<in> set ?e" "le_until e \<noteq> None" by (auto dest: map_of_SomeD simp: ahead_def split: option.splits)
  then show "k \<in> snd (arm et_day ok xs now n m stops sf)" unfolding arm by force
  show "hold_ahead (ls_entries (fst (fst (arm et_day ok xs now n m stops sf)))) (et_day now) k \<longleftrightarrow>
       hold_ahead (ls_entries (load_lockouts (snd sf) (fst sf))) (et_day now) k \<or>
       k \<in> norm_name ` set stops \<and> ahead (et_day now) (lockout_until et_day now m)"
    unfolding arm(2) evict_ahead(2) [OF dok order_refl] arm_loop_ahead using assms(3,4) by (auto simp: d_def)
qed

lemma pass_notes_loss:
  assumes "pl \<in> set (snd (run_position_stop_checks cfg ok fetched th consensus now bd))" "is_loss_stop pl"
  shows "py_upper (sp_symbol pl) \<in> pb_loss_exits (fst (fst (run_position_stop_checks cfg ok fetched th consensus now bd)))"
proof (cases fetched)
  case None
  with assms show ?thesis by (simp add: run_position_stop_checks_def)
next
  case (Some ps)
  obtain bd1 hwm where r: "ratchet_high_water_marks cfg ok ps bd = (bd1, hwm)" by fastforce
  obtain b2 et where e: "ratchet_entry_times cfg ps th now (fst bd1) = (b2, et)" by fastforce
  from assms show ?thesis unfolding run_position_stop_checks_def Some option.case r e Let_def prod.case by simp
qed

lemma ratchets_keep:
  "pb_lockout (fst (fst (ratchet_high_water_marks cfg ok ps bd))) = pb_lockout (fst bd)"
  "pb_partial_exits (fst (fst (ratchet_high_water_marks cfg ok ps bd))) = pb_partial_exits (fst bd)"
  "pb_lockout (fst (ratchet_entry_times cfg ps th now b)) = pb_lockout b"
  "pb_partial_exits (fst (ratchet_entry_times cfg ps th now b)) = pb_partial_exits b"
  by (simp_all add: ratchet_high_water_marks_def ratchet_entry_times_def Let_def)

lemma pass_keeps:
  "pb_lockout (fst (fst (run_position_stop_checks cfg ok fetched th consensus now bd))) = pb_lockout (fst bd)"
  "pb_partial_exits (fst (fst (run_position_stop_checks cfg ok fetched th consensus now bd))) = pb_partial_exits (fst bd)"
proof -
  have "pb_lockout (fst (fst (run_position_stop_checks cfg ok fetched th consensus now bd))) = pb_lockout (fst bd)
      \<and> pb_partial_exits (fst (fst (run_position_stop_checks cfg ok fetched th consensus now bd))) = pb_partial_exits (fst bd)"
  proof (cases fetched)
    case (Some ps)
    obtain bd1 hwm where r: "ratchet_high_water_marks cfg ok ps bd = (bd1, hwm)" by fastforce
    obtain b2 et where e: "ratchet_entry_times cfg ps th now (fst bd1) = (b2, et)" by fastforce
    show ?thesis unfolding run_position_stop_checks_def Some option.case r e Let_def prod.case
      using ratchets_keep(1,2) [of cfg ok ps bd] ratchets_keep(3,4) [of cfg ps th now "fst bd1"] by (simp add: r e)
  qed (simp add: run_position_stop_checks_def)
  then show "pb_lockout (fst (fst (run_position_stop_checks cfg ok fetched th consensus now bd))) = pb_lockout (fst bd)"
    "pb_partial_exits (fst (fst (run_position_stop_checks cfg ok fetched th consensus now bd))) = pb_partial_exits (fst bd)"
    by simp_all
qed

text \<open>
  A name that the stop pass sold at a loss is locked for new purchases in the same cycle, and its slot is
  held from other names on that day, whatever the file of the lockouts did: unless the cycle also sold a part
  of it only.
\<close>

theorem stopped_name_is_locked:
  assumes "pass = run_position_stop_checks cfg ok fetched th consensus now bd"
    and "pl \<in> set (snd pass)" "is_loss_stop pl" "sp_symbol pl \<noteq> []" "norm_name (sp_symbol pl) \<noteq> []"
    and "py_upper (sp_symbol pl) \<notin> set (map py_upper (pb_partial_exits (fst bd)))"
    and "0 < bc_lockout_days cfg" "0 < bc_hold_days cfg" "sp_symbol pl \<in> set just_exited"
    and "entries_ok now (ls_entries (load_lockouts (snd (pb_lockout (fst bd))) (fst (pb_lockout (fst bd)))))"
  shows "norm_name (sp_symbol pl) \<in> snd (stopout_reentry_locked cfg et_day ok' just_exited now (fst (fst pass)))
    \<and> hold_ahead (ls_entries (fst (pb_lockout (fst (stopout_reentry_locked cfg et_day ok' just_exited now (fst (fst pass)))))))
        (et_day now) (norm_name (sp_symbol pl))"
proof -
  define b where "b = fst (fst pass)"
  have b: "pb_lockout b = pb_lockout (fst bd)" "pb_partial_exits b = pb_partial_exits (fst bd)"
      "py_upper (sp_symbol pl) \<in> pb_loss_exits b"
    using pass_notes_loss assms(2,3) pass_keeps unfolding b_def assms(1) by auto
  define full where "full = filter (\<lambda>s. s \<notin> set (map py_upper (pb_partial_exits b)))
      (map py_upper (filter (\<lambda>s. s \<noteq> []) just_exited) @ pb_vanished b)"
  define stops where "stops = filter (\<lambda>s. s \<in> pb_loss_exits b) full"
  have mem: "py_upper (sp_symbol pl) \<in> set full" using assms(4,6,9) b(2) by (auto simp: full_def)
  then have ms: "py_upper (sp_symbol pl) \<in> set stops" using b(3) by (simp add: stops_def)
  have k: "norm_name (sp_symbol pl) \<in> norm_name ` set full" "norm_name (sp_symbol pl) \<in> norm_name ` set stops"
    using mem ms norm_name_upper image_iff by metis+
  have until: "lockout_until et_day now n = Some (lockout_loop (et_day now) n)" "et_day now < lockout_loop (et_day now) n" if "0 < n" for n
    using that lockout_loop_count [of n "et_day now"] by (simp_all add: lockout_until_def)
  have ok: "entries_ok now (ls_entries (load_lockouts (snd (pb_lockout b)) (fst (pb_lockout b))))" using assms(10) b(1) by simp
  note arm = arm_entries [OF until(1) [OF assms(7)] ok k(1) assms(5) until(2) [OF assms(7)]]
  have on: "\<not> (bc_lockout_days cfg \<le> 0 \<and> bc_hold_days cfg \<le> 0)" using assms(7) by simp
  have "full \<noteq> []" using mem by auto
  then have st: "snd (stopout_reentry_locked cfg et_day ok' just_exited now b) =
        snd (arm et_day ok' full now (bc_lockout_days cfg) (bc_hold_days cfg) stops (pb_lockout b))"
      "pb_lockout (fst (stopout_reentry_locked cfg et_day ok' just_exited now b)) =
        fst (arm et_day ok' full now (bc_lockout_days cfg) (bc_hold_days cfg) stops (pb_lockout b))"
    unfolding stopout_reentry_locked_def Let_def split_beta if_not_P [OF on] full_def [symmetric] stops_def [symmetric]
    by simp_all
  show ?thesis
    unfolding b_def [symmetric] st using arm until [OF assms(8)] k(2) by simp
qed

section \<open>Concrete books\<close>

definition toy_book_config :: book_config where
  "toy_book_config = \<lparr>bc_hwm_trailing = True, bc_hwm_persist = True, bc_entry_reconcile = False, bc_lockout_days = 1,
     bc_hold_days = 3, bc_retention = 0, bc_exit = shipped\<rparr>"

definition ab :: "real \<Rightarrow> held_position" where
  "ab price = \<lparr>hp_symbol = ''AB'', hp_qty = 7, hp_avg_entry_price = 100, hp_current_price = price\<rparr>"

definition ab_cycle :: "real \<Rightarrow> book_event" where
  "ab_cycle price = Cycle [ab price] [''AB'' \<mapsto> [0]] (\<lambda>_. None) 0"

text \<open>
  One cycle in which the price of a held position cannot be read makes the book forget its high: after 120
  and 110 with such a cycle between them the high is 110, and the fall from 120 is not measured.
\<close>

theorem unreadable_price_forgets_peak:
  "marks_now (book_run toy_book_config [ab_cycle 120, ab_cycle 0, ab_cycle 110]) ''AB'' = Some 110
   \<and> marks_now (book_run toy_book_config [ab_cycle 120, ab_cycle 110]) ''AB'' = Some 120"
proof -
  have inv: "hwm_inv es (book_run toy_book_config es)" for es
    by (rule book_run_inv) (simp_all add: toy_book_config_def)
  then have at: "marks_now (book_run toy_book_config es) ''AB'' = peak_of (map (seen ''AB'') (snapshots es))" for es
    by (simp add: hwm_inv_def)
  show ?thesis unfolding at
    by (simp add: snapshots_def map_filter_simps ab_cycle_def ab_def peak_of_def)
qed

theorem stop_pass_exactly_witness:
  "list_ex (\<lambda>pl. sp_symbol pl = hp_symbol (ab 105) \<and> sp_tier pl = ''risk'')
     (snd (run_position_stop_checks toy_book_config True (Some [ab 105]) [''AB'' \<mapsto> [0]] (\<lambda>_. Some 1) 360000
        (book_run toy_book_config [ab_cycle 120, Reboot])))"
proof -
  have e: "entry_time [''AB'' \<mapsto> [0]] (entries_used toy_book_config [ab 105] [''AB'' \<mapsto> [0]] 360000
      (fst (book_run toy_book_config [ab_cycle 120, Reboot]))) (hp_symbol (ab 105)) = Some 0"
    by (simp add: entry_time_def entries_used_def ratchet_entry_times_def toy_book_config_def ab_def)
  have high: "peak_of (map (seen (hp_symbol (ab 105))) (snapshots [ab_cycle 120, Reboot] @ [[ab 105]])) = Some 120"
    by (simp add: snapshots_def map_filter_simps ab_cycle_def ab_def peak_of_def)
  show ?thesis
    by (rule stop_pass_exactly [THEN iffD2, OF _ _ _ _ _ _ _ _ _ _ e high])
      (simp_all add: toy_book_config_def loss_tiers_now_def LossTiers_def ab_def risk_exit_def panic_window_now_def PanicWindow_def trail_rule_eq shipped_def)
qed

definition ab_pass :: "(position_book \<times> (string \<rightharpoonup> real) option) \<times> stop_plan list" where
  "ab_pass = run_position_stop_checks toy_book_config True (Some [ab 90]) [''AB'' \<mapsto> [0]] (\<lambda>_. None) 0 fresh_book"

definition ab_plan :: stop_plan where
  "ab_plan = \<lparr>sp_symbol = ''AB'', sp_qty = 7, sp_avg_entry_price = 100, sp_current_price = 90, sp_tier = ''risk'',
     sp_grund = Some \<lparr>vg_klasse = ''hard_stop'', vg_werte = map (\<lambda>(k, v). (k, py_round 2 v))
       [(''verlust_pct'', - 10), (''stufe'', - 8), (''haltedauer_h'', 0)], vg_zeitpunkt = Some 0\<rparr>\<rparr>"

lemma ab_plan_in: "ab_plan \<in> set (snd ab_pass)"
  by (simp add: ab_pass_def ab_plan_def run_position_stop_checks_def ratchet_high_water_marks_def ratchet_entry_times_def
      toy_book_config_def fresh_book_def load_position_hwm_def ab_def evaluate_position_stop_def entry_time_def Let_def
      analyze_exit_def exit_pnl_pct_def no_exit_def sell_def grund_def panic_window_now_def PanicWindow_def shipped_def
      loss_tiers_now_def LossTiers_def)

theorem stopped_name_is_locked_witness:
  "''AB'' \<in> snd (stopout_reentry_locked toy_book_config plain_day True [''AB''] 0 (fst (fst ab_pass)))
    \<and> hold_ahead (ls_entries (fst (pb_lockout (fst (stopout_reentry_locked toy_book_config plain_day True [''AB''] 0 (fst (fst ab_pass)))))))
        (plain_day 0) ''AB''"
proof -
  have s: "sp_symbol ab_plan = ''AB''" "is_loss_stop ab_plan" by (simp_all add: ab_plan_def is_loss_stop_def)
  show ?thesis
    by (rule stopped_name_is_locked [OF ab_pass_def ab_plan_in s(2), unfolded s(1) toy_names])
      (simp_all add: fresh_book_def toy_book_config_def load_lockouts_def ReentryLockout_def entries_ok_def Let_def)
qed

end
