(* ===== verification/Broker_Stops.thy ===== *)
theory Broker_Stops
  imports Idempotency
begin

text \<open>
  The stops that lie at the broker: the planner (\<open>core/broker_stops.py\<close>), its execution with confirmed
  cancellations and free keys, and the release of pieces before a sale
  (\<open>core/engine/broker_stop_pflege.py\<close>).

  An order of the broker has the fields the code reads; what cannot be read is 0 or empty. Quantities and
  prices are real numbers. The broker's answers are arguments. A date is its text.
\<close>

section \<open>Orders and positions of the broker\<close>

record broker_order =
  bo_id :: string
  bo_symbol :: string
  bo_qty :: real
  bo_stop_price :: real
  bo_tif :: string
  bo_client_id :: string
  bo_buy :: bool

record broker_position =
  bp_symbol :: string
  bp_qty :: real
  bp_qty_available :: "real option"
  bp_avg_entry_price :: real

definition MIN_BROKER_QTY :: real where "MIN_BROKER_QTY = 0.001"

definition EPSILON :: real where "EPSILON = 1 / 1000000"

datatype leg = Whole | Fraction

record stop_order =
  so_symbol :: string
  so_qty :: real
  so_stop_price :: real
  so_tif :: string
  so_leg :: leg
  so_decision_id :: string
  so_client_order_id :: string

datatype unprotected_reason = No_Cost_Basis | Below_Minimum | Price_Not_Positive | No_Leg

record stop_plan_result =
  sr_to_place :: "stop_order list"
  sr_to_cancel :: "string list"
  sr_unprotected :: "(string \<times> unprotected_reason) list"

text \<open>\<open>^stop-\d+-stop-\<close>: the key of a stop this code has placed.\<close>

definition ist_eigener_stop :: "broker_order \<Rightarrow> bool" where
  "ist_eigener_stop x =
     (startswith (bo_client_id x) ''stop-'' \<and>
      (let r = drop 5 (bo_client_id x)
       in takeWhile ist_ziffer r \<noteq> [] \<and> startswith (dropWhile ist_ziffer r) ''-stop-''))"

definition own_bound :: "string \<Rightarrow> broker_order list \<Rightarrow> real" where
  "own_bound s xs = sum_list (map (\<lambda>x. \<bar>bo_qty x\<bar>) (filter (\<lambda>x. bo_symbol x = s \<and> ist_eigener_stop x) xs))"

text \<open>\<open>_menge\<close>: the quantity to protect.\<close>

definition schutz_menge :: "broker_position \<Rightarrow> broker_order list \<Rightarrow> real" where
  "schutz_menge p xs =
     (case bp_qty_available p of
        None \<Rightarrow> \<bar>bp_qty p\<bar>
      | Some free \<Rightarrow>
          let total = \<bar>bp_qty p\<bar>; m = \<bar>free\<bar> + own_bound (bp_symbol p) xs
          in if 0 < total then min m total else m)"

definition stop_preis :: "real \<Rightarrow> real \<Rightarrow> real" where
  "stop_preis avg stop_loss_pct = py_round 2 (avg * (1 - \<bar>stop_loss_pct\<bar> / 100))"

definition stop_decision_id :: "string \<Rightarrow> leg \<Rightarrow> string option \<Rightarrow> string" where
  "stop_decision_id symbol l session =
     (case l of Whole \<Rightarrow> ''stop-'' @ symbol
      | Fraction \<Rightarrow> ''stop-'' @ symbol @ ''-'' @ (case session of None \<Rightarrow> ''day'' | Some d \<Rightarrow> d))"

text \<open>\<open>derive_client_order_id(decision_id, "stop", n)\<close>, which raises nothing here.\<close>

definition stop_key :: "(string \<Rightarrow> string) \<Rightarrow> string \<Rightarrow> nat \<Rightarrow> string" where
  "stop_key h decision_id n = (case derive_client_order_id h decision_id ''stop'' (int n) of Inr k \<Rightarrow> k | Inl e \<Rightarrow> [])"

definition leg_tif :: "leg \<Rightarrow> string" where
  "leg_tif l = (case l of Whole \<Rightarrow> ''gtc'' | Fraction \<Rightarrow> ''day'')"

definition bauen :: "(string \<Rightarrow> string) \<Rightarrow> string \<Rightarrow> real \<Rightarrow> real \<Rightarrow> leg \<Rightarrow> string option \<Rightarrow> stop_order" where
  "bauen h symbol qty preis l session =
     (let d = stop_decision_id symbol l session
      in \<lparr>so_symbol = symbol, so_qty = qty, so_stop_price = preis, so_tif = leg_tif l, so_leg = l, so_decision_id = d,
          so_client_order_id = stop_key h d 0\<rparr>)"

text \<open>\<open>_passt\<close>, with the time in force in lower case as \<open>_zeitgeltung\<close> reads it.\<close>

definition passt :: "broker_order \<Rightarrow> stop_order \<Rightarrow> bool" where
  "passt v s =
     (bo_symbol v = so_symbol s \<and> py_lower (bo_tif v) = so_tif s \<and> \<bar>bo_qty v - so_qty s\<bar> \<le> EPSILON \<and>
      \<bar>bo_stop_price v - so_stop_price s\<bar> \<le> 0.005)"

section \<open>The plan\<close>

text \<open>One position: the stops that shall lie, or why none can.\<close>

definition gewuenscht ::
  "(string \<Rightarrow> string) \<Rightarrow> real \<Rightarrow> broker_order list \<Rightarrow> string option \<Rightarrow> broker_position \<Rightarrow> unprotected_reason + stop_order list" where
  "gewuenscht h stop_loss_pct existing session p =
     (let qty = schutz_menge p existing; avg = bp_avg_entry_price p; preis = stop_preis avg stop_loss_pct;
          ganze = real_of_int \<lfloor>qty\<rfloor>; rest = py_round 9 (qty - ganze);
          legs = (if 1 \<le> ganze then [bauen h (bp_symbol p) ganze preis Whole session] else []) @
                 (if MIN_BROKER_QTY \<le> rest then [bauen h (bp_symbol p) rest preis Fraction session] else [])
      in if avg \<le> 0 then Inl No_Cost_Basis
         else if qty < MIN_BROKER_QTY then Inl Below_Minimum
         else if preis \<le> 0 then Inl Price_Not_Positive
         else if legs = [] then Inl No_Leg
         else Inr legs)"

text \<open>The day stops of an earlier session do not cover.\<close>

definition vorhanden :: "broker_order list \<Rightarrow> string option \<Rightarrow> string option \<Rightarrow> broker_order list" where
  "vorhanden existing session existing_session =
     (case (existing_session, session) of
        (Some a, Some b) \<Rightarrow> if a \<noteq> b then filter (\<lambda>x. py_lower (bo_tif x) \<noteq> ''day'') existing else existing
      | _ \<Rightarrow> existing)"

definition all_wanted ::
  "(string \<Rightarrow> string) \<Rightarrow> real \<Rightarrow> broker_order list \<Rightarrow> string option \<Rightarrow> broker_position list \<Rightarrow> stop_order list" where
  "all_wanted h pct existing session ps =
     concat (map (\<lambda>p. case gewuenscht h pct existing session p of Inl _ \<Rightarrow> [] | Inr ss \<Rightarrow> ss)
       (filter (\<lambda>p. bp_symbol p \<noteq> []) ps))"

definition unprotected_of ::
  "(string \<Rightarrow> string) \<Rightarrow> real \<Rightarrow> broker_order list \<Rightarrow> string option \<Rightarrow> broker_position list \<Rightarrow> (string \<times> unprotected_reason) list" where
  "unprotected_of h pct existing session ps =
     concat (map (\<lambda>p. case gewuenscht h pct existing session p of Inl r \<Rightarrow> [(bp_symbol p, r)] | Inr _ \<Rightarrow> [])
       (filter (\<lambda>p. bp_symbol p \<noteq> []) ps))"

definition plan_broker_stops ::
  "(string \<Rightarrow> string) \<Rightarrow> broker_position list \<Rightarrow> real \<Rightarrow> broker_order list \<Rightarrow> string option \<Rightarrow> string option \<Rightarrow> stop_plan_result" where
  "plan_broker_stops h ps stop_loss_pct existing session existing_session =
     (let alle = all_wanted h stop_loss_pct existing session ps;
          da = vorhanden existing session existing_session;
          gebraucht = filter (\<lambda>s. s \<noteq> []) (map bp_symbol ps)
      in \<lparr>sr_to_place = filter (\<lambda>s. \<not> list_ex (\<lambda>v. passt v s) da) alle,
          sr_to_cancel = map bo_id (filter (\<lambda>v. bo_id v \<noteq> [] \<and>
            (bo_symbol v \<notin> set gebraucht \<or>
             list_ex (\<lambda>s. so_symbol s = bo_symbol v) alle \<and>
             \<not> list_ex (\<lambda>s. so_symbol s = bo_symbol v \<and> passt v s) alle)) existing),
          sr_unprotected = unprotected_of h stop_loss_pct existing session ps\<rparr>)"

section \<open>What the plan protects\<close>

lemma own_bound_nonneg: "0 \<le> own_bound s xs"
  unfolding own_bound_def by (rule sum_list_nonneg) auto

lemma schutz_menge_nonneg: "0 \<le> schutz_menge p xs"
  using own_bound_nonneg [of "bp_symbol p" xs] by (auto simp: schutz_menge_def Let_def split: option.split)

lemma menge_le: "0 < bp_qty p \<Longrightarrow> schutz_menge p xs \<le> bp_qty p"
  by (auto simp: schutz_menge_def Let_def split: option.split)

lemma on_grid_floor [simp]: "on_grid n (real_of_int \<lfloor>x\<rfloor>)"
proof -
  have "real_of_int \<lfloor>x\<rfloor> = of_int (\<lfloor>x\<rfloor> * 10 ^ n) / 10 ^ n" by simp
  then show ?thesis by (metis on_grid_of_int)
qed

lemma bauen_sel [simp]:
  "so_qty (bauen h s q pr l d) = q" "so_symbol (bauen h s q pr l d) = s" "so_stop_price (bauen h s q pr l d) = pr"
  "so_tif (bauen h s q pr l d) = leg_tif l" "so_leg (bauen h s q pr l d) = l"
  by (simp_all add: bauen_def Let_def)

lemma gewuenscht_cases:
  assumes "gewuenscht h pct xs session p = Inr ss"
  obtains "0 < bp_avg_entry_price p" "MIN_BROKER_QTY \<le> schutz_menge p xs" "0 < stop_preis (bp_avg_entry_price p) pct"
    "ss = (if 1 \<le> real_of_int \<lfloor>schutz_menge p xs\<rfloor>
        then [bauen h (bp_symbol p) (real_of_int \<lfloor>schutz_menge p xs\<rfloor>) (stop_preis (bp_avg_entry_price p) pct) Whole session] else []) @
      (if MIN_BROKER_QTY \<le> py_round 9 (schutz_menge p xs - real_of_int \<lfloor>schutz_menge p xs\<rfloor>)
        then [bauen h (bp_symbol p) (py_round 9 (schutz_menge p xs - real_of_int \<lfloor>schutz_menge p xs\<rfloor>)) (stop_preis (bp_avg_entry_price p) pct) Fraction session] else [])"
  using assms that unfolding gewuenscht_def Let_def by (metis linorder_not_le sum.distinct(1) sum.inject(2))

lemma wanted_sum:
  assumes "gewuenscht h pct xs session p = Inr ss" "on_grid 9 (schutz_menge p xs)"
  shows "sum_list (map so_qty ss) \<le> schutz_menge p xs" "schutz_menge p xs - sum_list (map so_qty ss) < MIN_BROKER_QTY"
proof -
  let ?m = "schutz_menge p xs"
  have r: "py_round 9 (?m - real_of_int \<lfloor>?m\<rfloor>) = ?m - real_of_int \<lfloor>?m\<rfloor>"
    using assms(2) by (intro py_round_on_grid on_grid_diff on_grid_floor)
  have fl: "0 \<le> ?m - real_of_int \<lfloor>?m\<rfloor>" "0 \<le> real_of_int \<lfloor>?m\<rfloor>" using schutz_menge_nonneg [of p xs] by simp_all
  have "sum_list (map so_qty ss) \<le> ?m \<and> ?m - sum_list (map so_qty ss) < MIN_BROKER_QTY"
    using assms(1)
  proof (rule gewuenscht_cases)
    assume m: "MIN_BROKER_QTY \<le> ?m" and ss: "ss = (if 1 \<le> real_of_int \<lfloor>?m\<rfloor>
        then [bauen h (bp_symbol p) (real_of_int \<lfloor>?m\<rfloor>) (stop_preis (bp_avg_entry_price p) pct) Whole session] else []) @
      (if MIN_BROKER_QTY \<le> py_round 9 (?m - real_of_int \<lfloor>?m\<rfloor>)
        then [bauen h (bp_symbol p) (py_round 9 (?m - real_of_int \<lfloor>?m\<rfloor>)) (stop_preis (bp_avg_entry_price p) pct) Fraction session] else [])"
    have whole: "real_of_int \<lfloor>?m\<rfloor> = 0" if "\<not> 1 \<le> real_of_int \<lfloor>?m\<rfloor>" using that fl(2) by (simp add: floor_eq_iff)
    show ?thesis unfolding ss r using fl whole
      by (cases "1 \<le> real_of_int \<lfloor>?m\<rfloor>"; cases "MIN_BROKER_QTY \<le> ?m - real_of_int \<lfloor>?m\<rfloor>") (simp_all add: MIN_BROKER_QTY_def)
  qed
  then show "sum_list (map so_qty ss) \<le> schutz_menge p xs" "schutz_menge p xs - sum_list (map so_qty ss) < MIN_BROKER_QTY" by simp_all
qed

lemma wanted_in_all:
  assumes "p \<in> set ps" "bp_symbol p \<noteq> []" "gewuenscht h pct xs session p = Inr ss"
  shows "set ss \<subseteq> set (all_wanted h pct xs session ps)"
proof
  fix s assume "s \<in> set ss"
  then have "\<exists>q \<in> set ps. bp_symbol q \<noteq> [] \<and> s \<in> set (case gewuenscht h pct xs session q of Inl r \<Rightarrow> [] | Inr ss \<Rightarrow> ss)"
    using assms by (intro bexI [of _ p]) simp_all
  then show "s \<in> set (all_wanted h pct xs session ps)" unfolding all_wanted_def by fastforce
qed

lemma passt_symbol: "passt v s \<Longrightarrow> bo_symbol v = so_symbol s"
  by (simp add: passt_def)

lemma matching_is_kept:
  assumes "distinct (map bo_id xs)" "v \<in> set xs" "passt v s" "s \<in> set (all_wanted h pct xs session ps)"
    "so_symbol s \<in> set (filter (\<lambda>s. s \<noteq> []) (map bp_symbol ps))"
  shows "bo_id v \<notin> set (sr_to_cancel (plan_broker_stops h ps pct xs session es))"
proof
  assume "bo_id v \<in> set (sr_to_cancel (plan_broker_stops h ps pct xs session es))"
  then obtain w where w: "w \<in> set xs" "bo_id w = bo_id v"
      "bo_symbol w \<notin> set (filter (\<lambda>s. s \<noteq> []) (map bp_symbol ps)) \<or>
       \<not> list_ex (\<lambda>s. so_symbol s = bo_symbol w \<and> passt w s) (all_wanted h pct xs session ps)"
    unfolding plan_broker_stops_def Let_def stop_plan_result.simps by auto
  have "w = v" using w(1,2) assms(1,2) by (metis distinct_map inj_onD)
  with w(3) assms(3-5) passt_symbol [OF assms(3)] show False by (auto simp: list_ex_iff)
qed

lemma vorhanden_subset: "set (vorhanden xs a b) \<subseteq> set xs"
  by (auto simp: vorhanden_def split: option.split)

text \<open>
  C22: Every held position has its protection in the plan, or stands in its list of the unprotected. The stops
  of a position never sell more than is held, and leave less than the smallest order of the broker of its
  protectable quantity uncovered: the pieces that are free, plus those its own recognised stops bind, at most the
  position. Where these are the whole position (or the broker reports no free pieces), less than the
  smallest order of the position itself is uncovered; pieces bound by orders that are not recognised as own stops
  are not counted. Each of the stops is placed, or lies already and is not cancelled by the same plan. The
  quantity has at most nine decimals and the orders have different ids.
\<close>

theorem plan_protects:
  assumes "p \<in> set ps" "bp_symbol p \<noteq> []" "0 < bp_qty p" "on_grid 9 (schutz_menge p existing)" "distinct (map bo_id existing)"
    "bp_symbol p \<notin> fst ` set (sr_unprotected (plan_broker_stops h ps pct existing session es))"
  shows "\<exists>ss. gewuenscht h pct existing session p = Inr ss \<and> sum_list (map so_qty ss) \<le> bp_qty p
    \<and> schutz_menge p existing - sum_list (map so_qty ss) < MIN_BROKER_QTY
    \<and> (if case bp_qty_available p of None \<Rightarrow> True | Some free \<Rightarrow> bp_qty p \<le> \<bar>free\<bar> + own_bound (bp_symbol p) existing
        then bp_qty p - sum_list (map so_qty ss) < MIN_BROKER_QTY else True)
    \<and> list_all (\<lambda>s. so_symbol s = bp_symbol p \<and> (s \<in> set (sr_to_place (plan_broker_stops h ps pct existing session es)) \<or>
        list_ex (\<lambda>v. passt v s \<and> bo_id v \<notin> set (sr_to_cancel (plan_broker_stops h ps pct existing session es))) existing)) ss"
proof -
  obtain ss where ss: "gewuenscht h pct existing session p = Inr ss"
  proof (cases "gewuenscht h pct existing session p")
    case (Inl r)
    have "(bp_symbol p, r) \<in> set (unprotected_of h pct existing session ps)"
      unfolding unprotected_of_def using assms(1,2) Inl by (auto intro!: bexI [of _ p])
    with assms(6) show ?thesis by (force simp: plan_broker_stops_def Let_def)
  qed blast
  have sym: "so_symbol s = bp_symbol p" if "s \<in> set ss" for s
    using ss that by (elim gewuenscht_cases) (auto split: if_splits)
  have "s \<in> set (sr_to_place (plan_broker_stops h ps pct existing session es)) \<or>
      list_ex (\<lambda>v. passt v s \<and> bo_id v \<notin> set (sr_to_cancel (plan_broker_stops h ps pct existing session es))) existing"
    if s: "s \<in> set ss" for s
  proof (cases "list_ex (\<lambda>v. passt v s) (vorhanden existing session es)")
    case False
    then have "s \<in> set (sr_to_place (plan_broker_stops h ps pct existing session es))"
      using wanted_in_all [OF assms(1,2) ss] s by (auto simp: plan_broker_stops_def Let_def)
    then show ?thesis ..
  next
    case True
    then obtain v where v: "v \<in> set existing" "passt v s"
      using vorhanden_subset [of existing session es] by (auto simp: list_ex_iff)
    have "bo_id v \<notin> set (sr_to_cancel (plan_broker_stops h ps pct existing session es))"
      by (rule matching_is_kept [OF assms(5) v]) (use wanted_in_all [OF assms(1,2) ss] s sym [OF s] assms(1,2) in auto)
    with v show ?thesis by (auto simp: list_ex_iff)
  qed
  moreover have "sum_list (map so_qty ss) \<le> bp_qty p" using wanted_sum(1) [OF ss assms(4)] menge_le [OF assms(3), of existing] by simp
  moreover have "schutz_menge p existing = bp_qty p"
    if "case bp_qty_available p of None \<Rightarrow> True | Some free \<Rightarrow> bp_qty p \<le> \<bar>free\<bar> + own_bound (bp_symbol p) existing"
    using that assms(3) by (auto simp: schutz_menge_def Let_def split: option.splits)
  ultimately show ?thesis using wanted_sum(2) [OF ss assms(4)] sym by (auto simp: ss list_all_iff)
qed

section \<open>A carried out plan is stable\<close>

text \<open>The broker after the plan: the cancelled orders are gone, the placed ones lie, and what lies binds its
  pieces.\<close>

definition bound :: "string \<Rightarrow> broker_order list \<Rightarrow> real" where
  "bound s xs = sum_list (map (\<lambda>x. \<bar>bo_qty x\<bar>) (filter (\<lambda>x. bo_symbol x = s) xs))"

definition at_broker :: "(stop_order \<Rightarrow> string) \<Rightarrow> stop_order \<Rightarrow> broker_order" where
  "at_broker ids s = \<lparr>bo_id = ids s, bo_symbol = so_symbol s, bo_qty = so_qty s, bo_stop_price = so_stop_price s,
     bo_tif = so_tif s, bo_client_id = so_client_order_id s, bo_buy = False\<rparr>"

definition carried_out :: "(stop_order \<Rightarrow> string) \<Rightarrow> stop_plan_result \<Rightarrow> broker_order list \<Rightarrow> broker_order list" where
  "carried_out ids r xs =
     filter (\<lambda>v. bo_id v \<notin> set (sr_to_cancel r)) xs @ map (at_broker ids) (sr_to_place r)"

definition free_at :: "broker_order list \<Rightarrow> broker_position \<Rightarrow> broker_position" where
  "free_at xs p = p\<lparr>bp_qty_available := Some (bp_qty p - bound (bp_symbol p) xs)\<rparr>"

lemma free_at_sel [simp]: "bp_symbol (free_at xs p) = bp_symbol p" "bp_qty (free_at xs p) = bp_qty p"
    "bp_avg_entry_price (free_at xs p) = bp_avg_entry_price p"
  by (simp_all add: free_at_def)

lemma own_bound_eq: "\<forall>x \<in> set xs. ist_eigener_stop x \<Longrightarrow> own_bound s xs = bound s xs"
  unfolding own_bound_def bound_def by (metis (mono_tags, lifting) filter_cong)

lemma menge_free_at:
  assumes "\<forall>x \<in> set xs. ist_eigener_stop x" "0 < bp_qty p" "bound (bp_symbol p) xs \<le> bp_qty p"
  shows "schutz_menge (free_at xs p) xs = bp_qty p"
  using assms(2,3) own_bound_eq [OF assms(1)] by (simp add: schutz_menge_def free_at_def Let_def)

lemma gewuenscht_same:
  assumes "schutz_menge p xs = schutz_menge q ys" "bp_symbol p = bp_symbol q" "bp_avg_entry_price p = bp_avg_entry_price q"
  shows "gewuenscht h pct xs session p = gewuenscht h pct ys session q"
  using assms by (simp add: gewuenscht_def Let_def)

lemma all_wanted_same:
  assumes "\<forall>p \<in> set ps. schutz_menge (free_at xs p) xs = schutz_menge (free_at ys p) ys"
  shows "all_wanted h pct xs session (map (free_at xs) ps) = all_wanted h pct ys session (map (free_at ys) ps)"
proof -
  have "filter (\<lambda>p. bp_symbol p \<noteq> []) (map (free_at zs) ps) = map (free_at zs) (filter (\<lambda>p. bp_symbol p \<noteq> []) ps)" for zs
    by (induction ps) simp_all
  moreover have "gewuenscht h pct xs session (free_at xs p) = gewuenscht h pct ys session (free_at ys p)" if "p \<in> set ps" for p
    using assms that by (intro gewuenscht_same) simp_all
  ultimately show ?thesis by (auto simp: all_wanted_def intro!: arg_cong [where f = concat])
qed

text \<open>Keys of symbols without special characters are recognised as own.\<close>

definition plain_text :: "string \<Rightarrow> bool" where
  "plain_text s \<longleftrightarrow> list_all sicher s \<and> length s \<le> 50"

lemma unsafe_sub_plain: "list_all sicher s \<Longrightarrow> unsafe_sub s = s"
  by (induction s) (simp_all add: unsafe_sub_def)

lemma takeWhile_dez: "takeWhile ist_ziffer (dez n @ CHR ''-'' # r) = dez n" "dropWhile ist_ziffer (dez n @ CHR ''-'' # r) = CHR ''-'' # r"
  using takeWhile_hyphen [of "dez n" ist_ziffer "CHR ''-''" r] dez_ziffern by auto

lemma dez_0: "dez 0 = ''0''"
  by code_simp

lemma stop_key_plain:
  assumes "unsafe_sub d = d" "d \<noteq> []" "length d \<le> 110"
  shows "stop_key h d 0 = ''stop-0-'' @ d"
  using assms by (simp add: stop_key_def derive_client_order_id_def Let_def legs_def woertlich_def praefix_def
      max_client_order_id_len_def dez_0)

lemma own_key:
  assumes "bo_client_id x = ''stop-0-'' @ ''stop-'' @ r"
  shows "ist_eigener_stop x"
  by (simp add: ist_eigener_stop_def assms startswith_def ist_ziffer_def Let_def)

lemma plain_decision:
  assumes "plain_text s" "\<forall>t. session = Some t \<longrightarrow> plain_text t"
  shows "\<exists>r. stop_key h (stop_decision_id s l session) 0 = ''stop-0-'' @ ''stop-'' @ r"
proof -
  have safe: "list_all sicher (''stop-'' @ s)" "list_all sicher (''stop-'' @ s @ ''-'' @ (case session of None \<Rightarrow> ''day'' | Some t \<Rightarrow> t))"
    using assms by (auto simp: plain_text_def sicher_def split: option.split)
  have len: "length (stop_decision_id s l session) \<le> 110"
    using assms by (auto simp: plain_text_def stop_decision_id_def split: leg.split option.split)
  have u: "unsafe_sub (stop_decision_id s l session) = stop_decision_id s l session"
    using safe by (cases l) (simp_all add: stop_decision_id_def unsafe_sub_plain del: list_all_append append.append_Cons)
  have "\<exists>r. stop_decision_id s l session = ''stop-'' @ r"
    by (cases l) (simp_all add: stop_decision_id_def)
  then obtain r where r: "stop_decision_id s l session = ''stop-'' @ r" ..
  have "stop_key h (stop_decision_id s l session) 0 = ''stop-0-'' @ stop_decision_id s l session"
    by (rule stop_key_plain [OF u _ len]) (simp add: r)
  then show ?thesis unfolding r by (intro exI)
qed

lemma wanted_symbol:
  assumes "s \<in> set (all_wanted h pct xs session ps)"
  obtains p where "p \<in> set ps" "bp_symbol p \<noteq> []" "so_symbol s = bp_symbol p"
    "s = bauen h (bp_symbol p) (so_qty s) (so_stop_price s) (so_leg s) session"
proof -
  from assms obtain p where p: "p \<in> set ps" "bp_symbol p \<noteq> []"
      "s \<in> set (case gewuenscht h pct xs session p of Inl r \<Rightarrow> [] | Inr ss \<Rightarrow> ss)" by (auto simp: all_wanted_def)
  then obtain ss where ss: "gewuenscht h pct xs session p = Inr ss" "s \<in> set ss" by (cases "gewuenscht h pct xs session p") auto
  from ss(1) show ?thesis
    by (rule gewuenscht_cases) (use ss(2) p that in \<open>auto split: if_splits\<close>)
qed

lemma passt_self: "so_tif s = leg_tif l \<Longrightarrow> passt (at_broker ids s) s"
  by (cases l) (simp_all add: passt_def at_broker_def leg_tif_def py_lower_def is_upper_def EPSILON_def)

lemma wanted_tif: "s \<in> set (all_wanted h pct xs session ps) \<Longrightarrow> \<exists>l. so_tif s = leg_tif l"
  by (elim wanted_symbol) (metis bauen_sel(4))

text \<open>The cancellation test of the plan, and what it says of the orders that stay.\<close>

definition to_go :: "stop_order list \<Rightarrow> string list \<Rightarrow> broker_order \<Rightarrow> bool" where
  "to_go alle needed v \<longleftrightarrow> bo_id v \<noteq> [] \<and> (bo_symbol v \<notin> set needed \<or>
     list_ex (\<lambda>s. so_symbol s = bo_symbol v) alle \<and> \<not> list_ex (\<lambda>s. so_symbol s = bo_symbol v \<and> passt v s) alle)"

lemma plan_eq:
  "plan_broker_stops h ps pct xs session es =
     \<lparr>sr_to_place = filter (\<lambda>s. \<not> list_ex (\<lambda>v. passt v s) (vorhanden xs session es)) (all_wanted h pct xs session ps),
      sr_to_cancel = map bo_id (filter (to_go (all_wanted h pct xs session ps) (filter (\<lambda>s. s \<noteq> []) (map bp_symbol ps))) xs),
      sr_unprotected = unprotected_of h pct xs session ps\<rparr>"
  unfolding plan_broker_stops_def to_go_def Let_def ..

lemma map_free_symbols [simp]: "map bp_symbol (map (free_at xs) ps) = map bp_symbol ps"
  by simp

text \<open>
  A plan that was carried out is stable: planned again in the same session over what then lies at the
  broker, nothing is placed and nothing is cancelled, so no position loses its stop to a needless
  replacement. All orders that lie are stops of this code, symbols and the session have plain texts, and the
  broker binds no more pieces than are held.
\<close>

theorem carried_out_plan_is_stable:
  assumes own: "\<forall>x \<in> set xs. ist_eigener_stop x"
    and plain: "\<forall>p \<in> set ps. plain_text (bp_symbol p)" "\<forall>t. session = Some t \<longrightarrow> plain_text t"
    and held: "\<forall>p \<in> set ps. 0 < bp_qty p \<and> bound (bp_symbol p) xs \<le> bp_qty p \<and> bound (bp_symbol p) ys \<le> bp_qty p"
    and ids: "distinct (map bo_id xs)"
    and ys: "ys = carried_out ids (plan_broker_stops h (map (free_at xs) ps) pct xs session session) xs"
  shows "sr_to_place (plan_broker_stops h (map (free_at ys) ps) pct ys session session) = []
    \<and> sr_to_cancel (plan_broker_stops h (map (free_at ys) ps) pct ys session session) = []"
proof -
  let ?alle = "all_wanted h pct xs session (map (free_at xs) ps)"
  let ?need = "filter (\<lambda>s. s \<noteq> []) (map bp_symbol ps)"
  have da: "vorhanden zs session session = zs" for zs by (simp add: vorhanden_def split: option.split)
  define r where "r = plan_broker_stops h (map (free_at xs) ps) pct xs session session"
  have place: "sr_to_place r = filter (\<lambda>s. \<not> list_ex (\<lambda>v. passt v s) xs) ?alle"
    and cancel: "sr_to_cancel r = map bo_id (filter (to_go ?alle ?need) xs)"
    unfolding r_def plan_eq da map_free_symbols by simp_all
  have ys': "ys = filter (\<lambda>v. bo_id v \<notin> set (sr_to_cancel r)) xs @ map (at_broker ids) (sr_to_place r)"
    by (simp add: ys carried_out_def r_def)
  have own': "\<forall>x \<in> set ys. ist_eigener_stop x"
  proof
    fix x assume "x \<in> set ys"
    then consider "x \<in> set xs" | s where "s \<in> set ?alle" "x = at_broker ids s" by (auto simp: ys' place)
    then show "ist_eigener_stop x"
    proof cases
      case 2
      from 2(1) obtain p where p: "p \<in> set (map (free_at xs) ps)" "s = bauen h (bp_symbol p) (so_qty s) (so_stop_price s) (so_leg s) session"
        by (rule wanted_symbol)
      from p(1) plain(1) have "plain_text (bp_symbol p)" by auto
      from plain_decision [OF this plain(2)] obtain q where
        "stop_key h (stop_decision_id (bp_symbol p) (so_leg s) session) 0 = ''stop-0-'' @ ''stop-'' @ q" by blast
      then have "so_client_order_id s = ''stop-0-'' @ ''stop-'' @ q" by (subst p(2)) (simp add: bauen_def Let_def)
      then show ?thesis by (intro own_key [of x q]) (simp add: 2(2) at_broker_def)
    qed (use own in blast)
  qed
  have same: "all_wanted h pct ys session (map (free_at ys) ps) = ?alle"
    by (rule all_wanted_same [symmetric]) (use menge_free_at [OF own] menge_free_at [OF own'] held in auto)
  have covered: "list_ex (\<lambda>v. passt v s) ys" if s: "s \<in> set ?alle" for s
  proof (cases "list_ex (\<lambda>v. passt v s) xs")
    case True
    then obtain v where v: "v \<in> set xs" "passt v s" by (auto simp: list_ex_iff)
    from s obtain p where "p \<in> set ps" "bp_symbol p \<noteq> []" "so_symbol s = bp_symbol p" by (rule wanted_symbol) auto
    then have "bo_id v \<notin> set (sr_to_cancel r)" unfolding r_def
      by (intro matching_is_kept [OF ids v s]) auto
    with v show ?thesis by (auto simp: ys' list_ex_iff)
  next
    case False
    with s have "at_broker ids s \<in> set ys" by (auto simp: ys' place)
    moreover have "passt (at_broker ids s) s" using wanted_tif [OF s] passt_self by blast
    ultimately show ?thesis by (auto simp: list_ex_iff)
  qed
  have stays: "\<not> to_go ?alle ?need v" if "v \<in> set ys" for v
  proof -
    from that consider "v \<in> set xs" "bo_id v \<notin> set (sr_to_cancel r)" | s where "s \<in> set ?alle" "v = at_broker ids s"
      by (auto simp: ys' place)
    then show ?thesis
    proof cases
      case 1
      then show ?thesis by (auto simp: cancel)
    next
      case 2
      from 2(1) obtain p where p: "p \<in> set ps" "bp_symbol p \<noteq> []" "so_symbol s = bp_symbol p" by (rule wanted_symbol) auto
      have "passt v s" using wanted_tif [OF 2(1)] passt_self 2(2) by blast
      with 2 p show ?thesis by (auto simp: to_go_def list_ex_iff at_broker_def)
    qed
  qed
  have place': "sr_to_place (plan_broker_stops h (map (free_at ys) ps) pct ys session session) = []"
    unfolding plan_eq same da stop_plan_result.simps using covered by (simp add: filter_empty_conv)
  have cancel': "sr_to_cancel (plan_broker_stops h (map (free_at ys) ps) pct ys session session) = []"
    unfolding plan_eq same map_free_symbols stop_plan_result.simps using stays by (simp add: filter_empty_conv)
  show ?thesis using place' cancel' ..
qed

section \<open>Where the plan takes protection away\<close>

text \<open>The share classes have a dot in their symbol. Their key is a digest, which the pattern does not know.\<close>

definition brk :: string where "brk = ''BRK.B''"

lemma brk_key: "stop_key h (''stop-'' @ brk) 0 = ''stop-0-_'' @ digest h (''stop-'' @ brk)"
  by (simp add: stop_key_def derive_client_order_id_def Let_def legs_def woertlich_def praefix_def dez_0 brk_def
      unsafe_sub_def sicher_def ist_ziffer_def)

definition brk_stop :: "(string \<Rightarrow> string) \<Rightarrow> broker_order" where
  "brk_stop h = \<lparr>bo_id = ''s1'', bo_symbol = brk, bo_qty = 10, bo_stop_price = 92, bo_tif = ''gtc'',
     bo_client_id = stop_key h (stop_decision_id brk Whole None) 0, bo_buy = False\<rparr>"

lemma brk_not_own: "\<not> ist_eigener_stop (brk_stop h)"
proof -
  have "bo_client_id (brk_stop h) = ''stop-0-_'' @ digest h (''stop-'' @ brk)"
    by (simp only: brk_stop_def broker_order.simps stop_decision_id_def leg.case brk_key)
  then show ?thesis by (simp add: ist_eigener_stop_def startswith_def ist_ziffer_def Let_def)
qed

definition brk_position :: broker_position where
  "brk_position = \<lparr>bp_symbol = brk, bp_qty = 10.5, bp_qty_available = Some 0.5, bp_avg_entry_price = 100\<rparr>"

lemma round_9_half: "py_round 9 (1 / 2) = 1 / 2"
proof (rule py_round_on_grid)
  show "on_grid 9 (1 / 2)" using on_grid_of_int [of 9 "500000000"] by simp
qed

lemma round_2_92: "py_round 2 92 = 92"
proof (rule py_round_on_grid)
  show "on_grid 2 92" using on_grid_of_int [of 2 "9200"] by simp
qed

text \<open>
  The stop this code has laid for the ten whole pieces is not counted as its own, so on the morning after the
  day stop has expired the plan sees half a piece, cancels the stop of the ten and places one for the half.
\<close>

theorem dotted_symbol_loses_stop:
  "sr_to_cancel (plan_broker_stops h [brk_position] 8 [brk_stop h] (Some ''2026-10-01'') (Some ''2026-09-30'')) = [''s1'']
   \<and> map so_qty (sr_to_place (plan_broker_stops h [brk_position] 8 [brk_stop h] (Some ''2026-10-01'') (Some ''2026-09-30''))) = [1 / 2]"
proof -
  have n: "bp_symbol brk_position = brk" "brk \<noteq> []" and f: "bp_avg_entry_price brk_position = 100"
    by (simp_all add: brk_position_def brk_def)
  have m: "schutz_menge brk_position [brk_stop h] = 1 / 2"
    using brk_not_own [of h] by (simp add: schutz_menge_def brk_position_def own_bound_def)
  have w: "gewuenscht h 8 [brk_stop h] s brk_position = Inr [bauen h brk (1 / 2) 92 Fraction s]" for s
    by (simp add: gewuenscht_def m n f Let_def stop_preis_def round_2_92 round_9_half MIN_BROKER_QTY_def)
  have lo: "py_lower ''gtc'' = ''gtc''" by (simp add: py_lower_def is_upper_def Let_def)
  have b: "bo_id (brk_stop h) = ''s1''" "bo_symbol (brk_stop h) = brk" "bo_qty (brk_stop h) = 10" "bo_tif (brk_stop h) = ''gtc''"
    by (simp_all add: brk_stop_def)
  show ?thesis
    by (simp add: plan_eq all_wanted_def w to_go_def vorhanden_def n passt_def b lo leg_tif_def)
qed

text \<open>
  The plan looks at every order with a stop price, not at its side or its key: a stop to buy that somebody laid
  by hand for a name that is not held is cancelled.
\<close>

theorem stop_to_buy_is_cancelled:
  "sr_to_cancel (plan_broker_stops h [] 8 [\<lparr>bo_id = ''b1'', bo_symbol = ''NEW'', bo_qty = 5, bo_stop_price = 30,
     bo_tif = ''gtc'', bo_client_id = ''by-hand'', bo_buy = True\<rparr>] session es) = [''b1'']"
  by (simp add: plan_broker_stops_def Let_def)

section \<open>A concrete position\<close>

definition abc_position :: broker_position where
  "abc_position = \<lparr>bp_symbol = ''ABC'', bp_qty = 10.5, bp_qty_available = Some 10.5, bp_avg_entry_price = 100\<rparr>"

lemma abc_menge: "schutz_menge abc_position [] = 21 / 2" "schutz_menge (free_at [] abc_position) [] = 21 / 2"
  by (simp_all add: schutz_menge_def abc_position_def own_bound_def free_at_def bound_def)

lemma abc_wanted:
  assumes "schutz_menge p [] = 21 / 2" "bp_symbol p = ''ABC''" "bp_avg_entry_price p = 100"
  shows "gewuenscht h 8 [] s p = Inr [bauen h ''ABC'' 10 92 Whole s, bauen h ''ABC'' (1 / 2) 92 Fraction s]"
proof -
  have fl: "\<lfloor>21 / 2 :: real\<rfloor> = 10" by (simp add: floor_eq_iff)
  show ?thesis
    unfolding gewuenscht_def assms fl Let_def by (simp add: stop_preis_def round_2_92 round_9_half MIN_BROKER_QTY_def)
qed

theorem plan_protects_witness:
  "\<exists>ss. gewuenscht bsp_hash 8 [] None abc_position = Inr ss \<and> sum_list (map so_qty ss) \<le> bp_qty abc_position
    \<and> bp_qty abc_position - sum_list (map so_qty ss) < MIN_BROKER_QTY
    \<and> list_all (\<lambda>s. s \<in> set (sr_to_place (plan_broker_stops bsp_hash [abc_position] 8 [] None None))) ss"
proof -
  have g: "on_grid 9 (schutz_menge abc_position [])" using on_grid_of_int [of 9 "10500000000"] by (simp add: abc_menge)
  have "gewuenscht bsp_hash 8 [] None abc_position = Inr [bauen bsp_hash ''ABC'' 10 92 Whole None, bauen bsp_hash ''ABC'' (1 / 2) 92 Fraction None]"
    by (rule abc_wanted [OF abc_menge(1)]) (simp_all add: abc_position_def)
  then have u: "bp_symbol abc_position \<notin> fst ` set (sr_unprotected (plan_broker_stops bsp_hash [abc_position] 8 [] None None))"
    by (simp add: plan_eq unprotected_of_def abc_position_def)
  have p: "abc_position \<in> set [abc_position]" "bp_symbol abc_position \<noteq> []" "0 < bp_qty abc_position" "distinct (map bo_id [])"
    by (simp_all add: abc_position_def)
  have whole: "case bp_qty_available abc_position of None \<Rightarrow> True
      | Some free \<Rightarrow> bp_qty abc_position \<le> \<bar>free\<bar> + own_bound (bp_symbol abc_position) []"
    by (simp add: abc_position_def own_bound_def)
  from plan_protects [OF p(1-3) g p(4) u] show ?thesis unfolding if_P [OF whole] by (auto simp: list_all_iff)
qed

definition abc_after :: "(string \<Rightarrow> string) \<Rightarrow> broker_order list" where
  "abc_after h = carried_out so_client_order_id (plan_broker_stops h (map (free_at []) [abc_position]) 8 [] None None) []"

lemma abc_bound: "bound ''ABC'' (abc_after h) = 21 / 2"
proof -
  have w: "gewuenscht h 8 [] None (free_at [] abc_position) = Inr [bauen h ''ABC'' 10 92 Whole None, bauen h ''ABC'' (1 / 2) 92 Fraction None]"
    by (rule abc_wanted [OF abc_menge(2)]) (simp_all add: abc_position_def)
  show ?thesis
    by (simp add: bound_def abc_after_def carried_out_def plan_eq all_wanted_def w at_broker_def vorhanden_def
        abc_position_def [THEN arg_cong [where f = bp_symbol]])
qed

theorem carried_out_plan_is_stable_witness:
  "sr_to_place (plan_broker_stops bsp_hash (map (free_at (abc_after bsp_hash)) [abc_position]) 8 (abc_after bsp_hash) None None) = []
    \<and> sr_to_cancel (plan_broker_stops bsp_hash (map (free_at (abc_after bsp_hash)) [abc_position]) 8 (abc_after bsp_hash) None None) = []"
  by (rule carried_out_plan_is_stable [OF _ _ _ _ _ abc_after_def])
    (simp_all add: abc_position_def plain_text_def sicher_def ist_ziffer_def bound_def [of _ "[]"] abc_bound)

end
