(* ===== verification/Stop_Execution.thy ===== *)
theory Stop_Execution
  imports Broker_Stops Gateway
begin

text \<open>
  The execution of the plan of the broker stops (\<open>core/engine/broker_stop_pflege.py\<close>): waiting for
  cancellations, the search for a free key, laying a stop, and the release of pieces before a sale.

  What the broker answers is an argument: the statuses it reports round after round until the deadline, the
  order that lies under a key, the result of a submission, and the position list read afterwards. Free texts
  of a reason are left out.
\<close>

section \<open>Waiting for cancellations\<close>

definition OFFEN :: "string list" where
  "OFFEN = [''new'', ''accepted'', ''pending_new'', ''accepted_for_bidding'', ''held'', ''partially_filled'', ''pending_replace'']"

definition STORNO_ENDE :: "string list" where
  "STORNO_ENDE = [''canceled'', ''expired'', ''rejected'', ''replaced'', ''done_for_day'']"

definition FREI_ENDE :: "string list" where
  "FREI_ENDE = STORNO_ENDE @ [''filled'']"

text \<open>\<open>_warte_auf_stornos\<close>: each round reads the status of every order that is still open; a read that fails
  leaves it open. The rounds end with the deadline.\<close>

fun warte_auf_stornos :: "string list \<Rightarrow> (string \<Rightarrow> string option) list \<Rightarrow> string list \<Rightarrow> string list" where
  "warte_auf_stornos ende [] offen = []"
| "warte_auf_stornos ende (r # rs) offen =
     (let fertig = (\<lambda>i. case r i of None \<Rightarrow> False | Some st \<Rightarrow> st \<in> set ende)
      in filter fertig offen @ warte_auf_stornos ende rs (filter (\<lambda>i. \<not> fertig i) offen))"

section \<open>The search for a free key\<close>

definition MAX_ABFRAGEN :: nat where "MAX_ABFRAGEN = 64"

definition MAX_RUNDEN :: nat where "MAX_RUNDEN = 3"

text \<open>The order under a key: none (404), one with its status, or an error. The counter stops the search.\<close>

datatype abfrage = Frei | Belegt string | Fehler

definition frage :: "(nat \<Rightarrow> abfrage) \<Rightarrow> nat \<Rightarrow> nat \<Rightarrow> abfrage" where
  "frage q z v = (if MAX_ABFRAGEN < Suc z then Fehler else q v)"

lemma frage_belegt: "frage q z v \<noteq> Fehler \<Longrightarrow> z < MAX_ABFRAGEN"
  by (simp add: frage_def split: if_splits)

text \<open>The galloping loop: the last taken and the first free position, and the queries made.\<close>

function galopp :: "(nat \<Rightarrow> abfrage) \<Rightarrow> nat \<Rightarrow> nat \<Rightarrow> nat \<Rightarrow> (nat \<times> nat \<times> nat) option" where
  "galopp q z lo schritt =
     (case frage q z (lo + schritt) of
        Fehler \<Rightarrow> None
      | Frei \<Rightarrow> Some (Suc z, lo, lo + schritt)
      | Belegt st \<Rightarrow> galopp q (Suc z) (lo + schritt) (schritt * 2))"
  by pat_completeness auto
termination
  by (relation "measure (\<lambda>(q, z, lo, schritt). MAX_ABFRAGEN - z)") (auto simp: frage_def split: if_splits)

declare galopp.simps [simp del]

function halbiere :: "(nat \<Rightarrow> abfrage) \<Rightarrow> nat \<Rightarrow> nat \<Rightarrow> nat \<Rightarrow> (nat \<times> nat) option" where
  "halbiere q z lo hi =
     (if hi - lo \<le> 1 then Some (z, hi)
      else (case frage q z ((lo + hi) div 2) of
              Fehler \<Rightarrow> None
            | Belegt st \<Rightarrow> halbiere q (Suc z) ((lo + hi) div 2) hi
            | Frei \<Rightarrow> halbiere q (Suc z) lo ((lo + hi) div 2)))"
  by pat_completeness auto
termination
  by (relation "measure (\<lambda>(q, z, lo, hi). MAX_ABFRAGEN - z)") (auto simp: frage_def split: if_splits)

declare halbiere.simps [simp del]

definition erster_freier :: "(nat \<Rightarrow> abfrage) \<Rightarrow> nat \<Rightarrow> nat \<Rightarrow> (nat \<times> nat) option" where
  "erster_freier q z vergeben =
     (case galopp q z vergeben 1 of None \<Rightarrow> None | Some (z1, lo, hi) \<Rightarrow> halbiere q z1 lo hi)"

section \<open>Laying a stop\<close>

datatype sende_antwort = Gesendet | Duplikat | Abgelehnt

text \<open>\<open>_sende\<close>: the intent that goes through the gate.\<close>

definition sende_intent :: "stop_order \<Rightarrow> bool \<Rightarrow> order_intent" where
  "sende_intent s halted =
     \<lparr>oi_decision_id = so_decision_id s, oi_symbol = so_symbol s, oi_side = Sell, oi_qty = so_qty s, oi_kind = Stop,
      oi_protective = True, oi_exit_kind = Some ExitRisk, oi_halted = halted, oi_limit_price = None,
      oi_stop_price = Some (so_stop_price s), oi_gtc = (so_tif s = ''gtc''), oi_verkaufsgrund = None\<rparr>"

text \<open>How \<open>_lege\<close> ends: laid under a key, an open order already under it, refused, no free key, no round left.\<close>

datatype lege_ende = Gelegt nat | Liegt_Schon nat | Broker_Lehnt_Ab | Kein_Freier | Keine_Runde_Mehr

fun lege_runden :: "(nat \<Rightarrow> nat \<Rightarrow> sende_antwort) \<Rightarrow> (nat \<Rightarrow> nat \<Rightarrow> abfrage) \<Rightarrow> nat \<Rightarrow> nat \<Rightarrow> nat \<Rightarrow> lege_ende" where
  "lege_runden send q 0 z versuch = Keine_Runde_Mehr"
| "lege_runden send q (Suc n) z versuch =
     (case send n versuch of
        Gesendet \<Rightarrow> Gelegt versuch
      | Abgelehnt \<Rightarrow> Broker_Lehnt_Ab
      | Duplikat \<Rightarrow>
          (case frage (q n) z versuch of
             Fehler \<Rightarrow> Kein_Freier
           | a \<Rightarrow>
               if (case a of Belegt st \<Rightarrow> st \<in> set OFFEN | _ \<Rightarrow> False) then Liegt_Schon versuch
               else (case erster_freier (q n) (Suc z) versuch of
                       None \<Rightarrow> Kein_Freier
                     | Some (z1, v1) \<Rightarrow> lege_runden send q n z1 v1)))"

definition lege :: "(nat \<Rightarrow> nat \<Rightarrow> sende_antwort) \<Rightarrow> (nat \<Rightarrow> nat \<Rightarrow> abfrage) \<Rightarrow> lege_ende" where
  "lege send q = lege_runden send q MAX_RUNDEN 0 0"

definition liegt :: "lege_ende \<Rightarrow> bool" where
  "liegt e = (case e of Gelegt _ \<Rightarrow> True | Liegt_Schon _ \<Rightarrow> True | _ \<Rightarrow> False)"

section \<open>The whole plan\<close>

text \<open>\<open>fuehre_plan_aus\<close>: the symbols of unconfirmed cancellations wait; the answer is the stops that do not lie.
  An order id that the list does not know has the empty symbol.\<close>

definition fuehre_plan_aus ::
  "stop_plan_result \<Rightarrow> broker_order list \<Rightarrow> (string \<Rightarrow> string option) list \<Rightarrow> (stop_order \<Rightarrow> lege_ende)
     \<Rightarrow> (stop_order \<times> lege_ende) list \<times> string list" where
  "fuehre_plan_aus plan liegende reads legen =
     (let bestaetigt = warte_auf_stornos STORNO_ENDE reads (sr_to_cancel plan);
          symbol_je = map_of (rev (map (\<lambda>x. (bo_id x, bo_symbol x)) liegende));
          wartend = map (\<lambda>i. case symbol_je i of None \<Rightarrow> [] | Some s \<Rightarrow> s)
                      (filter (\<lambda>i. i \<notin> set bestaetigt) (sr_to_cancel plan));
          versucht = map (\<lambda>s. (s, legen s)) (filter (\<lambda>s. so_symbol s \<notin> set wartend) (sr_to_place plan))
      in (versucht,
          map so_symbol (filter (\<lambda>s. so_symbol s \<in> set wartend \<or> \<not> liegt (legen s)) (sr_to_place plan))))"

text \<open>\<open>_maintain_broker_stops\<close>: no stop is touched while the setting is off, the broker is missing, or the
  orders that lie cannot be read. Only orders with a stop price are given to the plan.\<close>

definition maintain_broker_stops ::
  "(string \<Rightarrow> string) \<Rightarrow> bool \<Rightarrow> broker_position list option \<Rightarrow> (broker_order \<times> bool) list option \<Rightarrow> real \<Rightarrow> string
     \<Rightarrow> string option \<Rightarrow> (string \<Rightarrow> string option) list \<Rightarrow> (stop_order \<Rightarrow> lege_ende)
     \<Rightarrow> string option \<times> (stop_plan_result \<times> (stop_order \<times> lege_ende) list \<times> string list) option" where
  "maintain_broker_stops h enabled positions orders stop_loss_pct heute session reads legen =
     (case (enabled, positions, orders) of
        (True, Some ps, Some os) \<Rightarrow>
          (let liegende = map fst (filter snd os);
               plan = plan_broker_stops h ps stop_loss_pct liegende (Some heute) session;
               r = fuehre_plan_aus plan liegende reads legen
           in (Some heute, Some (plan, fst r, map fst (sr_unprotected plan) @ snd r)))
      | _ \<Rightarrow> (session, None))"

section \<open>The release of pieces before a sale\<close>

record freigabe =
  fg_menge :: real
  fg_grund :: bool
  fg_storniert :: "string list"

text \<open>\<open>_bestand_frei\<close>: the free pieces of the first position of the symbol.\<close>

definition bestand_frei :: "string \<Rightarrow> broker_position list \<Rightarrow> real" where
  "bestand_frei symbol ps =
     (case find (\<lambda>p. bp_symbol p = symbol) ps of
        None \<Rightarrow> 0
      | Some p \<Rightarrow> \<bar>case bp_qty_available p of None \<Rightarrow> bp_qty p | Some f \<Rightarrow> f\<bar>)"

text \<open>\<open>gib_stuecke_frei\<close>: what is free, and the orders whose cancellation was asked for.\<close>

definition gib_stuecke_frei ::
  "broker_order list option \<Rightarrow> (string \<Rightarrow> string option) list \<Rightarrow> broker_position list option \<Rightarrow> string \<Rightarrow> real
     \<Rightarrow> freigabe \<times> string list" where
  "gib_stuecke_frei offene reads bestand symbol qty =
     (case offene of
        None \<Rightarrow> (\<lparr>fg_menge = qty, fg_grund = False, fg_storniert = []\<rparr>, [])
      | Some xs \<Rightarrow>
          let auf = filter (\<lambda>x. bo_symbol x = symbol) xs;
              ids = map bo_id (filter ist_eigener_stop auf);
              frei_ids = warte_auf_stornos FREI_ENDE reads ids
          in if auf = [] then (\<lparr>fg_menge = qty, fg_grund = False, fg_storniert = []\<rparr>, [])
             else if \<not> set ids \<subseteq> set frei_ids then (\<lparr>fg_menge = 0, fg_grund = True, fg_storniert = frei_ids\<rparr>, ids)
             else (case bestand of
                     None \<Rightarrow> (\<lparr>fg_menge = 0, fg_grund = True, fg_storniert = ids\<rparr>, ids)
                   | Some ps \<Rightarrow>
                       let v = min \<bar>qty\<bar> (bestand_frei symbol ps)
                       in if v < MIN_BROKER_QTY then (\<lparr>fg_menge = 0, fg_grund = True, fg_storniert = ids\<rparr>, ids)
                          else if v < \<bar>qty\<bar> - EPSILON then (\<lparr>fg_menge = v, fg_grund = True, fg_storniert = ids\<rparr>, ids)
                          else (\<lparr>fg_menge = v, fg_grund = False, fg_storniert = ids\<rparr>, ids)))"

text \<open>\<open>gib_verkauf_frei\<close>: the intent and the request that go out, \<open>None\<close> for \<open>StueckeNichtFrei\<close>. The
  request with another quantity is the caller's form, or none.\<close>

definition gib_verkauf_frei ::
  "bool \<Rightarrow> (auftrag \<Rightarrow> real \<Rightarrow> auftrag option) \<Rightarrow> (string \<Rightarrow> real \<Rightarrow> freigabe) \<Rightarrow> order_intent \<Rightarrow> auftrag
     \<Rightarrow> (order_intent \<times> auftrag) option" where
  "gib_verkauf_frei dry_run mit_menge frei i request =
     (if oi_halted i \<and> \<not> freigestellt i \<or> dry_run then Some (i, request)
      else (let f = frei (oi_symbol i) (oi_qty i)
            in if fg_menge f \<le> 0 then None
               else if \<not> fg_grund f then Some (i, request)
               else (case mit_menge request (fg_menge f) of
                       None \<Rightarrow> None
                     | Some neu \<Rightarrow> Some (i\<lparr>oi_qty := fg_menge f\<rparr>, neu))))"

section \<open>The search finds the first free key\<close>

text \<open>The keys taken at the broker are those up to k, without a gap.\<close>

definition taken_upto :: "(nat \<Rightarrow> abfrage) \<Rightarrow> nat \<Rightarrow> bool" where
  "taken_upto q k \<longleftrightarrow> (\<forall>v. if v \<le> k then \<exists>st. q v = Belegt st else q v = Frei)"

lemma taken_uptoD: "taken_upto q k \<Longrightarrow> v \<le> k \<Longrightarrow> \<exists>st. q v = Belegt st" "taken_upto q k \<Longrightarrow> k < v \<Longrightarrow> q v = Frei"
  unfolding taken_upto_def by (metis, metis linorder_not_le)

lemma frage_ok: "z < MAX_ABFRAGEN \<Longrightarrow> frage q z v = q v"
  by (simp add: frage_def)

lemma galopp_finds:
  assumes "taken_upto q k"
  shows "lo \<le> k \<Longrightarrow> 0 < schritt \<Longrightarrow> k - lo < schritt * (2 ^ Suc n - 1) \<Longrightarrow> z + n < MAX_ABFRAGEN \<Longrightarrow>
    \<exists>i lo' hi. i \<le> n \<and> galopp q z lo schritt = Some (z + i + 1, lo', hi) \<and> lo' \<le> k \<and> k < hi \<and> hi - lo' \<le> schritt * 2 ^ i"
proof (induction n arbitrary: z lo schritt)
  case 0
  then have "frage q z (lo + schritt) = Frei" using taken_uptoD(2) [OF assms] frage_ok by (simp add: Suc_le_eq)
  moreover have "k < lo + schritt" using 0 by simp
  ultimately show ?case using 0 by (subst galopp.simps) simp
next
  case (Suc n)
  have fr: "frage q z (lo + schritt) = q (lo + schritt)" using Suc.prems(4) by (simp add: frage_ok)
  show ?case
  proof (cases "lo + schritt \<le> k")
    case False
    then have "galopp q z lo schritt = Some (Suc z, lo, lo + schritt)"
      using taken_uptoD(2) [OF assms, of "lo + schritt"] fr by (subst galopp.simps) simp
    then show ?thesis using False Suc.prems by (intro exI [of _ 0] exI [of _ lo] exI [of _ "lo + schritt"]) simp
  next
    case True
    from taken_uptoD(1) [OF assms True] obtain st where "q (lo + schritt) = Belegt st" ..
    then have step: "galopp q z lo schritt = galopp q (Suc z) (lo + schritt) (schritt * 2)"
      using fr by (subst galopp.simps) simp
    have "(2 :: nat) ^ Suc (Suc n) - 1 = Suc (2 * (2 ^ Suc n - 1))" 
    proof -
      obtain w where "(2 :: nat) ^ n = Suc w" by (cases "(2 :: nat) ^ n") simp_all
      then show ?thesis by simp
    qed
    then have "schritt * (2 ^ Suc (Suc n) - 1) = schritt + schritt * 2 * (2 ^ Suc n - 1)" by simp
    then have "k - (lo + schritt) < schritt * 2 * (2 ^ Suc n - 1)" using Suc.prems(3) True by linarith
    from Suc.IH [OF True _ this, of "Suc z"] Suc.prems(2,4) obtain i lo' hi where
      "i \<le> n" "galopp q (Suc z) (lo + schritt) (schritt * 2) = Some (Suc z + i + 1, lo', hi)" "lo' \<le> k" "k < hi"
      "hi - lo' \<le> schritt * 2 * 2 ^ i" by auto
    then show ?thesis unfolding step by (intro exI [of _ "Suc i"] exI [of _ lo'] exI [of _ hi]) (simp add: algebra_simps)
  qed
qed

lemma halbiere_finds:
  assumes "taken_upto q k"
  shows "lo \<le> k \<Longrightarrow> k < hi \<Longrightarrow> hi - lo \<le> 2 ^ n \<Longrightarrow> z + n \<le> MAX_ABFRAGEN \<Longrightarrow>
    \<exists>z'. z' \<le> z + n \<and> halbiere q z lo hi = Some (z', k + 1)"
proof (induction n arbitrary: z lo hi)
  case 0
  then show ?case by (subst halbiere.simps) simp
next
  case (Suc n)
  show ?case
  proof (cases "hi - lo \<le> 1")
    case True
    with Suc.prems show ?thesis by (subst halbiere.simps) simp
  next
    case False
    let ?m = "(lo + hi) div 2"
    have fr: "frage q z ?m = q ?m" using Suc.prems(4) by (simp add: frage_ok)
    have w: "?m - lo \<le> 2 ^ n" "hi - ?m \<le> 2 ^ n" using Suc.prems(3) by auto
    show ?thesis
    proof (cases "?m \<le> k")
      case True
      then obtain st where "q ?m = Belegt st" using taken_uptoD(1) [OF assms] by blast
      then have step: "halbiere q z lo hi = halbiere q (Suc z) ?m hi" using False fr by (subst halbiere.simps) simp
      show ?thesis unfolding step using Suc.IH [OF True Suc.prems(2) w(2), of "Suc z"] Suc.prems(4) by auto
    next
      case nk: False
      then have "q ?m = Frei" using taken_uptoD(2) [OF assms] by simp
      then have step: "halbiere q z lo hi = halbiere q (Suc z) lo ?m" using False fr by (subst halbiere.simps) simp
      show ?thesis unfolding step using Suc.IH [OF Suc.prems(1) _ w(1), of "Suc z"] nk Suc.prems(4) by auto
    qed
  qed
qed

lemma erster_freier_finds:
  assumes "taken_upto q k" "v \<le> k" "k - v < 2 ^ Suc n - 1" "z + 2 * n < MAX_ABFRAGEN"
  shows "\<exists>z'. z' \<le> z + 2 * n + 1 \<and> erster_freier q z v = Some (z', k + 1)"
proof -
  have "\<exists>i lo' hi. i \<le> n \<and> galopp q z v 1 = Some (z + i + 1, lo', hi) \<and> lo' \<le> k \<and> k < hi \<and> hi - lo' \<le> 1 * 2 ^ i"
    by (rule galopp_finds [OF assms(1,2)]) (use assms(3,4) in simp_all)
  then obtain i lo hi where g: "i \<le> n" "galopp q z v 1 = Some (z + i + 1, lo, hi)" "lo \<le> k" "k < hi" "hi - lo \<le> 2 ^ i" by auto
  from halbiere_finds [OF assms(1) g(3,4,5), of "z + i + 1"] g(1) assms(4)
  obtain z' where "z' \<le> z + i + 1 + i" "halbiere q (z + i + 1) lo hi = Some (z', k + 1)" by auto
  then show ?thesis using g(1,2) by (simp add: erster_freier_def)
qed

text \<open>
  The galloping search returns the first free key with at most 64 queries in all, however often a stop was
  replaced up to \<open>2^31\<close> times: it agrees with the search that tries one key after the other.
\<close>

theorem key_search_is_enough:
  assumes "taken_upto q k" "k \<le> 2 ^ 31"
  shows "map_option snd (erster_freier q 1 0) = Some (LEAST v. q v = Frei)"
proof -
  have "(LEAST v. q v = Frei) = k + 1"
  proof (rule Least_equality)
    show "q (k + 1) = Frei" using taken_uptoD(2) [OF assms(1), of "k + 1"] by simp
    fix y assume "q y = Frei"
    then show "k + 1 \<le> y" using taken_uptoD(1) [OF assms(1), of y] by (metis Suc_eq_plus1 abfrage.distinct(1) not_less_eq_eq)
  qed
  moreover have "\<exists>z'. z' \<le> 1 + 2 * 31 + 1 \<and> erster_freier q 1 0 = Some (z', k + 1)"
    by (rule erster_freier_finds [OF assms(1)]) (use assms(2) in \<open>simp_all add: MAX_ABFRAGEN_def\<close>)
  ultimately show ?thesis by auto
qed

section \<open>A stop lies when the code says so\<close>

text \<open>The broker refuses a used key as a duplicate and knows the order under it; its keys are taken without a gap.\<close>

definition honest_broker :: "(nat \<Rightarrow> nat \<Rightarrow> sende_antwort) \<Rightarrow> (nat \<Rightarrow> nat \<Rightarrow> abfrage) \<Rightarrow> nat \<Rightarrow> bool" where
  "honest_broker send q k \<longleftrightarrow> (\<forall>r v. send r v = (if v \<le> k then Duplikat else Gesendet)) \<and> (\<forall>r. taken_upto (q r) k)"

lemma lege_finds:
  assumes "honest_broker send q k" "k \<le> 2 ^ 31"
  shows "lege send q = (case q 2 0 of Belegt st \<Rightarrow> if st \<in> set OFFEN then Liegt_Schon 0 else Gelegt (k + 1) | _ \<Rightarrow> Gelegt (k + 1))"
proof -
  have t: "taken_upto (q 2) k" and send: "send r v = (if v \<le> k then Duplikat else Gesendet)" for r v
    using assms(1) by (simp_all add: honest_broker_def)
  obtain st where st: "q 2 0 = Belegt st" using taken_uptoD(1) [OF t, of 0] by auto
  have fr: "frage (q 2) 0 0 = Belegt st" using st by (simp add: frage_def MAX_ABFRAGEN_def)
  have "\<exists>z'. z' \<le> 1 + 2 * 31 + 1 \<and> erster_freier (q 2) 1 0 = Some (z', k + 1)"
    by (rule erster_freier_finds [OF t]) (use assms(2) in \<open>simp_all add: MAX_ABFRAGEN_def\<close>)
  then obtain z' where ef: "erster_freier (q 2) (Suc 0) 0 = Some (z', k + 1)" by auto
  have again: "lege_runden send q 2 z' (k + 1) = Gelegt (k + 1)" by (simp add: numeral_2_eq_2 send)
  have "lege send q = lege_runden send q (Suc 2) 0 0" by (simp add: lege_def MAX_RUNDEN_def numeral_3_eq_3 numeral_2_eq_2)
  then show ?thesis unfolding lege_runden.simps(2) fr st ef using again by (simp add: send)
qed

text \<open>
  However often the stop of a position was replaced, up to \<open>2^31\<close> times, laying it ends with the stop at the
  broker: under the first free key, or, when the order under its first key is still open, with that one, and
  then nothing is sent.
\<close>

theorem stop_gets_laid:
  assumes "honest_broker send q k" "k \<le> 2 ^ 31"
  shows "lege send q = (case q 2 0 of Belegt st \<Rightarrow> if st \<in> set OFFEN then Liegt_Schon 0 else Gelegt (k + 1) | _ \<Rightarrow> Gelegt (k + 1))"
  by (rule lege_finds [OF assms])

lemma lege_step:
  assumes "lege_runden send q (Suc n) z v = e" "liegt e"
  obtains "send n v = Gesendet" "e = Gelegt v"
  | st where "q n v = Belegt st" "st \<in> set OFFEN" "e = Liegt_Schon v"
  | z1 v1 where "lege_runden send q n z1 v1 = e"
proof (cases "send n v")
  case Gesendet
  with assms(1) that(1) show ?thesis by simp
next
  case Abgelehnt
  with assms show ?thesis by (auto simp: liegt_def)
next
  case Duplikat
  note fin = that(3)
  note e = assms(1) [unfolded lege_runden.simps Duplikat sende_antwort.case]
  have go_on: thesis if again: "(case erster_freier (q n) (Suc z) v of None \<Rightarrow> Kein_Freier | Some (z1, v1) \<Rightarrow> lege_runden send q n z1 v1) = e"
    using again assms(2) fin by (cases "erster_freier (q n) (Suc z) v") (auto simp: liegt_def)
  show ?thesis
  proof (cases "frage (q n) z v")
    case Fehler
    with e assms(2) show ?thesis by (auto simp: liegt_def)
  next
    case Frei
    with e go_on show ?thesis by simp
  next
    case (Belegt st)
    then have "q n v = Belegt st" by (simp add: frage_def split: if_splits)
    with e go_on Belegt that(2) show ?thesis by (cases "st \<in> set OFFEN") simp_all
  qed
qed

lemma lege_runden_true:
  "lege_runden send q n z v = e \<Longrightarrow> liegt e \<Longrightarrow>
    \<exists>r u. send r u = Gesendet \<or> (\<exists>st. q r u = Belegt st \<and> st \<in> set OFFEN)"
proof (induction n arbitrary: z v)
  case (Suc n)
  from Suc.prems show ?case by (rule lege_step) (use Suc.IH Suc.prems(2) in blast)+
qed (auto simp: liegt_def)

lemma warte_true:
  "i \<in> set (warte_auf_stornos ende rs ids) \<Longrightarrow> i \<in> set ids \<and> (\<exists>r \<in> set rs. \<exists>st. r i = Some st \<and> st \<in> set ende)"
proof (induction rs arbitrary: ids)
  case (Cons r rs)
  let ?done = "\<lambda>i. case r i of None \<Rightarrow> False | Some st \<Rightarrow> st \<in> set ende"
  from Cons.prems consider "i \<in> set ids" "?done i" | "i \<in> set (warte_auf_stornos ende rs (filter (\<lambda>i. \<not> ?done i) ids))"
    by (auto simp: Let_def)
  then show ?case
  proof cases
    case 1
    then show ?thesis by (auto split: option.splits)
  next
    case 2
    from Cons.IH [OF 2] show ?thesis by auto
  qed
qed simp

text \<open>
  The execution of a plan tells the truth: every stop of the plan is reported as missing or was tried and lies at the
  broker, sent under a key or found open there; and nothing is placed for a symbol that has a cancellation the
  broker has not confirmed.
\<close>

theorem unreported_stops_lie:
  assumes "s \<in> set (sr_to_place plan)" "so_symbol s \<notin> set (snd (fuehre_plan_aus plan liegende reads (\<lambda>s. lege (send s) (q s))))"
  shows "(s, lege (send s) (q s)) \<in> set (fst (fuehre_plan_aus plan liegende reads (\<lambda>s. lege (send s) (q s))))
    \<and> (\<exists>r u. send s r u = Gesendet \<or> (\<exists>st. q s r u = Belegt st \<and> st \<in> set OFFEN))"
proof -
  let ?l = "lege (send s) (q s)"
  have l: "liegt ?l" and in1: "(s, ?l) \<in> set (fst (fuehre_plan_aus plan liegende reads (\<lambda>s. lege (send s) (q s))))"
    using assms unfolding fuehre_plan_aus_def Let_def fst_conv snd_conv by auto
  have "\<exists>r u. send s r u = Gesendet \<or> (\<exists>st. q s r u = Belegt st \<and> st \<in> set OFFEN)"
    by (rule lege_runden_true [OF lege_def [symmetric] l])
  with in1 show ?thesis by simp
qed

lemma no_place_before_confirmation:
  assumes "distinct (map bo_id liegende)" "v \<in> set liegende" "bo_id v \<in> set (sr_to_cancel plan)"
    "\<forall>r \<in> set reads. \<forall>st. r (bo_id v) = Some st \<longrightarrow> st \<notin> set STORNO_ENDE"
  shows "\<forall>x \<in> set (fst (fuehre_plan_aus plan liegende reads legen)). so_symbol (fst x) \<noteq> bo_symbol v"
proof -
  have nb: "bo_id v \<notin> set (warte_auf_stornos STORNO_ENDE reads (sr_to_cancel plan))"
    using assms(4) warte_true by blast
  have "map_of (rev (map (\<lambda>x. (bo_id x, bo_symbol x)) liegende)) (bo_id v) = Some (bo_symbol v)"
    using assms(1,2) by (intro map_of_is_SomeI) (auto simp: rev_map [symmetric] comp_def distinct_rev)
  then have "bo_symbol v \<in> (\<lambda>i. case map_of (rev (map (\<lambda>x. (bo_id x, bo_symbol x)) liegende)) i of None \<Rightarrow> [] | Some s \<Rightarrow> s) `
      {i \<in> set (sr_to_cancel plan). i \<notin> set (warte_auf_stornos STORNO_ENDE reads (sr_to_cancel plan))}"
    using nb assms(3) by (intro image_eqI [of _ _ "bo_id v"]) simp_all
  then show ?thesis unfolding fuehre_plan_aus_def Let_def by auto
qed

section \<open>A sale never sells more than is free\<close>

lemma bestand_frei_nonneg: "0 \<le> bestand_frei s ps"
  by (simp add: bestand_frei_def split: option.split)

lemma freigabe_bounds:
  assumes "filter (\<lambda>x. bo_symbol x = s) xs \<noteq> []" "0 < fg_menge (fst (gib_stuecke_frei (Some xs) reads bestand s qty))"
  obtains ps where "bestand = Some ps" "fg_menge (fst (gib_stuecke_frei (Some xs) reads bestand s qty)) \<le> bestand_frei s ps"
    "fg_menge (fst (gib_stuecke_frei (Some xs) reads bestand s qty)) \<le> \<bar>qty\<bar>"
    "set (map bo_id (filter ist_eigener_stop (filter (\<lambda>x. bo_symbol x = s) xs))) \<subseteq>
       set (warte_auf_stornos FREI_ENDE reads (map bo_id (filter ist_eigener_stop (filter (\<lambda>x. bo_symbol x = s) xs))))"
    "\<not> fg_grund (fst (gib_stuecke_frei (Some xs) reads bestand s qty)) \<Longrightarrow>
       \<bar>qty\<bar> - EPSILON \<le> fg_menge (fst (gib_stuecke_frei (Some xs) reads bestand s qty))"
proof -
  let ?ids = "map bo_id (filter ist_eigener_stop (filter (\<lambda>x. bo_symbol x = s) xs))"
  have sub: "set ?ids \<subseteq> set (warte_auf_stornos FREI_ENDE reads ?ids)"
    using assms by (auto simp: gib_stuecke_frei_def Let_def split: if_splits)
  show ?thesis
  proof (cases bestand)
    case None
    with assms sub show ?thesis by (simp add: gib_stuecke_frei_def Let_def)
  next
    case (Some ps)
    show ?thesis
      by (rule that [OF Some _ _ sub])
        (use assms sub Some in \<open>auto simp: gib_stuecke_frei_def Let_def split: if_splits\<close>)
  qed
qed

lemma sale_with_orders:
  assumes "gib_verkauf_frei False mit (\<lambda>s m. fst (gib_stuecke_frei (Some xs) reads bestand s m)) i request = Some (i', request')"
    and "\<not> oi_halted i \<or> freigestellt i" "0 < oi_qty i" "filter (\<lambda>x. bo_symbol x = oi_symbol i) xs \<noteq> []"
  shows "\<exists>ps. bestand = Some ps \<and> oi_qty i' \<le> bestand_frei (oi_symbol i) ps + EPSILON \<and> oi_qty i' \<le> oi_qty i
    \<and> list_all (\<lambda>x. bo_symbol x \<noteq> oi_symbol i \<or> \<not> ist_eigener_stop x \<or>
        list_ex (\<lambda>r. list_ex (\<lambda>st. r (bo_id x) = Some st) FREI_ENDE) reads) xs
    \<and> set (snd (gib_stuecke_frei (Some xs) reads bestand (oi_symbol i) (oi_qty i))) \<subseteq> bo_id ` {x \<in> set xs. ist_eigener_stop x}"
proof -
  let ?f = "fst (gib_stuecke_frei (Some xs) reads bestand (oi_symbol i) (oi_qty i))"
  have on: "\<not> (oi_halted i \<and> \<not> freigestellt i \<or> False)" using assms(2) by simp
  note e = assms(1) [unfolded gib_verkauf_frei_def if_not_P [OF on] Let_def]
  have pos: "0 < fg_menge ?f" using e by (auto split: if_splits)
  have own: "set (snd (gib_stuecke_frei (Some xs) reads bestand (oi_symbol i) (oi_qty i))) \<subseteq> bo_id ` {x \<in> set xs. ist_eigener_stop x}"
    by (auto simp: gib_stuecke_frei_def Let_def split: option.split)
  from assms(4) pos obtain ps where ps: "bestand = Some ps" "fg_menge ?f \<le> bestand_frei (oi_symbol i) ps" "fg_menge ?f \<le> \<bar>oi_qty i\<bar>"
      "set (map bo_id (filter ist_eigener_stop (filter (\<lambda>x. bo_symbol x = oi_symbol i) xs))) \<subseteq>
         set (warte_auf_stornos FREI_ENDE reads (map bo_id (filter ist_eigener_stop (filter (\<lambda>x. bo_symbol x = oi_symbol i) xs))))"
      "\<not> fg_grund ?f \<Longrightarrow> \<bar>oi_qty i\<bar> - EPSILON \<le> fg_menge ?f"
    by (rule freigabe_bounds) blast
  have q: "oi_qty i' \<le> bestand_frei (oi_symbol i) ps + EPSILON \<and> oi_qty i' \<le> oi_qty i"
  proof (cases "fg_grund ?f")
    case True
    with e pos obtain neu where "i' = i\<lparr>oi_qty := fg_menge ?f\<rparr>" by (auto split: if_splits option.splits)
    with ps(2,3) assms(3) show ?thesis by (simp add: EPSILON_def)
  next
    case False
    with e pos have "i' = i" by (auto split: if_splits)
    with ps(2) ps(5) [OF False] assms(3) show ?thesis by simp
  qed
  have gone: "list_ex (\<lambda>r. list_ex (\<lambda>st. r (bo_id x) = Some st) FREI_ENDE) reads"
    if "x \<in> set xs" "bo_symbol x = oi_symbol i" "ist_eigener_stop x" for x
  proof -
    have "bo_id x \<in> set (warte_auf_stornos FREI_ENDE reads (map bo_id (filter ist_eigener_stop (filter (\<lambda>x. bo_symbol x = oi_symbol i) xs))))"
      using ps(4) that by auto
    from warte_true [OF this] show ?thesis by (auto simp: list_ex_iff)
  qed
  show ?thesis using ps(1) q own gone by (auto simp: list_all_iff)
qed

text \<open>
  C23: Before a sale (not halted, or exempt from the halt) of a symbol that has open orders, only own stops are
  cancelled; the sale goes out only after the broker has confirmed every one of them as gone, and sells no more
  than the pieces that are then free, up to the tolerance of a millionth. Where the open orders cannot be read,
  or the symbol has none, the sale goes out as it is, without a look at the free pieces.
\<close>

theorem sale_sells_only_free:
  assumes "gib_verkauf_frei False mit (\<lambda>s m. fst (gib_stuecke_frei offene reads bestand s m)) i request = Some (i', request')"
    and "\<not> oi_halted i \<or> freigestellt i" "0 < oi_qty i"
  shows "case offene of None \<Rightarrow> i' = i \<and> request' = request
    | Some xs \<Rightarrow>
        if filter (\<lambda>x. bo_symbol x = oi_symbol i) xs = [] then i' = i \<and> request' = request
        else \<exists>ps. bestand = Some ps \<and> oi_qty i' \<le> bestand_frei (oi_symbol i) ps + EPSILON \<and> oi_qty i' \<le> oi_qty i
          \<and> list_all (\<lambda>x. bo_symbol x \<noteq> oi_symbol i \<or> \<not> ist_eigener_stop x \<or>
              list_ex (\<lambda>r. list_ex (\<lambda>st. r (bo_id x) = Some st) FREI_ENDE) reads) xs
          \<and> set (snd (gib_stuecke_frei (Some xs) reads bestand (oi_symbol i) (oi_qty i))) \<subseteq> bo_id ` {x \<in> set xs. ist_eigener_stop x}"
proof (cases offene)
  case None
  with assms show ?thesis by (simp add: gib_verkauf_frei_def gib_stuecke_frei_def Let_def split: if_splits)
next
  case (Some xs)
  show ?thesis
  proof (cases "filter (\<lambda>x. bo_symbol x = oi_symbol i) xs = []")
    case True
    with assms Some show ?thesis
      by (simp only: gib_verkauf_frei_def gib_stuecke_frei_def Let_def option.case if_True) (auto split: if_splits)
  next
    case False
    from sale_with_orders [OF assms(1) [unfolded Some] assms(2,3) False] False show ?thesis unfolding Some option.case by (simp only: if_False)
  qed
qed

text \<open>A stop passes a halted gate, as a protective exit.\<close>

lemma stop_passes_halt: "freigestellt (sende_intent s halted)"
  by (simp add: freigestellt_def sende_intent_def)

text \<open>
  The own stop of a share class is not recognised, so it is not cancelled before a sale: of the ten and a half
  pieces only the half that no order binds goes out.
\<close>

theorem dotted_symbol_is_not_released:
  "gib_stuecke_frei (Some [brk_stop h]) reads (Some [brk_position]) brk 10.5 =
     (\<lparr>fg_menge = 0.5, fg_grund = True, fg_storniert = []\<rparr>, [])"
proof -
  have b: "bo_symbol (brk_stop h) = brk" "bp_symbol brk_position = brk" "bp_qty_available brk_position = Some 0.5"
    by (simp_all add: brk_stop_def brk_position_def)
  have w: "warte_auf_stornos ende reads [] = []" for ende
    by (induction reads) (simp_all add: Let_def)
  show ?thesis by (simp add: gib_stuecke_frei_def b brk_not_own w bestand_frei_def MIN_BROKER_QTY_def EPSILON_def Let_def)
qed

section \<open>A concrete broker\<close>

definition toy_query :: "nat \<Rightarrow> nat \<Rightarrow> abfrage" where
  "toy_query r v = (if v \<le> 5 then Belegt ''canceled'' else Frei)"

definition toy_send :: "nat \<Rightarrow> nat \<Rightarrow> sende_antwort" where
  "toy_send r v = (if v \<le> 5 then Duplikat else Gesendet)"

lemma toy_taken: "taken_upto (toy_query r) 5"
  by (simp add: taken_upto_def toy_query_def)

lemma toy_honest: "honest_broker toy_send toy_query 5"
  using toy_taken by (simp add: honest_broker_def toy_send_def)

theorem key_search_is_enough_witness:
  "map_option snd (erster_freier (toy_query 0) 1 0) = Some (LEAST v. toy_query 0 v = Frei)"
  by (rule key_search_is_enough [OF toy_taken]) simp

theorem stop_gets_laid_witness: "lege toy_send toy_query = Gelegt 6"
  using stop_gets_laid [OF toy_honest] by (simp add: toy_query_def OFFEN_def)

definition toy_stop :: stop_order where
  "toy_stop = \<lparr>so_symbol = ''ABC'', so_qty = 10, so_stop_price = 92, so_tif = ''gtc'', so_leg = Whole,
     so_decision_id = ''stop-ABC'', so_client_order_id = ''stop-0-stop-ABC''\<rparr>"

definition toy_plan :: stop_plan_result where
  "toy_plan = \<lparr>sr_to_place = [toy_stop], sr_to_cancel = [''x''], sr_unprotected = []\<rparr>"

lemma toy_laid: "lege toy_send toy_query = Gelegt 6"
  using lege_finds [OF toy_honest] by (simp add: toy_query_def OFFEN_def)

theorem unreported_stops_lie_witness:
  "(toy_stop, lege toy_send toy_query) \<in> set (fst (fuehre_plan_aus toy_plan [] [] (\<lambda>s. lege toy_send toy_query)))
    \<and> (\<exists>r u. toy_send r u = Gesendet \<or> (\<exists>st. toy_query r u = Belegt st \<and> st \<in> set OFFEN))"
  by (rule unreported_stops_lie) (simp_all add: toy_plan_def toy_stop_def fuehre_plan_aus_def toy_laid liegt_def Let_def)

definition toy_own :: broker_order where
  "toy_own = \<lparr>bo_id = ''o1'', bo_symbol = ''ABC'', bo_qty = 10, bo_stop_price = 92, bo_tif = ''gtc'',
     bo_client_id = ''stop-0-stop-ABC'', bo_buy = False\<rparr>"

definition toy_sale :: order_intent where
  "toy_sale = sende_intent (toy_stop\<lparr>so_qty := 10.5\<rparr>) True"

lemma toy_own_stop: "ist_eigener_stop toy_own" "bo_symbol toy_own = ''ABC''" "bo_id toy_own = ''o1''"
  by (simp_all add: toy_own_def ist_eigener_stop_def startswith_def ist_ziffer_def Let_def)

theorem sale_sells_only_free_witness:
  "\<exists>ps. Some [abc_position] = Some ps \<and> oi_qty toy_sale \<le> bestand_frei (oi_symbol toy_sale) ps + EPSILON \<and> oi_qty toy_sale \<le> oi_qty toy_sale
    \<and> list_all (\<lambda>x. bo_symbol x \<noteq> oi_symbol toy_sale \<or> \<not> ist_eigener_stop x \<or>
        list_ex (\<lambda>r. list_ex (\<lambda>st. r (bo_id x) = Some st) FREI_ENDE) [\<lambda>_. Some ''canceled'']) [toy_own]
    \<and> set (snd (gib_stuecke_frei (Some [toy_own]) [\<lambda>_. Some ''canceled''] (Some [abc_position]) (oi_symbol toy_sale) (oi_qty toy_sale)))
      \<subseteq> bo_id ` {x \<in> set [toy_own]. ist_eigener_stop x}"
proof -
  have f: "fst (gib_stuecke_frei (Some [toy_own]) [\<lambda>_. Some ''canceled''] (Some [abc_position]) (oi_symbol toy_sale) (oi_qty toy_sale)) =
      \<lparr>fg_menge = 10.5, fg_grund = False, fg_storniert = [''o1'']\<rparr>"
    by (simp add: gib_stuecke_frei_def toy_own_stop toy_sale_def sende_intent_def toy_stop_def FREI_ENDE_def STORNO_ENDE_def
        bestand_frei_def abc_position_def MIN_BROKER_QTY_def EPSILON_def Let_def)
  have g: "gib_verkauf_frei False (\<lambda>_ _. None) (\<lambda>s m. fst (gib_stuecke_frei (Some [toy_own]) [\<lambda>_. Some ''canceled''] (Some [abc_position]) s m))
      toy_sale (KwargsAuftrag []) = Some (toy_sale, KwargsAuftrag [])"
    by (simp add: gib_verkauf_frei_def f Let_def)
  have "\<not> oi_halted toy_sale \<or> freigestellt toy_sale" "0 < oi_qty toy_sale"
    "filter (\<lambda>x. bo_symbol x = oi_symbol toy_sale) [toy_own] \<noteq> []"
    by (simp_all add: toy_sale_def sende_intent_def toy_stop_def freigestellt_def toy_own_stop)
  from sale_sells_only_free [OF g this(1,2)] this(3) show ?thesis by (simp only: option.case if_False)
qed

end
