(* ===== verification/Trading_Settings.thy ===== *)
theory Trading_Settings
  imports Iron_Dome
begin

text \<open>
  The settings a customer can change (\<open>core/trading_settings.py\<close>, \<open>portfolio_shape.py\<close>): the registry with its
  bounds, reading of an input, the rules that join several settings, and the text form that is stored.

  An input is a JSON value; \<open>num\<close> is \<open>float(text)\<close> of the standard library and \<open>None\<close> when it raises. A number
  in a text has a fixed count of decimals, and is kept as the count and the integer without the point. A
  configuration is the map of its attributes, or none when it cannot be read.
\<close>

section \<open>The registry\<close>

datatype kind = K_Float | K_Int | K_Bool | K_Enum

record setting =
  st_key :: string
  st_kind :: kind
  st_default :: jval
  st_lo :: real
  st_hi :: real
  st_decimals :: nat
  st_choices :: "string list"

definition mk_f :: "string \<Rightarrow> real \<Rightarrow> real \<Rightarrow> real \<Rightarrow> nat \<Rightarrow> setting" where
  "mk_f k d lo hi n = \<lparr>st_key = k, st_kind = K_Float, st_default = JNum d, st_lo = lo, st_hi = hi, st_decimals = n, st_choices = []\<rparr>"

definition mk_i :: "string \<Rightarrow> real \<Rightarrow> real \<Rightarrow> real \<Rightarrow> setting" where
  "mk_i k d lo hi = \<lparr>st_key = k, st_kind = K_Int, st_default = JNum d, st_lo = lo, st_hi = hi, st_decimals = 2, st_choices = []\<rparr>"

definition mk_b :: "string \<Rightarrow> bool \<Rightarrow> setting" where
  "mk_b k d = \<lparr>st_key = k, st_kind = K_Bool, st_default = JBool d, st_lo = 0, st_hi = 0, st_decimals = 2, st_choices = []\<rparr>"

definition mk_e :: "string \<Rightarrow> string \<Rightarrow> string list \<Rightarrow> setting" where
  "mk_e k d cs = \<lparr>st_key = k, st_kind = K_Enum, st_default = JStr d, st_lo = 0, st_hi = 0, st_decimals = 2, st_choices = cs\<rparr>"

definition fin_value :: "pyfloat \<Rightarrow> real" where
  "fin_value x = (case x of Fin r \<Rightarrow> r | _ \<Rightarrow> 0)"

text \<open>The last two upper bounds are the ceilings of the operating limits.\<close>

definition SETTINGS :: "setting list" where
  "SETTINGS =
    [mk_f ''MOMENTUM_AGENT_WEIGHT'' 0.45 0 1.5 2,
     mk_f ''LSTM_SIGNAL_WEIGHT'' 0.15 0.15 1.5 2,
     mk_f ''VIX_RISK_WEIGHT'' 0.45 0.10 1.5 2,
     mk_f ''SPECIALIST_ALPHA_WEIGHT'' 0.15 0 2 2,
     mk_f ''NEWS_SENTIMENT_WEIGHT'' 0.20 0.10 1.5 2,
     mk_f ''UPSIDE_SKEW_WEIGHT'' 0.30 0.10 1.5 2,
     mk_f ''TREND_AGENT_WEIGHT'' 0 0 1.5 2,
     mk_f ''VOLUME_CONFIRM_AGENT_WEIGHT'' 0 0 1.5 2,
     mk_f ''RL_CONFIDENCE_WEIGHT'' 0 0 1.5 2,
     mk_f ''FUNDAMENTALS_AGENT_WEIGHT'' 0.25 0 1.5 2,
     mk_f ''VALUATION_AGENT_WEIGHT'' 0 0 1.5 2,
     mk_f ''QUALITY_AGENT_WEIGHT'' 0.30 0.10 1.5 2,
     mk_b ''MOMENTUM_AGENT_ENABLED'' True,
     mk_b ''LSTM_SIGNAL_AGENT_ENABLED'' True,
     mk_b ''SPECIALIST_ALPHA_AGENT_ENABLED'' True,
     mk_b ''NEWS_SENTIMENT_AGENT_ENABLED'' True,
     mk_b ''VIX_RISK_AGENT_ENABLED'' True,
     mk_b ''UPSIDE_SKEW_AGENT_ENABLED'' False,
     mk_b ''TREND_AGENT_ENABLED'' False,
     mk_b ''VOLUME_CONFIRM_AGENT_ENABLED'' False,
     mk_b ''QUALITY_AGENT_ENABLED'' False,
     mk_b ''DRAWDOWN_GUARD_AGENT_ENABLED'' True,
     mk_b ''REGIME_DETECTION_AGENT_ENABLED'' True,
     mk_b ''FUNDAMENTALS_AGENT_ENABLED'' True,
     mk_b ''VALUATION_AGENT_ENABLED'' True,
     mk_b ''RL_CONFIDENCE_AGENT_ENABLED'' True,
     mk_f ''SIGNAL_BUY_THRESHOLD'' 0.73 0.55 0.75 2,
     mk_f ''SIGNAL_SELL_THRESHOLD'' 0.35 0.25 0.45 2,
     mk_b ''ROTATION_EXIT_ENABLED'' False,
     mk_i ''ROTATION_MAX_EXITS_PER_CYCLE'' 1 0 5,
     mk_i ''ROTATION_MAX_EXITS_PER_SESSION'' 2 0 10,
     mk_i ''ROTATION_PANEL_MAX_AGE_DAYS'' 3 1 10,
     mk_b ''DISPLACEMENT_ENABLED'' True,
     mk_i ''DISPLACEMENT_MAX_PER_SESSION'' 2 0 10,
     mk_f ''CONSENSUS_RETENTION_THRESHOLD'' 0 0 0.65 2,
     mk_e ''EXIT_TRAIL_PROFILE'' ''midterm'' [''midterm'', ''legacy''],
     mk_i ''GLOBAL_BUY_COOLDOWN_MINUTES'' 30 0 240,
     mk_i ''MAX_BUYS_PER_HOUR'' 2 1 12,
     mk_i ''NO_BUY_OPENING_MINUTES'' 30 0 120,
     mk_i ''REENTRY_LOCKOUT_DAYS'' 1 0 10,
     mk_i ''STOP_EXIT_SLOT_HOLD_DAYS'' 1 0 10,
     mk_b ''EARNINGS_GUARD_ENABLED'' False,
     mk_i ''EARNINGS_GUARD_POST_DAYS'' 2 0 10,
     mk_i ''EARNINGS_GUARD_PRE_DAYS'' 0 0 10,
     mk_b ''REGIME_THROTTLE_ENABLED'' True,
     mk_i ''REGIME_RISKOFF_PERCENTILE'' 75 50 95,
     mk_f ''REGIME_THROTTLE_SIZE_FACTOR'' 0.5 0.1 1 2,
     mk_b ''FULL_UNIVERSE_TRADING_ENABLED'' True,
     mk_i ''ROUND_TABLE_TOP_K_EVAL'' 60 10 60,
     mk_b ''BROKER_STOPS_ENABLED'' True,
     mk_f ''STOP_LOSS_PCT'' 7 1 7.9 1,
     mk_b ''PANIC_PROTECTION_ENABLED'' True,
     mk_f ''PANIC_PROTECTION_HOURS'' 2 0.5 4 1,
     mk_f ''LOSS_WATCH_PCT'' (- 3) (- 7.9) (- 0.5) 1,
     mk_f ''LOSS_CUT_PCT'' (- 6) (- 7.9) (- 1) 1,
     mk_f ''LOSS_ESCALATION_PCT'' (- 7.9) (- 7.9) (- 2) 1,
     mk_f ''MIN_POSITION_PERCENT'' 0.05 0.01 0.10 2,
     mk_f ''MAX_POSITION_PERCENT'' 0.25 0.05 0.40 2,
     mk_f ''MAX_POSITION_PERCENT_SIZING'' 0.30 0.05 0.50 2,
     mk_f ''MAX_TOTAL_EXPOSURE_PCT'' 0.95 0.50 1 2,
     mk_b ''SKEW_SIZE_TILT_ENABLED'' False,
     mk_f ''SKEW_SIZE_TILT_CAP'' 0 0 0.20 2,
     mk_f ''VIX_SIZE_INFLUENCE'' 1 0 1 2,
     mk_b ''VOL_TARGETING_SIZING_ENABLED'' True,
     mk_f ''VOL_TARGET_DAILY_VOL'' 0.015 0.007 0.075 4,
     mk_f ''COVERAGE_SIZING_STRENGTH'' 0 0 1 2,
     mk_e ''CLEAN_WEIGHT_SIZING'' ''b'' [''off'', ''a'', ''b''],
     mk_f ''COMPLIANCE_MAX_ORDER_VALUE'' 10000 1 (fin_value MAX_ORDER_VALUE_CEILING) 0,
     mk_i ''COMPLIANCE_MAX_DAILY_TRADES'' 10 1 (of_int MAX_DAILY_TRADES_CEILING)]"

definition REGISTRY :: "string \<Rightarrow> setting option" where
  "REGISTRY k = find (\<lambda>s. st_key s = k) SETTINGS"

section \<open>Reading an input\<close>

text \<open>
  What a request can raise: \<open>UnknownSettingError\<close> with the keys, or the \<open>OverflowError\<close> of \<open>float(n)\<close> for an
  integer from 2^1024 - 2^970 on (half a unit above the largest double). A number with a point never gets there:
  \<open>json.loads\<close> reads it as inf. A number that is not finite is an input in its text form.
\<close>

datatype settings_error = Unknown_Settings "string list" | Overflow_Error

definition too_large :: "real \<Rightarrow> bool" where
  "too_large r \<longleftrightarrow> 2 ^ 1024 - 2 ^ 970 \<le> \<bar>r\<bar>"

definition as_number :: "(string \<Rightarrow> pyfloat option) \<Rightarrow> jval \<Rightarrow> settings_error + real option" where
  "as_number num v =
     (case v of
        JNum r \<Rightarrow> if too_large r then Inl Overflow_Error else Inr (Some r)
      | JStr t \<Rightarrow> Inr (case num t of Some (Fin r) \<Rightarrow> Some r | _ \<Rightarrow> None)
      | _ \<Rightarrow> Inr None)"

text \<open>\<open>_parse\<close>: a usable value or the default. A boolean is no number.\<close>

definition parse :: "(string \<Rightarrow> pyfloat option) \<Rightarrow> setting \<Rightarrow> jval \<Rightarrow> settings_error + jval" where
  "parse num s v =
     (case st_kind s of
        K_Bool \<Rightarrow>
          Inr (case v of
             JBool x \<Rightarrow> JBool x
           | JStr t \<Rightarrow> (let u = py_lower (py_strip t)
                        in if u = ''true'' then JBool True else if u = ''false'' then JBool False else st_default s)
           | _ \<Rightarrow> st_default s)
      | K_Enum \<Rightarrow>
          Inr (case v of
             JStr t \<Rightarrow> (let u = py_lower (py_strip t) in if u \<in> set (st_choices s) then JStr u else st_default s)
           | _ \<Rightarrow> st_default s)
      | k \<Rightarrow>
          result_bind (as_number num v) (\<lambda>n. Inr (case n of
             None \<Rightarrow> st_default s
           | Some r \<Rightarrow> (let x = max (st_lo s) (min (st_hi s) r)
                        in JNum (if k = K_Int then of_int (round_half_even x) else x)))))"

text \<open>The stored form: a text, or a number with its count of decimals.\<close>

datatype canon = Text string | Fixed nat int

definition jnum :: "jval \<Rightarrow> real" where
  "jnum v = (case v of JNum r \<Rightarrow> r | _ \<Rightarrow> 0)"

definition canonical_text :: "(string \<Rightarrow> pyfloat option) \<Rightarrow> setting \<Rightarrow> jval \<Rightarrow> settings_error + canon" where
  "canonical_text num s v =
     result_bind (parse num s v) (\<lambda>p. Inr (case st_kind s of
           K_Bool \<Rightarrow> Text (if p = JBool True then ''true'' else ''false'')
         | K_Enum \<Rightarrow> Text (case p of JStr t \<Rightarrow> t | _ \<Rightarrow> [])
         | K_Int \<Rightarrow> Fixed 0 \<lfloor>jnum p\<rfloor>
         | K_Float \<Rightarrow> Fixed (st_decimals s) (round_half_even (jnum p * 10 ^ st_decimals s))))"

definition entry_text :: "(string \<Rightarrow> pyfloat option) \<Rightarrow> (setting \<Rightarrow> jval) \<Rightarrow> setting \<Rightarrow> settings_error + string \<times> canon" where
  "entry_text num g s = result_bind (canonical_text num s (g s)) (\<lambda>c. Inr (st_key s, c))"

section \<open>The configuration and the rules between settings\<close>

record config =
  cg_attr :: "string \<Rightarrow> jval option"
  cg_positions :: int
  cg_hard_stop :: real

definition cfg_getattr :: "config option \<Rightarrow> setting \<Rightarrow> jval" where
  "cfg_getattr cfg s =
     (case cfg of None \<Rightarrow> st_default s
      | Some c \<Rightarrow> (case cg_attr c (st_key s) of None \<Rightarrow> st_default s | Some v \<Rightarrow> v))"

definition cfg_positions :: "config option \<Rightarrow> int" where
  "cfg_positions cfg = (case cfg of None \<Rightarrow> 20 | Some c \<Rightarrow> if cg_positions c = 0 then 20 else cg_positions c)"

definition cfg_hard :: "config option \<Rightarrow> real" where
  "cfg_hard cfg = (case cfg of None \<Rightarrow> 8 | Some c \<Rightarrow> if cg_hard_stop c = 0 then 8 else \<bar>cg_hard_stop c\<bar>)"

definition current_settings :: "(string \<Rightarrow> pyfloat option) \<Rightarrow> config option \<Rightarrow> settings_error + (string \<times> canon) list" where
  "current_settings num cfg = result_each (entry_text num (cfg_getattr cfg)) SETTINGS"

type_synonym setting_values = "string \<Rightarrow> real"

text \<open>
  \<open>_cross_clamp\<close> rule by rule, in its order. The values are the numbers of the settings it touches.
\<close>

definition rule_slot :: "int \<Rightarrow> setting_values \<Rightarrow> setting_values" where
  "rule_slot positions v = v(''MIN_POSITION_PERCENT'' := min (v ''MIN_POSITION_PERCENT'') (1 / of_int (max 1 positions)))"

definition rule_max :: "setting_values \<Rightarrow> setting_values" where
  "rule_max v = v(''MAX_POSITION_PERCENT'' := min (v ''MAX_POSITION_PERCENT'') (v ''MAX_POSITION_PERCENT_SIZING''))"

definition rule_min :: "setting_values \<Rightarrow> setting_values" where
  "rule_min v =
     (if v ''MAX_POSITION_PERCENT'' \<le> v ''MIN_POSITION_PERCENT''
      then v(''MIN_POSITION_PERCENT'' := max 0.01 (v ''MAX_POSITION_PERCENT'' - 0.01)) else v)"

definition rule_bands :: "setting_values \<Rightarrow> setting_values" where
  "rule_bands v =
     (if v ''SIGNAL_BUY_THRESHOLD'' \<le> v ''SIGNAL_SELL_THRESHOLD''
      then v(''SIGNAL_SELL_THRESHOLD'' := v ''SIGNAL_BUY_THRESHOLD'' - 0.10) else v)"

definition rule_stop :: "real \<Rightarrow> setting_values \<Rightarrow> setting_values" where
  "rule_stop hard v = v(''STOP_LOSS_PCT'' := min (v ''STOP_LOSS_PCT'') (hard - 0.1))"

definition rule_tiers :: "real \<Rightarrow> setting_values \<Rightarrow> setting_values" where
  "rule_tiers hard v =
     (let cut = max (v ''LOSS_CUT_PCT'') (- hard + 0.2)
      in v(''LOSS_CUT_PCT'' := cut,
           ''LOSS_ESCALATION_PCT'' := max (min (v ''LOSS_ESCALATION_PCT'') (cut - 0.1)) (- hard + 0.1),
           ''LOSS_WATCH_PCT'' := max (v ''LOSS_WATCH_PCT'') (cut + 0.1)))"

definition rule_top_k :: "int \<Rightarrow> setting_values \<Rightarrow> setting_values" where
  "rule_top_k positions v =
     (if \<lfloor>v ''ROUND_TABLE_TOP_K_EVAL''\<rfloor> \<le> positions then v(''ROUND_TABLE_TOP_K_EVAL'' := of_int (positions + 1)) else v)"

definition cross_clamp :: "int \<Rightarrow> real \<Rightarrow> setting_values \<Rightarrow> setting_values" where
  "cross_clamp positions hard v =
     rule_top_k positions (rule_tiers hard (rule_stop hard (rule_bands (rule_min (rule_max (rule_slot positions v))))))"

definition cross_keys :: "string list" where
  "cross_keys = [''MIN_POSITION_PERCENT'', ''MAX_POSITION_PERCENT'', ''SIGNAL_SELL_THRESHOLD'', ''STOP_LOSS_PCT'',
     ''LOSS_CUT_PCT'', ''LOSS_ESCALATION_PCT'', ''LOSS_WATCH_PCT'', ''ROUND_TABLE_TOP_K_EVAL'']"

text \<open>
  \<open>1.0 / positions\<close> and \<open>float\<close> of the hard stop raise on an integer that is too large.
\<close>

definition cross_raises :: "config option \<Rightarrow> bool" where
  "cross_raises cfg \<longleftrightarrow> too_large (of_int (max 1 (cfg_positions cfg))) \<or> too_large (cfg_hard cfg)"

section \<open>A request\<close>

text \<open>The parsed values before the rules: the configuration, overridden by the request; a key given twice counts last.\<close>

definition parsed_config :: "(string \<Rightarrow> pyfloat option) \<Rightarrow> config option \<Rightarrow> settings_error + (string \<times> jval) list" where
  "parsed_config num cfg =
     result_each (\<lambda>s. result_bind (parse num s (cfg_getattr cfg s)) (\<lambda>v. Inr (st_key s, v))) SETTINGS"

definition parsed_updates :: "(string \<Rightarrow> pyfloat option) \<Rightarrow> (string \<times> jval) list \<Rightarrow> settings_error + (string \<times> jval) list" where
  "parsed_updates num updates =
     result_each (\<lambda>(k, raw). case REGISTRY k of
         None \<Rightarrow> Inl (Unknown_Settings [k])
       | Some s \<Rightarrow> result_bind (parse num s raw) (\<lambda>v. Inr (k, v))) updates"

definition parsed_values ::
  "(string \<Rightarrow> pyfloat option) \<Rightarrow> config option \<Rightarrow> (string \<times> jval) list \<Rightarrow> settings_error + (string \<rightharpoonup> jval)" where
  "parsed_values num cfg updates =
     result_bind (parsed_config num cfg) (\<lambda>base.
     result_bind (parsed_updates num updates) (\<lambda>given. Inr (map_of base ++ map_of (rev given))))"

definition number_of :: "(string \<rightharpoonup> jval) \<Rightarrow> setting_values" where
  "number_of pv k = (case pv k of None \<Rightarrow> 0 | Some v \<Rightarrow> jnum v)"

definition clamped_value :: "config option \<Rightarrow> (string \<rightharpoonup> jval) \<Rightarrow> setting \<Rightarrow> jval" where
  "clamped_value cfg pv s =
     (if st_key s \<in> set cross_keys
      then JNum (cross_clamp (cfg_positions cfg) (cfg_hard cfg) (number_of pv) (st_key s))
      else case pv (st_key s) of None \<Rightarrow> st_default s | Some v \<Rightarrow> v)"

text \<open>\<open>apply_updates\<close>: an error, or the whole new state.\<close>

definition apply_updates ::
  "(string \<Rightarrow> pyfloat option) \<Rightarrow> (string \<times> jval) list \<Rightarrow> config option \<Rightarrow> settings_error + (string \<times> canon) list" where
  "apply_updates num updates cfg =
     (let unknown = filter (\<lambda>k. REGISTRY k = None) (map fst updates)
      in if unknown \<noteq> [] then Inl (Unknown_Settings unknown)
         else result_bind (parsed_values num cfg updates) (\<lambda>pv.
           if cross_raises cfg then Inl Overflow_Error
           else result_each (entry_text num (clamped_value cfg pv)) SETTINGS))"

definition describe_changes :: "(string \<times> canon) list \<Rightarrow> (string \<times> canon) list \<Rightarrow> (string \<times> canon \<times> canon) list" where
  "describe_changes current new =
     List.map_filter (\<lambda>s. case (map_of current (st_key s), map_of new (st_key s)) of
         (Some x, Some y) \<Rightarrow> if x = y then None else Some (st_key s, x, y)
       | _ \<Rightarrow> None) SETTINGS"

definition klemme_vol_ziel :: "real \<Rightarrow> real" where
  "klemme_vol_ziel v = (case REGISTRY ''VOL_TARGET_DAILY_VOL'' of None \<Rightarrow> v | Some s \<Rightarrow> max (st_lo s) (min (st_hi s) v))"

text \<open>\<open>settings_meta\<close> and \<open>guardrails_view\<close>: what the cards show.\<close>

definition settings_meta ::
  "(string \<Rightarrow> pyfloat option) \<Rightarrow> settings_error + (string \<times> kind \<times> canon \<times> (real \<times> real) option \<times> string list option) list" where
  "settings_meta num =
     result_each (\<lambda>s. result_bind (canonical_text num s (st_default s)) (\<lambda>d. Inr (st_key s, st_kind s, d,
           (if st_kind s = K_Float \<or> st_kind s = K_Int then Some (st_lo s, st_hi s) else None),
           (if st_kind s = K_Enum then Some (st_choices s) else None)))) SETTINGS"

definition guardrails_view :: "config option \<Rightarrow> settings_error + (string \<times> canon) list" where
  "guardrails_view cfg =
     (let v = (case cfg of None \<Rightarrow> - 8 | Some c \<Rightarrow> cg_hard_stop c)
      in if too_large v then Inl Overflow_Error
         else Inr [(''HARD_STOP_LOSS_PCT'', Fixed 1 (round_half_even (v * 10)))])"

section \<open>The registry is well formed\<close>

definition grid_real :: "nat \<Rightarrow> real \<Rightarrow> bool" where
  "grid_real n x \<longleftrightarrow> of_int \<lfloor>x * 10 ^ n\<rfloor> = x * 10 ^ n"

definition setting_ok :: "setting \<Rightarrow> bool" where
  "setting_ok s =
     (case st_kind s of
        K_Bool \<Rightarrow> st_default s \<in> {JBool True, JBool False}
      | K_Enum \<Rightarrow> list_ex (\<lambda>t. st_default s = JStr t) (st_choices s)
      | K_Int \<Rightarrow> st_default s = JNum (jnum (st_default s)) \<and> grid_real 0 (jnum (st_default s)) \<and> grid_real 0 (st_lo s) \<and> grid_real 0 (st_hi s)
          \<and> st_lo s \<le> jnum (st_default s) \<and> jnum (st_default s) \<le> st_hi s
      | K_Float \<Rightarrow> st_default s = JNum (jnum (st_default s)) \<and> grid_real (st_decimals s) (st_lo s) \<and> grid_real (st_decimals s) (st_hi s)
          \<and> st_lo s \<le> jnum (st_default s) \<and> jnum (st_default s) \<le> st_hi s)"

lemma settings_ok: "list_all setting_ok SETTINGS"
  by code_simp

lemma settings_distinct: "distinct (map st_key SETTINGS)"
  by code_simp

section \<open>Every value of a state is inside its bounds\<close>

definition canon_ok :: "setting \<Rightarrow> canon \<Rightarrow> bool" where
  "canon_ok s c =
     (case (st_kind s, c) of
        (K_Bool, Text t) \<Rightarrow> t = ''true'' \<or> t = ''false''
      | (K_Enum, Text t) \<Rightarrow> t \<in> set (st_choices s)
      | (K_Int, Fixed d n) \<Rightarrow> d = 0 \<and> st_lo s \<le> of_int n \<and> of_int n \<le> st_hi s
      | (K_Float, Fixed d n) \<Rightarrow> d = st_decimals s \<and> st_lo s \<le> of_int n / 10 ^ d \<and> of_int n / 10 ^ d \<le> st_hi s
      | _ \<Rightarrow> False)"

lemma round_half_even_mono:
  assumes "x \<le> y" shows "round_half_even x \<le> round_half_even y"
proof (cases "\<lfloor>x\<rfloor> = \<lfloor>y\<rfloor>")
  case True
  then show ?thesis using assms by (auto simp: round_half_even_def Let_def)
next
  case False
  then have "\<lfloor>x\<rfloor> + 1 \<le> \<lfloor>y\<rfloor>" using floor_mono [OF assms] by linarith
  moreover have "round_half_even x \<le> \<lfloor>x\<rfloor> + 1" "\<lfloor>y\<rfloor> \<le> round_half_even y" by (auto simp: round_half_even_def Let_def)
  ultimately show ?thesis by linarith
qed

lemma grid_bounds:
  assumes "grid_real n lo" "grid_real n hi" "lo \<le> x" "x \<le> hi"
  shows "lo \<le> of_int (round_half_even (x * 10 ^ n)) / 10 ^ n" "of_int (round_half_even (x * 10 ^ n)) / 10 ^ n \<le> hi"
proof -
  have lo: "of_int \<lfloor>lo * 10 ^ n\<rfloor> = lo * 10 ^ n" and hi: "of_int \<lfloor>hi * 10 ^ n\<rfloor> = hi * 10 ^ n"
    using assms(1,2) by (simp_all only: grid_real_def)
  have "lo * 10 ^ n \<le> x * 10 ^ n" "x * 10 ^ n \<le> hi * 10 ^ n" using assms(3,4) by (simp_all add: mult_right_mono)
  then have "\<lfloor>lo * 10 ^ n\<rfloor> \<le> round_half_even (x * 10 ^ n)" "round_half_even (x * 10 ^ n) \<le> \<lfloor>hi * 10 ^ n\<rfloor>"
    using lo hi by (metis round_half_even_ge_int, metis round_half_even_le_int)
  then have "of_int \<lfloor>lo * 10 ^ n\<rfloor> \<le> (of_int (round_half_even (x * 10 ^ n)) :: real)"
    "(of_int (round_half_even (x * 10 ^ n)) :: real) \<le> of_int \<lfloor>hi * 10 ^ n\<rfloor>" by (simp_all only: of_int_le_iff)
  then show "lo \<le> of_int (round_half_even (x * 10 ^ n)) / 10 ^ n" "of_int (round_half_even (x * 10 ^ n)) / 10 ^ n \<le> hi"
    unfolding lo hi by (simp_all add: pos_le_divide_eq pos_divide_le_eq)
qed

lemma parse_number:
  assumes "setting_ok s" "st_kind s = K_Float" "parse num s v = Inr p"
  shows "\<exists>x. p = JNum x \<and> st_lo s \<le> x \<and> x \<le> st_hi s"
proof -
  obtain d where d: "st_default s = JNum d" "st_lo s \<le> d" "d \<le> st_hi s"
    using assms by (auto simp: setting_ok_def)
  then show ?thesis using assms(2,3) by (auto simp: parse_def Let_def result_bind_Inr split: option.splits)
qed

lemma parse_int:
  assumes "setting_ok s" "st_kind s = K_Int" "parse num s v = Inr p"
  shows "\<exists>n. p = JNum (of_int n) \<and> st_lo s \<le> of_int n \<and> of_int n \<le> st_hi s"
proof -
  obtain d where d: "st_default s = JNum d" "st_lo s \<le> d" "d \<le> st_hi s" "of_int \<lfloor>d\<rfloor> = d"
    using assms by (auto simp: setting_ok_def grid_real_def)
  have g: "grid_real 0 (st_lo s)" "grid_real 0 (st_hi s)" "st_lo s \<le> st_hi s"
    using assms d by (auto simp: setting_ok_def)
  obtain n where n: "as_number num v = Inr n"
    "p = (case n of None \<Rightarrow> st_default s | Some r \<Rightarrow> JNum (of_int (round_half_even (max (st_lo s) (min (st_hi s) r)))))"
    using assms(2,3) by (auto simp: parse_def Let_def result_bind_Inr cong: option.case_cong)
  show ?thesis
  proof (cases n)
    case None
    from d(4) obtain m where m: "d = of_int m" by metis
    with None n(2) d(1) have "p = JNum (of_int m)" by simp
    then show ?thesis using d(2,3) m by blast
  next
    case (Some r)
    let ?x = "max (st_lo s) (min (st_hi s) r)"
    have "p = JNum (of_int (round_half_even ?x))" using n(2) Some by simp
    moreover have "st_lo s \<le> ?x" "?x \<le> st_hi s" using g by auto
    ultimately show ?thesis using grid_bounds [OF g(1) g(2), of ?x] by auto
  qed
qed

lemma canonical_ok:
  assumes "setting_ok s" "canonical_text num s v = Inr c" shows "canon_ok s c"
proof -
  obtain p where p: "parse num s v = Inr p" using assms(2) by (auto simp: canonical_text_def result_bind_Inr)
  show ?thesis
  proof (cases "st_kind s")
    case K_Float
    then obtain x where x: "p = JNum x" "st_lo s \<le> x" "x \<le> st_hi s" using parse_number [OF assms(1) _ p] by blast
    have "grid_real (st_decimals s) (st_lo s)" "grid_real (st_decimals s) (st_hi s)" using assms K_Float by (auto simp: setting_ok_def)
    from grid_bounds [OF this x(2,3)] show ?thesis using assms(2) p x K_Float by (auto simp: canon_ok_def canonical_text_def jnum_def)
  next
    case K_Int
    then obtain n where n: "p = JNum (of_int n)" "st_lo s \<le> of_int n" "of_int n \<le> st_hi s" using parse_int [OF assms(1) _ p] by blast
    then show ?thesis using assms(2) p K_Int by (auto simp: canon_ok_def canonical_text_def jnum_def)
  next
    case K_Bool
    then show ?thesis using assms(2) p by (auto simp: canon_ok_def canonical_text_def)
  next
    case K_Enum
    obtain t where t: "st_default s = JStr t" "t \<in> set (st_choices s)"
      using assms K_Enum by (auto simp: setting_ok_def list_ex_iff)
    then show ?thesis using assms(2) K_Enum by (cases v) (auto simp: canon_ok_def canonical_text_def parse_def Let_def)
  qed
qed

lemma setting_okI: "s \<in> set SETTINGS \<Longrightarrow> setting_ok s"
  using settings_ok by (simp add: list_all_iff)

definition state_ok :: "(string \<times> canon) list \<Rightarrow> bool" where
  "state_ok st \<longleftrightarrow> list_all2 (\<lambda>s kv. fst kv = st_key s \<and> canon_ok s (snd kv)) SETTINGS st"

lemma map_of_settings:
  assumes "s \<in> set SETTINGS" shows "map_of (map (\<lambda>s. (st_key s, g s)) SETTINGS) (st_key s) = Some (g s)"
  using assms settings_distinct by (intro map_of_is_SomeI) (auto simp: comp_def)

lemma entries:
  assumes "result_each (\<lambda>s. result_bind (f s) (\<lambda>c. Inr (st_key s, c))) SETTINGS = Inr st"
  obtains h where "st = map (\<lambda>s. (st_key s, h s)) SETTINGS" "\<And>s. s \<in> set SETTINGS \<Longrightarrow> f s = Inr (h s)"
    "\<And>s. s \<in> set SETTINGS \<Longrightarrow> map_of st (st_key s) = Some (h s)"
proof -
  let ?h = "\<lambda>s. projr (f s)"
  have all: "list_all2 (\<lambda>s kv. f s = Inr (snd kv) \<and> fst kv = st_key s) SETTINGS st"
    using assms by (auto simp: result_each_Inr result_bind_Inr elim!: list_all2_mono)
  have st: "st = map (\<lambda>s. (st_key s, ?h s)) SETTINGS"
    using all by (auto simp: list_all2_conv_all_nth prod_eq_iff intro!: nth_equalityI)
  moreover have "f s = Inr (?h s)" if "s \<in> set SETTINGS" for s
    using all that by (fastforce simp: list_all2_conv_all_nth in_set_conv_nth)
  ultimately show thesis using map_of_settings [of _ ?h] by (intro that [of ?h]) auto
qed

lemma state_okI:
  assumes "result_each (entry_text num g) SETTINGS = Inr st" shows "state_ok st"
proof -
  from assms [unfolded entry_text_def]
  obtain h where "st = map (\<lambda>s. (st_key s, h s)) SETTINGS" "\<And>s. s \<in> set SETTINGS \<Longrightarrow> canonical_text num s (g s) = Inr (h s)"
    by (rule entries) blast
  then show ?thesis by (auto simp: state_ok_def list_all2_map2 list_all2_same intro: canonical_ok [OF setting_okI])
qed

lemma registry_none: "REGISTRY k = None \<longleftrightarrow> k \<notin> set (map st_key SETTINGS)"
  by (auto simp: REGISTRY_def find_None_iff)

lemma registry_some: "s \<in> set SETTINGS \<Longrightarrow> REGISTRY (st_key s) = Some s"
  using settings_distinct
  by (auto simp: REGISTRY_def find_Some_iff in_set_conv_nth distinct_map inj_on_def distinct_conv_nth nth_eq_iff_index_eq)

text \<open>The values behind a state: what was sent, or what the configuration holds, as it was read.\<close>

definition raw_value :: "config option \<Rightarrow> (string \<times> jval) list \<Rightarrow> setting \<Rightarrow> jval" where
  "raw_value cfg u s = (case map_of (rev u) (st_key s) of None \<Rightarrow> cfg_getattr cfg s | Some v \<Rightarrow> v)"

lemma updates_lookup:
  assumes "list_all2 (\<lambda>(k, raw) kv. \<exists>s v. REGISTRY k = Some s \<and> parse num s raw = Inr v \<and> kv = (k, v)) u g"
  shows "(map_of u k = None \<and> map_of g k = None)
    \<or> (\<exists>raw s v. map_of u k = Some raw \<and> REGISTRY k = Some s \<and> parse num s raw = Inr v \<and> map_of g k = Some v)"
  using assms by (induction rule: list_all2_induct) auto

lemma parsed_at:
  assumes "parsed_values num cfg u = Inr pv" "s \<in> set SETTINGS"
  shows "\<exists>p. parse num s (raw_value cfg u s) = Inr p \<and> pv (st_key s) = Some p"
proof -
  obtain base g where b: "parsed_config num cfg = Inr base" "parsed_updates num u = Inr g" "pv = map_of base ++ map_of (rev g)"
    using assms(1) by (auto simp: parsed_values_def result_bind_Inr)
  obtain h where h: "parse num s (cfg_getattr cfg s) = Inr (h s)" "map_of base (st_key s) = Some (h s)"
    using b(1) assms(2) unfolding parsed_config_def by (elim entries) blast
  have "list_all2 (\<lambda>(k, raw) kv. \<exists>s v. REGISTRY k = Some s \<and> parse num s raw = Inr v \<and> kv = (k, v)) u g"
    using b(2) unfolding parsed_updates_def result_each_Inr
    by (rule list_all2_mono) (auto simp: result_bind_Inr split: option.splits)
  then have "list_all2 (\<lambda>(k, raw) kv. \<exists>s v. REGISTRY k = Some s \<and> parse num s raw = Inr v \<and> kv = (k, v)) (rev u) (rev g)"
    by (simp only: list_all2_rev)
  from updates_lookup [OF this, of "st_key s"] h show ?thesis
    by (auto simp: raw_value_def b(3) map_add_def registry_some [OF assms(2)])
qed

lemma applied:
  assumes "apply_updates num u cfg = Inr st"
  obtains pv where "parsed_values num cfg u = Inr pv" "\<not> cross_raises cfg"
    "result_each (entry_text num (clamped_value cfg pv)) SETTINGS = Inr st"
  using assms by (auto simp: apply_updates_def Let_def result_bind_Inr split: if_splits)

lemma applied_at:
  assumes "apply_updates num u cfg = Inr st" "parsed_values num cfg u = Inr pv" "s \<in> set SETTINGS"
  shows "\<exists>c. canonical_text num s (clamped_value cfg pv s) = Inr c \<and> map_of st (st_key s) = Some c"
proof -
  have "result_each (entry_text num (clamped_value cfg pv)) SETTINGS = Inr st"
    using applied [OF assms(1)] assms(2) by (metis Inr_inject)
  then show ?thesis using assms(3) unfolding entry_text_def by (elim entries) blast
qed

lemma rule_simps:
  "rule_slot p v k = (if k = ''MIN_POSITION_PERCENT'' then min (v k) (1 / of_int (max 1 p)) else v k)"
  "rule_max v k = (if k = ''MAX_POSITION_PERCENT'' then min (v k) (v ''MAX_POSITION_PERCENT_SIZING'') else v k)"
  "rule_min v k = (if k = ''MIN_POSITION_PERCENT'' \<and> v ''MAX_POSITION_PERCENT'' \<le> v k then max 0.01 (v ''MAX_POSITION_PERCENT'' - 0.01) else v k)"
  "rule_bands v k = (if k = ''SIGNAL_SELL_THRESHOLD'' \<and> v ''SIGNAL_BUY_THRESHOLD'' \<le> v k then v ''SIGNAL_BUY_THRESHOLD'' - 0.10 else v k)"
  "rule_stop h v k = (if k = ''STOP_LOSS_PCT'' then min (v k) (h - 0.1) else v k)"
  "rule_top_k p v k = (if k = ''ROUND_TABLE_TOP_K_EVAL'' \<and> \<lfloor>v k\<rfloor> \<le> p then of_int (p + 1) else v k)"
  by (auto simp: rule_slot_def rule_max_def rule_min_def rule_bands_def rule_stop_def rule_top_k_def)

lemma rule_tiers_simps:
  "rule_tiers h v ''LOSS_CUT_PCT'' = max (v ''LOSS_CUT_PCT'') (- h + 0.2)"
  "rule_tiers h v ''LOSS_WATCH_PCT'' = max (v ''LOSS_WATCH_PCT'') (max (v ''LOSS_CUT_PCT'') (- h + 0.2) + 0.1)"
  "rule_tiers h v ''LOSS_ESCALATION_PCT'' = max (min (v ''LOSS_ESCALATION_PCT'') (max (v ''LOSS_CUT_PCT'') (- h + 0.2) - 0.1)) (- h + 0.1)"
  "k \<notin> {''LOSS_CUT_PCT'', ''LOSS_WATCH_PCT'', ''LOSS_ESCALATION_PCT''} \<Longrightarrow> rule_tiers h v k = v k"
  by (auto simp: rule_tiers_def Let_def)

lemma cross_clamp_simps:
  "cross_clamp p h v ''STOP_LOSS_PCT'' = min (v ''STOP_LOSS_PCT'') (h - 0.1)"
  "cross_clamp p h v ''LOSS_CUT_PCT'' = max (v ''LOSS_CUT_PCT'') (- h + 0.2)"
  "cross_clamp p h v ''LOSS_WATCH_PCT'' = max (v ''LOSS_WATCH_PCT'') (max (v ''LOSS_CUT_PCT'') (- h + 0.2) + 0.1)"
  "cross_clamp p h v ''LOSS_ESCALATION_PCT'' = max (min (v ''LOSS_ESCALATION_PCT'') (max (v ''LOSS_CUT_PCT'') (- h + 0.2) - 0.1)) (- h + 0.1)"
  "cross_clamp p h v ''ROUND_TABLE_TOP_K_EVAL'' = (if \<lfloor>v ''ROUND_TABLE_TOP_K_EVAL''\<rfloor> \<le> p then of_int (p + 1) else v ''ROUND_TABLE_TOP_K_EVAL'')"
  "cross_clamp p h v ''MAX_POSITION_PERCENT'' = min (v ''MAX_POSITION_PERCENT'') (v ''MAX_POSITION_PERCENT_SIZING'')"
  by (simp_all add: cross_clamp_def rule_simps rule_tiers_simps)

lemma cross_clamp_sell:
  "cross_clamp p h v ''SIGNAL_SELL_THRESHOLD'' =
     (if v ''SIGNAL_BUY_THRESHOLD'' \<le> v ''SIGNAL_SELL_THRESHOLD'' then v ''SIGNAL_BUY_THRESHOLD'' - 0.10 else v ''SIGNAL_SELL_THRESHOLD'')"
  by (simp add: cross_clamp_def rule_simps rule_tiers_simps)

lemma cross_clamp_min:
  "cross_clamp p h v ''MIN_POSITION_PERCENT'' =
     (let m = min (v ''MIN_POSITION_PERCENT'') (1 / of_int (max 1 p)); w = min (v ''MAX_POSITION_PERCENT'') (v ''MAX_POSITION_PERCENT_SIZING'')
      in if w \<le> m then max 0.01 (w - 0.01) else m)"
  by (simp add: cross_clamp_def rule_simps rule_tiers_simps Let_def)

section \<open>What a request can raise\<close>

definition raw_too_large :: "string \<Rightarrow> jval \<Rightarrow> bool" where
  "raw_too_large k v =
     (case (REGISTRY k, v) of
        (Some s, JNum r) \<Rightarrow> (st_kind s = K_Int \<or> st_kind s = K_Float) \<and> too_large r
      | _ \<Rightarrow> False)"

definition config_too_large :: "config option \<Rightarrow> bool" where
  "config_too_large cfg = list_ex (\<lambda>s. raw_too_large (st_key s) (cfg_getattr cfg s)) SETTINGS"

definition rules_too_large :: "config option \<Rightarrow> bool" where
  "rules_too_large cfg \<longleftrightarrow> too_large (of_int (max 1 (cfg_positions cfg) + 1)) \<or> too_large (cfg_hard cfg)"

lemma too_large_far: "too_large r \<Longrightarrow> 10 ^ 9 < \<bar>r\<bar>"
  unfolding too_large_def by (rule less_le_trans) simp_all

lemma not_too_large: "\<bar>r\<bar> \<le> 10 ^ 9 \<Longrightarrow> \<not> too_large r"
  using too_large_far by fastforce

lemma too_large_of_int_mono: "1 \<le> n \<Longrightarrow> n \<le> m \<Longrightarrow> too_large (of_int n) \<Longrightarrow> too_large (of_int m)"
  by (simp add: too_large_def)

lemma as_number_Inl: "as_number num v = Inl e \<longleftrightarrow> e = Overflow_Error \<and> (\<exists>r. v = JNum r \<and> too_large r)"
  by (cases v) (auto simp: as_number_def)

lemma parse_Inl:
  assumes "s \<in> set SETTINGS"
  shows "parse num s v = Inl e \<longleftrightarrow> e = Overflow_Error \<and> raw_too_large (st_key s) v"
  by (cases "st_kind s"; cases v)
     (auto simp: parse_def result_bind_Inl as_number_Inl raw_too_large_def registry_some [OF assms])

lemma settings_small: "list_all (\<lambda>s. \<bar>st_lo s\<bar> \<le> 10 ^ 6 \<and> \<bar>st_hi s\<bar> \<le> 10 ^ 6) SETTINGS"
  by code_simp

lemma parsed_small:
  assumes "s \<in> set SETTINGS" "parse num s v = Inr p"
  shows "\<bar>jnum p\<bar> \<le> 10 ^ 6"
proof -
  have b: "\<bar>st_lo s\<bar> \<le> 10 ^ 6" "\<bar>st_hi s\<bar> \<le> 10 ^ 6" using settings_small assms(1) by (auto simp: list_all_iff)
  show ?thesis
  proof (cases "st_kind s")
    case K_Float
    then show ?thesis using parse_number [OF setting_okI [OF assms(1)] _ assms(2)] b by (auto simp: jnum_def abs_le_iff)
  next
    case K_Int
    then show ?thesis using parse_int [OF setting_okI [OF assms(1)] _ assms(2)] b by (auto simp: jnum_def abs_le_iff)
  next
    case K_Bool
    then show ?thesis using setting_okI [OF assms(1)] assms(2)
      by (auto simp: parse_def setting_ok_def jnum_def Let_def split: jval.splits if_splits)
  next
    case K_Enum
    then show ?thesis using setting_okI [OF assms(1)] assms(2)
      by (auto simp: parse_def setting_ok_def jnum_def Let_def list_ex_iff split: jval.splits if_splits)
  qed
qed

lemma number_small:
  assumes "parsed_values num cfg u = Inr pv" "list_ex (\<lambda>s. st_key s = k) SETTINGS"
  shows "\<bar>number_of pv k\<bar> \<le> 10 ^ 6"
  using assms(2) parsed_at [OF assms(1)] parsed_small by (fastforce simp: list_ex_iff number_of_def)

text \<open>After the rules only the count of names to evaluate can be too large: it is one above the positions held.\<close>

lemma slot_small: "\<bar>x\<bar> \<le> 10 ^ 6 \<Longrightarrow> \<bar>min x (1 / of_int (max 1 p))\<bar> \<le> (10 ^ 6 :: real)"
proof -
  assume x: "\<bar>x\<bar> \<le> 10 ^ 6"
  have "(0 :: real) \<le> 1 / of_int (max 1 p)" "1 / of_int (max 1 p) \<le> (1 :: real)" by simp_all
  then have "\<bar>min x s\<bar> \<le> 10 ^ 6" if "s = 1 / (of_int (max 1 p) :: real)" for s
    using x unfolding that [symmetric] by (simp add: min_def abs_le_iff)
  then show ?thesis by blast
qed

lemma min_small:
  "\<bar>m :: real\<bar> \<le> 10 ^ 6 \<Longrightarrow> \<bar>a\<bar> \<le> 10 ^ 6 \<Longrightarrow> \<bar>b\<bar> \<le> 10 ^ 6 \<Longrightarrow> \<bar>if min a b \<le> m then max 0.01 (min a b - 0.01) else m\<bar> \<le> 10 ^ 9"
  by (simp add: min_def max_def abs_le_iff)

lemma clamp_small:
  fixes x y h :: real
  shows "\<bar>x\<bar> \<le> 10 ^ 6 \<Longrightarrow> \<bar>y\<bar> \<le> 10 ^ 6 \<Longrightarrow> \<bar>min x y\<bar> \<le> 10 ^ 9"
    "\<bar>x\<bar> \<le> 10 ^ 6 \<Longrightarrow> \<bar>y\<bar> \<le> 10 ^ 6 \<Longrightarrow> \<bar>if y \<le> x then y - 0.10 else x\<bar> \<le> 10 ^ 9"
    "\<bar>x\<bar> \<le> 10 ^ 6 \<Longrightarrow> 0 \<le> h \<Longrightarrow> \<bar>min x (h - 0.1)\<bar> \<le> 10 ^ 9"
    "\<bar>x\<bar> \<le> 10 ^ 6 \<Longrightarrow> 0 \<le> h \<Longrightarrow> \<bar>max x (- h + 0.2)\<bar> \<le> 10 ^ 9"
    "\<bar>x\<bar> \<le> 10 ^ 6 \<Longrightarrow> \<bar>y\<bar> \<le> 10 ^ 6 \<Longrightarrow> 0 \<le> h \<Longrightarrow> \<bar>max x (max y (- h + 0.2) + 0.1)\<bar> \<le> 10 ^ 9"
    "\<bar>x\<bar> \<le> 10 ^ 6 \<Longrightarrow> \<bar>y\<bar> \<le> 10 ^ 6 \<Longrightarrow> 0 \<le> h \<Longrightarrow> \<bar>max (min x (max y (- h + 0.2) - 0.1)) (- h + 0.1)\<bar> \<le> 10 ^ 9"
  by (simp_all add: min_def max_def abs_le_iff)

lemma cross_small:
  assumes "0 \<le> h" "\<And>k. k \<in> set (''MAX_POSITION_PERCENT_SIZING'' # ''SIGNAL_BUY_THRESHOLD'' # cross_keys) \<Longrightarrow> \<bar>v k\<bar> \<le> 10 ^ 6"
    "k \<in> set cross_keys" "k \<noteq> ''ROUND_TABLE_TOP_K_EVAL''"
  shows "\<bar>cross_clamp p h v k\<bar> \<le> 10 ^ 9"
proof -
  have v: "\<bar>v ''MIN_POSITION_PERCENT''\<bar> \<le> 10 ^ 6" "\<bar>v ''MAX_POSITION_PERCENT''\<bar> \<le> 10 ^ 6" "\<bar>v ''SIGNAL_SELL_THRESHOLD''\<bar> \<le> 10 ^ 6"
    "\<bar>v ''STOP_LOSS_PCT''\<bar> \<le> 10 ^ 6" "\<bar>v ''LOSS_CUT_PCT''\<bar> \<le> 10 ^ 6" "\<bar>v ''LOSS_ESCALATION_PCT''\<bar> \<le> 10 ^ 6"
    "\<bar>v ''LOSS_WATCH_PCT''\<bar> \<le> 10 ^ 6" "\<bar>v ''MAX_POSITION_PERCENT_SIZING''\<bar> \<le> 10 ^ 6" "\<bar>v ''SIGNAL_BUY_THRESHOLD''\<bar> \<le> 10 ^ 6"
    by (rule assms(2); simp add: cross_keys_def)+
  let ?m = "min (v ''MIN_POSITION_PERCENT'') (1 / of_int (max 1 p))"
  have m: "\<bar>?m\<bar> \<le> 10 ^ 6" using v(1) by (rule slot_small)
  have "\<bar>cross_clamp p h v ''MIN_POSITION_PERCENT''\<bar> \<le> 10 ^ 9"
    unfolding cross_clamp_min Let_def by (rule min_small [OF m v(2,8)])
  moreover have "\<bar>cross_clamp p h v ''MAX_POSITION_PERCENT''\<bar> \<le> 10 ^ 9"
    unfolding cross_clamp_simps by (rule clamp_small(1) [OF v(2,8)])
  moreover have "\<bar>cross_clamp p h v ''SIGNAL_SELL_THRESHOLD''\<bar> \<le> 10 ^ 9"
    unfolding cross_clamp_sell by (rule clamp_small(2) [OF v(3,9)])
  moreover have "\<bar>cross_clamp p h v ''STOP_LOSS_PCT''\<bar> \<le> 10 ^ 9" unfolding cross_clamp_simps by (rule clamp_small(3) [OF v(4) assms(1)])
  moreover have "\<bar>cross_clamp p h v ''LOSS_CUT_PCT''\<bar> \<le> 10 ^ 9" unfolding cross_clamp_simps by (rule clamp_small(4) [OF v(5) assms(1)])
  moreover have "\<bar>cross_clamp p h v ''LOSS_WATCH_PCT''\<bar> \<le> 10 ^ 9"
    unfolding cross_clamp_simps by (rule clamp_small(5) [OF v(7,5) assms(1)])
  moreover have "\<bar>cross_clamp p h v ''LOSS_ESCALATION_PCT''\<bar> \<le> 10 ^ 9"
    unfolding cross_clamp_simps by (rule clamp_small(6) [OF v(6,5) assms(1)])
  ultimately show ?thesis using assms(3,4) by (auto simp: cross_keys_def)
qed

lemma settings_members:
  "mk_f ''LOSS_WATCH_PCT'' (- 3) (- 7.9) (- 0.5) 1 \<in> set SETTINGS"
  "mk_f ''LOSS_CUT_PCT'' (- 6) (- 7.9) (- 1) 1 \<in> set SETTINGS"
  "mk_f ''LOSS_ESCALATION_PCT'' (- 7.9) (- 7.9) (- 2) 1 \<in> set SETTINGS"
  "mk_f ''STOP_LOSS_PCT'' 7 1 7.9 1 \<in> set SETTINGS"
  "mk_f ''MIN_POSITION_PERCENT'' 0.05 0.01 0.10 2 \<in> set SETTINGS"
  "mk_f ''MAX_POSITION_PERCENT'' 0.25 0.05 0.40 2 \<in> set SETTINGS"
  "mk_f ''MAX_POSITION_PERCENT_SIZING'' 0.30 0.05 0.50 2 \<in> set SETTINGS"
  "mk_f ''SIGNAL_SELL_THRESHOLD'' 0.35 0.25 0.45 2 \<in> set SETTINGS"
  "mk_f ''SIGNAL_BUY_THRESHOLD'' 0.73 0.55 0.75 2 \<in> set SETTINGS"
  "mk_i ''ROUND_TABLE_TOP_K_EVAL'' 60 10 60 \<in> set SETTINGS"
  by (simp_all only: SETTINGS_def list.set insert_iff simp_thms)

lemma key_listed:
  "mk_f k d lo hi n \<in> set SETTINGS \<Longrightarrow> list_ex (\<lambda>s. st_key s = k) SETTINGS"
  "mk_i k d lo hi \<in> set SETTINGS \<Longrightarrow> list_ex (\<lambda>s. st_key s = k) SETTINGS"
  by (force simp: list_ex_iff mk_f_def, force simp: list_ex_iff mk_i_def)

lemma cross_inputs: "list_all (\<lambda>k. list_ex (\<lambda>s. st_key s = k) SETTINGS) (''MAX_POSITION_PERCENT_SIZING'' # ''SIGNAL_BUY_THRESHOLD'' # cross_keys)"
  unfolding cross_keys_def list_all_iff list.set ball_simps
  by (intro conjI TrueI key_listed(2) [OF settings_members(10)] settings_members(1-9) [THEN key_listed(1)])

lemma cfg_hard_nonneg: "0 \<le> cfg_hard cfg"
  by (simp add: cfg_hard_def split: option.split)

lemma clamped_too_large:
  assumes "parsed_values num cfg u = Inr pv" "s \<in> set SETTINGS" "raw_too_large (st_key s) (clamped_value cfg pv s)"
  shows "st_key s = ''ROUND_TABLE_TOP_K_EVAL'' \<and> too_large (of_int (max 1 (cfg_positions cfg) + 1))"
proof -
  let ?v = "number_of pv" let ?p = "cfg_positions cfg"
  have v: "\<bar>?v k\<bar> \<le> 10 ^ 6" if "k \<in> set (''MAX_POSITION_PERCENT_SIZING'' # ''SIGNAL_BUY_THRESHOLD'' # cross_keys)" for k
    using number_small [OF assms(1)] cross_inputs that by (auto simp: list_all_iff)
  show ?thesis
  proof (cases "st_key s \<in> set cross_keys")
    case True
    then have l: "too_large (cross_clamp ?p (cfg_hard cfg) ?v (st_key s))"
      using assms(3) by (auto simp: raw_too_large_def clamped_value_def split: option.splits)
    have "\<bar>cross_clamp ?p (cfg_hard cfg) ?v (st_key s)\<bar> \<le> 10 ^ 9" if "st_key s \<noteq> ''ROUND_TABLE_TOP_K_EVAL''"
      by (rule cross_small [OF cfg_hard_nonneg v True that])
    with l have k: "st_key s = ''ROUND_TABLE_TOP_K_EVAL''" using not_too_large by blast
    have small: "\<bar>?v ''ROUND_TABLE_TOP_K_EVAL''\<bar> \<le> 10 ^ 6" using v True k by simp
    then have "\<not> too_large (?v ''ROUND_TABLE_TOP_K_EVAL'')" by (intro not_too_large) simp
    then have t: "too_large (of_int (?p + 1))" "\<lfloor>?v ''ROUND_TABLE_TOP_K_EVAL''\<rfloor> \<le> ?p"
      using l unfolding k cross_clamp_simps by (simp_all split: if_splits)
    have "- (10 ^ 6) \<le> \<lfloor>?v ''ROUND_TABLE_TOP_K_EVAL''\<rfloor>" using small by (simp add: le_floor_iff abs_le_iff)
    then have "- (10 ^ 6) \<le> ?p" using t(2) by linarith
    then have "1 \<le> ?p" using t(1) not_too_large [of "of_int (?p + 1)"] by (cases "1 \<le> ?p") (auto simp: abs_le_iff)
    then show ?thesis using k t(1) by (simp add: max_def)
  next
    case False
    obtain p where p: "parse num s (raw_value cfg u s) = Inr p" "pv (st_key s) = Some p" using parsed_at [OF assms(1,2)] by blast
    have "\<not> raw_too_large (st_key s) p"
      using not_too_large [of "jnum p"] parsed_small [OF assms(2) p(1)] by (auto simp: raw_too_large_def jnum_def split: jval.splits option.splits)
    then show ?thesis using assms(3) False p(2) by (simp add: clamped_value_def)
  qed
qed

lemma clamped_too_largeI:
  assumes "parsed_values num cfg u = Inr pv" "too_large (of_int (max 1 (cfg_positions cfg) + 1))"
  shows "\<exists>s \<in> set SETTINGS. raw_too_large (st_key s) (clamped_value cfg pv s)"
proof -
  let ?s = "mk_i ''ROUND_TABLE_TOP_K_EVAL'' 60 10 60" let ?p = "cfg_positions cfg" let ?v = "number_of pv ''ROUND_TABLE_TOP_K_EVAL''"
  have s: "?s \<in> set SETTINGS" by (rule settings_members(10))
  have k: "st_key ?s = ''ROUND_TABLE_TOP_K_EVAL''" "st_kind ?s = K_Int" by (simp_all add: mk_i_def)
  have v: "\<bar>?v\<bar> \<le> 10 ^ 6"
    by (rule number_small [OF assms(1)]) (use cross_inputs in \<open>simp add: list_all_iff cross_keys_def\<close>)
  have "10 ^ 9 < \<bar>of_int (max 1 ?p + 1) :: real\<bar>" using assms(2) by (rule too_large_far)
  then have p: "10 ^ 9 < ?p + 1" "1 \<le> ?p" by (auto simp: max_def split: if_splits)
  then have "of_int (10 ^ 9) \<le> (of_int ?p :: real)" by (simp only: of_int_le_iff)
  then have "\<lfloor>?v\<rfloor> \<le> ?p" using v by (simp add: floor_le_iff abs_le_iff)
  then have "clamped_value cfg pv ?s = JNum (of_int (?p + 1))"
    by (simp add: clamped_value_def k cross_clamp_simps cross_keys_def)
  then have "raw_too_large (st_key ?s) (clamped_value cfg pv ?s)"
    using assms(2) p(2) registry_some [OF s] k(2) by (simp add: raw_too_large_def max_def)
  with s show ?thesis by blast
qed

lemma entry_text_Inl:
  assumes "s \<in> set SETTINGS"
  shows "entry_text num g s = Inl e \<longleftrightarrow> e = Overflow_Error \<and> raw_too_large (st_key s) (g s)"
  by (simp add: entry_text_def canonical_text_def result_bind_Inl parse_Inl [OF assms])

lemma entries_fail:
  "result_each (entry_text num g) SETTINGS = Inl e \<Longrightarrow> e = Overflow_Error \<and> list_ex (\<lambda>s. raw_too_large (st_key s) (g s)) SETTINGS"
  "result_each (entry_text num g) SETTINGS = Inr st \<Longrightarrow> \<not> list_ex (\<lambda>s. raw_too_large (st_key s) (g s)) SETTINGS"
proof -
  assume "result_each (entry_text num g) SETTINGS = Inl e"
  from result_each_Inl [OF this] show "e = Overflow_Error \<and> list_ex (\<lambda>s. raw_too_large (st_key s) (g s)) SETTINGS"
    by (auto simp: entry_text_Inl list_ex_iff)
next
  assume "result_each (entry_text num g) SETTINGS = Inr st"
  then have "entry_text num g s \<noteq> Inl Overflow_Error" if "s \<in> set SETTINGS" for s
    using that by (fastforce simp: result_each_Inr list_all2_conv_all_nth in_set_conv_nth)
  then show "\<not> list_ex (\<lambda>s. raw_too_large (st_key s) (g s)) SETTINGS" by (auto simp: entry_text_Inl list_ex_iff)
qed

lemma config_fail:
  "parsed_config num cfg = Inl e \<Longrightarrow> e = Overflow_Error \<and> config_too_large cfg"
  "parsed_config num cfg = Inr base \<Longrightarrow> \<not> config_too_large cfg"
proof -
  assume "parsed_config num cfg = Inl e"
  from result_each_Inl [OF this [unfolded parsed_config_def]] show "e = Overflow_Error \<and> config_too_large cfg"
    by (auto simp: result_bind_Inl parse_Inl config_too_large_def list_ex_iff)
next
  assume a: "parsed_config num cfg = Inr base"
  have "parse num s (cfg_getattr cfg s) \<noteq> Inl Overflow_Error" if "s \<in> set SETTINGS" for s
    using a that unfolding parsed_config_def by (elim entries) auto
  then show "\<not> config_too_large cfg" by (auto simp: config_too_large_def list_ex_iff parse_Inl)
qed

lemma registry_member: "REGISTRY k = Some s \<Longrightarrow> s \<in> set SETTINGS \<and> st_key s = k"
  by (auto simp: REGISTRY_def find_Some_iff)

lemma updates_fail:
  assumes "list_all (\<lambda>k. REGISTRY k \<noteq> None) (map fst u)"
  shows "parsed_updates num u = Inl e \<Longrightarrow> e = Overflow_Error \<and> list_ex (\<lambda>(k, v). raw_too_large k v) u"
    "parsed_updates num u = Inr g \<Longrightarrow> \<not> list_ex (\<lambda>(k, v). raw_too_large k v) u"
proof -
  assume "parsed_updates num u = Inl e"
  from result_each_Inl [OF this [unfolded parsed_updates_def]] show "e = Overflow_Error \<and> list_ex (\<lambda>(k, v). raw_too_large k v) u"
    using assms by (fastforce simp: result_bind_Inl list_ex_iff list_all_iff parse_Inl dest: registry_member split: option.splits)
next
  assume a: "parsed_updates num u = Inr g"
  have "\<exists>s w. REGISTRY k = Some s \<and> parse num s v = Inr w" if "(k, v) \<in> set u" for k v
    using a that by (fastforce simp: parsed_updates_def result_each_Inr list_all2_conv_all_nth in_set_conv_nth result_bind_Inr
        split: option.splits)
  then have "\<not> raw_too_large k v" if "(k, v) \<in> set u" for k v
    using that parse_Inl registry_member by (metis sum.distinct(1))
  then show "\<not> list_ex (\<lambda>(k, v). raw_too_large k v) u" by (auto simp: list_ex_iff)
qed

lemma cross_raises_rules:
  assumes "parsed_values num cfg u = Inr pv" "\<not> cross_raises cfg"
  shows "rules_too_large cfg \<longleftrightarrow> list_ex (\<lambda>s. raw_too_large (st_key s) (clamped_value cfg pv s)) SETTINGS"
  using clamped_too_large [OF assms(1)] clamped_too_largeI [OF assms(1)] assms(2)
  by (auto simp: rules_too_large_def cross_raises_def list_ex_iff)

lemma cross_raises_too_large: "cross_raises cfg \<Longrightarrow> rules_too_large cfg"
  using too_large_of_int_mono [of "max 1 (cfg_positions cfg)" "max 1 (cfg_positions cfg) + 1"]
  by (auto simp: cross_raises_def rules_too_large_def)

lemma apply_updates_cases:
  assumes "list_all (\<lambda>k. REGISTRY k \<noteq> None) (map fst u)"
  shows "(\<exists>st. apply_updates num u cfg = Inr st \<and> state_ok st
        \<and> \<not> list_ex (\<lambda>(k, v). raw_too_large k v) u \<and> \<not> config_too_large cfg \<and> \<not> rules_too_large cfg)
    \<or> apply_updates num u cfg = Inl Overflow_Error
        \<and> (list_ex (\<lambda>(k, v). raw_too_large k v) u \<or> config_too_large cfg \<or> rules_too_large cfg)"
proof -
  have unk: "filter (\<lambda>k. REGISTRY k = None) (map fst u) = []" using assms by (simp add: filter_empty_conv list_all_iff)
  show ?thesis
  proof (cases "parsed_values num cfg u")
    case (Inl e)
    then show ?thesis using config_fail updates_fail [OF assms] unk
      by (fastforce simp: apply_updates_def parsed_values_def result_bind_Inl Let_def)
  next
    case (Inr pv)
    then have ok: "\<not> config_too_large cfg" "\<not> list_ex (\<lambda>(k, v). raw_too_large k v) u"
      using config_fail(2) updates_fail(2) [OF assms] by (fastforce simp: parsed_values_def result_bind_Inr)+
    have e: "apply_updates num u cfg
        = (if cross_raises cfg then Inl Overflow_Error else result_each (entry_text num (clamped_value cfg pv)) SETTINGS)"
      by (simp add: apply_updates_def Let_def unk Inr del: filter_map)
    show ?thesis
      using e ok cross_raises_too_large [of cfg] cross_raises_rules [OF Inr] entries_fail [of num "clamped_value cfg pv"]
        state_okI [of num "clamped_value cfg pv"]
      by (cases "result_each (entry_text num (clamped_value cfg pv)) SETTINGS") auto
  qed
qed

text \<open>
  C35: applying a request gives a state that has every key of the registry once and in order, each with a value
  of its kind inside its bounds (on the decimal grid), whatever was sent and whatever the configuration holds. It
  raises in two cases and no other: on keys that are not in the registry, which are reported, and, when all keys
  are known, on a number too large for a float: sent for a numeric setting, held by the configuration for one, or
  its count of positions or hard stop. The current state has the same form, or raises for such a number of the
  configuration.
\<close>
theorem every_setting_in_bounds:
  "(case apply_updates num u cfg of
      Inl (Unknown_Settings ks) \<Rightarrow> ks \<noteq> [] \<and> ks = filter (\<lambda>k. k \<notin> set (map st_key SETTINGS)) (map fst u)
    | Inl Overflow_Error \<Rightarrow> list_all (\<lambda>k. k \<in> set (map st_key SETTINGS)) (map fst u)
        \<and> (list_ex (\<lambda>(k, v). raw_too_large k v) u \<or> config_too_large cfg \<or> rules_too_large cfg)
    | Inr st \<Rightarrow> state_ok st \<and> list_all (\<lambda>k. k \<in> set (map st_key SETTINGS)) (map fst u)
        \<and> \<not> list_ex (\<lambda>(k, v). raw_too_large k v) u \<and> \<not> config_too_large cfg \<and> \<not> rules_too_large cfg)
   \<and> (case current_settings num cfg of
        Inl e \<Rightarrow> e = Overflow_Error \<and> config_too_large cfg
      | Inr st \<Rightarrow> state_ok st \<and> \<not> config_too_large cfg)"
proof
  have n: "(REGISTRY k \<noteq> None) = (k \<in> set (map st_key SETTINGS))" for k by (simp only: registry_none) simp
  show "case apply_updates num u cfg of
      Inl (Unknown_Settings ks) \<Rightarrow> ks \<noteq> [] \<and> ks = filter (\<lambda>k. k \<notin> set (map st_key SETTINGS)) (map fst u)
    | Inl Overflow_Error \<Rightarrow> list_all (\<lambda>k. k \<in> set (map st_key SETTINGS)) (map fst u)
        \<and> (list_ex (\<lambda>(k, v). raw_too_large k v) u \<or> config_too_large cfg \<or> rules_too_large cfg)
    | Inr st \<Rightarrow> state_ok st \<and> list_all (\<lambda>k. k \<in> set (map st_key SETTINGS)) (map fst u)
        \<and> \<not> list_ex (\<lambda>(k, v). raw_too_large k v) u \<and> \<not> config_too_large cfg \<and> \<not> rules_too_large cfg"
  proof (cases "list_all (\<lambda>k. REGISTRY k \<noteq> None) (map fst u)")
    case True
    then have "list_all (\<lambda>k. k \<in> set (map st_key SETTINGS)) (map fst u)" unfolding n .
    then show ?thesis using apply_updates_cases [OF True, of num cfg] by auto
  next
    case False
    then have f: "filter (\<lambda>k. REGISTRY k = None) (map fst u) \<noteq> []" by (simp add: filter_empty_conv list_all_iff del: filter_map)
    then have "apply_updates num u cfg = Inl (Unknown_Settings (filter (\<lambda>k. REGISTRY k = None) (map fst u)))"
      by (simp add: apply_updates_def del: filter_map)
    then show ?thesis using f by (simp only: registry_none sum.case settings_error.case simp_thms)
  qed
  show "case current_settings num cfg of
        Inl e \<Rightarrow> e = Overflow_Error \<and> config_too_large cfg
      | Inr st \<Rightarrow> state_ok st \<and> \<not> config_too_large cfg"
    using entries_fail [of num "cfg_getattr cfg"] state_okI [of num "cfg_getattr cfg"]
    by (simp add: current_settings_def config_too_large_def split: sum.split)
qed

section \<open>The rules between settings hold in every new state\<close>

definition text_number :: "(string \<times> canon) list \<Rightarrow> string \<Rightarrow> real" where
  "text_number st k = (case map_of st k of Some (Fixed d n) \<Rightarrow> of_int n / 10 ^ d | _ \<Rightarrow> 0)"

definition on_grid :: "nat \<Rightarrow> real \<Rightarrow> real \<Rightarrow> real \<Rightarrow> real" where
  "on_grid d lo hi x = of_int (round_half_even (max lo (min hi x) * 10 ^ d)) / 10 ^ d"

lemma on_grid_mono: "x \<le> y \<Longrightarrow> lo \<le> lo' \<Longrightarrow> hi \<le> hi' \<Longrightarrow> on_grid d lo hi x \<le> on_grid d lo' hi' y"
  unfolding on_grid_def
  by (intro divide_right_mono mult_right_mono iffD2 [OF of_int_le_iff] round_half_even_mono) auto

lemma on_grid_near: "\<bar>on_grid d lo hi x - max lo (min hi x)\<bar> \<le> 1 / 2 / 10 ^ d"
proof -
  let ?m = "max lo (min hi x)"
  have "on_grid d lo hi x - ?m = (of_int (round_half_even (?m * 10 ^ d)) - ?m * 10 ^ d) / 10 ^ d"
    by (simp add: on_grid_def diff_divide_distrib)
  then have "\<bar>on_grid d lo hi x - ?m\<bar> = \<bar>of_int (round_half_even (?m * 10 ^ d)) - ?m * 10 ^ d\<bar> / 10 ^ d" by simp
  also have "\<dots> \<le> 1 / 2 / 10 ^ d" by (rule divide_right_mono [OF round_half_even_near]) simp
  finally show ?thesis .
qed

lemma registry_mk_f: "mk_f k d lo hi n \<in> set SETTINGS \<Longrightarrow> REGISTRY k = Some (mk_f k d lo hi n)"
  using registry_some by (fastforce simp: mk_f_def)

lemma cross_text:
  assumes "apply_updates num u cfg = Inr st" "parsed_values num cfg u = Inr pv" "mk_f k d lo hi n \<in> set SETTINGS" "k \<in> set cross_keys"
  shows "text_number st k = on_grid n lo hi (cross_clamp (cfg_positions cfg) (cfg_hard cfg) (number_of pv) k)"
proof -
  let ?s = "mk_f k d lo hi n" let ?x = "cross_clamp (cfg_positions cfg) (cfg_hard cfg) (number_of pv) k"
  have k: "st_key ?s = k" by (simp add: mk_f_def)
  obtain c where c: "canonical_text num ?s (clamped_value cfg pv ?s) = Inr c" "map_of st k = Some c"
    using applied_at [OF assms(1-3)] unfolding k by blast
  have "clamped_value cfg pv ?s = JNum ?x" using assms(4) by (simp add: clamped_value_def k)
  with c show ?thesis
    by (auto simp: text_number_def on_grid_def canonical_text_def parse_def as_number_def mk_f_def Let_def jnum_def
        result_bind_Inr split: if_splits)
qed

lemma parsed_bounds:
  assumes "parsed_values num cfg u = Inr pv" "mk_f k d lo hi n \<in> set SETTINGS"
  shows "\<exists>x. pv k = Some (JNum x) \<and> number_of pv k = x \<and> lo \<le> x \<and> x \<le> hi"
proof -
  let ?s = "mk_f k d lo hi n"
  have s: "setting_ok ?s" "st_kind ?s = K_Float" "st_key ?s = k" using setting_okI [OF assms(2)] by (simp_all add: mk_f_def)
  obtain p where p: "parse num ?s (raw_value cfg u ?s) = Inr p" "pv k = Some p" using parsed_at [OF assms] unfolding s by blast
  from parse_number [OF s(1,2) p(1)] p(2) show ?thesis by (auto simp: number_of_def jnum_def mk_f_def)
qed

lemma free_text:
  assumes "apply_updates num u cfg = Inr st" "parsed_values num cfg u = Inr pv" "mk_f k d lo hi n \<in> set SETTINGS" "k \<notin> set cross_keys"
  shows "text_number st k = on_grid n lo hi (number_of pv k)"
proof -
  let ?s = "mk_f k d lo hi n"
  have k: "st_key ?s = k" by (simp add: mk_f_def)
  obtain x where x: "pv k = Some (JNum x)" "number_of pv k = x" using parsed_bounds [OF assms(2,3)] by blast
  obtain c where c: "canonical_text num ?s (clamped_value cfg pv ?s) = Inr c" "map_of st k = Some c"
    using applied_at [OF assms(1-3)] unfolding k by blast
  have "clamped_value cfg pv ?s = JNum x" using assms(4) x by (simp add: clamped_value_def k)
  with c x show ?thesis
    by (auto simp: text_number_def on_grid_def canonical_text_def parse_def as_number_def mk_f_def Let_def jnum_def
        result_bind_Inr split: if_splits)
qed

lemma on_grid_1: "max lo (min hi x) - 1 / 20 \<le> on_grid 1 lo hi x" "on_grid 1 lo hi x \<le> max lo (min hi x) + 1 / 20"
proof -
  have "\<bar>on_grid 1 lo hi x - max lo (min hi x)\<bar> \<le> 1 / 20" using on_grid_near [of 1 lo hi x] by simp
  then show "max lo (min hi x) - 1 / 20 \<le> on_grid 1 lo hi x" "on_grid 1 lo hi x \<le> max lo (min hi x) + 1 / 20"
    by (simp_all only: abs_le_iff) linarith+
qed

lemma escalation_below: "max (min a (max b (- h + 0.2) - 0.1)) (- h + 0.1) \<le> max b (- h + (0.2::real))"
  unfolding max_def min_def by (simp split: if_splits)

lemma above_hard:
  assumes "2 < h" "- h + 0.1 \<le> e" shows "- h < on_grid 1 (- 7.9) (- 2) e"
proof -
  have "min (- 2) e \<le> max (- 7.9) (min (- 2) e)" by simp
  moreover have "- h + 1 / 20 < min (- 2) e" if "e < - 2" using that assms by simp
  moreover have "max (- 7.9) (min (- 2) e) = (- 2 :: real)" if "- 2 \<le> e" using that by simp
  moreover have "max (- 7.9) (min (- 2) e) - 1 / 20 \<le> on_grid 1 (- 7.9) (- 2) e"
    by (rule on_grid_1)
  moreover have "on_grid 1 (- 7.9) (- 2) e = - 2" if "- 2 \<le> e"
  proof -
    have "on_grid 1 (- 7.9) (- 2) e = of_int (round_half_even (of_int (- 20))) / 10" using that by (simp add: on_grid_def)
    then show ?thesis by (simp only: round_half_even_of_int)
  qed
  ultimately show ?thesis using assms by linarith
qed

lemma below_hard:
  assumes "2 < h" "x \<le> h - 0.1" shows "on_grid 1 1 7.9 x < h"
proof -
  have "max 1 (min 7.9 x) \<le> h - 0.1" using assms by simp
  then show ?thesis using on_grid_1(2) [of 1 "7.9" x] by linarith
qed

lemma tiers_texts:
  assumes st: "apply_updates num u cfg = Inr st"
  shows "2 < cfg_hard cfg \<Longrightarrow> - cfg_hard cfg < text_number st ''LOSS_ESCALATION_PCT''"
    "text_number st ''LOSS_ESCALATION_PCT'' \<le> text_number st ''LOSS_CUT_PCT''"
    "text_number st ''LOSS_CUT_PCT'' \<le> text_number st ''LOSS_WATCH_PCT''"
    "2 < cfg_hard cfg \<Longrightarrow> text_number st ''STOP_LOSS_PCT'' < cfg_hard cfg"
proof -
  obtain pv where pv: "parsed_values num cfg u = Inr pv" using applied [OF st] by blast
  let ?v = "number_of pv" let ?h = "cfg_hard cfg"
  let ?e = "max (min (?v ''LOSS_ESCALATION_PCT'') (max (?v ''LOSS_CUT_PCT'') (- ?h + 0.2) - 0.1)) (- ?h + 0.1)"
  let ?c = "max (?v ''LOSS_CUT_PCT'') (- ?h + 0.2)" let ?w = "max (?v ''LOSS_WATCH_PCT'') (?c + 0.1)"
  have w: "text_number st ''LOSS_WATCH_PCT'' = on_grid 1 (- 7.9) (- 0.5) ?w"
    using cross_text [OF st pv settings_members(1)] by (simp only: cross_clamp_simps) (simp add: cross_keys_def)
  have c: "text_number st ''LOSS_CUT_PCT'' = on_grid 1 (- 7.9) (- 1) ?c"
    using cross_text [OF st pv settings_members(2)] by (simp only: cross_clamp_simps) (simp add: cross_keys_def)
  have e: "text_number st ''LOSS_ESCALATION_PCT'' = on_grid 1 (- 7.9) (- 2) ?e"
    using cross_text [OF st pv settings_members(3)] by (simp only: cross_clamp_simps) (simp add: cross_keys_def)
  have p: "text_number st ''STOP_LOSS_PCT'' = on_grid 1 1 7.9 (min (?v ''STOP_LOSS_PCT'') (?h - 0.1))"
    using cross_text [OF st pv settings_members(4)] by (simp only: cross_clamp_simps) (simp add: cross_keys_def)
  show "text_number st ''LOSS_ESCALATION_PCT'' \<le> text_number st ''LOSS_CUT_PCT''"
    unfolding e c by (rule on_grid_mono [OF escalation_below]) simp_all
  show "text_number st ''LOSS_CUT_PCT'' \<le> text_number st ''LOSS_WATCH_PCT''"
    unfolding w c by (rule on_grid_mono) (simp_all add: le_max_iff_disj)
  show "- ?h < text_number st ''LOSS_ESCALATION_PCT''" if h: "2 < ?h" unfolding e by (rule above_hard [OF h]) simp
  show "text_number st ''STOP_LOSS_PCT'' < ?h" if h: "2 < ?h" unfolding p by (rule below_hard [OF h]) simp
qed

lemma min_below: "0.05 \<le> (w::real) \<Longrightarrow> (if w \<le> m then max 0.01 (w - 0.01) else m) \<le> w"
  by auto

lemma size_texts:
  assumes st: "apply_updates num u cfg = Inr st"
  shows "text_number st ''MIN_POSITION_PERCENT'' \<le> text_number st ''MAX_POSITION_PERCENT''"
    "text_number st ''MAX_POSITION_PERCENT'' \<le> text_number st ''MAX_POSITION_PERCENT_SIZING''"
proof -
  obtain pv where pv: "parsed_values num cfg u = Inr pv" using applied [OF st] by blast
  let ?v = "number_of pv"
  let ?w = "min (?v ''MAX_POSITION_PERCENT'') (?v ''MAX_POSITION_PERCENT_SIZING'')"
  have x: "text_number st ''MAX_POSITION_PERCENT'' = on_grid 2 0.05 0.40 ?w"
    using cross_text [OF st pv settings_members(6)] by (simp only: cross_clamp_simps) (simp add: cross_keys_def)
  have z: "text_number st ''MAX_POSITION_PERCENT_SIZING'' = on_grid 2 0.05 0.50 (?v ''MAX_POSITION_PERCENT_SIZING'')"
    using free_text [OF st pv settings_members(7)] by (simp add: cross_keys_def)
  have n: "text_number st ''MIN_POSITION_PERCENT''
      = on_grid 2 0.01 0.10 (cross_clamp (cfg_positions cfg) (cfg_hard cfg) ?v ''MIN_POSITION_PERCENT'')"
    using cross_text [OF st pv settings_members(5)] by (simp add: cross_keys_def)
  have "0.05 \<le> ?w" using parsed_bounds [OF pv settings_members(6)] parsed_bounds [OF pv settings_members(7)] by auto
  then have "cross_clamp (cfg_positions cfg) (cfg_hard cfg) ?v ''MIN_POSITION_PERCENT'' \<le> ?w"
    unfolding cross_clamp_min Let_def by (rule min_below)
  then show "text_number st ''MIN_POSITION_PERCENT'' \<le> text_number st ''MAX_POSITION_PERCENT''"
    unfolding n x by (rule on_grid_mono) auto
  show "text_number st ''MAX_POSITION_PERCENT'' \<le> text_number st ''MAX_POSITION_PERCENT_SIZING''"
    unfolding x z by (rule on_grid_mono) auto
qed

lemma on_grid_range:
  assumes "grid_real n lo" "grid_real n hi" "lo \<le> hi"
  shows "lo \<le> on_grid n lo hi x" "on_grid n lo hi x \<le> hi"
  using grid_bounds [OF assms(1,2), of "max lo (min hi x)"] assms(3) by (simp_all add: on_grid_def)

lemma band_texts:
  assumes st: "apply_updates num u cfg = Inr st"
  shows "text_number st ''SIGNAL_SELL_THRESHOLD'' < text_number st ''SIGNAL_BUY_THRESHOLD''"
proof -
  obtain pv where pv: "parsed_values num cfg u = Inr pv" using applied [OF st] by blast
  note m = settings_members(8,9)
  have "\<exists>x. text_number st ''SIGNAL_SELL_THRESHOLD'' = on_grid 2 0.25 0.45 x"
    using cross_text [OF st pv m(1)] by (simp add: cross_keys_def) blast
  moreover have "\<exists>y. text_number st ''SIGNAL_BUY_THRESHOLD'' = on_grid 2 0.55 0.75 y"
    using free_text [OF st pv m(2)] by (simp add: cross_keys_def) blast
  moreover have "on_grid 2 0.25 0.45 x < on_grid 2 0.55 0.75 y" for x y
    by (rule le_less_trans [OF on_grid_range(2) less_le_trans [OF _ on_grid_range(1)]]; simp add: grid_real_def)
  ultimately show ?thesis by auto
qed

lemma top_k_text:
  assumes st: "apply_updates num u cfg = Inr st" and p: "cfg_positions cfg < 60"
  shows "of_int (cfg_positions cfg) < text_number st ''ROUND_TABLE_TOP_K_EVAL''"
proof -
  obtain pv where pv: "parsed_values num cfg u = Inr pv" using applied [OF st] by blast
  let ?s = "mk_i ''ROUND_TABLE_TOP_K_EVAL'' 60 10 60" let ?p = "cfg_positions cfg"
  have s: "?s \<in> set SETTINGS" by (rule settings_members(10))
  have k: "st_key ?s = ''ROUND_TABLE_TOP_K_EVAL''" "setting_ok ?s" "st_kind ?s = K_Int" using setting_okI [OF s] by (simp_all add: mk_i_def)
  obtain q where q: "parse num ?s (raw_value cfg u ?s) = Inr q" "pv ''ROUND_TABLE_TOP_K_EVAL'' = Some q"
    using parsed_at [OF pv s] unfolding k by blast
  from parse_int [OF k(2,3) q(1)] q(2) obtain n where n: "number_of pv ''ROUND_TABLE_TOP_K_EVAL'' = of_int n"
    by (auto simp: number_of_def jnum_def)
  let ?x = "cross_clamp ?p (cfg_hard cfg) (number_of pv) ''ROUND_TABLE_TOP_K_EVAL''"
  obtain c where c: "canonical_text num ?s (clamped_value cfg pv ?s) = Inr c" "map_of st ''ROUND_TABLE_TOP_K_EVAL'' = Some c"
    using applied_at [OF st pv s] unfolding k by blast
  have "clamped_value cfg pv ?s = JNum ?x" by (simp add: clamped_value_def k cross_keys_def)
  with c have t: "text_number st ''ROUND_TABLE_TOP_K_EVAL'' = of_int (round_half_even (max 10 (min 60 ?x)))"
    by (auto simp: text_number_def canonical_text_def parse_def as_number_def mk_i_def Let_def jnum_def result_bind_Inr split: if_splits)
  have "of_int (?p + 1) \<le> ?x" unfolding cross_clamp_simps n floor_of_int using p by simp
  then have "of_int (?p + 1) \<le> max 10 (min 60 ?x)" using p by simp
  then have "?p + 1 \<le> round_half_even (max 10 (min 60 ?x))" by (rule round_half_even_ge_int)
  then show ?thesis unfolding t by linarith
qed

text \<open>
  C34: in every state a request produces, read as it is stored (after rounding to text): the loss tiers are
  ordered, escalation at most cut, cut at most watch; the sell threshold is below the buy threshold; the smallest
  position is at most the largest, which is at most the sizing cap (at most and not below: the strict rule is
  lost when both are rounded to the same text). With a hard stop deeper than two percent all tiers lie above it
  and the stop at the broker inside it; with fewer than sixty positions more names are evaluated than positions
  held. The rule on the slot of a position is not among these, rounding breaks it.
\<close>
theorem settings_rules_hold:
  assumes "apply_updates num u cfg = Inr st"
  shows "text_number st ''LOSS_ESCALATION_PCT'' \<le> text_number st ''LOSS_CUT_PCT''
    \<and> text_number st ''LOSS_CUT_PCT'' \<le> text_number st ''LOSS_WATCH_PCT''
    \<and> text_number st ''SIGNAL_SELL_THRESHOLD'' < text_number st ''SIGNAL_BUY_THRESHOLD''
    \<and> text_number st ''MIN_POSITION_PERCENT'' \<le> text_number st ''MAX_POSITION_PERCENT''
    \<and> text_number st ''MAX_POSITION_PERCENT'' \<le> text_number st ''MAX_POSITION_PERCENT_SIZING''
    \<and> (if 2 < cfg_hard cfg
        then - cfg_hard cfg < text_number st ''LOSS_ESCALATION_PCT'' \<and> text_number st ''STOP_LOSS_PCT'' < cfg_hard cfg else True)
    \<and> (if cfg_positions cfg < 60 then of_int (cfg_positions cfg) < text_number st ''ROUND_TABLE_TOP_K_EVAL'' else True)"
  using tiers_texts [OF assms] band_texts [OF assms] size_texts [OF assms] top_k_text [OF assms] by simp

text \<open>A request of known keys and plain numbers on a plain configuration is applied.\<close>

definition plain_config :: "config option \<Rightarrow> bool" where
  "plain_config cfg \<longleftrightarrow> (case cfg of None \<Rightarrow> True
     | Some c \<Rightarrow> (\<forall>k. cg_attr c k = None) \<and> \<bar>cg_positions c\<bar> \<le> 1000 \<and> \<bar>cg_hard_stop c\<bar> \<le> 1000)"

lemma defaults_fit: "s \<in> set SETTINGS \<Longrightarrow> \<not> raw_too_large (st_key s) (st_default s)"
proof -
  assume s: "s \<in> set SETTINGS"
  have "\<bar>st_lo s\<bar> \<le> 10 ^ 6" "\<bar>st_hi s\<bar> \<le> 10 ^ 6" using settings_small s by (auto simp: list_all_iff)
  then have "\<bar>r\<bar> \<le> 10 ^ 6" if "st_default s = JNum r" "st_kind s = K_Int \<or> st_kind s = K_Float" for r
    using setting_okI [OF s] that by (auto simp: setting_ok_def jnum_def abs_le_iff)
  then show ?thesis
    using not_too_large registry_some [OF s] by (fastforce simp: raw_too_large_def split: jval.splits)
qed

lemma plain_fits:
  assumes "plain_config cfg" shows "\<not> config_too_large cfg" "\<not> rules_too_large cfg"
proof -
  have "cfg_getattr cfg s = st_default s" for s using assms by (auto simp: cfg_getattr_def plain_config_def split: option.splits)
  then show "\<not> config_too_large cfg" using defaults_fit by (simp add: config_too_large_def list_ex_iff)
  have "\<bar>cfg_positions cfg\<bar> \<le> 1000" "\<bar>cfg_hard cfg\<bar> \<le> 1000"
    using assms by (auto simp: cfg_positions_def cfg_hard_def plain_config_def split: option.splits)
  then have "of_int (max 1 (cfg_positions cfg) + 1) \<le> (10 ^ 9 :: real)" "\<bar>cfg_hard cfg\<bar> \<le> 10 ^ 9" by auto
  then show "\<not> rules_too_large cfg" by (auto simp: rules_too_large_def dest!: too_large_far)
qed

lemma applied_plain:
  assumes "list_all (\<lambda>(k, v). (\<exists>d lo hi n. mk_f k d lo hi n \<in> set SETTINGS) \<and> \<bar>jnum v\<bar> \<le> 1000) u" "plain_config cfg"
  shows "\<exists>st. apply_updates num u cfg = Inr st"
proof -
  have k: "list_all (\<lambda>k. REGISTRY k \<noteq> None) (map fst u)" using assms(1) by (auto simp: list_all_iff registry_mk_f dest!: bspec)
  have "\<not> raw_too_large k v" if "(k, v) \<in> set u" for k v
  proof -
    have "\<bar>jnum v\<bar> \<le> 10 ^ 9" using assms(1) that by (fastforce simp: list_all_iff)
    then show ?thesis using not_too_large by (auto simp: raw_too_large_def jnum_def split: jval.splits option.splits)
  qed
  then have "\<not> list_ex (\<lambda>(k, v). raw_too_large k v) u" by (auto simp: list_ex_iff)
  with apply_updates_cases [OF k, of num cfg] plain_fits [OF assms(2)] show ?thesis by blast
qed

theorem settings_rules_hold_witness:
  "\<exists>st. apply_updates (\<lambda>_. None) [(''LOSS_CUT_PCT'', JNum (- 2.5))] None = Inr st
     \<and> - 8 < text_number st ''LOSS_ESCALATION_PCT'' \<and> of_int 20 < text_number st ''ROUND_TABLE_TOP_K_EVAL''"
proof -
  have "\<exists>st. apply_updates (\<lambda>_. None) [(''LOSS_CUT_PCT'', JNum (- 2.5))] None = Inr st"
    using settings_members(2) by (intro applied_plain) (auto simp: jnum_def plain_config_def)
  then obtain st where st: "apply_updates (\<lambda>_. None) [(''LOSS_CUT_PCT'', JNum (- 2.5))] None = Inr st" ..
  from settings_rules_hold [OF st] st show ?thesis by (simp add: cfg_hard_def cfg_positions_def)
qed

section \<open>The list of changes\<close>

definition patched :: "(string \<times> canon \<times> canon) list \<Rightarrow> (string \<times> canon) list \<Rightarrow> (string \<times> canon) list" where
  "patched changes st = map (\<lambda>(k, x). (k, case map_of changes k of None \<Rightarrow> x | Some (_, y) \<Rightarrow> y)) st"

lemma state_ok_map:
  assumes "state_ok st" shows "\<exists>f. st = map (\<lambda>s. (st_key s, f s)) SETTINGS"
proof -
  have k: "map fst st = map st_key SETTINGS"
    using assms by (auto simp: state_ok_def list_all2_conv_all_nth intro: nth_equalityI)
  let ?f = "\<lambda>s. the (map_of st (st_key s))"
  have d: "distinct (map fst st)" unfolding k by (rule settings_distinct)
  have "st ! i = (st_key (SETTINGS ! i), ?f (SETTINGS ! i))" if i: "i < length SETTINGS" for i
  proof -
    have l: "i < length st" using i arg_cong [OF k, of length] by simp
    then have f: "fst (st ! i) = st_key (SETTINGS ! i)" using arg_cong [OF k, of "\<lambda>xs. xs ! i"] i by simp
    have "(fst (st ! i), snd (st ! i)) \<in> set st" using l by simp
    then have "map_of st (fst (st ! i)) = Some (snd (st ! i))" by (rule map_of_is_SomeI [OF d])
    then show ?thesis using f by (metis option.sel prod.collapse)
  qed
  then show ?thesis
    using arg_cong [OF k, of length] by (intro exI [of _ ?f] nth_equalityI) simp_all
qed

lemma describe_map:
  "describe_changes (map (\<lambda>s. (st_key s, f s)) SETTINGS) (map (\<lambda>s. (st_key s, g s)) SETTINGS)
   = map (\<lambda>s. (st_key s, f s, g s)) (filter (\<lambda>s. f s \<noteq> g s) SETTINGS)"
proof -
  have "List.map_filter (\<lambda>s. case (map_of (map (\<lambda>s. (st_key s, f s)) SETTINGS) (st_key s), map_of (map (\<lambda>s. (st_key s, g s)) SETTINGS) (st_key s)) of
         (Some x, Some y) \<Rightarrow> if x = y then None else Some (st_key s, x, y)
       | _ \<Rightarrow> None) ss = map (\<lambda>s. (st_key s, f s, g s)) (filter (\<lambda>s. f s \<noteq> g s) ss)" if "set ss \<subseteq> set SETTINGS" for ss
    using that by (induction ss) (simp_all add: map_of_settings)
  then show ?thesis unfolding describe_changes_def by blast
qed

lemma map_of_changes:
  assumes "s \<in> set SETTINGS"
  shows "map_of (map (\<lambda>s. (st_key s, f s, g s)) (filter (\<lambda>s. f s \<noteq> g s) SETTINGS)) (st_key s) = (if f s = g s then None else Some (f s, g s))"
proof -
  have i: "inj_on st_key (set SETTINGS)" using settings_distinct by (simp add: distinct_map)
  show ?thesis
  proof (cases "f s = g s")
    case True
    then have "st_key s \<notin> st_key ` set (filter (\<lambda>s. f s \<noteq> g s) SETTINGS)" using i assms by (auto dest: inj_onD)
    then show ?thesis using True by (simp add: map_of_eq_None_iff image_image)
  next
    case False
    have "distinct (map st_key (filter (\<lambda>s. f s \<noteq> g s) SETTINGS))" using settings_distinct by (rule distinct_map_filter)
    then show ?thesis using False assms by (auto simp: comp_def intro!: map_of_is_SomeI)
  qed
qed

lemma changes_patch:
  assumes "state_ok current" "state_ok new"
  shows "patched (describe_changes current new) current = new"
    "(describe_changes current new = []) = (current = new)"
    "list_all (\<lambda>(k, x, y). x \<noteq> y) (describe_changes current new)"
proof -
  obtain f where f: "current = map (\<lambda>s. (st_key s, f s)) SETTINGS" using state_ok_map [OF assms(1)] by blast
  obtain g where g: "new = map (\<lambda>s. (st_key s, g s)) SETTINGS" using state_ok_map [OF assms(2)] by blast
  show "patched (describe_changes current new) current = new"
    unfolding f g describe_map patched_def by (simp add: map_of_changes)
  show "(describe_changes current new = []) = (current = new)"
    unfolding f g describe_map by (auto simp: filter_empty_conv)
  show "list_all (\<lambda>(k, x, y). x \<noteq> y) (describe_changes current new)"
    unfolding f g describe_map by (simp add: list_all_iff)
qed

text \<open>
  the list of changes says exactly what was changed: applied to the old state it gives the new one, it names
  no value that stayed, and it is empty only when nothing is to be written.
\<close>
theorem changes_tell_all:
  assumes "current_settings num cfg = Inr old" "current_settings num cfg' = Inr new"
  shows "patched (describe_changes old new) old = new
   \<and> (describe_changes old new = []) = (old = new) \<and> list_all (\<lambda>(k, x, y). x \<noteq> y) (describe_changes old new)"
  using changes_patch [OF state_okI state_okI] assms unfolding current_settings_def by blast

section \<open>What the rules do not keep\<close>

text \<open>A bare configuration: no attribute set, thirteen positions, the hard stop of minus eight percent.\<close>

definition cfg_of :: "int \<Rightarrow> config" where
  "cfg_of n = \<lparr>cg_attr = (\<lambda>_. None), cg_positions = n, cg_hard_stop = - 8\<rparr>"

lemma round_half_even_up: "of_int n - 1 / 2 < y \<Longrightarrow> n \<le> round_half_even y"
  using round_half_even_near [of y] by linarith

lemma size_requests:
  assumes "apply_updates num [(''MIN_POSITION_PERCENT'', JNum a), (''MAX_POSITION_PERCENT'', JNum b)] (Some (cfg_of n)) = Inr st"
    "0.01 \<le> a" "a \<le> 0.1" "0.05 \<le> b" "b \<le> 0.3" "1 \<le> n"
  shows "text_number st ''MIN_POSITION_PERCENT'' = on_grid 2 0.01 0.10
      (let m = min a (1 / of_int n) in if b \<le> m then max 0.01 (b - 0.01) else m)"
    "text_number st ''MAX_POSITION_PERCENT'' = on_grid 2 0.05 0.40 b"
proof -
  let ?u = "[(''MIN_POSITION_PERCENT'', JNum a), (''MAX_POSITION_PERCENT'', JNum b)]" let ?c = "Some (cfg_of n)"
  obtain pv where pv: "parsed_values num ?c ?u = Inr pv" using applied [OF assms(1)] by blast
  have read: "number_of pv k = max lo (min hi x)"
    if "mk_f k d lo hi l \<in> set SETTINGS" "raw_value ?c ?u (mk_f k d lo hi l) = JNum x" for k d lo hi l x
  proof -
    have "\<exists>p. parse num (mk_f k d lo hi l) (JNum x) = Inr p \<and> pv k = Some p"
      using parsed_at [OF pv that(1)] unfolding that(2) by (simp add: mk_f_def)
    then show ?thesis
      by (auto simp: number_of_def parse_def as_number_def result_bind_Inr mk_f_def Let_def jnum_def split: if_splits)
  qed
  have v: "number_of pv ''MIN_POSITION_PERCENT'' = a" "number_of pv ''MAX_POSITION_PERCENT'' = b"
      "number_of pv ''MAX_POSITION_PERCENT_SIZING'' = 0.30"
    using read [OF settings_members(5), of a] read [OF settings_members(6), of b] read [OF settings_members(7), of "0.30"] assms(2-5)
    by (simp_all add: raw_value_def cfg_getattr_def cfg_of_def mk_f_def)
  have p: "cfg_positions ?c = n" using assms(6) by (simp add: cfg_positions_def cfg_of_def)
  have "min b 0.30 = b" using assms(5) by simp
  then show "text_number st ''MIN_POSITION_PERCENT'' = on_grid 2 0.01 0.10
      (let m = min a (1 / of_int n) in if b \<le> m then max 0.01 (b - 0.01) else m)"
    "text_number st ''MAX_POSITION_PERCENT'' = on_grid 2 0.05 0.40 b"
    using cross_text [OF assms(1) pv settings_members(5)] cross_text [OF assms(1) pv settings_members(6)] assms(6)
    unfolding cross_clamp_min p v by (simp_all add: cross_keys_def cross_clamp_simps v Let_def max_def)
qed

lemma size_request_applied:
  assumes "\<bar>a\<bar> \<le> 1" "\<bar>b\<bar> \<le> 1" "\<bar>n\<bar> \<le> 1000"
  shows "\<exists>st. apply_updates num [(''MIN_POSITION_PERCENT'', JNum a), (''MAX_POSITION_PERCENT'', JNum b)] (Some (cfg_of n)) = Inr st"
  using settings_members(5,6) assms by (intro applied_plain) (auto simp: jnum_def plain_config_def cfg_of_def)

text \<open>
  the rule that a position's slot is at least the smallest position fails after rounding: with thirteen
  positions (inside the permitted ten to twenty) a request for ten percent is cut to 1/13 and stored as 0.08,
  which is more than the slot.
\<close>
theorem smallest_position_exceeds_slot:
  "\<exists>st. apply_updates num [(''MIN_POSITION_PERCENT'', JNum 0.10), (''MAX_POSITION_PERCENT'', JNum 0.25)] (Some (cfg_of 13)) = Inr st
     \<and> 1 / 13 < text_number st ''MIN_POSITION_PERCENT''"
proof -
  obtain st where st: "apply_updates num [(''MIN_POSITION_PERCENT'', JNum 0.10), (''MAX_POSITION_PERCENT'', JNum 0.25)] (Some (cfg_of 13)) = Inr st"
    using size_request_applied [of "0.10" "0.25" 13 num] by auto
  have t: "text_number st ''MIN_POSITION_PERCENT'' = on_grid 2 0.01 0.10 (1 / 13)"
    using size_requests(1) [OF st] by (simp add: Let_def)
  have "8 \<le> round_half_even (100 / 13)" by (rule round_half_even_up) simp
  then have "0.08 \<le> on_grid 2 0.01 0.10 (1 / 13)" by (simp add: on_grid_def)
  then have "1 / 13 < text_number st ''MIN_POSITION_PERCENT''" unfolding t by (rule less_le_trans [rotated]) simp
  with st show ?thesis by blast
qed

text \<open>
  the smallest position may be as large as the largest: 0.054 and 0.0549 pass the strict rule and are both
  stored as 0.05.
\<close>
theorem smallest_position_equals_largest:
  "\<exists>st. apply_updates num [(''MIN_POSITION_PERCENT'', JNum 0.054), (''MAX_POSITION_PERCENT'', JNum 0.0549)] (Some (cfg_of 13)) = Inr st
     \<and> text_number st ''MIN_POSITION_PERCENT'' = text_number st ''MAX_POSITION_PERCENT''"
proof -
  obtain st where st: "apply_updates num [(''MIN_POSITION_PERCENT'', JNum 0.054), (''MAX_POSITION_PERCENT'', JNum 0.0549)] (Some (cfg_of 13)) = Inr st"
    using size_request_applied [of "0.054" "0.0549" 13 num] by auto
  have "round_half_even x = 5" if "4.5 < x" "x < 5.5" for x
    using round_half_even_less [of x 5] round_half_even_up [of 5 x] that by simp
  then have "round_half_even (27 / 5) = 5" "round_half_even (549 / 100) = 5" by simp_all
  with size_requests [OF st] st show ?thesis by (auto simp: on_grid_def Let_def)
qed

lemma too_large_request:
  assumes "raw_too_large k v" shows "apply_updates num [(k, v)] cfg = Inl Overflow_Error"
proof -
  have "list_all (\<lambda>k. REGISTRY k \<noteq> None) (map fst [(k, v)])"
    using assms by (cases "REGISTRY k") (simp_all add: raw_too_large_def)
  from apply_updates_cases [OF this, of num cfg] assms show ?thesis by auto
qed

text \<open>\<open>_parse\<close> raises on an integer of 401 digits in a numeric setting, and with it the request.\<close>
theorem huge_integer_raises:
  "apply_updates num [(''STOP_LOSS_PCT'', JNum (10 ^ 400))] cfg = Inl Overflow_Error"
proof (rule too_large_request)
  have "REGISTRY ''STOP_LOSS_PCT'' = Some (mk_f ''STOP_LOSS_PCT'' 7 1 7.9 1)" by (rule registry_mk_f [OF settings_members(4)])
  then show "raw_too_large ''STOP_LOSS_PCT'' (JNum (10 ^ 400))"
    by (simp add: raw_too_large_def too_large_def) (simp add: mk_f_def)
qed

end
