(* ===== verification/Settings_Views.thy ===== *)
theory Settings_Views
  imports Trading_Settings
begin

text \<open>
  What the settings cards are shown (\<open>agents_view\<close> of \<open>core/trading_settings.py\<close>) and the shape of the portfolio
  (\<open>core/portfolio_shape.py\<close>): clamping, text form, changes.
\<close>

section \<open>The roster of the agents\<close>

record agent_spec =
  ag_name :: string
  ag_title :: string
  ag_flag :: string
  ag_weight_key :: string
  ag_enabled :: bool
  ag_weight :: real
  ag_lo :: real
  ag_hi :: real
  ag_role :: "string option"

definition mk_agent :: "string \<Rightarrow> string \<Rightarrow> string \<Rightarrow> string \<Rightarrow> bool \<Rightarrow> real \<Rightarrow> real \<Rightarrow> real \<Rightarrow> string option \<Rightarrow> agent_spec" where
  "mk_agent n t fl k e w lo hi r = \<lparr>ag_name = n, ag_title = t, ag_flag = fl, ag_weight_key = k, ag_enabled = e,
     ag_weight = w, ag_lo = lo, ag_hi = hi, ag_role = r\<rparr>"

definition AGENTS :: "agent_spec list" where
  "AGENTS =
    [mk_agent ''MomentumAgent'' ''Momentum Strategist'' ''MOMENTUM_AGENT_ENABLED'' ''MOMENTUM_AGENT_WEIGHT'' True 0.45 0 1.5 None,
     mk_agent ''LSTMSignalAgent'' ''Quantitative Analyst'' ''LSTM_SIGNAL_AGENT_ENABLED'' ''LSTM_SIGNAL_WEIGHT'' True 0.40 0.15 1.5 None,
     mk_agent ''SpecialistAlphaAgent'' ''Equity Research Analyst'' ''SPECIALIST_ALPHA_AGENT_ENABLED'' ''SPECIALIST_ALPHA_WEIGHT'' True 0.40 0 2 None,
     mk_agent ''NewsSentimentAgent'' ''Sentiment Analyst'' ''NEWS_SENTIMENT_AGENT_ENABLED'' ''NEWS_SENTIMENT_WEIGHT'' True 0.35 0.10 1.5 None,
     mk_agent ''UpsideSkewAgent'' ''Risk-Reward Analyst'' ''UPSIDE_SKEW_AGENT_ENABLED'' ''UPSIDE_SKEW_WEIGHT'' False 0.30 0.10 1.5 None,
     mk_agent ''TrendAgent'' ''Trend Analyst'' ''TREND_AGENT_ENABLED'' ''TREND_AGENT_WEIGHT'' False 0 0 1.5 None,
     mk_agent ''VolumeConfirmationAgent'' ''Volume Analyst'' ''VOLUME_CONFIRM_AGENT_ENABLED'' ''VOLUME_CONFIRM_AGENT_WEIGHT'' False 0 0 1.5 None,
     mk_agent ''FundamentalsAgent'' ''Fundamental Analyst'' ''FUNDAMENTALS_AGENT_ENABLED'' ''FUNDAMENTALS_AGENT_WEIGHT'' True 0 0 1.5 None,
     mk_agent ''ValuationAgent'' ''Valuation Analyst'' ''VALUATION_AGENT_ENABLED'' ''VALUATION_AGENT_WEIGHT'' True 0 0 1.5 None,
     mk_agent ''QualityAgent'' ''Quality Analyst'' ''QUALITY_AGENT_ENABLED'' ''QUALITY_AGENT_WEIGHT'' False 0.30 0.10 1.5 None,
     mk_agent ''RLConfidenceAgent'' ''Systematic Strategist'' ''RL_CONFIDENCE_AGENT_ENABLED'' ''RL_CONFIDENCE_WEIGHT'' True 0 0 1.5 None,
     mk_agent ''DrawdownGuardAgent'' ''Risk Manager'' ''DRAWDOWN_GUARD_AGENT_ENABLED'' [] True 0 0 0 (Some ''veto_guard''),
     mk_agent ''RegimeDetectionAgent'' ''Macro Strategist'' ''REGIME_DETECTION_AGENT_ENABLED'' [] True 0 0 0 (Some ''conditioner''),
     mk_agent ''VIXAwareRiskAgent'' ''Volatility Strategist'' ''VIX_RISK_AGENT_ENABLED'' ''VIX_RISK_WEIGHT'' True 0.45 0.10 1.5 None,
     mk_agent ''SkewSizeTilt'' ''Options-Skew Sizer'' ''SKEW_SIZE_TILT_ENABLED'' ''SKEW_SIZE_TILT_CAP'' False 0 0 0.20 (Some ''size_input'')]"

text \<open>A row of the answer: the resolved specification, the role and the two effective values.\<close>

record agent_row =
  ar_spec :: agent_spec
  ar_role :: string
  ar_enabled :: bool
  ar_weight :: real

definition attr_bool :: "config option \<Rightarrow> string \<Rightarrow> bool \<Rightarrow> bool" where
  "attr_bool cfg k d = (case cfg of None \<Rightarrow> d | Some c \<Rightarrow> (case cg_attr c k of None \<Rightarrow> d | Some v \<Rightarrow> jtruthy v))"

definition attr_real :: "config option \<Rightarrow> string \<Rightarrow> real \<Rightarrow> real" where
  "attr_real cfg k d = (case cfg of None \<Rightarrow> d | Some c \<Rightarrow> (case cg_attr c k of Some (JNum r) \<Rightarrow> r | _ \<Rightarrow> d))"

definition agent_role :: "bool \<Rightarrow> agent_spec \<Rightarrow> string" where
  "agent_role iv_on a =
     (case ag_role a of
        Some r \<Rightarrow> r
      | None \<Rightarrow> if ag_name a = ''VIXAwareRiskAgent'' \<and> iv_on then ''size_input'' else ''mean_voter'')"

definition agent_shown :: "bool \<Rightarrow> agent_spec \<Rightarrow> agent_spec" where
  "agent_shown iv_on a =
     (if ag_name a = ''VIXAwareRiskAgent'' \<and> iv_on
      then a\<lparr>ag_weight_key := ''VIX_SIZE_INFLUENCE'', ag_weight := 1, ag_lo := 0, ag_hi := 1\<rparr> else a)"

definition agents_view :: "config option \<Rightarrow> agent_row list \<times> bool" where
  "agents_view cfg =
     (let iv_on = attr_bool cfg ''IMPLIED_VOL_FORECAST_ENABLED'' True
      in (map (\<lambda>a. let s = agent_shown iv_on a
                   in \<lparr>ar_spec = s, ar_role = agent_role iv_on a, ar_enabled = attr_bool cfg (ag_flag s) (ag_enabled s),
                       ar_weight = (if ag_weight_key s = [] then 0 else attr_real cfg (ag_weight_key s) (ag_weight s))\<rparr>) AGENTS,
          iv_on))"

text \<open>The default a card shows as shipped, and the one of the registry.\<close>

definition differing_defaults :: "bool \<Rightarrow> string list" where
  "differing_defaults iv_on =
     map ag_weight_key (filter (\<lambda>a. ag_weight_key a \<noteq> [] \<and>
        (case REGISTRY (ag_weight_key a) of None \<Rightarrow> True | Some s \<Rightarrow> st_default s \<noteq> JNum (ag_weight a)))
      (map (agent_shown iv_on) AGENTS))"

definition matching_bounds :: "bool \<Rightarrow> bool" where
  "matching_bounds iv_on =
     list_all (\<lambda>a. ag_weight_key a = [] \<or>
        (case REGISTRY (ag_weight_key a) of None \<Rightarrow> False | Some s \<Rightarrow> st_lo s = ag_lo a \<and> st_hi s = ag_hi a))
      (map (agent_shown iv_on) AGENTS)"

section \<open>The shape of the portfolio\<close>

text \<open>As in \<open>_parse\<close>, \<open>float\<close> of an integer that is too large raises.\<close>

definition ps_num :: "jval \<Rightarrow> real \<Rightarrow> settings_error + real" where
  "ps_num v d = (case v of JNum r \<Rightarrow> if too_large r then Inl Overflow_Error else Inr r | _ \<Rightarrow> Inr d)"

definition ps_clamp :: "real \<Rightarrow> real \<Rightarrow> real \<Rightarrow> real" where
  "ps_clamp v lo hi = max lo (min hi v)"

record shape =
  sh_positions :: int
  sh_hold_days :: real

definition clamp_portfolio_shape :: "jval \<Rightarrow> jval \<Rightarrow> settings_error + shape" where
  "clamp_portfolio_shape positions hold_days =
     result_bind (ps_num positions 10) (\<lambda>p. result_bind (ps_num hold_days 20) (\<lambda>h.
       Inr \<lparr>sh_positions = \<lfloor>ps_clamp (of_int (trunc p)) 10 20\<rfloor>, sh_hold_days = ps_clamp h 5 20\<rparr>))"

definition shape_text :: "shape \<Rightarrow> (string \<times> canon) list" where
  "shape_text s = [(''FULL_UNIVERSE_MAX_POSITIONS'', Fixed 0 (sh_positions s)),
     (''SMART_EXIT_MIN_HOLD_DAYS'', Fixed 1 (round_half_even (sh_hold_days s * 10)))]"

definition shape_changes :: "shape \<Rightarrow> shape \<Rightarrow> (string \<times> canon \<times> canon) list" where
  "shape_changes current new =
     List.map_filter (\<lambda>((k, x), (_, y)). if x = y then None else Some (k, x, y)) (zip (shape_text current) (shape_text new))"

definition current_shape :: "config option \<Rightarrow> settings_error + shape" where
  "current_shape cfg =
     (let g = (\<lambda>k d. case cfg of None \<Rightarrow> JNum d | Some c \<Rightarrow> (case cg_attr c k of None \<Rightarrow> JNum d | Some v \<Rightarrow> v))
      in clamp_portfolio_shape (g ''FULL_UNIVERSE_MAX_POSITIONS'' 10) (g ''SMART_EXIT_MIN_HOLD_DAYS'' 20))"

lemma matching: "matching_bounds True" "matching_bounds False"
  by code_simp+

lemma differing: "differing_defaults True
   = [''LSTM_SIGNAL_WEIGHT'', ''SPECIALIST_ALPHA_WEIGHT'', ''NEWS_SENTIMENT_WEIGHT'', ''FUNDAMENTALS_AGENT_WEIGHT'']"
  by code_simp

text \<open>
  the sliders of the cards have the bounds of the registry, with the forecast of implied volatility on and
  off, so no position of a slider is cut when it is applied.
\<close>
theorem sliders_have_registry_bounds: "matching_bounds iv_on"
  using matching by (cases iv_on) simp_all

text \<open>
  four weights are shown with a shipped default that is not the one of the registry and of the engine; a
  reset of the card to its defaults therefore changes the consensus.
\<close>
theorem shown_defaults_differ:
  "differing_defaults True
     = [''LSTM_SIGNAL_WEIGHT'', ''SPECIALIST_ALPHA_WEIGHT'', ''NEWS_SENTIMENT_WEIGHT'', ''FUNDAMENTALS_AGENT_WEIGHT'']
   \<and> ar_weight (fst (agents_view None) ! 1) = 0.40 \<and> map_option st_default (REGISTRY ''LSTM_SIGNAL_WEIGHT'') = Some (JNum 0.15)"
proof -
  have "ar_weight (fst (agents_view None) ! 1) = 0.40" by code_simp
  moreover have "map_option st_default (REGISTRY ''LSTM_SIGNAL_WEIGHT'') = Some (JNum 0.15)" by code_simp
  ultimately show ?thesis using differing by blast
qed

lemma clamped_shape:
  assumes "clamp_portfolio_shape p h = Inr sh"
  shows "10 \<le> sh_positions sh \<and> sh_positions sh \<le> 20 \<and> 5 \<le> sh_hold_days sh \<and> sh_hold_days sh \<le> 20"
proof -
  have "10 \<le> ps_clamp x 10 20" "ps_clamp x 10 20 < 21" "5 \<le> ps_clamp y 5 20" "ps_clamp y 5 20 \<le> 20" for x y
    by (simp_all add: ps_clamp_def)
  then show ?thesis using assms by (auto simp: clamp_portfolio_shape_def result_bind_Inr le_floor_iff floor_le_iff)
qed

text \<open>
  a request for a shape is refused only for a number too large for a float; else the portfolio has ten to twenty
  positions and a holding time of five to twenty days, and the list of changes against any other shape is
  empty exactly when the stored texts agree.
\<close>
theorem shape_in_bounds:
  "case clamp_portfolio_shape p h of
     Inl e \<Rightarrow> e = Overflow_Error \<and> list_ex (\<lambda>v. case v of JNum r \<Rightarrow> too_large r | _ \<Rightarrow> False) [p, h]
   | Inr sh \<Rightarrow> 10 \<le> sh_positions sh \<and> sh_positions sh \<le> 20 \<and> 5 \<le> sh_hold_days sh \<and> sh_hold_days sh \<le> 20
       \<and> (shape_changes old sh = []) = (shape_text old = shape_text sh)"
proof (cases "clamp_portfolio_shape p h")
  case (Inl e)
  then show ?thesis by (auto simp: clamp_portfolio_shape_def result_bind_Inl ps_num_def split: jval.splits if_splits)
next
  case (Inr sh)
  then show ?thesis using clamped_shape [OF Inr] by (auto simp: shape_changes_def shape_text_def List.map_filter_simps split: if_splits)
qed

end
