(* ===== verification/Risk_Account.thy ===== *)
theory Risk_Account
  imports Liquidation
begin

text \<open>
  The account of the risk manager (\<open>core/risk_konto.py\<close>, the constructor of \<open>core/risk_manager.py\<close>): the stop from
  the start of the session, the warning phase, the circuit breaker with its liquidation, the recovery and the
  daily reset. It is a state machine driven by the equity of the account.

  Equities are exact reals. The halt it sets and asks is the one of the gate it liquidates through; which
  object that is (the kill switch or the halt of a simulation) is a parameter with the contract \<open>halt_geraet\<close>.
\<close>

section \<open>The halt it drives\<close>

datatype halt_grund = Portfolio_Stop real | Daily_Drawdown real

record 'h halt_ops =
  ho_trip :: "halt_grund \<Rightarrow> string option \<Rightarrow> 'h \<Rightarrow> 'h"
  ho_reset :: "string option \<Rightarrow> 'h \<Rightarrow> 'h"
  ho_halted :: "string option \<Rightarrow> 'h \<Rightarrow> bool"

section \<open>The state\<close>

record ('b, 'h) konto =
  rk_capital :: real
  rk_dd_pct :: real
  rk_dd_limit :: real
  rk_peak :: real
  rk_initial :: real
  rk_halted :: bool
  rk_reduced :: bool
  rk_count :: nat
  rk_unlock :: real
  rk_last_halt :: "real option"
  rk_max_loss :: real
  rk_stop_pct :: real
  rk_session_start :: real
  rk_stop_triggered :: bool
  rk_user :: "string option"
  rk_tor :: "('b, 'h) tor"

text \<open>\<open>RiskManager.__init__\<close>; capital \<open>None\<close> counts as zero. \<open>stop\<close> is \<open>PORTFOLIO_STOP_LOSS_PCT\<close>, if it can be read.\<close>

definition konto_start :: "real option \<Rightarrow> real \<Rightarrow> real option \<Rightarrow> string option \<Rightarrow> ('b, 'h) tor \<Rightarrow> ('b, 'h) konto" where
  "konto_start capital dd_pct stop user t =
     (let c = (case capital of None \<Rightarrow> 0 | Some x \<Rightarrow> x)
      in \<lparr>rk_capital = c, rk_dd_pct = dd_pct, rk_dd_limit = c * dd_pct, rk_peak = c, rk_initial = c, rk_halted = False,
          rk_reduced = False, rk_count = 0, rk_unlock = 0.5, rk_last_halt = None, rk_max_loss = c * 0.015,
          rk_stop_pct = (case stop of None \<Rightarrow> 0.07 | Some p \<Rightarrow> p / 100), rk_session_start = c, rk_stop_triggered = False,
          rk_user = user, rk_tor = t\<rparr>)"

definition mit_halt :: "('h \<Rightarrow> 'h) \<Rightarrow> ('b, 'h) konto \<Rightarrow> ('b, 'h) konto" where
  "mit_halt f s = s\<lparr>rk_tor := (rk_tor s)\<lparr>to_halt := f (to_halt (rk_tor s))\<rparr>\<rparr>"

section \<open>The steps of an update\<close>

text \<open>
  What an update finds outside: the time in hours, the decision id of a liquidation, and the positions of the
  broker (\<open>None\<close>: the client has no such call; \<open>Inl\<close>: the call raised).
\<close>

record umfeld =
  um_now :: real
  um_decision :: string
  um_positions :: "(py_error + position list) option"

definition portfolio_stop :: "'h halt_ops \<Rightarrow> real \<Rightarrow> ('b, 'h) konto \<Rightarrow> ('b, 'h) konto" where
  "portfolio_stop ops equity s =
     (if 0 < rk_session_start s \<and> 0 < rk_stop_pct s
         \<and> rk_stop_pct s \<le> (rk_session_start s - equity) / rk_session_start s \<and> \<not> rk_stop_triggered s
      then mit_halt (ho_trip ops (Portfolio_Stop ((rk_session_start s - equity) / rk_session_start s)) (rk_user s))
             (s\<lparr>rk_stop_triggered := True, rk_halted := True\<rparr>)
      else s)"

definition fuehre_spitze :: "real \<Rightarrow> ('b, 'h) konto \<Rightarrow> ('b, 'h) konto" where
  "fuehre_spitze equity s = (if rk_peak s < equity then s\<lparr>rk_peak := equity\<rparr> else s)"

definition drawdown :: "real \<Rightarrow> ('b, 'h) konto \<Rightarrow> real" where
  "drawdown equity s = rk_peak s - equity"

definition drawdown_ratio :: "real \<Rightarrow> ('b, 'h) konto \<Rightarrow> real" where
  "drawdown_ratio equity s = (if 0 < rk_dd_limit s then drawdown equity s / rk_dd_limit s else 0)"

definition warnstufe :: "real \<Rightarrow> ('b, 'h) konto \<Rightarrow> ('b, 'h) konto" where
  "warnstufe equity s =
     (if 0.60 < drawdown_ratio equity s \<and> \<not> rk_reduced s \<and> \<not> rk_halted s then s\<lparr>rk_reduced := True\<rparr>
      else if drawdown_ratio equity s \<le> 0.50 \<and> rk_reduced s \<and> \<not> rk_halted s then s\<lparr>rk_reduced := False\<rparr>
      else s)"

definition liquidate_through_gateway ::
  "(string \<Rightarrow> string) \<Rightarrow> ('b, 'h, 'r) zugang \<Rightarrow> (string \<Rightarrow> real \<Rightarrow> py_error + auftrag) \<Rightarrow> umfeld \<Rightarrow> ('b, 'h) tor \<Rightarrow> ('b, 'h) tor" where
  "liquidate_through_gateway h z factory um t =
     (case um_positions um of
        Some (Inr ps) \<Rightarrow> fst (liquidate_positions h z (um_decision um) Breaker factory True False ps leerer_bericht t)
      | _ \<Rightarrow> t)"

definition breaker ::
  "'h halt_ops \<Rightarrow> (string \<Rightarrow> string) \<Rightarrow> ('b, 'h, 'r) zugang \<Rightarrow> (string \<Rightarrow> real \<Rightarrow> py_error + auftrag) \<Rightarrow> umfeld \<Rightarrow> real
     \<Rightarrow> ('b, 'h) konto \<Rightarrow> ('b, 'h) konto" where
  "breaker ops h z factory um equity s =
     (if rk_dd_limit s < drawdown equity s \<and> \<not> rk_halted s
      then let pct = (if 0 < rk_peak s then drawdown equity s / rk_peak s * 100 else 0);
               s1 = mit_halt (ho_trip ops (Daily_Drawdown pct) (rk_user s)) (s\<lparr>rk_halted := True\<rparr>);
               s2 = s1\<lparr>rk_last_halt := Some (um_now um), rk_count := Suc (rk_count s), rk_unlock := 0.5\<rparr>
           in s2\<lparr>rk_tor := liquidate_through_gateway h z factory um (rk_tor s2)\<rparr>
      else s)"

definition erholung :: "'h halt_ops \<Rightarrow> umfeld \<Rightarrow> real \<Rightarrow> ('b, 'h) konto \<Rightarrow> ('b, 'h) konto" where
  "erholung ops um equity s =
     (let u = (case rk_last_halt s of None \<Rightarrow> rk_unlock s
               | Some t0 \<Rightarrow> if 4 < um_now um - t0 then 0.20 else if 2 < um_now um - t0 then 0.30 else rk_unlock s);
          s1 = s\<lparr>rk_unlock := u\<rparr>
      in if drawdown equity s \<le> rk_dd_limit s * u \<and> \<not> rk_stop_triggered s
         then mit_halt (ho_reset ops (rk_user s))
                (s1\<lparr>rk_halted := False, rk_last_halt := None, rk_reduced := False, rk_count := 0\<rparr>)
         else s1)"

definition update_account_equity ::
  "'h halt_ops \<Rightarrow> (string \<Rightarrow> string) \<Rightarrow> ('b, 'h, 'r) zugang \<Rightarrow> (string \<Rightarrow> real \<Rightarrow> py_error + auftrag) \<Rightarrow> umfeld \<Rightarrow> real \<Rightarrow> bool
     \<Rightarrow> ('b, 'h) konto \<Rightarrow> ('b, 'h) konto" where
  "update_account_equity ops h z factory um equity allow_unlock s =
     (let s1 = fuehre_spitze equity (portfolio_stop ops equity s);
          s2 = breaker ops h z factory um equity (warnstufe equity s1)
      in if rk_halted s2 \<and> allow_unlock then erholung ops um equity s2 else s2)"

definition reset_risk_daily_limit :: "real option \<Rightarrow> ('b, 'h) konto \<Rightarrow> ('b, 'h) konto" where
  "reset_risk_daily_limit equity s =
     (let e = (case equity of None \<Rightarrow> 0 | Some x \<Rightarrow> x)
      in s\<lparr>rk_initial := e, rk_dd_limit := e * rk_dd_pct s, rk_halted := False\<rparr>)"

text \<open>The two limits of the account that \<open>RiskManager.reload_policy\<close> takes from a policy.\<close>

definition konto_policy :: "real \<Rightarrow> real \<Rightarrow> ('b, 'h) konto \<Rightarrow> ('b, 'h) konto" where
  "konto_policy stop_pct dd_pct s =
     s\<lparr>rk_stop_pct := stop_pct, rk_dd_pct := dd_pct, rk_dd_limit := rk_capital s * dd_pct\<rparr>"

section \<open>A session\<close>

datatype ereignis = Stand umfeld real bool | Neuer_Tag "real option"

definition schritt ::
  "'h halt_ops \<Rightarrow> (string \<Rightarrow> string) \<Rightarrow> ('b, 'h, 'r) zugang \<Rightarrow> (string \<Rightarrow> real \<Rightarrow> py_error + auftrag) \<Rightarrow> ereignis
     \<Rightarrow> ('b, 'h) konto \<Rightarrow> ('b, 'h) konto" where
  "schritt ops h z factory ev s =
     (case ev of Stand um e allow \<Rightarrow> update_account_equity ops h z factory um e allow s
      | Neuer_Tag e \<Rightarrow> reset_risk_daily_limit e s)"

definition sitzung ::
  "'h halt_ops \<Rightarrow> (string \<Rightarrow> string) \<Rightarrow> ('b, 'h, 'r) zugang \<Rightarrow> (string \<Rightarrow> real \<Rightarrow> py_error + auftrag) \<Rightarrow> ereignis list
     \<Rightarrow> ('b, 'h) konto \<Rightarrow> ('b, 'h) konto" where
  "sitzung ops h z factory evs s = fold (schritt ops h z factory) evs s"

text \<open>
  \<open>resolve_equity\<close>, which feeds the live account: what the broker answered (no client or a failed call is \<open>None\<close>), or
  the configured default.
\<close>

definition resolve_equity :: "real option \<Rightarrow> real \<Rightarrow> real" where
  "resolve_equity answer default_equity =
     (case answer of None \<Rightarrow> default_equity | Some e \<Rightarrow> if 0 < e then e else default_equity)"

definition live_stand :: "umfeld \<Rightarrow> real option \<Rightarrow> real \<Rightarrow> ereignis" where
  "live_stand um answer default_equity = Stand um (resolve_equity answer default_equity) False"

section \<open>The contract of the halt\<close>

text \<open>A halt that was set stands for its user, and setting one lifts no other.\<close>

locale halt_geraet =
  fixes ops :: "'h halt_ops"
  assumes trip_halts: "ho_halted ops u (ho_trip ops g u k)"
    and trip_keeps: "ho_halted ops v k \<Longrightarrow> ho_halted ops v (ho_trip ops g u k)"

definition lh_ops :: "lokaler_halt halt_ops" where
  "lh_ops = \<lparr>ho_trip = (\<lambda>_. lh_trip), ho_reset = lh_reset, ho_halted = lh_is_halted\<rparr>"

text \<open>The kill switch of the process without a store; the text of the reason and the time are its arguments.\<close>

definition ks_ops :: "(halt_grund \<Rightarrow> string) \<Rightarrow> string \<Rightarrow> string option \<Rightarrow> bool \<Rightarrow> ks halt_ops" where
  "ks_ops txt zeit tok fc =
     \<lparr>ho_trip = (\<lambda>g u k. fst (trip (None :: unit ablage option) (txt g) zeit u tok fc k ())),
      ho_reset = (\<lambda>u k. fst (reset (None :: unit ablage option) u k ())),
      ho_halted = (\<lambda>u k. snd (is_halted (None :: unit ablage option) u k ()))\<rparr>"

interpretation lh_geraet: halt_geraet lh_ops
  by unfold_locales (auto simp: lh_ops_def lh_trip_def lh_is_halted_def dict_set_lookup split: option.splits)

interpretation ks_geraet: halt_geraet "ks_ops txt zeit tok fc"
  by unfold_locales (auto simp: ks_ops_def trip_def is_halted_def dict_set_lookup Let_def split: option.splits if_splits)

text \<open>Asking it, as the gate does, lifts no halt.\<close>

locale halt_am_tor = halt_geraet ops for ops :: "'h halt_ops" +
  fixes frage :: "'h \<Rightarrow> string option \<Rightarrow> 'h \<times> bool"
  assumes frage_keeps: "ho_halted ops u k \<Longrightarrow> ho_halted ops u (fst (frage k v))"

interpretation lh_tor: halt_am_tor lh_ops lh_frage
  by unfold_locales (simp add: lh_frage_def)

lemma ks_frage_keeps:
  "ho_halted (ks_ops txt zeit tok fc) u k \<Longrightarrow>
     ho_halted (ks_ops txt zeit tok fc) u (fst (is_halted (None :: unit ablage option) v k ()))"
  by (simp add: ks_ops_def is_halted_sticky)

interpretation ks_tor: halt_am_tor "ks_ops txt zeit tok fc" "\<lambda>k u. is_halted (None :: unit ablage option) u k ()"
  by unfold_locales (rule ks_frage_keeps)

section \<open>Lemmas about the steps\<close>

lemma mit_halt_sel [simp]:
  "rk_capital (mit_halt f s) = rk_capital s" "rk_dd_pct (mit_halt f s) = rk_dd_pct s" "rk_dd_limit (mit_halt f s) = rk_dd_limit s"
  "rk_peak (mit_halt f s) = rk_peak s" "rk_halted (mit_halt f s) = rk_halted s" "rk_reduced (mit_halt f s) = rk_reduced s"
  "rk_unlock (mit_halt f s) = rk_unlock s" "rk_last_halt (mit_halt f s) = rk_last_halt s"
  "rk_stop_pct (mit_halt f s) = rk_stop_pct s" "rk_session_start (mit_halt f s) = rk_session_start s"
  "rk_stop_triggered (mit_halt f s) = rk_stop_triggered s" "rk_user (mit_halt f s) = rk_user s"
  "to_broker (rk_tor (mit_halt f s)) = to_broker (rk_tor s)" "to_saetze (rk_tor (mit_halt f s)) = to_saetze (rk_tor s)"
  "to_halt (rk_tor (mit_halt f s)) = f (to_halt (rk_tor s))"
  by (simp_all add: mit_halt_def)

lemma stop_sel [simp]:
  "rk_user (portfolio_stop ops e s) = rk_user s"
  "rk_session_start (portfolio_stop ops e s) = rk_session_start s"
  "rk_stop_pct (portfolio_stop ops e s) = rk_stop_pct s"
  "rk_dd_limit (portfolio_stop ops e s) = rk_dd_limit s"
  "rk_dd_pct (portfolio_stop ops e s) = rk_dd_pct s"
  "rk_peak (portfolio_stop ops e s) = rk_peak s"
  "rk_unlock (portfolio_stop ops e s) = rk_unlock s"
  "rk_last_halt (portfolio_stop ops e s) = rk_last_halt s"
  "rk_reduced (portfolio_stop ops e s) = rk_reduced s"
  "to_broker (rk_tor (portfolio_stop ops e s)) = to_broker (rk_tor s)" "to_saetze (rk_tor (portfolio_stop ops e s)) = to_saetze (rk_tor s)"
  by (simp_all add: portfolio_stop_def)

lemma spitze_sel [simp]:
  "rk_user (fuehre_spitze e s) = rk_user s"
  "rk_session_start (fuehre_spitze e s) = rk_session_start s"
  "rk_stop_pct (fuehre_spitze e s) = rk_stop_pct s"
  "rk_dd_limit (fuehre_spitze e s) = rk_dd_limit s"
  "rk_dd_pct (fuehre_spitze e s) = rk_dd_pct s"
  "rk_unlock (fuehre_spitze e s) = rk_unlock s"
  "rk_last_halt (fuehre_spitze e s) = rk_last_halt s"
  "rk_reduced (fuehre_spitze e s) = rk_reduced s"
  "rk_halted (fuehre_spitze e s) = rk_halted s"
  "rk_stop_triggered (fuehre_spitze e s) = rk_stop_triggered s"
  "rk_tor (fuehre_spitze e s) = rk_tor s"
  "rk_peak (fuehre_spitze e s) = max (rk_peak s) e"
  by (simp_all add: fuehre_spitze_def)

lemma warnstufe_sel [simp]:
  "rk_user (warnstufe e s) = rk_user s"
  "rk_session_start (warnstufe e s) = rk_session_start s"
  "rk_stop_pct (warnstufe e s) = rk_stop_pct s"
  "rk_dd_limit (warnstufe e s) = rk_dd_limit s"
  "rk_dd_pct (warnstufe e s) = rk_dd_pct s"
  "rk_peak (warnstufe e s) = rk_peak s"
  "rk_unlock (warnstufe e s) = rk_unlock s"
  "rk_last_halt (warnstufe e s) = rk_last_halt s"
  "rk_halted (warnstufe e s) = rk_halted s"
  "rk_stop_triggered (warnstufe e s) = rk_stop_triggered s"
  "rk_tor (warnstufe e s) = rk_tor s"
  by (simp_all add: warnstufe_def)

lemma breaker_sel [simp]:
  "rk_user (breaker ops h z factory um e s) = rk_user s"
  "rk_session_start (breaker ops h z factory um e s) = rk_session_start s"
  "rk_stop_pct (breaker ops h z factory um e s) = rk_stop_pct s"
  "rk_dd_limit (breaker ops h z factory um e s) = rk_dd_limit s"
  "rk_dd_pct (breaker ops h z factory um e s) = rk_dd_pct s"
  "rk_peak (breaker ops h z factory um e s) = rk_peak s"
  "rk_stop_triggered (breaker ops h z factory um e s) = rk_stop_triggered s"
  "rk_reduced (breaker ops h z factory um e s) = rk_reduced s"
  "rk_halted (breaker ops h z factory um e s) = (rk_halted s \<or> rk_dd_limit s < drawdown e s)"
  by (auto simp: breaker_def Let_def)

lemma erholung_sel [simp]:
  "rk_user (erholung ops um e s) = rk_user s"
  "rk_session_start (erholung ops um e s) = rk_session_start s"
  "rk_stop_pct (erholung ops um e s) = rk_stop_pct s"
  "rk_dd_limit (erholung ops um e s) = rk_dd_limit s"
  "rk_dd_pct (erholung ops um e s) = rk_dd_pct s"
  "rk_peak (erholung ops um e s) = rk_peak s"
  "rk_stop_triggered (erholung ops um e s) = rk_stop_triggered s"
  "to_broker (rk_tor (erholung ops um e s)) = to_broker (rk_tor s)" "to_saetze (rk_tor (erholung ops um e s)) = to_saetze (rk_tor s)"
  by (simp_all add: erholung_def Let_def)

lemma drawdown_sel [simp]:
  "drawdown e (warnstufe e' s) = drawdown e s" "drawdown e (fuehre_spitze e s) = max (rk_peak s) e - e"
  by (simp_all add: drawdown_def)

lemma breaker_halted: "rk_halted s \<Longrightarrow> breaker ops h z factory um e s = s"
  by (simp add: breaker_def)

lemma erholung_triggered: "rk_stop_triggered s \<Longrightarrow> rk_halted (erholung ops um e s) = rk_halted s"
  by (simp add: erholung_def Let_def)

lemma stop_triggers:
  "rk_stop_triggered (portfolio_stop ops e s) = (rk_stop_triggered s \<or> (0 < rk_session_start s \<and> 0 < rk_stop_pct s
      \<and> rk_stop_pct s \<le> (rk_session_start s - e) / rk_session_start s))"
  "rk_halted (portfolio_stop ops e s) = (rk_halted s \<or> (0 < rk_session_start s \<and> 0 < rk_stop_pct s
      \<and> rk_stop_pct s \<le> (rk_session_start s - e) / rk_session_start s \<and> \<not> rk_stop_triggered s))"
  by (auto simp: portfolio_stop_def)

text \<open>What no update changes.\<close>

lemma update_keeps [simp]:
  "rk_user (update_account_equity ops h z factory um e a s) = rk_user s"
  "rk_session_start (update_account_equity ops h z factory um e a s) = rk_session_start s"
  "rk_stop_pct (update_account_equity ops h z factory um e a s) = rk_stop_pct s"
  "rk_dd_limit (update_account_equity ops h z factory um e a s) = rk_dd_limit s"
  "rk_dd_pct (update_account_equity ops h z factory um e a s) = rk_dd_pct s"
  "rk_peak (update_account_equity ops h z factory um e a s) = max (rk_peak s) e"
  "rk_stop_triggered (update_account_equity ops h z factory um e a s) = rk_stop_triggered (portfolio_stop ops e s)"
  by (simp_all add: update_account_equity_def Let_def)

lemma halted_update:
  assumes "rk_halted (portfolio_stop ops e s)"
  shows "to_broker (rk_tor (update_account_equity ops h z factory um e a s)) = to_broker (rk_tor s)"
    "to_saetze (rk_tor (update_account_equity ops h z factory um e a s)) = to_saetze (rk_tor s)"
    "\<not> a \<or> rk_stop_triggered (portfolio_stop ops e s) \<Longrightarrow> rk_halted (update_account_equity ops h z factory um e a s)"
  using assms by (simp_all add: update_account_equity_def Let_def breaker_halted erholung_triggered)

section \<open>The halt lasts\<close>

text \<open>The account never believes in a halt that the gate does not see.\<close>

definition gedeckt :: "'h halt_ops \<Rightarrow> ('b, 'h) konto \<Rightarrow> bool" where
  "gedeckt ops s \<longleftrightarrow> (rk_halted s \<or> rk_stop_triggered s \<longrightarrow> ho_halted ops (rk_user s) (to_halt (rk_tor s)))"

context halt_am_tor
begin

lemma liquidate_keeps:
  assumes "zu_is_halted z = frage" "ho_halted ops u (to_halt t)"
  shows "ho_halted ops u (to_halt (fst (liquidate_positions h z d k factory hl gtc ps r t)))"
  using assms(2)
proof (induction ps arbitrary: r t)
  case (Cons p ps)
  show ?case
  proof (cases "ps_symbol p = [] \<or> menge p \<le> 0")
    case True
    then show ?thesis using Cons by simp
  next
    case False
    obtain t' x where one: "liquidiere_eine h z d k factory hl gtc p t = (t', x)" by fastforce
    have "ho_halted ops u (to_halt t')"
    proof (cases "mk_order_intent (liq_intent d k hl gtc p)")
      case (Inl exc)
      then show ?thesis using one Cons.prems by (simp add: liquidiere_eine_def)
    next
      case (Inr i)
      show ?thesis
      proof (cases "factory (ps_symbol p) (menge p)")
        case (Inl exc)
        then show ?thesis using one Inr Cons.prems by (simp add: liquidiere_eine_def)
      next
        case (Inr q)
        obtain t1 y where run: "submit_with_result h z i q None t = (t1, y)" by fastforce
        have "t' = t1" using one \<open>mk_order_intent _ = Inr i\<close> Inr run
          by (auto simp: liquidiere_eine_def submit_def split: sum.splits)
        then show ?thesis using submit_spec(1) [OF run] frage_keeps [OF Cons.prems] assms(1) by simp
      qed
    qed
    then show ?thesis using False one Cons.IH by (auto simp: Let_def split: sum.split)
  qed
qed simp

lemma gedeckt_stop: "gedeckt ops s \<Longrightarrow> gedeckt ops (portfolio_stop ops e s)"
  by (simp add: gedeckt_def portfolio_stop_def trip_halts)

lemma gedeckt_breaker:
  assumes "zu_is_halted z = frage" "gedeckt ops s" shows "gedeckt ops (breaker ops h z factory um e s)"
proof (cases "rk_dd_limit s < drawdown e s \<and> \<not> rk_halted s")
  case True
  have "ho_halted ops (rk_user s) (to_halt (liquidate_through_gateway h z factory um t))"
    if "ho_halted ops (rk_user s) (to_halt t)" for t
    using that liquidate_keeps [OF assms(1)] by (auto simp: liquidate_through_gateway_def split: option.split sum.split)
  then show ?thesis using True by (simp add: gedeckt_def breaker_def Let_def trip_halts)
next
  case False
  then show ?thesis using assms(2) by (auto simp: breaker_def)
qed

lemma gedeckt_erholung: "gedeckt ops s \<Longrightarrow> gedeckt ops (erholung ops um e s)"
  by (auto simp: gedeckt_def erholung_def Let_def)

lemma gedeckt_schritt:
  assumes "zu_is_halted z = frage" "gedeckt ops s" shows "gedeckt ops (schritt ops h z factory ev s)"
proof (cases ev)
  case (Stand um e a)
  have "gedeckt ops (warnstufe e (fuehre_spitze e (portfolio_stop ops e s)))"
    using gedeckt_stop [OF assms(2), of e] by (auto simp: gedeckt_def warnstufe_def fuehre_spitze_def)
  from gedeckt_breaker [OF assms(1) this] have "gedeckt ops (breaker ops h z factory um e (warnstufe e (fuehre_spitze e (portfolio_stop ops e s))))" .
  then show ?thesis
    by (simp add: Stand schritt_def update_account_equity_def Let_def gedeckt_erholung)
next
  case (Neuer_Tag e)
  then show ?thesis using assms(2) by (simp add: schritt_def reset_risk_daily_limit_def gedeckt_def Let_def)
qed

lemma gedeckt_sitzung:
  "zu_is_halted z = frage \<Longrightarrow> gedeckt ops s \<Longrightarrow> gedeckt ops (sitzung ops h z factory evs s)"
  by (induction evs arbitrary: s) (simp_all add: sitzung_def gedeckt_schritt)

lemma gedeckt_start: "gedeckt ops (konto_start c d p u t)"
  by (simp add: gedeckt_def konto_start_def Let_def)

lemma session_halt:
  assumes "zu_is_halted z = frage" "s = sitzung ops h z factory evs (konto_start c d p u t)" "rk_halted s \<or> rk_stop_triggered s"
  shows "ho_halted ops (rk_user s) (to_halt (rk_tor s))"
proof -
  have "gedeckt ops s" unfolding assms(2) by (rule gedeckt_sitzung [OF assms(1) gedeckt_start])
  then show ?thesis using assms(3) unfolding gedeckt_def by blast
qed

end

text \<open>
  C5: whatever the equity does and however the days change, an account that holds the trading, or whose stop of
  the session was ever reached, has its halt set at the gate, so no entry passes; the daily reset does not lift it.
\<close>
theorem account_halt_is_seen:
  assumes "zu_is_halted z = (\<lambda>k u. is_halted (None :: unit ablage option) u k ())"
    and "s = sitzung (ks_ops txt zeit tok fc) h z factory evs (konto_start c d p u t)" and "rk_halted s \<or> rk_stop_triggered s"
  shows "snd (is_halted (None :: unit ablage option) (rk_user s) (to_halt (rk_tor s)) ())"
  using ks_tor.session_halt [OF assms] by (simp add: ks_ops_def)

definition bsp_umfeld :: "real \<Rightarrow> umfeld" where
  "bsp_umfeld t = \<lparr>um_now = t, um_decision = ''breaker-1'', um_positions = Some (Inr [bsp_position ''A''])\<rparr>"

definition ks_ask :: "ks \<Rightarrow> string option \<Rightarrow> ks \<times> bool" where
  "ks_ask k u = is_halted (None :: unit ablage option) u k ()"

definition bsp_ks_tor :: "(auftrag list, ks) tor" where
  "bsp_ks_tor = \<lparr>to_broker = [], to_halt = bsp_ks, to_saetze = []\<rparr>"

lemma account_halt_is_seen_witness:
  "\<exists>s :: (auftrag list, ks) konto. rk_stop_triggered s \<and> \<not> rk_halted s
     \<and> snd (is_halted (None :: unit ablage option) (rk_user s) (to_halt (rk_tor s)) ())"
proof -
  let ?z = "bsp_zugang (\<lambda>k u. is_halted (None :: unit ablage option) u k ()) :: (auftrag list, ks, unit) zugang"
  let ?s = "sitzung (ks_ops (\<lambda>_. []) [] None True) bsp_hash ?z (\<lambda>s m. Inr (Modell JNull []))
    [Stand (bsp_umfeld 1) 90 False, Neuer_Tag (Some 90)] (konto_start (Some 100) 0.175 (Some 7) None bsp_ks_tor)"
  have t: "rk_stop_triggered ?s" "\<not> rk_halted ?s"
    by (simp_all add: sitzung_def schritt_def reset_risk_daily_limit_def stop_triggers konto_start_def)
  have "snd (is_halted (None :: unit ablage option) (rk_user ?s) (to_halt (rk_tor ?s)) ())"
    by (rule account_halt_is_seen [OF _ refl disjI2 [OF t(1)]]) (simp add: bsp_zugang_def)
  with t show ?thesis by blast
qed

section \<open>The breaker\<close>

definition ohne_freigabe :: "ereignis \<Rightarrow> bool" where
  "ohne_freigabe ev = (case ev of Stand _ _ a \<Rightarrow> \<not> a | Neuer_Tag _ \<Rightarrow> False)"

lemma halted_stays:
  "list_all ohne_freigabe evs \<Longrightarrow> rk_halted s \<Longrightarrow>
     rk_halted (sitzung ops h z factory evs s) \<and> to_broker (rk_tor (sitzung ops h z factory evs s)) = to_broker (rk_tor s)
     \<and> to_saetze (rk_tor (sitzung ops h z factory evs s)) = to_saetze (rk_tor s)"
proof (induction evs arbitrary: s)
  case (Cons ev evs)
  then obtain um e where ev: "ev = Stand um e False" by (cases ev) (auto simp: ohne_freigabe_def)
  have "rk_halted (portfolio_stop ops e s)" using Cons.prems by (simp add: stop_triggers)
  note st = halted_update [OF this, where a = False, of h z factory um]
  have "rk_halted (schritt ops h z factory ev s)" using st(3) by (simp add: ev schritt_def)
  moreover have "to_broker (rk_tor (schritt ops h z factory ev s)) = to_broker (rk_tor s)"
    "to_saetze (rk_tor (schritt ops h z factory ev s)) = to_saetze (rk_tor s)" using st(1,2) by (simp_all add: ev schritt_def)
  ultimately show ?case using Cons.IH [of "schritt ops h z factory ev s"] Cons.prems(1) by (simp add: sitzung_def)
qed (simp add: sitzung_def)

text \<open>
  on the live path a halt of the account only ever goes from off to on: once it stands, no sequence of
  equities lifts it within the session, and the book is not liquidated a second time.
\<close>
theorem live_halt_is_final:
  assumes "list_all ohne_freigabe evs" "rk_halted s"
  shows "rk_halted (sitzung ops h z factory evs s) \<and> to_broker (rk_tor (sitzung ops h z factory evs s)) = to_broker (rk_tor s)
     \<and> to_saetze (rk_tor (sitzung ops h z factory evs s)) = to_saetze (rk_tor s)"
  by (rule halted_stays [OF assms])

definition bsp_konto :: "(auftrag list, lokaler_halt) konto" where
  "bsp_konto = konto_start (Some 100) 0.175 (Some 7) None \<lparr>to_broker = [], to_halt = lh_start, to_saetze = []\<rparr>"

lemma live_halt_is_final_witness:
  "rk_halted (sitzung lh_ops bsp_hash (bsp_zugang lh_frage :: (auftrag list, lokaler_halt, unit) zugang) (\<lambda>s m. Inr (Modell JNull []))
     [Stand (bsp_umfeld 2) 100 False, Stand (bsp_umfeld 3) 120 False] (bsp_konto\<lparr>rk_halted := True\<rparr>))"
  by (rule live_halt_is_final [THEN conjunct1]) (simp_all add: ohne_freigabe_def)

text \<open>The two reasons of a halt, as conditions on the equity.\<close>

definition stop_faellig :: "real \<Rightarrow> ('b, 'h) konto \<Rightarrow> bool" where
  "stop_faellig e s \<longleftrightarrow> \<not> rk_stop_triggered s \<and> 0 < rk_session_start s \<and> 0 < rk_stop_pct s
     \<and> e \<le> rk_session_start s * (1 - rk_stop_pct s)"

lemma stop_faellig_condition:
  "stop_faellig e s = (0 < rk_session_start s \<and> 0 < rk_stop_pct s
     \<and> rk_stop_pct s \<le> (rk_session_start s - e) / rk_session_start s \<and> \<not> rk_stop_triggered s)"
  by (auto simp: stop_faellig_def pos_le_divide_eq algebra_simps)

lemma stop_faellig_iff: "rk_halted (portfolio_stop ops e s) = (rk_halted s \<or> stop_faellig e s)"
  by (simp add: stop_triggers stop_faellig_condition)

lemma stop_idle: "\<not> stop_faellig e s \<Longrightarrow> portfolio_stop ops e s = s"
  unfolding portfolio_stop_def stop_faellig_condition by (rule if_not_P)

text \<open>
  an account that was not halted is halted by an equity exactly when it is at or below the stop of the
  session for the first time, or further below the peak than the limit of the day; and the book goes to the
  broker exactly in the second case without the first, with every closable position once, past the halt itself.
\<close>
theorem account_halts_exactly:
  assumes "\<not> rk_halted s" "um_decision um \<noteq> []" "um_positions um = Some (Inr ps)"
  shows "rk_halted (update_account_equity ops h (protokoll_zugang antwort q) (\<lambda>s m. Inr (factory s m)) um e False s)
      = (stop_faellig e s \<or> rk_dd_limit s < max (rk_peak s) e - e)
    \<and> to_broker (rk_tor (update_account_equity ops h (protokoll_zugang antwort q) (\<lambda>s m. Inr (factory s m)) um e False s))
      = to_broker (rk_tor s)
        @ (if \<not> stop_faellig e s \<and> rk_dd_limit s < max (rk_peak s) e - e
           then map (liq_request h (um_decision um) Breaker factory True False) (filter schliessbar ps) else [])"
proof -
  let ?z = "protokoll_zugang antwort q" let ?f = "\<lambda>s m. Inr (factory s m)"
  have k: "Breaker \<in> set never_blocked_kinds" by (simp add: never_blocked_kinds_def)
  have liq: "to_broker (liquidate_through_gateway h ?z ?f um t)
      = to_broker t @ map (liq_request h (um_decision um) Breaker factory True False) (filter schliessbar ps)" for t
  proof -
    obtain t' r' where run: "liquidate_positions h ?z (um_decision um) Breaker ?f True False ps leerer_bericht t = (t', r')" by fastforce
    from liquidate_sends [OF k assms(2) run] run show ?thesis by (simp add: liquidate_through_gateway_def assms(3))
  qed
  let ?s = "warnstufe e (fuehre_spitze e (portfolio_stop ops e s))"
  have h: "rk_halted ?s = stop_faellig e s" using assms(1) by (simp add: stop_faellig_iff)
  have d: "drawdown e ?s = max (rk_peak s) e - e" "rk_dd_limit ?s = rk_dd_limit s" by simp_all
  have b: "to_broker (rk_tor ?s) = to_broker (rk_tor s)" by simp
  show ?thesis
    unfolding update_account_equity_def Let_def using h d b
    by (simp add: breaker_def Let_def liq)
qed

lemma account_halts_exactly_witness:
  "length (to_broker (rk_tor (update_account_equity lh_ops bsp_hash (protokoll_zugang (\<lambda>_. Inr ()) lh_frage)
     (\<lambda>s m. Inr (Modell JNull [])) (bsp_umfeld 1) 95 False (bsp_konto\<lparr>rk_peak := 120\<rparr>)))) = 1"
proof -
  have "\<not> rk_halted (bsp_konto\<lparr>rk_peak := 120\<rparr>)" by (simp add: bsp_konto_def konto_start_def)
  from account_halts_exactly [OF this, of "bsp_umfeld 1" "[bsp_position ''A'']" lh_ops bsp_hash "\<lambda>_. Inr ()" lh_frage "\<lambda>s m. Modell JNull []" 95]
  show ?thesis
    by (simp add: bsp_umfeld_def stop_faellig_def bsp_konto_def konto_start_def schliessbar_def bsp_position_def menge_def)
qed

section \<open>What the breaker does not do\<close>

definition spitze_bis :: "real \<Rightarrow> ('b, 'h) konto \<Rightarrow> bool" where
  "spitze_bis m s \<longleftrightarrow> 0 < rk_session_start s \<and> 0 < rk_stop_pct s \<and> rk_peak s \<le> m
     \<and> m \<le> rk_session_start s * (1 - rk_stop_pct s) + rk_dd_limit s \<and> (rk_stop_triggered s \<longrightarrow> rk_halted s)"

lemma shadowed_update:
  assumes "spitze_bis m s" "e \<le> m"
  shows "spitze_bis m (update_account_equity ops h z factory um e a s)
    \<and> to_broker (rk_tor (update_account_equity ops h z factory um e a s)) = to_broker (rk_tor s)"
proof -
  let ?p = "portfolio_stop ops e s"
  have "rk_halted ?p" if l: "rk_dd_limit s < max (rk_peak s) e - e"
  proof -
    have "max (rk_peak s) e \<le> m" using assms by (simp add: spitze_bis_def)
    then have "e \<le> rk_session_start s * (1 - rk_stop_pct s)" using l assms(1) unfolding spitze_bis_def by linarith
    then show ?thesis using assms(1) by (auto simp: stop_faellig_iff stop_faellig_def spitze_bis_def)
  qed
  then have b: "breaker ops h z factory um e (warnstufe e (fuehre_spitze e ?p)) = warnstufe e (fuehre_spitze e ?p)"
    by (auto simp: breaker_def)
  have t: "rk_stop_triggered ?p \<longrightarrow> rk_halted ?p" using assms(1) by (auto simp: stop_triggers spitze_bis_def)
  show ?thesis
    using assms t by (auto simp: spitze_bis_def update_account_equity_def Let_def b erholung_triggered)
qed

lemma shadowed_session:
  "spitze_bis m s \<Longrightarrow> list_all (\<lambda>ev. case ev of Stand _ e _ \<Rightarrow> e \<le> m | Neuer_Tag _ \<Rightarrow> False) evs
     \<Longrightarrow> to_broker (rk_tor (sitzung ops h z factory evs s)) = to_broker (rk_tor s)"
proof (induction evs arbitrary: s)
  case (Cons ev evs)
  then obtain um e a where ev: "ev = Stand um e a" "e \<le> m" by (cases ev) auto
  note u = shadowed_update [OF Cons.prems(1) ev(2), of ops h z factory um a]
  from u Cons.IH [OF conjunct1 [OF u]] Cons.prems(2) show ?case by (simp add: sitzung_def schritt_def ev(1))
qed (simp add: sitzung_def)

text \<open>
  the breaker's liquidation is shadowed by the stop of the session, which halts first and sells nothing: as
  long as the account never rises above its start by more than the difference of the two limits (ten and a half
  percent as shipped), no loss, however deep, ever sends the book to the broker.
\<close>
theorem breaker_never_liquidates:
  assumes "0 < c" "0 < p" "p / 100 \<le> d"
    and "list_all (\<lambda>ev. case ev of Stand _ e _ \<Rightarrow> e \<le> c * (1 + d - p / 100) | Neuer_Tag _ \<Rightarrow> False) evs"
  shows "to_broker (rk_tor (sitzung ops h z factory evs (konto_start (Some c) d (Some p) u t))) = to_broker t"
proof -
  have "c * 1 \<le> c * (1 + d - p / 100)" using assms(1,3) by (intro mult_left_mono) auto
  then have "spitze_bis (c * (1 + d - p / 100)) (konto_start (Some c) d (Some p) u t)"
    using assms(1,2) by (simp add: spitze_bis_def konto_start_def algebra_simps)
  from shadowed_session [OF this assms(4)] show ?thesis by (simp add: konto_start_def)
qed

lemma breaker_never_liquidates_witness:
  "to_broker (rk_tor (sitzung lh_ops bsp_hash (bsp_zugang lh_frage :: (auftrag list, lokaler_halt, unit) zugang)
     (\<lambda>s m. Inr (Modell JNull [])) [Stand (bsp_umfeld 1) 105 False, Stand (bsp_umfeld 2) 1 False]
     (konto_start (Some 100) 0.175 (Some 7) None \<lparr>to_broker = [], to_halt = lh_start, to_saetze = []\<rparr>))) = []"
proof -
  have "list_all (\<lambda>ev. case ev of Stand _ e _ \<Rightarrow> e \<le> 100 * (1 + 0.175 - 7 / 100) | Neuer_Tag _ \<Rightarrow> False)
     [Stand (bsp_umfeld 1) 105 False, Stand (bsp_umfeld 2) 1 False]" by simp
  from breaker_never_liquidates [OF _ _ _ this, of lh_ops bsp_hash "bsp_zugang lh_frage :: (auftrag list, lokaler_halt, unit) zugang"
      "\<lambda>s m. Inr (Modell JNull [])" None "\<lparr>to_broker = [], to_halt = lh_start, to_saetze = []\<rparr>"]
  show ?thesis by simp
qed

text \<open>
  one failed reading of the account can sell the whole book: the configured default equity then counts as a
  reading, becomes the peak, and the next true equity lies below it by more than the limit of the day. The
  account itself has not lost anything.
\<close>
theorem failed_read_liquidates:
  assumes "0 < e" "0 < d" "d < 1" "0 < p" "e * (1 + d) < default_equity"
    and "um_decision um' \<noteq> []" "um_positions um' = Some (Inr ps)"
  shows "let s = sitzung ops h (protokoll_zugang antwort q) (\<lambda>s m. Inr (factory s m))
            [live_stand um None default_equity, live_stand um' (Some e) default_equity] (konto_start (Some e) d (Some p) u t)
     in rk_halted s \<and> to_broker (rk_tor s)
          = to_broker t @ map (liq_request h (um_decision um') Breaker factory True False) (filter schliessbar ps)"
proof -
  let ?z = "protokoll_zugang antwort q" let ?f = "\<lambda>s m. Inr (factory s m)" let ?s0 = "konto_start (Some e) d (Some p) u t"
  let ?s1 = "update_account_equity ops h ?z ?f um default_equity False ?s0"
  have "0 < e * d" using assms(1,2) by simp
  then have D: "e < default_equity" "e * d < default_equity - e" using assms(5) by (simp_all add: algebra_simps)
  have ns: "\<not> rk_halted ?s0" "\<not> rk_stop_triggered ?s0" "rk_session_start ?s0 = e" "rk_peak ?s0 = e" "rk_dd_limit ?s0 = e * d"
    "rk_stop_pct ?s0 = p / 100" by (simp_all add: konto_start_def)
  have f: "\<not> stop_faellig x ?s0" if "e \<le> x" for x
  proof -
    have "e * (1 - p / 100) < e" using assms(1,4) by (simp add: algebra_simps)
    then show ?thesis unfolding stop_faellig_def ns(3) ns(6) using that by auto
  qed
  have pk: "\<not> rk_dd_limit ?s0 < max (rk_peak ?s0) default_equity - default_equity" using D ns \<open>0 < e * d\<close> by simp
  have p1: "portfolio_stop ops default_equity ?s0 = ?s0"
    using f [of default_equity] D(1) by (intro stop_idle) simp
  have h1: "\<not> rk_halted ?s1" using pk ns by (simp add: update_account_equity_def Let_def p1)
  have b1: "to_broker (rk_tor ?s1) = to_broker t"
    using pk ns by (simp add: update_account_equity_def Let_def p1 breaker_def) (simp add: konto_start_def)
  have f1: "\<not> stop_faellig e ?s1" using f [of e] ns p1 by (simp add: stop_faellig_def)
  have d1: "rk_dd_limit ?s1 < max (rk_peak ?s1) e - e" using D ns by simp
  from account_halts_exactly [OF h1 assms(6,7), of ops h antwort q factory e] f1 d1 b1
  show ?thesis using assms(1) by (simp add: sitzung_def schritt_def live_stand_def resolve_equity_def)
qed

lemma failed_read_liquidates_witness:
  "length (to_broker (rk_tor (sitzung lh_ops bsp_hash (protokoll_zugang (\<lambda>_. Inr ()) lh_frage) (\<lambda>s m. Inr (Modell JNull []))
     [live_stand (bsp_umfeld 1) None 100000, live_stand (bsp_umfeld 2) (Some 10000) 100000]
     (konto_start (Some 10000) 0.175 (Some 7) None \<lparr>to_broker = [], to_halt = lh_start, to_saetze = []\<rparr>)))) = 1"
  using failed_read_liquidates [of 10000 "0.175" 7 100000 "bsp_umfeld 2" "[bsp_position ''A'']" lh_ops bsp_hash "\<lambda>_. Inr ()" lh_frage
      "\<lambda>s m. Modell JNull []" "bsp_umfeld 1" None "\<lparr>to_broker = [], to_halt = lh_start, to_saetze = []\<rparr>"]
  by (simp add: bsp_umfeld_def schliessbar_def bsp_position_def menge_def Let_def)

text \<open>
  the longer a halt lasts, the more of the loss has to be made good before the trading resumes: a drawdown
  between 0.3 and 0.5 of the limit lifts the halt within the first two hours and no longer after them.
\<close>
theorem unlock_gets_harder:
  assumes "rk_halted s" "rk_last_halt s = Some since" "rk_unlock s = 0.5" "\<not> rk_stop_triggered s" "\<not> stop_faellig e s"
    and "rk_dd_limit s * 0.3 < max (rk_peak s) e - e" "max (rk_peak s) e - e \<le> rk_dd_limit s * 0.5" "0 < rk_dd_limit s"
    and "um_now um \<le> since + 2" "since + 2 < um_now um'"
  shows "\<not> rk_halted (update_account_equity ops h z factory um e True s)
    \<and> rk_halted (update_account_equity ops h z factory um' e True s)"
proof -
  let ?s = "warnstufe e (fuehre_spitze e s)"
  have u: "update_account_equity ops h z factory x e True s = erholung ops x e ?s" for x
    using assms(1) stop_idle [OF assms(5)] by (simp add: update_account_equity_def Let_def breaker_halted)
  have "max (rk_peak s) e - e \<le> rk_dd_limit s * rk_unlock s" "\<not> 4 < um_now um - since" "\<not> 2 < um_now um - since"
    unfolding assms(3) using assms(7,9) by simp_all
  then have a: "\<not> rk_halted (erholung ops um e ?s)"
    using assms(2,4) by (simp add: erholung_def Let_def)
  have "\<not> max (rk_peak s) e - e \<le> rk_dd_limit s * 0.3" "\<not> max (rk_peak s) e - e \<le> rk_dd_limit s * 0.2" using assms(6,8) by simp_all
  then have "rk_halted (erholung ops um' e ?s)"
    using assms(1,2,10) by (simp add: erholung_def Let_def)
  with a show ?thesis by (simp add: u)
qed

lemma unlock_gets_harder_witness:
  "rk_halted (update_account_equity lh_ops bsp_hash (bsp_zugang lh_frage :: (auftrag list, lokaler_halt, unit) zugang)
     (\<lambda>s m. Inr (Modell JNull [])) (bsp_umfeld 3) 120 True
     (bsp_konto\<lparr>rk_halted := True, rk_last_halt := Some 0, rk_peak := 127, rk_count := 1\<rparr>))"
  by (rule unlock_gets_harder [where um = "bsp_umfeld 1" and since = 0, THEN conjunct2])
     (simp_all add: bsp_konto_def konto_start_def stop_faellig_def bsp_umfeld_def)

text \<open>
  a loss that halted the account is sold on the next day: the daily reset takes the halt back but keeps the
  peak, so the first equity of the new day lies below it by more than the new limit, and the breaker closes the
  whole book, although the equity did not change over night.
\<close>
theorem new_day_liquidates:
  assumes "0 < c" "0 < p" "0 < d" "e \<le> c * (1 - p / 100)" "c * d < c - e"
    and "um_decision um' \<noteq> []" "um_positions um' = Some (Inr ps)"
  shows "let run = (\<lambda>evs. sitzung ops h (protokoll_zugang antwort q) (\<lambda>s m. Inr (factory s m)) evs (konto_start (Some c) d (Some p) u t));
             day1 = run [Stand um e False]; day2 = run [Stand um e False, Neuer_Tag (Some e), Stand um' e False]
     in rk_halted day1 \<and> to_broker (rk_tor day1) = to_broker t
       \<and> to_broker (rk_tor day2) = to_broker t @ map (liq_request h (um_decision um') Breaker factory True False) (filter schliessbar ps)"
proof -
  let ?z = "protokoll_zugang antwort q" let ?f = "\<lambda>s m. Inr (factory s m)" let ?s0 = "konto_start (Some c) d (Some p) u t"
  let ?s1 = "update_account_equity ops h ?z ?f um e False ?s0" let ?s2 = "reset_risk_daily_limit (Some e) ?s1"
  have "c * (1 - p / 100) < c" using assms(1,2) by simp
  from order.strict_trans1 [OF assms(4) this] assms(1) have c: "0 < c" "e < c" by simp_all
  have ns: "\<not> rk_halted ?s0" "\<not> rk_stop_triggered ?s0" "rk_session_start ?s0 = c" "rk_peak ?s0 = c" "rk_stop_pct ?s0 = p / 100"
    "rk_dd_pct ?s0 = d" by (simp_all add: konto_start_def)
  have f: "stop_faellig e ?s0" unfolding stop_faellig_def ns(3) ns(5) using ns(2) assms(2,4) c(1) by simp
  have hp: "rk_halted (portfolio_stop ops e ?s0)" using f by (simp add: stop_faellig_iff)
  have h1: "rk_halted ?s1" by (rule halted_update(3) [OF hp]) simp
  have b1: "to_broker (rk_tor ?s1) = to_broker t" using halted_update(1) [OF hp] by (simp add: konto_start_def)
  have t1: "rk_stop_triggered ?s1" using f by (simp add: stop_triggers stop_faellig_condition)
  have s2: "\<not> rk_halted ?s2" "rk_stop_triggered ?s2" "rk_peak ?s2 = c" "rk_dd_limit ?s2 = e * d" "rk_tor ?s2 = rk_tor ?s1"
    using ns t1 c(2) by (simp_all add: reset_risk_daily_limit_def Let_def)
  have "e * d < c * d" using c(2) assms(3) by simp
  then have "rk_dd_limit ?s2 < max (rk_peak ?s2) e - e" using s2 assms(5) c(2) by simp
  moreover have "\<not> stop_faellig e ?s2" using s2(2) by (simp add: stop_faellig_def)
  ultimately show ?thesis
    using account_halts_exactly [OF s2(1) assms(6,7), of ops h antwort q factory e] h1 b1 s2(5)
    by (simp add: sitzung_def schritt_def)
qed

lemma new_day_liquidates_witness:
  "length (to_broker (rk_tor (sitzung lh_ops bsp_hash (protokoll_zugang (\<lambda>_. Inr ()) lh_frage) (\<lambda>s m. Inr (Modell JNull []))
     [Stand (bsp_umfeld 1) 80 False, Neuer_Tag (Some 80), Stand (bsp_umfeld 24) 80 False]
     (konto_start (Some 100) 0.175 (Some 7) None \<lparr>to_broker = [], to_halt = lh_start, to_saetze = []\<rparr>)))) = 1"
  using new_day_liquidates [of 100 7 "0.175" 80 "bsp_umfeld 24" "[bsp_position ''A'']" lh_ops bsp_hash "\<lambda>_. Inr ()" lh_frage
      "\<lambda>s m. Modell JNull []" None "\<lparr>to_broker = [], to_halt = lh_start, to_saetze = []\<rparr>" "bsp_umfeld 1"]
  by (simp add: bsp_umfeld_def schliessbar_def bsp_position_def menge_def Let_def)

end
