(* ===== verification/Risk_Scalers.thy ===== *)
theory Risk_Scalers
  imports Iron_Dome
begin

text \<open>
  The factors on the size of a position and their mirror in the audit (\<open>core/risk_skalierer.py\<close>, the scalar part of
  \<open>core/ml/vol_model.py\<close>), and the slots of the book (\<open>core/risk_manager.py\<close>).

  An input is what the caller hands over: missing, a truth value, a float, a text, or something else. \<open>num\<close> is
  \<open>float(text)\<close>. The configuration is a record.
\<close>

section \<open>Inputs and configuration\<close>

datatype roh = R_None | R_Bool bool | R_Num pyfloat | R_Text string | R_Other

record sizing_cfg =
  sc_vol_enabled :: bool
  sc_vol_target :: real
  sc_vol_lo :: real
  sc_vol_hi :: real
  sc_vix_influence :: real
  sc_skew_enabled :: bool
  sc_skew_cap :: real
  sc_coverage :: real
  sc_bull_enabled :: bool
  sc_bull_calm :: real
  sc_dynamic :: bool
  sc_min_pos :: real
  sc_max_pos_sizing :: real
  sc_max_pos :: real
  sc_clean_weight :: string
  sc_full_universe :: bool
  sc_full_max :: int
  sc_max_positions :: int
  sc_cash_aware :: bool
  sc_forbid_leverage :: bool
  sc_cash_buffer :: real
  sc_proportional :: bool
  sc_max_exposure :: "real option"
  sc_clamp_floor :: real
  sc_kelly :: "real option"
  sc_order_value :: real
  sc_min_order :: real
  sc_risk_per_trade :: real

section \<open>The volatility gauge\<close>

datatype vix_source = Confirmed | Unconfirmed | Invalid

definition VIX_FAILCLOSED_SENTINEL :: real where "VIX_FAILCLOSED_SENTINEL = 45"

definition resolve_vix :: "(string \<Rightarrow> pyfloat option) \<Rightarrow> roh \<Rightarrow> real \<times> bool \<times> vix_source" where
  "resolve_vix num raw =
     (let bad = (VIX_FAILCLOSED_SENTINEL, False, Invalid);
          judge = (\<lambda>x. case x of Fin v \<Rightarrow> if v \<le> 0 then bad else (v, True, Confirmed) | _ \<Rightarrow> bad)
      in case raw of
           R_None \<Rightarrow> (VIX_FAILCLOSED_SENTINEL, False, Unconfirmed)
         | R_Bool _ \<Rightarrow> bad
         | R_Num x \<Rightarrow> judge x
         | R_Text t \<Rightarrow> (case num t of None \<Rightarrow> bad | Some x \<Rightarrow> judge x)
         | R_Other \<Rightarrow> bad)"

definition vix_ladder_scaler :: "real \<Rightarrow> bool \<Rightarrow> real \<Rightarrow> real" where
  "vix_ladder_scaler vix bull calm =
     (if 40 < vix then 0.3 else if 35 < vix then 0.4 else if 25 < vix then 0.65 else if 18 < vix then 0.9
      else if bull then calm else 1)"

section \<open>The factors\<close>

text \<open>\<open>vol_size_scaler_from_forecast\<close> for a forecast that was already found to be positive and finite.\<close>

definition vol_size_scaler_from_forecast :: "real \<Rightarrow> real \<Rightarrow> real \<Rightarrow> real \<Rightarrow> real" where
  "vol_size_scaler_from_forecast fv target lo hi = min (max (target / fv) lo) hi"

definition vol_targeting_scaler :: "sizing_cfg \<Rightarrow> roh \<Rightarrow> real" where
  "vol_targeting_scaler c fv =
     (if \<not> sc_vol_enabled c then 1
      else case fv of
             R_Num (Fin r) \<Rightarrow>
               if 0 < r
               then 1 + max 0 (min 1 (sc_vix_influence c))
                      * (vol_size_scaler_from_forecast r (sc_vol_target c) (sc_vol_lo c) (sc_vol_hi c) - 1)
               else 1
           | _ \<Rightarrow> 1)"

definition skew_size_tilt :: "sizing_cfg \<Rightarrow> roh \<Rightarrow> real" where
  "skew_size_tilt c p =
     (if \<not> sc_skew_enabled c \<or> sc_skew_cap c \<le> 0 then 1
      else case p of
             R_Num (Fin r) \<Rightarrow>
               if 0 \<le> r \<and> r \<le> 1
               then max (1 - sc_skew_cap c) (min (1 + sc_skew_cap c) (1 + 2 * sc_skew_cap c * (r - 0.5))) else 1
           | _ \<Rightarrow> 1)"

definition coverage_size_discount :: "sizing_cfg \<Rightarrow> roh \<Rightarrow> real" where
  "coverage_size_discount c cov =
     (if sc_coverage c \<le> 0 then 1
      else case cov of
             R_Num (Fin r) \<Rightarrow> if 0 < r \<and> r \<le> 1 then max 0 (min 1 (1 - sc_coverage c * (1 - sqrt r))) else 1
           | _ \<Rightarrow> 1)"

section \<open>The mirror in the audit\<close>

text \<open>The fields of the decision context that the mirrors write.\<close>

record context_felder =
  cx_scaler :: "real option"
  cx_mode :: "string option"
  cx_weight :: "real option"
  cx_limit :: "string option"
  cx_cap :: "real option"

definition apply_vol_targeting_audit :: "sizing_cfg \<Rightarrow> roh \<Rightarrow> roh \<Rightarrow> roh \<Rightarrow> context_felder \<Rightarrow> context_felder \<times> real" where
  "apply_vol_targeting_audit c fv rr cov x =
     (let s = vol_targeting_scaler c fv * skew_size_tilt c rr * coverage_size_discount c cov
      in (if s \<noteq> 1 then x\<lparr>cx_scaler := Some s\<rparr> else x, s))"

text \<open>What the sizer notes: the limit that bound and its dollar value in cents, the reason of a zero, how it sized.\<close>

record sizing_trace =
  tr_limit :: "string option"
  tr_cap :: "int option"
  tr_zero :: "string option"
  tr_mode :: "string option"
  tr_weight :: "real option"

definition leere_spur :: sizing_trace where
  "leere_spur = \<lparr>tr_limit = None, tr_cap = None, tr_zero = None, tr_mode = None, tr_weight = None\<rparr>"

definition oder :: "'a option \<Rightarrow> 'a option \<Rightarrow> 'a option" where
  "oder x y = (case x of None \<Rightarrow> y | Some v \<Rightarrow> Some v)"

definition apply_sizing_mode_audit :: "sizing_trace \<Rightarrow> context_felder \<Rightarrow> context_felder" where
  "apply_sizing_mode_audit tr x =
     x\<lparr>cx_mode := oder (tr_mode tr) (cx_mode x), cx_weight := oder (tr_weight tr) (cx_weight x),
       cx_limit := oder (tr_limit tr) (cx_limit x),
       cx_cap := oder (map_option (\<lambda>n. of_int n / 100) (tr_cap tr)) (cx_cap x)\<rparr>"

section \<open>The slots of the book\<close>

definition effective_max_positions :: "sizing_cfg \<Rightarrow> int" where
  "effective_max_positions c = (if sc_full_universe c then max 1 (sc_full_max c) else max 1 (sc_max_positions c))"

text \<open>\<open>is_immaterial_entry\<close> for readable numbers; the given count of positions may be missing.\<close>

definition is_immaterial_entry :: "sizing_cfg \<Rightarrow> real \<Rightarrow> real \<Rightarrow> real \<Rightarrow> int option \<Rightarrow> bool" where
  "is_immaterial_entry c worth equity mat_pct max_positions =
     (\<not> (mat_pct \<le> 0 \<or> worth \<le> 0)
      \<and> worth < mat_pct * (equity / of_int (max 1 (case max_positions of None \<Rightarrow> effective_max_positions c | Some n \<Rightarrow> n))))"

text \<open>\<open>effective_free_slots\<close>; an unreadable count of open positions counts as none.\<close>

definition effective_free_slots :: "sizing_cfg \<Rightarrow> int option \<Rightarrow> bool \<Rightarrow> int" where
  "effective_free_slots c open_positions confirmed =
     (let cap = effective_max_positions c; held = (case open_positions of None \<Rightarrow> 0 | Some n \<Rightarrow> max 0 n)
      in if \<not> sc_cash_aware c then cap else if \<not> confirmed then cap
         else if cap - held \<le> 0 then cap else cap - held)"

section \<open>Lemmas\<close>

lemma resolve_vix_unconfirmed: "\<not> fst (snd (resolve_vix num raw)) \<Longrightarrow> fst (resolve_vix num raw) = VIX_FAILCLOSED_SENTINEL"
  by (auto simp: resolve_vix_def Let_def split: roh.splits pyfloat.splits option.splits if_splits)

lemma resolve_vix_positive: "0 < fst (resolve_vix num raw)"
  by (auto simp: resolve_vix_def Let_def VIX_FAILCLOSED_SENTINEL_def split: roh.splits pyfloat.splits option.splits if_splits)

lemma ladder_sentinel: "vix_ladder_scaler VIX_FAILCLOSED_SENTINEL bull calm = 0.3"
  by (simp add: vix_ladder_scaler_def VIX_FAILCLOSED_SENTINEL_def)

lemma ladder_least: "0.3 \<le> calm \<Longrightarrow> 0.3 \<le> vix_ladder_scaler v bull calm"
  by (simp add: vix_ladder_scaler_def)

lemma ladder_antimono: "v \<le> w \<Longrightarrow> 0.9 \<le> calm \<Longrightarrow> vix_ladder_scaler w bull calm \<le> vix_ladder_scaler v bull calm"
  by (simp add: vix_ladder_scaler_def)

lemma slots_pos [simp]: "1 \<le> effective_max_positions c" "0 < effective_max_positions c"
  by (auto simp: effective_max_positions_def)

lemma free_slots_range: "1 \<le> effective_free_slots c n b \<and> effective_free_slots c n b \<le> effective_max_positions c"
  using slots_pos(1) [of c] by (auto simp: effective_free_slots_def Let_def split: option.split)

lemma coverage_range: "0 \<le> coverage_size_discount c cov \<and> coverage_size_discount c cov \<le> 1"
  by (auto simp: coverage_size_discount_def split: roh.split pyfloat.split)

lemma skew_range:
  assumes "0 \<le> sc_skew_cap c" shows "1 - sc_skew_cap c \<le> skew_size_tilt c p \<and> skew_size_tilt c p \<le> 1 + sc_skew_cap c"
  using assms by (auto simp: skew_size_tilt_def split: roh.split pyfloat.split)

lemma blend_range:
  fixes i s :: real
  assumes "0 \<le> i" "i \<le> 1" "lo \<le> s" "s \<le> hi" "lo \<le> 1" "1 \<le> hi"
  shows "lo \<le> 1 + i * (s - 1)" "1 + i * (s - 1) \<le> hi"
proof -
  have "i * (lo - 1) \<le> i * (s - 1)" "i * (s - 1) \<le> i * (hi - 1)" using assms by (simp_all add: mult_left_mono)
  moreover have "1 * (lo - 1) \<le> i * (lo - 1)" "i * (hi - 1) \<le> 1 * (hi - 1)"
    using assms by (simp_all add: mult_right_mono mult_right_mono_neg del: mult_1)
  ultimately show "lo \<le> 1 + i * (s - 1)" "1 + i * (s - 1) \<le> hi" by simp_all
qed

lemma vol_range:
  assumes "sc_vol_lo c \<le> 1" "1 \<le> sc_vol_hi c"
  shows "sc_vol_lo c \<le> vol_targeting_scaler c fv \<and> vol_targeting_scaler c fv \<le> sc_vol_hi c"
proof -
  have b: "sc_vol_lo c \<le> 1 + max 0 (min 1 (sc_vix_influence c)) * (vol_size_scaler_from_forecast r t (sc_vol_lo c) (sc_vol_hi c) - 1)
      \<and> 1 + max 0 (min 1 (sc_vix_influence c)) * (vol_size_scaler_from_forecast r t (sc_vol_lo c) (sc_vol_hi c) - 1) \<le> sc_vol_hi c" for r t
    using assms by (intro conjI blend_range) (auto simp: vol_size_scaler_from_forecast_def)
  then show ?thesis using assms by (auto simp: vol_targeting_scaler_def split: roh.split pyfloat.split)
qed

text \<open>
  every factor on a size stays in its band, whatever the inputs are: the volatility factor between its two
  bounds, the skew tilt within its cap around one, the coverage discount between zero and one; and a gauge that
  cannot be read counts as the strongest step of the ladder, which no reading undercuts.
\<close>
theorem factors_stay_in_band:
  assumes "sc_vol_lo c \<le> 1" "1 \<le> sc_vol_hi c" "0 \<le> sc_skew_cap c" "0.3 \<le> calm" "\<not> fst (snd (resolve_vix num raw))"
  shows "sc_vol_lo c \<le> vol_targeting_scaler c fv \<and> vol_targeting_scaler c fv \<le> sc_vol_hi c
    \<and> 1 - sc_skew_cap c \<le> skew_size_tilt c rr \<and> skew_size_tilt c rr \<le> 1 + sc_skew_cap c
    \<and> 0 \<le> coverage_size_discount c cov \<and> coverage_size_discount c cov \<le> 1
    \<and> vix_ladder_scaler (fst (resolve_vix num raw)) bull calm \<le> vix_ladder_scaler v bull' calm"
  using vol_range [OF assms(1,2)] skew_range [OF assms(3)] coverage_range ladder_least [OF assms(4)]
  by (simp add: resolve_vix_unconfirmed [OF assms(5)] ladder_sentinel)

definition bsp_sizing :: sizing_cfg where
  "bsp_sizing = \<lparr>sc_vol_enabled = True, sc_vol_target = 0.015, sc_vol_lo = 0.5, sc_vol_hi = 1.5, sc_vix_influence = 1,
     sc_skew_enabled = False, sc_skew_cap = 0, sc_coverage = 0, sc_bull_enabled = False, sc_bull_calm = 1,
     sc_dynamic = True, sc_min_pos = 0.05, sc_max_pos_sizing = 0.30, sc_max_pos = 0.25, sc_clean_weight = ''b'',
     sc_full_universe = True, sc_full_max = 20, sc_max_positions = 10, sc_cash_aware = True, sc_forbid_leverage = True,
     sc_cash_buffer = 1, sc_proportional = True, sc_max_exposure = Some 0.95, sc_clamp_floor = 0, sc_kelly = None,
     sc_order_value = 10000, sc_min_order = 1, sc_risk_per_trade = 0.02\<rparr>"

lemma factors_stay_in_band_witness:
  "vol_targeting_scaler bsp_sizing (R_Num (Fin 0.5)) \<le> 1.5 \<and> coverage_size_discount bsp_sizing R_None \<le> 1"
  using factors_stay_in_band [of bsp_sizing 1 "\<lambda>_. None" R_None "R_Num (Fin 0.5)" R_None R_None]
  by (simp add: bsp_sizing_def resolve_vix_def)

end
