(* ===== verification/Risk_Sizing.thy ===== *)
theory Risk_Sizing
  imports Risk_Scalers Compliance
begin

text \<open>
  The size of a position (\<open>core/risk_bemessung.py\<close>) and the caps on it (\<open>core/risk_deckel.py\<close>), in the order of
  the code: the target, then the caps on the position, the cash, the exposure, Kelly, the loss at the stop and the
  order value, then the floors and the rounding.

  A size is a number of shares with the trace of what bound it. The numbers are exact reals; the halt is an
  argument, the answer of the account or of the kill switch.
\<close>

section \<open>What is sized\<close>

record bedarf =
  be_atr :: "real option"
  be_sl_mult :: real
  be_confidence :: string
  be_scaler :: real
  be_vix :: roh
  be_slots :: int
  be_price :: real
  be_cash :: real
  be_fractional :: bool
  be_conviction :: real
  be_forecast :: roh
  be_rr :: roh
  be_coverage :: roh

text \<open>
  The account as the sizer sees it. The positions of the broker: no client, a call or a value that raised, or the
  market values (a missing one is \<open>None\<close>).
\<close>

record sizer =
  si_capital :: real
  si_reduced :: bool
  si_halted :: bool
  si_max_loss :: real
  si_policy_value :: "real option"
  si_positions :: "(unit + real option list) option"

section \<open>Before the caps\<close>

definition sizing_risk_scaler ::
  "(string \<Rightarrow> pyfloat option) \<Rightarrow> sizing_cfg \<Rightarrow> sizer \<Rightarrow> bedarf \<Rightarrow> real \<times> real \<times> real \<times> real" where
  "sizing_risk_scaler num c a b =
     (let vix = vix_ladder_scaler (fst (resolve_vix num (be_vix b))) (sc_bull_enabled c) (sc_bull_calm c);
          conf = (if be_confidence b = ''high'' then 1.5 else if be_confidence b = ''low'' then 0.5 else 1);
          red = (if si_reduced a then 0.5 else 1);
          vol = vol_targeting_scaler c (be_forecast b); skew = skew_size_tilt c (be_rr b);
          cov = coverage_size_discount c (be_coverage b)
      in (vix * conf * be_scaler b * red * vol * skew * cov, vol, skew, cov))"

definition clean_mode :: "sizing_cfg \<Rightarrow> bool" where
  "clean_mode c = (sc_clean_weight c = ''a'' \<or> sc_clean_weight c = ''b'')"

definition slot_weight :: "sizing_cfg \<Rightarrow> real" where
  "slot_weight c = 1 / of_int (max 1 (effective_max_positions c))"

text \<open>The target weight and whether the risk factor goes on top of it.\<close>

definition target_pct :: "sizing_cfg \<Rightarrow> real \<Rightarrow> real \<times> real \<times> real \<Rightarrow> real" where
  "target_pct c conviction = (\<lambda>(vol, skew, cov).
     if clean_mode c
     then min (if sc_clean_weight c = ''b'' then slot_weight c * vol * skew * cov else slot_weight c) (sc_max_pos c)
     else min (sc_min_pos c + (sc_max_pos_sizing c - sc_min_pos c) * max 0 (min 1 conviction)) (sc_max_pos c))"

text \<open>\<open>_sizing_target\<close>: shares, the target value (none on the legacy path) and the trace; none without a dollar risk.\<close>

definition sizing_target ::
  "sizing_cfg \<Rightarrow> sizer \<Rightarrow> bedarf \<Rightarrow> real \<times> real \<times> real \<times> real \<Rightarrow> sizing_trace
     \<Rightarrow> (real \<times> real option \<times> sizing_trace) option" where
  "sizing_target c a b = (\<lambda>(final, vol, skew, cov) tr.
     if sc_dynamic c \<and> 0 < be_price b
     then let w = target_pct c (be_conviction b) (vol, skew, cov);
              worth = (if clean_mode c then si_capital a * w else si_capital a * w * final)
          in Some (worth / be_price b, Some worth,
                   tr\<lparr>tr_mode := Some (if clean_mode c then sc_clean_weight c else ''conviction''), tr_weight := Some w\<rparr>)
     else let n = (if be_slots b \<le> 0 then 1 else be_slots b); atr = (case be_atr b of None \<Rightarrow> 0 | Some x \<Rightarrow> x);
              per_share = atr * be_sl_mult b
          in if per_share \<le> 0 then None
             else Some (si_capital a * sc_risk_per_trade c / of_int n * final / per_share, None, tr))"

section \<open>The caps\<close>

definition cents :: "real \<Rightarrow> int" where
  "cents x = round_half_even (x * 100)"

definition step_position_cap :: "sizing_cfg \<Rightarrow> sizer \<Rightarrow> bedarf \<Rightarrow> real \<times> sizing_trace \<Rightarrow> real \<times> sizing_trace" where
  "step_position_cap c a b = (\<lambda>(n, tr).
     let worth = si_capital a * sc_max_pos c; most = worth / be_price b
     in if 0 < be_price b \<and> most < n
        then (most, tr\<lparr>tr_limit := Some ''position_cap'', tr_cap := Some (cents worth)\<rparr>) else (n, tr))"

definition cash_demand_fraction :: "sizing_cfg \<Rightarrow> sizer \<Rightarrow> real option \<Rightarrow> real" where
  "cash_demand_fraction c a target =
     (case target of
        None \<Rightarrow> 1
      | Some worth \<Rightarrow>
          if clean_mode c
          then (if 0 < slot_weight c \<and> 0 < si_capital a then max 0 (min 1 (worth / si_capital a / slot_weight c)) else 1)
          else if 0 < sc_max_pos_sizing c \<and> sc_proportional c \<and> 0 < si_capital a * sc_max_pos_sizing c
               then max 0 (min 1 (worth / (si_capital a * sc_max_pos_sizing c))) else 1)"

definition cash_slots :: "bedarf \<Rightarrow> int" where
  "cash_slots b = max 1 (if be_slots b = 0 then 1 else be_slots b)"

definition cash_shares :: "sizing_cfg \<Rightarrow> sizer \<Rightarrow> bedarf \<Rightarrow> real option \<Rightarrow> real" where
  "cash_shares c a b target =
     max 0 ((be_cash b - sc_cash_buffer c) / of_int (cash_slots b) * cash_demand_fraction c a target / be_price b)"

definition step_cash :: "sizing_cfg \<Rightarrow> sizer \<Rightarrow> bedarf \<Rightarrow> real option \<Rightarrow> real \<times> sizing_trace \<Rightarrow> real \<times> sizing_trace" where
  "step_cash c a b target = (\<lambda>(n, tr).
     let most = cash_shares c a b target
     in if 0 < be_price b \<and> (0 < be_cash b \<or> sc_forbid_leverage c) \<and> most < n
        then (most, tr\<lparr>tr_limit := Some ''cash'', tr_cap := Some (cents (most * be_price b)),
                       tr_zero := (if most \<le> 0 \<or> most < 1 / be_price b then Some ''insufficient_cash'' else tr_zero tr)\<rparr>)
        else (n, tr))"

definition book_value :: "real option list \<Rightarrow> real" where
  "book_value vs = sum_list (map (\<lambda>v. case v of None \<Rightarrow> 0 | Some x \<Rightarrow> x) vs)"

definition step_total_exposure_cap :: "sizing_cfg \<Rightarrow> sizer \<Rightarrow> bedarf \<Rightarrow> real \<times> sizing_trace \<Rightarrow> real \<times> sizing_trace" where
  "step_total_exposure_cap c a b = (\<lambda>(n, tr).
     case (sc_max_exposure c, si_positions a) of
       (Some pct, Some answer) \<Rightarrow>
         if be_price b \<le> 0 then (n, tr)
         else (case answer of
                 Inl _ \<Rightarrow> (0, tr\<lparr>tr_zero := Some ''exposure_check_failed''\<rparr>)
               | Inr vs \<Rightarrow>
                   let room = si_capital a * pct - book_value vs
                   in if \<not> room < n * be_price b then (n, tr)
                      else let m = max 0 (room / be_price b);
                               tr1 = tr\<lparr>tr_limit := Some ''total_exposure_cap'', tr_cap := Some (cents (max 0 room)),
                                        tr_zero := (if m \<le> 0 \<or> m < 1 / be_price b then Some ''total_exposure_cap'' else tr_zero tr)\<rparr>
                           in if 0 < sc_clamp_floor c \<and> 0 < m * be_price b \<and> m * be_price b < sc_clamp_floor c
                              then (0, tr1\<lparr>tr_zero := Some ''exposure_clamp_entry_floor''\<rparr>) else (m, tr1))
     | _ \<Rightarrow> (n, tr))"

definition step_kelly :: "sizing_cfg \<Rightarrow> real \<times> sizing_trace \<Rightarrow> real \<times> sizing_trace" where
  "step_kelly c = (\<lambda>(n, tr).
     case sc_kelly c of
       None \<Rightarrow> (n, tr)
     | Some k \<Rightarrow> if 0 < n then (n * k, if n * k < n then tr\<lparr>tr_limit := Some ''kelly''\<rparr> else tr) else (n, tr))"

definition step_max_loss_per_trade :: "sizer \<Rightarrow> bedarf \<Rightarrow> real \<times> sizing_trace \<Rightarrow> real \<times> sizing_trace" where
  "step_max_loss_per_trade a b = (\<lambda>(n, tr).
     let atr = (case be_atr b of None \<Rightarrow> 0 | Some x \<Rightarrow> x); most = si_max_loss a / (atr * be_sl_mult b)
     in if 0 < be_sl_mult b \<and> 0 < atr \<and> 0 < be_price b \<and> si_max_loss a < n * atr * be_sl_mult b \<and> most < n
        then (max 0 most, tr\<lparr>tr_limit := Some ''max_loss_per_trade''\<rparr>) else (n, tr))"

definition sizing_order_value :: "sizing_cfg \<Rightarrow> sizer \<Rightarrow> real" where
  "sizing_order_value c a = (case si_policy_value a of Some v \<Rightarrow> v | None \<Rightarrow> sc_order_value c)"

definition step_compliance_order_value :: "sizing_cfg \<Rightarrow> sizer \<Rightarrow> bedarf \<Rightarrow> real \<times> sizing_trace \<Rightarrow> real \<times> sizing_trace" where
  "step_compliance_order_value c a b = (\<lambda>(n, tr).
     let v = sizing_order_value c a * 0.9999; most = v / be_price b
     in if 0 < be_price b \<and> 0 < sizing_order_value c a \<and> most < n
        then (most, tr\<lparr>tr_limit := Some ''compliance_order_value'', tr_cap := Some (cents v)\<rparr>) else (n, tr))"

definition note_zero :: "string \<Rightarrow> sizing_trace \<Rightarrow> sizing_trace" where
  "note_zero r tr = (if tr_zero tr = None then tr\<lparr>tr_zero := Some r\<rparr> else tr)"

definition sizing_order_floor :: "sizing_cfg \<Rightarrow> bedarf \<Rightarrow> real \<times> sizing_trace \<Rightarrow> real \<times> sizing_trace" where
  "sizing_order_floor c b = (\<lambda>(n, tr).
     if 0 < be_price b \<and> n < 1 / be_price b then (0, note_zero ''below_order_floor'' tr)
     else if \<not> 0 < be_price b \<and> n < 0.001 then (0, note_zero ''invalid_price'' tr)
     else let r = py_round 6 n; q = (if be_fractional b then r else of_int (trunc r))
          in if \<not> be_fractional b \<and> q < 1 then (0, note_zero ''below_one_whole_share'' tr)
             else if 0 < be_price b \<and> 0 < q \<and> q * be_price b < sc_min_order c then (0, note_zero ''below_order_floor'' tr)
             else (q, tr))"

section \<open>The whole chain\<close>

definition sizing_caps :: "sizing_cfg \<Rightarrow> sizer \<Rightarrow> bedarf \<Rightarrow> real option \<Rightarrow> real \<times> sizing_trace \<Rightarrow> real \<times> sizing_trace" where
  "sizing_caps c a b target x =
     step_compliance_order_value c a b (step_max_loss_per_trade a b (step_kelly c
       (step_total_exposure_cap c a b (step_cash c a b target (step_position_cap c a b x)))))"

definition calculate_position_size ::
  "(string \<Rightarrow> pyfloat option) \<Rightarrow> sizing_cfg \<Rightarrow> sizer \<Rightarrow> bedarf \<Rightarrow> real \<times> sizing_trace" where
  "calculate_position_size num c a b =
     (if (case be_atr b of None \<Rightarrow> True | Some x \<Rightarrow> x \<le> 0) then (0, leere_spur\<lparr>tr_zero := Some ''invalid_atr''\<rparr>)
      else if si_halted a then (0, leere_spur\<lparr>tr_zero := Some ''trading_halted''\<rparr>)
      else case sizing_target c a b (sizing_risk_scaler num c a b) leere_spur of
             None \<Rightarrow> (0, leere_spur)
           | Some (n, target, tr) \<Rightarrow> sizing_order_floor c b (sizing_caps c a b target (n, tr)))"

section \<open>No cap ever raises a size\<close>

definition kelly_ok :: "sizing_cfg \<Rightarrow> bool" where
  "kelly_ok c = (case sc_kelly c of None \<Rightarrow> True | Some k \<Rightarrow> k \<le> 1)"

lemma position_cap_le:
  "fst (step_position_cap c a b x) \<le> fst x"
  "0 < be_price b \<Longrightarrow> fst (step_position_cap c a b x) \<le> si_capital a * sc_max_pos c / be_price b"
  by (simp_all add: step_position_cap_def Let_def case_prod_beta)

lemma cash_le:
  "fst (step_cash c a b t x) \<le> fst x"
  "0 < be_price b \<Longrightarrow> sc_forbid_leverage c \<Longrightarrow> fst (step_cash c a b t x) \<le> cash_shares c a b t"
  by (simp_all add: step_cash_def Let_def case_prod_beta)

lemma exposure_le:
  "max 0 (fst (step_total_exposure_cap c a b x)) \<le> max 0 (fst x)"
  "0 < be_price b \<Longrightarrow> sc_max_exposure c = Some pct \<Longrightarrow> si_positions a = Some (Inr vs) \<Longrightarrow>
     fst (step_total_exposure_cap c a b x) \<le> max 0 ((si_capital a * pct - book_value vs) / be_price b)"
  "0 < be_price b \<Longrightarrow> sc_max_exposure c = Some pct \<Longrightarrow> si_positions a = Some (Inl u) \<Longrightarrow>
     fst (step_total_exposure_cap c a b x) = 0"
proof -
  obtain n tr where x: "x = (n, tr)" by fastforce
  have r: "max 0 (room / be_price b) \<le> max 0 n" if "room < n * be_price b" "0 < be_price b" for room
  proof -
    have "room / be_price b < n" using that by (simp add: pos_divide_less_eq)
    then show ?thesis by simp
  qed
  show "max 0 (fst (step_total_exposure_cap c a b x)) \<le> max 0 (fst x)"
    using r by (simp add: x step_total_exposure_cap_def Let_def split: option.split sum.split)
  show "fst (step_total_exposure_cap c a b x) \<le> max 0 ((si_capital a * pct - book_value vs) / be_price b)"
    if "0 < be_price b" "sc_max_exposure c = Some pct" "si_positions a = Some (Inr vs)"
  proof -
    have "n \<le> room / be_price b" if "\<not> room < n * be_price b" for room
      using that \<open>0 < be_price b\<close> by (simp add: pos_le_divide_eq)
    then have "n \<le> max 0 (room / be_price b)" if "\<not> room < n * be_price b" for room
      using that by (simp add: le_max_iff_disj)
    then show ?thesis using that by (simp add: x step_total_exposure_cap_def Let_def)
  qed
  show "fst (step_total_exposure_cap c a b x) = 0"
    if "0 < be_price b" "sc_max_exposure c = Some pct" "si_positions a = Some (Inl u)"
    using that by (simp add: x step_total_exposure_cap_def)
qed

lemma kelly_le: "kelly_ok c \<Longrightarrow> fst (step_kelly c x) \<le> max 0 (fst x)"
  by (cases x) (auto simp: step_kelly_def kelly_ok_def mult_left_le le_max_iff_disj split: option.split)

lemma max_loss_le:
  assumes "0 \<le> si_max_loss a"
  shows "fst (step_max_loss_per_trade a b x) \<le> max 0 (fst x)"
    "be_atr b = Some atr \<Longrightarrow> 0 < atr \<Longrightarrow> 0 < be_sl_mult b \<Longrightarrow> 0 < be_price b \<Longrightarrow>
       fst (step_max_loss_per_trade a b x) \<le> si_max_loss a / (atr * be_sl_mult b)"
proof -
  obtain n tr where x: "x = (n, tr)" by fastforce
  show "fst (step_max_loss_per_trade a b x) \<le> max 0 (fst x)"
  proof -
    let ?atr = "case be_atr b of None \<Rightarrow> 0 | Some y \<Rightarrow> y"
    have "0 \<le> si_max_loss a / (?atr * be_sl_mult b)" if "0 < ?atr" "0 < be_sl_mult b"
      using assms that by simp
    then show ?thesis by (auto simp: x step_max_loss_per_trade_def Let_def)
  qed
  show "fst (step_max_loss_per_trade a b x) \<le> si_max_loss a / (atr * be_sl_mult b)"
    if "be_atr b = Some atr" "0 < atr" "0 < be_sl_mult b" "0 < be_price b"
  proof -
    have p: "0 < atr * be_sl_mult b" using that by simp
    have "n \<le> si_max_loss a / (atr * be_sl_mult b)" if "n * atr * be_sl_mult b \<le> si_max_loss a"
      using that p by (simp add: pos_le_divide_eq mult.assoc)
    moreover have "0 \<le> si_max_loss a / (atr * be_sl_mult b)" using assms p by simp
    ultimately show ?thesis
      using that by (auto simp: x step_max_loss_per_trade_def Let_def not_less)
  qed
qed

lemma order_value_le:
  "fst (step_compliance_order_value c a b x) \<le> fst x"
  "0 < be_price b \<Longrightarrow> 0 < sizing_order_value c a \<Longrightarrow>
     fst (step_compliance_order_value c a b x) \<le> sizing_order_value c a * 0.9999 / be_price b"
  by (simp_all add: step_compliance_order_value_def Let_def case_prod_beta)

text \<open>The size after all caps is below each of them.\<close>

lemma caps_bounds:
  assumes "0 < be_price b" "kelly_ok c" "0 \<le> si_max_loss a" and n_def: "n = fst (sizing_caps c a b t x)"
  shows "n \<le> max 0 (si_capital a * sc_max_pos c / be_price b)"
    "sc_forbid_leverage c \<Longrightarrow> n \<le> cash_shares c a b t"
    "sc_max_exposure c = Some pct \<Longrightarrow> si_positions a = Some (Inr vs) \<Longrightarrow> n \<le> max 0 ((si_capital a * pct - book_value vs) / be_price b)"
    "sc_max_exposure c = Some pct \<Longrightarrow> si_positions a = Some (Inl u) \<Longrightarrow> n \<le> 0"
    "be_atr b = Some atr \<Longrightarrow> 0 < atr \<Longrightarrow> 0 < be_sl_mult b \<Longrightarrow> n \<le> si_max_loss a / (atr * be_sl_mult b)"
    "0 < sizing_order_value c a \<Longrightarrow> n \<le> sizing_order_value c a * 0.9999 / be_price b"
proof -
  define s1 where "s1 = step_position_cap c a b x"
  define s2 where "s2 = step_cash c a b t s1"
  define s3 where "s3 = step_total_exposure_cap c a b s2"
  define s4 where "s4 = step_kelly c s3"
  define s5 where "s5 = step_max_loss_per_trade a b s4"
  have n: "n = fst (step_compliance_order_value c a b s5)" by (simp add: n_def sizing_caps_def s1_def s2_def s3_def s4_def s5_def)
  have l6: "n \<le> fst s5" unfolding n by (rule order_value_le)
  have l5: "n \<le> max 0 (fst s4)" using l6 max_loss_le(1) [OF assms(3), of b s4] by (simp add: s5_def)
  have l4: "n \<le> max 0 (fst s3)" using l5 kelly_le [OF assms(2), of s3] by (simp add: s4_def)
  have l3: "n \<le> max 0 (fst s2)" using l4 exposure_le(1) [of c a b s2] unfolding s3_def by linarith
  have l2: "n \<le> max 0 (fst s1)" using l3 cash_le(1) [of c a b t s1] unfolding s2_def by linarith
  show "n \<le> max 0 (si_capital a * sc_max_pos c / be_price b)"
    using l2 position_cap_le(2) [OF assms(1), of c a x] unfolding s1_def by linarith
  have "0 \<le> cash_shares c a b t" by (simp add: cash_shares_def)
  then show "n \<le> cash_shares c a b t" if "sc_forbid_leverage c"
    using l3 cash_le(2) [OF assms(1) that, of a t s1] unfolding s2_def by linarith
  show "n \<le> max 0 ((si_capital a * pct - book_value vs) / be_price b)"
    if "sc_max_exposure c = Some pct" "si_positions a = Some (Inr vs)"
    using l4 exposure_le(2) [OF assms(1) that, of s2] unfolding s3_def by linarith
  show "n \<le> 0" if "sc_max_exposure c = Some pct" "si_positions a = Some (Inl u)"
    using l4 exposure_le(3) [OF assms(1) that, of s2] unfolding s3_def by simp
  show "n \<le> si_max_loss a / (atr * be_sl_mult b)" if "be_atr b = Some atr" "0 < atr" "0 < be_sl_mult b"
    using l6 max_loss_le(2) [OF assms(3) that assms(1), of s4] unfolding s5_def by linarith
  show "n \<le> sizing_order_value c a * 0.9999 / be_price b" if "0 < sizing_order_value c a"
    unfolding n by (rule order_value_le(2) [OF assms(1) that])
qed

section \<open>The floors\<close>

lemma trunc_le: "0 \<le> r \<Longrightarrow> 0 \<le> (of_int (trunc r) :: real) \<and> of_int (trunc r) \<le> r"
  by (simp add: trunc_def)

lemma floor_bounds:
  assumes "0 < be_price b" "fst (sizing_order_floor c b x) = q"
  shows "0 \<le> q" "q \<le> max 0 (fst x) + 1 / 2000000" "fst x < 1 / be_price b \<Longrightarrow> q = 0"
    "q \<noteq> 0 \<Longrightarrow> 1 / be_price b \<le> fst x \<and> sc_min_order c \<le> q * be_price b \<and> (\<not> be_fractional b \<longrightarrow> q = of_int \<lfloor>q\<rfloor> \<and> 1 \<le> q)"
proof -
  obtain n tr where x: "x = (n, tr)" by fastforce
  let ?r = "py_round 6 n" let ?q = "if be_fractional b then ?r else of_int (trunc ?r)"
  have q: "q = 0 \<or> q = ?q \<and> 1 / be_price b \<le> n \<and> (?q \<le> 0 \<or> sc_min_order c \<le> ?q * be_price b) \<and> (\<not> be_fractional b \<longrightarrow> 1 \<le> ?q)"
    using assms by (auto simp: x sizing_order_floor_def Let_def not_less split: if_splits)
  have "\<bar>?r - n\<bar> \<le> 1 / 2000000" using py_round_near [of 6 n] by simp
  then have r: "0 \<le> n \<Longrightarrow> 0 \<le> ?r" "?r \<le> n + 1 / 2000000"
    using py_round_nonneg [of n 6] by linarith+
  have p: "0 < 1 / be_price b" using assms(1) by simp
  have g: "0 \<le> ?q \<and> ?q \<le> n + 1 / 2000000" if "1 / be_price b \<le> n"
  proof -
    have "0 \<le> n" using less_le_trans [OF p that] by simp
    from r(1) [OF this] trunc_le [of ?r] r(2) show ?thesis by auto
  qed
  show "0 \<le> q" "q \<le> max 0 (fst x) + 1 / 2000000" "fst x < 1 / be_price b \<Longrightarrow> q = 0"
    using q g p by (auto simp: x)
  show "1 / be_price b \<le> fst x \<and> sc_min_order c \<le> q * be_price b \<and> (\<not> be_fractional b \<longrightarrow> q = of_int \<lfloor>q\<rfloor> \<and> 1 \<le> q)" if "q \<noteq> 0"
    using q g p that by (auto simp: x)
qed

lemma demand_fraction: "0 \<le> cash_demand_fraction c a t \<and> cash_demand_fraction c a t \<le> 1"
  by (auto simp: cash_demand_fraction_def split: option.split)

lemma cash_slots_pos: "0 < cash_slots b"
  by (simp add: cash_slots_def)

lemma cash_shares_slot:
  assumes "0 < be_price b"
  shows "cash_shares c a b t * be_price b \<le> max 0 ((be_cash b - sc_cash_buffer c) / of_int (cash_slots b))"
proof -
  let ?s = "(be_cash b - sc_cash_buffer c) / of_int (cash_slots b)" let ?f = "cash_demand_fraction c a t"
  have "?s * ?f \<le> max 0 ?s"
  proof (cases "0 \<le> ?s")
    case True
    then have "?s * ?f \<le> ?s" using demand_fraction by (intro mult_left_le) auto
    then show ?thesis by simp
  next
    case False
    then have "?s * ?f \<le> 0" using demand_fraction by (intro mult_nonpos_nonneg) auto
    then show ?thesis by simp
  qed
  then have "?s * ?f / be_price b \<le> max 0 ?s / be_price b" using assms by (intro divide_right_mono) auto
  moreover have "0 \<le> max 0 ?s / be_price b" using assms by simp
  ultimately have "cash_shares c a b t \<le> max 0 ?s / be_price b" unfolding cash_shares_def by (rule max.boundedI [rotated])
  then show ?thesis using assms by (simp add: pos_le_divide_eq)
qed

text \<open>A size is zero or went through the caps and the floor.\<close>

lemma size_cases:
  "fst (calculate_position_size num c a b) = 0 \<or>
   (\<exists>t x atr. be_atr b = Some atr \<and> 0 < atr \<and> \<not> si_halted a \<and>
      calculate_position_size num c a b = sizing_order_floor c b (sizing_caps c a b t x))"
  by (auto simp: calculate_position_size_def not_le split: option.splits)

definition dollars :: "bedarf \<Rightarrow> real \<Rightarrow> real" where
  "dollars b q = (q - 1 / 2000000) * be_price b"

lemma dollars_le:
  assumes "0 < be_price b" "q \<le> max 0 n + 1 / 2000000" "n \<le> m" "0 \<le> m" shows "dollars b q \<le> m * be_price b"
  unfolding dollars_def using assms by (intro mult_right_mono) auto

lemma max_times: "0 < p \<Longrightarrow> max 0 (x / p) * p = max 0 (x::real)"
  by (cases "0 \<le> x") (simp_all add: max_def zero_le_divide_iff)

lemma size_bounds:
  assumes "0 < be_price b" "kelly_ok c" "0 \<le> si_max_loss a" and q: "q = fst (calculate_position_size num c a b)"
  shows "0 \<le> q" "dollars b q \<le> max 0 (si_capital a * sc_max_pos c)"
    "sc_forbid_leverage c \<Longrightarrow> dollars b q \<le> max 0 ((be_cash b - sc_cash_buffer c) / of_int (cash_slots b))"
    "sc_max_exposure c = Some pct \<Longrightarrow> si_positions a = Some (Inr vs) \<Longrightarrow> dollars b q \<le> max 0 (si_capital a * pct - book_value vs)"
    "sc_max_exposure c = Some pct \<Longrightarrow> si_positions a = Some (Inl u) \<Longrightarrow> q = 0"
    "be_atr b = Some atr \<Longrightarrow> 0 < be_sl_mult b \<Longrightarrow> q \<noteq> 0 \<Longrightarrow> (q - 1 / 2000000) * (atr * be_sl_mult b) \<le> si_max_loss a"
    "0 < sizing_order_value c a \<Longrightarrow> dollars b q \<le> sizing_order_value c a * 0.9999"
    "q \<noteq> 0 \<Longrightarrow> sc_min_order c \<le> q * be_price b"
    "sc_forbid_leverage c \<Longrightarrow> be_cash b \<le> sc_cash_buffer c \<Longrightarrow> q = 0"
proof -
  have z: "dollars b 0 \<le> 0" using assms(1) by (simp add: dollars_def)
  consider "q = 0" | t x y where "be_atr b = Some y" "0 < y" "q = fst (sizing_order_floor c b (sizing_caps c a b t x))"
    using size_cases [of num c a b] q by auto
  then have "0 \<le> q \<and> dollars b q \<le> max 0 (si_capital a * sc_max_pos c)
    \<and> (sc_forbid_leverage c \<longrightarrow> dollars b q \<le> max 0 ((be_cash b - sc_cash_buffer c) / of_int (cash_slots b)))
    \<and> (sc_max_exposure c = Some pct \<and> si_positions a = Some (Inr vs) \<longrightarrow> dollars b q \<le> max 0 (si_capital a * pct - book_value vs))
    \<and> (sc_max_exposure c = Some pct \<and> si_positions a = Some (Inl u) \<longrightarrow> q = 0)
    \<and> (be_atr b = Some atr \<and> 0 < be_sl_mult b \<longrightarrow> q = 0 \<or> (q - 1 / 2000000) * (atr * be_sl_mult b) \<le> si_max_loss a)
    \<and> (0 < sizing_order_value c a \<longrightarrow> dollars b q \<le> sizing_order_value c a * 0.9999)
    \<and> (q \<noteq> 0 \<longrightarrow> sc_min_order c \<le> q * be_price b)
    \<and> (sc_forbid_leverage c \<and> be_cash b \<le> sc_cash_buffer c \<longrightarrow> q = 0)"
  proof cases
    case 1
    then show ?thesis using z by auto
  next
    case (2 t x y)
    define n where "n = fst (sizing_caps c a b t x)"
    note f = floor_bounds [OF assms(1) 2(3) [symmetric], folded n_def]
    note k = caps_bounds [OF assms(1,2,3) n_def]
    have d: "dollars b q \<le> m * be_price b" if "n \<le> m" "0 \<le> m" for m by (rule dollars_le [OF assms(1) f(2) that])
    have p0: "n \<le> 0 \<Longrightarrow> q = 0" using assms(1) by (intro f(3)) (simp add: le_less_trans)
    have c1: "dollars b q \<le> max 0 (si_capital a * sc_max_pos c)"
      using d [OF k(1)] by (simp add: max_times [OF assms(1)])
    have cs: "0 \<le> cash_shares c a b t" by (simp add: cash_shares_def)
    have c2: "dollars b q \<le> max 0 ((be_cash b - sc_cash_buffer c) / of_int (cash_slots b))" if "sc_forbid_leverage c"
      using d [OF k(2) [OF that] cs] cash_shares_slot [OF assms(1), of c a t] by simp
    have c3: "dollars b q \<le> max 0 (si_capital a * pct - book_value vs)" if "sc_max_exposure c = Some pct" "si_positions a = Some (Inr vs)"
      using d [OF k(3) [OF that]] by (simp add: max_times [OF assms(1)])
    have c4: "q = 0" if "sc_max_exposure c = Some pct" "si_positions a = Some (Inl u)" by (rule p0 [OF k(4) [OF that]])
    have c5: "(q - 1 / 2000000) * (atr * be_sl_mult b) \<le> si_max_loss a" if h: "be_atr b = Some atr" "0 < be_sl_mult b" "q \<noteq> 0"
    proof -
      have y: "0 < atr" using h 2 by simp
      have "q - 1 / 2000000 \<le> max 0 n" using f(2) by simp
      also have "\<dots> \<le> si_max_loss a / (atr * be_sl_mult b)" using k(5) [OF h(1) y h(2)] assms(3) y h(2) by simp
      finally show ?thesis using y h(2) by (simp add: pos_le_divide_eq)
    qed
    have c6: "dollars b q \<le> sizing_order_value c a * 0.9999" if "0 < sizing_order_value c a"
      using d [OF k(6) [OF that]] that assms(1) by simp
    have c7: "q = 0" if "sc_forbid_leverage c" "be_cash b \<le> sc_cash_buffer c"
    proof (rule p0)
      have "(be_cash b - sc_cash_buffer c) / of_int (cash_slots b) * cash_demand_fraction c a t / be_price b \<le> 0"
        using that(2) demand_fraction [of c a t] cash_slots_pos [of b] assms(1)
        by (intro divide_nonpos_pos mult_nonpos_nonneg) auto
      then have "cash_shares c a b t = 0" by (simp add: cash_shares_def)
      then show "n \<le> 0" using k(2) [OF that(1)] by simp
    qed
    show ?thesis using f(1,4) c1 c2 c3 c4 c5 c6 c7 by blast
  qed
  note r = this
  show "0 \<le> q" "dollars b q \<le> max 0 (si_capital a * sc_max_pos c)" using r by blast+
  show "sc_forbid_leverage c \<Longrightarrow> dollars b q \<le> max 0 ((be_cash b - sc_cash_buffer c) / of_int (cash_slots b))"
    "sc_max_exposure c = Some pct \<Longrightarrow> si_positions a = Some (Inr vs) \<Longrightarrow> dollars b q \<le> max 0 (si_capital a * pct - book_value vs)"
    "sc_max_exposure c = Some pct \<Longrightarrow> si_positions a = Some (Inl u) \<Longrightarrow> q = 0"
    "0 < sizing_order_value c a \<Longrightarrow> dollars b q \<le> sizing_order_value c a * 0.9999"
    "q \<noteq> 0 \<Longrightarrow> sc_min_order c \<le> q * be_price b"
    "sc_forbid_leverage c \<Longrightarrow> be_cash b \<le> sc_cash_buffer c \<Longrightarrow> q = 0" using r by blast+
  show "be_atr b = Some atr \<Longrightarrow> 0 < be_sl_mult b \<Longrightarrow> q \<noteq> 0 \<Longrightarrow> (q - 1 / 2000000) * (atr * be_sl_mult b) \<le> si_max_loss a" using r by blast
qed

section \<open>Properties\<close>

text \<open>
  C4: with a positive price, a risk fraction of at most one and a loss limit that is not negative, an order is never
  negative and its value, up to the rounding to six decimals, is at most the largest position; and it meets each
  further cap that is in force: without leverage the free cash divided by the slots, with a cap on the total exposure
  and a readable book the room under it (and nothing is bought where the book cannot be read), with a value limit
  above zero that limit, with a positive distance of the stop the largest loss per trade at it. What is bought is
  at least the smallest order. Without a price no cap applies.
\<close>
theorem size_within_caps:
  assumes "0 < be_price b" "kelly_ok c" "0 \<le> si_max_loss a"
  shows "let q = fst (calculate_position_size num c a b) in
     0 \<le> q \<and> dollars b q \<le> max 0 (si_capital a * sc_max_pos c)
     \<and> (if sc_forbid_leverage c then dollars b q \<le> max 0 ((be_cash b - sc_cash_buffer c) / of_int (cash_slots b)) else True)
     \<and> (case (sc_max_exposure c, si_positions a) of
          (Some pct, Some (Inr vs)) \<Rightarrow> dollars b q \<le> max 0 (si_capital a * pct - book_value vs)
        | (Some pct, Some (Inl _)) \<Rightarrow> q = 0
        | _ \<Rightarrow> True)
     \<and> (if 0 < sizing_order_value c a then dollars b q \<le> sizing_order_value c a * 0.9999 else True)
     \<and> (case be_atr b of None \<Rightarrow> True | Some atr \<Rightarrow>
          if q \<noteq> 0 \<and> 0 < be_sl_mult b then (q - 1 / 2000000) * (atr * be_sl_mult b) \<le> si_max_loss a else True)
     \<and> (if q \<noteq> 0 then sc_min_order c \<le> q * be_price b else True)"
proof -
  note s = size_bounds [OF assms refl, where num = num]
  show ?thesis
    unfolding Let_def using s(1-4,6-8) s(5) by (auto split: option.split sum.split)
qed

definition bsp_sizer :: sizer where
  "bsp_sizer = \<lparr>si_capital = 90000, si_reduced = False, si_halted = False, si_max_loss = 1350, si_policy_value = None,
     si_positions = Some (Inr [Some 1000])\<rparr>"

definition bsp_bedarf :: "real \<Rightarrow> real \<Rightarrow> bedarf" where
  "bsp_bedarf price cash = \<lparr>be_atr = Some 2, be_sl_mult = 3, be_confidence = ''medium'', be_scaler = 1, be_vix = R_Num (Fin 15),
     be_slots = 20, be_price = price, be_cash = cash, be_fractional = True, be_conviction = 0.5, be_forecast = R_None,
     be_rr = R_None, be_coverage = R_None\<rparr>"

lemma size_within_caps_witness:
  "dollars (bsp_bedarf 100 20000) (fst (calculate_position_size (\<lambda>_. None) bsp_sizing bsp_sizer (bsp_bedarf 100 20000))) \<le> 999.95"
  using size_within_caps [of "bsp_bedarf 100 20000" bsp_sizing bsp_sizer "\<lambda>_. None"]
  by (simp add: bsp_bedarf_def bsp_sizing_def bsp_sizer_def kelly_ok_def sizing_order_value_def cash_slots_def Let_def)

text \<open>
  no size is bought with money or room that is not there: without leverage nothing is bought when the cash is
  within the buffer, and nothing while the exposure of the book cannot be read.
\<close>
theorem nothing_bought_blind:
  assumes "0 < be_price b" "kelly_ok c" "0 \<le> si_max_loss a"
    and "sc_forbid_leverage c \<and> be_cash b \<le> sc_cash_buffer c \<or> sc_max_exposure c = Some pct \<and> si_positions a = Some (Inl ())"
  shows "fst (calculate_position_size num c a b) = 0"
  using size_bounds(5,9) [OF assms(1-3) refl] assms(4) by blast

lemma nothing_bought_blind_witness:
  "fst (calculate_position_size (\<lambda>_. None) bsp_sizing (bsp_sizer\<lparr>si_positions := Some (Inl ())\<rparr>) (bsp_bedarf 100 20000)) = 0"
  by (rule nothing_bought_blind [where pct = "0.95"])
     (simp_all add: bsp_bedarf_def bsp_sizing_def bsp_sizer_def kelly_ok_def)






section \<open>Where the factors do not reach\<close>

text \<open>The caps and floors read none of the inputs of the factors.\<close>

lemma caps_read_no_factor:
  assumes a: "a' = a\<lparr>si_reduced := r\<rparr>"
    and b: "b' = b\<lparr>be_vix := v, be_confidence := k, be_scaler := sc, be_forecast := fv, be_rr := rr, be_coverage := cov\<rparr>"
  shows "sizing_caps c a' b' = sizing_caps c a b" "sizing_order_floor c b' = sizing_order_floor c b"
proof -
  have sel: "si_capital a' = si_capital a" "si_max_loss a' = si_max_loss a" "si_policy_value a' = si_policy_value a"
    "si_positions a' = si_positions a" "be_price b' = be_price b" "be_cash b' = be_cash b" "be_atr b' = be_atr b"
    "be_sl_mult b' = be_sl_mult b" "be_slots b' = be_slots b" "be_fractional b' = be_fractional b"
    by (simp_all add: a b)
  show "sizing_caps c a' b' = sizing_caps c a b"
    unfolding fun_eq_iff sizing_caps_def step_position_cap_def step_cash_def cash_shares_def cash_demand_fraction_def cash_slots_def
      step_total_exposure_cap_def step_max_loss_per_trade_def step_compliance_order_value_def sizing_order_value_def sel by blast
  show "sizing_order_floor c b' = sizing_order_floor c b" unfolding sizing_order_floor_def sel ..
qed

lemma clean_target:
  assumes "clean_mode c" "sc_dynamic c" "0 < be_price b"
  shows "sizing_target c a b (f, vol, skew, cov) tr =
     (let w = target_pct c 0 (vol, skew, cov); worth = si_capital a * w
      in Some (worth / be_price b, Some worth, tr\<lparr>tr_mode := Some (sc_clean_weight c), tr_weight := Some w\<rparr>))"
  using assms by (simp add: sizing_target_def target_pct_def Let_def)

lemma size_unfold:
  "calculate_position_size num c a b =
     (if (case be_atr b of None \<Rightarrow> True | Some x \<Rightarrow> x \<le> 0) then (0, leere_spur\<lparr>tr_zero := Some ''invalid_atr''\<rparr>)
      else if si_halted a then (0, leere_spur\<lparr>tr_zero := Some ''trading_halted''\<rparr>)
      else case sizing_target c a b (sizing_risk_scaler num c a b) leere_spur of
             None \<Rightarrow> (0, leere_spur)
           | Some x \<Rightarrow> sizing_order_floor c b (sizing_caps c a b (fst (snd x)) (fst x, snd (snd x))))"
  by (simp add: calculate_position_size_def split: option.split prod.split)

text \<open>
  under the clean weights, the shipped mode, the size does not depend on the warning phase, the volatility
  gauge, the confidence or the scaler of the rules: the halving the warning announces does not happen.
\<close>
theorem warning_phase_keeps_size:
  assumes "clean_mode c" "sc_dynamic c" "0 < be_price b"
  shows "calculate_position_size num c (a\<lparr>si_reduced := r\<rparr>) (b\<lparr>be_vix := v, be_confidence := k, be_scaler := sc\<rparr>)
    = calculate_position_size num c a b"
proof -
  let ?a = "a\<lparr>si_reduced := r\<rparr>" let ?b = "b\<lparr>be_vix := v, be_confidence := k, be_scaler := sc\<rparr>"
  have caps: "sizing_caps c ?a ?b = sizing_caps c a b" "sizing_order_floor c ?b = sizing_order_floor c b"
    by (rule caps_read_no_factor [where r = r and v = v and k = k and sc = sc and fv = "be_forecast b" and rr = "be_rr b" and cov = "be_coverage b"]; simp)+
  have "sizing_target c ?a ?b (sizing_risk_scaler num c ?a ?b) tr = sizing_target c a b (sizing_risk_scaler num c a b) tr" for tr
    unfolding sizing_risk_scaler_def Let_def using assms by (subst (1 2) clean_target) simp_all
  then show ?thesis unfolding size_unfold caps by simp
qed

lemma warning_phase_keeps_size_witness:
  "calculate_position_size (\<lambda>_. None) bsp_sizing (bsp_sizer\<lparr>si_reduced := True\<rparr>)
      ((bsp_bedarf 100 20000)\<lparr>be_vix := R_None, be_confidence := ''low'', be_scaler := 0.1\<rparr>)
    = calculate_position_size (\<lambda>_. None) bsp_sizing bsp_sizer (bsp_bedarf 100 20000)"
  by (rule warning_phase_keeps_size) (simp_all add: bsp_bedarf_def bsp_sizing_def clean_mode_def)

text \<open>
  without a price no cap applies: with the default price of zero the same quantity is returned for every cash,
  also none or a debt, and for every exposure, also one that cannot be read.
\<close>
theorem no_price_no_caps:
  "fst (calculate_position_size num bsp_sizing (bsp_sizer\<lparr>si_positions := answer\<rparr>) (bsp_bedarf 0 cash)) = 15"
proof -
  have r: "py_round 6 15 = 15" using round_half_even_of_int [of "15 * 10 ^ 6"] by (simp add: py_round_def)
  show ?thesis
    by (simp add: calculate_position_size_def bsp_sizing_def bsp_sizer_def bsp_bedarf_def sizing_target_def sizing_risk_scaler_def
        Let_def resolve_vix_def vix_ladder_scaler_def vol_targeting_scaler_def skew_size_tilt_def coverage_size_discount_def
        sizing_caps_def step_position_cap_def step_cash_def step_total_exposure_cap_def step_kelly_def
        step_max_loss_per_trade_def step_compliance_order_value_def sizing_order_floor_def r split: option.split)
qed

text \<open>
  with equal weights (mode a) the audit logs a factor that was not applied: the size is the same for every
  forecast, and the logged factor is not.
\<close>
theorem equal_weights_log_unapplied:
  "calculate_position_size num (bsp_sizing\<lparr>sc_clean_weight := ''a''\<rparr>) a ((bsp_bedarf 100 cash)\<lparr>be_forecast := fv\<rparr>)
     = calculate_position_size num (bsp_sizing\<lparr>sc_clean_weight := ''a''\<rparr>) a (bsp_bedarf 100 cash)
   \<and> cx_scaler (fst (apply_vol_targeting_audit (bsp_sizing\<lparr>sc_clean_weight := ''a''\<rparr>) (R_Num (Fin 0.03)) R_None R_None x)) = Some 0.5"
proof
  let ?c = "bsp_sizing\<lparr>sc_clean_weight := ''a''\<rparr>" let ?b = "(bsp_bedarf 100 cash)\<lparr>be_forecast := fv\<rparr>"
  have m: "clean_mode ?c" "sc_dynamic ?c" "0 < be_price ?b" "0 < be_price (bsp_bedarf 100 cash)"
    by (simp_all add: clean_mode_def bsp_sizing_def bsp_bedarf_def)
  have caps: "sizing_caps ?c a ?b = sizing_caps ?c a (bsp_bedarf 100 cash)" "sizing_order_floor ?c ?b = sizing_order_floor ?c (bsp_bedarf 100 cash)"
    by (rule caps_read_no_factor [where r = "si_reduced a" and v = "be_vix (bsp_bedarf 100 cash)" and k = "be_confidence (bsp_bedarf 100 cash)"
        and sc = "be_scaler (bsp_bedarf 100 cash)" and fv = fv and rr = "be_rr (bsp_bedarf 100 cash)" and cov = "be_coverage (bsp_bedarf 100 cash)"]; simp)+
  have "sizing_target ?c a ?b (sizing_risk_scaler num ?c a ?b) tr
      = sizing_target ?c a (bsp_bedarf 100 cash) (sizing_risk_scaler num ?c a (bsp_bedarf 100 cash)) tr" for tr
    unfolding sizing_risk_scaler_def Let_def using m by (subst (1 2) clean_target) (simp_all add: target_pct_def)
  then show "calculate_position_size num ?c a ?b = calculate_position_size num ?c a (bsp_bedarf 100 cash)"
    unfolding size_unfold caps by simp
  show "cx_scaler (fst (apply_vol_targeting_audit (bsp_sizing\<lparr>sc_clean_weight := ''a''\<rparr>) (R_Num (Fin 0.03)) R_None R_None x)) = Some 0.5"
    by (simp add: apply_vol_targeting_audit_def vol_targeting_scaler_def vol_size_scaler_from_forecast_def skew_size_tilt_def
        coverage_size_discount_def bsp_sizing_def Let_def)
qed

end
