(* ===== verification/Risk_Rules.thy ===== *)
theory Risk_Rules
  imports Risk_Sizing
begin

text \<open>
  The check of a new order before it is sized (\<open>core/risk_vorpruefung.py\<close>): the halt, the gauge that must be
  readable for a buy, and the learned rules. A rule is a JSON object; reading it may raise, and then the rule is
  skipped. \<open>None\<close> is a raised exception.
\<close>

section \<open>Reading values of a rule\<close>

definition jfloat :: "(string \<Rightarrow> pyfloat option) \<Rightarrow> jval \<Rightarrow> pyfloat option" where
  "jfloat num v =
     (case v of
        JNum r \<Rightarrow> Some (Fin r)
      | JBool x \<Rightarrow> Some (Fin (if x then 1 else 0))
      | JStr t \<Rightarrow> num t
      | _ \<Rightarrow> None)"

definition get_or :: "(string \<times> jval) list \<Rightarrow> string \<Rightarrow> jval \<Rightarrow> jval" where
  "get_or fs k d = (case map_of fs k of None \<Rightarrow> d | Some v \<Rightarrow> v)"

fun teile :: "string \<Rightarrow> string list" where
  "teile [] = [[]]"
| "teile (x # xs) = (if x = CHR ''.'' then [] # teile xs else (x # hd (teile xs)) # tl (teile xs))"

text \<open>A comparison of the gauge with a bound: a bound of \<open>None\<close> passes, a bound that is no number raises.\<close>

definition bound_ok :: "(real \<Rightarrow> bool) \<Rightarrow> jval \<Rightarrow> bool option" where
  "bound_ok fails v =
     (case v of
        JNull \<Rightarrow> Some True
      | JNum r \<Rightarrow> Some (\<not> fails r)
      | JBool x \<Rightarrow> Some (\<not> fails (if x then 1 else 0))
      | _ \<Rightarrow> None)"

section \<open>Does a rule match?\<close>

record markt =
  mk_vix :: roh
  mk_strategy :: string
  mk_features :: "(string \<times> jval) list"

definition side_ok :: "string \<Rightarrow> jval \<Rightarrow> bool option" where
  "side_ok side v = (if \<not> jtruthy v then Some True else case v of JStr t \<Rightarrow> Some (py_lower t = py_lower side) | _ \<Rightarrow> None)"

definition strategy_ok :: "string \<Rightarrow> jval \<Rightarrow> bool option" where
  "strategy_ok name v = (if \<not> jtruthy v then Some True else case v of JStr t \<Rightarrow> Some (sublist t name) | _ \<Rightarrow> None)"

text \<open>The loop over the feature conditions, which ends at the first one that fails.\<close>

fun features_ok :: "(string \<Rightarrow> pyfloat option) \<Rightarrow> (string \<times> jval) list \<Rightarrow> (string \<times> jval) list \<Rightarrow> bool option" where
  "features_ok num features [] = Some True"
| "features_ok num features ((key, v) # ks) =
     (if \<not> startswith key ''indicators.features.'' then features_ok num features ks
      else let parts = rev (teile key); cond = parts ! 0
           in case jfloat num (get_or features (parts ! 1) (JNum 0)) of
                None \<Rightarrow> None
              | Some cur \<Rightarrow>
                  if cond = ''gt'' \<or> cond = ''lt''
                  then (case jfloat num v of
                          None \<Rightarrow> None
                        | Some b \<Rightarrow> if (cond = ''gt'' \<and> fl_le cur b) \<or> (cond = ''lt'' \<and> fl_le b cur) then Some False
                                    else features_ok num features ks)
                  else features_ok num features ks)"

definition both :: "bool option \<Rightarrow> bool option \<Rightarrow> bool option" where
  "both x y = (case (x, y) of (Some p, Some q) \<Rightarrow> Some (p \<and> q) | _ \<Rightarrow> None)"

definition regel_passt ::
  "(string \<Rightarrow> pyfloat option) \<Rightarrow> (string \<times> jval) list \<Rightarrow> string \<Rightarrow> markt \<Rightarrow> real \<Rightarrow> bool option" where
  "regel_passt num trigger side m vix =
     both (side_ok side (jget trigger ''side''))
       (both (strategy_ok (mk_strategy m) (jget trigger ''strategy''))
         (both (bound_ok (\<lambda>r. vix \<le> r) (jget trigger ''vix_gt''))
           (both (bound_ok (\<lambda>r. r \<le> vix) (jget trigger ''vix_lt''))
             (features_ok num (mk_features m) trigger))))"

section \<open>What a matching rule does\<close>

record mods =
  md_size :: pyfloat
  md_sl :: pyfloat

datatype ablehnung = Gehalten | Vix_Unbekannt | Regel jval

text \<open>\<open>Inl\<close> is a refusal, \<open>Inr\<close> the modified factors.\<close>

definition regel_anwenden :: "(string \<Rightarrow> pyfloat option) \<Rightarrow> (string \<times> jval) list \<Rightarrow> mods \<Rightarrow> (ablehnung + mods) option" where
  "regel_anwenden num rule m =
     (let action = get_or rule ''action'' (JStr []); wert = (\<lambda>d. jfloat num (get_or rule ''value'' (JNum d)))
      in if get_or rule ''status'' (JStr ''active'') = JStr ''probation'' then Some (Inr m)
         else if action = JStr ''block_trade'' then Some (Inl (Regel (jget rule ''reason'')))
         else if action = JStr ''reduce_size''
         then map_option (\<lambda>x. Inr (if fl_less x (md_size m) then m\<lparr>md_size := x\<rparr> else m)) (wert 0.5)
         else if action = JStr ''tighten_sl''
         then map_option (\<lambda>x. Inr (if fl_less x (md_sl m) then m\<lparr>md_sl := x\<rparr> else m)) (wert 1.5)
         else if action = JStr ''increase_size''
         then map_option (\<lambda>x. Inr (if fl_less (md_size m) x then m\<lparr>md_size := x\<rparr> else m)) (wert 1.5)
         else if action = JStr ''widen_sl''
         then map_option (\<lambda>x. Inr (if fl_less (md_sl m) x then m\<lparr>md_sl := x\<rparr> else m)) (wert 3)
         else Some (Inr m))"

text \<open>One turn of the loop; what raises is skipped.\<close>

definition regel_schritt ::
  "(string \<Rightarrow> pyfloat option) \<Rightarrow> string \<Rightarrow> markt \<Rightarrow> real \<Rightarrow> (string \<times> jval) list \<Rightarrow> mods \<Rightarrow> ablehnung + mods" where
  "regel_schritt num side m vix rule mo =
     (if get_or rule ''action'' (JStr []) = JStr ''proactive_signal'' then Inr mo
      else case get_or rule ''trigger'' (JObj []) of
             JObj trigger \<Rightarrow>
               (case regel_passt num trigger side m vix of
                  Some True \<Rightarrow> (case regel_anwenden num rule mo of None \<Rightarrow> Inr mo | Some r \<Rightarrow> r)
                | _ \<Rightarrow> Inr mo)
           | _ \<Rightarrow> Inr mo)"

fun regeln ::
  "(string \<Rightarrow> pyfloat option) \<Rightarrow> string \<Rightarrow> markt \<Rightarrow> real \<Rightarrow> (string \<times> jval) list list \<Rightarrow> mods \<Rightarrow> ablehnung + mods" where
  "regeln num side m vix [] mo = Inr mo"
| "regeln num side m vix (r # rs) mo =
     (case regel_schritt num side m vix r mo of Inl x \<Rightarrow> Inl x | Inr mo' \<Rightarrow> regeln num side m vix rs mo')"

definition evaluate_new_trade ::
  "(string \<Rightarrow> pyfloat option) \<Rightarrow> bool \<Rightarrow> string \<Rightarrow> markt \<Rightarrow> real \<Rightarrow> (string \<times> jval) list list \<Rightarrow> ablehnung + mods" where
  "evaluate_new_trade num halted side m sl rules =
     (if halted then Inl Gehalten
      else let (v, confirmed, _) = resolve_vix num (mk_vix m)
           in if \<not> confirmed \<and> py_lower side = ''buy'' then Inl Vix_Unbekannt
              else regeln num side m (if confirmed then v else 0) rules \<lparr>md_size = Fin 1, md_sl = Fin sl\<rparr>)"

section \<open>Properties\<close>

text \<open>A rule that is in force against the order: it blocks, is not on probation, and its trigger can be read and matches.\<close>

definition sperrt :: "(string \<Rightarrow> pyfloat option) \<Rightarrow> string \<Rightarrow> markt \<Rightarrow> real \<Rightarrow> (string \<times> jval) list \<Rightarrow> bool" where
  "sperrt num side m vix rule =
     (get_or rule ''action'' (JStr []) = JStr ''block_trade''
      \<and> get_or rule ''status'' (JStr ''active'') \<noteq> JStr ''probation''
      \<and> (case get_or rule ''trigger'' (JObj []) of JObj t \<Rightarrow> regel_passt num t side m vix = Some True | _ \<Rightarrow> False))"

lemma schritt_sperrt: "(\<exists>x. regel_schritt num side m vix r mo = Inl x) = sperrt num side m vix r"
  by (auto simp: regel_schritt_def sperrt_def regel_anwenden_def Let_def split: jval.split option.split bool.split)

lemma regeln_sperrt: "(\<exists>mo'. regeln num side m vix rs mo = Inr mo') = list_all (\<lambda>r. \<not> sperrt num side m vix r) rs"
proof (induction rs arbitrary: mo)
  case (Cons r rs)
  show ?case
    using Cons schritt_sperrt [of num side m vix r mo] by (cases "regel_schritt num side m vix r mo") auto
qed simp

text \<open>
  a new order is let through exactly when the trading is not halted, the volatility gauge is readable or the
  order is no buy, and no rule in force blocks it; rules that cannot be read, on probation or not matching have
  no say, and for a sale under an unreadable gauge the rules see a calm market.
\<close>
theorem trade_allowed_exactly:
  "(\<exists>mo. evaluate_new_trade num halted side m sl rules = Inr mo)
   = (\<not> halted \<and> (if py_lower side = ''buy'' then fst (snd (resolve_vix num (mk_vix m))) else True)
      \<and> list_all (\<lambda>r. \<not> sperrt num side m (if fst (snd (resolve_vix num (mk_vix m))) then fst (resolve_vix num (mk_vix m)) else 0) r) rules)"
  by (simp add: evaluate_new_trade_def regeln_sperrt split: prod.split)

definition bsp_regel :: "string \<Rightarrow> real \<Rightarrow> (string \<times> jval) list" where
  "bsp_regel action v = [(''action'', JStr action), (''value'', JNum v)]"

definition bsp_markt :: markt where
  "bsp_markt = \<lparr>mk_vix = R_Num (Fin 15), mk_strategy = [], mk_features = []\<rparr>"

text \<open>
  a reduction of the size is undone by a later rule: with a rule that halves and one that raises to 1.2 the
  factor is 1.2 in this order and one half in the other.
\<close>
theorem later_increase_undoes_reduction:
  "evaluate_new_trade num False ''buy'' bsp_markt 3 [bsp_regel ''reduce_size'' 0.5, bsp_regel ''increase_size'' 1.2]
     = Inr \<lparr>md_size = Fin 1.2, md_sl = Fin 3\<rparr>
   \<and> evaluate_new_trade num False ''buy'' bsp_markt 3 [bsp_regel ''increase_size'' 1.2, bsp_regel ''reduce_size'' 0.5]
     = Inr \<lparr>md_size = Fin 0.5, md_sl = Fin 3\<rparr>"
  by (simp add: evaluate_new_trade_def bsp_markt_def bsp_regel_def resolve_vix_def regel_schritt_def get_or_def regel_passt_def
      regel_anwenden_def side_ok_def strategy_ok_def bound_ok_def both_def jget_def jfloat_def Let_def)

end
