(* ===== verification/Portfolio_Book.thy ===== *)
theory Portfolio_Book
  imports Prelude
begin

text \<open>
  The portfolio manager (\<open>core/portfolio_manager.py\<close>), its types (\<open>core/portfolio_typen.py\<close>), the book and the
  convictions (\<open>core/portfolio_bestand.py\<close>) and the trade book with its waits (\<open>core/portfolio_handelsbuch.py\<close>).

  Instants are real seconds and carry their zone; the day in New York of an instant is a parameter. The
  configuration is read at every call: \<open>None\<close> is a configuration that cannot be read. The answers of the broker are
  arguments. The field \<open>last_updated\<close> and the history of positions, which nothing reads, are left out.
\<close>

section \<open>Types\<close>

record position_score =
  ps_symbol :: string
  ps_qty :: real
  ps_avg_entry :: real
  ps_price :: real
  ps_value :: real
  ps_pnl :: real
  ps_pnl_pct :: real
  ps_momentum :: real
  ps_conviction :: real
  ps_risk_adjusted :: real
  ps_holding :: real
  ps_total :: real
  ps_days :: int
  ps_age_known :: bool

text \<open>
  The arguments of a debate and how it ends: one constructor for each text, with the numbers printed in it.
\<close>

datatype argument =
    Oversold real | Near_Oversold real | Overbought real
  | Strong_Trend real | Moderate_Trend real | No_Trend real
  | Positive_Macd real | Negative_Macd real
  | Rl_Buy | Rl_Sell
  | Scores_Higher real | Is_Down string real | Long_Held string int
  | Not_Compelling real | Is_Profitable string real | Too_Fresh string | In_Cooldown_Held string | In_Cooldown_New string
  | Veto swap_reason
and swap_reason =
    No_Positions
  | Hold_Not_Met string int real
  | Consensus_Retains string
  | Strong_Upgrade string real string real
  | Upgrade string string nat nat
  | Cut_Loser string real
  | Keep_Difference string real
  | Keep_Argument string argument

text \<open>A line of the debate history.\<close>

record debate =
  db_new :: string
  db_new_score :: real
  db_weakest :: string
  db_weakest_score :: real
  db_for :: "argument list"
  db_against :: "argument list"
  db_swap :: bool
  db_reason :: swap_reason

section \<open>Configuration and state\<close>

record pm_cfg =
  pc_book_cap :: bool
  pc_current_lot :: bool
  pc_fresh :: real
  pc_span :: real
  pc_normalized :: bool
  pc_rl_weight :: real
  pc_respects_hold :: bool
  pc_min_hold :: real
  pc_swap_cap :: int
  pc_swap_on :: bool
  pc_retention :: real
  pc_max_sizing :: real

definition von :: "pm_cfg option \<Rightarrow> (pm_cfg \<Rightarrow> 'a) \<Rightarrow> 'a \<Rightarrow> 'a" where
  "von c f d = (case c of None \<Rightarrow> d | Some x \<Rightarrow> f x)"

text \<open>\<open>x or d\<close> for a number.\<close>

definition or_default :: "real \<Rightarrow> real \<Rightarrow> real" where
  "or_default r d = (if r = 0 then d else r)"

definition book_cap_enforced :: "pm_cfg option \<Rightarrow> bool" where
  "book_cap_enforced c = von c pc_book_cap False"

text \<open>\<open>max(lo, min(hi, x))\<close>: a comparison with NaN is false, so \<open>min\<close> keeps its first argument.\<close>

fun py_clamp :: "real \<Rightarrow> real \<Rightarrow> pyfloat \<Rightarrow> real" where
  "py_clamp lo hi (Fin r) = max lo (min hi r)"
| "py_clamp lo hi (Inf neg) = (if neg then lo else hi)"
| "py_clamp lo hi NaN = hi"

text \<open>The values the constructor imports from the configuration.\<close>

record pm_werte =
  pw_sell_bypass :: int
  pw_alpha :: real
  pw_ewma_on :: bool
  pw_trim :: bool
  pw_max_pct :: real
  pw_max_trades :: int
  pw_min_hold :: real
  pw_interval :: real
  pw_min_pct :: real
  pw_band :: "pyfloat option"
  pw_cooldown :: real
  pw_drift :: real

record pm =
  pm_capital :: real
  pm_max_positions :: int
  pm_scores :: "(string, position_score) pydict"
  pm_refresh_ok :: bool
  pm_account :: "string option"
  pm_drift :: real
  pm_cooldown :: real
  pm_min_hold :: real
  pm_max_trades :: int
  pm_sell_bypass :: int
  pm_interval :: real
  pm_trim :: bool
  pm_max_pct :: real
  pm_ewma_on :: bool
  pm_alpha :: real
  pm_band :: real
  pm_min_pct :: real
  pm_ewma :: "(string, real) pydict"
  pm_consensus :: "(string, real) pydict"
  pm_rebalanced :: "(string, real) pydict"
  pm_history :: "(string, real list) pydict"
  pm_opened :: "(string, real) pydict"
  pm_seen :: bool
  pm_sells :: "(string, int) pydict"
  pm_debates :: "debate list"
  pm_swap_day :: "int option"
  pm_swaps :: int

definition valid_topup_band_rel :: "pyfloat option \<Rightarrow> real" where
  "valid_topup_band_rel v = (case v of Some (Fin r) \<Rightarrow> if r < 0 \<or> 0.9 < r then 0.25 else r | _ \<Rightarrow> 0.25)"

definition werte_ersatz :: pm_werte where
  "werte_ersatz = \<lparr>pw_sell_bypass = 8, pw_alpha = 0.3, pw_ewma_on = True, pw_trim = True, pw_max_pct = 0.25, pw_max_trades = 3,
     pw_min_hold = 4, pw_interval = 900, pw_min_pct = 0.05, pw_band = Some (Fin 0.25), pw_cooldown = 4, pw_drift = 5\<rparr>"

definition PortfolioManager :: "pm_werte option \<Rightarrow> real \<Rightarrow> int \<Rightarrow> pm" where
  "PortfolioManager w capital n =
     (let v = (case w of None \<Rightarrow> werte_ersatz | Some x \<Rightarrow> x)
      in \<lparr>pm_capital = capital, pm_max_positions = n, pm_scores = [], pm_refresh_ok = False, pm_account = None,
          pm_drift = pw_drift v, pm_cooldown = pw_cooldown v, pm_min_hold = pw_min_hold v, pm_max_trades = pw_max_trades v,
          pm_sell_bypass = pw_sell_bypass v, pm_interval = pw_interval v, pm_trim = pw_trim v, pm_max_pct = pw_max_pct v,
          pm_ewma_on = pw_ewma_on v, pm_alpha = pw_alpha v, pm_band = valid_topup_band_rel (pw_band v),
          pm_min_pct = pw_min_pct v, pm_ewma = [], pm_consensus = [], pm_rebalanced = [], pm_history = [], pm_opened = [],
          pm_seen = False, pm_sells = [], pm_debates = [], pm_swap_day = None, pm_swaps = 0\<rparr>)"

definition update_total_capital :: "real option \<Rightarrow> pm \<Rightarrow> pm" where
  "update_total_capital v p = (case v of None \<Rightarrow> p | Some r \<Rightarrow> if 0 < r then p\<lparr>pm_capital := r\<rparr> else p)"

section \<open>Scores and convictions\<close>

definition holding_period_cfg :: "pm_cfg option \<Rightarrow> real \<times> real" where
  "holding_period_cfg c = von c (\<lambda>x. (or_default (pc_fresh x) 30, pc_span x)) (30, 0)"

definition holding_period_score :: "real \<Rightarrow> real \<Rightarrow> real \<Rightarrow> real" where
  "holding_period_score days fresh spanne =
     (let d = max 0 days
      in if 0 < spanne then fresh + (90 - fresh) * min 1 (d / spanne)
         else if d < 1 then fresh else if d < 3 then 50 else if d < 7 then 70 else 90)"

definition calculate_position_scores :: "pm_cfg option \<Rightarrow> position_score \<Rightarrow> position_score" where
  "calculate_position_scores c s =
     (let m = max 0 (min 100 (50 + ps_pnl_pct s * 5));
          h = holding_period_score (of_int (ps_days s)) (fst (holding_period_cfg c)) (snd (holding_period_cfg c));
          r = max 0 (min 100 (50 + ps_pnl_pct s / of_int (max 1 (ps_days s)) * 50))
      in s\<lparr>ps_momentum := m, ps_holding := h, ps_risk_adjusted := r,
           ps_total := m * 0.35 + h * 0.20 + r * 0.25 + ps_conviction s * 0.20\<rparr>)"

text \<open>\<open>float(raw)\<close> fails for \<open>None\<close>.\<close>

definition blend_conviction :: "pm \<Rightarrow> string \<Rightarrow> pyfloat option \<Rightarrow> real" where
  "blend_conviction p name raw =
     (case raw of None \<Rightarrow> 0
      | Some x \<Rightarrow> (case map_of (pm_ewma p) name of
                     None \<Rightarrow> py_clamp 0 1 x
                   | Some prev \<Rightarrow> if \<not> pm_ewma_on p then py_clamp 0 1 x
                                  else pm_alpha p * py_clamp 0 1 x + (1 - pm_alpha p) * prev))"

definition conviction_target_pct :: "pm_cfg option \<Rightarrow> pm \<Rightarrow> real \<Rightarrow> real" where
  "conviction_target_pct c p conviction =
     min (pm_min_pct p + (von c pc_max_sizing 0.30 - pm_min_pct p) * max 0 (min 1 conviction)) (pm_max_pct p) * 100"

definition clear_conviction :: "string \<Rightarrow> pm \<Rightarrow> pm" where
  "clear_conviction name p = p\<lparr>pm_ewma := dict_del name (pm_ewma p), pm_consensus := dict_del name (pm_consensus p)\<rparr>"

definition set_live_consensus :: "string \<Rightarrow> pyfloat option \<Rightarrow> pm \<Rightarrow> pm" where
  "set_live_consensus name v p =
     (case v of Some (Fin r) \<Rightarrow> p\<lparr>pm_consensus := dict_set name r (pm_consensus p)\<rparr> | _ \<Rightarrow> p)"

definition get_live_consensus :: "string \<Rightarrow> pm \<Rightarrow> real option" where
  "get_live_consensus name p = map_of (pm_consensus p) name"

definition update_position_conviction :: "pm_cfg option \<Rightarrow> string \<Rightarrow> pyfloat option \<Rightarrow> pm \<Rightarrow> pm" where
  "update_position_conviction c name raw p =
     (let smoothed = blend_conviction p name raw; p1 = p\<lparr>pm_ewma := dict_set name smoothed (pm_ewma p)\<rparr>
      in case map_of (pm_scores p) name of
           None \<Rightarrow> p1
         | Some s \<Rightarrow> p1\<lparr>pm_scores := dict_set name (calculate_position_scores c (s\<lparr>ps_conviction := smoothed * 100\<rparr>)) (pm_scores p)\<rparr>)"

text \<open>\<open>min\<close> and \<open>max\<close> with a key: the first of the equal ones.\<close>

fun first_min :: "position_score \<Rightarrow> position_score list \<Rightarrow> position_score" where
  "first_min b [] = b"
| "first_min b (x # xs) = first_min (if ps_total x < ps_total b then x else b) xs"

fun first_max :: "position_score \<Rightarrow> position_score list \<Rightarrow> position_score" where
  "first_max b [] = b"
| "first_max b (x # xs) = first_max (if ps_total b < ps_total x then x else b) xs"

definition get_weakest_position :: "pm \<Rightarrow> position_score option" where
  "get_weakest_position p = (case map snd (pm_scores p) of [] \<Rightarrow> None | x # xs \<Rightarrow> Some (first_min x xs))"

definition get_strongest_position :: "pm \<Rightarrow> position_score option" where
  "get_strongest_position p = (case map snd (pm_scores p) of [] \<Rightarrow> None | x # xs \<Rightarrow> Some (first_max x xs))"

section \<open>The book of the broker\<close>

text \<open>
  A position of the broker: an object with its numbers, or a dictionary where each may be missing, or one with a
  number that cannot be read.
\<close>

record bp_fields =
  bf_qty :: "real option"
  bf_avg :: "real option"
  bf_price :: "real option"
  bf_value :: "real option"
  bf_pnl :: "real option"

datatype broker_pos =
    Bp_Object string real real real real real real
  | Bp_Dict "string option" bp_fields
  | Bp_Broken

definition get_or_num :: "real option \<Rightarrow> real \<Rightarrow> real" where
  "get_or_num v d = (case v of None \<Rightarrow> d | Some r \<Rightarrow> r)"

type_synonym pos_werte = "string \<times> real \<times> real \<times> real \<times> real \<times> real \<times> real"

fun position_lesen :: "broker_pos \<Rightarrow> pos_werte option" where
  "position_lesen (Bp_Object name qty avg price val pnl plpc) = Some (name, qty, avg, price, val, pnl, plpc * 100)"
| "position_lesen (Bp_Dict name f) =
     (let qty = get_or_num (bf_qty f) 0; avg = get_or_num (bf_avg f) 0; price = get_or_num (bf_price f) avg;
          pnl = get_or_num (bf_pnl f) 0; cost = qty * avg
      in Some (case name of None \<Rightarrow> ''N/A'' | Some s \<Rightarrow> s, qty, avg, price, get_or_num (bf_value f) (qty * price), pnl,
               if 0 < cost then pnl / cost * 100 else 0))"
| "position_lesen Bp_Broken = None"

text \<open>The name that the clean-up reads: without a default.\<close>

fun position_name :: "broker_pos \<Rightarrow> string option" where
  "position_name (Bp_Object name _ _ _ _ _ _) = Some name"
| "position_name (Bp_Dict name _) = name"
| "position_name Bp_Broken = None"

text \<open>The answer for the account: no such call, an error or a number that cannot be read, or equity, number and id.\<close>

datatype konto_antwort = Kein_Konto | Konto_Fehler | Konto real string string

definition konto_abgleich :: "pm_cfg option \<Rightarrow> konto_antwort \<Rightarrow> pm \<Rightarrow> pm" where
  "konto_abgleich c a p =
     (case a of
        Konto eq number ident \<Rightarrow>
          (let p1 = (if 0 < eq then p\<lparr>pm_capital := eq\<rparr> else p); acc = (if number \<noteq> [] then number else ident)
           in if \<not> book_cap_enforced c \<or> acc = [] then p1
              else (if pm_account p1 \<noteq> None \<and> Some acc \<noteq> pm_account p1
                    then p1\<lparr>pm_scores := [], pm_history := [], pm_opened := [], pm_account := Some acc\<rparr>
                    else p1\<lparr>pm_account := Some acc\<rparr>))
      | _ \<Rightarrow> p)"

definition lot_uhr_aktiv :: "pm_cfg option \<Rightarrow> bool" where
  "lot_uhr_aktiv c = von c pc_current_lot False"

text \<open>\<open>timedelta.days\<close>.\<close>

definition days_between :: "real \<Rightarrow> real \<Rightarrow> int" where
  "days_between t now = \<lfloor>(now - t) / 86400\<rfloor>"

definition haltedauer :: "pm \<Rightarrow> real \<Rightarrow> string \<Rightarrow> bool \<Rightarrow> int \<times> bool" where
  "haltedauer p now name lot =
     (case (if lot then map_of (pm_opened p) name else None) of
        Some t \<Rightarrow> (days_between t now, True)
      | None \<Rightarrow> (case map_of (pm_history p) name of
                   Some ts \<Rightarrow> if ts = [] then (0, False) else (days_between (Min (set ts)) now, True)
                 | None \<Rightarrow> (0, False)))"

text \<open>The body of the loop over the positions, and the loop: a position that cannot be read ends it.\<close>

definition nimm_position :: "pm_cfg option \<Rightarrow> real \<Rightarrow> bool \<Rightarrow> bool \<Rightarrow> string list \<Rightarrow> pos_werte \<Rightarrow> pm \<Rightarrow> pm" where
  "nimm_position c now lot first prior w p =
     (case w of (name, qty, avg, price, val, pnl, pct) \<Rightarrow>
        (let p1 = (if lot \<and> \<not> first \<and> name \<notin> set prior then p\<lparr>pm_opened := dict_set name now (pm_opened p)\<rparr> else p);
             d = haltedauer p1 now name lot;
             s = \<lparr>ps_symbol = name, ps_qty = qty, ps_avg_entry = avg, ps_price = price, ps_value = val, ps_pnl = pnl, ps_pnl_pct = pct,
                  ps_momentum = 50, ps_conviction = 50, ps_risk_adjusted = 50, ps_holding = 50, ps_total = 50,
                  ps_days = fst d, ps_age_known = snd d\<rparr>
         in p1\<lparr>pm_scores := dict_set name (calculate_position_scores c s) (pm_scores p1)\<rparr>))"

fun refresh_loop :: "pm_cfg option \<Rightarrow> real \<Rightarrow> bool \<Rightarrow> bool \<Rightarrow> string list \<Rightarrow> broker_pos list \<Rightarrow> pm \<Rightarrow> pm \<times> bool" where
  "refresh_loop c now lot first prior [] p = (p, True)"
| "refresh_loop c now lot first prior (b # bs) p =
     (case position_lesen b of
        None \<Rightarrow> (p, False)
      | Some w \<Rightarrow> refresh_loop c now lot first prior bs (nimm_position c now lot first prior w p))"

definition entferne :: "string \<Rightarrow> pm \<Rightarrow> pm" where
  "entferne name p = clear_conviction name (p\<lparr>pm_scores := dict_del name (pm_scores p), pm_opened := dict_del name (pm_opened p)\<rparr>)"

definition geschlossene_entfernen :: "broker_pos list \<Rightarrow> pm \<Rightarrow> pm" where
  "geschlossene_entfernen bs p =
     fold entferne (filter (\<lambda>s. Some s \<notin> set (map position_name bs)) (dict_keys (pm_scores p))) p"

text \<open>\<open>None\<close> as the answer is an error of the call.\<close>

definition refresh_positions :: "pm_cfg option \<Rightarrow> real \<Rightarrow> konto_antwort \<Rightarrow> broker_pos list option \<Rightarrow> pm \<Rightarrow> pm" where
  "refresh_positions c now a answer p =
     (let p1 = konto_abgleich c a p
      in case answer of
           None \<Rightarrow> p1\<lparr>pm_refresh_ok := False\<rparr>
         | Some bs \<Rightarrow>
             (case refresh_loop c now (lot_uhr_aktiv c) (\<not> pm_seen p1) (dict_keys (pm_scores p1)) bs (p1\<lparr>pm_seen := True\<rparr>) of
                (p2, ok) \<Rightarrow> if ok then (geschlossene_entfernen bs p2)\<lparr>pm_refresh_ok := True\<rparr> else p2\<lparr>pm_refresh_ok := False\<rparr>))"

section \<open>The trade book\<close>

definition trades_today :: "(real \<Rightarrow> int) \<Rightarrow> real \<Rightarrow> real list \<Rightarrow> nat" where
  "trades_today et_day now ts = length (filter (\<lambda>t. et_day t = et_day now) ts)"

definition can_trade_symbol_when_room :: "(real \<Rightarrow> int) \<Rightarrow> real \<Rightarrow> string \<Rightarrow> pm \<Rightarrow> bool" where
  "can_trade_symbol_when_room et_day now name p =
     (case map_of (pm_history p) name of None \<Rightarrow> True | Some ts \<Rightarrow> int (trades_today et_day now ts) < pm_max_trades p)"

definition within_order_cooldown :: "real \<Rightarrow> string \<Rightarrow> pm \<Rightarrow> bool" where
  "within_order_cooldown now name p =
     (0 < pm_interval p \<and>
      (case map_of (pm_history p) name of None \<Rightarrow> False
       | Some ts \<Rightarrow> ts \<noteq> [] \<and> now - Max (set ts) < pm_interval p))"

definition can_trade_symbol :: "(real \<Rightarrow> int) \<Rightarrow> real \<Rightarrow> string \<Rightarrow> pm \<Rightarrow> bool" where
  "can_trade_symbol et_day now name p =
     ((case map_of (pm_rebalanced p) name of None \<Rightarrow> True
       | Some t \<Rightarrow> \<not> (now - t) / 3600 < or_default (pm_cooldown p) 0.5)
      \<and> can_trade_symbol_when_room et_day now name p)"

definition record_pm_trade :: "real \<Rightarrow> string \<Rightarrow> string \<Rightarrow> pm \<Rightarrow> pm" where
  "record_pm_trade now name side p =
     (let old = (case map_of (pm_history p) name of None \<Rightarrow> [] | Some ts \<Rightarrow> ts);
          kept = filter (\<lambda>t. now - 30 * 86400 < t) (old @ [now]);
          p1 = p\<lparr>pm_history := dict_set name kept (pm_history p), pm_rebalanced := dict_set name now (pm_rebalanced p)\<rparr>
      in if py_lower side = ''sell'' then p1\<lparr>pm_refresh_ok := False\<rparr> else p1)"

datatype sell_check = No_History | Bypassed int | Not_Met real int | Satisfied

definition can_sell_position :: "real \<Rightarrow> string \<Rightarrow> pm \<Rightarrow> bool \<times> sell_check" where
  "can_sell_position now name p =
     (case map_of (pm_history p) name of
        None \<Rightarrow> (True, No_History)
      | Some ts \<Rightarrow>
          if ts = [] then (True, No_History)
          else (let n = (case map_of (pm_sells p) name of None \<Rightarrow> 0 | Some k \<Rightarrow> k); h = (now - Max (set ts)) / 3600
                in if pm_sell_bypass p \<le> n then (True, Bypassed n)
                   else if h < pm_min_hold p then (False, Not_Met h (pm_sell_bypass p - n)) else (True, Satisfied)))"

definition record_sell_signal :: "string \<Rightarrow> pm \<Rightarrow> pm \<times> int" where
  "record_sell_signal name p =
     (let n = (case map_of (pm_sells p) name of None \<Rightarrow> 0 | Some k \<Rightarrow> k) + 1
      in (p\<lparr>pm_sells := dict_set name n (pm_sells p)\<rparr>, n))"

definition reset_sell_signals :: "string \<Rightarrow> pm \<Rightarrow> pm" where
  "reset_sell_signals name p = (if map_of (pm_sells p) name = None then p else p\<lparr>pm_sells := dict_set name 0 (pm_sells p)\<rparr>)"

definition clear_sell_signals_after_sale :: "string \<Rightarrow> pm \<Rightarrow> pm" where
  "clear_sell_signals_after_sale name p = p\<lparr>pm_sells := dict_del name (pm_sells p)\<rparr>"

section \<open>Scores stay in their range\<close>

definition cfg_ok :: "pm_cfg option \<Rightarrow> bool" where
  "cfg_ok c = von c (\<lambda>x. 0 \<le> pc_fresh x \<and> pc_fresh x \<le> 100) True"

definition score_ok :: "string \<Rightarrow> position_score \<Rightarrow> bool" where
  "score_ok k s \<longleftrightarrow> ps_symbol s = k \<and> 0 \<le> ps_total s \<and> ps_total s \<le> 100 \<and> 0 \<le> ps_conviction s \<and> ps_conviction s \<le> 100"

definition pm_inv :: "pm \<Rightarrow> bool" where
  "pm_inv p \<longleftrightarrow> dict_ok (pm_scores p) \<and> (\<forall>e \<in> set (pm_scores p). score_ok (fst e) (snd e))
     \<and> (\<forall>e \<in> set (pm_ewma p). 0 \<le> snd e \<and> snd e \<le> 1) \<and> 0 \<le> pm_alpha p \<and> pm_alpha p \<le> 1
     \<and> length (pm_debates p) \<le> 100"

lemma holding_range: "0 \<le> f \<Longrightarrow> f \<le> 100 \<Longrightarrow> 0 \<le> holding_period_score d f s \<and> holding_period_score d f s \<le> 100"
proof -
  assume f: "0 \<le> f" "f \<le> 100"
  have "0 \<le> f + (90 - f) * m \<and> f + (90 - f) * m \<le> 100" if m: "0 \<le> m" "m \<le> 1" for m
  proof -
    have eq: "f + (90 - f) * m = f * (1 - m) + 90 * m" by (simp add: algebra_simps)
    have "0 \<le> f * (1 - m)" "f * (1 - m) \<le> 100 * (1 - m)" using f m by (simp, intro mult_right_mono) auto
    then show ?thesis unfolding eq using m by auto
  qed
  moreover have "0 \<le> min 1 (max 0 d / s)" if "0 < s" using that by simp
  ultimately show ?thesis using f by (simp add: holding_period_score_def Let_def)
qed

lemma holding_cfg_range: "cfg_ok c \<Longrightarrow> 0 \<le> fst (holding_period_cfg c) \<and> fst (holding_period_cfg c) \<le> 100"
  by (cases c) (auto simp: cfg_ok_def von_def holding_period_cfg_def or_default_def)

lemma score_sel [simp]:
  "ps_symbol (calculate_position_scores c s) = ps_symbol s" "ps_conviction (calculate_position_scores c s) = ps_conviction s"
  "ps_value (calculate_position_scores c s) = ps_value s" "ps_days (calculate_position_scores c s) = ps_days s"
  "ps_age_known (calculate_position_scores c s) = ps_age_known s" "ps_pnl_pct (calculate_position_scores c s) = ps_pnl_pct s"
  by (simp_all add: calculate_position_scores_def Let_def)

lemma score_total:
  "ps_total (calculate_position_scores c s) =
     max 0 (min 100 (50 + ps_pnl_pct s * 5)) * 0.35
     + holding_period_score (of_int (ps_days s)) (fst (holding_period_cfg c)) (snd (holding_period_cfg c)) * 0.20
     + max 0 (min 100 (50 + ps_pnl_pct s / of_int (max 1 (ps_days s)) * 50)) * 0.25 + ps_conviction s * 0.20"
  by (simp add: calculate_position_scores_def Let_def)

lemma weighted_range:
  fixes a b c d :: real
  assumes "0 \<le> a" "a \<le> 100" "0 \<le> b" "b \<le> 100" "0 \<le> c" "c \<le> 100" "0 \<le> d" "d \<le> 100"
  shows "0 \<le> a * 0.35 + b * 0.20 + c * 0.25 + d * 0.20 \<and> a * 0.35 + b * 0.20 + c * 0.25 + d * 0.20 \<le> 100"
  using assms by simp

lemma calculated_ok:
  assumes "cfg_ok c" "0 \<le> ps_conviction s" "ps_conviction s \<le> 100" "ps_symbol s = k"
  shows "score_ok k (calculate_position_scores c s)"
proof -
  note h = holding_range [OF holding_cfg_range [OF assms(1), THEN conjunct1] holding_cfg_range [OF assms(1), THEN conjunct2]]
  have "0 \<le> ps_total (calculate_position_scores c s) \<and> ps_total (calculate_position_scores c s) \<le> 100"
    unfolding score_total by (rule weighted_range) (use assms h in auto)
  then show ?thesis using assms by (simp add: score_ok_def)
qed

lemma py_clamp_range: "lo \<le> hi \<Longrightarrow> lo \<le> py_clamp lo hi x \<and> py_clamp lo hi x \<le> hi"
  by (cases x) auto

lemma convex_range: "0 \<le> a \<Longrightarrow> a \<le> 1 \<Longrightarrow> 0 \<le> x \<Longrightarrow> x \<le> 1 \<Longrightarrow> 0 \<le> y \<Longrightarrow> y \<le> 1 \<Longrightarrow> 0 \<le> a * x + (1 - a) * y \<and> a * x + (1 - a) * (y::real) \<le> 1"
  using convex_bound_le [of x 1 y a "1 - a"] by simp

lemma conviction_blend_range:
  assumes "\<forall>e \<in> set (pm_ewma p). 0 \<le> snd e \<and> snd e \<le> 1" "0 \<le> pm_alpha p" "pm_alpha p \<le> 1"
  shows "0 \<le> blend_conviction p name raw \<and> blend_conviction p name raw \<le> 1"
proof (cases raw)
  case (Some x)
  have c: "0 \<le> py_clamp 0 1 x" "py_clamp 0 1 x \<le> 1" using py_clamp_range [of 0 1 x] by simp_all
  show ?thesis
  proof (cases "map_of (pm_ewma p) name")
    case (Some prev)
    then have "0 \<le> prev \<and> prev \<le> 1" using assms(1) map_of_SomeD by fastforce
    then show ?thesis using Some \<open>raw = Some x\<close> c assms convex_range by (simp add: blend_conviction_def)
  qed (use \<open>raw = Some x\<close> c in \<open>simp add: blend_conviction_def\<close>)
qed (simp add: blend_conviction_def)

section \<open>The invariant\<close>

text \<open>A change of other fields keeps it, and so does one of the scores that keeps each of them in range.\<close>

lemma inv_scores:
  assumes "pm_inv p" "dict_ok d" "\<forall>e \<in> set d. score_ok (fst e) (snd e)"
  shows "pm_inv (p\<lparr>pm_scores := d\<rparr>)"
  using assms by (simp add: pm_inv_def)

lemma inv_set_score:
  assumes "pm_inv p" "score_ok k s"
  shows "pm_inv (p\<lparr>pm_scores := dict_set k s (pm_scores p)\<rparr>)"
proof (rule inv_scores [OF assms(1)])
  show "dict_ok (dict_set k s (pm_scores p))" using assms(1) by (simp add: pm_inv_def dict_ok_set)
  show "\<forall>e \<in> set (dict_set k s (pm_scores p)). score_ok (fst e) (snd e)"
    by (rule dict_set_all) (use assms in \<open>simp_all add: pm_inv_def\<close>)
qed

lemma inv_other [simp]:
  "pm_inv (p\<lparr>pm_capital := x1\<rparr>) = pm_inv p" "pm_inv (p\<lparr>pm_refresh_ok := x2\<rparr>) = pm_inv p"
  "pm_inv (p\<lparr>pm_account := x3\<rparr>) = pm_inv p" "pm_inv (p\<lparr>pm_history := x4\<rparr>) = pm_inv p"
  "pm_inv (p\<lparr>pm_opened := x5\<rparr>) = pm_inv p" "pm_inv (p\<lparr>pm_seen := x6\<rparr>) = pm_inv p"
  "pm_inv (p\<lparr>pm_consensus := x7\<rparr>) = pm_inv p" "pm_inv (p\<lparr>pm_rebalanced := x8\<rparr>) = pm_inv p"
  "pm_inv (p\<lparr>pm_sells := x9\<rparr>) = pm_inv p"
  by (simp_all add: pm_inv_def)

lemma inv_clear [simp]: "pm_inv p \<Longrightarrow> pm_inv (clear_conviction name p)"
  using dict_del_all [of "pm_ewma p" "\<lambda>e. 0 \<le> snd e \<and> snd e \<le> 1" name] by (simp add: pm_inv_def clear_conviction_def)

lemma inv_entferne [simp]: "pm_inv p \<Longrightarrow> pm_inv (entferne name p)"
  unfolding entferne_def
  by (rule inv_clear) (use dict_del_all [of "pm_scores p" "\<lambda>e. score_ok (fst e) (snd e)" name] in \<open>simp add: pm_inv_def dict_ok_del\<close>)

lemma inv_fold_entferne: "pm_inv p \<Longrightarrow> pm_inv (fold entferne ss p)"
  by (induction ss arbitrary: p) auto

lemma inv_konto: "pm_inv p \<Longrightarrow> pm_inv (konto_abgleich c a p)"
  by (cases a) (simp_all add: konto_abgleich_def Let_def, simp add: pm_inv_def)

lemma inv_nimm: "cfg_ok c \<Longrightarrow> pm_inv p \<Longrightarrow> pm_inv (nimm_position c now lot first prior w p)"
  by (cases w) (auto simp: nimm_position_def Let_def intro!: inv_set_score calculated_ok inv_set_score [of "pm_opened_update f p" for f, simplified])

lemma inv_loop: "cfg_ok c \<Longrightarrow> pm_inv p \<Longrightarrow> pm_inv (fst (refresh_loop c now lot first prior bs p))"
  by (induction bs arbitrary: p) (auto simp: inv_nimm split: option.split)

lemma inv_refresh:
  assumes "cfg_ok c" "pm_inv p"
  shows "pm_inv (refresh_positions c now a answer p)"
proof -
  note k = inv_konto [OF assms(2), of c a]
  show ?thesis
  proof (cases answer)
    case (Some bs)
    let ?l = "refresh_loop c now (lot_uhr_aktiv c) (\<not> pm_seen (konto_abgleich c a p)) (dict_keys (pm_scores (konto_abgleich c a p))) bs (konto_abgleich c a p\<lparr>pm_seen := True\<rparr>)"
    obtain p2 ok where l: "?l = (p2, ok)" by fastforce
    have "pm_inv (fst ?l)" by (rule inv_loop [OF assms(1)]) (simp add: k)
    then have "pm_inv p2" by (simp add: l)
    then show ?thesis using Some l
      by (simp add: refresh_positions_def Let_def geschlossene_entfernen_def inv_fold_entferne)
  qed (use k in \<open>simp add: refresh_positions_def\<close>)
qed

lemma inv_conviction:
  assumes "cfg_ok c" "pm_inv p"
  shows "pm_inv (update_position_conviction c name raw p)"
proof -
  have b: "0 \<le> blend_conviction p name raw \<and> blend_conviction p name raw \<le> 1"
    using assms(2) by (intro conviction_blend_range) (auto simp: pm_inv_def)
  let ?p = "p\<lparr>pm_ewma := dict_set name (blend_conviction p name raw) (pm_ewma p)\<rparr>"
  have i: "pm_inv ?p" using assms(2) b dict_set_all [of "pm_ewma p" "\<lambda>e. 0 \<le> snd e \<and> snd e \<le> 1" name "blend_conviction p name raw"]
    by (simp add: pm_inv_def)
  show ?thesis
  proof (cases "map_of (pm_scores p) name")
    case (Some s)
    then have "ps_symbol s = name" using assms(2) map_of_SomeD by (fastforce simp: pm_inv_def score_ok_def)
    then have "pm_inv (?p\<lparr>pm_scores := dict_set name (calculate_position_scores c (s\<lparr>ps_conviction := blend_conviction p name raw * 100\<rparr>)) (pm_scores ?p)\<rparr>)"
      using b by (intro inv_set_score [OF i] calculated_ok assms) auto
    then show ?thesis using Some by (simp add: update_position_conviction_def Let_def)
  qed (use i in \<open>simp add: update_position_conviction_def Let_def\<close>)
qed

lemma inv_small [simp]:
  "pm_inv p \<Longrightarrow> pm_inv (update_total_capital v p)" "pm_inv p \<Longrightarrow> pm_inv (set_live_consensus name x p)"
  "pm_inv p \<Longrightarrow> pm_inv (record_pm_trade now name side p)" "pm_inv p \<Longrightarrow> pm_inv (fst (record_sell_signal name p))"
  "pm_inv p \<Longrightarrow> pm_inv (reset_sell_signals name p)" "pm_inv p \<Longrightarrow> pm_inv (clear_sell_signals_after_sale name p)"
  by (simp_all add: update_total_capital_def set_live_consensus_def record_pm_trade_def record_sell_signal_def
      reset_sell_signals_def clear_sell_signals_after_sale_def Let_def split: option.split pyfloat.split)

section \<open>The events\<close>

datatype pm_event =
    Refreshed konto_antwort "broker_pos list option"
  | Traded string string
  | Conviction string "pyfloat option"
  | Consensus string "pyfloat option"
  | Sell_Signalled string
  | Sells_Reset string
  | Sells_Cleared string
  | Capital "real option"

fun pm_step :: "pm_cfg option \<Rightarrow> real \<Rightarrow> pm_event \<Rightarrow> pm \<Rightarrow> pm" where
  "pm_step c now (Refreshed a answer) p = refresh_positions c now a answer p"
| "pm_step c now (Traded name side) p = record_pm_trade now name side p"
| "pm_step c now (Conviction name raw) p = update_position_conviction c name raw p"
| "pm_step c now (Consensus name v) p = set_live_consensus name v p"
| "pm_step c now (Sell_Signalled name) p = fst (record_sell_signal name p)"
| "pm_step c now (Sells_Reset name) p = reset_sell_signals name p"
| "pm_step c now (Sells_Cleared name) p = clear_sell_signals_after_sale name p"
| "pm_step c now (Capital v) p = update_total_capital v p"

lemma inv_step: "cfg_ok c \<Longrightarrow> pm_inv p \<Longrightarrow> pm_inv (pm_step c now e p)"
  by (cases e) (simp_all add: inv_refresh inv_conviction)

section \<open>A refreshed book\<close>

lemma scores_konto_capital [simp]: "pm_ewma (konto_abgleich c a p) = pm_ewma p" "pm_consensus (konto_abgleich c a p) = pm_consensus p"
  "pm_rebalanced (konto_abgleich c a p) = pm_rebalanced p" "pm_seen (konto_abgleich c a p) = pm_seen p"
  by (cases a; simp add: konto_abgleich_def Let_def)+

text \<open>What a position of the broker leaves in the book.\<close>

definition mirrors :: "pos_werte \<Rightarrow> position_score \<Rightarrow> bool" where
  "mirrors w s \<longleftrightarrow> (case w of (name, qty, avg, price, val, pnl, pct) \<Rightarrow>
     ps_symbol s = name \<and> ps_value s = val \<and> ps_pnl_pct s = pct \<and> ps_conviction s = 50)"

lemma nimm_other: "k \<noteq> fst w \<Longrightarrow> map_of (pm_scores (nimm_position c now lot first prior w p)) k = map_of (pm_scores p) k"
  by (cases w) (simp add: nimm_position_def Let_def)

lemma nimm_own: "\<exists>s. map_of (pm_scores (nimm_position c now lot first prior w p)) (fst w) = Some s \<and> mirrors w s"
  by (cases w) (simp add: nimm_position_def Let_def mirrors_def)

lemma loop_other:
  "k \<notin> fst ` set (map (the \<circ> position_lesen) bs) \<Longrightarrow>
   map_of (pm_scores (fst (refresh_loop c now lot first prior bs p))) k = map_of (pm_scores p) k"
  by (induction bs arbitrary: p) (auto simp: nimm_other split: option.split)

lemma loop_ok: "snd (refresh_loop c now lot first prior bs p) \<longleftrightarrow> (\<forall>b \<in> set bs. position_lesen b \<noteq> None)"
  by (induction bs arbitrary: p) (auto split: option.split)

lemma loop_own:
  assumes "distinct (map (fst \<circ> (the \<circ> position_lesen)) bs)" "b \<in> set bs" "\<forall>b \<in> set bs. position_lesen b \<noteq> None"
  shows "\<exists>s. map_of (pm_scores (fst (refresh_loop c now lot first prior bs p))) (fst (the (position_lesen b))) = Some s
    \<and> mirrors (the (position_lesen b)) s"
  using assms
proof (induction bs arbitrary: p)
  case (Cons x xs)
  obtain w where w: "position_lesen x = Some w" using Cons.prems(3) by auto
  show ?case
  proof (cases "b = x")
    case True
    have "fst w \<notin> fst ` set (map (the \<circ> position_lesen) xs)" using Cons.prems(1) w by (auto simp: comp_def)
    from loop_other [OF this, of c now lot first prior "nimm_position c now lot first prior w p"]
    show ?thesis using True w nimm_own [of c now lot first prior w p] by simp
  next
    case False
    then show ?thesis using Cons w by simp
  qed
qed simp

lemma entferne_scores [simp]: "pm_scores (entferne k p) = dict_del k (pm_scores p)"
  by (simp add: entferne_def clear_conviction_def)

lemma fold_entferne_lookup:
  "map_of (pm_scores (fold entferne ks p)) k = (if k \<in> set ks then None else map_of (pm_scores p) k)"
  by (induction ks arbitrary: p) auto

lemma lookup_keys: "map_of d k = None \<longleftrightarrow> k \<notin> fst ` set d"
  by (rule map_of_eq_None_iff)

lemma refresh_lookup:
  assumes "\<forall>b \<in> set bs. position_lesen b \<noteq> None"
  shows "map_of (pm_scores (refresh_positions c now a (Some bs) p)) k =
    (if Some k \<in> position_name ` set bs
     then map_of (pm_scores (fst (refresh_loop c now (lot_uhr_aktiv c) (\<not> pm_seen p) (dict_keys (pm_scores (konto_abgleich c a p))) bs
            (konto_abgleich c a p\<lparr>pm_seen := True\<rparr>)))) k else None)"
proof -
  let ?l = "refresh_loop c now (lot_uhr_aktiv c) (\<not> pm_seen p) (dict_keys (pm_scores (konto_abgleich c a p))) bs (konto_abgleich c a p\<lparr>pm_seen := True\<rparr>)"
  obtain p2 ok where l: "?l = (p2, ok)" by fastforce
  moreover have "ok" using loop_ok [of c now "lot_uhr_aktiv c" "\<not> pm_seen p" "dict_keys (pm_scores (konto_abgleich c a p))" bs "konto_abgleich c a p\<lparr>pm_seen := True\<rparr>"] assms
    by (simp add: l)
  ultimately show ?thesis
    by (auto simp: refresh_positions_def Let_def geschlossene_entfernen_def fold_entferne_lookup dict_keys_def map_of_eq_None_iff [symmetric]
        dest: map_of_SomeD)
qed

lemma refresh_keys:
  assumes "\<forall>b \<in> set bs. position_lesen b \<noteq> None"
  shows "k \<in> fst ` set (pm_scores (refresh_positions c now a (Some bs) p)) \<longleftrightarrow>
    Some k \<in> position_name ` set bs \<and> map_of (pm_scores (refresh_positions c now a (Some bs) p)) k \<noteq> None"
  using refresh_lookup [OF assms, of c now a p k] by (metis map_of_eq_None_iff)

lemma refresh_confirmed:
  assumes "\<forall>b \<in> set bs. position_lesen b \<noteq> None"
  shows "pm_refresh_ok (refresh_positions c now a (Some bs) p)"
proof -
  let ?l = "refresh_loop c now (lot_uhr_aktiv c) (\<not> pm_seen p) (dict_keys (pm_scores (konto_abgleich c a p))) bs (konto_abgleich c a p\<lparr>pm_seen := True\<rparr>)"
  obtain p2 ok where l: "?l = (p2, ok)" by fastforce
  moreover have "snd ?l" using assms by (rule loop_ok [THEN iffD2])
  ultimately show ?thesis by (simp add: refresh_positions_def Let_def)
qed

text \<open>
  after a refresh in which every position can be read and names are not repeated, the book holds exactly the
  names the broker reports, each with its value, and the count of the slots is confirmed, whatever the book held before.
\<close>
theorem book_mirrors_broker:
  assumes "list_all (\<lambda>b. position_lesen b \<noteq> None \<and> position_name b \<noteq> None) bs" "distinct (map position_name bs)"
  shows "Some ` fst ` set (pm_scores (refresh_positions c now a (Some bs) p)) = position_name ` set bs
    \<and> list_all (\<lambda>b. \<exists>s. map_of (pm_scores (refresh_positions c now a (Some bs) p)) (the (position_name b)) = Some s
                      \<and> mirrors (the (position_lesen b)) s) bs
    \<and> pm_refresh_ok (refresh_positions c now a (Some bs) p)"
proof -
  let ?p = "refresh_positions c now a (Some bs) p"
  have name: "fst (the (position_lesen b)) = the (position_name b)" if "b \<in> set bs" for b
    using assms(1) that by (cases b) (auto simp: list_all_iff Let_def)
  have eq: "map position_name bs = map Some (map (fst \<circ> (the \<circ> position_lesen)) bs)"
    using assms(1) name by (auto simp: list_all_iff)
  have dist: "distinct (map (fst \<circ> (the \<circ> position_lesen)) bs)" using assms(2) unfolding eq by (rule distinct_map [THEN iffD1, THEN conjunct1])
  have ok: "\<forall>b \<in> set bs. position_lesen b \<noteq> None" using assms(1) by (simp add: list_all_iff)
  have own: "\<exists>s. map_of (pm_scores ?p) (the (position_name b)) = Some s \<and> mirrors (the (position_lesen b)) s" if b: "b \<in> set bs" for b
  proof -
    have "Some (the (position_name b)) \<in> position_name ` set bs" using assms(1) b by (force simp: list_all_iff image_iff)
    then show ?thesis using loop_own [OF dist b ok] name [OF b] by (simp add: refresh_lookup [OF ok])
  qed
  have key: "k \<in> fst ` set (pm_scores ?p) \<longleftrightarrow> Some k \<in> position_name ` set bs" for k
  proof
    assume "k \<in> fst ` set (pm_scores ?p)"
    then show "Some k \<in> position_name ` set bs" unfolding refresh_keys [OF ok] by simp
  next
    assume "Some k \<in> position_name ` set bs"
    then obtain b where "b \<in> set bs" "position_name b = Some k" by force
    with own [of b] show "k \<in> fst ` set (pm_scores ?p)" by (auto dest!: map_of_SomeD intro: rev_image_eqI)
  qed
  have "Some ` fst ` set (pm_scores ?p) = position_name ` set bs"
  proof (intro set_eqI iffI)
    fix m assume "m \<in> position_name ` set bs"
    moreover from this assms(1) obtain k where "m = Some k" by (auto simp: list_all_iff)
    ultimately show "m \<in> Some ` fst ` set (pm_scores ?p)" using key [of k] by simp
  next
    fix m assume "m \<in> Some ` fst ` set (pm_scores ?p)"
    then obtain k where "m = Some k" "k \<in> fst ` set (pm_scores ?p)" by blast
    then show "m \<in> position_name ` set bs" using key [of k] by simp
  qed
  moreover have "pm_refresh_ok ?p" by (rule refresh_confirmed [OF ok])
  ultimately show ?thesis using own by (auto simp: list_all_iff)
qed

lemma book_mirrors_broker_witness:
  "pm_refresh_ok (refresh_positions None 0 Kein_Konto (Some [Bp_Object ''A'' 1 10 11 11 1 (1/10)]) (PortfolioManager None 1000 10))"
  using book_mirrors_broker [of "[Bp_Object ''A'' 1 10 11 11 1 (1/10)]" None 0 Kein_Konto "PortfolioManager None 1000 10"] by simp

section \<open>What a refresh forgets\<close>

lemma dict_set_fst: "map fst (dict_set k v d) = (if k \<in> fst ` set d then map fst d else map fst d @ [k])"
  by (induction d) auto

lemma same_lookup_same_list: "map fst d = map fst e \<Longrightarrow> dict_ok d \<Longrightarrow> map_of d = map_of e \<Longrightarrow> d = e"
proof (induction d arbitrary: e)
  case (Cons x d)
  then obtain y e' where e: "e = y # e'" by (cases e) auto
  have fst: "fst x = fst y" "map fst d = map fst e'" using Cons.prems(1) e by auto
  have m: "(map_of d)(fst x \<mapsto> snd x) = (map_of e')(fst x \<mapsto> snd y)" using Cons.prems(3) e fst(1) by (metis map_of.simps(2))
  then have "snd x = snd y" by (metis fun_upd_same option.inject)
  moreover have "map_of d k = map_of e' k" for k
  proof (cases "k = fst x")
    case True
    have "fst x \<notin> fst ` set d" using Cons.prems(2) by simp
    moreover have "fst ` set d = fst ` set e'" using fst(2) by (metis list.set_map)
    ultimately show ?thesis using True by (metis map_of_eq_None_iff)
  qed (use m in \<open>metis fun_upd_apply\<close>)
  ultimately show ?case using Cons fst e by (metis distinct.simps(2) ext list.simps(9) prod_eqI)
qed simp

definition alike :: "string set \<Rightarrow> pm \<Rightarrow> pm \<Rightarrow> bool" where
  "alike ks p q \<longleftrightarrow> map fst (pm_scores p) = map fst (pm_scores q) \<and> (\<forall>k \<in> ks. map_of (pm_scores p) k = map_of (pm_scores q) k)
     \<and> pm_opened p = pm_opened q \<and> pm_history p = pm_history q"

lemma haltedauer_cong:
  "pm_opened p = pm_opened q \<Longrightarrow> pm_history p = pm_history q \<Longrightarrow> haltedauer p now name lot = haltedauer q now name lot"
  by (simp add: haltedauer_def split: option.split)

lemma alike_nimm:
  assumes "alike ks p q"
  shows "alike (insert (fst w) ks) (nimm_position c now lot first prior w p) (nimm_position c now lot first prior w q)"
proof -
  have f: "fst ` set (pm_scores p) = fst ` set (pm_scores q)" using assms by (metis alike_def list.set_map)
  have h: "haltedauer (if b then p\<lparr>pm_opened := dict_set k now (pm_opened p)\<rparr> else p) now name lot
      = haltedauer (if b then q\<lparr>pm_opened := dict_set k now (pm_opened q)\<rparr> else q) now name lot" for b k name
    using assms by (intro haltedauer_cong) (auto simp: alike_def)
  show ?thesis using assms f by (cases w) (simp add: alike_def nimm_position_def Let_def dict_set_fst h)
qed

lemma alike_loop:
  assumes "alike ks p q" "\<forall>b \<in> set bs. position_lesen b \<noteq> None"
  shows "alike (ks \<union> fst ` set (map (the \<circ> position_lesen) bs)) (fst (refresh_loop c now lot first prior bs p)) (fst (refresh_loop c now lot first prior bs q))"
  using assms
proof (induction bs arbitrary: p q ks)
  case (Cons b bs)
  obtain w where w: "position_lesen b = Some w" using Cons.prems(2) by auto
  from Cons.IH [OF alike_nimm [OF Cons.prems(1)], of w c now lot first prior] Cons.prems(2) show ?case by (simp add: w insert_commute)
qed simp

lemma fold_entferne_keys: "map fst (pm_scores (fold entferne ks p)) = filter (\<lambda>k. k \<notin> set ks) (map fst (pm_scores p))"
proof (induction ks arbitrary: p)
  case (Cons k ks)
  have "map fst (dict_del k d) = filter (\<lambda>j. j \<noteq> k) (map fst d)" for d :: "(string, position_score) pydict"
    by (induction d) (auto simp: dict_del_def)
  then show ?case using Cons [of "entferne k p"] by (auto intro!: filter_cong)
qed simp

lemma filter_notin_filter: "filter (\<lambda>k. k \<notin> set (filter P ks)) ks = filter (\<lambda>k. \<not> P k) ks"
  by (rule filter_cong) auto

lemma refresh_list_keys:
  assumes "\<forall>b \<in> set bs. position_lesen b \<noteq> None"
  shows "map fst (pm_scores (refresh_positions c now a (Some bs) p)) =
    filter (\<lambda>k. Some k \<in> position_name ` set bs) (map fst (pm_scores (fst (refresh_loop c now (lot_uhr_aktiv c) (\<not> pm_seen p)
      (dict_keys (pm_scores (konto_abgleich c a p))) bs (konto_abgleich c a p\<lparr>pm_seen := True\<rparr>)))))"
proof -
  let ?l = "refresh_loop c now (lot_uhr_aktiv c) (\<not> pm_seen p) (dict_keys (pm_scores (konto_abgleich c a p))) bs (konto_abgleich c a p\<lparr>pm_seen := True\<rparr>)"
  obtain p2 ok where l: "?l = (p2, ok)" by fastforce
  moreover have "snd ?l" using assms by (rule loop_ok [THEN iffD2])
  ultimately show ?thesis
    by (simp add: refresh_positions_def Let_def geschlossene_entfernen_def fold_entferne_keys dict_keys_def filter_notin_filter del: set_filter)
qed

lemma position_name_read: "position_lesen b \<noteq> None \<Longrightarrow> position_name b = Some k \<Longrightarrow> fst (the (position_lesen b)) = k"
  by (cases b) (auto simp: Let_def)

lemma konto_other: "pm_opened (konto_abgleich c a (p\<lparr>pm_ewma := x, pm_scores := d\<rparr>)) = pm_opened (konto_abgleich c a p)"
  "pm_history (konto_abgleich c a (p\<lparr>pm_ewma := x, pm_scores := d\<rparr>)) = pm_history (konto_abgleich c a p)"
  by (cases a; simp add: konto_abgleich_def Let_def)+

lemma loop_dict_ok: "dict_ok (pm_scores p) \<Longrightarrow> dict_ok (pm_scores (fst (refresh_loop c now lot first prior bs p)))"
  by (induction bs arbitrary: p) (auto simp: nimm_position_def Let_def dict_ok_set split: option.split)

text \<open>Two managers that differ in convictions and old scores only hold the same book after a refresh.\<close>

lemma refresh_forgets:
  assumes ok: "\<forall>b \<in> set bs. position_lesen b \<noteq> None"
    and d: "map fst d = map fst (pm_scores p)" "dict_ok d"
  shows "pm_scores (refresh_positions c now a (Some bs) (p\<lparr>pm_ewma := x, pm_scores := d\<rparr>)) = pm_scores (refresh_positions c now a (Some bs) p)"
proof -
  let ?q = "p\<lparr>pm_ewma := x, pm_scores := d\<rparr>"
  let ?k = "dict_keys (pm_scores (konto_abgleich c a p))"
  let ?l = "\<lambda>p. refresh_loop c now (lot_uhr_aktiv c) (\<not> pm_seen p) ?k bs (konto_abgleich c a p\<lparr>pm_seen := True\<rparr>)"
  let ?ks = "fst ` set (map (the \<circ> position_lesen) bs)"
  have same: "map fst (pm_scores (konto_abgleich c a ?q)) = map fst (pm_scores (konto_abgleich c a p))"
    using d(1) by (cases a) (simp_all add: konto_abgleich_def Let_def)
  have k: "dict_keys (pm_scores (konto_abgleich c a ?q)) = ?k" using same by (simp add: dict_keys_def)
  have "alike {} (konto_abgleich c a ?q\<lparr>pm_seen := True\<rparr>) (konto_abgleich c a p\<lparr>pm_seen := True\<rparr>)"
    using same by (simp add: alike_def konto_other)
  from alike_loop [OF this ok] have al: "alike ?ks (fst (?l ?q)) (fst (?l p))" by simp
  have in_ks: "k \<in> ?ks" if "Some k \<in> position_name ` set bs" for k
  proof -
    from that obtain b where b: "b \<in> set bs" "position_name b = Some k" by fastforce
    then have "k = fst ((the \<circ> position_lesen) b)" using ok position_name_read [of b k] by simp
    with b(1) show ?thesis by (metis imageI list.set_map)
  qed
  show ?thesis
  proof (rule same_lookup_same_list)
    show "map fst (pm_scores (refresh_positions c now a (Some bs) ?q)) = map fst (pm_scores (refresh_positions c now a (Some bs) p))"
      using al by (simp add: refresh_list_keys [OF ok] k alike_def)
    show "map_of (pm_scores (refresh_positions c now a (Some bs) ?q)) = map_of (pm_scores (refresh_positions c now a (Some bs) p))"
      using al in_ks by (auto simp: refresh_lookup [OF ok] k alike_def fun_eq_iff)
    have "dict_ok (pm_scores (konto_abgleich c a ?q))" using d(2) by (cases a) (simp_all add: konto_abgleich_def Let_def)
    then have "dict_ok (pm_scores (fst (?l ?q)))" using loop_dict_ok by simp
    then show "dict_ok (pm_scores (refresh_positions c now a (Some bs) ?q))" by (simp add: refresh_list_keys [OF ok] k)
  qed
qed

text \<open>
  C20: a conviction that a fill records never reaches the ranking of the next decision: the next refresh gives every
  position the neutral conviction again, so the book it ranks is the one without the fill's conviction.
\<close>
theorem ranking_ignores_conviction:
  assumes "pm_inv p" "list_all (\<lambda>b. position_lesen b \<noteq> None) bs"
  shows "pm_scores (refresh_positions c now a (Some bs) (update_position_conviction c' name raw p)) = pm_scores (refresh_positions c now a (Some bs) p)
    \<and> get_weakest_position (refresh_positions c now a (Some bs) (update_position_conviction c' name raw p))
      = get_weakest_position (refresh_positions c now a (Some bs) p)"
proof -
  obtain x d where u: "update_position_conviction c' name raw p = p\<lparr>pm_ewma := x, pm_scores := d\<rparr>"
    and d: "map fst d = map fst (pm_scores p)"
  proof (cases "map_of (pm_scores p) name")
    case None
    then show ?thesis by (intro that [of "pm_scores p" "dict_set name (blend_conviction p name raw) (pm_ewma p)"]) (simp_all add: update_position_conviction_def Let_def)
  next
    case (Some s)
    then have "name \<in> fst ` set (pm_scores p)" by (metis domI dom_map_of_conv_image_fst)
    then show ?thesis using Some
      by (intro that [of "dict_set name (calculate_position_scores c' (s\<lparr>ps_conviction := blend_conviction p name raw * 100\<rparr>)) (pm_scores p)"
            "dict_set name (blend_conviction p name raw) (pm_ewma p)"])
        (simp_all add: update_position_conviction_def Let_def dict_set_fst)
  qed
  have "dict_ok d" using assms(1) d by (simp add: pm_inv_def)
  from refresh_forgets [OF _ d this] assms(2) show ?thesis by (simp add: u get_weakest_position_def list_all_iff)
qed

definition bsp_pos :: broker_pos where "bsp_pos = Bp_Object ''A'' 1 10 11 11 1 (1/10)"

lemma ranking_ignores_conviction_witness:
  "pm_scores (refresh_positions None 0 Kein_Konto (Some [bsp_pos]) (update_position_conviction None ''A'' (Some (Fin 1)) (PortfolioManager None 1000 10)))
   = pm_scores (refresh_positions None 0 Kein_Konto (Some [bsp_pos]) (PortfolioManager None 1000 10))"
  using ranking_ignores_conviction [of "PortfolioManager None 1000 10" "[bsp_pos]" None 0 Kein_Konto None "''A''" "Some (Fin 1)"]
  by (simp add: pm_inv_def PortfolioManager_def werte_ersatz_def bsp_pos_def)

section \<open>Waits\<close>

lemma record_history: "map_of (pm_history (record_pm_trade now name side p)) name =
    Some (filter (\<lambda>t. now - 30 * 86400 < t) ((case map_of (pm_history p) name of None \<Rightarrow> [] | Some ts \<Rightarrow> ts) @ [now]))"
  by (simp add: record_pm_trade_def Let_def)

lemma record_newest:
  obtains ts where "map_of (pm_history (record_pm_trade now name side p)) name = Some ts" "ts \<noteq> []" "now \<le> Max (set ts)"
    "\<forall>t \<in> set ts. now - 30 * 86400 < t"
proof -
  let ?ts = "filter (\<lambda>t. now - 30 * 86400 < t) ((case map_of (pm_history p) name of None \<Rightarrow> [] | Some ts \<Rightarrow> ts) @ [now])"
  have "now \<in> set ?ts" by simp
  then have "?ts \<noteq> []" "now \<le> Max (set ?ts)" by (metis empty_iff list.set(1), metis List.finite_set Max_ge)
  then show ?thesis using record_history by (intro that) auto
qed

text \<open>
  any trade in a name starts its wait again: right after it, and until the hold time has passed, the name cannot
  be sold unless enough sell signals came in a row, whether the trade was a purchase or the sale of a part.
\<close>
theorem any_trade_restarts_hold:
  assumes "later - now < pm_min_hold p * 3600" "(case map_of (pm_sells p) name of None \<Rightarrow> 0 | Some k \<Rightarrow> k) < pm_sell_bypass p"
  shows "\<not> fst (can_sell_position later name (record_pm_trade now name side p))"
proof -
  obtain ts where ts: "map_of (pm_history (record_pm_trade now name side p)) name = Some ts" "ts \<noteq> []" "now \<le> Max (set ts)"
    by (rule record_newest)
  have f: "pm_sells (record_pm_trade now name side p) = pm_sells p" "pm_sell_bypass (record_pm_trade now name side p) = pm_sell_bypass p"
    "pm_min_hold (record_pm_trade now name side p) = pm_min_hold p"
    by (simp_all add: record_pm_trade_def Let_def)
  have "(later - Max (set ts)) / 3600 < pm_min_hold p" using assms(1) ts(3) by (simp add: field_simps)
  then show ?thesis using assms(2) ts by (simp add: can_sell_position_def f Let_def)
qed

lemma any_trade_restarts_hold_witness:
  "\<not> fst (can_sell_position 7200 ''A'' (record_pm_trade 0 ''A'' ''sell'' (PortfolioManager None 1000 10)))"
  using any_trade_restarts_hold [of 7200 0 "PortfolioManager None 1000 10" "''A''" "''sell''"]
  by (simp add: PortfolioManager_def werte_ersatz_def)

text \<open>
  a trade makes a holding young: right after it the age of the position, read from the trade book, is below
  thirty days, however long ago the position was opened.
\<close>
theorem trade_rejuvenates:
  "snd (haltedauer (record_pm_trade now name side p) now name False)
   \<and> fst (haltedauer (record_pm_trade now name side p) now name False) < 30"
proof -
  obtain ts where ts: "map_of (pm_history (record_pm_trade now name side p)) name = Some ts" "ts \<noteq> []"
    "\<forall>t \<in> set ts. now - 30 * 86400 < t"
    by (rule record_newest)
  then have "Min (set ts) \<in> set ts" by (intro Min_in) auto
  with ts(3) have "now - 30 * 86400 < Min (set ts)" by blast
  then show ?thesis using ts by (simp add: haltedauer_def days_between_def floor_less_iff field_simps)
qed

section \<open>Signals, convictions and a change of the account\<close>

fun signals :: "nat \<Rightarrow> string \<Rightarrow> pm \<Rightarrow> pm" where
  "signals 0 name p = p"
| "signals (Suc n) name p = signals n name (fst (record_sell_signal name p))"

definition sell_count :: "pm \<Rightarrow> string \<Rightarrow> int" where
  "sell_count p name = (case map_of (pm_sells p) name of None \<Rightarrow> 0 | Some k \<Rightarrow> k)"

lemma signals_count: "sell_count (signals n name p) name = sell_count p name + int n"
  "pm_history (signals n name p) = pm_history p" "pm_sell_bypass (signals n name p) = pm_sell_bypass p"
  by (induction n arbitrary: p) (simp_all add: record_sell_signal_def sell_count_def Let_def)

text \<open>
  a hold is not forever: after as many sell signals as the bypass asks for, the name can be sold at any time,
  whatever was traded and however long ago.
\<close>
theorem signals_release_hold:
  assumes "pm_sell_bypass p \<le> int n" "0 \<le> sell_count p name"
  shows "fst (can_sell_position now name (signals n name p))"
  using assms signals_count [of n name p]
  by (auto simp: can_sell_position_def sell_count_def [symmetric] Let_def split: option.split)

lemma signals_release_hold_witness: "fst (can_sell_position 60 ''A'' (signals 8 ''A'' (record_pm_trade 0 ''A'' ''buy'' (PortfolioManager None 1000 10))))"
  using signals_release_hold [of "record_pm_trade 0 ''A'' ''buy'' (PortfolioManager None 1000 10)" 8 "''A''" 60]
  by (simp add: record_pm_trade_def PortfolioManager_def werte_ersatz_def sell_count_def Let_def py_lower_def)

fun fills :: "nat \<Rightarrow> pm_cfg option \<Rightarrow> string \<Rightarrow> pyfloat option \<Rightarrow> pm \<Rightarrow> pm" where
  "fills 0 c name raw p = p"
| "fills (Suc n) c name raw p = fills n c name raw (update_position_conviction c name raw p)"

lemma conviction_sel [simp]:
  "map_of (pm_ewma (update_position_conviction c name raw p)) name = Some (blend_conviction p name raw)"
  "pm_alpha (update_position_conviction c name raw p) = pm_alpha p" "pm_ewma_on (update_position_conviction c name raw p) = pm_ewma_on p"
  by (simp_all add: update_position_conviction_def Let_def split: option.split)

text \<open>
  the smoothed conviction of a name: after n fills with the same reading it is the reading plus the old distance
  times the n-th power of one minus alpha.
\<close>
theorem conviction_converges:
  assumes "pm_ewma_on p" "map_of (pm_ewma p) name = Some prev"
  shows "map_of (pm_ewma (fills n c name (Some x) p)) name = Some (py_clamp 0 1 x + (1 - pm_alpha p) ^ n * (prev - py_clamp 0 1 x))"
  using assms
proof (induction n arbitrary: p prev)
  case (Suc n)
  let ?p = "update_position_conviction c name (Some x) p"
  have b: "blend_conviction p name (Some x) = pm_alpha p * py_clamp 0 1 x + (1 - pm_alpha p) * prev"
    using Suc.prems by (simp add: blend_conviction_def)
  have "map_of (pm_ewma (fills n c name (Some x) ?p)) name
      = Some (py_clamp 0 1 x + (1 - pm_alpha p) ^ n * (blend_conviction p name (Some x) - py_clamp 0 1 x))"
    using Suc.IH [of ?p "blend_conviction p name (Some x)"] Suc.prems by simp
  also have "blend_conviction p name (Some x) - py_clamp 0 1 x = (1 - pm_alpha p) * (prev - py_clamp 0 1 x)"
    by (simp add: b algebra_simps)
  finally show ?case by (simp add: mult.assoc mult.left_commute)
qed simp

text \<open>A reading that is no number counts as full conviction, one that is missing as none.\<close>

theorem nan_is_full_conviction:
  "map_of (pm_ewma p) name = None \<Longrightarrow> blend_conviction p name (Some NaN) = 1 \<and> blend_conviction p name None = 0"
  by (simp add: blend_conviction_def)

text \<open>
  a change of the account empties the book and the trade book, and keeps the convictions, the consensus and the
  waits of the account before.
\<close>
theorem switch_keeps_convictions:
  assumes "book_cap_enforced c" "pm_account p = Some old" "number \<noteq> []" "number \<noteq> old"
  shows "pm_scores (konto_abgleich c (Konto eq number ident) p) = [] \<and> pm_history (konto_abgleich c (Konto eq number ident) p) = []
    \<and> blend_conviction (konto_abgleich c (Konto eq number ident) p) name raw = blend_conviction p name raw
    \<and> get_live_consensus name (konto_abgleich c (Konto eq number ident) p) = get_live_consensus name p"
  using assms by (auto simp: konto_abgleich_def blend_conviction_def get_live_consensus_def Let_def split: option.split)

lemma first_min_least: "first_min b xs \<in> set (b # xs) \<and> (\<forall>x \<in> set (b # xs). ps_total (first_min b xs) \<le> ps_total x)"
proof (induction xs arbitrary: b)
  case (Cons x xs)
  from Cons [of "if ps_total x < ps_total b then x else b"] show ?case by (auto split: if_splits)
qed simp

lemma weakest_least:
  "get_weakest_position p = Some w \<Longrightarrow> w \<in> snd ` set (pm_scores p) \<and> (\<forall>s \<in> snd ` set (pm_scores p). ps_total w \<le> ps_total s)"
proof -
  assume "get_weakest_position p = Some w"
  then obtain b xs where "map snd (pm_scores p) = b # xs" "w = first_min b xs"
    by (auto simp: get_weakest_position_def split: list.splits)
  then show ?thesis using first_min_least [of b xs] by (metis list.set_map)
qed

lemma weakest_None: "get_weakest_position p = None \<longleftrightarrow> pm_scores p = []"
  by (auto simp: get_weakest_position_def split: list.split)

end
