(* ===== verification/Regime_Signal.thy ===== *)
theory Regime_Signal
  imports Risk_Scalers
begin

text \<open>
  The risk-off composite, its threshold, the throttle on purchases and its cache (\<open>core/engine/regime_signal.py\<close>).

  The percentiles of the components come from pandas and are an argument of a refresh. Dates are ordinals. The cache
  file is the state it holds, or \<open>None\<close> where it cannot be read. \<open>num\<close> is \<open>float(text)\<close>.
\<close>

section \<open>The composite\<close>

definition regime_weights :: "(string, real) pydict" where
  "regime_weights = [(''credit'', 0.40), (''oil'', 0.20), (''rates'', 0.20), (''correlation'', 0.10), (''spy_drawdown'', 0.10)]"

text \<open>\<open>_is_number\<close> and the number that is read: finite, no truth value.\<close>

definition reading_number :: "(string \<Rightarrow> pyfloat option) \<Rightarrow> roh \<Rightarrow> real option" where
  "reading_number num v =
     (case (case v of R_Num x \<Rightarrow> Some x | R_Text t \<Rightarrow> num t | _ \<Rightarrow> None) of Some (Fin r) \<Rightarrow> Some r | _ \<Rightarrow> None)"

fun present_components :: "(string \<Rightarrow> pyfloat option) \<Rightarrow> (string, real) pydict \<Rightarrow> (string, roh) pydict \<Rightarrow> (string \<times> real \<times> real) list" where
  "present_components num ws [] = []"
| "present_components num ws ((k, v) # cs) =
     (case (map_of ws k, reading_number num v) of
        (Some w, Some r) \<Rightarrow> (k, w, r) # present_components num ws cs
      | _ \<Rightarrow> present_components num ws cs)"

definition riskoff_composite :: "(string \<Rightarrow> pyfloat option) \<Rightarrow> (string, real) pydict \<Rightarrow> (string, roh) pydict \<Rightarrow> real option" where
  "riskoff_composite num ws components =
     (let ps = present_components num ws components; total = sum_list (map (\<lambda>(_, w, _). w) ps)
      in if ''credit'' \<notin> set (map fst ps) \<or> length ps < 3 then None
         else if total \<le> 0 then None
         else Some (sum_list (map (\<lambda>(_, w, r). w * r) ps) / total))"

section \<open>The threshold and the factor\<close>

definition min_history_days :: nat where "min_history_days = 60"

definition interpolate :: "real list \<Rightarrow> real \<Rightarrow> real" where
  "interpolate xs pct =
     (let pos = real (length xs - 1) * pct / 100; lo = nat \<lfloor>pos\<rfloor>; hi = min (lo + 1) (length xs - 1)
      in xs ! lo + (xs ! hi - xs ! lo) * (pos - real lo))"

definition threshold_value :: "(string \<Rightarrow> pyfloat option) \<Rightarrow> roh list \<Rightarrow> int \<Rightarrow> real option" where
  "threshold_value num history threshold_pct =
     (let xs = sort (List.map_filter (reading_number num) history)
      in if length xs < min_history_days then None
         else Some (interpolate xs (max 0 (min 100 (of_int threshold_pct)))))"

definition throttle_factor :: "(string \<Rightarrow> pyfloat option) \<Rightarrow> roh \<Rightarrow> roh list \<Rightarrow> int \<Rightarrow> real \<Rightarrow> real" where
  "throttle_factor num score history threshold_pct size_factor =
     (case (reading_number num score, threshold_value num history threshold_pct) of
        (Some s, Some thr) \<Rightarrow> if s < thr then 1 else max 0.1 (min 1 size_factor)
      | _ \<Rightarrow> 1)"

section \<open>The cached reading\<close>

record regime_state =
  rg_score :: roh
  rg_history :: "roh list"
  rg_asof :: "int option"
  rg_computed_on :: "int option"

definition max_cache_age_days :: int where "max_cache_age_days = 4"

definition is_fresh :: "regime_state option \<Rightarrow> int \<Rightarrow> bool" where
  "is_fresh st today =
     (case st of None \<Rightarrow> False
      | Some s \<Rightarrow> (case rg_asof s of None \<Rightarrow> False | Some d \<Rightarrow> 0 \<le> today - d \<and> today - d \<le> max_cache_age_days))"

text \<open>The part of the reading that decides: the factor and whether there is a score.\<close>

record regime_sicht =
  rs_available :: bool
  rs_threshold :: "real option"
  rs_would_throttle :: bool
  rs_factor :: real

definition regime_reading :: "(string \<Rightarrow> pyfloat option) \<Rightarrow> int \<Rightarrow> int \<Rightarrow> real \<Rightarrow> regime_state option \<Rightarrow> regime_sicht" where
  "regime_reading num today threshold_pct size_factor st =
     (let fresh = is_fresh st today;
          score = (case st of None \<Rightarrow> R_None | Some s \<Rightarrow> if fresh then rg_score s else R_None);
          history = (case st of None \<Rightarrow> [] | Some s \<Rightarrow> if fresh then rg_history s else []);
          f = throttle_factor num score history threshold_pct size_factor
      in \<lparr>rs_available = (score \<noteq> R_None), rs_threshold = threshold_value num history threshold_pct,
          rs_would_throttle = (f < 1), rs_factor = f\<rparr>)"

record regime_cfg =
  rc_enabled :: bool
  rc_percentile :: int
  rc_size_factor :: real

definition active_throttle_reading ::
  "(string \<Rightarrow> pyfloat option) \<Rightarrow> regime_cfg \<Rightarrow> int \<Rightarrow> regime_state option \<Rightarrow> regime_sicht option" where
  "active_throttle_reading num c today st =
     (if \<not> rc_enabled c then None else Some (regime_reading num today (rc_percentile c) (rc_size_factor c) st))"

text \<open>A configuration that cannot be read is \<open>None\<close>.\<close>

definition active_throttle_factor :: "(string \<Rightarrow> pyfloat option) \<Rightarrow> regime_cfg option \<Rightarrow> int \<Rightarrow> regime_state option \<Rightarrow> real" where
  "active_throttle_factor num c today st =
     (case c of None \<Rightarrow> 1
      | Some x \<Rightarrow> (case active_throttle_reading num x today st of
                     None \<Rightarrow> 1
                   | Some r \<Rightarrow> if 0 < rs_factor r \<and> rs_factor r < 1 then rs_factor r else 1))"

section \<open>The refresh\<close>

text \<open>
  The cache file and the last attempt without a reading. \<open>computed\<close> is the state the closes give, and
  \<open>written\<close> whether the file could be replaced.
\<close>

record regime_cache =
  rx_file :: "regime_state option"
  rx_failed :: "real option"

definition refresh_regime_cache :: "regime_state \<Rightarrow> int \<Rightarrow> bool \<Rightarrow> regime_cache \<Rightarrow> regime_cache \<times> regime_state" where
  "refresh_regime_cache computed today written x =
     (let s = computed\<lparr>rg_computed_on := Some today\<rparr>
      in if rg_score s = R_None then (x, s) else (if written then x\<lparr>rx_file := Some s\<rparr> else x, s))"

definition retry_after :: real where "retry_after = 900"

definition kein_stand :: regime_state where
  "kein_stand = \<lparr>rg_score = R_None, rg_history = [], rg_asof = None, rg_computed_on = None\<rparr>"

definition regime_attempt :: "regime_state \<Rightarrow> int \<Rightarrow> real \<Rightarrow> bool \<Rightarrow> regime_cache \<Rightarrow> regime_cache \<times> regime_state" where
  "regime_attempt computed today clock written x =
     (let y = refresh_regime_cache computed today written x
      in ((fst y)\<lparr>rx_failed := (if rg_score (snd y) = R_None then Some clock else None)\<rparr>, snd y))"

text \<open>The last component says whether the closes were fetched.\<close>

definition ensure_fresh_state ::
  "regime_state \<Rightarrow> int \<Rightarrow> real \<Rightarrow> bool \<Rightarrow> regime_cache \<Rightarrow> regime_cache \<times> regime_state \<times> bool" where
  "ensure_fresh_state computed today clock written x =
     (case (case rx_file x of Some s \<Rightarrow> if rg_computed_on s = Some today then Some s else None | None \<Rightarrow> None) of
        Some s \<Rightarrow> (x, s, False)
      | None \<Rightarrow> (if (case rx_failed x of None \<Rightarrow> False | Some t \<Rightarrow> clock - t < retry_after) then (x, kein_stand, False)
                 else (let y = regime_attempt computed today clock written x in (fst y, snd y, True))))"

section \<open>The composite is a mean\<close>

lemma present_weights:
  "\<forall>e \<in> set ws. 0 < snd e \<Longrightarrow> \<forall>e \<in> set (present_components num ws cs). 0 < fst (snd e)"
  by (induction num ws cs rule: present_components.induct) (auto split: option.splits prod.splits dest!: map_of_SomeD)

lemma weighted_mean:
  fixes ps :: "('a \<times> real \<times> real) list"
  assumes "\<forall>e \<in> set ps. 0 < fst (snd e) \<and> lo \<le> snd (snd e) \<and> snd (snd e) \<le> hi"
  shows "lo * sum_list (map (\<lambda>(_, w, _). w) ps) \<le> sum_list (map (\<lambda>(_, w, r). w * r) ps)
    \<and> sum_list (map (\<lambda>(_, w, r). w * r) ps) \<le> hi * sum_list (map (\<lambda>(_, w, _). w) ps)"
  using assms
proof (induction ps)
  case (Cons e ps)
  obtain k w r where e: "e = (k, w, r)" by (cases e) auto
  have "lo * w \<le> w * r" "w * r \<le> hi * w" using Cons.prems by (simp_all add: e mult.commute mult_left_mono)
  moreover have "lo * sum_list (map (\<lambda>(_, w, _). w) ps) \<le> sum_list (map (\<lambda>(_, w, r). w * r) ps)"
    "sum_list (map (\<lambda>(_, w, r). w * r) ps) \<le> hi * sum_list (map (\<lambda>(_, w, _). w) ps)" using Cons by simp_all
  ultimately show ?case by (simp add: e distrib_left)
qed simp

text \<open>
  the composite lies between the least and the greatest of the components that are present, and there is none
  without the credit component or with fewer than three.
\<close>
theorem composite_is_a_mean:
  assumes "riskoff_composite num regime_weights components = Some s"
    and "list_all (\<lambda>(_, w, r). lo \<le> r \<and> r \<le> hi) (present_components num regime_weights components)"
  shows "lo \<le> s \<and> s \<le> hi \<and> ''credit'' \<in> set (map fst (present_components num regime_weights components))
    \<and> 3 \<le> length (present_components num regime_weights components)"
proof -
  let ?ps = "present_components num regime_weights components"
  let ?t = "sum_list (map (\<lambda>(_, w, _). w) ?ps)"
  have c: "''credit'' \<in> set (map fst ?ps)" "3 \<le> length ?ps" "0 < ?t" "s = sum_list (map (\<lambda>(_, w, r). w * r) ?ps) / ?t"
    using assms(1) by (auto simp: riskoff_composite_def Let_def split: if_splits)
  have "\<forall>e \<in> set ?ps. 0 < fst (snd e)" by (rule present_weights) (simp add: regime_weights_def)
  then have "\<forall>e \<in> set ?ps. 0 < fst (snd e) \<and> lo \<le> snd (snd e) \<and> snd (snd e) \<le> hi"
    using assms(2) by (auto simp: list_all_iff)
  note m = weighted_mean [OF this]
  have "lo \<le> s" "s \<le> hi" using m c(3) by (simp_all add: c(4) pos_le_divide_eq pos_divide_le_eq)
  with c show ?thesis by simp
qed

lemma composite_is_a_mean_witness:
  "riskoff_composite (\<lambda>_. None) regime_weights [(''credit'', R_Num (Fin 80)), (''oil'', R_Num (Fin 50)), (''rates'', R_Num (Fin 50)), (''x'', R_None)] = Some 65
   \<and> 50 \<le> (65::real) \<and> (65::real) \<le> 80"
proof -
  have e: "riskoff_composite (\<lambda>_. None) regime_weights [(''credit'', R_Num (Fin 80)), (''oil'', R_Num (Fin 50)), (''rates'', R_Num (Fin 50)), (''x'', R_None)] = Some 65"
    by (simp add: riskoff_composite_def regime_weights_def reading_number_def Let_def)
  show ?thesis using e composite_is_a_mean [OF e, of 50 80] by (simp add: regime_weights_def reading_number_def)
qed

section \<open>The threshold lies in the history\<close>

lemma between_steps:
  fixes a b t :: real
  assumes "a \<le> b" "0 \<le> t" "t \<le> 1"
  shows "a \<le> a + (b - a) * t" "a + (b - a) * t \<le> b"
  using assms mult_left_mono [of t 1 "b - a"] by simp_all

lemma interpolate_range:
  assumes "sorted xs" "xs \<noteq> []" "0 \<le> pct" "pct \<le> 100"
  shows "hd xs \<le> interpolate xs pct \<and> interpolate xs pct \<le> last xs"
proof -
  let ?n = "length xs - 1"
  let ?pos = "real ?n * pct / 100"
  let ?lo = "nat \<lfloor>?pos\<rfloor>"
  let ?hi = "min (?lo + 1) ?n"
  have pos: "0 \<le> ?pos" "?pos \<le> real ?n" using assms(3,4) mult_left_mono [of pct 100 "real ?n"] by simp_all
  then have lo: "real ?lo \<le> ?pos" "?pos < real ?lo + 1" by linarith+
  then have "?lo \<le> ?n" using pos by linarith
  then have "?hi < length xs" "?lo \<le> ?hi" "?lo < length xs" using assms(2) by (cases xs; simp)+
  then have step: "xs ! ?lo \<le> xs ! ?hi" using sorted_nth_mono [OF assms(1)] by blast
  have ends: "hd xs \<le> xs ! ?lo" "xs ! ?hi \<le> last xs"
    using assms(1,2) \<open>?lo < length xs\<close> \<open>?hi < length xs\<close>
    by (simp_all add: hd_conv_nth last_conv_nth sorted_nth_mono)
  have "xs ! ?lo \<le> interpolate xs pct \<and> interpolate xs pct \<le> xs ! ?hi"
  proof -
    have "0 \<le> ?pos - real ?lo" "?pos - real ?lo \<le> 1" using lo by linarith+
    from between_steps [OF step this] show ?thesis unfolding interpolate_def Let_def by blast
  qed
  with ends show ?thesis by linarith
qed

text \<open>
  the throttle acts on purchases only by a factor between one tenth and one, and only on a fresh reading whose
  score reaches the threshold; the threshold needs sixty readings and lies between the least and the greatest of them.
\<close>
theorem throttle_only_when_risky:
  assumes "active_throttle_factor num c today st \<noteq> 1"
  shows "1/10 \<le> active_throttle_factor num c today st \<and> active_throttle_factor num c today st < 1 \<and> is_fresh st today
    \<and> (\<exists>s h score thr. st = Some s \<and> h = List.map_filter (reading_number num) (rg_history s) \<and> 60 \<le> length h
         \<and> reading_number num (rg_score s) = Some score \<and> Min (set h) \<le> thr \<and> thr \<le> Max (set h) \<and> thr \<le> score)"
proof -
  from assms obtain x where c: "c = Some x" "rc_enabled x"
    by (auto simp: active_throttle_factor_def active_throttle_reading_def split: option.splits if_splits)
  let ?f = "rs_factor (regime_reading num today (rc_percentile x) (rc_size_factor x) st)"
  have f: "0 < ?f" "?f < 1" "active_throttle_factor num c today st = ?f"
    using assms c by (auto simp: active_throttle_factor_def active_throttle_reading_def split: if_splits)
  have fresh: "is_fresh st today"
    using f(2) by (auto simp: regime_reading_def Let_def throttle_factor_def reading_number_def split: option.splits if_splits)
  then obtain s where s: "st = Some s" by (auto simp: is_fresh_def split: option.splits)
  let ?h = "List.map_filter (reading_number num) (rg_history s)"
  have "?f = throttle_factor num (rg_score s) (rg_history s) (rc_percentile x) (rc_size_factor x)"
    using s fresh by (simp add: regime_reading_def Let_def)
  with f(2) obtain score thr where t: "reading_number num (rg_score s) = Some score"
    "threshold_value num (rg_history s) (rc_percentile x) = Some thr" "thr \<le> score" "?f = max 0.1 (min 1 (rc_size_factor x))"
    by (auto simp: throttle_factor_def split: option.splits if_splits)
  then have n: "60 \<le> length ?h" "thr = interpolate (sort ?h) (max 0 (min 100 (of_int (rc_percentile x))))"
    by (auto simp: threshold_value_def min_history_days_def Let_def split: if_splits)
  have ne: "sort ?h \<noteq> []" using n(1) by (metis length_0_conv length_sort not_numeral_le_zero)
  have "hd (sort ?h) \<le> thr \<and> thr \<le> last (sort ?h)"
    unfolding n(2) by (rule interpolate_range) (use ne in auto)
  moreover have "hd (sort ?h) \<in> set ?h" "last (sort ?h) \<in> set ?h" using ne by (metis hd_in_set set_sort, metis last_in_set set_sort)
  ultimately have "Min (set ?h) \<le> thr" "thr \<le> Max (set ?h)"
    by (meson List.finite_set Min_le Max_ge order_trans)+
  then show ?thesis using f t n fresh s by auto
qed

definition bsp_regime :: regime_state where
  "bsp_regime = \<lparr>rg_score = R_Num (Fin 80), rg_history = replicate 60 (R_Num (Fin 50)), rg_asof = Some 10, rg_computed_on = Some 11\<rparr>"

definition bsp_regime_cfg :: regime_cfg where
  "bsp_regime_cfg = \<lparr>rc_enabled = True, rc_percentile = 75, rc_size_factor = 0.5\<rparr>"

lemma map_filter_replicate: "f x = Some y \<Longrightarrow> List.map_filter f (replicate n x) = replicate n y"
  by (induction n) (simp_all add: map_filter_simps)

lemma sort_replicate: "sort (replicate n x) = replicate n (x :: real)"
  by (rule sort_key_id_if_sorted) simp

lemma interpolate_replicate:
  assumes "0 < n" "0 \<le> pct" "pct \<le> 100" shows "interpolate (replicate n x) pct = x"
  using interpolate_range [of "replicate n x" pct] assms by (simp add: hd_replicate last_replicate)

lemma bsp_regime_factor: "active_throttle_factor (\<lambda>_. None) (Some bsp_regime_cfg) 12 (Some bsp_regime) = 1/2"
proof -
  have "threshold_value (\<lambda>_. None) (rg_history bsp_regime) 75 = Some 50"
    by (simp add: bsp_regime_def threshold_value_def map_filter_replicate [where y = 50] reading_number_def sort_replicate
        interpolate_replicate min_history_days_def)
  then show ?thesis
    by (simp add: active_throttle_factor_def active_throttle_reading_def regime_reading_def throttle_factor_def bsp_regime_cfg_def
        is_fresh_def max_cache_age_days_def bsp_regime_def reading_number_def)
qed

lemma throttle_only_when_risky_witness: "is_fresh (Some bsp_regime) 12"
  using throttle_only_when_risky [of "\<lambda>_. None" "Some bsp_regime_cfg" 12 "Some bsp_regime"] by (simp add: bsp_regime_factor)

section \<open>How often the closes are fetched\<close>

text \<open>The calls of a day: the clock and the state the closes would give. The result is when they were fetched.\<close>

fun fetches :: "int \<Rightarrow> (real \<times> regime_state) list \<Rightarrow> regime_cache \<Rightarrow> real list" where
  "fetches today [] x = []"
| "fetches today ((t, computed) # cs) x =
     (let y = ensure_fresh_state computed today t True x
      in if snd (snd y) then t # fetches today cs (fst y) else fetches today cs (fst y))"

definition has_today :: "int \<Rightarrow> regime_cache \<Rightarrow> bool" where
  "has_today today x = (case rx_file x of None \<Rightarrow> False | Some s \<Rightarrow> rg_computed_on s = Some today)"

lemma ensure_idle: "has_today today x \<Longrightarrow> fst (ensure_fresh_state computed today t w x) = x \<and> \<not> snd (snd (ensure_fresh_state computed today t w x))"
  by (auto simp: has_today_def ensure_fresh_state_def split: option.splits)

lemma fetches_idle: "has_today today x \<Longrightarrow> fetches today cs x = []"
proof (induction cs)
  case (Cons e cs)
  then show ?case using ensure_idle [OF Cons.prems, of "snd e" "fst e" True] by (cases e) (simp add: Let_def)
qed simp

lemma ensure_fetched:
  assumes "snd (snd (ensure_fresh_state computed today t True x))"
  shows "has_today today (fst (ensure_fresh_state computed today t True x)) \<or> rx_failed (fst (ensure_fresh_state computed today t True x)) = Some t"
  using assms
  by (auto simp: ensure_fresh_state_def regime_attempt_def refresh_regime_cache_def has_today_def Let_def split: option.splits if_splits)

lemma ensure_waits:
  assumes "rx_failed x = Some t0" "t - t0 < retry_after"
  shows "fst (ensure_fresh_state computed today t w x) = x \<and> \<not> snd (snd (ensure_fresh_state computed today t w x))"
  using assms by (auto simp: ensure_fresh_state_def split: option.splits)

lemma fetches_wait:
  assumes "has_today today x \<or> rx_failed x = Some t0"
  shows "\<forall>t \<in> set (fetches today cs x). t0 + retry_after \<le> t" "sorted_wrt (\<lambda>a b. a + retry_after \<le> b) (fetches today cs x)"
proof -
  have "(\<forall>t \<in> set (fetches today cs x). t0 + retry_after \<le> t) \<and> sorted_wrt (\<lambda>a b. a + retry_after \<le> b) (fetches today cs x)"
    using assms
  proof (induction cs arbitrary: x t0)
    case (Cons e cs)
    obtain t computed where e: "e = (t, computed)" by (cases e)
    let ?y = "ensure_fresh_state computed today t True x"
    show ?case
    proof (cases "snd (snd ?y)")
      case False
      then have "fst ?y = x" by (auto simp: ensure_fresh_state_def Let_def split: option.splits if_splits)
      then show ?thesis using False Cons by (simp add: e Let_def)
    next
      case True
      then have late: "t0 + retry_after \<le> t" using Cons.prems ensure_idle ensure_waits [of x t0 t] by fastforce
      have r: "0 \<le> retry_after" by (simp add: retry_after_def)
      have ih: "\<forall>u \<in> set (fetches today cs (fst ?y)). t + retry_after \<le> u"
        "sorted_wrt (\<lambda>a b. a + retry_after \<le> b) (fetches today cs (fst ?y))"
        using Cons.IH [OF ensure_fetched [OF True]] by auto
      then show ?thesis using True late r by (fastforce simp: e Let_def)
    qed
  qed simp
  then show "\<forall>t \<in> set (fetches today cs x). t0 + retry_after \<le> t" "sorted_wrt (\<lambda>a b. a + retry_after \<le> b) (fetches today cs x)" by auto
qed

lemma fetches_apart: "sorted_wrt (\<lambda>a b. a + 900 \<le> b) (fetches today cs x)"
proof (induction cs arbitrary: x)
  case (Cons e cs)
  obtain t computed where e: "e = (t, computed)" by (cases e)
  show ?case
  proof (cases "snd (snd (ensure_fresh_state computed today t True x))")
    case True
    from fetches_wait [OF ensure_fetched [OF True], of cs] show ?thesis using True by (simp add: e Let_def retry_after_def)
  qed (use Cons in \<open>simp add: e Let_def\<close>)
qed simp

text \<open>
  on one day and with a file that can be written, the closes are fetched at most every fifteen minutes, whatever
  the loop asks and whatever the fetches return, and not at all while the file holds a reading of the day.
\<close>
theorem closes_fetched_sparingly:
  "sorted_wrt (\<lambda>a b. a + 900 \<le> b) (fetches today cs x) \<and> (if has_today today x then fetches today cs x = [] else True)"
  by (simp add: fetches_apart fetches_idle)

text \<open>Where the file cannot be written, a reading is fetched again by every call.\<close>

theorem unwritable_cache_refetches:
  assumes "\<not> has_today today x" "rx_failed x = None" "rg_score computed \<noteq> R_None"
  shows "ensure_fresh_state computed today t False x = (x, computed\<lparr>rg_computed_on := Some today\<rparr>, True)"
  using assms by (auto simp: ensure_fresh_state_def regime_attempt_def refresh_regime_cache_def has_today_def Let_def split: option.splits)

end
