(* ===== verification/Portfolio_Admission.thy ===== *)
theory Portfolio_Admission
  imports Portfolio_Book Regime_Signal Position_Book
begin

text \<open>
  The scoring of a candidate and the displacement of a held position (\<open>core/portfolio_verdraengung.py\<close>), the
  admission of a purchase and the top-up (\<open>core/portfolio_zulassung.py\<close>), the cap of the top-up (\<open>core/engine/bemessung_helfer.py\<close>) and the selection of an
  overfull book (\<open>core/engine/book_overflow.py\<close>).

  The configuration of the sizer is an argument of its own, \<open>None\<close> when it cannot be read. The day of a session is
  the UTC day of the clock.
\<close>

section \<open>The candidate\<close>

record candidate =
  ca_name :: string
  ca_price :: real
  ca_action :: int
  ca_confidence :: pyfloat
  ca_momentum :: real
  ca_value :: real
  ca_trend :: real
  ca_total :: real
  ca_for :: "argument list"
  ca_against :: "argument list"
  ca_vol :: roh
  ca_skew :: roh
  ca_coverage :: roh

definition opportunity_score_cfg :: "pm_cfg option \<Rightarrow> bool \<times> real" where
  "opportunity_score_cfg c =
     (case c of None \<Rightarrow> (True, 0)
      | Some x \<Rightarrow> if \<not> pc_normalized x then (False, 1) else (True, max 0 (min 1 (pc_rl_weight x / 0.40))))"

definition feature :: "(string, real) pydict \<Rightarrow> string \<Rightarrow> real \<Rightarrow> real" where
  "feature f k d = (case map_of f k of None \<Rightarrow> d | Some v \<Rightarrow> v)"

text \<open>The three technical scores: the score, and what is argued for and against.\<close>

definition value_teil :: "real \<Rightarrow> real \<times> argument list \<times> argument list" where
  "value_teil rsi =
     (if rsi < 30 then (90, [Oversold rsi], []) else if rsi < 40 then (70, [Near_Oversold rsi], [])
      else if 70 < rsi then (20, [], [Overbought rsi]) else (50, [], []))"

definition trend_teil :: "real \<Rightarrow> real \<times> argument list \<times> argument list" where
  "trend_teil adx =
     (if 30 < adx then (85, [Strong_Trend adx], []) else if 25 < adx then (70, [Moderate_Trend adx], [])
      else if adx < 15 then (30, [], [No_Trend adx]) else (50, [], []))"

definition momentum_teil :: "real \<Rightarrow> real \<times> argument list \<times> argument list" where
  "momentum_teil macd =
     (if 0 < macd then (60 + min 40 (\<bar>macd\<bar> * 5), [Positive_Macd macd], [])
      else (40 - min 40 (\<bar>macd\<bar> * 5), [], if 2 < \<bar>macd\<bar> then [Negative_Macd macd] else []))"

definition technical :: "(string, real) pydict \<Rightarrow> (real \<times> real \<times> real) \<times> argument list \<times> argument list" where
  "technical f =
     (if f = [] then ((50, 50, 50), [], [])
      else (let v = value_teil (feature f ''rsi_14'' 50); t = trend_teil (feature f ''adx_14'' 20);
                m = momentum_teil (feature f ''macd'' 0)
            in ((fst v, fst t, fst m), fst (snd v) @ fst (snd t) @ fst (snd m), snd (snd v) @ snd (snd t) @ snd (snd m))))"

definition action_bonus :: "int \<Rightarrow> real \<Rightarrow> real" where
  "action_bonus action factor = (if action = 1 then 15 * factor else if action = 2 then - 15 * factor else 0)"

definition opportunity_weight_sum :: real where "opportunity_weight_sum = 0.90"

text \<open>\<open>50 + confidence * points\<close>, kept between 0 and 100.\<close>

definition confidence_score :: "bool \<Rightarrow> pyfloat \<Rightarrow> real" where
  "confidence_score normalized conf =
     py_clamp 0 100 (fl_add (Fin 50) (fl_mult conf (Fin (if normalized then 50 else 10))))"

definition score_opportunity ::
  "pm_cfg option \<Rightarrow> string \<Rightarrow> real \<Rightarrow> int \<Rightarrow> pyfloat \<Rightarrow> (string, real) pydict \<Rightarrow> roh \<Rightarrow> roh \<Rightarrow> roh \<Rightarrow> candidate" where
  "score_opportunity c name price action conf features vol skew coverage =
     (let norm = fst (opportunity_score_cfg c); bonus = action_bonus action (snd (opportunity_score_cfg c));
          t = technical features; v = fst (fst t); tr = fst (snd (fst t)); m = snd (snd (fst t));
          w = v * 0.25 + tr * 0.20 + m * 0.20 + confidence_score norm conf * 0.25;
          w1 = (if norm then w / opportunity_weight_sum else w)
      in \<lparr>ca_name = name, ca_price = price, ca_action = action, ca_confidence = conf,
          ca_momentum = m, ca_value = v, ca_trend = tr, ca_total = max 0 (min 100 (w1 + bonus)),
          ca_for = fst (snd t) @ (if action = 1 \<and> bonus \<noteq> 0 then [Rl_Buy] else []),
          ca_against = snd (snd t) @ (if action = 2 \<and> bonus \<noteq> 0 then [Rl_Sell] else []),
          ca_vol = vol, ca_skew = skew, ca_coverage = coverage\<rparr>)"

section \<open>The debate\<close>

definition displacement_min_hold_days :: "pm_cfg option \<Rightarrow> real" where
  "displacement_min_hold_days c = von c (\<lambda>x. if pc_respects_hold x then pc_min_hold x else 0) 0"

definition displacement_session_cap :: "pm_cfg option \<Rightarrow> int" where
  "displacement_session_cap c = von c (\<lambda>x. max 0 (pc_swap_cap x)) 0"

text \<open>The counter of a day starts anew with the first reading on another day.\<close>

definition session_reset :: "int \<Rightarrow> pm \<Rightarrow> pm" where
  "session_reset today p = (if pm_swap_day p \<noteq> Some today then p\<lparr>pm_swap_day := Some today, pm_swaps := 0\<rparr> else p)"

definition displacement_session_budget_ok :: "int \<Rightarrow> int \<Rightarrow> pm \<Rightarrow> pm \<times> bool" where
  "displacement_session_budget_ok cap today p =
     (let p1 = session_reset today p in (p1, cap \<le> 0 \<or> pm_swaps p1 < cap))"

definition note_displacement :: "int \<Rightarrow> pm \<Rightarrow> pm" where
  "note_displacement today p = (let p1 = session_reset today p in p1\<lparr>pm_swaps := pm_swaps p1 + 1\<rparr>)"

definition debatte_protokollieren :: "debate \<Rightarrow> pm \<Rightarrow> pm" where
  "debatte_protokollieren e p =
     (let d = pm_debates p @ [e] in p\<lparr>pm_debates := (if 100 < length d then drop (length d - 100) d else d)\<rparr>)"

definition haltefrist_veto :: "candidate \<Rightarrow> position_score \<Rightarrow> real \<Rightarrow> pm \<Rightarrow> pm \<times> swap_reason option" where
  "haltefrist_veto k w hold p =
     (if 0 < hold \<and> ps_age_known w \<and> of_int (ps_days w) < hold
      then (let r = Hold_Not_Met (ps_symbol w) (ps_days w) hold
            in (debatte_protokollieren \<lparr>db_new = ca_name k, db_new_score = ca_total k, db_weakest = ps_symbol w,
                  db_weakest_score = ps_total w, db_for = [], db_against = [Veto r], db_swap = False, db_reason = r\<rparr> p, Some r))
      else (p, None))"

text \<open>The gate asked with the manager: the threshold is 0 where the configuration cannot be read.\<close>

definition consensus_retains :: "pm_cfg option \<Rightarrow> string \<Rightarrow> string \<Rightarrow> pm \<Rightarrow> bool" where
  "consensus_retains c name exit_kind p = consensus_retention_veto (von c pc_retention 0) exit_kind (get_live_consensus name p)"

definition konsens_veto :: "pm_cfg option \<Rightarrow> position_score \<Rightarrow> pm \<Rightarrow> swap_reason option" where
  "konsens_veto c w p =
     (if consensus_retains c (ps_symbol w) ''displacement'' p then Some (Consensus_Retains (ps_symbol w)) else None)"

definition argumente_dafuer :: "candidate \<Rightarrow> position_score \<Rightarrow> real \<Rightarrow> real \<Rightarrow> argument list" where
  "argumente_dafuer k w diff hold =
     ca_for k @ (if 15 < diff then [Scores_Higher diff] else [])
     @ (if ps_pnl_pct w < -5 then [Is_Down (ps_symbol w) (ps_pnl_pct w)] else [])
     @ (if (if 0 < hold then hold else 5) < of_int (ps_days w) \<and> ps_pnl_pct w < 2 then [Long_Held (ps_symbol w) (ps_days w)] else [])"

definition argumente_dagegen :: "(real \<Rightarrow> int) \<Rightarrow> real \<Rightarrow> pm \<Rightarrow> candidate \<Rightarrow> position_score \<Rightarrow> real \<Rightarrow> argument list" where
  "argumente_dagegen et_day now p k w diff =
     ca_against k @ (if diff < 10 then [Not_Compelling diff] else [])
     @ (if 5 < ps_pnl_pct w then [Is_Profitable (ps_symbol w) (ps_pnl_pct w)] else [])
     @ (if ps_days w < 1 then [Too_Fresh (ps_symbol w)] else [])
     @ (if can_trade_symbol et_day now (ps_symbol w) p then [] else [In_Cooldown_Held (ps_symbol w)])
     @ (if can_trade_symbol et_day now (ca_name k) p then [] else [In_Cooldown_New (ca_name k)])"

definition debatte_entscheid ::
  "candidate \<Rightarrow> position_score \<Rightarrow> real \<Rightarrow> argument list \<Rightarrow> argument list \<Rightarrow> bool \<times> swap_reason" where
  "debatte_entscheid k w diff dafuer dagegen =
     (if 15 < diff then (True, Strong_Upgrade (ca_name k) (ca_total k) (ps_symbol w) (ps_total w))
      else if 10 < diff \<and> length dagegen \<le> length dafuer
           then (True, Upgrade (ca_name k) (ps_symbol w) (length dafuer) (length dagegen))
      else if 8 < diff \<and> ps_pnl_pct w < -2 then (True, Cut_Loser (ps_symbol w) (ps_pnl_pct w))
      else (False, case dagegen of [] \<Rightarrow> Keep_Difference (ps_symbol w) diff | a # _ \<Rightarrow> Keep_Argument (ps_symbol w) a))"

definition debate_position_swap ::
  "pm_cfg option \<Rightarrow> (real \<Rightarrow> int) \<Rightarrow> real \<Rightarrow> candidate \<Rightarrow> position_score option \<Rightarrow> pm \<Rightarrow> pm \<times> bool \<times> swap_reason" where
  "debate_position_swap c et_day now k weakest p =
     (case weakest of
        None \<Rightarrow> (p, True, No_Positions)
      | Some w \<Rightarrow>
          (let hold = displacement_min_hold_days c
           in case haltefrist_veto k w hold p of
                (p1, Some r) \<Rightarrow> (p1, False, r)
              | (p1, None) \<Rightarrow>
                  (case konsens_veto c w p1 of
                     Some r \<Rightarrow> (p1, False, r)
                   | None \<Rightarrow>
                       (let diff = ca_total k - ps_total w; f = argumente_dafuer k w diff hold;
                            g = argumente_dagegen et_day now p1 k w diff; e = debatte_entscheid k w diff f g
                        in (debatte_protokollieren \<lparr>db_new = ca_name k, db_new_score = ca_total k, db_weakest = ps_symbol w,
                              db_weakest_score = ps_total w, db_for = f, db_against = g, db_swap = fst e, db_reason = snd e\<rparr> p1, e)))))"

section \<open>The target of a top-up\<close>

text \<open>What the admission reads besides the manager: the configurations, the cached reading of the regime, the clock.\<close>

record pf_umfeld =
  um_cfg :: "pm_cfg option"
  um_sizing :: "sizing_cfg option"
  um_num :: "string \<Rightarrow> pyfloat option"
  um_regime_cfg :: "regime_cfg option"
  um_regime_state :: "regime_state option"
  um_now :: real
  um_hold_days :: "int option"

definition utc_day :: "real \<Rightarrow> int" where
  "utc_day t = \<lfloor>t / 86400\<rfloor>"

definition regime_target_factor :: "pf_umfeld \<Rightarrow> real" where
  "regime_target_factor u = active_throttle_factor (um_num u) (um_regime_cfg u) (utc_day (um_now u)) (um_regime_state u)"

definition clean_weight_target_pct :: "sizing_cfg option \<Rightarrow> pm \<Rightarrow> candidate \<Rightarrow> real option" where
  "clean_weight_target_pct sc p k =
     (case sc of None \<Rightarrow> None
      | Some x \<Rightarrow>
          (let md = py_lower (py_strip (if sc_clean_weight x = [] then ''off'' else sc_clean_weight x));
               base = 1 / of_int (max 1 (effective_max_positions x))
           in if md \<notin> {''a'', ''b''} then None
              else (let w = (if md = ''b''
                             then base * vol_targeting_scaler x (ca_vol k) * skew_size_tilt x (ca_skew k) * coverage_size_discount x (ca_coverage k)
                             else base)
                    in Some (min w (pm_max_pct p) * 100))))"

definition topup_target_pct :: "pf_umfeld \<Rightarrow> pm \<Rightarrow> candidate \<Rightarrow> real" where
  "topup_target_pct u p k =
     (let conv = blend_conviction p (ca_name k) (Some (ca_confidence k))
      in (case clean_weight_target_pct (um_sizing u) p k of
            Some t \<Rightarrow> t | None \<Rightarrow> conviction_target_pct (um_cfg u) p conv) * regime_target_factor u)"

text \<open>The number held, the target and the band of the text.\<close>

definition topup_dead_band_reason :: "pf_umfeld \<Rightarrow> pm \<Rightarrow> candidate \<Rightarrow> (real \<times> real \<times> real) option" where
  "topup_dead_band_reason u p k =
     (case map_of (pm_scores p) (ca_name k) of
        None \<Rightarrow> None
      | Some held \<Rightarrow>
          if pm_band p \<le> 0 \<or> pm_capital p \<le> 0 then None
          else (let t = topup_target_pct u p k; cur = ps_value held / pm_capital p * 100
                in if t * (1 - pm_band p) \<le> cur then Some (cur, t, pm_band p * 100) else None))"

definition topup_gap_value :: "pf_umfeld \<Rightarrow> pm \<Rightarrow> candidate \<Rightarrow> real option" where
  "topup_gap_value u p k =
     (case map_of (pm_scores p) (ca_name k) of
        None \<Rightarrow> None
      | Some held \<Rightarrow>
          if \<not> pm_refresh_ok p \<or> pm_capital p \<le> 0 then Some 0
          else Some (max 0 (topup_target_pct u p k / 100 * pm_capital p - ps_value held)))"

text \<open>\<open>_topup_gap_capped_qty\<close> of the order path, for a manager and a readable context.\<close>

definition topup_gap_capped_qty :: "pf_umfeld \<Rightarrow> pm \<Rightarrow> candidate \<Rightarrow> real \<Rightarrow> real \<Rightarrow> real" where
  "topup_gap_capped_qty u p k price qty =
     (if qty \<le> 0 \<or> price \<le> 0 then qty
      else (case topup_gap_value u p k of
              None \<Rightarrow> qty
            | Some gap \<Rightarrow> (let g = max 0 (gap / price) in if g < qty then g else qty)))"

section \<open>The admission\<close>

datatype admission_reason =
    Order_Cooldown
  | Slot_Unverified
  | Book_Overflow nat int
  | Slot_Hold nat nat int
  | Daily_Limit
  | In_Dead_Band "real \<times> real \<times> real"
  | Room nat int
  | Score_Too_Low real
  | In_Cooldown
  | Displacement_Off
  | Session_Cap int
  | Debated swap_reason

text \<open>\<open>_slot_hold_reason\<close>, with the store of the held slots; its reading may load the store.\<close>

definition slot_hold_reason ::
  "(real \<Rightarrow> int) \<Rightarrow> pf_umfeld \<Rightarrow> candidate \<Rightarrow> pm \<Rightarrow> lockout_store \<times> lock_file \<Rightarrow> (lockout_store \<times> lock_file) \<times> admission_reason option" where
  "slot_hold_reason et_day u k p lk =
     (if map_of (pm_scores p) (ca_name k) \<noteq> None then (lk, None)
      else (let r = reserved_slots et_day (um_hold_days u) (um_now u) (dict_keys (pm_scores p)) (Some (ca_name k)) lk;
                n = length (pm_scores p)
            in (fst r, if 0 < snd r \<and> int n < pm_max_positions p \<and> pm_max_positions p \<le> int n + int (snd r)
                       then Some (Slot_Hold (snd r) n (pm_max_positions p)) else None)))"

type_synonym verdict = "bool \<times> admission_reason \<times> string option"

text \<open>The checks before the book is asked whether it has room: \<open>None\<close> goes on.\<close>

definition checks_before :: "pf_umfeld \<Rightarrow> candidate \<Rightarrow> pm \<Rightarrow> admission_reason option" where
  "checks_before u k p =
     (if within_order_cooldown (um_now u) (ca_name k) p then Some Order_Cooldown
      else if book_cap_enforced (um_cfg u) \<and> \<not> pm_refresh_ok p then Some Slot_Unverified
      else if book_cap_enforced (um_cfg u) \<and> pm_max_positions p < int (length (pm_scores p))
           then Some (Book_Overflow (length (pm_scores p)) (pm_max_positions p))
      else None)"

text \<open>Room in the book.\<close>

definition with_room :: "(real \<Rightarrow> int) \<Rightarrow> pf_umfeld \<Rightarrow> candidate \<Rightarrow> pm \<Rightarrow> verdict" where
  "with_room et_day u k p =
     (if \<not> can_trade_symbol_when_room et_day (um_now u) (ca_name k) p then (False, Daily_Limit, None)
      else if 25 \<le> ca_total k
           then (case topup_dead_band_reason u p k of
                   Some b \<Rightarrow> (False, In_Dead_Band b, None)
                 | None \<Rightarrow> (True, Room (length (pm_scores p)) (pm_max_positions p), None))
      else (False, Score_Too_Low (ca_total k), None))"

text \<open>A full book.\<close>

definition when_full :: "(real \<Rightarrow> int) \<Rightarrow> pf_umfeld \<Rightarrow> candidate \<Rightarrow> pm \<Rightarrow> pm \<times> verdict" where
  "when_full et_day u k p =
     (case topup_dead_band_reason u p k of
        Some b \<Rightarrow> (p, False, In_Dead_Band b, None)
      | None \<Rightarrow>
          if \<not> can_trade_symbol et_day (um_now u) (ca_name k) p then (p, False, In_Cooldown, None)
          else if \<not> von (um_cfg u) pc_swap_on True then (p, False, Displacement_Off, None)
          else (let cap = displacement_session_cap (um_cfg u); today = utc_day (um_now u);
                    b = displacement_session_budget_ok cap today p
                in if \<not> snd b then (fst b, False, Session_Cap cap, None)
                   else (let w = get_weakest_position (fst b);
                             d = debate_position_swap (um_cfg u) et_day (um_now u) k w (fst b)
                         in if fst (snd d)
                            then (note_displacement today (fst d), True, Debated (snd (snd d)), map_option ps_symbol w)
                            else (fst d, False, Debated (snd (snd d)), None))))"

text \<open>The answers of the broker to the refresh at its start are arguments.\<close>

definition should_open_new_position ::
  "(real \<Rightarrow> int) \<Rightarrow> pf_umfeld \<Rightarrow> konto_antwort \<Rightarrow> broker_pos list option \<Rightarrow> candidate
     \<Rightarrow> pm \<times> lockout_store \<times> lock_file \<Rightarrow> (pm \<times> lockout_store \<times> lock_file) \<times> verdict" where
  "should_open_new_position et_day u a answer k st =
     (let p = refresh_positions (um_cfg u) (um_now u) a answer (fst st)
      in case checks_before u k p of
           Some r \<Rightarrow> ((p, snd st), False, r, None)
         | None \<Rightarrow>
             (let h = slot_hold_reason et_day u k p (snd st)
              in case snd h of
                   Some r \<Rightarrow> ((p, fst h), False, r, None)
                 | None \<Rightarrow> if int (length (pm_scores p)) < pm_max_positions p
                           then ((p, fst h), with_room et_day u k p)
                           else (let f = when_full et_day u k p in ((fst f, fst h), snd f))))"

section \<open>The overfull book\<close>

text \<open>Highest rank first, equal ranks in the order of the book: the stable sort with \<open>reverse\<close>.\<close>

definition overflow_eligible :: "(string \<Rightarrow> int option) \<Rightarrow> real \<Rightarrow> (string, position_score) pydict \<Rightarrow> (int \<times> string) list" where
  "overflow_eligible rank_of min_hold scores =
     List.map_filter (\<lambda>(k, s). if of_int (ps_days s) < min_hold then None else map_option (\<lambda>r. (r, k)) (rank_of k)) scores"

definition select_overflow_unwind ::
  "(string, position_score) pydict \<Rightarrow> (string \<Rightarrow> int option) \<Rightarrow> int \<Rightarrow> real \<Rightarrow> int \<Rightarrow> string list" where
  "select_overflow_unwind scores rank_of max_positions min_hold budget =
     (let excess = int (length scores) - max_positions; el = overflow_eligible rank_of min_hold scores
      in if excess \<le> 0 \<or> budget \<le> 0 then []
         else map snd (take (nat (min excess budget)) (sort_key (\<lambda>e. - fst e) el)))"

section \<open>Lemmas\<close>

lemma regime_factor_range: "0 < regime_target_factor u \<and> regime_target_factor u \<le> 1"
  by (auto simp: regime_target_factor_def active_throttle_factor_def split: option.split)

lemma session_reset_sel [simp]:
  "pm_scores (session_reset d p) = pm_scores p" "pm_history (session_reset d p) = pm_history p"
  "pm_consensus (session_reset d p) = pm_consensus p" "pm_debates (session_reset d p) = pm_debates p"
  "pm_ewma (session_reset d p) = pm_ewma p" "pm_alpha (session_reset d p) = pm_alpha p"
  "pm_swap_day (session_reset d p) = Some d" "pm_max_positions (session_reset d p) = pm_max_positions p"
  by (simp_all add: session_reset_def)

lemma log_sel [simp]:
  "pm_scores (debatte_protokollieren e p) = pm_scores p" "pm_swap_day (debatte_protokollieren e p) = pm_swap_day p"
  "pm_swaps (debatte_protokollieren e p) = pm_swaps p" "pm_ewma (debatte_protokollieren e p) = pm_ewma p"
  "pm_alpha (debatte_protokollieren e p) = pm_alpha p" "length (pm_debates (debatte_protokollieren e p)) \<le> 100"
  by (simp_all add: debatte_protokollieren_def Let_def)

lemma debate_frame:
  "pm_scores (fst (debate_position_swap c et now k w p)) = pm_scores p"
  "pm_swap_day (fst (debate_position_swap c et now k w p)) = pm_swap_day p"
  "pm_swaps (fst (debate_position_swap c et now k w p)) = pm_swaps p"
  "pm_ewma (fst (debate_position_swap c et now k w p)) = pm_ewma p"
  "pm_alpha (fst (debate_position_swap c et now k w p)) = pm_alpha p"
  "length (pm_debates p) \<le> 100 \<Longrightarrow> length (pm_debates (fst (debate_position_swap c et now k w p))) \<le> 100"
  by (auto simp: debate_position_swap_def haltefrist_veto_def Let_def split: option.split)

text \<open>What a debate asks for before it swaps.\<close>

lemma debate_swaps:
  assumes "fst (snd (debate_position_swap c et now k (Some w) p))"
  shows "ps_total w + 8 < ca_total k"
    "displacement_min_hold_days c \<le> 0 \<or> \<not> ps_age_known w \<or> displacement_min_hold_days c \<le> of_int (ps_days w)"
    "konsens_veto c w p = None"
  using assms
  by (auto simp: debate_position_swap_def haltefrist_veto_def Let_def debatte_entscheid_def split: option.splits if_splits)

lemma full_frame: "pm_scores (fst (when_full et u k p)) = pm_scores p"
  by (simp add: when_full_def Let_def displacement_session_budget_ok_def note_displacement_def debate_frame split: option.split)

lemma full_swaps:
  assumes "fst (snd (when_full et u k p))"
  shows "snd (snd (snd (when_full et u k p))) = map_option ps_symbol (get_weakest_position p)"
    "von (um_cfg u) pc_swap_on True" "topup_dead_band_reason u p k = None" "can_trade_symbol et (um_now u) (ca_name k) p"
    "displacement_session_cap (um_cfg u) \<le> 0 \<or> pm_swaps (session_reset (utc_day (um_now u)) p) < displacement_session_cap (um_cfg u)"
    "fst (snd (debate_position_swap (um_cfg u) et (um_now u) k (get_weakest_position p) (session_reset (utc_day (um_now u)) p)))"
    "pm_swaps (fst (when_full et u k p)) = pm_swaps (session_reset (utc_day (um_now u)) p) + 1"
    "pm_swap_day (fst (when_full et u k p)) = Some (utc_day (um_now u))"
  using assms
  by (auto simp: when_full_def Let_def displacement_session_budget_ok_def get_weakest_position_def note_displacement_def debate_frame
      session_reset_def split: option.splits if_splits list.splits)

section \<open>The book and its slots\<close>

abbreviation book_names :: "pm \<Rightarrow> string set" where "book_names p \<equiv> fst ` set (pm_scores p)"

abbreviation asked ::
  "(real \<Rightarrow> int) \<Rightarrow> pf_umfeld \<Rightarrow> konto_antwort \<Rightarrow> broker_pos list option \<Rightarrow> candidate \<Rightarrow> pm \<times> lockout_store \<times> lock_file \<Rightarrow> verdict" where
  "asked et u a answer k st \<equiv> snd (should_open_new_position et u a answer k st)"

abbreviation refreshed :: "pf_umfeld \<Rightarrow> konto_antwort \<Rightarrow> broker_pos list option \<Rightarrow> pm \<times> lockout_store \<times> lock_file \<Rightarrow> pm" where
  "refreshed u a answer st \<equiv> refresh_positions (um_cfg u) (um_now u) a answer (fst st)"

text \<open>How a purchase comes to be let through: with room, or in a full book against a held name.\<close>

lemma asked_cases:
  assumes "fst (asked et u a answer k st)"
  obtains (room) "checks_before u k (refreshed u a answer st) = None" "snd (slot_hold_reason et u k (refreshed u a answer st) (snd st)) = None"
      "int (length (pm_scores (refreshed u a answer st))) < pm_max_positions (refreshed u a answer st)"
      "asked et u a answer k st = with_room et u k (refreshed u a answer st)"
      "fst (fst (should_open_new_position et u a answer k st)) = refreshed u a answer st"
  | (full) "checks_before u k (refreshed u a answer st) = None" "snd (slot_hold_reason et u k (refreshed u a answer st) (snd st)) = None"
      "pm_max_positions (refreshed u a answer st) \<le> int (length (pm_scores (refreshed u a answer st)))"
      "asked et u a answer k st = snd (when_full et u k (refreshed u a answer st))"
      "fst (fst (should_open_new_position et u a answer k st)) = fst (when_full et u k (refreshed u a answer st))"
proof -
  from assms have c: "checks_before u k (refreshed u a answer st) = None" "snd (slot_hold_reason et u k (refreshed u a answer st) (snd st)) = None"
    by (auto simp: should_open_new_position_def Let_def split: option.splits)
  show thesis
  proof (cases "int (length (pm_scores (refreshed u a answer st))) < pm_max_positions (refreshed u a answer st)")
    case True
    then show thesis using c by (intro room) (simp_all add: should_open_new_position_def Let_def)
  next
    case False
    then show thesis using c by (intro full) (simp_all add: should_open_new_position_def Let_def)
  qed
qed

lemma room_no_swap: "snd (snd (with_room et u k p)) = None"
  by (simp add: with_room_def split: option.split)

lemma konto_keeps_inv: "pm_inv p \<Longrightarrow> cfg_ok c \<Longrightarrow> dict_ok (pm_scores (refresh_positions c now a answer p))"
  using inv_refresh [of c p now a answer] by (simp add: pm_inv_def)

lemma card_names: "dict_ok d \<Longrightarrow> card (fst ` set d) = length d"
  using distinct_card [of "map fst d"] by simp

text \<open>
  C7: with the cap of the book enforced, a purchase that is let through never lets the book grow past its slots: the
  broker has just confirmed the positions, and the names after the purchase, without the one that is closed for
  it, are at most the slots of the book.
\<close>
theorem book_never_overfilled:
  assumes "fst (asked et u a answer k st)" "book_cap_enforced (um_cfg u)" "0 < pm_max_positions (refreshed u a answer st)"
    and "pm_inv (fst st)" "cfg_ok (um_cfg u)"
  shows "pm_refresh_ok (refreshed u a answer st)
    \<and> int (card (insert (ca_name k) (book_names (refreshed u a answer st)) - set_option (snd (snd (asked et u a answer k st)))))
      \<le> pm_max_positions (refreshed u a answer st)"
proof -
  let ?p = "refreshed u a answer st"
  have inv: "pm_inv ?p" by (rule inv_refresh) (use assms in auto)
  have card: "card (book_names ?p) = length (pm_scores ?p)" by (rule card_names) (use inv in \<open>simp add: pm_inv_def\<close>)
  show ?thesis using assms(1)
  proof (cases rule: asked_cases)
    case room
    have "card (insert (ca_name k) (book_names ?p)) \<le> Suc (length (pm_scores ?p))"
      using card card_insert_if [of "book_names ?p" "ca_name k"] by (simp split: if_splits)
    then show ?thesis using room assms(2) by (auto simp: checks_before_def room_no_swap split: if_splits)
  next
    case full
    have c: "pm_refresh_ok ?p" "int (length (pm_scores ?p)) = pm_max_positions ?p"
      using full assms(2) by (auto simp: checks_before_def split: if_splits)
    with assms(3) obtain w where w: "get_weakest_position ?p = Some w" by (metis length_0_conv neq0_conv of_nat_0 option.exhaust weakest_None less_irrefl)
    have "ps_symbol w \<in> book_names ?p" using weakest_least [OF w] inv by (force simp: pm_inv_def score_ok_def)
    moreover have "snd (snd (asked et u a answer k st)) = Some (ps_symbol w)"
      using full assms(1) full_swaps(1) [of et u k ?p] w by simp
    moreover have "card (insert (ca_name k) (book_names ?p) - {ps_symbol w}) \<le> card (book_names ?p)"
      if "ps_symbol w \<in> book_names ?p"
    proof -
      have "card (insert (ca_name k) (book_names ?p) - {ps_symbol w}) \<le> card (insert (ca_name k) (book_names ?p)) - 1"
        using that by (simp add: card_Diff_singleton)
      moreover have "card (insert (ca_name k) (book_names ?p)) \<le> Suc (card (book_names ?p))"
        by (simp add: card_insert_le_m1 card_insert_if)
      ultimately show ?thesis by linarith
    qed
    ultimately show ?thesis using c card by simp
  qed
qed

definition bsp_pf_cfg :: pm_cfg where
  "bsp_pf_cfg = \<lparr>pc_book_cap = True, pc_current_lot = False, pc_fresh = 30, pc_span = 0, pc_normalized = True, pc_rl_weight = 0,
     pc_respects_hold = True, pc_min_hold = 20, pc_swap_cap = 2, pc_swap_on = True, pc_retention = 0, pc_max_sizing = 0.30\<rparr>"

definition bsp_umfeld :: pf_umfeld where
  "bsp_umfeld = \<lparr>um_cfg = Some bsp_pf_cfg, um_sizing = None, um_num = (\<lambda>_. None), um_regime_cfg = None, um_regime_state = None,
     um_now = 0, um_hold_days = None\<rparr>"

definition bsp_kandidat :: "string \<Rightarrow> candidate" where
  "bsp_kandidat name = \<lparr>ca_name = name, ca_price = 10, ca_action = 1, ca_confidence = Fin 1, ca_momentum = 100, ca_value = 90,
     ca_trend = 85, ca_total = 95, ca_for = [], ca_against = [], ca_vol = R_None, ca_skew = R_None, ca_coverage = R_None\<rparr>"

definition bsp_manager :: "int \<Rightarrow> pm \<times> lockout_store \<times> lock_file" where
  "bsp_manager n = (PortfolioManager None 100000 n, ReentryLockout True, No_File)"

lemmas bsp_pf_defs = bsp_pf_cfg_def bsp_umfeld_def bsp_kandidat_def bsp_manager_def PortfolioManager_def werte_ersatz_def bsp_pos_def

lemma bsp_refreshed:
  "refreshed bsp_umfeld Kein_Konto (Some [bsp_pos]) (bsp_manager n) =
    (PortfolioManager None 100000 n)\<lparr>pm_seen := True, pm_refresh_ok := True, pm_scores := [(''A'', \<lparr>ps_symbol = ''A'', ps_qty = 1, ps_avg_entry = 10,
      ps_price = 11, ps_value = 11, ps_pnl = 1, ps_pnl_pct = 10, ps_momentum = 100, ps_conviction = 50, ps_risk_adjusted = 100,
      ps_holding = 30, ps_total = 76, ps_days = 0, ps_age_known = False\<rparr>)]\<rparr>"
  by (simp add: bsp_pf_defs refresh_positions_def Let_def nimm_position_def haltedauer_def calculate_position_scores_def
      holding_period_cfg_def holding_period_score_def von_def or_default_def geschlossene_entfernen_def dict_keys_def konto_abgleich_def
      lot_uhr_aktiv_def)

text \<open>One name is held, a candidate with a higher score comes: with room it is let through, in a full book it displaces.\<close>

lemma bsp_asked:
  "asked et bsp_umfeld Kein_Konto (Some [bsp_pos]) (bsp_kandidat ''B'') (bsp_manager 2) = (True, Room 1 2, None)"
  unfolding should_open_new_position_def bsp_refreshed fst_conv
  by (simp add: bsp_refreshed bsp_pf_defs checks_before_def within_order_cooldown_def book_cap_enforced_def von_def slot_hold_reason_def
      reserved_slots_def with_room_def can_trade_symbol_when_room_def topup_dead_band_reason_def Let_def)

lemma bsp_sound: "pm_inv (fst (bsp_manager n))" "cfg_ok (um_cfg bsp_umfeld)" "book_cap_enforced (um_cfg bsp_umfeld)"
  by (simp_all add: pm_inv_def cfg_ok_def book_cap_enforced_def von_def bsp_pf_defs)

lemma book_never_overfilled_witness:
  "int (card (insert ''B'' (book_names (refreshed bsp_umfeld Kein_Konto (Some [bsp_pos]) (bsp_manager 2))))) \<le> 2"
  using book_never_overfilled [of "\<lambda>_. 0" bsp_umfeld Kein_Konto "Some [bsp_pos]" "bsp_kandidat ''B''" "bsp_manager 2"]
  unfolding bsp_asked bsp_refreshed using bsp_sound by (simp add: bsp_kandidat_def PortfolioManager_def)

text \<open>
  C9: a purchase that is let through by closing a held name closes the weakest of the book, scores more than eight
  points above it, and that name is neither younger than the holding period, where its age is known, nor retained by
  the consensus; displacement is switched on and the count of the day was below its cap.
\<close>
theorem swap_is_justified:
  assumes "fst (asked et u a answer k st)" "snd (snd (asked et u a answer k st)) = Some v"
  shows "\<exists>w. get_weakest_position (refreshed u a answer st) = Some w \<and> ps_symbol w = v
    \<and> (\<forall>s \<in> snd ` set (pm_scores (refreshed u a answer st)). ps_total w \<le> ps_total s) \<and> ps_total w + 8 < ca_total k
    \<and> (displacement_min_hold_days (um_cfg u) \<le> 0 \<or> (if ps_age_known w then displacement_min_hold_days (um_cfg u) \<le> of_int (ps_days w) else True))
    \<and> konsens_veto (um_cfg u) w (refreshed u a answer st) = None \<and> von (um_cfg u) pc_swap_on True
    \<and> (displacement_session_cap (um_cfg u) \<le> 0
        \<or> pm_swaps (session_reset (utc_day (um_now u)) (refreshed u a answer st)) < displacement_session_cap (um_cfg u))"
  using assms(1)
proof (cases rule: asked_cases)
  case room
  with assms(2) show ?thesis by (simp add: room_no_swap)
next
  case full
  let ?p = "refreshed u a answer st"
  have f: "fst (snd (when_full et u k ?p))" using full assms(1) by simp
  note s = full_swaps [OF f]
  from s(1) full assms(2) obtain w where w: "get_weakest_position ?p = Some w" "ps_symbol w = v" by auto
  have v: "konsens_veto c w (session_reset d p) = konsens_veto c w p" for c d p
    by (simp add: konsens_veto_def consensus_retains_def consensus_retention_veto_def get_live_consensus_def)
  have "fst (snd (debate_position_swap (um_cfg u) et (um_now u) k (Some w) (session_reset (utc_day (um_now u)) ?p)))" using s(6) w by simp
  note d = debate_swaps [OF this]
  show ?thesis
    by (rule exI [of _ w]) (use w d s(2,5) weakest_least [OF w(1)] v in auto)
qed

text \<open>
  A name that is held is displaced by its own top-up: in a full book the weakest name is closed for the candidate,
  and the candidate may be that name.
\<close>

theorem may_displace_itself:
  "asked et bsp_umfeld Kein_Konto (Some [bsp_pos]) (bsp_kandidat ''A'') (bsp_manager 1)
     = (True, Debated (Strong_Upgrade ''A'' 95 ''A'' 76), Some ''A'')"
  unfolding should_open_new_position_def bsp_refreshed fst_conv
  by (simp add: bsp_refreshed bsp_pf_defs checks_before_def within_order_cooldown_def book_cap_enforced_def von_def slot_hold_reason_def
      when_full_def can_trade_symbol_def can_trade_symbol_when_room_def topup_dead_band_reason_def topup_target_pct_def
      clean_weight_target_pct_def conviction_target_pct_def blend_conviction_def regime_target_factor_def active_throttle_factor_def
      displacement_session_budget_ok_def displacement_session_cap_def session_reset_def get_weakest_position_def
      debate_position_swap_def haltefrist_veto_def konsens_veto_def consensus_retains_def consensus_retention_veto_def debatte_entscheid_def valid_topup_band_rel_def Let_def)

lemma swap_is_justified_witness:
  "\<exists>w. get_weakest_position (refreshed bsp_umfeld Kein_Konto (Some [bsp_pos]) (bsp_manager 1)) = Some w \<and> ps_symbol w = ''A''"
  using swap_is_justified [of "\<lambda>_. 0" bsp_umfeld Kein_Konto "Some [bsp_pos]" "bsp_kandidat ''A''" "bsp_manager 1" "''A''"]
  unfolding may_displace_itself by auto

section \<open>A confidence that is no number\<close>

lemma confidence_range: "0 \<le> confidence_score b conf \<and> confidence_score b conf \<le> 100" "confidence_score b NaN = 100"
  by (simp_all add: confidence_score_def py_clamp_range)

text \<open>A candidate whose model confidence is no number scores at least as high as with any other confidence.\<close>

theorem nan_scores_best:
  "ca_total (score_opportunity c name price action conf features vol skew coverage)
   \<le> ca_total (score_opportunity c name price action NaN features vol skew coverage)"
proof -
  let ?n = "fst (opportunity_score_cfg c)"
  have c: "confidence_score b conf \<le> confidence_score b NaN" for b using confidence_range(1) [of b conf] confidence_range(2) [of b] by simp
  have clamp: "x \<le> y \<Longrightarrow> max 0 (min 100 x) \<le> max 0 (min 100 (y :: real))" for x y by simp
  show ?thesis
  proof (cases ?n)
    case True
    then show ?thesis using c [of True] by (simp only: score_opportunity_def Let_def candidate.simps opportunity_weight_sum_def if_True) (rule clamp, simp)
  next
    case False
    then show ?thesis using c [of False] by (simp only: score_opportunity_def Let_def candidate.simps if_False) (rule clamp, simp)
  qed
qed

end
