(* ===== verification/Portfolio_Runs.thy ===== *)
theory Portfolio_Runs
  imports Portfolio_Admission
begin

text \<open>
  The portfolio manager over any sequence of its operations and of requests for admission: what stays in range and
  how often a day displaces; the top-up and its band; the choice of what leaves an overfull book.
\<close>

section \<open>Runs\<close>

datatype pf_event = Pm pm_event | Ask konto_antwort "broker_pos list option" candidate

text \<open>The last component says whether a displacement was decided.\<close>

fun pf_step :: "(real \<Rightarrow> int) \<Rightarrow> pf_umfeld \<Rightarrow> pf_event \<Rightarrow> pm \<times> lockout_store \<times> lock_file \<Rightarrow> (pm \<times> lockout_store \<times> lock_file) \<times> bool" where
  "pf_step et u (Pm e) st = ((pm_step (um_cfg u) (um_now u) e (fst st), snd st), False)"
| "pf_step et u (Ask a answer k) st =
     (let r = should_open_new_position et u a answer k st
      in (fst r, fst (snd r) \<and> (case fst (snd (snd r)) of Debated _ \<Rightarrow> True | _ \<Rightarrow> False)))"

text \<open>The state at the end and the days of the displacements.\<close>

fun pf_run :: "(real \<Rightarrow> int) \<Rightarrow> (pf_umfeld \<times> pf_event) list \<Rightarrow> pm \<times> lockout_store \<times> lock_file \<Rightarrow> (pm \<times> lockout_store \<times> lock_file) \<times> int list" where
  "pf_run et [] st = (st, [])"
| "pf_run et ((u, e) # es) st =
     (let s = pf_step et u e st; r = pf_run et es (fst s)
      in (fst r, if snd s then utc_day (um_now u) # snd r else snd r))"

lemma pf_run_append:
  "fst (pf_run et (xs @ ys) st) = fst (pf_run et ys (fst (pf_run et xs st)))"
  "snd (pf_run et (xs @ ys) st) = snd (pf_run et xs st) @ snd (pf_run et ys (fst (pf_run et xs st)))"
proof (induction xs arbitrary: st)
  case (Cons x xs)
  { case 1 show ?case using Cons(1) by (cases x) (simp add: Let_def) }
  { case 2 show ?case using Cons(2) by (cases x) (simp add: Let_def) }
qed simp_all

section \<open>What stays in range\<close>

lemma inv_log [simp]: "pm_inv p \<Longrightarrow> pm_inv (debatte_protokollieren e p)"
  by (simp add: pm_inv_def debatte_protokollieren_def Let_def)

lemma inv_debate: "pm_inv p \<Longrightarrow> pm_inv (fst (debate_position_swap c et now k w p))"
  by (simp add: pm_inv_def debate_frame)

lemma inv_reset [simp]: "pm_inv (session_reset d p) = pm_inv p"
  by (simp add: pm_inv_def)

lemma inv_note: "pm_inv p \<Longrightarrow> pm_inv (note_displacement d p)"
  using inv_reset [of d p] by (simp add: note_displacement_def Let_def pm_inv_def)

lemma inv_full: "pm_inv p \<Longrightarrow> pm_inv (fst (when_full et u k p))"
  by (simp add: when_full_def Let_def displacement_session_budget_ok_def inv_note inv_debate split: option.split)

lemma inv_asked: "cfg_ok (um_cfg u) \<Longrightarrow> pm_inv (fst st) \<Longrightarrow> pm_inv (fst (fst (should_open_new_position et u a answer k st)))"
  using inv_refresh [of "um_cfg u" "fst st" "um_now u" a answer] inv_full
  by (auto simp: should_open_new_position_def Let_def split: option.split)

lemma inv_run:
  "list_all (\<lambda>(u, e). cfg_ok (um_cfg u)) es \<Longrightarrow> pm_inv (fst st) \<Longrightarrow> pm_inv (fst (fst (pf_run et es st)))"
proof (induction es arbitrary: st)
  case (Cons x es)
  obtain u e where x: "x = (u, e)" by (cases x)
  have "pm_inv (fst (fst (pf_step et u e st)))"
    using Cons.prems by (cases e) (simp_all add: x inv_step inv_asked Let_def)
  then show ?case using Cons by (simp add: x Let_def)
qed simp

text \<open>
  C18: over any operations, requests and answers of the broker every score in the book stays between 0 and 100 under its
  own name, every smoothed conviction between 0 and 1, and the debate history at its last hundred lines.
\<close>
theorem manager_stays_sound:
  assumes "list_all (\<lambda>(u, e). cfg_ok (um_cfg u)) es" "0 \<le> pm_alpha (PortfolioManager w capital n)" "pm_alpha (PortfolioManager w capital n) \<le> 1"
  shows "pm_inv (fst (fst (pf_run et es (PortfolioManager w capital n, lk))))"
  by (rule inv_run [OF assms(1)]) (use assms(2,3) in \<open>simp add: pm_inv_def PortfolioManager_def Let_def\<close>)

lemma manager_stays_sound_witness:
  "pm_inv (fst (fst (pf_run (\<lambda>_. 0) [(bsp_umfeld, Ask Kein_Konto (Some [bsp_pos]) (bsp_kandidat ''B''))] (PortfolioManager None 1000 1, ReentryLockout True, No_File))))"
  using manager_stays_sound [of "[(bsp_umfeld, Ask Kein_Konto (Some [bsp_pos]) (bsp_kandidat ''B''))]" None 1000 1] bsp_sound(2)
  by (simp add: PortfolioManager_def werte_ersatz_def)

section \<open>Displacements of a day\<close>

lemma swap_frame_konto: "pm_swap_day (konto_abgleich c a p) = pm_swap_day p" "pm_swaps (konto_abgleich c a p) = pm_swaps p"
  by (cases a; simp add: konto_abgleich_def Let_def)+

lemma swap_frame_nimm: "pm_swap_day (nimm_position c now lot first prior w p) = pm_swap_day p"
  "pm_swaps (nimm_position c now lot first prior w p) = pm_swaps p"
  by (cases w; simp add: nimm_position_def Let_def)+

lemma swap_frame_loop: "pm_swap_day (fst (refresh_loop c now lot first prior bs p)) = pm_swap_day p"
  "pm_swaps (fst (refresh_loop c now lot first prior bs p)) = pm_swaps p"
  by (induction bs arbitrary: p) (simp_all add: swap_frame_nimm split: option.split)

lemma swap_frame_entferne: "pm_swap_day (fold entferne ks p) = pm_swap_day p" "pm_swaps (fold entferne ks p) = pm_swaps p"
  by (induction ks arbitrary: p) (simp_all add: entferne_def clear_conviction_def)

lemma swap_frame_refresh: "pm_swap_day (refresh_positions c now a answer p) = pm_swap_day p"
  "pm_swaps (refresh_positions c now a answer p) = pm_swaps p"
proof -
  have "pm_swap_day (refresh_positions c now a answer p) = pm_swap_day p \<and> pm_swaps (refresh_positions c now a answer p) = pm_swaps p"
  proof (cases answer)
    case (Some bs)
    let ?l = "refresh_loop c now (lot_uhr_aktiv c) (\<not> pm_seen p) (dict_keys (pm_scores (konto_abgleich c a p))) bs (konto_abgleich c a p\<lparr>pm_seen := True\<rparr>)"
    obtain p2 ok where l: "?l = (p2, ok)" by fastforce
    have "pm_swap_day (fst ?l) = pm_swap_day p" "pm_swaps (fst ?l) = pm_swaps p"
      by (simp_all add: swap_frame_loop swap_frame_konto)
    then show ?thesis using Some l
      by (simp add: refresh_positions_def Let_def geschlossene_entfernen_def swap_frame_entferne)
  qed (simp add: refresh_positions_def swap_frame_konto)
  then show "pm_swap_day (refresh_positions c now a answer p) = pm_swap_day p"
    "pm_swaps (refresh_positions c now a answer p) = pm_swaps p" by auto
qed

lemma swap_frame_step: "pm_swap_day (pm_step c now e p) = pm_swap_day p \<and> pm_swaps (pm_step c now e p) = pm_swaps p"
  by (cases e) (simp_all add: swap_frame_refresh record_pm_trade_def update_position_conviction_def set_live_consensus_def record_sell_signal_def
      reset_sell_signals_def clear_sell_signals_after_sale_def update_total_capital_def Let_def split: option.split pyfloat.split)

text \<open>What a day has used.\<close>

definition used :: "pm \<Rightarrow> int \<Rightarrow> int" where
  "used p d = (if pm_swap_day p = Some d then pm_swaps p else 0)"

lemma used_reset [simp]: "pm_swaps (session_reset d p) = used p d"
  by (simp add: session_reset_def used_def)

lemma used_full_idle:
  assumes "\<not> fst (snd (when_full et u k p))"
  shows "used (fst (when_full et u k p)) (utc_day (um_now u)) = used p (utc_day (um_now u))"
proof -
  have r: "used (session_reset d q) d = used q d" for d q by (simp add: used_def session_reset_def)
  have g: "used (fst (debate_position_swap c et now k w q)) d = used q d" for c now w q d by (simp add: used_def debate_frame)
  show ?thesis using assms by (auto simp: when_full_def Let_def displacement_session_budget_ok_def r g split: option.splits if_splits)
qed

lemma ask_days:
  assumes "pf_step et u e st = (st', b)"
  shows "used (fst st') (utc_day (um_now u)) = used (fst st) (utc_day (um_now u)) + (if b then 1 else 0)"
    "b \<Longrightarrow> displacement_session_cap (um_cfg u) \<le> 0 \<or> used (fst st) (utc_day (um_now u)) < displacement_session_cap (um_cfg u)"
proof -
  let ?d = "utc_day (um_now u)"
  have ref: "used (refresh_positions c now a answer p) d = used p d" for c now a answer p d by (simp add: used_def swap_frame_refresh)
  have "used (fst st') ?d = used (fst st) ?d + (if b then 1 else 0)
    \<and> (b \<longrightarrow> displacement_session_cap (um_cfg u) \<le> 0 \<or> used (fst st) ?d < displacement_session_cap (um_cfg u))"
  proof (cases e)
    case (Pm x)
    then show ?thesis using assms swap_frame_step [of "um_cfg u" "um_now u" x "fst st"] by (auto simp: used_def)
  next
    case (Ask a answer k)
    let ?p = "refreshed u a answer st"
    let ?r = "should_open_new_position et u a answer k st"
    have st': "st' = fst ?r" "b = (fst (snd ?r) \<and> (case fst (snd (snd ?r)) of Debated _ \<Rightarrow> True | _ \<Rightarrow> False))"
      using assms Ask by (simp_all add: Let_def)
    have room: "\<not> (case fst (snd (with_room et u k ?p)) of Debated _ \<Rightarrow> True | _ \<Rightarrow> False)"
      by (simp add: with_room_def split: option.split)
    have deb: "(fst (snd (when_full et u k ?p)) \<and> (case fst (snd (snd (when_full et u k ?p))) of Debated _ \<Rightarrow> True | _ \<Rightarrow> False))
        = fst (snd (when_full et u k ?p))"
      by (auto simp: when_full_def Let_def split: option.splits if_splits)
    have "(fst st' = ?p \<and> \<not> b) \<or> (fst st' = fst (when_full et u k ?p) \<and> b = fst (snd (when_full et u k ?p)))"
    proof (cases "checks_before u k ?p = None \<and> snd (slot_hold_reason et u k ?p (snd st)) = None")
      case True
      then show ?thesis unfolding st' should_open_new_position_def Let_def using room deb by simp
    next
      case False
      then show ?thesis unfolding st' should_open_new_position_def Let_def by (auto split: option.split)
    qed
    then consider (stop) "fst st' = ?p" "\<not> b" | (full) "fst st' = fst (when_full et u k ?p)" "b = fst (snd (when_full et u k ?p))" by blast
    then show ?thesis
    proof cases
      case stop
      then show ?thesis by (simp add: ref)
    next
      case full
      show ?thesis
      proof (cases b)
        case True
        note s = full_swaps [of et u k ?p]
        have "used (fst st') ?d = used ?p ?d + 1" using full True s(7,8) by (simp add: used_def)
        then show ?thesis using full True s(5) by (auto simp: ref)
      next
        case False
        then show ?thesis using full used_full_idle [of et u k ?p] by (simp add: ref)
      qed
    qed
  qed
  then show "used (fst st') ?d = used (fst st) ?d + (if b then 1 else 0)"
    "b \<Longrightarrow> displacement_session_cap (um_cfg u) \<le> 0 \<or> used (fst st) ?d < displacement_session_cap (um_cfg u)" by auto
qed

abbreviation event_day :: "pf_umfeld \<times> pf_event \<Rightarrow> int" where "event_day x \<equiv> utc_day (um_now (fst x))"

lemma run_days: "set (snd (pf_run et es st)) \<subseteq> event_day ` set es"
proof (induction es arbitrary: st)
  case (Cons x es)
  obtain u e where x: "x = (u, e)" by (cases x)
  show ?case using Cons [of "fst (pf_step et u e st)"] by (auto simp: x Let_def)
qed simp

lemma swap_budget:
  assumes "0 < cap" "list_all (\<lambda>x. displacement_session_cap (um_cfg (fst x)) = cap) es" "sorted (map event_day es)"
    and "\<forall>x \<in> set es. d \<le> event_day x"
  shows "int (count_list (snd (pf_run et es st)) d) \<le> max 0 (cap - used (fst st) d)"
  using assms(2-4)
proof (induction es arbitrary: st)
  case (Cons x es)
  obtain u e where x: "x = (u, e)" by (cases x)
  obtain st' b where s: "pf_step et u e st = (st', b)" by fastforce
  have cap: "displacement_session_cap (um_cfg u) = cap" "list_all (\<lambda>x. displacement_session_cap (um_cfg (fst x)) = cap) es"
    using Cons.prems(1) by (simp_all add: x)
  show ?case
  proof (cases "utc_day (um_now u) = d")
    case True
    have ih: "int (count_list (snd (pf_run et es st')) d) \<le> max 0 (cap - used (fst st') d)"
      using Cons.IH [OF cap(2)] Cons.prems by auto
    show ?thesis using ih ask_days [OF s] assms(1) cap(1) True by (auto simp: x s Let_def)
  next
    case False
    then have "\<forall>y \<in> set (x # es). d < event_day y" using Cons.prems by (force simp: x)
    then have "d \<notin> set (snd (pf_run et (x # es) st))" using run_days [of et "x # es" st] by force
    then show ?thesis by (simp add: count_list_0_iff)
  qed
qed simp

lemma used_nonneg_ctor: "used (PortfolioManager w capital n) d = 0"
  by (simp add: used_def PortfolioManager_def Let_def)

lemma used_step: "0 \<le> pm_swaps (fst st) \<Longrightarrow> 0 \<le> pm_swaps (fst (fst (pf_step et u e st)))"
proof (cases e)
  case (Pm x)
  then show "0 \<le> pm_swaps (fst st) \<Longrightarrow> ?thesis" using swap_frame_step by simp
next
  case (Ask a answer k)
  assume "0 \<le> pm_swaps (fst st)"
  then have r: "0 \<le> pm_swaps (session_reset d (refreshed u a answer st))" for d by (simp add: used_def swap_frame_refresh)
  have "0 \<le> pm_swaps (refreshed u a answer st)" using \<open>0 \<le> pm_swaps (fst st)\<close> by (simp add: swap_frame_refresh)
  moreover have "0 \<le> pm_swaps (fst (when_full et u k (refreshed u a answer st)))"
    using r calculation
    by (auto simp: when_full_def Let_def displacement_session_budget_ok_def note_displacement_def debate_frame session_reset_def split: option.split)
  ultimately show ?thesis using Ask by (auto simp: should_open_new_position_def Let_def split: option.split)
qed

lemma used_run: "0 \<le> pm_swaps (fst st) \<Longrightarrow> 0 \<le> pm_swaps (fst (fst (pf_run et es st)))"
proof (induction es arbitrary: st)
  case (Cons x es)
  then show ?case using used_step by (cases x) (simp add: Let_def)
qed simp

lemma used_nonneg: "0 \<le> pm_swaps p \<Longrightarrow> 0 \<le> used p d"
  by (simp add: used_def)

text \<open>
  C8: with a cap on the displacements of a session, no UTC day decides more of them, over any operations and requests in
  the order of the clock.
\<close>
theorem displacements_capped:
  assumes "0 < cap" "list_all (\<lambda>x. displacement_session_cap (um_cfg (fst x)) = cap) es" "sorted (map event_day es)"
  shows "int (count_list (snd (pf_run et es (PortfolioManager w capital n, lk))) d) \<le> cap"
proof -
  let ?a = "takeWhile (\<lambda>x. event_day x < d) es"
  let ?b = "dropWhile (\<lambda>x. event_day x < d) es"
  let ?st = "(PortfolioManager w capital n, lk)"
  have es: "?a @ ?b = es" by simp
  have "d \<notin> set (snd (pf_run et ?a ?st))" using run_days [of et ?a ?st] by (force dest: set_takeWhileD)
  then have a: "count_list (snd (pf_run et ?a ?st)) d = 0" by (simp add: count_list_0_iff)
  have sb: "sorted (map event_day ?b)"
    using assms(3) es by (metis map_append sorted_append)
  have late: "\<forall>x \<in> set ?b. d \<le> event_day x"
  proof (cases ?b)
    case Nil
    then show ?thesis by (metis empty_iff list.set(1))
  next
    case (Cons y ys)
    then have "d \<le> event_day y" using hd_dropWhile [of "\<lambda>x. event_day x < d" es] by simp
    then show ?thesis using Cons sb by force
  qed
  have "list_all (\<lambda>x. displacement_session_cap (um_cfg (fst x)) = cap) ?b"
    using assms(2) es by (metis list_all_append)
  from swap_budget [OF assms(1) this sb late, of et "fst (pf_run et ?a ?st)"]
  have "int (count_list (snd (pf_run et ?b (fst (pf_run et ?a ?st)))) d) \<le> max 0 (cap - used (fst (fst (pf_run et ?a ?st))) d)" .
  also have "\<dots> \<le> cap"
    using assms(1) used_nonneg [OF used_run, of ?st et ?a d] by (simp add: PortfolioManager_def Let_def)
  finally have "int (count_list (snd (pf_run et ?b (fst (pf_run et ?a ?st)))) d) \<le> cap" .
  then show ?thesis using pf_run_append(2) [of et ?a ?b ?st] a by simp
qed

lemma displacements_capped_witness:
  "int (count_list (snd (pf_run (\<lambda>_. 0) [(bsp_umfeld, Ask Kein_Konto (Some [bsp_pos]) (bsp_kandidat ''B''))]
     (PortfolioManager None 1000 1, ReentryLockout True, No_File))) 0) \<le> 2"
  using displacements_capped [of 2 "[(bsp_umfeld, Ask Kein_Konto (Some [bsp_pos]) (bsp_kandidat ''B''))]"]
  by (simp add: displacement_session_cap_def von_def bsp_umfeld_def bsp_pf_cfg_def)

section \<open>The top-up\<close>

lemma target_le_cap:
  assumes "0 \<le> pm_max_pct p"
  shows "topup_target_pct u p k \<le> pm_max_pct p * 100"
proof -
  let ?t = "case clean_weight_target_pct (um_sizing u) p k of
      Some t \<Rightarrow> t | None \<Rightarrow> conviction_target_pct (um_cfg u) p (blend_conviction p (ca_name k) (Some (ca_confidence k)))"
  have le: "?t \<le> pm_max_pct p * 100"
    by (auto simp: clean_weight_target_pct_def conviction_target_pct_def Let_def split: option.split)
  note r = regime_factor_range [of u]
  have "?t * regime_target_factor u \<le> pm_max_pct p * 100 * regime_target_factor u" using le r by (intro mult_right_mono) auto
  also have "\<dots> \<le> pm_max_pct p * 100" using assms r mult_left_mono [of "regime_target_factor u" 1 "pm_max_pct p * 100"] by simp
  finally show ?thesis by (simp add: topup_target_pct_def)
qed

text \<open>
  C10: a purchase of a held name, cut to its gap, never takes the position past its target, nor past the cap of a
  position; a name above its target or a book that is not confirmed buys nothing.
\<close>
theorem topup_never_past_target:
  assumes "map_of (pm_scores p) (ca_name k) = Some held" "0 < price" "0 < qty" "0 < pm_capital p" "0 \<le> pm_max_pct p"
  shows "0 \<le> topup_gap_capped_qty u p k price qty \<and> topup_gap_capped_qty u p k price qty \<le> qty
    \<and> ps_value held + topup_gap_capped_qty u p k price qty * price \<le> max (ps_value held) (topup_target_pct u p k / 100 * pm_capital p)
    \<and> ps_value held + topup_gap_capped_qty u p k price qty * price \<le> max (ps_value held) (pm_max_pct p * pm_capital p)
    \<and> (if pm_refresh_ok p then True else topup_gap_capped_qty u p k price qty = 0)"
proof -
  obtain gap where gap: "topup_gap_value u p k = Some gap" "0 \<le> gap" "gap \<le> max 0 (topup_target_pct u p k / 100 * pm_capital p - ps_value held)"
    "\<not> pm_refresh_ok p \<Longrightarrow> gap = 0"
    using assms(1,4) that [of 0] that [of "max 0 (topup_target_pct u p k / 100 * pm_capital p - ps_value held)"]
    by (cases "pm_refresh_ok p") (simp_all add: topup_gap_value_def)
  have q: "topup_gap_capped_qty u p k price qty = min qty (gap / price)"
    using gap(1,2) assms(2,3) by (auto simp: topup_gap_capped_qty_def Let_def min_def)
  have c: "topup_target_pct u p k / 100 * pm_capital p \<le> pm_max_pct p * pm_capital p"
    using target_le_cap [OF assms(5), of u k] assms(4) by (simp add: mult_right_mono)
  have "min qty (gap / price) * price \<le> gap / price * price" using assms(2) by (intro mult_right_mono) auto
  then have b: "min qty (gap / price) * price \<le> gap" using assms(2) by simp
  have "ps_value held + min qty (gap / price) * price \<le> max (ps_value held) (topup_target_pct u p k / 100 * pm_capital p)"
    using b gap(3) by linarith
  moreover from this c have "ps_value held + min qty (gap / price) * price \<le> max (ps_value held) (pm_max_pct p * pm_capital p)" by linarith
  ultimately show ?thesis using gap(2,4) assms(2,3) by (auto simp: q)
qed

definition bsp_buch :: pm where
  "bsp_buch = (PortfolioManager None 1000 10)\<lparr>pm_refresh_ok := True, pm_scores := [(''A'', \<lparr>ps_symbol = ''A'', ps_qty = 1, ps_avg_entry = 100,
     ps_price = 100, ps_value = 100, ps_pnl = 0, ps_pnl_pct = 0, ps_momentum = 50, ps_conviction = 50, ps_risk_adjusted = 50,
     ps_holding = 30, ps_total = 46, ps_days = 0, ps_age_known = False\<rparr>)]\<rparr>"

lemma topup_never_past_target_witness: "topup_gap_capped_qty bsp_umfeld bsp_buch (bsp_kandidat ''A'') 10 100 \<le> 100"
  using topup_never_past_target [of bsp_buch "bsp_kandidat ''A''" _ 10 100 bsp_umfeld]
  by (simp add: bsp_buch_def bsp_kandidat_def PortfolioManager_def werte_ersatz_def)

text \<open>
  the band and the gap agree: a held name is inside its band exactly when its gap is at most the band's part of
  its target, so a purchase that is let through always has a gap worth buying.
\<close>
theorem band_matches_gap:
  assumes "map_of (pm_scores p) (ca_name k) = Some held" "0 < pm_capital p" "0 < pm_band p" "pm_refresh_ok p" "0 < topup_target_pct u p k"
  shows "(topup_dead_band_reason u p k = None)
    = (pm_band p * (topup_target_pct u p k / 100 * pm_capital p) < the (topup_gap_value u p k))"
proof -
  let ?t = "topup_target_pct u p k"
  have t: "0 < ?t / 100 * pm_capital p" using assms(2,5) by simp
  have "(topup_dead_band_reason u p k = None) = (ps_value held / pm_capital p * 100 < ?t * (1 - pm_band p))"
    using assms by (auto simp: topup_dead_band_reason_def Let_def)
  also have "\<dots> = (ps_value held < ?t * (1 - pm_band p) / 100 * pm_capital p)" using assms(2) by (simp add: field_simps)
  also have "\<dots> = (pm_band p * (?t / 100 * pm_capital p) < ?t / 100 * pm_capital p - ps_value held)"
    by (simp add: algebra_simps diff_divide_distrib)
  also have "\<dots> = (pm_band p * (?t / 100 * pm_capital p) < max 0 (?t / 100 * pm_capital p - ps_value held))"
    unfolding less_max_iff_disj using mult_pos_pos [OF assms(3) t] by linarith
  finally show ?thesis using assms by (simp add: topup_gap_value_def)
qed

lemma band_matches_gap_witness:
  "(topup_dead_band_reason bsp_umfeld bsp_buch (bsp_kandidat ''A'') = None) = (1/4 * (1/4 * 1000) < the (topup_gap_value bsp_umfeld bsp_buch (bsp_kandidat ''A'')))"
proof -
  have t: "topup_target_pct bsp_umfeld bsp_buch (bsp_kandidat ''A'') = 25"
    by (simp add: topup_target_pct_def clean_weight_target_pct_def conviction_target_pct_def blend_conviction_def regime_target_factor_def
        active_throttle_factor_def bsp_buch_def bsp_pf_defs von_def)
  show ?thesis using band_matches_gap [of bsp_buch "bsp_kandidat ''A''" _ bsp_umfeld] t
    by (simp add: bsp_buch_def bsp_kandidat_def PortfolioManager_def werte_ersatz_def valid_topup_band_rel_def)
qed

section \<open>The overfull book\<close>

lemma eligible_iff: "(r, k) \<in> set (overflow_eligible rank_of hold scores) \<longleftrightarrow>
    (\<exists>s. (k, s) \<in> set scores \<and> hold \<le> of_int (ps_days s) \<and> rank_of k = Some r)"
  by (induction scores) (auto simp: overflow_eligible_def map_filter_simps split: option.splits if_splits)

lemma eligible_names: "\<exists>P. map snd (overflow_eligible rank_of hold scores) = filter P (map fst scores)" if "dict_ok scores"
proof -
  let ?Q = "\<lambda>(k, s). hold \<le> of_int (ps_days s) \<and> rank_of k \<noteq> None"
  have "map snd (overflow_eligible rank_of hold scores) = map fst (filter ?Q scores)"
    by (induction scores) (auto simp: overflow_eligible_def map_filter_simps split: option.splits if_splits)
  also have "\<dots> = filter (\<lambda>k. ?Q (k, the (map_of scores k))) (map fst scores)"
  proof -
    have "filter ?Q scores = filter (\<lambda>e. ?Q (fst e, the (map_of scores (fst e)))) scores"
      by (rule filter_cong) (use that in \<open>auto simp: map_of_is_SomeI\<close>)
    then show ?thesis by (simp add: filter_map comp_def)
  qed
  finally show ?thesis by blast
qed

lemma sort_take_least:
  assumes "x \<in> set (take n (sort_key f xs))" "y \<in> set xs" "y \<notin> set (take n (sort_key f xs))"
  shows "f x \<le> f y"
proof -
  have "sorted (map f (take n (sort_key f xs) @ drop n (sort_key f xs)))" by simp
  moreover have "y \<in> set (drop n (sort_key f xs))" using assms(2,3)
    by (metis Un_iff append_take_drop_id set_append set_sort)
  ultimately show ?thesis using assms(1) by (simp only: map_append sorted_append set_map) blast
qed

text \<open>
  C19: what leaves an overfull book: each name once, no more than the excess and the budget, so the book never falls below its
  slots; only names past their holding period and with a rank, and no name is kept that ranks weaker than one that leaves.
\<close>
theorem overflow_unwinds_weakest:
  assumes "dict_ok scores" "L = select_overflow_unwind scores rank_of slots hold budget"
  shows "distinct L \<and> int (length L) \<le> max 0 (int (length scores) - slots) \<and> int (length L) \<le> max 0 budget
    \<and> list_all (\<lambda>k. \<exists>s r. (k, s) \<in> set scores \<and> hold \<le> of_int (ps_days s) \<and> rank_of k = Some r
         \<and> list_all (\<lambda>(j, t). if j \<notin> set L \<and> hold \<le> of_int (ps_days t) \<and> rank_of j \<noteq> None then the (rank_of j) \<le> r else True) scores) L"
proof (cases "int (length scores) - slots \<le> 0 \<or> budget \<le> 0")
  case True
  then show ?thesis using assms(2) by (auto simp: select_overflow_unwind_def Let_def)
next
  case False
  let ?el = "overflow_eligible rank_of hold scores"
  let ?n = "nat (min (int (length scores) - slots) budget)"
  let ?t = "take ?n (sort_key (\<lambda>e. - fst e) ?el)"
  have L: "L = map snd ?t" using False assms(2) by (simp add: select_overflow_unwind_def Let_def)
  have d: "distinct (map snd ?el)" using eligible_names [OF assms(1), of rank_of hold] assms(1) by (metis distinct_filter)
  then have "distinct (map snd (sort_key (\<lambda>e. - fst e) ?el))"
    by (metis distinct_map distinct_sort set_sort)
  then have "distinct L" by (simp add: L take_map [symmetric])
  moreover have "length L \<le> ?n" by (simp add: L)
  moreover have "\<exists>s r. (k, s) \<in> set scores \<and> hold \<le> of_int (ps_days s) \<and> rank_of k = Some r
         \<and> list_all (\<lambda>(j, t). if j \<notin> set L \<and> hold \<le> of_int (ps_days t) \<and> rank_of j \<noteq> None then the (rank_of j) \<le> r else True) scores"
    if k: "k \<in> set L" for k
  proof -
    from k obtain r where r: "(r, k) \<in> set ?t" by (auto simp: L)
    then have "(r, k) \<in> set ?el" by (metis in_set_takeD set_sort)
    then obtain s where s: "(k, s) \<in> set scores" "hold \<le> of_int (ps_days s)" "rank_of k = Some r" by (auto simp: eligible_iff)
    have "q \<le> r" if "(j, t) \<in> set scores" "j \<notin> set L" "hold \<le> of_int (ps_days t)" "rank_of j = Some q" for j t q
    proof -
      have "(q, j) \<in> set ?el" using that by (auto simp: eligible_iff)
      moreover have "(q, j) \<notin> set ?t" using that(2) by (force simp: L)
      ultimately show ?thesis using sort_take_least [OF r] by fastforce
    qed
    with s show ?thesis by (fastforce simp: list_all_iff)
  qed
  ultimately show ?thesis using False by (auto simp: list_all_iff)
qed

lemma overflow_unwinds_weakest_witness:
  "select_overflow_unwind (pm_scores bsp_buch) (\<lambda>_. Some 3) 0 0 1 = [''A'']
   \<and> distinct (select_overflow_unwind (pm_scores bsp_buch) (\<lambda>_. Some 3) 0 0 1)"
  using overflow_unwinds_weakest [of "pm_scores bsp_buch" _ "\<lambda>_. Some 3" 0 0 1]
  by (simp add: select_overflow_unwind_def overflow_eligible_def bsp_buch_def map_filter_simps Let_def)

section \<open>Two readings of the confidence\<close>

text \<open>
  In the mode of convictions the admission reads the model's prediction and the order path the conviction: a top-up that
  the band lets through can be cut to nothing by a gap to another target.
\<close>

theorem band_and_gap_read_apart:
  "topup_dead_band_reason bsp_umfeld bsp_buch (bsp_kandidat ''A'') = None
   \<and> topup_gap_capped_qty bsp_umfeld bsp_buch ((bsp_kandidat ''A'')\<lparr>ca_confidence := Fin 0\<rparr>) 10 5 = 0"
  by (simp add: topup_dead_band_reason_def topup_gap_capped_qty_def topup_gap_value_def topup_target_pct_def clean_weight_target_pct_def
      conviction_target_pct_def blend_conviction_def regime_target_factor_def active_throttle_factor_def bsp_buch_def bsp_pf_defs von_def
      valid_topup_band_rel_def Let_def)

end
