(* ===== verification/Portfolio_Rebalance.thy ===== *)
theory Portfolio_Rebalance
  imports Portfolio_Admission
begin

text \<open>
  The recommendations of a rebalancing and the summary (\<open>core/portfolio_bericht.py\<close>) and the store of the approved
  sector caps (\<open>core/governance/portfolio_constraints.py\<close>).

  The store is the JSON object of its file, \<open>[]\<close> where there is none. The mode of the sizer is the text of its
  setting. Dividing by a book of no slots is \<open>None\<close>, the exception that leaves the call.
\<close>

section \<open>The approved caps\<close>

text \<open>\<open>_valid_caps\<close> on the fields of an object; a truth value is no number.\<close>

fun valid_caps :: "(string \<times> jval) list \<Rightarrow> (string, real) pydict \<Rightarrow> (string, real) pydict" where
  "valid_caps [] d = d"
| "valid_caps ((k, v) # fs) d =
     valid_caps fs (case v of JNum r \<Rightarrow> if 0 < r \<and> r \<le> 1 then dict_set k r d else d | _ \<Rightarrow> d)"

definition load_approved_constraints :: "(string \<times> jval) list \<Rightarrow> (string, real) pydict" where
  "load_approved_constraints store = (case jget store ''approved'' of JObj fs \<Rightarrow> valid_caps fs [] | _ \<Rightarrow> [])"

definition save_pending_proposal :: "jval \<Rightarrow> (string \<times> jval) list \<Rightarrow> (string \<times> jval) list" where
  "save_pending_proposal prop store = dict_set ''pending'' prop store"

definition load_pending_proposal :: "(string \<times> jval) list \<Rightarrow> jval option" where
  "load_pending_proposal store = (case jget store ''pending'' of JObj fs \<Rightarrow> Some (JObj fs) | _ \<Rightarrow> None)"

definition commit_approved_constraints :: "(string \<times> jval) list \<Rightarrow> jval \<Rightarrow> (string \<times> jval) list \<Rightarrow> (string \<times> jval) list" where
  "commit_approved_constraints caps meta store =
     dict_del ''pending'' (dict_set ''approved_meta'' meta
       (dict_set ''approved'' (JObj (map (\<lambda>(k, r). (k, JNum r)) (valid_caps caps []))) store))"

section \<open>The drift pass\<close>

record empfehlung =
  em_name :: string
  em_reduce :: bool
  em_current :: real
  em_target :: real
  em_drift :: real
  em_adjust :: real
  em_value :: real
  em_score :: real

definition rebalance_ziel :: "string \<Rightarrow> pm \<Rightarrow> (bool \<times> real) option" where
  "rebalance_ziel setting p =
     (let md = py_lower (py_strip (if setting = [] then ''off'' else setting)); nur_deckel = (pm_trim p \<and> md \<noteq> ''a'')
      in if nur_deckel then Some (True, pm_max_pct p * 100)
         else if pm_max_positions p = 0 then None else Some (False, 100 / of_int (pm_max_positions p)))"

definition drift_von :: "pm \<Rightarrow> real \<Rightarrow> position_score \<Rightarrow> real" where
  "drift_von p target s = ps_value s / pm_capital p * 100 - target"

definition drift_empfehlung :: "(real \<Rightarrow> int) \<Rightarrow> real \<Rightarrow> pm \<Rightarrow> bool \<Rightarrow> real \<Rightarrow> string \<times> position_score \<Rightarrow> empfehlung option" where
  "drift_empfehlung et now p nur_deckel target e =
     (let d = drift_von p target (snd e)
      in if (if nur_deckel then d < pm_drift p else \<bar>d\<bar> < pm_drift p) then None
         else if \<not> can_trade_symbol et now (fst e) p then None
         else Some \<lparr>em_name = fst e, em_reduce = (0 < d), em_current = ps_value (snd e) / pm_capital p * 100, em_target = target,
                em_drift = d, em_adjust = pm_capital p * (target / 100) - ps_value (snd e), em_value = ps_value (snd e),
                em_score = ps_total (snd e)\<rparr>)"

definition drift_empfehlungen :: "(real \<Rightarrow> int) \<Rightarrow> real \<Rightarrow> pm \<Rightarrow> bool \<Rightarrow> real \<Rightarrow> empfehlung list" where
  "drift_empfehlungen et now p nur_deckel target = List.map_filter (drift_empfehlung et now p nur_deckel target) (pm_scores p)"

section \<open>The sector pass\<close>

definition existing_reduce :: "empfehlung list \<Rightarrow> (string, real) pydict" where
  "existing_reduce rs = fold (\<lambda>r d. dict_set (em_name r) \<bar>em_adjust r\<bar> d) (filter em_reduce rs) []"

definition members :: "pm \<Rightarrow> (string \<Rightarrow> string option) \<Rightarrow> string \<Rightarrow> (string, position_score) pydict" where
  "members p sector_of sector = filter (\<lambda>e. sector_of (fst e) = Some sector) (pm_scores p)"

definition summe :: "(string, position_score) pydict \<Rightarrow> real" where
  "summe es = sum_list (map (\<lambda>e. ps_value (snd e)) es)"

definition ueberschuss :: "pm \<Rightarrow> (string, real) pydict \<Rightarrow> real \<Rightarrow> (string, position_score) pydict \<Rightarrow> real" where
  "ueberschuss p existing cap ms =
     summe ms - cap * pm_capital p - sum_list (map (\<lambda>e. case map_of existing (fst e) of None \<Rightarrow> 0 | Some v \<Rightarrow> v) ms)"

definition eligible_members :: "(real \<Rightarrow> int) \<Rightarrow> real \<Rightarrow> pm \<Rightarrow> (string, real) pydict \<Rightarrow> (string, position_score) pydict \<Rightarrow> (string, position_score) pydict" where
  "eligible_members et now p existing ms = filter (\<lambda>e. map_of existing (fst e) = None \<and> can_trade_symbol et now (fst e) p) ms"

definition sektor_anteil :: "pm \<Rightarrow> real \<Rightarrow> real \<Rightarrow> real \<Rightarrow> real \<Rightarrow> string \<times> position_score \<Rightarrow> empfehlung option" where
  "sektor_anteil p cap sector_pct planned ev e =
     (let share = planned * (ps_value (snd e) / ev)
      in if share \<le> 0 then None
         else Some \<lparr>em_name = fst e, em_reduce = True, em_current = ps_value (snd e) / pm_capital p * 100, em_target = cap * 100,
                em_drift = (sector_pct - cap) * 100, em_adjust = - share, em_value = ps_value (snd e), em_score = ps_total (snd e)\<rparr>)"

definition sektor_reduktionen ::
  "(real \<Rightarrow> int) \<Rightarrow> real \<Rightarrow> pm \<Rightarrow> (string \<Rightarrow> string option) \<Rightarrow> (string, real) pydict \<Rightarrow> string \<Rightarrow> real \<Rightarrow> empfehlung list" where
  "sektor_reduktionen et now p sector_of existing sector cap =
     (let ms = members p sector_of sector; pct = summe ms / pm_capital p; x = ueberschuss p existing cap ms;
          el = eligible_members et now p existing ms; ev = summe el; planned = min x ev
      in if ms = [] \<or> pct \<le> cap \<or> x \<le> 0 then []
         else if 0 < planned \<and> 0 < ev then List.map_filter (sektor_anteil p cap pct planned ev) el else [])"

text \<open>No map of the sectors is an empty one.\<close>

definition sektor_deckel_empfehlungen ::
  "(real \<Rightarrow> int) \<Rightarrow> real \<Rightarrow> (string \<times> jval) list \<Rightarrow> (string, string) pydict \<Rightarrow> empfehlung list \<Rightarrow> pm \<Rightarrow> empfehlung list" where
  "sektor_deckel_empfehlungen et now store sector_map rs p =
     (if load_approved_constraints store = [] \<or> sector_map = [] then []
      else concat (map (\<lambda>(sector, cap). sektor_reduktionen et now p (map_of sector_map) (existing_reduce rs) sector cap)
                    (load_approved_constraints store)))"

text \<open>The largest drift first, equal ones in their order. The refresh at the start has its answers as arguments.\<close>

definition get_rebalance_recommendations ::
  "pm_cfg option \<Rightarrow> (real \<Rightarrow> int) \<Rightarrow> real \<Rightarrow> string \<Rightarrow> (string \<times> jval) list \<Rightarrow> (string, string) pydict \<Rightarrow> konto_antwort \<Rightarrow> broker_pos list option
     \<Rightarrow> pm \<Rightarrow> pm \<times> empfehlung list option" where
  "get_rebalance_recommendations c et now setting store sector_map a answer p0 =
     (let p = refresh_positions c now a answer p0
      in (p, if pm_scores p = [] \<or> pm_capital p \<le> 0 then Some []
             else (case rebalance_ziel setting p of
                     None \<Rightarrow> None
                   | Some (nur_deckel, target) \<Rightarrow>
                       (let rs = drift_empfehlungen et now p nur_deckel target
                        in Some (sort_key (\<lambda>r. - \<bar>em_drift r\<bar>) (rs @ sektor_deckel_empfehlungen et now store sector_map rs p))))))"

section \<open>The summary\<close>

record zusammenfassung =
  zf_count :: nat
  zf_value :: real
  zf_pnl :: real
  zf_pnl_pct :: real
  zf_average :: real
  zf_weakest :: "(string \<times> real \<times> real) option"
  zf_strongest :: "(string \<times> real \<times> real) option"

definition get_portfolio_summary :: "pm_cfg option \<Rightarrow> real \<Rightarrow> konto_antwort \<Rightarrow> broker_pos list option \<Rightarrow> pm \<Rightarrow> pm \<times> zusammenfassung" where
  "get_portfolio_summary c now a answer p0 =
     (let p = refresh_positions c now a answer p0; v = summe (pm_scores p); g = sum_list (map (\<lambda>e. ps_pnl (snd e)) (pm_scores p));
          n = length (pm_scores p); zeile = map_option (\<lambda>s. (ps_symbol s, ps_total s, ps_pnl_pct s))
      in (p, if pm_scores p = []
             then \<lparr>zf_count = 0, zf_value = 0, zf_pnl = 0, zf_pnl_pct = 0, zf_average = 0, zf_weakest = None, zf_strongest = None\<rparr>
             else \<lparr>zf_count = n, zf_value = v, zf_pnl = g, zf_pnl_pct = (if g < v then g / (v - g) * 100 else 0),
                    zf_average = sum_list (map (\<lambda>e. ps_total (snd e)) (pm_scores p)) / real n,
                    zf_weakest = zeile (get_weakest_position p), zf_strongest = zeile (get_strongest_position p)\<rparr>))"

definition get_debate_history :: "nat \<Rightarrow> pm \<Rightarrow> debate list" where
  "get_debate_history limit p = (if limit = 0 then pm_debates p else drop (length (pm_debates p) - limit) (pm_debates p))"

section \<open>The trim of what is too large\<close>

text \<open>
  The lever of \<open>core/engine/ausstieg_hebel.py\<close> over the recommendations: what one of them sells, and the loop with
  the count of the session. The dispatch of the sale is left out.
\<close>

definition trim_qty :: "pm_cfg option \<Rightarrow> real \<Rightarrow> string set \<Rightarrow> pm \<Rightarrow> empfehlung \<Rightarrow> real option" where
  "trim_qty c min_order acted p r =
     (let held = (case map_of (pm_scores p) (em_name r) of None \<Rightarrow> 0 | Some s \<Rightarrow> ps_qty s);
          price = (case map_of (pm_scores p) (em_name r) of None \<Rightarrow> 0 | Some s \<Rightarrow> ps_price s);
          q = held * min 1 (\<bar>em_adjust r\<bar> / em_value r)
      in if \<not> em_reduce r \<or> em_name r \<in> acted \<or> em_value r \<le> 0 \<or> held \<le> 0 \<or> q \<le> 0 then None
         else if 0 < price \<and> q * price < min_order then None
         else if consensus_retains c (em_name r) ''trim'' p then None
         else Some q)"

fun trim_loop :: "pm_cfg option \<Rightarrow> real \<Rightarrow> int \<Rightarrow> real \<Rightarrow> string set \<Rightarrow> empfehlung list \<Rightarrow> pm \<Rightarrow> int \<Rightarrow> pm \<times> int \<times> (string \<times> real) list" where
  "trim_loop c now cap min_order acted [] p n = (p, n, [])"
| "trim_loop c now cap min_order acted (r # rs) p n =
     (if 0 < cap \<and> cap \<le> n then (p, n, [])
      else (case trim_qty c min_order acted p r of
              None \<Rightarrow> trim_loop c now cap min_order acted rs p n
            | Some q \<Rightarrow> (case trim_loop c now cap min_order (insert (em_name r) acted) rs (record_pm_trade now (em_name r) ''sell'' p) (n + 1) of
                           (p1, n1, sold) \<Rightarrow> (p1, n1, (em_name r, q) # sold))))"

section \<open>The approved caps come back\<close>

lemma valid_caps_ok: "dict_ok d \<Longrightarrow> dict_ok (valid_caps fs d)"
  by (induction fs d rule: valid_caps.induct) (auto split: jval.splits)

lemma valid_caps_range: "\<forall>e \<in> set d. 0 < snd e \<and> snd e \<le> 1 \<Longrightarrow> \<forall>e \<in> set (valid_caps fs d). 0 < snd e \<and> snd e \<le> 1"
proof (induction fs d rule: valid_caps.induct)
  case (2 k v fs d)
  have "\<forall>e \<in> set (case v of JNum r \<Rightarrow> if 0 < r \<and> r \<le> 1 then dict_set k r d else d | _ \<Rightarrow> d). 0 < snd e \<and> snd e \<le> 1"
    using 2(2) by (cases v) (auto dest: set_dict_set)
  then show ?case using 2(1) by simp
qed simp

lemma valid_caps_again:
  "dict_ok (d @ e) \<Longrightarrow> \<forall>x \<in> set e. 0 < snd x \<and> snd x \<le> 1 \<Longrightarrow> valid_caps (map (\<lambda>(k, r). (k, JNum r)) e) d = d @ e"
proof (induction e arbitrary: d)
  case (Cons x e)
  obtain k r where x: "x = (k, r)" by (cases x)
  have "k \<notin> fst ` set d" using Cons.prems(1) by (auto simp: x)
  then have "dict_set k r d = d @ [(k, r)]" by (rule dict_set_new)
  then show ?case using Cons by (simp add: x)
qed simp

lemma jget_set [simp]: "jget (dict_set k v d) j = (if j = k then v else jget d j)"
  by (simp add: jget_def)

lemma jget_del [simp]: "jget (dict_del k d) j = (if j = k then JNull else jget d j)"
  by (simp add: jget_def)

text \<open>
  caps that were committed are read back exactly, without the ones that are no share of the book, and each of them lies
  above 0 and at most at 1; the proposal is gone from the store, and a proposal alone changes no cap in force.
\<close>
theorem approved_caps_come_back:
  "load_approved_constraints (commit_approved_constraints caps meta store) = valid_caps caps []
   \<and> list_all (\<lambda>(_, r). 0 < r \<and> r \<le> 1) (valid_caps caps [])
   \<and> load_pending_proposal (commit_approved_constraints caps meta store) = None
   \<and> load_approved_constraints (save_pending_proposal prop store) = load_approved_constraints store"
proof -
  have r: "\<forall>e \<in> set (valid_caps caps []). 0 < snd e \<and> snd e \<le> 1" by (rule valid_caps_range) simp
  have "valid_caps (map (\<lambda>(k, r). (k, JNum r)) (valid_caps caps [])) [] = valid_caps caps []"
    using valid_caps_again [of "[]" "valid_caps caps []"] valid_caps_ok [of "[]" caps] r by simp
  then show ?thesis using r
    by (auto simp: load_approved_constraints_def commit_approved_constraints_def load_pending_proposal_def save_pending_proposal_def list_all_iff)
qed

section \<open>What the sector pass leaves\<close>

lemma existing_nonneg: "\<forall>e \<in> set (existing_reduce rs). 0 \<le> snd e"
proof -
  have "\<forall>e \<in> set d. 0 \<le> snd e \<Longrightarrow> \<forall>e \<in> set (fold (\<lambda>r d. dict_set (em_name r) \<bar>em_adjust r\<bar> d) xs d). 0 \<le> snd e" for xs d
  proof (induction xs arbitrary: d)
    case (Cons r xs)
    from Cons.prems have "\<forall>e \<in> set (dict_set (em_name r) \<bar>em_adjust r\<bar> d). 0 \<le> snd e" by (intro dict_set_all) auto
    then show ?case using Cons.IH by simp
  qed simp
  then show ?thesis unfolding existing_reduce_def by this simp
qed

abbreviation cut_before :: "(string, real) pydict \<Rightarrow> (string, position_score) pydict \<Rightarrow> real" where
  "cut_before existing ms \<equiv> sum_list (map (\<lambda>e. case map_of existing (fst e) of None \<Rightarrow> 0 | Some v \<Rightarrow> v) ms)"

lemma cut_nonneg: "0 \<le> cut_before (existing_reduce rs) ms"
  by (rule sum_list_nonneg) (use existing_nonneg in \<open>fastforce split: option.split dest: map_of_SomeD\<close>)

lemma anteile:
  assumes "\<forall>e \<in> set es. 0 \<le> ps_value (snd e)" "0 < planned" "planned \<le> ev" "0 < ev"
  shows "sum_list (map em_adjust (List.map_filter (sektor_anteil p cap pct planned ev) es)) = - planned * (summe es / ev)
    \<and> (\<forall>r \<in> set (List.map_filter (sektor_anteil p cap pct planned ev) es). 0 < - em_adjust r \<and> - em_adjust r \<le> em_value r)"
  using assms(1)
proof (induction es)
  case (Cons e es)
  let ?s = "planned * (ps_value (snd e) / ev)"
  have v: "0 \<le> ps_value (snd e)" using Cons.prems by simp
  then have nn: "0 \<le> ?s" using assms by simp
  have le: "?s \<le> ps_value (snd e)"
  proof -
    have "planned / ev * ps_value (snd e) \<le> 1 * ps_value (snd e)" using assms v by (intro mult_right_mono) auto
    then show ?thesis by (simp add: mult.commute)
  qed
  show ?case
  proof (cases "?s \<le> 0")
    case True
    then have "?s = 0" using nn by simp
    then have "ps_value (snd e) = 0" using assms by simp
    then show ?thesis using Cons True by (simp add: map_filter_simps sektor_anteil_def Let_def summe_def)
  next
    case False
    then show ?thesis using Cons le
      by (simp add: map_filter_simps sektor_anteil_def Let_def summe_def add_divide_distrib distrib_left)
  qed
qed (simp add: map_filter_simps summe_def)

lemma nothing_over:
  assumes "0 < pm_capital p" "0 \<le> cut_before ex ms"
    "ms = [] \<or> summe ms / pm_capital p \<le> cap \<or> ueberschuss p ex cap ms \<le> 0"
  shows "ueberschuss p ex cap ms \<le> 0 \<or> (ms = [] \<and> cap < 0)"
  using assms(3)
proof (elim disjE)
  assume "ms = []"
  then show ?thesis using assms(1) by (auto simp: ueberschuss_def summe_def not_less)
next
  assume "summe ms / pm_capital p \<le> cap"
  then have "summe ms \<le> cap * pm_capital p" using assms(1) by (simp add: pos_divide_le_eq)
  then show ?thesis using assms(2) by (simp add: ueberschuss_def)
qed simp

text \<open>
  C21: the reductions of a sector, together with what the drift pass already takes from it, bring it to its cap and never below,
  or as near as the names that may be traded allow; and no reduction exceeds its position.
\<close>
theorem sector_pass_meets_cap:
  assumes "0 < pm_capital p" "list_all (\<lambda>e. 0 \<le> ps_value (snd e)) (pm_scores p)"
    and "RS = sektor_reduktionen et now p sector_of (existing_reduce rs) sector cap" "ms = members p sector_of sector"
    and "rest = summe ms - cut_before (existing_reduce rs) ms + sum_list (map em_adjust RS)"
  shows "rest \<le> max (cap * pm_capital p) (summe ms - cut_before (existing_reduce rs) ms - summe (eligible_members et now p (existing_reduce rs) ms))
    \<and> min (cap * pm_capital p) (summe ms - cut_before (existing_reduce rs) ms) \<le> rest
    \<and> list_all (\<lambda>r. 0 < - em_adjust r \<and> - em_adjust r \<le> em_value r) RS"
proof -
  let ?ex = "existing_reduce rs"
  let ?el = "eligible_members et now p ?ex ms"
  let ?ev = "summe ?el"
  let ?x = "ueberschuss p ?ex cap ms"
  have x: "?x = summe ms - cap * pm_capital p - cut_before ?ex ms" by (simp add: ueberschuss_def)
  have nn: "\<forall>e \<in> set ?el. 0 \<le> ps_value (snd e)"
    using assms(2) by (auto simp: eligible_members_def members_def assms(4) list_all_iff)
  then have ev: "0 \<le> ?ev" by (auto simp: summe_def intro!: sum_list_nonneg)
  have c: "0 \<le> cut_before ?ex ms" by (rule cut_nonneg)
  show ?thesis
  proof (cases "ms = [] \<or> summe ms / pm_capital p \<le> cap \<or> ?x \<le> 0")
    case True
    then have RS: "RS = []" by (auto simp: assms(3,4) sektor_reduktionen_def Let_def)
    have "?x \<le> 0 \<or> (ms = [] \<and> cap < 0)" using True by (rule nothing_over [OF assms(1) c])
    then show ?thesis using RS x c ev assms(5) by (auto simp: summe_def eligible_members_def)
  next
    case False
    let ?pl = "min ?x ?ev"
    show ?thesis
    proof (cases "0 < ?pl \<and> 0 < ?ev")
      case True
      then have RS: "RS = List.map_filter (sektor_anteil p cap (summe ms / pm_capital p) ?pl ?ev) ?el"
        using False by (simp add: assms(3,4) sektor_reduktionen_def Let_def)
      from anteile [OF nn, of ?pl ?ev p cap "summe ms / pm_capital p"] True
      have s: "sum_list (map em_adjust RS) = - ?pl" "\<forall>r \<in> set RS. 0 < - em_adjust r \<and> - em_adjust r \<le> em_value r"
        by (simp_all add: RS)
      have "cap * pm_capital p = summe ms - cut_before ?ex ms - ?x" by (simp add: x)
      moreover have "rest = summe ms - cut_before ?ex ms - ?pl" by (simp add: assms(5) s(1))
      ultimately show ?thesis using True s(2) unfolding list_all_iff by linarith
    next
      case False2: False
      then have RS: "RS = []" using False by (auto simp: assms(3,4) sektor_reduktionen_def Let_def)
      have "?ev = 0" using False False2 ev by auto
      then show ?thesis using RS assms(5) by simp
    qed
  qed
qed

definition bsp_sektor :: "string \<Rightarrow> string option" where "bsp_sektor _ = Some ''Tech''"

definition bsp_grossbuch :: pm where
  "bsp_grossbuch = (PortfolioManager None 1000 10)\<lparr>pm_refresh_ok := True, pm_scores := [(''A'', \<lparr>ps_symbol = ''A'', ps_qty = 3, ps_avg_entry = 100,
     ps_price = 100, ps_value = 300, ps_pnl = 0, ps_pnl_pct = 0, ps_momentum = 50, ps_conviction = 50, ps_risk_adjusted = 50,
     ps_holding = 30, ps_total = 46, ps_days = 0, ps_age_known = False\<rparr>)]\<rparr>"

lemma sector_pass_meets_cap_witness:
  "list_all (\<lambda>r. - em_adjust r \<le> em_value r) (sektor_reduktionen (\<lambda>_. 0) 0 bsp_grossbuch bsp_sektor (existing_reduce []) ''Tech'' (1/5))"
  using sector_pass_meets_cap [of bsp_grossbuch _ "\<lambda>_. 0" 0 bsp_sektor "[]" "''Tech''" "1/5", OF _ _ refl refl refl]
  by (simp add: bsp_grossbuch_def PortfolioManager_def werte_ersatz_def list_all_iff)

section \<open>A name that is to grow and to shrink\<close>

text \<open>
  In the mode of equal weights a name below its slot is recommended to grow by the drift pass and to shrink by the sector
  pass, in the same answer: only reductions of the first pass are counted by the second.
\<close>

theorem grow_and_shrink:
  "let p = bsp_grossbuch\<lparr>pm_max_positions := 2\<rparr>; rs = drift_empfehlungen (\<lambda>_. 0) 0 p False 50
   in map em_name rs = [''A''] \<and> map em_reduce rs = [False]
      \<and> map em_name (sektor_reduktionen (\<lambda>_. 0) 0 p bsp_sektor (existing_reduce rs) ''Tech'' (1/5)) = [''A'']
      \<and> map em_reduce (sektor_reduktionen (\<lambda>_. 0) 0 p bsp_sektor (existing_reduce rs) ''Tech'' (1/5)) = [True]"
  by (simp add: bsp_grossbuch_def PortfolioManager_def werte_ersatz_def drift_empfehlungen_def drift_empfehlung_def drift_von_def map_filter_simps
      can_trade_symbol_def can_trade_symbol_when_room_def existing_reduce_def sektor_reduktionen_def members_def bsp_sektor_def summe_def
      ueberschuss_def eligible_members_def sektor_anteil_def Let_def)

text \<open>Without a map of the sectors, which no caller hands over, approved caps change no recommendation.\<close>

theorem caps_without_map_do_nothing:
  "get_rebalance_recommendations c et now setting store [] a answer p = get_rebalance_recommendations c et now setting [] [] a answer p"
  by (simp add: get_rebalance_recommendations_def sektor_deckel_empfehlungen_def Let_def split: option.split prod.split)

section \<open>What a trim sells\<close>

lemma record_scores [simp]: "pm_scores (record_pm_trade now name side p) = pm_scores p"
  by (simp add: record_pm_trade_def Let_def)

lemma trim_qty_held:
  assumes "trim_qty c min_order acted p r = Some q"
  shows "\<exists>s. map_of (pm_scores p) (em_name r) = Some s \<and> 0 < q \<and> q \<le> ps_qty s \<and> em_name r \<notin> acted"
proof (cases "map_of (pm_scores p) (em_name r)")
  case (Some s)
  have q: "q = ps_qty s * min 1 (\<bar>em_adjust r\<bar> / em_value r)" "0 < q" "0 < ps_qty s" "em_name r \<notin> acted"
    using assms Some by (auto simp: trim_qty_def Let_def split: if_splits)
  have "ps_qty s * min 1 (\<bar>em_adjust r\<bar> / em_value r) \<le> ps_qty s * 1" using q(3) by (intro mult_left_mono) auto
  with q Some show ?thesis by simp
qed (use assms in \<open>auto simp: trim_qty_def Let_def split: if_splits\<close>)

text \<open>
  the trims of a pass sell each name once and none that was acted on already, never more than is held, and with a cap
  on the session they stop at it, whatever the recommendations say.
\<close>
theorem trims_bounded:
  assumes "trim_loop c now cap min_order acted rs p n = (p', n', sold)"
  shows "distinct (map fst sold) \<and> set (map fst sold) \<inter> acted = {} \<and> n' = n + int (length sold)
    \<and> (if 0 < cap then n' \<le> max n cap else True)
    \<and> list_all (\<lambda>(name, q). \<exists>s. map_of (pm_scores p) name = Some s \<and> 0 < q \<and> q \<le> ps_qty s) sold"
  using assms
proof (induction rs arbitrary: acted p n p' n' sold)
  case (Cons r rs)
  show ?case
  proof (cases "(0 < cap \<and> cap \<le> n) \<or> trim_qty c min_order acted p r = None")
    case True
    then show ?thesis using Cons.IH [of acted p n p' n' sold] Cons.prems by (auto split: if_splits option.splits)
  next
    case False
    then obtain q where q: "trim_qty c min_order acted p r = Some q" by auto
    obtain p1 n1 s1 where l: "trim_loop c now cap min_order (insert (em_name r) acted) rs (record_pm_trade now (em_name r) ''sell'' p) (n + 1) = (p1, n1, s1)"
      by (cases "trim_loop c now cap min_order (insert (em_name r) acted) rs (record_pm_trade now (em_name r) ''sell'' p) (n + 1)")
    have e: "n' = n1" "sold = (em_name r, q) # s1" using Cons.prems False q l by (auto split: if_splits)
    show ?thesis using Cons.IH [OF l] trim_qty_held [OF q] False by (auto simp: e)
  qed
qed simp

lemma trims_bounded_witness:
  "snd (snd (trim_loop None 0 3 1 {} [\<lparr>em_name = ''A'', em_reduce = True, em_current = 30, em_target = 25, em_drift = 5, em_adjust = -50, em_value = 300, em_score = 46\<rparr>] bsp_grossbuch 0))
     = [(''A'', 1/2)] \<and> (1/2::real) \<le> 3"
proof -
  have l: "trim_loop None 0 3 1 {} [\<lparr>em_name = ''A'', em_reduce = True, em_current = 30, em_target = 25, em_drift = 5, em_adjust = -50, em_value = 300, em_score = 46\<rparr>] bsp_grossbuch 0
     = (record_pm_trade 0 ''A'' ''sell'' bsp_grossbuch, 1, [(''A'', 1/2)])"
    by (simp add: trim_qty_def bsp_grossbuch_def PortfolioManager_def werte_ersatz_def consensus_retains_def consensus_retention_veto_def von_def Let_def)
  show ?thesis using trims_bounded [OF l] l by (simp add: bsp_grossbuch_def)
qed

end
